(* ===== verification/Nfc_Prelude.thy ===== *)
theory Nfc_Prelude
  imports Main "HOL-Library.Word"
begin

text \<open>
  Shared vocabulary of the development: the machine integers of the C sources, the error
  values their functions return, byte pointers, big- and little-endian accessors, and the generic
  lemmas on sums, lists and words that the component theories use.

  Conventions.
  \<^item> \<open>uint8_t\<close>, \<open>uint16_t\<close>, \<open>uint32_t\<close> and \<open>size_t\<close> (32 bits on the Cortex-M targets) are words.
  \<^item> A function that returns 0 or a negative \<open>errno\<close> returns a sum: \<open>Inl e\<close> for \<open>-e\<close>, \<open>Inr\<close> for 0
    together with everything the function stored through its output pointers.
  \<^item> A byte pointer is \<open>None\<close> (NULL) or \<open>Some xs\<close>, where \<open>xs\<close> are the bytes that can be accessed
    from the pointer up to the end of the object it points into; advancing it is \<open>drop\<close>.
  \<^item> An access outside the object (or through NULL) is undefined behaviour in C. It is the error
    value \<open>UB\<close> here, so that memory safety is a theorem and not an assumption.
  The accessors \<open>sys_get_be16\<close>, \<open>sys_put_be16\<close>, \<open>sys_get_be32\<close>, \<open>sys_cpu_to_be32\<close>,
  \<open>sys_get_le16\<close> are the platform's byte-order conversions, fixed by their meaning.
\<close>

unbundle bit_operations_syntax

section \<open>Machine types and error values\<close>

type_synonym u8 = "8 word"
type_synonym u16 = "16 word"
type_synonym u32 = "32 word"

datatype err =
    EPERM | EIO | E2BIG | EAGAIN | ENOMEM | EACCES | EFAULT | EINVAL | ENOSR | ENOTSUP | EALREADY | EHASHFF | EHASHINV | ESIGINV
  | ISODEP_SYNTAX_ERROR | ISODEP_SEMANTIC_ERROR | ISODEP_TRANSMISSION_ERROR | ISODEP_TIMEOUT_ERROR
  | UB

type_synonym 'a res = "err + 'a"
type_synonym ptr = "u8 list option"

text \<open>An output buffer: \<open>None\<close> for a NULL buffer, otherwise the memory and the capacity \<open>*len\<close>.\<close>

type_synonym wbuf = "(u8 list \<times> u32) option"

named_theorems resE \<open>unfolding of successful results\<close>
named_theorems mem_simps \<open>memory reads and writes\<close>

section \<open>Sequencing of fallible operations\<close>

definition bindE :: "'e + 'a \<Rightarrow> ('a \<Rightarrow> 'e + 'b) \<Rightarrow> 'e + 'b" where
  "bindE m f = (case m of Inl e \<Rightarrow> Inl e | Inr x \<Rightarrow> f x)"

definition guardE :: "bool \<Rightarrow> 'e \<Rightarrow> 'e + unit" where
  "guardE b e = (if b then Inr () else Inl e)"

lemma bindE_simps [simp]: "bindE (Inl e) f = Inl e" "bindE (Inr x) f = f x"
  by (simp_all add: bindE_def)

lemma guardE_simps [simp]: "guardE True e = Inr ()" "guardE False e = Inl e"
  by (simp_all add: guardE_def)

lemma bindE_cong [fundef_cong]:
  "m = n \<Longrightarrow> (\<And>x. n = Inr x \<Longrightarrow> f x = g x) \<Longrightarrow> bindE m f = bindE n g"
  by (auto simp: bindE_def split: sum.split)

lemma bindE_eq_Inr [resE]: "bindE m f = Inr y \<longleftrightarrow> (\<exists>x. m = Inr x \<and> f x = Inr y)"
  by (cases m) auto

lemma bindE_eq_Inl: "bindE m f = Inl e \<longleftrightarrow> m = Inl e \<or> (\<exists>x. m = Inr x \<and> f x = Inl e)"
  by (cases m) auto

lemma guardE_eq_Inr [resE]: "guardE b e = Inr u \<longleftrightarrow> b"
  by (simp add: guardE_def)

lemma guardE_eq_Inl: "guardE b e = Inl e' \<longleftrightarrow> \<not> b \<and> e' = e"
  by (auto simp: guardE_def)

lemma if_Inl_eq_Inr [resE]: "(if b then Inl e else r) = Inr y \<longleftrightarrow> \<not> b \<and> r = Inr y"
  by simp

text \<open>A call whose error code the caller looks at; undefined behaviour stays undefined.\<close>

definition on_err :: "'a res \<Rightarrow> (err \<Rightarrow> 'b res) \<Rightarrow> ('a \<Rightarrow> 'b res) \<Rightarrow> 'b res" where
  "on_err m h f = (case m of Inl e \<Rightarrow> if e = UB then Inl UB else h e | Inr x \<Rightarrow> f x)"

lemma on_err_simps [simp]:
  "on_err (Inr x) h f = f x" "on_err (Inl UB) h f = Inl UB" "e \<noteq> UB \<Longrightarrow> on_err (Inl e) h f = h e"
  by (simp_all add: on_err_def)

lemma on_err_cases:
  assumes "m \<noteq> Inl UB"
  obtains (err) e where "m = Inl e" "e \<noteq> UB" "on_err m h f = h e"
    | (ok) x where "m = Inr x" "on_err m h f = f x"
  using assms by (cases m) auto

text \<open>Adding the elements of a list one after the other, stopping at the first error.\<close>

fun foldE :: "('s \<Rightarrow> 'r \<Rightarrow> 'e + 's) \<Rightarrow> 's \<Rightarrow> 'r list \<Rightarrow> 'e + 's" where
  "foldE f s [] = Inr s"
| "foldE f s (r # rs) = bindE (f s r) (\<lambda>s'. foldE f s' rs)"

lemma bindE_assoc: "bindE (bindE m f) g = bindE m (\<lambda>x. bindE (f x) g)"
  by (cases m) simp_all

lemma bindE_Inr_right [simp]: "bindE m Inr = m"
  by (cases m) simp_all

lemma foldE_append: "foldE f s (xs @ ys) = bindE (foldE f s xs) (\<lambda>s'. foldE f s' ys)"
  by (induction xs arbitrary: s) (simp_all add: bindE_assoc)

lemma foldE_map: "foldE f s (map g xs) = foldE (\<lambda>s x. f s (g x)) s xs"
  by (induction xs arbitrary: s) simp_all

lemma foldE_cong: "(\<And>x s. x \<in> set xs \<Longrightarrow> f s x = g s x) \<Longrightarrow> foldE f s xs = foldE g s xs"
proof (induction xs arbitrary: s)
  case (Cons x xs)
  have "foldE f s' xs = foldE g s' xs" for s' by (rule Cons.IH) (simp add: Cons.prems)
  then show ?case by (simp add: Cons.prems)
qed simp

section \<open>Bounded collections\<close>

text \<open>The contract of the descriptors that collect items in an array given by the caller: messages,
  handover records and alternative carrier records. \<open>items\<close> and \<open>capacity\<close> are the abstract view.\<close>

locale bounded_list =
  fixes add :: "'s \<Rightarrow> 'r \<Rightarrow> err + 's"
    and clear :: "'s \<Rightarrow> 's"
    and items :: "'s \<Rightarrow> 'r list"
    and capacity :: "'s \<Rightarrow> nat"
    and inv :: "'s \<Rightarrow> bool"
    and full :: err
  assumes add_fits: "inv s \<Longrightarrow> length (items s) < capacity s \<Longrightarrow>
      \<exists>s'. add s r = Inr s' \<and> inv s' \<and> items s' = items s @ [r] \<and> capacity s' = capacity s"
    and add_full: "inv s \<Longrightarrow> capacity s \<le> length (items s) \<Longrightarrow> add s r = Inl full"
    and clear_ok: "inv s \<Longrightarrow> inv (clear s) \<and> items (clear s) = [] \<and> capacity (clear s) = capacity s"
begin

lemma add_all:
  "inv s \<Longrightarrow>
   if length (items s) + length rs \<le> max (capacity s) (length (items s))
   then \<exists>s'. foldE add s rs = Inr s' \<and> inv s' \<and> items s' = items s @ rs \<and> capacity s' = capacity s
   else foldE add s rs = Inl full"
proof (induction rs arbitrary: s)
  case (Cons r rs)
  show ?case
  proof (cases "length (items s) < capacity s")
    case True
    from add_fits [OF Cons.prems True, of r] obtain s' where
      s': "add s r = Inr s'" "inv s'" "items s' = items s @ [r]" "capacity s' = capacity s"
      by blast
    show ?thesis using Cons.IH [OF s'(2)] s' True by (auto split: if_splits)
  next
    case False
    then show ?thesis using add_full [OF Cons.prems, of r] by simp
  qed
qed simp

lemma add_all_fits:
  assumes "inv s" "length (items s) + length rs \<le> capacity s"
  shows "\<exists>s'. foldE add s rs = Inr s' \<and> inv s' \<and> items s' = items s @ rs \<and> capacity s' = capacity s"
  using add_all [OF assms(1), of rs] assms(2) by (simp add: max_def split: if_splits)

lemma add_no_ub: "inv s \<Longrightarrow> full \<noteq> UB \<Longrightarrow> add s r \<noteq> Inl UB"
  using add_fits [of s r] add_full [of s r] by (cases "length (items s) < capacity s") auto

end

section \<open>Memory accesses\<close>

definition mem_byte :: "u8 list \<Rightarrow> nat \<Rightarrow> u8 res" where
  "mem_byte xs i = (if i < length xs then Inr (xs ! i) else Inl UB)"

text \<open>\<open>memcpy\<close> from a pointer; copying no bytes does not touch the memory.\<close>

definition mem_read :: "ptr \<Rightarrow> nat \<Rightarrow> u8 list res" where
  "mem_read p n = (if n = 0 then Inr []
     else case p of None \<Rightarrow> Inl UB
          | Some xs \<Rightarrow> if n \<le> length xs then Inr (take n xs) else Inl UB)"

definition mem_write :: "u8 list \<Rightarrow> nat \<Rightarrow> u8 list \<Rightarrow> u8 list res" where
  "mem_write mem off bs =
     (if off + length bs \<le> length mem
      then Inr (take off mem @ bs @ drop (off + length bs) mem) else Inl UB)"

text \<open>A pointer and a length describe a readable block.\<close>

definition readable :: "ptr \<Rightarrow> nat \<Rightarrow> bool" where
  "readable p n \<longleftrightarrow> n = 0 \<or> (\<exists>xs. p = Some xs \<and> n \<le> length xs)"

lemma readable_code [code]:
  "readable p n \<longleftrightarrow> n = 0 \<or> (case p of None \<Rightarrow> False | Some xs \<Rightarrow> n \<le> length xs)"
  by (auto simp: readable_def split: option.splits)

definition block :: "ptr \<Rightarrow> nat \<Rightarrow> u8 list" where
  "block p n = (case p of None \<Rightarrow> [] | Some xs \<Rightarrow> take n xs)"

lemma mem_byte_eq_Inr [resE]: "mem_byte xs i = Inr b \<longleftrightarrow> i < length xs \<and> b = xs ! i"
  by (auto simp: mem_byte_def)

lemma mem_byte_in [mem_simps]: "i < length xs \<Longrightarrow> mem_byte xs i = Inr (xs ! i)"
  by (simp add: mem_byte_def)

lemma mem_read_block [mem_simps]: "readable p n \<Longrightarrow> mem_read p n = Inr (block p n)"
  by (auto simp: mem_read_def readable_def block_def split: option.split)

lemma mem_read_eq_Inr [resE]: "mem_read p n = Inr bs \<longleftrightarrow> readable p n \<and> bs = block p n"
  by (auto simp: mem_read_def readable_def block_def split: option.splits)

lemma length_block [mem_simps]: "readable p n \<Longrightarrow> length (block p n) = n"
  by (auto simp: readable_def block_def split: option.split)

lemma block_0 [simp]: "block p 0 = []"
  by (simp add: block_def split: option.split)

lemma readable_0 [simp]: "readable p 0"
  by (simp add: readable_def)

lemma readable_Some [simp]: "readable (Some xs) n \<longleftrightarrow> n \<le> length xs"
  by (auto simp: readable_def)

lemma block_Some [simp]: "block (Some xs) n = take n xs"
  by (simp add: block_def)

lemma mem_write_ok [mem_simps]:
  "off + length bs \<le> length mem \<Longrightarrow>
   mem_write mem off bs = Inr (take off mem @ bs @ drop (off + length bs) mem)"
  by (simp add: mem_write_def)

lemma mem_write_0 [mem_simps]:
  "length bs \<le> length mem \<Longrightarrow> mem_write mem 0 bs = Inr (bs @ drop (length bs) mem)"
  by (simp add: mem_write_def)

lemma mem_write_eq_Inr [resE]:
  "mem_write mem off bs = Inr m \<longleftrightarrow>
   off + length bs \<le> length mem \<and> m = take off mem @ bs @ drop (off + length bs) mem"
  by (auto simp: mem_write_def)

lemma mem_write_append:
  "length a = off \<Longrightarrow> length b = length bs \<Longrightarrow> mem_write (a @ b @ c) off bs = Inr (a @ bs @ c)"
  by (auto simp: mem_write_def)

lemma split_at_length:
  assumes "n \<le> length xs"
  obtains a b where "xs = a @ b" "length a = n" "b = drop n xs"
  using assms by (metis append_take_drop_id length_take min_absorb2)

section \<open>Byte order\<close>

definition be16 :: "u8 \<Rightarrow> u8 \<Rightarrow> u16" where
  "be16 a b = push_bit 8 (ucast a) OR ucast b"

definition put_be16 :: "u16 \<Rightarrow> u8 list" where
  "put_be16 w = [ucast (drop_bit 8 w), ucast w]"

definition be32 :: "u8 \<Rightarrow> u8 \<Rightarrow> u8 \<Rightarrow> u8 \<Rightarrow> u32" where
  "be32 a b c d = push_bit 24 (ucast a) OR push_bit 16 (ucast b) OR push_bit 8 (ucast c) OR ucast d"

definition put_be32 :: "u32 \<Rightarrow> u8 list" where
  "put_be32 w = [ucast (drop_bit 24 w), ucast (drop_bit 16 w), ucast (drop_bit 8 w), ucast w]"

definition get_be16 :: "u8 list \<Rightarrow> u16 res" where
  "get_be16 xs = (case xs of a # b # _ \<Rightarrow> Inr (be16 a b) | _ \<Rightarrow> Inl UB)"

definition get_le16 :: "u8 list \<Rightarrow> u16 res" where
  "get_le16 xs = (case xs of a # b # _ \<Rightarrow> Inr (be16 b a) | _ \<Rightarrow> Inl UB)"

definition put_le16 :: "u16 \<Rightarrow> u8 list" where
  "put_le16 w = [ucast w, ucast (drop_bit 8 w)]"

definition get_be32 :: "u8 list \<Rightarrow> u32 res" where
  "get_be32 xs = (case xs of a # b # c # d # _ \<Rightarrow> Inr (be32 a b c d) | _ \<Rightarrow> Inl UB)"

lemma be16_put [simp]: "be16 (ucast (drop_bit 8 w)) (ucast w) = w"
  by (rule bit_word_eqI) (auto simp: be16_def bit_simps)

lemma be32_put [simp]:
  "be32 (ucast (drop_bit 24 w)) (ucast (drop_bit 16 w)) (ucast (drop_bit 8 w)) (ucast w) = w"
proof (rule bit_word_eqI)
  fix n assume "n < LENGTH(32)"
  then consider "n < 8" | "8 \<le> n" "n < 16" | "16 \<le> n" "n < 24" | "24 \<le> n" "n < 32"
    by fastforce
  then show "bit (be32 (ucast (drop_bit 24 w)) (ucast (drop_bit 16 w)) (ucast (drop_bit 8 w))
      (ucast w)) n = bit w n"
    by cases (auto simp: be32_def bit_simps)
qed

lemma u8_high_bits [simp]: "\<not> bit (b :: u8) (8 + n)" "\<not> bit (b :: u8) (16 + n)" "\<not> bit (b :: u8) (24 + n)"
  using bit_imp_le_length [of b "8 + n"] bit_imp_le_length [of b "16 + n"] bit_imp_le_length [of b "24 + n"]
  by auto

lemma put_be16_be16 [simp]: "put_be16 (be16 a b) = [a, b]"
proof -
  have "ucast (drop_bit 8 (be16 a b)) = a" "ucast (be16 a b) = b"
    by (auto intro!: bit_word_eqI simp: be16_def bit_simps)
  then show ?thesis by (simp add: put_be16_def)
qed

lemma put_be32_be32 [simp]: "put_be32 (be32 a b c d) = [a, b, c, d]"
proof -
  have "ucast (drop_bit 24 (be32 a b c d)) = a" "ucast (drop_bit 16 (be32 a b c d)) = b"
      "ucast (drop_bit 8 (be32 a b c d)) = c" "ucast (be32 a b c d) = d"
    by (auto intro!: bit_word_eqI simp: be32_def bit_simps)
  then show ?thesis by (simp add: put_be32_def)
qed

lemma length_put [simp]:
  "length (put_be16 w) = 2" "length (put_be32 v) = 4" "length (put_le16 w) = 2"
  by (simp_all add: put_be16_def put_be32_def put_le16_def)

lemma get_put_be16 [simp]: "get_be16 (put_be16 w @ xs) = Inr w"
  by (simp add: get_be16_def put_be16_def)

lemma get_put_le16 [simp]: "get_le16 (put_le16 w @ xs) = Inr w"
  by (simp add: get_le16_def put_le16_def)

lemma get_put_be32 [simp]: "get_be32 (put_be32 w @ xs) = Inr w"
  by (simp add: get_be32_def put_be32_def)

text \<open>Reading a value means that its bytes stand at the front.\<close>

lemma get_be16_iff: "get_be16 xs = Inr w \<longleftrightarrow> (\<exists>ys. xs = put_be16 w @ ys)"
  by (auto simp: get_be16_def split: list.splits) (auto simp: put_be16_def)

lemma get_be32_iff: "get_be32 xs = Inr w \<longleftrightarrow> (\<exists>ys. xs = put_be32 w @ ys)"
  by (auto simp: get_be32_def split: list.splits) (auto simp: put_be32_def)

lemma mem_byte_0_iff: "mem_byte xs 0 = Inr b \<longleftrightarrow> (\<exists>ys. xs = b # ys)"
  by (cases xs) (auto simp: mem_byte_def)

lemma get_be16_enough [mem_simps]: "2 \<le> length xs \<Longrightarrow> get_be16 xs = Inr (be16 (xs ! 0) (xs ! 1))"
  by (auto simp: get_be16_def numeral_2_eq_2 Suc_le_length_iff)

lemma get_le16_enough [mem_simps]: "2 \<le> length xs \<Longrightarrow> get_le16 xs = Inr (be16 (xs ! 1) (xs ! 0))"
  by (auto simp: get_le16_def numeral_2_eq_2 Suc_le_length_iff)

lemma get_be32_enough [mem_simps]:
  "4 \<le> length xs \<Longrightarrow> get_be32 xs = Inr (be32 (xs ! 0) (xs ! 1) (xs ! 2) (xs ! 3))"
  by (auto simp: get_be32_def eval_nat_numeral Suc_le_length_iff)

lemma get_be16_eq_Inr [resE]:
  "get_be16 xs = Inr w \<longleftrightarrow> 2 \<le> length xs \<and> w = be16 (xs ! 0) (xs ! 1)"
  by (auto simp: get_be16_def numeral_2_eq_2 Suc_le_length_iff split: list.splits)

section \<open>Words and lengths\<close>

lemma unat_u8_lt: "unat (w :: u8) < 256"
  using unsigned_less [of w] by simp

lemma unat_u16_lt: "unat (w :: u16) < 65536"
  using unsigned_less [of w] by simp

lemma unat_u32_lt: "unat (w :: u32) < 4294967296"
  using unsigned_less [of w] by simp

lemma unat_ucast_u8_u32 [simp]: "unat (ucast (w :: u8) :: u32) = unat w"
  by (simp add: unsigned_ucast_eq take_bit_eq_mod order.strict_trans [OF unat_u8_lt])

lemma unat_ucast_u8_u16 [simp]: "unat (ucast (w :: u8) :: u16) = unat w"
  by (simp add: unsigned_ucast_eq take_bit_eq_mod order.strict_trans [OF unat_u8_lt])

lemma unat_ucast_u16_u32 [simp]: "unat (ucast (w :: u16) :: u32) = unat w"
  by (simp add: unsigned_ucast_eq take_bit_eq_mod order.strict_trans [OF unat_u16_lt])

lemma ucast_ucast_u8_u16 [simp]: "ucast (ucast (w :: u8) :: u16) = w"
  by (rule bit_word_eqI) (simp add: bit_simps)

lemma unat_u8_le: "unat (w :: u8) \<le> 255"
  using unat_u8_lt [of w] by linarith

lemma word_of_nat_unat_id: "of_nat (unat w) = (w :: 'a :: len word)"
  by simp

lemma unat_of_nat_u32: "n < 4294967296 \<Longrightarrow> unat (of_nat n :: u32) = n"
  by (simp add: unat_of_nat take_bit_eq_mod)

lemma of_nat_u32_eq_0: "n < 4294967296 \<Longrightarrow> (of_nat n = (0 :: u32)) \<longleftrightarrow> n = 0"
  using unat_of_nat_u32 [of n] by auto

lemma unat_of_nat_u8: "n < 256 \<Longrightarrow> unat (of_nat n :: u8) = n"
  by (simp add: unat_of_nat take_bit_eq_mod)

lemma unat_add_no_wrap_u32:
  "unat a + unat b < 4294967296 \<Longrightarrow> unat (a + b :: u32) = unat a + unat b"
  by (simp add: unat_word_ariths)

lemma unat_sub_le: "b \<le> a \<Longrightarrow> unat (a - b :: u32) = unat a - unat b"
  by (rule unat_sub)

lemma ucast_of_nat_u16: "n < 4294967296 \<Longrightarrow> (ucast (of_nat n :: u32) :: u16) = of_nat n"
  by (simp add: unsigned_of_nat take_bit_eq_mod)

lemma sint_unat_small:
  fixes v :: u32 assumes "unat v < 2 ^ 31" shows "sint v = int (unat v)"
proof -
  have "int (unat v) < int (2 ^ 31)" using assms by (simp only: of_nat_less_iff)
  then have u: "uint v < 2 ^ 31" by simp
  have n: "- (2 ^ 31) \<le> uint v" by (rule order.trans [OF _ uint_nonnegative]) simp
  have "signed_take_bit 31 (uint v) = uint v" by (rule signed_take_bit_int_eq_self [OF n u])
  then show ?thesis by (simp add: sint_uint)
qed

lemma and_zero_mono: "x AND m = 0 \<Longrightarrow> m AND n = n \<Longrightarrow> x AND n = (0 :: 'a :: len word)"
proof -
  assume "x AND m = 0" "m AND n = n"
  then have "x AND n = x AND (m AND n)" by simp
  also have "\<dots> = (x AND m) AND n" by (rule and.assoc [symmetric])
  also have "\<dots> = 0" using \<open>x AND m = 0\<close> by simp
  finally show ?thesis .
qed

lemma and_keep: "x AND NOT m = 0 \<Longrightarrow> x AND m = (x :: 'a :: len word)"
proof -
  assume "x AND NOT m = 0"
  then have "x AND m = (x AND m) OR (x AND NOT m)" by simp
  also have "\<dots> = x AND (m OR NOT m)" by (rule bit.conj_disj_distrib [symmetric])
  finally show ?thesis by simp
qed

lemma readable_nonnull: "readable p (unat (w :: 'a :: len word)) \<Longrightarrow> w \<noteq> 0 \<Longrightarrow> p \<noteq> None"
  by (auto simp: readable_def unsigned_eq_0_iff)

end
