(* ===== verification/Ndef_Record.thy ===== *)
theory Ndef_Record
  imports Nfc_Prelude
begin

text \<open>
  NDEF record descriptors and their encoder (\<open>subsys/nfc/ndef/record.c\<close>,
  \<open>include/nfc/ndef/record.h\<close>).

  A record descriptor carries its payload as a function pointer together with a descriptor. The
  pair is \<open>payload_t\<close>: no constructor, the binary copy constructor of \<open>record.c\<close> with its binary
  descriptor (the parsers test for this one), or any other constructor applied to its descriptor.

  The contract of a payload constructor is the locale \<open>payload_constructor\<close>: given a buffer it
  writes exactly the bytes \<open>body\<close> or reports that they do not fit, and given NULL it reports their
  number. \<open>payload_writer\<close> is the part of the contract about buffers. The record encoder itself
  satisfies the same laws, which is what makes nested messages work.
\<close>

section \<open>Constants and data\<close>

abbreviation (input) NDEF_RECORD_TNF_MASK :: u8 where "NDEF_RECORD_TNF_MASK \<equiv> 0x07"
abbreviation (input) NDEF_RECORD_IL_MASK :: u8 where "NDEF_RECORD_IL_MASK \<equiv> 0x08"
abbreviation (input) NDEF_RECORD_SR_MASK :: u8 where "NDEF_RECORD_SR_MASK \<equiv> 0x10"
abbreviation (input) NDEF_RECORD_LOCATION_MASK :: u8 where "NDEF_RECORD_LOCATION_MASK \<equiv> 0xC0"

abbreviation (input) NDEF_FIRST_RECORD :: u8 where "NDEF_FIRST_RECORD \<equiv> 0x80"
abbreviation (input) NDEF_MIDDLE_RECORD :: u8 where "NDEF_MIDDLE_RECORD \<equiv> 0x00"
abbreviation (input) NDEF_LAST_RECORD :: u8 where "NDEF_LAST_RECORD \<equiv> 0x40"
abbreviation (input) NDEF_LONE_RECORD :: u8 where "NDEF_LONE_RECORD \<equiv> 0xC0"

abbreviation (input) TNF_EMPTY :: u8 where "TNF_EMPTY \<equiv> 0x00"
abbreviation (input) TNF_WELL_KNOWN :: u8 where "TNF_WELL_KNOWN \<equiv> 0x01"
abbreviation (input) TNF_MEDIA_TYPE :: u8 where "TNF_MEDIA_TYPE \<equiv> 0x02"
abbreviation (input) TNF_EXTERNAL_TYPE :: u8 where "TNF_EXTERNAL_TYPE \<equiv> 0x04"
abbreviation (input) TNF_UNKNOWN_TYPE :: u8 where "TNF_UNKNOWN_TYPE \<equiv> 0x05"
abbreviation (input) TNF_RESERVED :: u8 where "TNF_RESERVED \<equiv> 0x07"

record nfc_ndef_bin_payload_desc =
  bin_payload :: ptr
  bin_payload_length :: u32

type_synonym payload_constructor_t = "wbuf \<Rightarrow> (u8 list \<times> u32) res"

datatype payload_t =
    Payload_None
  | Payload_Bin nfc_ndef_bin_payload_desc
  | Payload_Fun payload_constructor_t

record nfc_ndef_record_desc =
  rec_tnf :: u8
  rec_id_length :: u8
  rec_id :: ptr
  rec_type_length :: u8
  rec_type :: ptr
  rec_payload :: payload_t

section \<open>Operations\<close>

definition nfc_ndef_bin_payload_memcopy :: "nfc_ndef_bin_payload_desc \<Rightarrow> payload_constructor_t" where
  "nfc_ndef_bin_payload_memcopy d buf = (case buf of
     None \<Rightarrow> Inr ([], bin_payload_length d)
   | Some (mem, len) \<Rightarrow>
       if len < bin_payload_length d then Inl ENOSR
       else bindE (mem_read (bin_payload d) (unat (bin_payload_length d))) (\<lambda>bs.
            bindE (mem_write mem 0 bs) (\<lambda>mem'.
            Inr (mem', bin_payload_length d))))"

text \<open>The call through \<open>payload_constructor\<close>; a NULL function pointer is \<open>None\<close>.\<close>

fun payload_construct :: "payload_t \<Rightarrow> payload_constructor_t option" where
  "payload_construct Payload_None = None"
| "payload_construct (Payload_Bin d) = Some (nfc_ndef_bin_payload_memcopy d)"
| "payload_construct (Payload_Fun f) = Some f"

definition record_header_size_calc :: "nfc_ndef_record_desc \<Rightarrow> u32" where
  "record_header_size_calc r =
     (let len = 6 + ucast (rec_id_length r) + ucast (rec_type_length r)
      in if rec_id_length r > 0 then len + 1 else len)"

definition nfc_ndef_record_encode :: "nfc_ndef_record_desc option \<Rightarrow> u8 \<Rightarrow> payload_constructor_t" where
  "nfc_ndef_record_encode desc loc buf = (case desc of None \<Rightarrow> Inl EINVAL | Some r \<Rightarrow>
     (let hl = record_header_size_calc r in case buf of
        None \<Rightarrow>
          (case payload_construct (rec_payload r) of None \<Rightarrow> Inl EINVAL
           | Some pc \<Rightarrow> bindE (pc None) (\<lambda>(_, payload_len). Inr ([], hl + payload_len)))
      | Some (mem, record_len) \<Rightarrow>
          if loc AND NOT NDEF_RECORD_LOCATION_MASK \<noteq> 0 then Inl EINVAL
          else if hl > record_len then Inl ENOSR
          else
            let has_id = rec_id_length r > 0;
                flags = loc OR rec_tnf r OR (if has_id then NDEF_RECORD_IL_MASK else 0)
            in
            bindE (mem_write mem 0 [flags, rec_type_length r]) (\<lambda>mem1.
            bindE (mem_read (rec_type r) (unat (rec_type_length r))) (\<lambda>type.
            bindE (if has_id then mem_read (rec_id r) (unat (rec_id_length r)) else Inr []) (\<lambda>id.
            bindE (mem_write mem1 6 ((if has_id then [rec_id_length r] else []) @ type @ id)) (\<lambda>mem2.
            (case payload_construct (rec_payload r) of None \<Rightarrow> Inl EINVAL
             | Some pc \<Rightarrow>
                 bindE (pc (Some (drop (unat hl) mem2, record_len - hl))) (\<lambda>(pmem, payload_len).
                 bindE (mem_write (take (unat hl) mem2 @ pmem) 2 (put_be32 payload_len)) (\<lambda>mem3.
                 Inr (mem3, hl + payload_len))))))))))"

section \<open>The payload constructor contract\<close>

text \<open>\<open>writes f bs\<close>: given a buffer, \<open>f\<close> stores exactly \<open>bs\<close> at its start, leaves the rest of the
  memory alone and returns the number of bytes, or fails for lack of space.\<close>

definition writes :: "payload_constructor_t \<Rightarrow> u8 list \<Rightarrow> bool" where
  "writes f bs \<longleftrightarrow> length bs < 2 ^ 32 \<and>
     (\<forall>mem cap. unat cap \<le> length mem \<longrightarrow>
        (if length bs \<le> unat cap
         then f (Some (mem, cap)) = Inr (bs @ drop (length bs) mem, of_nat (length bs))
         else f (Some (mem, cap)) = Inl ENOMEM \<or> f (Some (mem, cap)) = Inl ENOSR))"

definition sizes :: "payload_constructor_t \<Rightarrow> u8 list \<Rightarrow> bool" where
  "sizes f bs \<longleftrightarrow> f None = Inr ([], of_nat (length bs))"

lemma writesI:
  assumes "length bs < 2 ^ 32"
    and "\<And>mem cap. unat cap \<le> length mem \<Longrightarrow> length bs \<le> unat cap \<Longrightarrow>
       f (Some (mem, cap)) = Inr (bs @ drop (length bs) mem, of_nat (length bs))"
    and "\<And>mem cap. unat cap \<le> length mem \<Longrightarrow> unat cap < length bs \<Longrightarrow>
       f (Some (mem, cap)) = Inl ENOMEM \<or> f (Some (mem, cap)) = Inl ENOSR"
  shows "writes f bs"
  using assms by (auto simp: writes_def)

lemma writes_fits:
  "writes f bs \<Longrightarrow> unat cap \<le> length mem \<Longrightarrow> length bs \<le> unat cap \<Longrightarrow>
   f (Some (mem, cap)) = Inr (bs @ drop (length bs) mem, of_nat (length bs))"
  by (auto simp: writes_def)

lemma writes_nospace:
  "writes f bs \<Longrightarrow> unat cap \<le> length mem \<Longrightarrow> unat cap < length bs \<Longrightarrow>
   f (Some (mem, cap)) = Inl ENOMEM \<or> f (Some (mem, cap)) = Inl ENOSR"
  by (auto simp: writes_def split: if_splits)

lemma writes_bound: "writes f bs \<Longrightarrow> length bs < 4294967296"
  by (simp add: writes_def)

lemma writes_InrD:
  assumes "writes f bs" "unat cap \<le> length mem" "f (Some (mem, cap)) = Inr (mem', n)"
  shows "length bs \<le> unat cap \<and> mem' = bs @ drop (length bs) mem \<and> unat n = length bs"
  using writes_fits [OF assms(1,2)] writes_nospace [OF assms(1,2)] writes_bound [OF assms(1)] assms(3)
  by (cases "length bs \<le> unat cap") (auto simp: unat_of_nat_u32)

locale payload_writer =
  fixes enc :: "'d \<Rightarrow> payload_constructor_t"
    and ok :: "'d \<Rightarrow> bool"
    and body :: "'d \<Rightarrow> u8 list"
  assumes enc_writes: "ok d \<Longrightarrow> writes (enc d) (body d)"
begin

lemma enc_in_bounds:
  "ok d \<Longrightarrow> unat cap \<le> length mem \<Longrightarrow> enc d (Some (mem, cap)) = Inr (mem', n) \<Longrightarrow>
   unat n \<le> unat cap \<and> take (unat n) mem' = body d \<and> drop (unat n) mem' = drop (unat n) mem \<and>
   length mem' = length mem"
  using writes_InrD [OF enc_writes, of d cap mem mem' n] by auto

lemma enc_no_ub: "ok d \<Longrightarrow> unat cap \<le> length mem \<Longrightarrow> enc d (Some (mem, cap)) \<noteq> Inl UB"
  using writes_fits [OF enc_writes, of d cap mem] writes_nospace [OF enc_writes, of d cap mem]
  by (cases "length (body d) \<le> unat cap") auto

end

locale payload_constructor = payload_writer +
  assumes enc_sizes: "ok d \<Longrightarrow> sizes (enc d) (body d)"
begin

text \<open>Calling with NULL first and then with a buffer of the reported size always succeeds.\<close>

lemma size_then_encode:
  assumes "ok d" "enc d None = Inr (m0, n)" "unat n \<le> length mem"
  shows "enc d (Some (mem, n)) = Inr (body d @ drop (unat n) mem, n)"
proof -
  have n: "n = of_nat (length (body d))"
    using enc_sizes [OF assms(1)] assms(2) by (simp add: sizes_def)
  then have "unat n = length (body d)"
    using writes_bound [OF enc_writes [OF assms(1)]] by (simp add: unat_of_nat_u32)
  then show ?thesis
    using writes_fits [OF enc_writes [OF assms(1)], of n mem] assms(3) n by simp
qed

end

section \<open>Binary payloads\<close>

definition bin_ok :: "nfc_ndef_bin_payload_desc \<Rightarrow> bool" where
  "bin_ok d \<longleftrightarrow> readable (bin_payload d) (unat (bin_payload_length d))"

definition bin_body :: "nfc_ndef_bin_payload_desc \<Rightarrow> u8 list" where
  "bin_body d = block (bin_payload d) (unat (bin_payload_length d))"

lemma length_bin_body [simp]: "bin_ok d \<Longrightarrow> length (bin_body d) = unat (bin_payload_length d)"
  by (simp add: bin_ok_def bin_body_def mem_simps)

interpretation bin: payload_constructor nfc_ndef_bin_payload_memcopy bin_ok bin_body
proof unfold_locales
  fix d
  assume ok: "bin_ok d"
  show "writes (nfc_ndef_bin_payload_memcopy d) (bin_body d)"
  proof (rule writesI)
    show "length (bin_body d) < 2 ^ 32" using ok unat_u32_lt by simp
  qed (use ok in \<open>auto simp: nfc_ndef_bin_payload_memcopy_def word_less_nat_alt
        mem_simps bin_ok_def bin_body_def\<close>)
  show "sizes (nfc_ndef_bin_payload_memcopy d) (bin_body d)"
    using ok by (simp add: sizes_def nfc_ndef_bin_payload_memcopy_def)
qed

section \<open>The record encoder\<close>

text \<open>The bytes of a record: flags, type length, payload length (always the long format), optional
  ID length, type, ID and payload.\<close>

definition record_flags :: "nfc_ndef_record_desc \<Rightarrow> u8 \<Rightarrow> u8" where
  "record_flags r loc = loc OR rec_tnf r OR (if rec_id_length r > 0 then NDEF_RECORD_IL_MASK else 0)"

definition record_id_type :: "nfc_ndef_record_desc \<Rightarrow> u8 list" where
  "record_id_type r = (if rec_id_length r > 0 then [rec_id_length r] else []) @
     block (rec_type r) (unat (rec_type_length r)) @ block (rec_id r) (unat (rec_id_length r))"

definition record_bytes :: "nfc_ndef_record_desc \<Rightarrow> u8 \<Rightarrow> u8 list \<Rightarrow> u8 list" where
  "record_bytes r loc body =
     [record_flags r loc, rec_type_length r] @ put_be32 (of_nat (length body)) @
     record_id_type r @ body"

definition record_desc_ok :: "nfc_ndef_record_desc \<Rightarrow> bool" where
  "record_desc_ok r \<longleftrightarrow> readable (rec_type r) (unat (rec_type_length r)) \<and>
     readable (rec_id r) (unat (rec_id_length r))"

definition location_ok :: "u8 \<Rightarrow> bool" where
  "location_ok loc \<longleftrightarrow> loc AND NOT NDEF_RECORD_LOCATION_MASK = 0"

lemma u8_pos_unat: "(0 < (w :: u8)) \<longleftrightarrow> 0 < unat w"
  by (simp add: word_less_nat_alt)

lemma unat_record_header_size_calc:
  "record_desc_ok r \<Longrightarrow> unat (record_header_size_calc r) = 6 + length (record_id_type r)"
  using unat_u8_lt [of "rec_id_length r"] unat_u8_lt [of "rec_type_length r"]
  by (auto simp: record_header_size_calc_def record_id_type_def record_desc_ok_def mem_simps
      unat_word_ariths u8_pos_unat)

lemma length_record_bytes:
  "length (record_bytes r loc body) = 6 + length (record_id_type r) + length body"
  by (simp add: record_bytes_def)

lemma record_id_type_writes:
  assumes "record_desc_ok r"
  shows "(if 0 < rec_id_length r then [rec_id_length r] else []) @
     block (rec_type r) (unat (rec_type_length r)) @
     (if 0 < rec_id_length r then block (rec_id r) (unat (rec_id_length r)) else []) = record_id_type r"
  by (auto simp: record_id_type_def u8_pos_unat)

lemma record_mem_split:
  assumes "6 + n \<le> length mem"
  shows "\<exists>a b c d. mem = a @ b @ c @ d \<and> length a = 2 \<and> length b = 4 \<and> length c = n \<and>
    d = drop (6 + n) mem"
proof -
  have l: "2 \<le> length mem" "4 \<le> length (drop 2 mem)" "n \<le> length (drop 4 (drop 2 mem))"
    using assms by simp_all
  obtain a r1 where 1: "mem = a @ r1" "length a = 2" "r1 = drop 2 mem"
    using l(1) by (rule split_at_length)
  obtain b r2 where 2: "r1 = b @ r2" "length b = 4" "r2 = drop 4 r1"
    using l(2) unfolding 1(3) [symmetric] by (rule split_at_length)
  obtain c d where 3: "r2 = c @ d" "length c = n" "d = drop n r2"
    using l(3) unfolding 1(3) [symmetric] 2(3) [symmetric] by (rule split_at_length)
  have "drop n (drop 4 (drop 2 mem)) = drop (6 + n) mem"
    by (simp add: add.commute)
  then have d: "d = drop (6 + n) mem" by (simp only: 1(3) 2(3) 3(3))
  have "mem = a @ b @ c @ d" by (simp only: 1(1) 2(1) 3(1) append.assoc)
  with 1(2) 2(2) 3(2) d show ?thesis by (intro exI conjI)
qed

lemma record_encode_buf:
  assumes ok: "record_desc_ok r" "location_ok loc"
    and pc: "payload_construct (rec_payload r) = Some pc"
    and cap: "unat cap \<le> length mem" "6 + length (record_id_type r) \<le> unat cap"
  shows "nfc_ndef_record_encode (Some r) loc (Some (mem, cap)) =
     bindE (pc (Some (drop (6 + length (record_id_type r)) mem, cap - record_header_size_calc r)))
       (\<lambda>(pmem, n). Inr ([record_flags r loc, rec_type_length r] @ put_be32 n @ record_id_type r @ pmem,
          record_header_size_calc r + n))"
proof -
  let ?h = "record_header_size_calc r" and ?it = "record_id_type r"
  have h: "unat ?h = 6 + length ?it" using ok by (simp add: unat_record_header_size_calc)
  from cap obtain a b c d where mem: "mem = a @ b @ c @ d" "length a = 2" "length b = 4"
      "length c = length ?it" and d: "d = drop (6 + length ?it) mem"
    by (metis (no_types, opaque_lifting) record_mem_split order.trans)
  let ?fl = "[record_flags r loc, rec_type_length r]"
  have m1: "mem_write mem 0 ?fl = Inr (?fl @ b @ c @ d)"
    using mem_write_append [of "[]" 0 a ?fl "b @ c @ d"] mem by simp
  have m2: "mem_write (?fl @ b @ c @ d) 6 ?it = Inr ((?fl @ b @ ?it) @ d)"
    using mem_write_append [of "?fl @ b" 6 c ?it d] mem by simp
  have m3: "mem_write ((?fl @ b @ ?it) @ pmem) 2 (put_be32 n) = Inr (?fl @ put_be32 n @ ?it @ pmem)" for pmem n
    using mem_write_append [of ?fl 2 b "put_be32 n" "?it @ pmem"] mem by simp
  have td: "take (unat ?h) ((?fl @ b @ ?it) @ d) = ?fl @ b @ ?it" "drop (unat ?h) ((?fl @ b @ ?it) @ d) = d"
    using mem h append_eq_conv_conj [of "?fl @ b @ ?it" d "(?fl @ b @ ?it) @ d"] by simp_all
  have ids: "(if 0 < rec_id_length r then mem_read (rec_id r) (unat (rec_id_length r)) else Inr []) =
      Inr (if 0 < rec_id_length r then block (rec_id r) (unat (rec_id_length r)) else [])"
    using ok by (simp add: record_desc_ok_def mem_simps)
  have ty: "mem_read (rec_type r) (unat (rec_type_length r)) =
      Inr (block (rec_type r) (unat (rec_type_length r)))"
    using ok by (simp add: record_desc_ok_def mem_simps)
  have le: "\<not> cap < ?h" using cap h by (simp add: word_less_nat_alt)
  show ?thesis
    unfolding nfc_ndef_record_encode_def option.case Let_def prod.case d [symmetric]
    using ok le by (simp only: location_ok_def if_False simp_thms m1 m2 ty ids bindE_simps pc option.case
        record_flags_def [symmetric] record_id_type_writes td m3)
qed

text \<open>The encoder of a record satisfies the contract its payload constructor satisfies.\<close>

lemma record_encode_writes:
  assumes ok: "record_desc_ok r" "location_ok loc"
    and pc: "payload_construct (rec_payload r) = Some pc" "writes pc body"
    and len: "6 + length (record_id_type r) + length body < 2 ^ 32"
  shows "writes (nfc_ndef_record_encode (Some r) loc) (record_bytes r loc body)"
proof (rule writesI)
  let ?it = "record_id_type r" and ?h = "record_header_size_calc r"
  have h: "unat ?h = 6 + length ?it" using ok by (simp add: unat_record_header_size_calc)
  show "length (record_bytes r loc body) < 2 ^ 32" using len by (simp add: length_record_bytes)
  fix mem :: "u8 list" and cap :: u32
  assume cap: "unat cap \<le> length mem"
  have rest: "unat (cap - ?h) = unat cap - (6 + length ?it)" if "6 + length ?it \<le> unat cap"
    using that h by (simp add: unat_sub_le word_le_nat_alt)
  have sum: "?h + of_nat (length body) = of_nat (6 + length ?it + length body)"
    using h by (metis of_nat_add word_of_nat_unat_id)
  show "nfc_ndef_record_encode (Some r) loc (Some (mem, cap)) =
      Inr (record_bytes r loc body @ drop (length (record_bytes r loc body)) mem,
           of_nat (length (record_bytes r loc body)))"
    if fit: "length (record_bytes r loc body) \<le> unat cap"
  proof -
    have le: "6 + length ?it \<le> unat cap" using fit by (simp add: length_record_bytes)
    have "pc (Some (drop (6 + length ?it) mem, cap - ?h)) =
        Inr (body @ drop (length body) (drop (6 + length ?it) mem), of_nat (length body))"
      using fit cap by (intro writes_fits [OF pc(2)]) (simp_all add: rest length_record_bytes)
    then show ?thesis
      unfolding record_encode_buf [OF ok pc(1) cap le] length_record_bytes sum [symmetric]
      by (simp add: record_bytes_def ac_simps)
  qed
  show "nfc_ndef_record_encode (Some r) loc (Some (mem, cap)) = Inl ENOMEM \<or>
      nfc_ndef_record_encode (Some r) loc (Some (mem, cap)) = Inl ENOSR"
    if "unat cap < length (record_bytes r loc body)"
  proof (cases "6 + length ?it \<le> unat cap")
    case True
    then have "pc (Some (drop (6 + length ?it) mem, cap - ?h)) \<in> {Inl ENOMEM, Inl ENOSR}"
      using writes_nospace [OF pc(2), of "cap - ?h" "drop (6 + length ?it) mem"] that cap
      by (simp add: rest length_record_bytes)
    then show ?thesis by (auto simp: record_encode_buf [OF ok pc(1) cap True])
  next
    case False
    then show ?thesis
      using ok h by (simp add: nfc_ndef_record_encode_def location_ok_def Let_def word_less_nat_alt)
  qed
qed

lemma record_encode_sizes:
  assumes "record_desc_ok r" "payload_construct (rec_payload r) = Some pc" "sizes pc body"
  shows "sizes (nfc_ndef_record_encode (Some r) loc) (record_bytes r loc body)"
proof -
  have "record_header_size_calc r = of_nat (6 + length (record_id_type r))"
    using assms(1) by (metis unat_record_header_size_calc word_of_nat_unat_id)
  then show ?thesis
    using assms by (simp add: sizes_def nfc_ndef_record_encode_def length_record_bytes)
qed

text \<open>Whatever the descriptor, a record without a payload constructor is rejected.\<close>

lemma record_encode_no_constructor:
  "payload_construct (rec_payload r) = None \<Longrightarrow> nfc_ndef_record_encode (Some r) loc None = Inl EINVAL"
  by (simp add: nfc_ndef_record_encode_def)

context payload_writer
begin

lemma record_writes:
  "ok d \<Longrightarrow> record_desc_ok r \<Longrightarrow> location_ok loc \<Longrightarrow>
   payload_construct (rec_payload r) = Some (enc d) \<Longrightarrow>
   6 + length (record_id_type r) + length (body d) < 2 ^ 32 \<Longrightarrow>
   writes (nfc_ndef_record_encode (Some r) loc) (record_bytes r loc (body d))"
  by (rule record_encode_writes [OF _ _ _ enc_writes])

end

section \<open>Properties\<close>

text \<open>C1: Given a buffer of at least the declared capacity, the record encoder stores exactly the
  record bytes (flags with location, TNF and IL bit, type length, big-endian payload length, ID
  length, type, ID, payload) at its start, leaves the rest of the memory alone and returns their
  number; when they do not fit it fails with -ENOMEM or -ENOSR. The payload constructor is any
  function that meets the constructor contract.\<close>

theorem record_encode_correct:
  assumes "record_desc_ok r" "location_ok loc"
    and "payload_construct (rec_payload r) = Some pc" "writes pc body"
    and "6 + length (record_id_type r) + length body < 2 ^ 32"
    and "unat cap \<le> length mem"
  shows "if length (record_bytes r loc body) \<le> unat cap
    then nfc_ndef_record_encode (Some r) loc (Some (mem, cap)) =
      Inr (record_bytes r loc body @ drop (length (record_bytes r loc body)) mem,
           of_nat (length (record_bytes r loc body)))
    else nfc_ndef_record_encode (Some r) loc (Some (mem, cap)) \<in> {Inl ENOMEM, Inl ENOSR}"
  using writes_fits [OF record_encode_writes [OF assms(1-5)] assms(6)]
    writes_nospace [OF record_encode_writes [OF assms(1-5)] assms(6)] by auto

definition sample_record :: nfc_ndef_record_desc where
  "sample_record = \<lparr>rec_tnf = TNF_WELL_KNOWN, rec_id_length = 1, rec_id = Some [0x37], rec_type_length = 1,
     rec_type = Some [0x55],
     rec_payload = Payload_Bin \<lparr>bin_payload = Some [0xAA, 0xBB], bin_payload_length = 2\<rparr>\<rparr>"

lemma sample_record_ok: "record_desc_ok sample_record"
    "payload_construct (rec_payload sample_record) =
       Some (nfc_ndef_bin_payload_memcopy \<lparr>bin_payload = Some [0xAA, 0xBB], bin_payload_length = 2\<rparr>)"
    "writes (nfc_ndef_bin_payload_memcopy \<lparr>bin_payload = Some [0xAA, 0xBB], bin_payload_length = 2\<rparr>) [0xAA, 0xBB]"
    "record_id_type sample_record = [1, 0x55, 0x37]"
  using bin.enc_writes [of "\<lparr>bin_payload = Some [0xAA, 0xBB], bin_payload_length = 2\<rparr>"]
  by (simp_all add: sample_record_def record_desc_ok_def bin_ok_def bin_body_def
      record_id_type_def)

lemma sample_record_bytes: "record_bytes sample_record NDEF_LONE_RECORD [0xAA, 0xBB] =
    [0xC9, 1, 0, 0, 0, 2, 1, 0x55, 0x37, 0xAA, 0xBB]"
  by (simp add: record_bytes_def record_flags_def sample_record_def record_id_type_def put_be32_def)

theorem record_encode_correct_witness:
  "nfc_ndef_record_encode (Some sample_record) NDEF_LONE_RECORD (Some (replicate 12 0, 12)) =
     Inr ([0xC9, 1, 0, 0, 0, 2, 1, 0x55, 0x37, 0xAA, 0xBB, 0], 11)"
  using record_encode_correct [of sample_record NDEF_LONE_RECORD _ "[0xAA, 0xBB]" 12 "replicate 12 0",
      OF sample_record_ok(1) _ sample_record_ok(2,3)]
  by (simp add: sample_record_ok(4) location_ok_def sample_record_bytes)

end
