(* ===== verification/Ndef_Msg.thy ===== *)
theory Ndef_Msg
  imports Ndef_Record
begin

text \<open>
  NDEF message descriptors and the message encoder (\<open>subsys/nfc/ndef/msg.c\<close>,
  \<open>include/nfc/ndef/msg.h\<close>). A message descriptor holds a pointer to an array of record pointers,
  the number of elements of the array and the number of records in use.
\<close>

record nfc_ndef_msg_desc =
  msg_record :: "nfc_ndef_record_desc option list option"
  msg_max_record_count :: u32
  msg_record_count :: u32

section \<open>Operations\<close>

definition record_location_get :: "u32 \<Rightarrow> u32 \<Rightarrow> u8" where
  "record_location_get index record_count =
     (if index = 0 then (if record_count = 1 then NDEF_LONE_RECORD else NDEF_FIRST_RECORD)
      else if index = 0xFFFFFFFF \<or> record_count = index + 1 then NDEF_LAST_RECORD
      else NDEF_MIDDLE_RECORD)"

text \<open>The loop of \<open>nfc_ndef_msg_encode\<close>; reading the record array past its end is undefined.\<close>

function msg_encode_loop ::
    "nfc_ndef_record_desc option list \<Rightarrow> u32 \<Rightarrow> wbuf \<Rightarrow> u32 \<Rightarrow> u32 \<Rightarrow> (u8 list \<times> u32) res" where
  "msg_encode_loop recs count buf i sum_of_len =
     (if i < count then
        if unat i < length recs then
          bindE (nfc_ndef_record_encode (recs ! unat i) (record_location_get i count)
                   (map_option (\<lambda>(mem, len). (drop (unat sum_of_len) mem, len - sum_of_len)) buf))
            (\<lambda>(m, temp_len).
               msg_encode_loop recs count
                 (map_option (\<lambda>(mem, len). (take (unat sum_of_len) mem @ m, len)) buf)
                 (i + 1) (sum_of_len + temp_len))
        else Inl UB
      else Inr (case buf of None \<Rightarrow> [] | Some (mem, _) \<Rightarrow> mem, sum_of_len))"
  by pat_completeness auto
termination
proof (relation "measure (\<lambda>(_, count, _, i, _). unat count - unat i)", goal_cases)
  case (2 recs count buf i s x xa y)
  then have "unat (i + 1) = unat i + 1" "unat i < unat count"
    using less_le_trans [of "unat i + 1" "unat count + 1" "2 ^ 32"] unat_u32_lt [of count]
    by (simp_all add: unat_add_no_wrap_u32 word_less_nat_alt)
  then show ?case by simp
qed simp

declare msg_encode_loop.simps [simp del]

definition nfc_ndef_msg_encode :: "nfc_ndef_msg_desc option \<Rightarrow> payload_constructor_t" where
  "nfc_ndef_msg_encode desc buf = (case desc of None \<Rightarrow> Inl EINVAL | Some m \<Rightarrow>
     (case msg_record m of None \<Rightarrow> Inl EINVAL
      | Some recs \<Rightarrow> msg_encode_loop recs (msg_record_count m) buf 0 0))"

definition nfc_ndef_msg_clear :: "nfc_ndef_msg_desc \<Rightarrow> nfc_ndef_msg_desc" where
  "nfc_ndef_msg_clear m = m\<lparr>msg_record_count := 0\<rparr>"

definition nfc_ndef_msg_record_add ::
    "nfc_ndef_msg_desc \<Rightarrow> nfc_ndef_record_desc option \<Rightarrow> nfc_ndef_msg_desc res" where
  "nfc_ndef_msg_record_add m rd =
     (if msg_record_count m \<ge> msg_max_record_count m then Inl ENOSR
      else (case msg_record m of None \<Rightarrow> Inl UB
        | Some recs \<Rightarrow>
            if unat (msg_record_count m) < length recs
            then Inr (m\<lparr>msg_record := Some (recs[unat (msg_record_count m) := rd]),
                        msg_record_count := msg_record_count m + 1\<rparr>)
            else Inl UB))"

text \<open>\<open>NFC_NDEF_MSG_DEF\<close>: a descriptor over a fresh array, whose elements are not initialised.\<close>

definition NFC_NDEF_MSG_DEF :: "nfc_ndef_record_desc option list \<Rightarrow> nfc_ndef_msg_desc" where
  "NFC_NDEF_MSG_DEF arr =
     \<lparr>msg_record = Some arr, msg_max_record_count = of_nat (length arr), msg_record_count = 0\<rparr>"

section \<open>The descriptor invariant\<close>

definition msg_records :: "nfc_ndef_msg_desc \<Rightarrow> nfc_ndef_record_desc option list" where
  "msg_records m = (case msg_record m of None \<Rightarrow> [] | Some recs \<Rightarrow> take (unat (msg_record_count m)) recs)"

definition msg_inv :: "nfc_ndef_msg_desc \<Rightarrow> bool" where
  "msg_inv m \<longleftrightarrow> (\<exists>recs. msg_record m = Some recs \<and> length recs = unat (msg_max_record_count m)) \<and>
     msg_record_count m \<le> msg_max_record_count m"

lemma msg_inv_def_init: "length arr < 2 ^ 32 \<Longrightarrow> msg_inv (NFC_NDEF_MSG_DEF arr)"
  by (simp add: msg_inv_def NFC_NDEF_MSG_DEF_def unat_of_nat_u32)

lemma msg_inv_clear: "msg_inv m \<Longrightarrow> msg_inv (nfc_ndef_msg_clear m) \<and> msg_records (nfc_ndef_msg_clear m) = []"
  by (auto simp: msg_inv_def nfc_ndef_msg_clear_def msg_records_def split: option.split)

lemma unat_Suc_less: "a < b \<Longrightarrow> unat (a + 1 :: u32) = unat a + 1"
  using unat_u32_lt [of b] by (subst unat_add_no_wrap_u32) (simp_all add: word_less_nat_alt)

lemma msg_records_add:
  assumes inv: "msg_inv m" and less: "msg_record_count m < msg_max_record_count m"
  shows "\<exists>m'. nfc_ndef_msg_record_add m rd = Inr m' \<and> msg_inv m' \<and>
      msg_records m' = msg_records m @ [rd] \<and> msg_max_record_count m' = msg_max_record_count m \<and>
      unat (msg_record_count m') = unat (msg_record_count m) + 1"
proof -
  obtain recs where r: "msg_record m = Some recs" "length recs = unat (msg_max_record_count m)"
    using inv by (auto simp: msg_inv_def)
  have lt: "unat (msg_record_count m) < length recs"
    using less r by (simp add: word_less_nat_alt)
  have s: "unat (msg_record_count m + 1) = unat (msg_record_count m) + 1"
    using less by (rule unat_Suc_less)
  show ?thesis
    using lt less s r by (simp add: nfc_ndef_msg_record_add_def msg_inv_def msg_records_def
        word_le_nat_alt take_Suc_conv_app_nth not_le)
qed

lemma msg_record_add_full:
  "msg_record_count m \<ge> msg_max_record_count m \<Longrightarrow> nfc_ndef_msg_record_add m rd = Inl ENOSR"
  by (simp add: nfc_ndef_msg_record_add_def)

interpretation msgs: bounded_list nfc_ndef_msg_record_add nfc_ndef_msg_clear msg_records
    "\<lambda>m. unat (msg_max_record_count m)" msg_inv ENOSR
proof unfold_locales
  fix m :: nfc_ndef_msg_desc and rd :: "nfc_ndef_record_desc option"
  assume inv: "msg_inv m"
  have l: "length (msg_records m) = unat (msg_record_count m)"
    using inv by (auto simp: msg_inv_def msg_records_def word_le_nat_alt)
  show "\<exists>m'. nfc_ndef_msg_record_add m rd = Inr m' \<and> msg_inv m' \<and> msg_records m' = msg_records m @ [rd] \<and>
      unat (msg_max_record_count m') = unat (msg_max_record_count m)"
    if "length (msg_records m) < unat (msg_max_record_count m)"
    using msg_records_add [OF inv, of rd] that l by (auto simp: word_less_nat_alt)
  show "nfc_ndef_msg_record_add m rd = Inl ENOSR"
    if "unat (msg_max_record_count m) \<le> length (msg_records m)"
    using that l by (simp add: msg_record_add_full word_le_nat_alt)
  show "msg_inv (nfc_ndef_msg_clear m) \<and> msg_records (nfc_ndef_msg_clear m) = [] \<and>
      unat (msg_max_record_count (nfc_ndef_msg_clear m)) = unat (msg_max_record_count m)"
    using msg_inv_clear [OF inv] by (simp add: nfc_ndef_msg_clear_def)
qed

section \<open>What the encoder writes\<close>

text \<open>A record together with the payload bytes its constructor produces.\<close>

type_synonym emitted = "nfc_ndef_record_desc \<times> u8 list"

text \<open>An NDEF message as the NDEF specification describes it: in the flags of its first record the
  Message Begin bit (0x80) is set, in those of its last record the Message End bit (0x40), and no
  other record has either of them.\<close>

definition message_mark :: "bool \<Rightarrow> bool \<Rightarrow> u8" where
  "message_mark begins ends = (if begins then 0x80 else 0) OR (if ends then 0x40 else 0)"

fun msg_bytes_from :: "bool \<Rightarrow> emitted list \<Rightarrow> u8 list" where
  "msg_bytes_from begins [] = []"
| "msg_bytes_from begins ((r, body) # rs) =
     record_bytes r (message_mark begins (rs = [])) body @ msg_bytes_from False rs"

definition msg_bytes :: "emitted list \<Rightarrow> u8 list" where
  "msg_bytes rs = msg_bytes_from True rs"

definition emits :: "emitted \<Rightarrow> bool" where
  "emits = (\<lambda>(r, body). record_desc_ok r \<and>
     (\<exists>pc. payload_construct (rec_payload r) = Some pc \<and> writes pc body))"

definition emits_size :: "emitted \<Rightarrow> bool" where
  "emits_size = (\<lambda>(r, body). record_desc_ok r \<and>
     (\<exists>pc. payload_construct (rec_payload r) = Some pc \<and> sizes pc body))"

lemma location_ok_mark [simp]: "location_ok (message_mark begins ends)"
  by (simp add: location_ok_def message_mark_def)

text \<open>The location the code computes from the 32-bit index of a record and the number of records
  marks the records in this way.\<close>

lemma record_location_get_mark:
  assumes "unat i + Suc (length rs) = unat n"
  shows "record_location_get i n = message_mark (i = 0) (rs = [])" "(i + 1 = 0) = False"
proof -
  have s: "unat (i + 1) = unat i + 1" using assms by (intro unat_Suc_less [of i n]) (simp add: word_less_nat_alt)
  then show z: "(i + 1 = 0) = False" by (metis add_eq_0_iff_both_eq_0 one_neq_zero unat_0)
  have m: "i \<noteq> 0xFFFFFFFF" using z by auto
  have e: "n = i + 1 \<longleftrightarrow> rs = []" using s assms by (auto simp: word_unat_eq_iff)
  have "n = 1 \<longleftrightarrow> rs = []" if "i = 0" using e that by simp
  then show "record_location_get i n = message_mark (i = 0) (rs = [])"
    using m e by (simp add: record_location_get_def message_mark_def)
qed

lemma msg_encode_loop_step:
  assumes "i < count" "unat i < length recs" "recs ! unat i = Some r"
  shows "msg_encode_loop recs count buf i s =
     bindE (nfc_ndef_record_encode (Some r) (record_location_get i count)
              (map_option (\<lambda>(mem, len). (drop (unat s) mem, len - s)) buf))
       (\<lambda>(m, n). msg_encode_loop recs count (map_option (\<lambda>(mem, len). (take (unat s) mem @ m, len)) buf)
                    (i + 1) (s + n))"
  using assms by (subst msg_encode_loop.simps) simp

lemma msg_encode_loop_buf:
  assumes "unat i + length rs = unat count" "unat count \<le> length recs"
    and "\<forall>k < length rs. recs ! (unat i + k) = Some (fst (rs ! k))"
    and "list_all emits rs" "unat len \<le> length mem" "unat s \<le> unat len"
    and "unat s + length (msg_bytes_from (i = 0) rs) < 2 ^ 32"
  shows "let bs = msg_bytes_from (i = 0) rs; r = msg_encode_loop recs count (Some (mem, len)) i s in
     if unat s + length bs \<le> unat len
     then r = Inr (take (unat s) mem @ bs @ drop (unat s + length bs) mem, s + of_nat (length bs))
     else r = Inl ENOMEM \<or> r = Inl ENOSR"
  using assms
proof (induction rs arbitrary: i s mem)
  case Nil
  then have "\<not> i < count" by (simp add: word_less_nat_alt)
  with Nil show ?case by (simp add: msg_encode_loop.simps)
next
  case (Cons e rs)
  obtain r body where e: "e = (r, body)" by (cases e)
  obtain pc where ok: "record_desc_ok r" and pc: "payload_construct (rec_payload r) = Some pc" "writes pc body"
    using Cons.prems(4) e by (auto simp: emits_def)
  let ?loc = "message_mark (i = 0) (rs = [])"
  let ?rb = "record_bytes r ?loc body" and ?rest = "msg_bytes_from (i + 1 = 0) rs"
  have "unat i + Suc (length rs) = unat count" using Cons.prems(1) by simp
  note loc = record_location_get_mark [OF this]
  have i: "i < count" "unat (i + 1) = unat i + 1"
    using Cons.prems(1) unat_Suc_less [of i count] by (simp_all add: word_less_nat_alt)
  have rb: "writes (nfc_ndef_record_encode (Some r) ?loc) ?rb"
    using Cons.prems(7) e by (intro record_encode_writes [OF ok location_ok_mark pc]) (simp add: length_record_bytes)
  have at: "recs ! unat i = Some r" "unat i < length recs"
    using Cons.prems(1-3) e by (force, simp)
  have sub: "unat (len - s) = unat len - unat s"
    using Cons.prems(6) by (simp add: unat_sub_le word_le_nat_alt)
  have dl: "unat (len - s) \<le> length (drop (unat s) mem)"
    using Cons.prems(5) by (simp add: sub)
  note step = msg_encode_loop_step [OF i(1) at(2,1), where buf = "Some (mem, len)" and s = s, unfolded loc(1)]
  show ?case
  proof (cases "length ?rb \<le> unat (len - s)")
    case False
    then have "unat (len - s) < length ?rb" by simp
    from writes_nospace [OF rb dl this] show ?thesis
      using False sub Cons.prems(6) e by (auto simp: step Let_def)
  next
    case True
    let ?mem = "take (unat s) mem @ ?rb @ drop (length ?rb) (drop (unat s) mem)"
    have enc: "nfc_ndef_record_encode (Some r) ?loc (Some (drop (unat s) mem, len - s)) =
        Inr (?rb @ drop (length ?rb) (drop (unat s) mem), of_nat (length ?rb))"
      by (rule writes_fits [OF rb dl True])
    have s': "unat (s + of_nat (length ?rb)) = unat s + length ?rb"
      using Cons.prems(7) e by (simp add: unat_add_no_wrap_u32 unat_of_nat_u32)
    have tk: "take (unat s + length ?rb) ?mem = take (unat s) mem @ ?rb"
      using Cons.prems(5,6) by simp
    have dp: "drop (unat s + length ?rb + n) ?mem = drop (unat s + length ?rb + n) mem" for n
      using Cons.prems(5,6) by (simp add: ac_simps)
    have IH: "let bs = ?rest; x = msg_encode_loop recs count (Some (?mem, len)) (i + 1) (s + of_nat (length ?rb)) in
       if unat (s + of_nat (length ?rb)) + length bs \<le> unat len
       then x = Inr (take (unat (s + of_nat (length ?rb))) ?mem @ bs @
              drop (unat (s + of_nat (length ?rb)) + length bs) ?mem, s + of_nat (length ?rb) + of_nat (length bs))
       else x = Inl ENOMEM \<or> x = Inl ENOSR"
    proof (rule Cons.IH)
      show "\<forall>k<length rs. recs ! (unat (i + 1) + k) = Some (fst (rs ! k))"
      proof (intro allI impI)
        fix k assume "k < length rs"
        then show "recs ! (unat (i + 1) + k) = Some (fst (rs ! k))"
          using Cons.prems(3) [rule_format, of "Suc k"] i(2) by simp
      qed
    qed (use Cons.prems i s' e True sub loc(2) in \<open>auto simp: length_record_bytes\<close>)
    have "min (length mem) (unat s) = unat s" using Cons.prems(5,6) by simp
    with IH [unfolded loc(2)] show ?thesis
      by (simp add: Let_def step enc s' tk dp e ac_simps split: if_splits)
  qed
qed

text \<open>The message encoder meets the payload constructor contract, so that a message can be nested as
  the payload of a record.\<close>

definition msg_emits :: "nfc_ndef_msg_desc \<Rightarrow> emitted list \<Rightarrow> bool" where
  "msg_emits m rs \<longleftrightarrow> msg_inv m \<and> msg_records m = map (Some \<circ> fst) rs \<and> length (msg_bytes rs) < 2 ^ 32"

lemma msg_emits_length: "msg_emits m rs \<Longrightarrow> length (msg_bytes rs) < 2 ^ 32"
  by (simp add: msg_emits_def)

lemma msg_emits_loop:
  assumes "msg_emits m rs"
  obtains recs where "msg_record m = Some recs" "unat (msg_record_count m) = length rs"
    "unat (msg_record_count m) \<le> length recs" "\<forall>k < length rs. recs ! k = Some (fst (rs ! k))"
    "of_nat (length rs) = msg_record_count m"
proof -
  from assms obtain recs where r: "msg_record m = Some recs" "length recs = unat (msg_max_record_count m)"
      "msg_record_count m \<le> msg_max_record_count m" and
      m: "take (unat (msg_record_count m)) recs = map (Some \<circ> fst) rs"
    by (auto simp: msg_emits_def msg_inv_def msg_records_def)
  have l: "unat (msg_record_count m) \<le> length recs" using r by (simp add: word_le_nat_alt)
  then have c: "unat (msg_record_count m) = length rs" using arg_cong [OF m, of length] by simp
  moreover have "recs ! k = Some (fst (rs ! k))" if "k < length rs" for k
  proof -
    have "recs ! k = take (unat (msg_record_count m)) recs ! k" using that c by simp
    then show ?thesis using m that by simp
  qed
  moreover have "of_nat (length rs) = msg_record_count m" using c [symmetric] by simp
  ultimately show ?thesis using that r(1) l by auto
qed

lemma msg_encode_writes:
  assumes m: "msg_emits m rs" and e: "list_all emits rs"
  shows "writes (nfc_ndef_msg_encode (Some m)) (msg_bytes rs)"
proof (rule writesI)
  obtain recs where r: "msg_record m = Some recs" "unat (msg_record_count m) = length rs"
    "unat (msg_record_count m) \<le> length recs" "\<forall>k < length rs. recs ! k = Some (fst (rs ! k))"
    "of_nat (length rs) = msg_record_count m"
    using m by (rule msg_emits_loop)
  show len: "length (msg_bytes rs) < 2 ^ 32" using m by (simp add: msg_emits_def)
  fix mem :: "u8 list" and cap :: u32
  assume cap: "unat cap \<le> length mem"
  have L: "let bs = msg_bytes rs; x = nfc_ndef_msg_encode (Some m) (Some (mem, cap)) in
     if length bs \<le> unat cap then x = Inr (bs @ drop (length bs) mem, of_nat (length bs))
     else x = Inl ENOMEM \<or> x = Inl ENOSR"
    using msg_encode_loop_buf [of 0 rs "msg_record_count m" recs cap mem 0] r e cap len
    by (simp add: nfc_ndef_msg_encode_def msg_bytes_def Let_def)
  then show "nfc_ndef_msg_encode (Some m) (Some (mem, cap)) =
      Inr (msg_bytes rs @ drop (length (msg_bytes rs)) mem, of_nat (length (msg_bytes rs)))"
    if "length (msg_bytes rs) \<le> unat cap"
    using that by (simp add: Let_def)
  show "nfc_ndef_msg_encode (Some m) (Some (mem, cap)) = Inl ENOMEM \<or>
      nfc_ndef_msg_encode (Some m) (Some (mem, cap)) = Inl ENOSR"
    if "unat cap < length (msg_bytes rs)"
    using L that by (simp add: Let_def)
qed

lemma msg_encode_loop_null:
  assumes "unat i + length rs = unat count" "unat count \<le> length recs"
    and "\<forall>k < length rs. recs ! (unat i + k) = Some (fst (rs ! k))" "list_all emits_size rs"
  shows "msg_encode_loop recs count None i s = Inr ([], s + of_nat (length (msg_bytes_from (i = 0) rs)))"
  using assms
proof (induction rs arbitrary: i s)
  case Nil
  then have "\<not> i < count" by (simp add: word_less_nat_alt)
  with Nil show ?case by (simp add: msg_encode_loop.simps)
next
  case (Cons e rs)
  obtain r body where e: "e = (r, body)" by (cases e)
  obtain pc where ok: "record_desc_ok r" and pc: "payload_construct (rec_payload r) = Some pc" "sizes pc body"
    using Cons.prems(4) e by (auto simp: emits_size_def)
  have i: "i < count" "unat (i + 1) = unat i + 1"
    using Cons.prems(1) unat_Suc_less [of i count] by (simp_all add: word_less_nat_alt)
  have at: "recs ! unat i = Some r" "unat i < length recs"
    using Cons.prems(1-3) e by (force, simp)
  have "recs ! (unat (i + 1) + k) = Some (fst (rs ! k))" if "k < length rs" for k
    using Cons.prems(3) [rule_format, of "Suc k"] i(2) that by simp
  then have IH: "msg_encode_loop recs count None (i + 1) s' =
      Inr ([], s' + of_nat (length (msg_bytes_from (i + 1 = 0) rs)))" for s'
    using Cons.prems i by (intro Cons.IH) auto
  have "unat i + Suc (length rs) = unat count" using Cons.prems(1) by simp
  note loc = record_location_get_mark [OF this]
  show ?case
    using record_encode_sizes [OF ok pc, of "message_mark (i = 0) (rs = [])"] e
    by (simp add: msg_encode_loop_step [OF i(1) at(2,1), unfolded loc(1)] sizes_def IH loc(2) add.assoc)
qed

lemma msg_encode_sizes:
  assumes m: "msg_emits m rs" and e: "list_all emits_size rs"
  shows "sizes (nfc_ndef_msg_encode (Some m)) (msg_bytes rs)"
proof -
  obtain recs where r: "msg_record m = Some recs" "unat (msg_record_count m) = length rs"
    "unat (msg_record_count m) \<le> length recs" "\<forall>k < length rs. recs ! k = Some (fst (rs ! k))"
    "of_nat (length rs) = msg_record_count m"
    using m by (rule msg_emits_loop)
  show ?thesis
    using msg_encode_loop_null [of 0 rs "msg_record_count m" recs 0] r e
    by (simp add: sizes_def nfc_ndef_msg_encode_def msg_bytes_def)
qed

interpretation nested: payload_constructor "\<lambda>(m, rs). nfc_ndef_msg_encode (Some m)"
    "\<lambda>(m, rs). msg_emits m rs \<and> list_all emits rs \<and> list_all emits_size rs" "\<lambda>(m, rs). msg_bytes rs"
  by unfold_locales (auto intro: msg_encode_writes msg_encode_sizes)

section \<open>Collecting records\<close>

text \<open>A descriptor that holds records which their constructors can write.\<close>

definition msg_holds :: "nfc_ndef_msg_desc \<Rightarrow> emitted list \<Rightarrow> bool" where
  "msg_holds m rs \<longleftrightarrow> msg_inv m \<and> msg_records m = map (Some \<circ> fst) rs \<and> list_all emits rs"

definition emitted_size :: "emitted list \<Rightarrow> nat" where
  "emitted_size rs = sum_list (map (\<lambda>(r, body). 6 + length (record_id_type r) + length body) rs)"

lemma emitted_size_simps [simp]:
  "emitted_size [] = 0" "emitted_size (rs @ es) = emitted_size rs + emitted_size es"
  by (simp_all add: emitted_size_def)

lemma length_msg_bytes: "length (msg_bytes rs) = emitted_size rs"
proof -
  have "length (msg_bytes_from first rs) = emitted_size rs" for first
    by (induction first rs rule: msg_bytes_from.induct) (simp_all add: emitted_size_def length_record_bytes)
  then show ?thesis by (simp add: msg_bytes_def)
qed

lemma msg_holds_writes:
  assumes "msg_holds m rs" "emitted_size rs < 2 ^ 32"
  shows "msg_emits m rs" "writes (nfc_ndef_msg_encode (Some m)) (msg_bytes rs)"
proof -
  show "msg_emits m rs" using assms by (simp add: msg_holds_def msg_emits_def length_msg_bytes)
  then show "writes (nfc_ndef_msg_encode (Some m)) (msg_bytes rs)"
    using assms(1) by (intro msg_encode_writes) (simp_all add: msg_holds_def)
qed

lemma msg_holds_empty: "length arr < 2 ^ 32 \<Longrightarrow> msg_holds (NFC_NDEF_MSG_DEF arr) []"
  by (simp add: msg_holds_def msg_inv_def_init) (simp add: msg_records_def NFC_NDEF_MSG_DEF_def)

lemma msg_holds_clear: "msg_holds m rs \<Longrightarrow> msg_holds (nfc_ndef_msg_clear m) []"
  using msg_inv_clear [of m] by (simp add: msg_holds_def)

lemma msg_inv_count: "msg_inv m \<Longrightarrow> length (msg_records m) = unat (msg_record_count m)"
  by (auto simp: msg_inv_def msg_records_def word_le_nat_alt)

lemma msg_holds_count: "msg_holds m rs \<Longrightarrow> unat (msg_record_count m) = length rs"
proof -
  assume "msg_holds m rs"
  then have "length (msg_records m) = length rs" by (simp add: msg_holds_def)
  moreover have "length (msg_records m) = unat (msg_record_count m)"
    using \<open>msg_holds m rs\<close> by (intro msg_inv_count) (simp add: msg_holds_def)
  ultimately show ?thesis by simp
qed

lemma msg_holds_add_all:
  assumes "msg_holds m rs" "list_all emits es"
  shows "if length rs + length es \<le> max (unat (msg_max_record_count m)) (length rs)
    then \<exists>m'. foldE nfc_ndef_msg_record_add m (map (Some \<circ> fst) es) = Inr m' \<and> msg_holds m' (rs @ es) \<and>
        unat (msg_max_record_count m') = unat (msg_max_record_count m)
    else foldE nfc_ndef_msg_record_add m (map (Some \<circ> fst) es) = Inl ENOSR"
  using msgs.add_all [of m "map (Some \<circ> fst) es"] assms by (auto simp: msg_holds_def split: if_splits)

section \<open>Properties\<close>

text \<open>C2: The message encoder stores the records of the descriptor one after the other, with the
  Message Begin bit set in the flags of the first record only and the Message End bit in those of
  the last record only, and returns the length of the message; when the message does not fit it fails with -ENOMEM or -ENOSR and never writes outside the buffer.\<close>

theorem msg_encode_correct:
  assumes "msg_emits m rs" "list_all emits rs" "unat cap \<le> length mem"
  shows "if length (msg_bytes rs) \<le> unat cap
    then nfc_ndef_msg_encode (Some m) (Some (mem, cap)) =
      Inr (msg_bytes rs @ drop (length (msg_bytes rs)) mem, of_nat (length (msg_bytes rs)))
    else nfc_ndef_msg_encode (Some m) (Some (mem, cap)) \<in> {Inl ENOMEM, Inl ENOSR}"
  using writes_fits [OF msg_encode_writes [OF assms(1,2)] assms(3)]
    writes_nospace [OF msg_encode_writes [OF assms(1,2)] assms(3)] by auto

definition sample_msg :: nfc_ndef_msg_desc where
  "sample_msg = \<lparr>msg_record = Some [Some sample_record, Some sample_record, None],
     msg_max_record_count = 3, msg_record_count = 2\<rparr>"

definition sample_emitted :: "emitted list" where
  "sample_emitted = [(sample_record, [0xAA, 0xBB]), (sample_record, [0xAA, 0xBB])]"

lemma sample_msg_bytes: "msg_bytes sample_emitted =
    [0x89, 1, 0, 0, 0, 2, 1, 0x55, 0x37, 0xAA, 0xBB, 0x49, 1, 0, 0, 0, 2, 1, 0x55, 0x37, 0xAA, 0xBB]"
  by (simp add: msg_bytes_def sample_emitted_def record_bytes_def record_flags_def sample_record_def
      record_id_type_def message_mark_def put_be32_def)

lemma sample_msg_ok: "msg_emits sample_msg sample_emitted" "list_all emits sample_emitted"
    "list_all emits_size sample_emitted"
proof -
  have "sizes (nfc_ndef_bin_payload_memcopy \<lparr>bin_payload = Some [0xAA, 0xBB], bin_payload_length = 2\<rparr>) [0xAA, 0xBB]"
    using bin.enc_sizes [of "\<lparr>bin_payload = Some [0xAA, 0xBB], bin_payload_length = 2\<rparr>"]
    by (simp add: bin_ok_def bin_body_def)
  then show "list_all emits_size sample_emitted" "list_all emits sample_emitted"
    using sample_record_ok by (simp_all add: emits_def emits_size_def sample_emitted_def)
  show "msg_emits sample_msg sample_emitted"
    by (simp add: msg_emits_def sample_msg_bytes)
      (simp add: sample_msg_def sample_emitted_def msg_inv_def msg_records_def)
qed

theorem msg_encode_correct_witness:
  "nfc_ndef_msg_encode (Some sample_msg) (Some (replicate 30 0, 30)) =
     Inr ([0x89, 1, 0, 0, 0, 2, 1, 0x55, 0x37, 0xAA, 0xBB, 0x49, 1, 0, 0, 0, 2, 1, 0x55, 0x37, 0xAA, 0xBB] @
          replicate 8 0, 22)"
  using msg_encode_correct [OF sample_msg_ok(1,2), of 30 "replicate 30 0"]
  by (simp add: sample_msg_bytes)

text \<open>C3: Calling the message encoder with a NULL buffer reports a size with which the second call,
  with a buffer of that size, always succeeds and writes exactly that many bytes.\<close>

theorem msg_size_then_encode:
  assumes "msg_emits m rs" "list_all emits rs" "list_all emits_size rs"
    and "nfc_ndef_msg_encode (Some m) None = Inr (m0, n)" "unat n \<le> length mem"
  shows "nfc_ndef_msg_encode (Some m) (Some (mem, n)) = Inr (msg_bytes rs @ drop (unat n) mem, n)"
  using nested.size_then_encode [of "(m, rs)" m0 n mem] assms by simp

theorem msg_size_then_encode_witness:
  "nfc_ndef_msg_encode (Some sample_msg) (Some (replicate 25 0, 22)) =
     Inr (msg_bytes sample_emitted @ replicate 3 0, 22)"
  using msg_size_then_encode [OF sample_msg_ok, of "[]" 22 "replicate 25 0"] msg_encode_sizes [OF sample_msg_ok(1,3)]
  by (simp add: sizes_def sample_msg_bytes)

text \<open>C4: Adding records to a message descriptor appends them in order until its array is full and
  then fails with -ENOSR, whatever was added before; the descriptor invariant is kept, so no write
  leaves the record array.\<close>

theorem msg_record_add_all:
  assumes "msg_inv m"
  shows "if length (msg_records m) + length rs \<le> unat (msg_max_record_count m) \<or> rs = []
    then \<exists>m'. foldE nfc_ndef_msg_record_add m rs = Inr m' \<and> msg_inv m' \<and>
      msg_records m' = msg_records m @ rs \<and> msg_max_record_count m' = msg_max_record_count m
    else foldE nfc_ndef_msg_record_add m rs = Inl ENOSR"
  using msgs.add_all [OF assms, of rs] by (cases rs) (auto simp: max_def word_unat_eq_iff split: if_splits)

theorem msg_record_add_all_witness:
  "msg_inv (NFC_NDEF_MSG_DEF [None]) \<and>
   foldE nfc_ndef_msg_record_add (NFC_NDEF_MSG_DEF [None]) [None, None] = Inl ENOSR"
  using msg_record_add_all [of "NFC_NDEF_MSG_DEF [None]" "[None, None]"] msg_inv_def_init [of "[None]"]
  by (simp add: NFC_NDEF_MSG_DEF_def msg_records_def)

end
