(* ===== verification/Ndef_Payloads.thy ===== *)
theory Ndef_Payloads
  imports Ndef_Msg
begin

text \<open>
  The payload constructors of URI, text and TNEP records (\<open>subsys/nfc/ndef/uri_rec.c\<close>,
  \<open>uri_msg.c\<close>, \<open>text_rec.c\<close>, \<open>tnep_rec.c\<close>) and the URI message. Each constructor is shown to meet
  the contract \<open>payload_constructor\<close> on well-formed descriptors.
\<close>

section \<open>URI records\<close>

record nfc_ndef_uri_rec_payload =
  uri_id_code :: u8
  uri_data :: ptr
  uri_data_len :: u8

definition nfc_ndef_uri_rec_payload_encode :: "nfc_ndef_uri_rec_payload \<Rightarrow> payload_constructor_t" where
  "nfc_ndef_uri_rec_payload_encode input buf = (case buf of
     None \<Rightarrow> Inr ([], ucast (uri_data_len input) + 1)
   | Some (mem, len) \<Rightarrow>
       if ucast (uri_data_len input) \<ge> len then Inl ENOMEM
       else bindE (mem_read (uri_data input) (unat (uri_data_len input))) (\<lambda>d.
            bindE (mem_write mem 0 (uri_id_code input # d)) (\<lambda>mem'.
            Inr (mem', ucast (uri_data_len input) + 1))))"

text \<open>\<open>NFC_NDEF_URI_RECORD_DESC_DEF\<close>; the type field is the single byte \<open>'U'\<close>.\<close>

definition nfc_ndef_uri_rec_type :: u8 where
  "nfc_ndef_uri_rec_type = 0x55"

definition NFC_NDEF_URI_RECORD_DESC_DEF :: "u8 \<Rightarrow> ptr \<Rightarrow> u8 \<Rightarrow> nfc_ndef_record_desc" where
  "NFC_NDEF_URI_RECORD_DESC_DEF id_code data data_len =
     \<lparr>rec_tnf = TNF_WELL_KNOWN, rec_id_length = 0, rec_id = None, rec_type_length = 1,
      rec_type = Some [nfc_ndef_uri_rec_type],
      rec_payload = Payload_Fun (nfc_ndef_uri_rec_payload_encode
        \<lparr>uri_id_code = id_code, uri_data = data, uri_data_len = data_len\<rparr>)\<rparr>"

definition nfc_ndef_uri_msg_encode :: "u8 \<Rightarrow> ptr \<Rightarrow> u8 \<Rightarrow> payload_constructor_t" where
  "nfc_ndef_uri_msg_encode id_code data data_len buf =
     bindE (nfc_ndef_msg_record_add (NFC_NDEF_MSG_DEF [None])
              (Some (NFC_NDEF_URI_RECORD_DESC_DEF id_code data data_len))) (\<lambda>msg.
     if data = None then Inl EINVAL else nfc_ndef_msg_encode (Some msg) buf)"

definition uri_ok :: "nfc_ndef_uri_rec_payload \<Rightarrow> bool" where
  "uri_ok d \<longleftrightarrow> readable (uri_data d) (unat (uri_data_len d))"

definition uri_body :: "nfc_ndef_uri_rec_payload \<Rightarrow> u8 list" where
  "uri_body d = uri_id_code d # block (uri_data d) (unat (uri_data_len d))"

lemma length_uri_body [simp]: "uri_ok d \<Longrightarrow> length (uri_body d) = unat (uri_data_len d) + 1"
  by (simp add: uri_ok_def uri_body_def mem_simps)

interpretation uri: payload_constructor nfc_ndef_uri_rec_payload_encode uri_ok uri_body
proof unfold_locales
  fix d
  assume ok: "uri_ok d"
  have b: "length (block (uri_data d) (unat (uri_data_len d))) = unat (uri_data_len d)"
    using ok by (simp add: uri_ok_def mem_simps)
  show "writes (nfc_ndef_uri_rec_payload_encode d) (uri_body d)"
  proof (rule writesI)
    show "length (uri_body d) < 2 ^ 32" using ok unat_u8_lt [of "uri_data_len d"] by simp
  qed (use ok b in \<open>auto simp: nfc_ndef_uri_rec_payload_encode_def word_le_nat_alt uri_ok_def uri_body_def
        mem_simps\<close>)
  show "sizes (nfc_ndef_uri_rec_payload_encode d) (uri_body d)"
    using ok by (simp add: sizes_def nfc_ndef_uri_rec_payload_encode_def)
qed

section \<open>Text records\<close>

record nfc_ndef_text_rec_payload =
  text_utf :: u8
  text_lang_code :: ptr
  text_lang_code_len :: u8
  text_data :: ptr
  text_data_len :: u32

definition nfc_text_rec_payload_size_get :: "nfc_ndef_text_rec_payload \<Rightarrow> u32" where
  "nfc_text_rec_payload_size_get d = 1 + ucast (text_lang_code_len d) + text_data_len d"

definition nfc_ndef_text_rec_payload_encode :: "nfc_ndef_text_rec_payload \<Rightarrow> payload_constructor_t" where
  "nfc_ndef_text_rec_payload_encode d buf =
     (if text_lang_code_len d = 0 \<or> text_lang_code_len d AND push_bit 6 1 \<noteq> 0 \<or>
         text_lang_code_len d AND push_bit 7 1 \<noteq> 0 \<or> text_lang_code d = None \<or>
         text_data_len d = 0 \<or> text_data d = None
      then Inl EINVAL
      else let payload_size = nfc_text_rec_payload_size_get d in (case buf of
        None \<Rightarrow> Inr ([], payload_size)
      | Some (mem, len) \<Rightarrow>
          if payload_size > len then Inl ENOSR
          else bindE (mem_read (text_lang_code d) (unat (text_lang_code_len d))) (\<lambda>lc.
               bindE (mem_read (text_data d) (unat (text_data_len d))) (\<lambda>tx.
               bindE (mem_write mem 0 ((text_lang_code_len d + push_bit 7 (text_utf d)) # lc @ tx)) (\<lambda>mem'.
               Inr (mem', payload_size))))))"

definition text_ok :: "nfc_ndef_text_rec_payload \<Rightarrow> bool" where
  "text_ok d \<longleftrightarrow> text_lang_code_len d \<noteq> 0 \<and> text_lang_code_len d AND push_bit 6 1 = 0 \<and>
     text_lang_code_len d AND push_bit 7 1 = 0 \<and> text_data_len d \<noteq> 0 \<and>
     readable (text_lang_code d) (unat (text_lang_code_len d)) \<and>
     readable (text_data d) (unat (text_data_len d)) \<and>
     1 + unat (text_lang_code_len d) + unat (text_data_len d) < 2 ^ 32"

definition text_body :: "nfc_ndef_text_rec_payload \<Rightarrow> u8 list" where
  "text_body d = (text_lang_code_len d + push_bit 7 (text_utf d)) #
     block (text_lang_code d) (unat (text_lang_code_len d)) @ block (text_data d) (unat (text_data_len d))"

lemma text_ok_facts:
  assumes "text_ok d"
  shows "length (text_body d) = 1 + unat (text_lang_code_len d) + unat (text_data_len d)"
    "unat (nfc_text_rec_payload_size_get d) = 1 + unat (text_lang_code_len d) + unat (text_data_len d)"
    "text_lang_code d \<noteq> None" "text_data d \<noteq> None"
    "length (block (text_lang_code d) (unat (text_lang_code_len d))) = unat (text_lang_code_len d)"
    "length (block (text_data d) (unat (text_data_len d))) = unat (text_data_len d)"
  using assms by (auto simp: text_ok_def text_body_def mem_simps nfc_text_rec_payload_size_get_def
      unat_word_ariths dest: readable_nonnull)

interpretation text_rec: payload_constructor nfc_ndef_text_rec_payload_encode text_ok text_body
proof unfold_locales
  fix d
  assume ok: "text_ok d"
  note f = text_ok_facts [OF ok]
  have sz: "nfc_text_rec_payload_size_get d = of_nat (length (text_body d))"
    by (metis f(1,2) word_of_nat_unat_id)
  have acc: "nfc_ndef_text_rec_payload_encode d (Some (mem, len)) =
      (if nfc_text_rec_payload_size_get d > len then Inl ENOSR
       else bindE (mem_write mem 0 (text_body d)) (\<lambda>mem'. Inr (mem', nfc_text_rec_payload_size_get d)))" for mem len
    using ok f by (auto simp: nfc_ndef_text_rec_payload_encode_def text_ok_def Let_def mem_simps text_body_def)
  show "writes (nfc_ndef_text_rec_payload_encode d) (text_body d)"
  proof (rule writesI)
    show "length (text_body d) < 2 ^ 32" using ok f by (simp add: text_ok_def)
  next
    fix mem :: "u8 list" and cap :: u32
    assume "unat cap \<le> length mem" "length (text_body d) \<le> unat cap"
    then show "nfc_ndef_text_rec_payload_encode d (Some (mem, cap)) =
        Inr (text_body d @ drop (length (text_body d)) mem, of_nat (length (text_body d)))"
      using f by (simp add: acc word_less_nat_alt mem_simps nfc_text_rec_payload_size_get_def ac_simps)
  qed (use f in \<open>auto simp: acc word_less_nat_alt\<close>)
  show "sizes (nfc_ndef_text_rec_payload_encode d) (text_body d)"
    using ok f sz by (simp add: sizes_def nfc_ndef_text_rec_payload_encode_def Let_def text_ok_def)
qed

section \<open>TNEP records\<close>

record nfc_ndef_tnep_rec_svc_select =
  sel_uri_len :: u8
  sel_uri :: ptr

record nfc_ndef_tnep_rec_svc_param =
  par_version :: u8
  par_uri_length :: u8
  par_uri :: ptr
  par_communication_mode :: u8
  par_min_time :: u8
  par_max_time_ext :: u8
  par_max_size :: u16

definition nfc_tnep_calc_size_service_select :: "nfc_ndef_tnep_rec_svc_select \<Rightarrow> u32" where
  "nfc_tnep_calc_size_service_select d = (if sel_uri_len d \<noteq> 0 then ucast (sel_uri_len d) + 1 else 0)"

definition nfc_tnep_calc_size_service_param :: "nfc_ndef_tnep_rec_svc_param \<Rightarrow> u32" where
  "nfc_tnep_calc_size_service_param d = (if par_uri_length d \<noteq> 0 then ucast (par_uri_length d) + 7 else 0)"

text \<open>The status descriptor has one byte; NULL is \<open>None\<close>.\<close>

definition nfc_ndef_tnep_rec_status_payload :: "u8 option \<Rightarrow> payload_constructor_t" where
  "nfc_ndef_tnep_rec_status_payload d buf = (case d of None \<Rightarrow> Inl EINVAL | Some status \<Rightarrow>
     (case buf of None \<Rightarrow> Inr ([], 1)
      | Some (mem, len) \<Rightarrow> if 1 > len then Inl ENOSR
          else bindE (mem_write mem 0 [status]) (\<lambda>mem'. Inr (mem', 1))))"

definition nfc_ndef_tnep_rec_svc_select_payload ::
    "nfc_ndef_tnep_rec_svc_select option \<Rightarrow> payload_constructor_t" where
  "nfc_ndef_tnep_rec_svc_select_payload desc buf = (case desc of None \<Rightarrow> Inl EINVAL | Some d \<Rightarrow>
     (let payload_size = nfc_tnep_calc_size_service_select d in
      case buf of None \<Rightarrow> Inr ([], payload_size)
      | Some (mem, len) \<Rightarrow> if payload_size > len then Inl ENOSR
          else bindE (mem_read (sel_uri d) (unat (sel_uri_len d))) (\<lambda>uri.
               bindE (mem_write mem 0 (sel_uri_len d # uri)) (\<lambda>mem'.
               Inr (mem', payload_size)))))"

definition nfc_ndef_tnep_rec_svc_param_payload ::
    "nfc_ndef_tnep_rec_svc_param \<Rightarrow> payload_constructor_t" where
  "nfc_ndef_tnep_rec_svc_param_payload d buf =
     (if par_version d = 0 \<or> par_uri_length d = 0 \<or> par_uri d = None then Inl EINVAL
      else let payload_size = nfc_tnep_calc_size_service_param d in (case buf of
        None \<Rightarrow> Inr ([], payload_size)
      | Some (mem, len) \<Rightarrow> if payload_size > len then Inl ENOSR
          else bindE (mem_read (par_uri d) (unat (par_uri_length d))) (\<lambda>uri.
               bindE (mem_write mem 0 ([par_version d, par_uri_length d] @ uri @
                   [par_communication_mode d, par_min_time d, par_max_time_ext d] @
                   put_be16 (par_max_size d))) (\<lambda>mem'.
               Inr (mem', payload_size)))))"

definition select_ok :: "nfc_ndef_tnep_rec_svc_select option \<Rightarrow> bool" where
  "select_ok d \<longleftrightarrow> (\<exists>s. d = Some s \<and> sel_uri_len s \<noteq> 0 \<and> readable (sel_uri s) (unat (sel_uri_len s)))"

definition select_body :: "nfc_ndef_tnep_rec_svc_select option \<Rightarrow> u8 list" where
  "select_body d = (case d of None \<Rightarrow> [] | Some s \<Rightarrow> sel_uri_len s # block (sel_uri s) (unat (sel_uri_len s)))"

definition param_ok :: "nfc_ndef_tnep_rec_svc_param \<Rightarrow> bool" where
  "param_ok d \<longleftrightarrow> par_version d \<noteq> 0 \<and> par_uri_length d \<noteq> 0 \<and>
     readable (par_uri d) (unat (par_uri_length d))"

definition param_body :: "nfc_ndef_tnep_rec_svc_param \<Rightarrow> u8 list" where
  "param_body d = [par_version d, par_uri_length d] @ block (par_uri d) (unat (par_uri_length d)) @
     [par_communication_mode d, par_min_time d, par_max_time_ext d] @ put_be16 (par_max_size d)"

interpretation status: payload_constructor nfc_ndef_tnep_rec_status_payload "\<lambda>d. d \<noteq> None" "\<lambda>d. [the d]"
proof unfold_locales
  fix d :: "u8 option"
  assume ok: "d \<noteq> None"
  show "writes (nfc_ndef_tnep_rec_status_payload d) [the d]"
    by (rule writesI) (use ok in \<open>auto simp: nfc_ndef_tnep_rec_status_payload_def word_less_nat_alt mem_simps\<close>)
  show "sizes (nfc_ndef_tnep_rec_status_payload d) [the d]"
    using ok by (auto simp: sizes_def nfc_ndef_tnep_rec_status_payload_def)
qed

interpretation select: payload_constructor nfc_ndef_tnep_rec_svc_select_payload select_ok select_body
proof unfold_locales
  fix d
  assume "select_ok d"
  then obtain s where ok: "d = Some s" "sel_uri_len s \<noteq> 0" "readable (sel_uri s) (unat (sel_uri_len s))"
    by (auto simp: select_ok_def)
  have l: "length (select_body d) = unat (sel_uri_len s) + 1"
    "length (block (sel_uri s) (unat (sel_uri_len s))) = unat (sel_uri_len s)"
    using ok by (simp_all add: select_body_def mem_simps)
  have u: "unat (ucast (sel_uri_len s) + 1 :: u32) = unat (sel_uri_len s) + 1"
    using unat_u8_lt [of "sel_uri_len s"] by (simp add: unat_add_no_wrap_u32)
  show "writes (nfc_ndef_tnep_rec_svc_select_payload d) (select_body d)"
  proof (rule writesI)
    show "length (select_body d) < 2 ^ 32" using l unat_u8_lt [of "sel_uri_len s"] by simp
  qed (use ok l u in \<open>auto simp: nfc_ndef_tnep_rec_svc_select_payload_def
        nfc_tnep_calc_size_service_select_def word_less_nat_alt mem_simps select_body_def\<close>)
  show "sizes (nfc_ndef_tnep_rec_svc_select_payload d) (select_body d)"
    using ok l by (simp add: sizes_def nfc_ndef_tnep_rec_svc_select_payload_def
        nfc_tnep_calc_size_service_select_def)
qed

interpretation param: payload_constructor nfc_ndef_tnep_rec_svc_param_payload param_ok param_body
proof unfold_locales
  fix d
  assume "param_ok d"
  then have ok: "par_version d \<noteq> 0" "par_uri_length d \<noteq> 0" "readable (par_uri d) (unat (par_uri_length d))"
      "par_uri d \<noteq> None"
    using readable_nonnull by (auto simp: param_ok_def)
  have l: "length (param_body d) = unat (par_uri_length d) + 7"
    "length (block (par_uri d) (unat (par_uri_length d))) = unat (par_uri_length d)"
    using ok by (simp_all add: param_body_def mem_simps)
  have u: "unat (ucast (par_uri_length d) + 7 :: u32) = unat (par_uri_length d) + 7"
    using unat_u8_lt [of "par_uri_length d"] by (simp add: unat_add_no_wrap_u32)
  show "writes (nfc_ndef_tnep_rec_svc_param_payload d) (param_body d)"
  proof (rule writesI)
    show "length (param_body d) < 2 ^ 32" using l unat_u8_lt [of "par_uri_length d"] by simp
  qed (use ok l u in \<open>auto simp: nfc_ndef_tnep_rec_svc_param_payload_def
        nfc_tnep_calc_size_service_param_def word_less_nat_alt mem_simps param_body_def Let_def\<close>)
  show "sizes (nfc_ndef_tnep_rec_svc_param_payload d) (param_body d)"
    using ok l by (simp add: sizes_def nfc_ndef_tnep_rec_svc_param_payload_def
        nfc_tnep_calc_size_service_param_def Let_def)
qed

text \<open>The record descriptors of the macros of \<open>include/nfc/ndef/tnep_rec.h\<close>.\<close>

definition nfc_ndef_tnep_rec_type_status :: "u8 list" where
  "nfc_ndef_tnep_rec_type_status = [0x54, 0x65]"

definition nfc_ndef_tnep_rec_type_svc_select :: "u8 list" where
  "nfc_ndef_tnep_rec_type_svc_select = [0x54, 0x73]"

definition nfc_ndef_tnep_rec_type_svc_param :: "u8 list" where
  "nfc_ndef_tnep_rec_type_svc_param = [0x54, 0x70]"

abbreviation (input) NFC_NDEF_TNEP_REC_TYPE_LEN :: nat where "NFC_NDEF_TNEP_REC_TYPE_LEN \<equiv> 2"

definition tnep_record_desc :: "u8 list \<Rightarrow> payload_constructor_t \<Rightarrow> nfc_ndef_record_desc" where
  "tnep_record_desc ty pc =
     \<lparr>rec_tnf = TNF_WELL_KNOWN, rec_id_length = 0, rec_id = None, rec_type_length = 2, rec_type = Some ty,
      rec_payload = Payload_Fun pc\<rparr>"

definition NFC_TNEP_STATUS_RECORD_DESC_DEF :: "u8 \<Rightarrow> nfc_ndef_record_desc" where
  "NFC_TNEP_STATUS_RECORD_DESC_DEF status =
     tnep_record_desc nfc_ndef_tnep_rec_type_status (nfc_ndef_tnep_rec_status_payload (Some status))"

definition NFC_TNEP_SERIVCE_SELECT_RECORD_DESC_DEF :: "u8 \<Rightarrow> ptr \<Rightarrow> nfc_ndef_record_desc" where
  "NFC_TNEP_SERIVCE_SELECT_RECORD_DESC_DEF uri_length uri =
     tnep_record_desc nfc_ndef_tnep_rec_type_svc_select
       (nfc_ndef_tnep_rec_svc_select_payload (Some \<lparr>sel_uri_len = uri_length, sel_uri = uri\<rparr>))"

definition NFC_TNEP_SERIVCE_PARAM_RECORD_DESC_DEF :: "nfc_ndef_tnep_rec_svc_param \<Rightarrow> nfc_ndef_record_desc" where
  "NFC_TNEP_SERIVCE_PARAM_RECORD_DESC_DEF param =
     tnep_record_desc nfc_ndef_tnep_rec_type_svc_param (nfc_ndef_tnep_rec_svc_param_payload param)"

lemmas tnep_types = nfc_ndef_tnep_rec_type_status_def nfc_ndef_tnep_rec_type_svc_select_def
  nfc_ndef_tnep_rec_type_svc_param_def

text \<open>What such a record puts into a message.\<close>

lemma tnep_record_desc_ok [simp]:
  "length ty = 2 \<Longrightarrow> record_desc_ok (tnep_record_desc ty pc)"
  by (simp add: record_desc_ok_def tnep_record_desc_def)

lemma tnep_record_emits:
  "length ty = 2 \<Longrightarrow> writes pc body \<Longrightarrow> emits (tnep_record_desc ty pc, body)"
  by (simp add: emits_def) (simp add: tnep_record_desc_def)

lemma tnep_record_id_type: "length ty = 2 \<Longrightarrow> record_id_type (tnep_record_desc ty pc) = ty"
  by (simp add: record_id_type_def tnep_record_desc_def)

lemma status_record_emits: "emits (NFC_TNEP_STATUS_RECORD_DESC_DEF st, [st])"
  unfolding NFC_TNEP_STATUS_RECORD_DESC_DEF_def
  using status.enc_writes [of "Some st"] by (intro tnep_record_emits) (simp_all add: tnep_types)

lemma select_record_emits:
  "n \<noteq> 0 \<Longrightarrow> readable uri (unat n) \<Longrightarrow>
   emits (NFC_TNEP_SERIVCE_SELECT_RECORD_DESC_DEF n uri, n # block uri (unat n))"
  unfolding NFC_TNEP_SERIVCE_SELECT_RECORD_DESC_DEF_def
  using select.enc_writes [of "Some \<lparr>sel_uri_len = n, sel_uri = uri\<rparr>"]
  by (intro tnep_record_emits) (simp_all add: tnep_types select_ok_def select_body_def)

lemma param_record_emits:
  "param_ok p \<Longrightarrow> emits (NFC_TNEP_SERIVCE_PARAM_RECORD_DESC_DEF p, param_body p)"
  unfolding NFC_TNEP_SERIVCE_PARAM_RECORD_DESC_DEF_def
  by (intro tnep_record_emits param.enc_writes) (simp_all add: tnep_types)

end
