(* ===== verification/Ndef_Ch.thy ===== *)
theory Ndef_Ch
  imports Ndef_Msg
begin

text \<open>
  Connection Handover records and messages (\<open>subsys/nfc/ndef/ch.c\<close>, \<open>ch_msg.c\<close>,
  \<open>include/nfc/ndef/ch.h\<close>): Handover Carrier, Alternative Carrier and Collision Resolution payloads,
  handover records that carry a message of local records, and the handover messages.

  A handover record descriptor reaches its payload through a pointer; the functions that add or
  clear local records change the payload. The model keeps the pair \<open>ch_desc\<close> of the record type and
  the payload, and \<open>ch_record_desc\<close> is the record descriptor that stands for it.
\<close>

section \<open>Handover Carrier record\<close>

record nfc_ndef_ch_hc_rec =
  hc_ctf :: u8
  hc_type_len :: u8
  hc_type :: ptr
  hc_data_len :: u8
  hc_data :: ptr

definition nfc_hc_payload_size_get :: "nfc_ndef_ch_hc_rec \<Rightarrow> u32" where
  "nfc_hc_payload_size_get d = 1 + (ucast (hc_type_len d) + 1) + ucast (hc_data_len d)"

definition nfc_ndef_ch_hc_rec_payload_encode :: "nfc_ndef_ch_hc_rec \<Rightarrow> payload_constructor_t" where
  "nfc_ndef_ch_hc_rec_payload_encode d buf =
     (let payload_size = nfc_hc_payload_size_get d in
      case buf of None \<Rightarrow> Inr ([], payload_size)
      | Some (mem, len) \<Rightarrow>
          if payload_size > len then Inl ENOMEM
          else if hc_ctf d < TNF_WELL_KNOWN \<or> hc_ctf d > TNF_EXTERNAL_TYPE then Inl EFAULT
          else bindE (mem_read (hc_type d) (unat (hc_type_len d))) (\<lambda>ty.
               bindE (mem_read (hc_data d) (unat (hc_data_len d))) (\<lambda>dt.
               bindE (mem_write mem 0 ([hc_ctf d, hc_type_len d] @ ty @ dt)) (\<lambda>mem'.
               Inr (mem', payload_size)))))"

definition hc_ok :: "nfc_ndef_ch_hc_rec \<Rightarrow> bool" where
  "hc_ok d \<longleftrightarrow> TNF_WELL_KNOWN \<le> hc_ctf d \<and> hc_ctf d \<le> TNF_EXTERNAL_TYPE \<and>
     readable (hc_type d) (unat (hc_type_len d)) \<and> readable (hc_data d) (unat (hc_data_len d))"

definition hc_body :: "nfc_ndef_ch_hc_rec \<Rightarrow> u8 list" where
  "hc_body d = [hc_ctf d, hc_type_len d] @ block (hc_type d) (unat (hc_type_len d)) @
     block (hc_data d) (unat (hc_data_len d))"

lemma hc_ok_facts:
  assumes "hc_ok d"
  shows "length (hc_body d) = 2 + unat (hc_type_len d) + unat (hc_data_len d)"
    "unat (nfc_hc_payload_size_get d) = length (hc_body d)"
    "nfc_hc_payload_size_get d = of_nat (length (hc_body d))"
proof -
  show l: "length (hc_body d) = 2 + unat (hc_type_len d) + unat (hc_data_len d)"
    using assms by (simp add: hc_ok_def hc_body_def mem_simps)
  then show u: "unat (nfc_hc_payload_size_get d) = length (hc_body d)"
    using unat_u8_lt [of "hc_type_len d"] unat_u8_lt [of "hc_data_len d"]
    by (simp add: nfc_hc_payload_size_get_def unat_word_ariths)
  show "nfc_hc_payload_size_get d = of_nat (length (hc_body d))"
    by (metis u word_of_nat_unat_id)
qed

interpretation hc: payload_constructor nfc_ndef_ch_hc_rec_payload_encode hc_ok hc_body
proof unfold_locales
  fix d
  assume ok: "hc_ok d"
  note f = hc_ok_facts [OF ok]
  have acc: "nfc_ndef_ch_hc_rec_payload_encode d (Some (mem, len)) =
      (if of_nat (length (hc_body d)) > len then Inl ENOMEM
       else bindE (mem_write mem 0 (hc_body d)) (\<lambda>mem'. Inr (mem', of_nat (length (hc_body d)))))" for mem len
  proof -
    have r: "mem_read (hc_type d) (unat (hc_type_len d)) = Inr (block (hc_type d) (unat (hc_type_len d)))"
        "mem_read (hc_data d) (unat (hc_data_len d)) = Inr (block (hc_data d) (unat (hc_data_len d)))"
      using ok by (simp_all add: hc_ok_def mem_simps)
    have "\<not> (hc_ctf d < TNF_WELL_KNOWN \<or> hc_ctf d > TNF_EXTERNAL_TYPE)"
      using ok unfolding hc_ok_def by auto
    then show ?thesis
      unfolding nfc_ndef_ch_hc_rec_payload_encode_def f(3) Let_def option.case prod.case
      by (simp only: if_False r bindE_simps hc_body_def)
  qed
  have u: "unat (of_nat (length (hc_body d)) :: u32) = length (hc_body d)" using f by simp
  show "writes (nfc_ndef_ch_hc_rec_payload_encode d) (hc_body d)"
  proof (rule writesI)
    show "length (hc_body d) < 2 ^ 32" using f(2) unat_u32_lt [of "nfc_hc_payload_size_get d"] by simp
  qed (auto simp: acc word_less_nat_alt mem_simps u)
  show "sizes (nfc_ndef_ch_hc_rec_payload_encode d) (hc_body d)"
    using f(3) by (simp add: sizes_def nfc_ndef_ch_hc_rec_payload_encode_def)
qed

section \<open>Alternative Carrier record\<close>

abbreviation (input) NFC_NDEF_CH_AC_CPS_MASK :: u8 where "NFC_NDEF_CH_AC_CPS_MASK \<equiv> 0x03"

record nfc_ndef_ch_ac_rec_ref =
  ref_length :: u8
  ref_data :: ptr

record nfc_ndef_ch_ac_rec =
  ac_cps :: u8
  ac_carrier_data_ref :: nfc_ndef_ch_ac_rec_ref
  ac_max_aux_data_ref_cnt :: u8
  ac_aux_data_ref_cnt :: u8
  ac_aux_data_ref :: "nfc_ndef_ch_ac_rec_ref list option"

text \<open>The elements of the auxiliary array that the loops of \<open>ch.c\<close> visit.\<close>

definition ac_aux_refs :: "nfc_ndef_ch_ac_rec \<Rightarrow> nfc_ndef_ch_ac_rec_ref list res" where
  "ac_aux_refs d = (let n = unat (ac_aux_data_ref_cnt d) in
     if n = 0 then Inr []
     else case ac_aux_data_ref d of None \<Rightarrow> Inl UB
       | Some xs \<Rightarrow> if n \<le> length xs then Inr (take n xs) else Inl UB)"

definition nfc_ac_rec_payload_size_get :: "nfc_ndef_ch_ac_rec \<Rightarrow> u32 res" where
  "nfc_ac_rec_payload_size_get d =
     bindE (ac_aux_refs d) (\<lambda>refs.
       Inr (foldl (\<lambda>size r. size + (ucast (ref_length r) + 1))
              (1 + (ucast (ref_length (ac_carrier_data_ref d)) + 1) + 1) refs))"

text \<open>The copy of one reference: its length byte and its data.\<close>

definition ac_ref_copy :: "nfc_ndef_ch_ac_rec_ref \<Rightarrow> u8 list res" where
  "ac_ref_copy r = bindE (mem_read (ref_data r) (unat (ref_length r))) (\<lambda>bs. Inr (ref_length r # bs))"

fun ac_refs_copy :: "nfc_ndef_ch_ac_rec_ref list \<Rightarrow> u8 list res" where
  "ac_refs_copy [] = Inr []"
| "ac_refs_copy (r # rs) = bindE (ac_ref_copy r) (\<lambda>bs. bindE (ac_refs_copy rs) (\<lambda>cs. Inr (bs @ cs)))"

definition nfc_ndef_ch_ac_rec_payload_encode :: "nfc_ndef_ch_ac_rec \<Rightarrow> payload_constructor_t" where
  "nfc_ndef_ch_ac_rec_payload_encode d buf =
     bindE (nfc_ac_rec_payload_size_get d) (\<lambda>payload_size.
     case buf of None \<Rightarrow> Inr ([], payload_size)
     | Some (mem, len) \<Rightarrow>
         if payload_size > len then Inl ENOMEM
         else if ac_cps d AND NOT NFC_NDEF_CH_AC_CPS_MASK \<noteq> 0 then Inl EFAULT
         else bindE (ac_ref_copy (ac_carrier_data_ref d)) (\<lambda>carrier.
              bindE (ac_aux_refs d) (\<lambda>refs.
              bindE (ac_refs_copy refs) (\<lambda>aux.
              bindE (mem_write mem 0 (ac_cps d # carrier @ ac_aux_data_ref_cnt d # aux)) (\<lambda>mem'.
              Inr (mem', payload_size))))))"

definition nfc_ndef_ch_ac_rec_auxiliary_data_ref_clear :: "nfc_ndef_ch_ac_rec \<Rightarrow> nfc_ndef_ch_ac_rec" where
  "nfc_ndef_ch_ac_rec_auxiliary_data_ref_clear d = d\<lparr>ac_aux_data_ref_cnt := 0\<rparr>"

definition nfc_ndef_ch_ac_rec_auxiliary_data_ref_add ::
    "nfc_ndef_ch_ac_rec \<Rightarrow> ptr \<Rightarrow> u8 \<Rightarrow> nfc_ndef_ch_ac_rec res" where
  "nfc_ndef_ch_ac_rec_auxiliary_data_ref_add d aux_data aux_length =
     (if ac_aux_data_ref_cnt d \<ge> ac_max_aux_data_ref_cnt d then Inl ENOMEM
      else case ac_aux_data_ref d of None \<Rightarrow> Inl UB
        | Some xs \<Rightarrow>
            if unat (ac_aux_data_ref_cnt d) < length xs
            then Inr (d\<lparr>ac_aux_data_ref := Some (xs[unat (ac_aux_data_ref_cnt d) :=
                          \<lparr>ref_length = aux_length, ref_data = aux_data\<rparr>]),
                        ac_aux_data_ref_cnt := ac_aux_data_ref_cnt d + 1\<rparr>)
            else Inl UB)"

definition ref_ok :: "nfc_ndef_ch_ac_rec_ref \<Rightarrow> bool" where
  "ref_ok r \<longleftrightarrow> readable (ref_data r) (unat (ref_length r))"

definition ref_bytes :: "nfc_ndef_ch_ac_rec_ref \<Rightarrow> u8 list" where
  "ref_bytes r = ref_length r # block (ref_data r) (unat (ref_length r))"

definition ac_refs :: "nfc_ndef_ch_ac_rec \<Rightarrow> nfc_ndef_ch_ac_rec_ref list" where
  "ac_refs d = (case ac_aux_data_ref d of None \<Rightarrow> [] | Some xs \<Rightarrow> take (unat (ac_aux_data_ref_cnt d)) xs)"

definition ac_inv :: "nfc_ndef_ch_ac_rec \<Rightarrow> bool" where
  "ac_inv d \<longleftrightarrow> (\<exists>xs. ac_aux_data_ref d = Some xs \<and> unat (ac_max_aux_data_ref_cnt d) \<le> length xs) \<and>
     ac_aux_data_ref_cnt d \<le> ac_max_aux_data_ref_cnt d"

definition ac_ok :: "nfc_ndef_ch_ac_rec \<Rightarrow> bool" where
  "ac_ok d \<longleftrightarrow> ac_inv d \<and> ac_cps d AND NOT NFC_NDEF_CH_AC_CPS_MASK = 0 \<and>
     ref_ok (ac_carrier_data_ref d) \<and> list_all ref_ok (ac_refs d)"

definition ac_body :: "nfc_ndef_ch_ac_rec \<Rightarrow> u8 list" where
  "ac_body d = ac_cps d # ref_bytes (ac_carrier_data_ref d) @
     ac_aux_data_ref_cnt d # concat (map ref_bytes (ac_refs d))"

lemma ac_inv_refs:
  assumes "ac_inv d"
  shows "ac_aux_refs d = Inr (ac_refs d)" "length (ac_refs d) = unat (ac_aux_data_ref_cnt d)"
  using assms by (auto simp: ac_inv_def ac_aux_refs_def ac_refs_def Let_def word_le_nat_alt)

lemma ac_ref_copy_ok: "ref_ok r \<Longrightarrow> ac_ref_copy r = Inr (ref_bytes r)"
  by (simp add: ac_ref_copy_def ref_ok_def mem_simps ref_bytes_def)

lemma ac_refs_copy_ok: "list_all ref_ok rs \<Longrightarrow> ac_refs_copy rs = Inr (concat (map ref_bytes rs))"
  by (induction rs) (simp_all add: ac_ref_copy_ok)

lemma length_ref_bytes: "ref_ok r \<Longrightarrow> length (ref_bytes r) = unat (ref_length r) + 1"
  by (simp add: ref_bytes_def ref_ok_def mem_simps)

lemma length_refs_bound:
  "list_all ref_ok rs \<Longrightarrow> length (concat (map ref_bytes rs)) \<le> 256 * length rs"
proof (induction rs)
  case (Cons r rs)
  then show ?case using length_ref_bytes [of r] unat_u8_lt [of "ref_length r"] by simp
qed simp

lemma ac_size_foldl:
  "list_all ref_ok rs \<Longrightarrow>
   foldl (\<lambda>size r. size + (ucast (ref_length r) + 1)) s rs = s + of_nat (length (concat (map ref_bytes rs)))"
  by (induction rs arbitrary: s) (simp_all add: length_ref_bytes algebra_simps)

lemma ac_ok_facts:
  assumes "ac_ok d"
  shows "nfc_ac_rec_payload_size_get d = Inr (of_nat (length (ac_body d)))"
    "length (ac_body d) < 2 ^ 32"
proof -
  have ok: "ref_ok (ac_carrier_data_ref d)" "list_all ref_ok (ac_refs d)"
      "ac_aux_refs d = Inr (ac_refs d)" "length (ac_refs d) < 256"
    using assms ac_inv_refs [of d] unat_u8_lt [of "ac_aux_data_ref_cnt d"] by (auto simp: ac_ok_def)
  show "nfc_ac_rec_payload_size_get d = Inr (of_nat (length (ac_body d)))"
    unfolding nfc_ac_rec_payload_size_get_def ok(3) bindE_simps ac_size_foldl [OF ok(2)]
    using ok by (simp add: ac_body_def length_ref_bytes algebra_simps)
  have "length (ref_bytes (ac_carrier_data_ref d)) \<le> 256"
    using length_ref_bytes [OF ok(1)] unat_u8_lt [of "ref_length (ac_carrier_data_ref d)"] by simp
  then show "length (ac_body d) < 2 ^ 32"
    using length_refs_bound [OF ok(2)] ok(4) by (simp add: ac_body_def)
qed

interpretation ac: payload_constructor nfc_ndef_ch_ac_rec_payload_encode ac_ok ac_body
proof unfold_locales
  fix d
  assume ok: "ac_ok d"
  note f = ac_ok_facts [OF ok]
  have acc: "nfc_ndef_ch_ac_rec_payload_encode d (Some (mem, len)) =
      (if of_nat (length (ac_body d)) > len then Inl ENOMEM
       else bindE (mem_write mem 0 (ac_body d)) (\<lambda>mem'. Inr (mem', of_nat (length (ac_body d)))))" for mem len
    using ok ac_inv_refs(1) [of d] unfolding nfc_ndef_ch_ac_rec_payload_encode_def f(1)
    by (simp add: ac_ok_def ac_ref_copy_ok ac_refs_copy_ok ac_body_def)
  have u: "unat (of_nat (length (ac_body d)) :: u32) = length (ac_body d)"
    using f(2) by (simp add: unat_of_nat_u32)
  show "writes (nfc_ndef_ch_ac_rec_payload_encode d) (ac_body d)"
    by (rule writesI [OF f(2)]) (auto simp: acc word_less_nat_alt mem_simps u)
  show "sizes (nfc_ndef_ch_ac_rec_payload_encode d) (ac_body d)"
    using f(1) by (simp add: sizes_def nfc_ndef_ch_ac_rec_payload_encode_def)
qed

lemma ac_inv_clear: "ac_inv d \<Longrightarrow> ac_inv (nfc_ndef_ch_ac_rec_auxiliary_data_ref_clear d)"
  by (simp add: ac_inv_def nfc_ndef_ch_ac_rec_auxiliary_data_ref_clear_def)

lemma ac_inv_add:
  assumes inv: "ac_inv d" and a: "nfc_ndef_ch_ac_rec_auxiliary_data_ref_add d p n = Inr d'"
  shows "ac_inv d' \<and> ac_refs d' = ac_refs d @ [\<lparr>ref_length = n, ref_data = p\<rparr>]"
proof -
  from a obtain xs where x: "ac_aux_data_ref d = Some xs" "unat (ac_aux_data_ref_cnt d) < length xs"
      "ac_aux_data_ref_cnt d < ac_max_aux_data_ref_cnt d"
      "d' = d\<lparr>ac_aux_data_ref := Some (xs[unat (ac_aux_data_ref_cnt d) := \<lparr>ref_length = n, ref_data = p\<rparr>]),
              ac_aux_data_ref_cnt := ac_aux_data_ref_cnt d + 1\<rparr>"
    by (auto simp: nfc_ndef_ch_ac_rec_auxiliary_data_ref_add_def linorder_not_le split: if_splits option.splits)
  have "unat (ac_aux_data_ref_cnt d + 1) = unat (ac_aux_data_ref_cnt d) + 1"
    using x(3) unat_u8_lt [of "ac_max_aux_data_ref_cnt d"] by (simp add: unat_word_ariths word_less_nat_alt)
  then show ?thesis
    using inv x by (simp add: ac_inv_def ac_refs_def word_le_nat_alt word_less_nat_alt take_Suc_conv_app_nth)
qed

section \<open>Collision Resolution record\<close>

text \<open>With a NULL buffer the reported size is 0, not 2.\<close>

definition nfc_ndef_ch_cr_rec_payload_encode :: "u16 \<Rightarrow> payload_constructor_t" where
  "nfc_ndef_ch_cr_rec_payload_encode random buf = (case buf of
     None \<Rightarrow> Inr ([], 0)
   | Some (mem, len) \<Rightarrow> if 2 > len then Inl ENOMEM
       else bindE (mem_write mem 0 (put_be16 random)) (\<lambda>mem'. Inr (mem', 0 + 2)))"

interpretation cr: payload_writer nfc_ndef_ch_cr_rec_payload_encode "\<lambda>_. True" put_be16
proof unfold_locales
  show "writes (nfc_ndef_ch_cr_rec_payload_encode d) (put_be16 d)" for d
    by (rule writesI) (auto simp: nfc_ndef_ch_cr_rec_payload_encode_def word_less_nat_alt mem_simps
        numeral_2_eq_2 [symmetric])
qed

section \<open>Handover records\<close>

record nfc_ndef_ch_rec =
  ch_major_version :: u8
  ch_minor_version :: u8
  ch_local_records :: "nfc_ndef_msg_desc option"

definition nfc_ndef_ch_rec_payload_encode :: "nfc_ndef_ch_rec \<Rightarrow> payload_constructor_t" where
  "nfc_ndef_ch_rec_payload_encode ch buf = (case buf of
     None \<Rightarrow> bindE (nfc_ndef_msg_encode (ch_local_records ch) None) (\<lambda>(m, len). Inr (m, len + 1))
   | Some (mem, len) \<Rightarrow>
       if len < 1 then Inl ENOMEM
       else bindE (mem_write mem 0 [(push_bit 4 (ch_major_version ch) AND 0xF0) OR
                                    (ch_minor_version ch AND 0x0F)]) (\<lambda>mem1.
            bindE (nfc_ndef_msg_encode (ch_local_records ch) (Some (drop 1 mem1, len - 1))) (\<lambda>(m, len).
            Inr (take 1 mem1 @ m, len + 1))))"

record ch_desc =
  chd_type :: "u8 list"
  chd_rec :: nfc_ndef_ch_rec

definition ch_record_desc :: "ch_desc \<Rightarrow> nfc_ndef_record_desc" where
  "ch_record_desc c =
     \<lparr>rec_tnf = TNF_WELL_KNOWN, rec_id_length = 0, rec_id = None, rec_type_length = 2,
      rec_type = Some (chd_type c), rec_payload = Payload_Fun (nfc_ndef_ch_rec_payload_encode (chd_rec c))\<rparr>"

definition nfc_ndef_ch_rec_local_record_clear :: "ch_desc \<Rightarrow> ch_desc res" where
  "nfc_ndef_ch_rec_local_record_clear c = (case ch_local_records (chd_rec c) of None \<Rightarrow> Inl UB
     | Some m \<Rightarrow> Inr (c\<lparr>chd_rec := (chd_rec c)\<lparr>ch_local_records := Some (nfc_ndef_msg_clear m)\<rparr>\<rparr>))"

definition nfc_ndef_ch_rec_local_record_add ::
    "ch_desc \<Rightarrow> nfc_ndef_record_desc option \<Rightarrow> ch_desc res" where
  "nfc_ndef_ch_rec_local_record_add c local_rec = (case ch_local_records (chd_rec c) of None \<Rightarrow> Inl UB
     | Some m \<Rightarrow> bindE (nfc_ndef_msg_record_add m local_rec) (\<lambda>m'.
         Inr (c\<lparr>chd_rec := (chd_rec c)\<lparr>ch_local_records := Some m'\<rparr>\<rparr>)))"

definition ch_version_byte :: "nfc_ndef_ch_rec \<Rightarrow> u8" where
  "ch_version_byte ch = (push_bit 4 (ch_major_version ch) AND 0xF0) OR (ch_minor_version ch AND 0x0F)"

lemma ch_encode_writes:
  assumes m: "ch_local_records ch = Some m" "writes (nfc_ndef_msg_encode (Some m)) bs"
    and len: "length bs + 1 < 2 ^ 32"
  shows "writes (nfc_ndef_ch_rec_payload_encode ch) (ch_version_byte ch # bs)"
proof (rule writesI)
  show "length (ch_version_byte ch # bs) < 2 ^ 32" using len by simp
  fix mem :: "u8 list" and cap :: u32
  assume cap: "unat cap \<le> length mem"
  have s: "unat (cap - 1) = unat cap - 1" if "1 \<le> cap" using unat_sub_le [OF that] by simp
  have enc: "nfc_ndef_ch_rec_payload_encode ch (Some (mem, cap)) =
      bindE (nfc_ndef_msg_encode (Some m) (Some (drop 1 mem, cap - 1))) (\<lambda>(m, len).
        Inr (ch_version_byte ch # m, len + 1))" if "1 \<le> cap"
    using that cap m(1) by (cases mem) (auto simp: nfc_ndef_ch_rec_payload_encode_def ch_version_byte_def
        mem_simps word_le_nat_alt word_less_nat_alt)
  show "nfc_ndef_ch_rec_payload_encode ch (Some (mem, cap)) =
      Inr ((ch_version_byte ch # bs) @ drop (length (ch_version_byte ch # bs)) mem,
           of_nat (length (ch_version_byte ch # bs)))"
    if fit: "length (ch_version_byte ch # bs) \<le> unat cap"
  proof -
    have c1: "1 \<le> cap" using fit by (simp add: word_le_nat_alt)
    have "nfc_ndef_msg_encode (Some m) (Some (drop 1 mem, cap - 1)) =
        Inr (bs @ drop (length bs) (drop 1 mem), of_nat (length bs))"
      using fit cap by (intro writes_fits [OF m(2)]) (simp_all add: s [OF c1])
    then show ?thesis by (simp add: enc [OF c1])
  qed
  show "nfc_ndef_ch_rec_payload_encode ch (Some (mem, cap)) = Inl ENOMEM \<or>
      nfc_ndef_ch_rec_payload_encode ch (Some (mem, cap)) = Inl ENOSR"
    if "unat cap < length (ch_version_byte ch # bs)"
  proof (cases "1 \<le> cap")
    case True
    have "0 < unat cap" using True by (simp add: word_le_nat_alt)
    then have "unat (cap - 1) \<le> length (drop 1 mem)" "unat (cap - 1) < length bs"
      using that cap by (simp_all add: s [OF True])
    from writes_nospace [OF m(2) this] show ?thesis by (auto simp: enc [OF True])
  next
    case False
    then show ?thesis by (simp add: nfc_ndef_ch_rec_payload_encode_def linorder_not_le)
  qed
qed

lemma ch_encode_sizes:
  "ch_local_records ch = Some m \<Longrightarrow> sizes (nfc_ndef_msg_encode (Some m)) bs \<Longrightarrow>
   sizes (nfc_ndef_ch_rec_payload_encode ch) (ch_version_byte ch # bs)"
  by (simp add: sizes_def nfc_ndef_ch_rec_payload_encode_def)

interpretation ch: payload_constructor "\<lambda>(ch, rs). nfc_ndef_ch_rec_payload_encode ch"
    "\<lambda>(ch, rs). \<exists>m. ch_local_records ch = Some m \<and> msg_emits m rs \<and> list_all emits rs \<and>
       list_all emits_size rs \<and> length (msg_bytes rs) + 1 < 2 ^ 32"
    "\<lambda>(ch, rs). ch_version_byte ch # msg_bytes rs"
  by unfold_locales (auto intro: ch_encode_writes ch_encode_sizes msg_encode_writes msg_encode_sizes)

section \<open>Handover messages\<close>

record nfc_ndef_ch_msg_records =
  chm_ac :: "nfc_ndef_record_desc list option"
  chm_carrier :: "nfc_ndef_record_desc list option"
  chm_cnt :: u32

text \<open>The loops over the first \<open>cnt\<close> elements of the record arrays; \<open>n\<close> counts what is left.\<close>

fun alternate_rec_encode :: "ch_desc \<Rightarrow> nfc_ndef_record_desc list \<Rightarrow> nat \<Rightarrow> ch_desc res" where
  "alternate_rec_encode hc ac 0 = Inr hc"
| "alternate_rec_encode hc [] (Suc n) = Inl UB"
| "alternate_rec_encode hc (a # ac) (Suc n) =
     bindE (nfc_ndef_ch_rec_local_record_add hc (Some a)) (\<lambda>hc'. alternate_rec_encode hc' ac n)"

fun msg_add_all :: "nfc_ndef_msg_desc \<Rightarrow> nfc_ndef_record_desc list \<Rightarrow> nat \<Rightarrow> nfc_ndef_msg_desc res" where
  "msg_add_all msg carrier 0 = Inr msg"
| "msg_add_all msg [] (Suc n) = Inl UB"
| "msg_add_all msg (c # carrier) (Suc n) =
     bindE (nfc_ndef_msg_record_add msg (Some c)) (\<lambda>msg'. msg_add_all msg' carrier n)"

definition ch_rec_create ::
    "nfc_ndef_msg_desc \<Rightarrow> nfc_ndef_record_desc \<Rightarrow> nfc_ndef_record_desc list \<Rightarrow> nat \<Rightarrow> nfc_ndef_msg_desc res" where
  "ch_rec_create msg ch carrier cnt =
     bindE (nfc_ndef_msg_record_add msg (Some ch)) (\<lambda>msg'. msg_add_all msg' carrier cnt)"

definition ch_msg_create ::
    "nfc_ndef_msg_desc \<Rightarrow> ch_desc \<Rightarrow> nfc_ndef_record_desc list \<Rightarrow> nfc_ndef_record_desc list \<Rightarrow> nat \<Rightarrow>
     (nfc_ndef_msg_desc \<times> ch_desc) res" where
  "ch_msg_create msg ch_rec ac carrier cnt =
     bindE (alternate_rec_encode ch_rec ac cnt) (\<lambda>ch'.
     bindE (ch_rec_create msg (ch_record_desc ch') carrier cnt) (\<lambda>msg'. Inr (msg', ch')))"

definition nfc_ndef_ch_msg_hs_create ::
    "nfc_ndef_msg_desc option \<Rightarrow> ch_desc option \<Rightarrow> nfc_ndef_ch_msg_records option \<Rightarrow>
     (nfc_ndef_msg_desc \<times> ch_desc) res" where
  "nfc_ndef_ch_msg_hs_create msg hs_rec records = (case (msg, hs_rec, records) of
     (Some m, Some h, Some r) \<Rightarrow>
       (case (chm_ac r, chm_carrier r) of
          (Some ac, Some carrier) \<Rightarrow>
            if chm_cnt r < 1 then Inl EINVAL else ch_msg_create m h ac carrier (unat (chm_cnt r))
        | _ \<Rightarrow> Inl EINVAL)
   | _ \<Rightarrow> Inl EINVAL)"

definition nfc_ndef_ch_msg_hr_create ::
    "nfc_ndef_msg_desc option \<Rightarrow> ch_desc option \<Rightarrow> nfc_ndef_record_desc option \<Rightarrow>
     nfc_ndef_ch_msg_records option \<Rightarrow> (nfc_ndef_msg_desc \<times> ch_desc) res" where
  "nfc_ndef_ch_msg_hr_create msg hr_rec cr_rec records = (case (msg, hr_rec, records, cr_rec) of
     (Some m, Some h, Some r, Some c) \<Rightarrow>
       (case (chm_ac r, chm_carrier r) of
          (Some ac, Some carrier) \<Rightarrow>
            if chm_cnt r < 1 then Inl EINVAL
            else bindE (nfc_ndef_ch_rec_local_record_add h (Some c)) (\<lambda>h'.
                 ch_msg_create m h' ac carrier (unat (chm_cnt r)))
        | _ \<Rightarrow> Inl EINVAL)
   | _ \<Rightarrow> Inl EINVAL)"

definition nfc_ndef_ch_msg_hm_create ::
    "nfc_ndef_msg_desc option \<Rightarrow> ch_desc option \<Rightarrow> nfc_ndef_ch_msg_records option \<Rightarrow>
     (nfc_ndef_msg_desc \<times> ch_desc) res" where
  "nfc_ndef_ch_msg_hm_create msg hm_rec records = (case (msg, hm_rec, records) of
     (Some m, Some h, Some r) \<Rightarrow>
       (case (chm_ac r, chm_carrier r) of
          (Some ac, Some carrier) \<Rightarrow>
            if chm_cnt r < 1 then Inl EINVAL else ch_msg_create m h ac carrier (unat (chm_cnt r))
        | _ \<Rightarrow> Inl EINVAL)
   | _ \<Rightarrow> Inl EINVAL)"

definition nfc_ndef_ch_msg_hi_create ::
    "nfc_ndef_msg_desc option \<Rightarrow> ch_desc option \<Rightarrow> nfc_ndef_ch_msg_records option \<Rightarrow>
     (nfc_ndef_msg_desc \<times> ch_desc) res" where
  "nfc_ndef_ch_msg_hi_create msg hi_rec records = (case (msg, hi_rec, records) of
     (Some m, Some h, Some r) \<Rightarrow>
       (case (chm_ac r, chm_carrier r) of
          (Some ac, Some carrier) \<Rightarrow>
            if chm_cnt r < 1 then Inl EINVAL else ch_msg_create m h ac carrier (unat (chm_cnt r))
        | _ \<Rightarrow> Inl EINVAL)
   | _ \<Rightarrow> Inl EINVAL)"

section \<open>Collecting references and local records\<close>

interpretation acs: bounded_list "\<lambda>d r. nfc_ndef_ch_ac_rec_auxiliary_data_ref_add d (ref_data r) (ref_length r)"
    nfc_ndef_ch_ac_rec_auxiliary_data_ref_clear ac_refs "\<lambda>d. unat (ac_max_aux_data_ref_cnt d)" ac_inv ENOMEM
proof unfold_locales
  fix d :: nfc_ndef_ch_ac_rec and r :: nfc_ndef_ch_ac_rec_ref
  assume inv: "ac_inv d"
  have l: "length (ac_refs d) = unat (ac_aux_data_ref_cnt d)" by (rule ac_inv_refs(2) [OF inv])
  show "\<exists>d'. nfc_ndef_ch_ac_rec_auxiliary_data_ref_add d (ref_data r) (ref_length r) = Inr d' \<and> ac_inv d' \<and>
      ac_refs d' = ac_refs d @ [r] \<and> unat (ac_max_aux_data_ref_cnt d') = unat (ac_max_aux_data_ref_cnt d)"
    if lt: "length (ac_refs d) < unat (ac_max_aux_data_ref_cnt d)"
  proof -
    obtain d' where a: "nfc_ndef_ch_ac_rec_auxiliary_data_ref_add d (ref_data r) (ref_length r) = Inr d'"
        "ac_max_aux_data_ref_cnt d' = ac_max_aux_data_ref_cnt d"
      using inv lt l by (auto simp: nfc_ndef_ch_ac_rec_auxiliary_data_ref_add_def ac_inv_def word_le_nat_alt)
    then show ?thesis using ac_inv_add [OF inv a(1)] by simp
  qed
  show "nfc_ndef_ch_ac_rec_auxiliary_data_ref_add d (ref_data r) (ref_length r) = Inl ENOMEM"
    if "unat (ac_max_aux_data_ref_cnt d) \<le> length (ac_refs d)"
    using that l by (simp add: nfc_ndef_ch_ac_rec_auxiliary_data_ref_add_def word_le_nat_alt)
  show "ac_inv (nfc_ndef_ch_ac_rec_auxiliary_data_ref_clear d) \<and>
      ac_refs (nfc_ndef_ch_ac_rec_auxiliary_data_ref_clear d) = [] \<and>
      unat (ac_max_aux_data_ref_cnt (nfc_ndef_ch_ac_rec_auxiliary_data_ref_clear d)) =
        unat (ac_max_aux_data_ref_cnt d)"
    using ac_inv_clear [OF inv]
    by (auto simp: nfc_ndef_ch_ac_rec_auxiliary_data_ref_clear_def ac_refs_def split: option.split)
qed

definition ch_inv :: "ch_desc \<Rightarrow> bool" where
  "ch_inv c \<longleftrightarrow> (case ch_local_records (chd_rec c) of None \<Rightarrow> False | Some m \<Rightarrow> msg_inv m)"

definition ch_local :: "ch_desc \<Rightarrow> nfc_ndef_record_desc option list" where
  "ch_local c = (case ch_local_records (chd_rec c) of None \<Rightarrow> [] | Some m \<Rightarrow> msg_records m)"

definition ch_capacity :: "ch_desc \<Rightarrow> nat" where
  "ch_capacity c = (case ch_local_records (chd_rec c) of None \<Rightarrow> 0 | Some m \<Rightarrow> unat (msg_max_record_count m))"

interpretation chs: bounded_list nfc_ndef_ch_rec_local_record_add
    "\<lambda>c. case nfc_ndef_ch_rec_local_record_clear c of Inl e \<Rightarrow> c | Inr c' \<Rightarrow> c'"
    ch_local ch_capacity ch_inv ENOSR
proof unfold_locales
  fix c :: ch_desc and r :: "nfc_ndef_record_desc option"
  assume "ch_inv c"
  then obtain m where m: "ch_local_records (chd_rec c) = Some m" "msg_inv m"
    by (auto simp: ch_inv_def split: option.splits)
  show "\<exists>c'. nfc_ndef_ch_rec_local_record_add c r = Inr c' \<and> ch_inv c' \<and> ch_local c' = ch_local c @ [r] \<and>
      ch_capacity c' = ch_capacity c"
    if "length (ch_local c) < ch_capacity c"
    using msgs.add_fits [OF m(2), of r] m that
    by (auto simp: nfc_ndef_ch_rec_local_record_add_def ch_inv_def ch_local_def ch_capacity_def)
  show "nfc_ndef_ch_rec_local_record_add c r = Inl ENOSR" if "ch_capacity c \<le> length (ch_local c)"
    using msgs.add_full [OF m(2), of r] m that
    by (simp add: nfc_ndef_ch_rec_local_record_add_def ch_local_def ch_capacity_def)
  let ?c = "case nfc_ndef_ch_rec_local_record_clear c of Inl e \<Rightarrow> c | Inr c' \<Rightarrow> c'"
  show "ch_inv ?c \<and> ch_local ?c = [] \<and> ch_capacity ?c = ch_capacity c"
    using msgs.clear_ok [OF m(2)] m(1)
    by (simp add: nfc_ndef_ch_rec_local_record_clear_def ch_inv_def ch_local_def ch_capacity_def)
qed

section \<open>What the message constructors build\<close>

lemma alternate_rec_encode_fold:
  "n \<le> length ac \<Longrightarrow>
   alternate_rec_encode c ac n = foldE nfc_ndef_ch_rec_local_record_add c (map Some (take n ac))"
  by (induction c ac n rule: alternate_rec_encode.induct) (auto intro: bindE_cong)

lemma msg_add_all_fold:
  "n \<le> length cs \<Longrightarrow> msg_add_all m cs n = foldE nfc_ndef_msg_record_add m (map Some (take n cs))"
  by (induction m cs n rule: msg_add_all.induct) (auto intro: bindE_cong)

lemma ch_msg_create_ok:
  assumes inv: "ch_inv c" "msg_inv m"
    and n: "n \<le> length ac" "n \<le> length cs"
    and room: "length (ch_local c) + n \<le> ch_capacity c"
      "length (msg_records m) + n + 1 \<le> unat (msg_max_record_count m)"
  shows "\<exists>m' c'. ch_msg_create m c ac cs n = Inr (m', c') \<and> ch_inv c' \<and> msg_inv m' \<and>
     ch_local c' = ch_local c @ map Some (take n ac) \<and>
     msg_records m' = msg_records m @ Some (ch_record_desc c') # map Some (take n cs)"
proof -
  obtain c' where c: "foldE nfc_ndef_ch_rec_local_record_add c (map Some (take n ac)) = Inr c'" "ch_inv c'"
      "ch_local c' = ch_local c @ map Some (take n ac)"
    using chs.add_all_fits [OF inv(1), of "map Some (take n ac)"] n room by auto
  obtain m' where m: "foldE nfc_ndef_msg_record_add m (Some (ch_record_desc c') # map Some (take n cs)) = Inr m'"
      "msg_inv m'" "msg_records m' = msg_records m @ Some (ch_record_desc c') # map Some (take n cs)"
    using msgs.add_all_fits [OF inv(2), of "Some (ch_record_desc c') # map Some (take n cs)"] n room by auto
  show ?thesis
    using c m n by (simp add: ch_msg_create_def ch_rec_create_def alternate_rec_encode_fold msg_add_all_fold)
qed

section \<open>Properties\<close>

text \<open>C11: Creating a Handover Select message (and so a Handover Mediation or Initiate message) appends
  the handover record and then the carrier records to the message; the handover record carries the
  alternative carrier records after its previous local records.\<close>

theorem ch_msg_hs_create_ok:
  assumes "ch_inv c" "msg_inv m" "chm_ac r = Some ac" "chm_carrier r = Some cs"
    and "0 < chm_cnt r" "unat (chm_cnt r) \<le> length ac" "unat (chm_cnt r) \<le> length cs"
    and "length (ch_local c) + unat (chm_cnt r) \<le> ch_capacity c"
    and "length (msg_records m) + unat (chm_cnt r) + 1 \<le> unat (msg_max_record_count m)"
  shows "\<exists>m' c'. nfc_ndef_ch_msg_hs_create (Some m) (Some c) (Some r) = Inr (m', c') \<and>
     nfc_ndef_ch_msg_hm_create (Some m) (Some c) (Some r) = Inr (m', c') \<and>
     nfc_ndef_ch_msg_hi_create (Some m) (Some c) (Some r) = Inr (m', c') \<and>
     ch_local c' = ch_local c @ map Some (take (unat (chm_cnt r)) ac) \<and>
     msg_records m' = msg_records m @ Some (ch_record_desc c') # map Some (take (unat (chm_cnt r)) cs)"
proof -
  have "\<not> chm_cnt r < 1" using assms(5) by (simp add: word_less_nat_alt)
  then show ?thesis
    using ch_msg_create_ok [OF assms(1,2,6,7,8,9)] assms(3,4)
    by (simp add: nfc_ndef_ch_msg_hs_create_def nfc_ndef_ch_msg_hm_create_def nfc_ndef_ch_msg_hi_create_def)
      blast
qed

definition sample_ch :: ch_desc where
  "sample_ch = \<lparr>chd_type = [0x48, 0x73],
     chd_rec = \<lparr>ch_major_version = 1, ch_minor_version = 5, ch_local_records = Some (NFC_NDEF_MSG_DEF [None, None])\<rparr>\<rparr>"

definition sample_ch_records :: nfc_ndef_ch_msg_records where
  "sample_ch_records = \<lparr>chm_ac = Some [sample_record], chm_carrier = Some [sample_record], chm_cnt = 1\<rparr>"

lemma sample_ch_ok: "ch_inv sample_ch" "ch_local sample_ch = []" "ch_capacity sample_ch = 2"
  using msg_inv_def_init [of "[None, None]"]
  by (simp_all add: sample_ch_def ch_inv_def ch_local_def ch_capacity_def)
    (simp_all add: NFC_NDEF_MSG_DEF_def msg_records_def)

theorem ch_msg_hs_create_ok_witness:
  "\<exists>m' c'. nfc_ndef_ch_msg_hs_create (Some (NFC_NDEF_MSG_DEF [None, None])) (Some sample_ch)
       (Some sample_ch_records) = Inr (m', c') \<and>
     msg_records m' = [Some (ch_record_desc c'), Some sample_record]"
proof -
  have "msg_inv (NFC_NDEF_MSG_DEF [None, None])" "msg_records (NFC_NDEF_MSG_DEF [None, None]) = []"
      "unat (msg_max_record_count (NFC_NDEF_MSG_DEF [None, None])) = 2"
    using msg_inv_def_init [of "[None, None]"] by (simp_all add: NFC_NDEF_MSG_DEF_def msg_records_def)
  then show ?thesis
    using ch_msg_hs_create_ok [OF sample_ch_ok(1), of "NFC_NDEF_MSG_DEF [None, None]" sample_ch_records
        "[sample_record]" "[sample_record]"] sample_ch_ok(2,3)
    by (simp add: sample_ch_records_def) blast
qed

text \<open>A Handover Request message also carries the collision resolution record, as the first new
  local record of the handover record, before the alternative carrier records.\<close>

lemma ch_msg_hr_create_ok:
  assumes "ch_inv c" "msg_inv m" "chm_ac r = Some ac" "chm_carrier r = Some cs"
    and "0 < chm_cnt r" "unat (chm_cnt r) \<le> length ac" "unat (chm_cnt r) \<le> length cs"
    and "length (ch_local c) + unat (chm_cnt r) + 1 \<le> ch_capacity c"
    and "length (msg_records m) + unat (chm_cnt r) + 1 \<le> unat (msg_max_record_count m)"
  shows "\<exists>m' c'. nfc_ndef_ch_msg_hr_create (Some m) (Some c) (Some cr) (Some r) = Inr (m', c') \<and>
     ch_local c' = ch_local c @ Some cr # map Some (take (unat (chm_cnt r)) ac) \<and>
     msg_records m' = msg_records m @ Some (ch_record_desc c') # map Some (take (unat (chm_cnt r)) cs)"
proof -
  have "\<not> chm_cnt r < 1" using assms(5) by (simp add: word_less_nat_alt)
  moreover obtain c1 where c1: "nfc_ndef_ch_rec_local_record_add c (Some cr) = Inr c1" "ch_inv c1"
      "ch_local c1 = ch_local c @ [Some cr]" "ch_capacity c1 = ch_capacity c"
    using chs.add_fits [OF assms(1), of "Some cr"] assms(8) by auto
  ultimately show ?thesis
    using ch_msg_create_ok [OF c1(2) assms(2,6,7) _ assms(9)] c1 assms(3,4,8)
    by (auto simp: nfc_ndef_ch_msg_hr_create_def)
qed

theorem ch_msg_hr_create_ok_witness:
  "\<exists>m' c'. nfc_ndef_ch_msg_hr_create (Some (NFC_NDEF_MSG_DEF [None, None])) (Some sample_ch)
       (Some sample_record) (Some sample_ch_records) = Inr (m', c') \<and>
     ch_local c' = [Some sample_record, Some sample_record]"
proof -
  have "msg_inv (NFC_NDEF_MSG_DEF [None, None])" "msg_records (NFC_NDEF_MSG_DEF [None, None]) = []"
      "unat (msg_max_record_count (NFC_NDEF_MSG_DEF [None, None])) = 2"
    using msg_inv_def_init [of "[None, None]"] by (simp_all add: NFC_NDEF_MSG_DEF_def msg_records_def)
  then show ?thesis
    using ch_msg_hr_create_ok [OF sample_ch_ok(1), of "NFC_NDEF_MSG_DEF [None, None]" sample_ch_records
        "[sample_record]" "[sample_record]" sample_record] sample_ch_ok(2,3)
    by (simp add: sample_ch_records_def) blast
qed

end
