(* ===== verification/Ndef_Parser.thy ===== *)
theory Ndef_Parser
  imports Ndef_Msg
begin

text \<open>
  The NDEF record and message parsers (\<open>subsys/nfc/ndef/record_parser.c\<close>,
  \<open>subsys/nfc/ndef/msg_parser_local.c\<close>, \<open>subsys/nfc/ndef/msg_parser.c\<close>).

  The parsers do not copy: the pointers of the descriptors they fill point into the input. A
  pointer into the input at offset \<open>k\<close> is \<open>Some (drop k data)\<close>.
\<close>

section \<open>The record parser\<close>

text \<open>\<open>old\<close> is the record descriptor before the call: the ID pointer keeps its old value when the
  ID length is present and zero.\<close>

definition nfc_ndef_record_parse ::
    "nfc_ndef_record_desc \<Rightarrow> u8 list \<Rightarrow> u32 \<Rightarrow>
     (nfc_ndef_bin_payload_desc \<times> nfc_ndef_record_desc \<times> u8 \<times> u32) res" where
  "nfc_ndef_record_parse old data len =
     (if 3 > len then Inl EINVAL else
      bindE (mem_byte data 0) (\<lambda>flags.
      let tnf = (if flags AND NDEF_RECORD_TNF_MASK = TNF_RESERVED then TNF_UNKNOWN_TYPE
                 else flags AND NDEF_RECORD_TNF_MASK);
          record_location = flags AND NDEF_RECORD_LOCATION_MASK in
      bindE (mem_byte data 1) (\<lambda>type_length.
      bindE (if flags AND NDEF_RECORD_SR_MASK \<noteq> 0
             then bindE (mem_byte data 2) (\<lambda>b. Inr (ucast b, 3, 3))
             else if 6 > len then Inl EINVAL
             else bindE (get_be32 (drop 2 data)) (\<lambda>w. Inr (w, 6, 6)))
        (\<lambda>(payload_length, off, expected).
      bindE (if flags AND NDEF_RECORD_IL_MASK \<noteq> 0
             then if expected + 1 > len then Inl EINVAL
                  else bindE (mem_byte data off) (\<lambda>b. Inr (b, rec_id old, off + 1, expected + 1))
             else Inr (0, None, off, expected))
        (\<lambda>(id_length, id, off, expected).
      let expected = expected + (ucast type_length + ucast id_length + payload_length) in
      if expected > len then Inl EINVAL else
      let type = (if type_length > 0 then Some (drop off data) else None);
          off = off + unat type_length;
          id = (if id_length > 0 then Some (drop off data) else id);
          off = off + unat id_length;
          bin = \<lparr>bin_payload = (if payload_length = 0 then None else Some (drop off data)),
                 bin_payload_length = payload_length\<rparr>
      in Inr (bin,
              \<lparr>rec_tnf = tnf, rec_id_length = id_length, rec_id = id,
               rec_type_length = type_length, rec_type = type, rec_payload = Payload_Bin bin\<rparr>,
              record_location, expected))))))"

section \<open>The message parser\<close>

text \<open>
  \<open>nfc_ndef_msg_parser_memo_resolve\<close> carves the message descriptor, the array of record pointers,
  the binary payload descriptors and the record descriptors out of one result buffer. Only the
  sizes of the C structures enter, as parameters: \<open>sz_msg\<close>, \<open>sz_ptr\<close>, \<open>sz_bin\<close> and \<open>sz_rec\<close>.
\<close>

record msg_parser_abi =
  sz_msg :: u32
  sz_ptr :: u32
  sz_bin :: u32
  sz_rec :: u32

definition sizeof_parser_msg_1 :: "msg_parser_abi \<Rightarrow> u32" where
  "sizeof_parser_msg_1 abi = sz_msg abi + sz_ptr abi + sz_bin abi + sz_rec abi"

definition NFC_NDEF_MSG_PARSER_DELTA :: "msg_parser_abi \<Rightarrow> u32" where
  "NFC_NDEF_MSG_PARSER_DELTA abi =
     (sz_msg abi + 2 * sz_ptr abi + 2 * sz_bin abi + 2 * sz_rec abi) - sizeof_parser_msg_1 abi"

text \<open>The result is the number of record slots, the initialised descriptor and the size of the used
  part of the buffer. The C array of record pointers is not initialised; the model fills it with
  NULL, and no element is read before it is written.\<close>

definition nfc_ndef_msg_parser_memo_resolve ::
    "msg_parser_abi \<Rightarrow> u32 \<Rightarrow> (u32 \<times> nfc_ndef_msg_desc \<times> u32) res" where
  "nfc_ndef_msg_parser_memo_resolve abi result_buf_len =
     (if result_buf_len < sizeof_parser_msg_1 abi then Inl ENOMEM else
      let memory_last = result_buf_len - sizeof_parser_msg_1 abi;
          max_rec_num = memory_last div NFC_NDEF_MSG_PARSER_DELTA abi + 1
      in Inr (max_rec_num,
              \<lparr>msg_record = Some (replicate (unat max_rec_num) None),
               msg_max_record_count = max_rec_num, msg_record_count = 0\<rparr>,
              sz_msg abi + max_rec_num * sz_ptr abi + max_rec_num * sz_bin abi + max_rec_num * sz_rec abi))"

text \<open>
  The loop of \<open>nfc_ndef_msg_parser_internal\<close>. Each round parses into the next slot of the record
  array; \<open>recs0\<close> is what the slots held before. A slot past the end of the result buffer would be
  an out-of-bounds write. The loop ends because every round that goes on adds one record and a full
  descriptor stops it.
\<close>

function msg_parser_loop ::
    "(nat \<Rightarrow> nfc_ndef_record_desc) \<Rightarrow> nat \<Rightarrow> nfc_ndef_msg_desc \<Rightarrow> nat \<Rightarrow> u8 list \<Rightarrow> u32 \<Rightarrow>
     (nfc_ndef_msg_desc \<times> u32) res" where
  "msg_parser_loop recs0 slots msg slot data left =
     (if left > 0 then
        if slot < slots then
          bindE (nfc_ndef_record_parse (recs0 slot) data left) (\<lambda>(bin, rec_desc, loc, used).
          if (msg_record_count msg = 0 \<and> loc \<noteq> NDEF_FIRST_RECORD \<and> loc \<noteq> NDEF_LONE_RECORD) \<or>
             (msg_record_count msg \<noteq> 0 \<and> loc \<noteq> NDEF_MIDDLE_RECORD \<and> loc \<noteq> NDEF_LAST_RECORD)
          then Inl EFAULT
          else bindE (nfc_ndef_msg_record_add msg (Some rec_desc)) (\<lambda>msg'.
            let left' = left - used in
            if loc = NDEF_LAST_RECORD \<or> loc = NDEF_LONE_RECORD then Inr (msg', left')
            else if msg_record_count msg' = msg_max_record_count msg' then Inl ENOMEM
            else msg_parser_loop recs0 slots msg' (slot + 1) (drop (unat used) data) left'))
        else Inl UB
      else Inl EFAULT)"
  by pat_completeness auto
termination
  by (relation "measure (\<lambda>(_, slots, _, slot, _, _). slots - slot)") auto

declare msg_parser_loop.simps [simp del]

text \<open>The result is the filled descriptor and the number of bytes of the message.\<close>

definition nfc_ndef_msg_parser_internal ::
    "(nat \<Rightarrow> nfc_ndef_record_desc) \<Rightarrow> nat \<Rightarrow> nfc_ndef_msg_desc \<Rightarrow> u8 list \<Rightarrow> u32 \<Rightarrow>
     (nfc_ndef_msg_desc \<times> u32) res" where
  "nfc_ndef_msg_parser_internal recs0 slots msg data len =
     bindE (msg_parser_loop recs0 slots msg 0 data len) (\<lambda>(msg', left). Inr (msg', len - left))"

definition nfc_ndef_msg_parse ::
    "msg_parser_abi \<Rightarrow> (nat \<Rightarrow> nfc_ndef_record_desc) \<Rightarrow> u32 \<Rightarrow> u8 list \<Rightarrow> u32 \<Rightarrow>
     (nfc_ndef_msg_desc \<times> u32 \<times> u32) res" where
  "nfc_ndef_msg_parse abi recs0 result_buf_len raw_data raw_data_len =
     bindE (nfc_ndef_msg_parser_memo_resolve abi result_buf_len) (\<lambda>(n, msg, used).
     bindE (nfc_ndef_msg_parser_internal recs0 (unat n) msg raw_data raw_data_len) (\<lambda>(msg', len).
     Inr (msg', used, len)))"

section \<open>Record round trip\<close>

definition record_tnf_ok :: "nfc_ndef_record_desc \<Rightarrow> bool" where
  "record_tnf_ok r \<longleftrightarrow> rec_tnf r AND NOT NDEF_RECORD_TNF_MASK = 0 \<and> rec_tnf r \<noteq> TNF_RESERVED"

lemma record_flags_fields:
  assumes "location_ok loc" "record_tnf_ok r"
  shows "record_flags r loc AND NDEF_RECORD_TNF_MASK = rec_tnf r"
    "record_flags r loc AND NDEF_RECORD_LOCATION_MASK = loc"
    "record_flags r loc AND NDEF_RECORD_SR_MASK = 0"
    "record_flags r loc AND NDEF_RECORD_IL_MASK \<noteq> 0 \<longleftrightarrow> 0 < rec_id_length r"
proof -
  have l: "loc AND 63 = 0" "loc AND 0xC0 = loc" and t: "rec_tnf r AND 0xF8 = 0" "rec_tnf r AND 7 = rec_tnf r"
    using assms and_keep [of loc "0xC0"] and_keep [of "rec_tnf r" 7]
      and_zero_mono [of loc "NOT 0xC0" 63] and_zero_mono [of "rec_tnf r" "NOT 7" "0xF8"]
    by (simp_all add: location_ok_def record_tnf_ok_def)
  note ls = and_zero_mono [OF l(1)] and ts = and_zero_mono [OF t(1)]
  show "record_flags r loc AND NDEF_RECORD_TNF_MASK = rec_tnf r"
    using ls [of 7] t by (simp add: record_flags_def bit.conj_disj_distrib2)
  show "record_flags r loc AND NDEF_RECORD_LOCATION_MASK = loc"
    using ts [of "0xC0"] l by (simp add: record_flags_def bit.conj_disj_distrib2)
  show "record_flags r loc AND NDEF_RECORD_SR_MASK = 0"
    using ls [of "0x10"] ts [of "0x10"] by (simp add: record_flags_def bit.conj_disj_distrib2)
  show "record_flags r loc AND NDEF_RECORD_IL_MASK \<noteq> 0 \<longleftrightarrow> 0 < rec_id_length r"
    using ls [of 8] ts [of 8] by (simp add: record_flags_def bit.conj_disj_distrib2)
qed

text \<open>A parsed descriptor describes a record and its payload bytes. Its type points into the message, where the ID and
  the payload follow.\<close>

definition describes :: "nfc_ndef_record_desc \<Rightarrow> emitted \<Rightarrow> bool" where
  "describes r' = (\<lambda>(r, body).
     rec_tnf r' = rec_tnf r \<and> rec_type_length r' = rec_type_length r \<and> rec_id_length r' = rec_id_length r \<and>
     record_desc_ok r' \<and>
     block (rec_type r') (unat (rec_type_length r)) = block (rec_type r) (unat (rec_type_length r)) \<and>
     block (rec_id r') (unat (rec_id_length r)) = block (rec_id r) (unat (rec_id_length r)) \<and>
     (0 < rec_type_length r \<longrightarrow> (\<exists>xs. rec_type r' = Some (block (rec_type r) (unat (rec_type_length r)) @
        block (rec_id r) (unat (rec_id_length r)) @ body @ xs))) \<and>
     (\<exists>bin. rec_payload r' = Payload_Bin bin \<and> bin_ok bin \<and> bin_body bin = body))"

lemma record_bytes_nth:
  assumes "record_desc_ok r"
  shows "(record_bytes r loc body @ rest) ! 0 = record_flags r loc"
    "(record_bytes r loc body @ rest) ! 1 = rec_type_length r"
    "drop 2 (record_bytes r loc body @ rest) = put_be32 (of_nat (length body)) @ record_id_type r @ body @ rest"
    "drop 6 (record_bytes r loc body @ rest) = record_id_type r @ body @ rest"
  by (simp_all add: record_bytes_def)

lemma record_bytes_drops:
  fixes loc :: u8 and body rest :: "u8 list" and r :: nfc_ndef_record_desc
  assumes ok: "record_desc_ok r"
  defines "data \<equiv> record_bytes r loc body @ rest"
    and "o1 \<equiv> (if 0 < rec_id_length r then 7 else 6 :: nat)"
  defines "o2 \<equiv> o1 + unat (rec_type_length r)"
  defines "o3 \<equiv> o2 + unat (rec_id_length r)"
  shows "0 < rec_id_length r \<Longrightarrow> data ! 6 = rec_id_length r"
    "drop o1 data = block (rec_type r) (unat (rec_type_length r)) @
       block (rec_id r) (unat (rec_id_length r)) @ body @ rest"
    "drop o2 data = block (rec_id r) (unat (rec_id_length r)) @ body @ rest"
    "drop o3 data = body @ rest"
proof -
  have d6: "drop 6 data = record_id_type r @ body @ rest"
    unfolding data_def by (rule record_bytes_nth(4) [OF ok])
  have l6: "6 \<le> length data" by (simp add: data_def length_record_bytes)
  show n6: "data ! 6 = rec_id_length r" if "0 < rec_id_length r"
    using nth_drop [OF l6, of 0] d6 that by (simp add: record_id_type_def)
  have d7: "drop 7 data = drop 1 (drop 6 data)" by simp
  show 1: "drop o1 data = block (rec_type r) (unat (rec_type_length r)) @
       block (rec_id r) (unat (rec_id_length r)) @ body @ rest"
    unfolding o1_def using d7 by (auto simp: d6 record_id_type_def u8_pos_unat)
  have lt: "length (block (rec_type r) (unat (rec_type_length r))) = unat (rec_type_length r)"
    and li: "length (block (rec_id r) (unat (rec_id_length r))) = unat (rec_id_length r)"
    using ok by (simp_all add: record_desc_ok_def mem_simps)
  show 2: "drop o2 data = block (rec_id r) (unat (rec_id_length r)) @ body @ rest"
    using arg_cong [OF 1, of "drop (unat (rec_type_length r))"] lt by (simp add: o2_def add.commute)
  show "drop o3 data = body @ rest"
    using arg_cong [OF 2, of "drop (unat (rec_id_length r))"] li by (simp add: o3_def add.commute)
qed

lemma record_parse_roundtrip:
  assumes ok: "record_desc_ok r" "location_ok loc" "record_tnf_ok r"
    and len: "length (record_bytes r loc body) \<le> unat len"
  shows "\<exists>bin r'. nfc_ndef_record_parse old (record_bytes r loc body @ rest) len =
     Inr (bin, r', loc, of_nat (length (record_bytes r loc body))) \<and> describes r' (r, body)"
proof -
  let ?rb = "record_bytes r loc body" and ?tl = "unat (rec_type_length r)" and ?il = "unat (rec_id_length r)"
  let ?o1 = "if 0 < rec_id_length r then 7 else 6 :: nat"
  have it: "length (record_id_type r) = (if 0 < rec_id_length r then 1 else 0) + ?tl + ?il"
    using ok(1) by (simp add: record_id_type_def record_desc_ok_def mem_simps)
  have lb: "length body < 4294967296"
    using len unat_u32_lt [of len] by (simp add: length_record_bytes)
  have nowrap: "unat len < 4294967296" by (rule unat_u32_lt)
  have hb: "\<not> len < 3" "\<not> len < 6"
    using len it by (auto simp: length_record_bytes word_less_nat_alt)
  have hb7: "\<not> len < 6 + 1" if "0 < rec_id_length r"
    using len it that by (auto simp: length_record_bytes word_less_nat_alt)
  have ex: "(if 0 < rec_id_length r then 7 else 6) +
      (ucast (rec_type_length r) + ucast (rec_id_length r) + of_nat (length body)) = (of_nat (length ?rb) :: u32)"
    by (simp add: length_record_bytes it)
  have exle: "\<not> len < of_nat (length ?rb)"
    using len nowrap by (simp add: word_less_nat_alt unat_of_nat_u32)
  have m0: "mem_byte (?rb @ rest) 0 = Inr (record_flags r loc)"
    by (subst mem_byte_in, simp add: length_record_bytes, simp only: record_bytes_nth(1) [OF ok(1)])
  have m1: "mem_byte (?rb @ rest) 1 = Inr (rec_type_length r)"
    by (subst mem_byte_in, simp add: length_record_bytes, simp only: record_bytes_nth(2) [OF ok(1)])
  have m6: "mem_byte (?rb @ rest) 6 = Inr (rec_id_length r)" if "0 < rec_id_length r"
    using that by (subst mem_byte_in, simp add: length_record_bytes it, simp only: record_bytes_drops(1) [OF ok(1)])
  have be: "get_be32 (drop 2 (?rb @ rest)) = Inr (of_nat (length body))"
    by (simp only: record_bytes_nth(3) [OF ok(1)] get_put_be32)
  have dr: "drop ?o1 (?rb @ rest) = block (rec_type r) ?tl @ block (rec_id r) ?il @ body @ rest"
    "drop (?o1 + ?tl) (?rb @ rest) = block (rec_id r) ?il @ body @ rest"
    "drop (?o1 + ?tl + ?il) (?rb @ rest) = body @ rest"
    by (rule record_bytes_drops(2-4) [OF ok(1)])+
  have z: "(of_nat (length body) = (0 :: u32)) \<longleftrightarrow> body = []"
    using lb by (simp add: of_nat_u32_eq_0)
  define bin where "bin = \<lparr>bin_payload = (if body = [] then None else Some (body @ rest)),
      bin_payload_length = of_nat (length body)\<rparr>"
  define r' where "r' = \<lparr>rec_tnf = rec_tnf r, rec_id_length = rec_id_length r,
      rec_id = (if 0 < rec_id_length r then Some (block (rec_id r) ?il @ body @ rest) else None),
      rec_type_length = rec_type_length r,
      rec_type = (if 0 < rec_type_length r then Some (block (rec_type r) ?tl @ block (rec_id r) ?il @ body @ rest)
                  else None),
      rec_payload = Payload_Bin bin\<rparr>"
  note fl = record_flags_fields [OF ok(2,3)]
  define data where "data = ?rb @ rest"
  define used where "used = (of_nat (length ?rb) :: u32)"
  note facts = m0 m1 be dr ex exle
  note facts' = facts [folded data_def used_def]
  have "nfc_ndef_record_parse old data len = Inr (bin, r', loc, used)"
  proof (cases "0 < rec_id_length r")
    case True
    note T = facts' [unfolded if_P [OF True]]
    show ?thesis
      using ok(3) T hb hb7 [OF True] m6 [OF True, folded data_def]
      by (simp add: nfc_ndef_record_parse_def Let_def fl True z bin_def r'_def record_tnf_ok_def del: One_nat_def)
  next
    case False
    then have 0: "rec_id_length r = 0" using word_neq_0_conv by blast
    note T = facts' [unfolded if_not_P [OF False]]
    show ?thesis
      using ok(3) T hb
      by (simp add: nfc_ndef_record_parse_def Let_def fl 0 z bin_def r'_def record_tnf_ok_def del: One_nat_def)
  qed
  then have "nfc_ndef_record_parse old (?rb @ rest) len = Inr (bin, r', loc, of_nat (length ?rb))"
    by (simp only: data_def used_def)
  moreover have "describes r' (r, body)"
    using ok(1) lb by (auto simp: describes_def r'_def bin_def record_desc_ok_def bin_ok_def bin_body_def
        mem_simps unat_of_nat_u32 u8_pos_unat)
  ultimately show ?thesis by blast
qed

section \<open>Record parser safety\<close>

lemma record_parse_used:
  "nfc_ndef_record_parse old data len = Inr (bin, r, loc, used) \<Longrightarrow>
   used \<le> len \<and> rec_payload r = Payload_Bin bin \<and> rec_tnf r \<noteq> TNF_RESERVED"
  by (auto simp: nfc_ndef_record_parse_def Let_def resE linorder_not_less split: if_splits prod.splits)

text \<open>The parser never reads outside the first \<open>len\<close> bytes.\<close>

lemma record_parse_no_ub:
  assumes "unat len \<le> length data"
  shows "nfc_ndef_record_parse old data len \<noteq> Inl UB"
proof (cases "len < 3")
  case True
  then show ?thesis by (simp add: nfc_ndef_record_parse_def)
next
  case False
  then have l: "3 \<le> length data" using assms by (simp add: word_less_nat_alt)
  show ?thesis
  proof (cases "len < 6")
    case True
    have "Suc 0 < length data" "data \<noteq> []" "2 < length data" using l by auto
    moreover have "3 < length data" if "\<not> len < 4"
      using that assms by (simp add: word_less_nat_alt)
    ultimately show ?thesis using False True
      by (auto simp: nfc_ndef_record_parse_def Let_def mem_byte_def bindE_eq_Inl split: if_splits)
  next
    case F6: False
    then have l6: "6 \<le> length data" using assms by (simp add: word_less_nat_alt)
    then have "Suc 0 < length data" "data \<noteq> []" "2 < length data" "3 < length data"
      by auto
    moreover have "6 < length data" if "\<not> len < 7"
      using that assms by (simp add: word_less_nat_alt)
    moreover have "get_be32 (drop 2 data) \<noteq> Inl UB"
      using l6 by (simp add: get_be32_enough)
    ultimately show ?thesis using False F6
      by (auto simp: nfc_ndef_record_parse_def Let_def mem_byte_def bindE_eq_Inl bindE_eq_Inr split: if_splits)
  qed
qed

text \<open>When the sum of the lengths does not wrap, every pointer of the result is inside the input.\<close>

lemma record_parse_in_bounds:
  assumes p: "nfc_ndef_record_parse old data len = Inr (bin, r, loc, used)"
    and len: "unat len \<le> length data"
    and nowrap: "unat (bin_payload_length bin) + 517 < 2 ^ 32"
  shows "bin_ok bin \<and> record_desc_ok r \<and>
    3 + unat (rec_type_length r) + unat (rec_id_length r) + unat (bin_payload_length bin) \<le> unat used"
proof -
  obtain flags ty pl off ex il ip off' ex' where
    st: "(if flags AND NDEF_RECORD_SR_MASK \<noteq> 0
             then bindE (mem_byte data 2) (\<lambda>b. Inr (ucast b, 3, 3))
             else if 6 > len then Inl EINVAL
             else bindE (get_be32 (drop 2 data)) (\<lambda>w. Inr (w, 6, 6))) = Inr (pl, off, ex)"
       "(if flags AND NDEF_RECORD_IL_MASK \<noteq> 0
             then if ex + 1 > len then Inl EINVAL
                  else bindE (mem_byte data off) (\<lambda>b. Inr (b, rec_id old, off + 1, ex + 1))
             else Inr (0, None, off, ex)) = Inr (il, ip, off', ex')"
    and u: "used = ex' + (ucast ty + ucast il + pl)" "used \<le> len"
    and b: "bin = \<lparr>bin_payload = (if pl = 0 then None else Some (drop (off' + unat ty + unat il) data)),
                 bin_payload_length = pl\<rparr>"
    and r: "rec_id_length r = il" "rec_type_length r = ty"
        "rec_id r = (if il > 0 then Some (drop (off' + unat ty) data) else ip)"
        "rec_type r = (if ty > 0 then Some (drop off' data) else None)"
    using p unfolding nfc_ndef_record_parse_def Let_def
    by (simp only: if_Inl_eq_Inr bindE_eq_Inr split_paired_Ex prod.case Inr_inject prod.inject linorder_not_less)
      fastforce
  have h: "off = unat ex" "ex = 3 \<or> ex = 6"
    using st(1) by (auto simp: resE split: if_splits)
  have h': "ex' = ex \<and> off' = off \<or> ex' = ex + 1 \<and> off' = off + 1"
    using st(2) by (auto simp: resE split: if_splits)
  have e: "unat ex' = off'" "off' \<le> 7" "3 \<le> off'" using h h' by auto
  have "unat used = off' + unat ty + unat il + unat pl"
    using u(1) e nowrap b unat_u8_lt [of ty] unat_u8_lt [of il]
    by (simp add: unat_word_ariths)
  moreover have "unat used \<le> length data"
    using u(2) len by (simp add: word_le_nat_alt)
  ultimately show ?thesis
    using e r by (auto simp: b bin_ok_def record_desc_ok_def u8_pos_unat)
qed

section \<open>Message parser\<close>

text \<open>The slots of the result buffer and the descriptor stay in step, so the parser stays inside the
  result buffer and inside the input.\<close>

definition parser_inv :: "nat \<Rightarrow> nfc_ndef_msg_desc \<Rightarrow> nat \<Rightarrow> u8 list \<Rightarrow> u32 \<Rightarrow> bool" where
  "parser_inv slots msg slot data left \<longleftrightarrow> msg_inv msg \<and> slots = unat (msg_max_record_count msg) \<and>
     slot = unat (msg_record_count msg) \<and> msg_record_count msg < msg_max_record_count msg \<and>
     unat left \<le> length data"

lemma msg_record_add_cases:
  assumes "msg_inv m" "nfc_ndef_msg_record_add m rd' = Inr m'"
  shows "msg_inv m' \<and> msg_records m' = msg_records m @ [rd'] \<and>
    msg_max_record_count m' = msg_max_record_count m \<and>
    unat (msg_record_count m') = unat (msg_record_count m) + 1"
proof -
  have "msg_record_count m < msg_max_record_count m"
    using assms(2) by (auto simp: nfc_ndef_msg_record_add_def not_le split: if_splits)
  from msg_records_add [OF assms(1) this, of rd'] assms(2) show ?thesis by auto
qed

lemma parser_inv_step:
  assumes inv: "parser_inv slots msg slot data left"
    and p: "nfc_ndef_record_parse old data left = Inr (bin, r, loc, used)"
    and a: "nfc_ndef_msg_record_add msg rd' = Inr msg'"
    and ne: "msg_record_count msg' \<noteq> msg_max_record_count msg'"
  shows "parser_inv slots msg' (slot + 1) (drop (unat used) data) (left - used)"
proof -
  have used: "used \<le> left" using record_parse_used [OF p] by simp
  have m: "msg_inv msg'" "msg_max_record_count msg' = msg_max_record_count msg"
      "unat (msg_record_count msg') = unat (msg_record_count msg) + 1"
    using msg_record_add_cases [OF _ a] inv by (auto simp: parser_inv_def)
  have "msg_record_count msg' < msg_max_record_count msg'"
    using m(1) ne by (auto simp: msg_inv_def order.strict_iff_order)
  with inv m used show ?thesis
    by (auto simp: parser_inv_def unat_sub_le word_le_nat_alt)
qed

lemma msg_parser_loop_safe:
  "parser_inv slots msg slot data left \<Longrightarrow>
   msg_parser_loop recs0 slots msg slot data left \<noteq> Inl UB"
proof (induction recs0 slots msg slot data left rule: msg_parser_loop.induct)
  case (1 recs0 slots msg slot data left)
  note inv = "1.prems"
  have s: "slot < slots" and l: "unat left \<le> length data" and "msg_inv msg"
      and "msg_record_count msg < msg_max_record_count msg"
    using inv by (auto simp: parser_inv_def word_less_nat_alt)
  then have add: "nfc_ndef_msg_record_add msg rd' \<noteq> Inl UB" for rd'
    using msg_records_add [of msg] by (metis Inl_Inr_False)
  show ?case
  proof (cases "nfc_ndef_record_parse (recs0 slot) data left")
    case (Inl e)
    then show ?thesis
      using s record_parse_no_ub [OF l] by (subst msg_parser_loop.simps) auto
  next
    case (Inr x)
    obtain bin r loc used where x: "x = (bin, r, loc, used)" by (cases x)
    note p = Inr [unfolded x]
    show ?thesis
    proof (cases "nfc_ndef_msg_record_add msg (Some r)")
      case a: (Inl e)
      then show ?thesis using s p add by (subst msg_parser_loop.simps) (auto simp: bindE_eq_Inl)
    next
      case a: (Inr msg')
      have "msg_parser_loop recs0 slots msg' (slot + 1) (drop (unat used) data) (left - used) \<noteq> Inl UB"
        if "left > 0" "msg_record_count msg' \<noteq> msg_max_record_count msg'"
          "\<not> (msg_record_count msg = 0 \<and> loc \<noteq> NDEF_FIRST_RECORD \<and> loc \<noteq> NDEF_LONE_RECORD \<or>
             msg_record_count msg \<noteq> 0 \<and> loc \<noteq> NDEF_MIDDLE_RECORD \<and> loc \<noteq> NDEF_LAST_RECORD)"
          "\<not> (loc = NDEF_LAST_RECORD \<or> loc = NDEF_LONE_RECORD)"
        using that s by (intro "1.IH" [OF _ _ p refl refl refl _ a refl] parser_inv_step [OF inv p a]) auto
      then show ?thesis using s p a by (subst msg_parser_loop.simps) (auto simp: Let_def)
    qed
  qed
qed

text \<open>What a caller may rely on for the records of a parsed message: unless the payload length is so
  large that the sum of the lengths wraps around, their pointers lie inside the input.\<close>

definition no_wrap :: "nfc_ndef_bin_payload_desc \<Rightarrow> bool" where
  "no_wrap bin \<longleftrightarrow> unat (bin_payload_length bin) + 517 < 2 ^ 32"

definition parsed_ok :: "nfc_ndef_record_desc \<Rightarrow> bool" where
  "parsed_ok r \<longleftrightarrow> (\<exists>bin. rec_payload r = Payload_Bin bin \<and> (no_wrap bin \<longrightarrow> bin_ok bin \<and> record_desc_ok r))"

definition payload_of :: "nfc_ndef_record_desc \<Rightarrow> u8 list" where
  "payload_of r = (case rec_payload r of Payload_Bin bin \<Rightarrow> bin_body bin | _ \<Rightarrow> [])"

text \<open>A record whose pointers are all valid.\<close>

definition rec_ok :: "nfc_ndef_record_desc \<Rightarrow> bool" where
  "rec_ok r \<longleftrightarrow> record_desc_ok r \<and> (\<exists>bin. rec_payload r = Payload_Bin bin \<and> bin_ok bin)"

lemma describes_ok: "describes r' (r, body) \<Longrightarrow> rec_ok r' \<and> payload_of r' = body"
  by (auto simp: describes_def rec_ok_def payload_of_def)

lemma record_parse_parsed_ok:
  assumes "nfc_ndef_record_parse old data len = Inr (bin, r, loc, used)" "unat len \<le> length data"
  shows "parsed_ok r"
  using record_parse_used [OF assms(1)] record_parse_in_bounds [OF assms]
  by (auto simp: parsed_ok_def no_wrap_def)

text \<open>A successful run parses one record and stops there, or goes on behind it.\<close>

lemma msg_parser_loop_rounds:
  assumes inv: "parser_inv slots msg slot data left"
    and run: "msg_parser_loop recs0 slots msg slot data left = Inr (msg', left')"
  obtains bin r loc used msg1 where
    "nfc_ndef_record_parse (recs0 slot) data left = Inr (bin, r, loc, used)" "msg_records msg1 = msg_records msg @ [Some r]"
    "(loc = NDEF_LAST_RECORD \<or> loc = NDEF_LONE_RECORD) \<and> msg' = msg1 \<and> left' = left - used \<or>
     (loc = NDEF_FIRST_RECORD \<or> loc = NDEF_MIDDLE_RECORD) \<and>
       parser_inv slots msg1 (slot + 1) (drop (unat used) data) (left - used) \<and>
       msg_parser_loop recs0 slots msg1 (slot + 1) (drop (unat used) data) (left - used) = Inr (msg', left')"
proof -
  have s: "slot < slots" and m: "msg_inv msg" using inv by (auto simp: parser_inv_def word_less_nat_alt)
  obtain bin r loc used where p: "nfc_ndef_record_parse (recs0 slot) data left = Inr (bin, r, loc, used)"
    using run by (subst (asm) msg_parser_loop.simps) (auto simp: bindE_eq_Inr split: if_splits)
  obtain msg1 where a: "nfc_ndef_msg_record_add msg (Some r) = Inr msg1"
    using run p by (subst (asm) msg_parser_loop.simps) (auto simp: bindE_eq_Inr split: if_splits)
  have g: "left > 0" "\<not> (msg_record_count msg = 0 \<and> loc \<noteq> NDEF_FIRST_RECORD \<and> loc \<noteq> NDEF_LONE_RECORD \<or>
             msg_record_count msg \<noteq> 0 \<and> loc \<noteq> NDEF_MIDDLE_RECORD \<and> loc \<noteq> NDEF_LAST_RECORD)"
    using run p by (subst (asm) msg_parser_loop.simps, simp split: if_splits)+
  have R: "msg_parser_loop recs0 slots msg slot data left =
      (if loc = NDEF_LAST_RECORD \<or> loc = NDEF_LONE_RECORD then Inr (msg1, left - used)
       else if msg_record_count msg1 = msg_max_record_count msg1 then Inl ENOMEM
       else msg_parser_loop recs0 slots msg1 (slot + 1) (drop (unat used) data) (left - used))"
    by (subst msg_parser_loop.simps)
      (simp only: if_P [OF g(1)] if_P [OF s] p a bindE_simps prod.case if_not_P [OF g(2)] Let_def)
  have m1: "msg_records msg1 = msg_records msg @ [Some r]" using msg_record_add_cases [OF m a] by simp
  show ?thesis
  proof (cases "loc = NDEF_LAST_RECORD \<or> loc = NDEF_LONE_RECORD")
    case True
    then have "msg' = msg1 \<and> left' = left - used" using run unfolding R by simp
    then show ?thesis using True by (intro that [OF p m1]) simp
  next
    case False
    then have c: "msg_record_count msg1 \<noteq> msg_max_record_count msg1"
      and L: "msg_parser_loop recs0 slots msg1 (slot + 1) (drop (unat used) data) (left - used) = Inr (msg', left')"
      using run unfolding R by (simp_all split: if_splits)
    have "loc = NDEF_FIRST_RECORD \<or> loc = NDEF_MIDDLE_RECORD" using False g(2) by argo
    with parser_inv_step [OF inv p a c] L show ?thesis by (intro that [OF p m1]) simp
  qed
qed

lemma msg_parser_loop_records:
  assumes "parser_inv slots msg slot data left"
    and "msg_parser_loop recs0 slots msg slot data left = Inr (msg', left')"
  shows "left' \<le> left \<and> (\<exists>rs. msg_records msg' = msg_records msg @ map Some rs \<and> list_all parsed_ok rs)"
  using assms
proof (induction "slots - slot" arbitrary: msg slot data left rule: less_induct)
  case less
  have s: "slot < slots" "unat left \<le> length data" using less.prems(1) by (auto simp: parser_inv_def word_less_nat_alt)
  from less.prems obtain bin r loc used msg1 where
    p: "nfc_ndef_record_parse (recs0 slot) data left = Inr (bin, r, loc, used)" and m1: "msg_records msg1 = msg_records msg @ [Some r]"
    and c: "(loc = NDEF_LAST_RECORD \<or> loc = NDEF_LONE_RECORD) \<and> msg' = msg1 \<and> left' = left - used \<or>
     (loc = NDEF_FIRST_RECORD \<or> loc = NDEF_MIDDLE_RECORD) \<and>
       parser_inv slots msg1 (slot + 1) (drop (unat used) data) (left - used) \<and>
       msg_parser_loop recs0 slots msg1 (slot + 1) (drop (unat used) data) (left - used) = Inr (msg', left')"
    by (rule msg_parser_loop_rounds)
  have ok: "parsed_ok r" by (rule record_parse_parsed_ok [OF p s(2)])
  have le: "left - used \<le> left" using record_parse_used [OF p] by (simp add: word_le_nat_alt unat_sub_le)
  from c show ?case
  proof
    assume "(loc = NDEF_LAST_RECORD \<or> loc = NDEF_LONE_RECORD) \<and> msg' = msg1 \<and> left' = left - used"
    then show ?thesis using m1 ok le by (intro conjI exI [of _ "[r]"]) simp_all
  next
    assume "(loc = NDEF_FIRST_RECORD \<or> loc = NDEF_MIDDLE_RECORD) \<and>
       parser_inv slots msg1 (slot + 1) (drop (unat used) data) (left - used) \<and>
       msg_parser_loop recs0 slots msg1 (slot + 1) (drop (unat used) data) (left - used) = Inr (msg', left')"
    then have n: "parser_inv slots msg1 (slot + 1) (drop (unat used) data) (left - used)"
      "msg_parser_loop recs0 slots msg1 (slot + 1) (drop (unat used) data) (left - used) = Inr (msg', left')" by simp_all
    have "slots - (slot + 1) < slots - slot" using s(1) by simp
    from less.hyps [OF this n] obtain rs where
      "left' \<le> left - used" "msg_records msg' = msg_records msg1 @ map Some rs" "list_all parsed_ok rs" by blast
    then show ?thesis using m1 ok le by (intro conjI exI [of _ "r # rs"]) auto
  qed
qed

definition parseable :: "emitted \<Rightarrow> bool" where
  "parseable = (\<lambda>(r, body). record_desc_ok r \<and> record_tnf_ok r)"

lemma msg_parser_loop_roundtrip:
  assumes "rs \<noteq> []" "parser_inv slots msg slot data left"
    and "i = msg_record_count msg" "unat i + length rs = unat n" "n \<le> msg_max_record_count msg"
    and "list_all parseable rs" "data = msg_bytes_from (i = 0) rs @ rest"
    and "length (msg_bytes_from (i = 0) rs) \<le> unat left"
  shows "\<exists>msg' rs'. msg_parser_loop recs0 slots msg slot data left =
        Inr (msg', left - of_nat (length (msg_bytes_from (i = 0) rs))) \<and> msg_inv msg' \<and>
      msg_records msg' = msg_records msg @ map Some rs' \<and> list_all2 describes rs' rs"
  using assms
proof (induction rs arbitrary: msg slot data left i)
  case Nil
  then show ?case by simp
next
  case (Cons e rs)
  obtain r body where e: "e = (r, body)" by (cases e)
  let ?loc = "message_mark (i = 0) (rs = [])"
  let ?rb = "record_bytes r ?loc body" and ?next = "msg_bytes_from (i + 1 = 0) rs"
  have "unat i + Suc (length rs) = unat n" using Cons.prems(4) by simp
  note z = record_location_get_mark(2) [OF this]
  have ok: "record_desc_ok r" "record_tnf_ok r" using Cons.prems(6) e by (auto simp: parseable_def)
  have i: "i < n" "unat (i + 1) = unat i + 1"
    using Cons.prems(4) unat_Suc_less [of i n] by (simp_all add: word_less_nat_alt)
  have d: "data = ?rb @ (?next @ rest)" using Cons.prems(7) e by (simp add: z)
  have le: "length ?rb \<le> unat left" using Cons.prems(8) e by simp
  from record_parse_roundtrip [OF ok(1) location_ok_mark ok(2) le, of "recs0 slot" "?next @ rest"]
  obtain bin r' where p: "nfc_ndef_record_parse (recs0 slot) data left =
      Inr (bin, r', ?loc, of_nat (length ?rb))" and ds: "describes r' (r, body)"
    unfolding d by blast
  have inv: "msg_inv msg" "slot < slots" "msg_record_count msg < msg_max_record_count msg"
    using Cons.prems(2) by (auto simp: parser_inv_def word_less_nat_alt)
  obtain msg' where a: "nfc_ndef_msg_record_add msg (Some r') = Inr msg'" "msg_inv msg'"
      "msg_records msg' = msg_records msg @ [Some r']" "msg_max_record_count msg' = msg_max_record_count msg"
      "unat (msg_record_count msg') = unat (msg_record_count msg) + 1"
    using msg_records_add [OF inv(1,3)] by blast
  have left: "left > 0" using le by (simp add: word_less_nat_alt length_record_bytes)
  have u: "unat (of_nat (length ?rb) :: u32) = length ?rb"
    using le unat_u32_lt [of left] by (simp add: unat_of_nat_u32)
  have c0: "(msg_record_count msg = 0) \<longleftrightarrow> i = 0" using Cons.prems(3) by simp
  show ?case
  proof (cases "rs = []")
    case True
    then have "?loc = (if i = 0 then NDEF_LONE_RECORD else NDEF_LAST_RECORD)"
      by (simp add: message_mark_def)
    then have "msg_parser_loop recs0 slots msg slot data left = Inr (msg', left - of_nat (length ?rb))"
      using left inv(2) p a(1) c0 by (subst msg_parser_loop.simps) (auto simp: Let_def)
    then show ?thesis using a ds True e by (intro exI [of _ msg'] exI [of _ "[r']"]) simp
  next
    case False
    then have loc: "?loc = (if i = 0 then NDEF_FIRST_RECORD else NDEF_MIDDLE_RECORD)"
      by (simp add: message_mark_def)
    have ne: "msg_record_count msg' \<noteq> msg_max_record_count msg'"
    proof
      assume "msg_record_count msg' = msg_max_record_count msg'"
      then have "unat n \<le> unat i + 1"
        using a(4,5) Cons.prems(3,5) by (metis word_le_nat_alt)
      with Cons.prems(4) False show False by (cases rs) simp_all
    qed
    have step: "msg_parser_loop recs0 slots msg slot data left =
        msg_parser_loop recs0 slots msg' (slot + 1) (drop (length ?rb) data) (left - of_nat (length ?rb))"
      using left inv(2) p a(1) c0 loc ne u
      by (subst msg_parser_loop.simps) (auto simp: Let_def)
    have "\<exists>msg'' rs'. msg_parser_loop recs0 slots msg' (slot + 1) (drop (length ?rb) data) (left - of_nat (length ?rb)) =
        Inr (msg'', left - of_nat (length ?rb) - of_nat (length ?next)) \<and> msg_inv msg'' \<and>
        msg_records msg'' = msg_records msg' @ map Some rs' \<and> list_all2 describes rs' rs"
    proof (rule Cons.IH [OF False])
      show "parser_inv slots msg' (slot + 1) (drop (length ?rb) data) (left - of_nat (length ?rb))"
        using parser_inv_step [OF Cons.prems(2) p a(1) ne] u by simp
      show "i + 1 = msg_record_count msg'"
        using a(5) i(2) Cons.prems(3) by (metis unsigned_word_eqI)
      show "length ?next \<le> unat (left - of_nat (length ?rb))"
        using Cons.prems(8) e le u z by (simp add: unat_sub_le word_le_nat_alt)
    qed (use Cons.prems a i d in auto)
    then obtain msg'' rs' where IH: "msg_parser_loop recs0 slots msg slot data left =
        Inr (msg'', left - of_nat (length ?rb) - of_nat (length ?next))" "msg_inv msg''"
        "msg_records msg'' = msg_records msg' @ map Some rs'" "list_all2 describes rs' rs"
      unfolding step by blast
    then show ?thesis
      using a(3) ds e by (intro exI [of _ msg''] exI [of _ "r' # rs'"]) (simp add: diff_diff_eq z)
  qed
qed

lemma memo_resolve_parser_inv:
  assumes "nfc_ndef_msg_parser_memo_resolve abi result_len = Inr (n, msg, used)" "0 < n"
    and "unat len \<le> length data"
  shows "parser_inv (unat n) msg 0 data len" "msg_records msg = []" "msg_record_count msg = 0"
    "msg_max_record_count msg = n"
  using assms by (auto simp: nfc_ndef_msg_parser_memo_resolve_def Let_def parser_inv_def msg_inv_def
      msg_records_def split: if_splits)

section \<open>The result buffer\<close>

text \<open>Structure sizes of a real target: none is empty and all are small.\<close>

definition abi_ok :: "msg_parser_abi \<Rightarrow> bool" where
  "abi_ok abi \<longleftrightarrow> 0 < sz_ptr abi \<and> unat (sz_msg abi) < 65536 \<and> unat (sz_ptr abi) < 65536 \<and>
     unat (sz_bin abi) < 65536 \<and> unat (sz_rec abi) < 65536"

lemma memo_resolve_bound:
  assumes abi: "abi_ok abi" and m: "nfc_ndef_msg_parser_memo_resolve abi rlen = Inr (n, msg, used)"
  shows "0 < n"
    "unat used = unat (sz_msg abi) + unat n * (unat (sz_ptr abi) + unat (sz_bin abi) + unat (sz_rec abi))"
    "unat used \<le> unat rlen"
proof -
  let ?S = "unat (sz_ptr abi) + unat (sz_bin abi) + unat (sz_rec abi)"
  let ?last = "rlen - sizeof_parser_msg_1 abi"
  have sz: "unat (sizeof_parser_msg_1 abi) = unat (sz_msg abi) + ?S"
    using abi by (simp add: sizeof_parser_msg_1_def abi_ok_def unat_word_ariths)
  have "NFC_NDEF_MSG_PARSER_DELTA abi = sz_ptr abi + sz_bin abi + sz_rec abi"
    by (simp add: NFC_NDEF_MSG_PARSER_DELTA_def sizeof_parser_msg_1_def)
  then have dl: "unat (NFC_NDEF_MSG_PARSER_DELTA abi) = ?S"
    using abi by (simp add: abi_ok_def unat_word_ariths)
  have S: "0 < ?S" using abi by (auto simp: abi_ok_def word_less_nat_alt)
  have le: "sizeof_parser_msg_1 abi \<le> rlen" and n: "n = ?last div NFC_NDEF_MSG_PARSER_DELTA abi + 1"
      and u: "used = sz_msg abi + n * sz_ptr abi + n * sz_bin abi + n * sz_rec abi"
    using m by (auto simp: nfc_ndef_msg_parser_memo_resolve_def Let_def linorder_not_less split: if_splits)
  have last: "unat ?last = unat rlen - (unat (sz_msg abi) + ?S)"
    using unat_sub_le [OF le] sz by simp
  have lesz: "unat (sz_msg abi) + ?S \<le> unat rlen" using le sz by (simp add: word_le_nat_alt)
  have "unat ?last div ?S \<le> unat ?last" by (rule div_le_dividend)
  then have "unat ?last div ?S + 1 < 4294967296"
    using last lesz S unat_u32_lt [of rlen] by linarith
  then have n': "unat n = unat ?last div ?S + 1"
    unfolding n by (subst unat_add_no_wrap_u32) (simp_all add: unat_div_distrib dl del: One_nat_def)
  then show "0 < n" by (simp add: word_less_nat_alt)
  have tot: "unat (sz_msg abi) + unat n * ?S \<le> unat rlen"
  proof -
    have "(unat ?last div ?S + 1) * ?S = unat ?last div ?S * ?S + ?S" by simp
    moreover have "unat ?last div ?S * ?S \<le> unat ?last" by (rule div_times_less_eq_dividend)
    ultimately show ?thesis unfolding n' using last lesz by linarith
  qed
  have d: "unat n * ?S = unat n * unat (sz_ptr abi) + unat n * unat (sz_bin abi) + unat n * unat (sz_rec abi)"
    by (simp add: distrib_left)
  have "unat used = unat (sz_msg abi) + unat n * ?S"
    unfolding u using tot d unat_u32_lt [of rlen] by (simp add: unat_word_ariths)
  then show "unat used = unat (sz_msg abi) + unat n * ?S" "unat used \<le> unat rlen"
    using tot by simp_all
qed

lemma msg_parse_safe:
  assumes "abi_ok abi" "unat len \<le> length data"
  shows "nfc_ndef_msg_parse abi recs0 rlen data len \<noteq> Inl UB"
    "nfc_ndef_msg_parse abi recs0 rlen data len = Inr (msg, used, k) \<Longrightarrow>
       k \<le> len \<and> (\<exists>rs. msg_records msg = map Some rs \<and> list_all parsed_ok rs)"
proof -
  show "nfc_ndef_msg_parse abi recs0 rlen data len \<noteq> Inl UB"
  proof (cases "nfc_ndef_msg_parser_memo_resolve abi rlen")
    case (Inl e)
    then show ?thesis
      by (auto simp: nfc_ndef_msg_parse_def nfc_ndef_msg_parser_memo_resolve_def Let_def split: if_splits)
  next
    case (Inr x)
    obtain n msg0 u where x: "x = (n, msg0, u)" by (cases x)
    note r = Inr [unfolded x]
    show ?thesis
      using msg_parser_loop_safe [OF memo_resolve_parser_inv(1) [OF r memo_resolve_bound(1) [OF assms(1) r] assms(2)]] r
      by (auto simp: nfc_ndef_msg_parse_def nfc_ndef_msg_parser_internal_def bindE_eq_Inl)
  qed
  assume p: "nfc_ndef_msg_parse abi recs0 rlen data len = Inr (msg, used, k)"
  then obtain n msg0 left where r: "nfc_ndef_msg_parser_memo_resolve abi rlen = Inr (n, msg0, used)"
      and l: "msg_parser_loop recs0 (unat n) msg0 0 data len = Inr (msg, left)" "k = len - left"
    by (auto simp: nfc_ndef_msg_parse_def nfc_ndef_msg_parser_internal_def bindE_eq_Inr)
  note inv = memo_resolve_parser_inv [OF r memo_resolve_bound(1) [OF assms(1) r] assms(2)]
  from msg_parser_loop_records [OF inv(1) l(1)] inv(2)
  show "k \<le> len \<and> (\<exists>rs. msg_records msg = map Some rs \<and> list_all parsed_ok rs)"
    by (auto simp: l(2) word_le_nat_alt unat_sub_le)
qed

lemma msg_parse_within:
  assumes "list_all parseable rs" "rs \<noteq> []" "length (msg_bytes rs) \<le> unat len" "unat len \<le> length (msg_bytes rs @ rest)"
    and "abi_ok abi" "nfc_ndef_msg_parser_memo_resolve abi rlen = Inr (n, msg0, used)" "length rs \<le> unat n"
  shows "\<exists>msg' rs'. nfc_ndef_msg_parse abi recs0 rlen (msg_bytes rs @ rest) len =
      Inr (msg', used, of_nat (length (msg_bytes rs))) \<and> msg_inv msg' \<and>
    msg_records msg' = map Some rs' \<and> list_all2 describes rs' rs"
proof -
  have n0: "0 < n" by (rule memo_resolve_bound(1) [OF assms(5,6)])
  note inv = memo_resolve_parser_inv [OF assms(6) n0 assms(4)]
  have c: "unat (of_nat (length rs) :: u32) = length rs"
    using assms(7) unat_u32_lt [of n] by (simp add: unat_of_nat_u32)
  have "\<exists>msg' rs'. msg_parser_loop recs0 (unat n) msg0 0 (msg_bytes rs @ rest) len =
        Inr (msg', len - of_nat (length (msg_bytes_from (msg_record_count msg0 = 0) rs))) \<and> msg_inv msg' \<and>
      msg_records msg' = msg_records msg0 @ map Some rs' \<and> list_all2 describes rs' rs"
    using assms inv c
    by (intro msg_parser_loop_roundtrip [where n = "of_nat (length rs)"]) (auto simp: msg_bytes_def word_le_nat_alt)
  then show ?thesis
    unfolding nfc_ndef_msg_parse_def nfc_ndef_msg_parser_internal_def assms(6)
    using inv(2,3) by (auto simp: msg_bytes_def)
qed

lemma msg_parse_bytes:
  assumes "length (msg_bytes rs) < 2 ^ 32" "list_all parseable rs" "rs \<noteq> []"
    and "abi_ok abi" "nfc_ndef_msg_parser_memo_resolve abi rlen = Inr (n, msg0, used)" "length rs \<le> unat n"
  shows "\<exists>msg' rs'. nfc_ndef_msg_parse abi recs0 rlen (msg_bytes rs @ rest) (of_nat (length (msg_bytes rs))) =
      Inr (msg', used, of_nat (length (msg_bytes rs))) \<and> msg_inv msg' \<and>
    msg_records msg' = map Some rs' \<and> list_all2 describes rs' rs"
  using assms by (intro msg_parse_within) (simp_all add: unat_of_nat_u32)

text \<open>A result buffer of the size that \<open>NFC_NDEF_PARSER_REQIRED_MEMO_SIZE_CALC\<close> asks for has the slots wanted.\<close>

lemma memo_resolve_sized:
  assumes abi: "abi_ok abi" and n: "0 < n" "unat n \<le> 8192"
  shows "\<exists>msg0 used. nfc_ndef_msg_parser_memo_resolve abi (sizeof_parser_msg_1 abi + NFC_NDEF_MSG_PARSER_DELTA abi * (n - 1)) = Inr (n, msg0, used)"
proof -
  let ?S = "unat (sz_ptr abi) + unat (sz_bin abi) + unat (sz_rec abi)" and ?D = "NFC_NDEF_MSG_PARSER_DELTA abi"
  have "?D = sz_ptr abi + sz_bin abi + sz_rec abi"
    by (simp add: NFC_NDEF_MSG_PARSER_DELTA_def sizeof_parser_msg_1_def)
  then have dl: "unat ?D = ?S" using abi by (simp add: abi_ok_def unat_word_ariths)
  have S: "0 < ?S" "?S < 196608" using abi by (auto simp: abi_ok_def word_less_nat_alt)
  have n1: "unat (n - 1) = unat n - 1" using n(1) by (simp add: unat_sub_le word_le_nat_alt word_less_nat_alt)
  have "?S * (unat n - 1) \<le> 196608 * 8192" using S n by (intro mult_le_mono) simp_all
  then have m: "unat (?D * (n - 1)) = ?S * (unat n - 1)" by (simp add: unat_word_ariths dl n1)
  have sz: "unat (sizeof_parser_msg_1 abi) = unat (sz_msg abi) + ?S"
    using abi by (simp add: sizeof_parser_msg_1_def abi_ok_def unat_word_ariths)
  have "unat (sizeof_parser_msg_1 abi) < 262144" using sz S(2) abi by (simp add: abi_ok_def)
  with m \<open>?S * (unat n - 1) \<le> 196608 * 8192\<close>
  have nw: "unat (sizeof_parser_msg_1 abi + ?D * (n - 1)) = unat (sizeof_parser_msg_1 abi) + unat (?D * (n - 1))"
    by (intro unat_add_no_wrap_u32) simp
  then have "\<not> sizeof_parser_msg_1 abi + ?D * (n - 1) < sizeof_parser_msg_1 abi" by (simp add: word_less_nat_alt)
  moreover have "?D * (n - 1) div ?D + 1 = n"
  proof -
    have "unat (?D * (n - 1) div ?D) = unat (n - 1)" using m S(1) by (simp add: unat_div_distrib dl n1)
    then have "?D * (n - 1) div ?D = n - 1" by (simp only: word_unat_eq_iff)
    then show ?thesis by simp
  qed
  ultimately show ?thesis by (simp add: nfc_ndef_msg_parser_memo_resolve_def Let_def)
qed

section \<open>Properties\<close>

text \<open>C5: Parsing a message that the encoder wrote gives back its records: the parser succeeds on the
  written buffer (whatever follows the message), reports the length of the message, and its
  descriptors have the TNF, type, ID and payload of the encoded records, in order.\<close>

theorem msg_roundtrip:
  assumes m: "msg_emits m rs" "list_all emits rs" "list_all parseable rs" "rs \<noteq> []"
    and cap: "unat cap \<le> length mem" "length (msg_bytes rs) \<le> unat cap"
    and abi: "abi_ok abi" "nfc_ndef_msg_parser_memo_resolve abi rlen = Inr (n, msg0, used)" "length rs \<le> unat n"
  shows "\<exists>mem' k msg' rs'. nfc_ndef_msg_encode (Some m) (Some (mem, cap)) = Inr (mem', k) \<and>
     nfc_ndef_msg_parse abi recs0 rlen mem' cap = Inr (msg', used, k) \<and>
     msg_records msg' = map Some rs' \<and> list_all2 describes rs' rs"
proof -
  let ?bs = "msg_bytes rs" and ?k = "of_nat (length (msg_bytes rs)) :: u32"
  have e: "nfc_ndef_msg_encode (Some m) (Some (mem, cap)) = Inr (?bs @ drop (length ?bs) mem, ?k)"
    by (rule writes_fits [OF msg_encode_writes [OF m(1,2)] cap])
  from msg_parse_within [OF m(3,4) cap(2) _ abi, of "drop (length ?bs) mem" recs0] cap(1) show ?thesis
    unfolding e by fastforce
qed

definition sample_abi :: msg_parser_abi where
  "sample_abi = \<lparr>sz_msg = 12, sz_ptr = 4, sz_bin = 8, sz_rec = 24\<rparr>"

lemma sample_abi_ok: "abi_ok sample_abi"
    "\<exists>msg. nfc_ndef_msg_parser_memo_resolve sample_abi 100 = Inr (2, msg, 84)"
  by (simp_all add: abi_ok_def sample_abi_def nfc_ndef_msg_parser_memo_resolve_def sizeof_parser_msg_1_def
      NFC_NDEF_MSG_PARSER_DELTA_def Let_def)

theorem msg_roundtrip_witness:
  "\<exists>mem' k msg' rs'. nfc_ndef_msg_encode (Some sample_msg) (Some (replicate 30 0, 30)) = Inr (mem', k) \<and>
     nfc_ndef_msg_parse sample_abi (\<lambda>_. sample_record) 100 mem' 30 = Inr (msg', 84, k) \<and>
     msg_records msg' = map Some rs' \<and> list_all2 describes rs' sample_emitted"
proof -
  obtain msg0 where r: "nfc_ndef_msg_parser_memo_resolve sample_abi 100 = Inr (2, msg0, 84)"
    using sample_abi_ok(2) by blast
  have p: "list_all parseable sample_emitted" "sample_emitted \<noteq> []"
    using sample_record_ok(1)
    by (simp_all add: sample_emitted_def parseable_def record_tnf_ok_def, simp add: sample_record_def)
  show ?thesis
    by (rule msg_roundtrip [OF sample_msg_ok(1,2) p _ _ sample_abi_ok(1) r])
      (simp_all add: sample_msg_bytes, simp add: sample_emitted_def)
qed

text \<open>Parsing an encoded record gives back its TNF, type, ID, payload and location, and the number
  of bytes the record occupies.\<close>

lemma record_roundtrip:
  assumes "record_desc_ok r" "location_ok loc" "record_tnf_ok r"
    and "length (record_bytes r loc body) \<le> unat len"
  shows "\<exists>bin r'. nfc_ndef_record_parse old (record_bytes r loc body @ rest) len =
     Inr (bin, r', loc, of_nat (length (record_bytes r loc body))) \<and> describes r' (r, body)"
  by (rule record_parse_roundtrip [OF assms])

theorem record_roundtrip_witness:
  "\<exists>bin r'. nfc_ndef_record_parse sample_record [0xC9, 1, 0, 0, 0, 2, 1, 0x55, 0x37, 0xAA, 0xBB, 7] 12 =
     Inr (bin, r', NDEF_LONE_RECORD, 11) \<and> describes r' (sample_record, [0xAA, 0xBB])"
  using record_roundtrip [of sample_record NDEF_LONE_RECORD "[0xAA, 0xBB]" 12 sample_record "[7]"] sample_record_ok(1)
  by (simp add: sample_record_bytes location_ok_def record_tnf_ok_def) (simp add: sample_record_def)

text \<open>C7: On any input of any declared length that is really there, with any result buffer, the message
  parser neither reads the input out of bounds nor writes outside the result buffer.\<close>

theorem msg_parse_no_ub:
  assumes "abi_ok abi" "unat len \<le> length data"
  shows "nfc_ndef_msg_parse abi recs0 rlen data len \<noteq> Inl UB"
proof (cases "nfc_ndef_msg_parser_memo_resolve abi rlen")
  case (Inl e)
  then show ?thesis
    by (auto simp: nfc_ndef_msg_parse_def nfc_ndef_msg_parser_memo_resolve_def Let_def split: if_splits)
next
  case (Inr x)
  then obtain n msg used where r: "nfc_ndef_msg_parser_memo_resolve abi rlen = Inr (n, msg, used)"
    by (metis prod_cases3)
  note safe = msg_parser_loop_safe [OF memo_resolve_parser_inv(1) [OF r memo_resolve_bound(1) [OF assms(1) r]
      assms(2)], of recs0]
  show ?thesis
    using safe by (auto simp: nfc_ndef_msg_parse_def nfc_ndef_msg_parser_internal_def r bindE_eq_Inl)
qed

theorem msg_parse_no_ub_witness:
  "nfc_ndef_msg_parse sample_abi (\<lambda>_. sample_record) 100 [0x91, 1] 2 \<noteq> Inl UB"
  using msg_parse_no_ub [OF sample_abi_ok(1), of 2 "[0x91, 1]"] by simp

text \<open>C8: Resolving the result buffer yields at least one record slot, and the descriptor, the pointer
  array and the payload and record descriptors of all slots together fit into the buffer; the
  32-bit arithmetic of the computation does not wrap.\<close>

theorem memo_resolve_fits:
  assumes "abi_ok abi" "nfc_ndef_msg_parser_memo_resolve abi rlen = Inr (n, msg, used)"
  shows "0 < n \<and> msg_inv msg \<and> msg_max_record_count msg = n \<and> unat used \<le> unat rlen \<and>
    unat used = unat (sz_msg abi) + unat n * (unat (sz_ptr abi) + unat (sz_bin abi) + unat (sz_rec abi))"
  using memo_resolve_bound [OF assms] memo_resolve_parser_inv [OF assms(2) memo_resolve_bound(1) [OF assms], of 0 "[]"]
  by (simp add: parser_inv_def)

theorem memo_resolve_fits_witness:
  "\<exists>msg. nfc_ndef_msg_parser_memo_resolve sample_abi 100 = Inr (2, msg, 84) \<and> msg_inv msg"
  using sample_abi_ok(2) memo_resolve_fits [OF sample_abi_ok(1)] by blast

text \<open>Every pointer of a descriptor the record parser returns designates bytes of the input, as long
  as the payload length is below 2^32 - 517, where the sum of the lengths cannot wrap.\<close>

lemma record_parse_pointers_in_bounds:
  assumes "nfc_ndef_record_parse old data len = Inr (bin, r, loc, used)"
    and "unat len \<le> length data" "unat (bin_payload_length bin) + 517 < 2 ^ 32"
  shows "bin_ok bin \<and> record_desc_ok r \<and> used \<le> len \<and>
    3 + unat (rec_type_length r) + unat (rec_id_length r) + unat (bin_payload_length bin) \<le> unat used"
  using record_parse_in_bounds [OF assms] record_parse_used [OF assms(1)] by simp

lemma record_parse_pointers_in_bounds_witness:
  "bin_ok \<lparr>bin_payload = Some [0xAA], bin_payload_length = 1\<rparr> \<and>
   nfc_ndef_record_parse sample_record [0xD1, 1, 1, 0x55, 0xAA] 5 =
     Inr (\<lparr>bin_payload = Some [0xAA], bin_payload_length = 1\<rparr>,
          \<lparr>rec_tnf = 1, rec_id_length = 0, rec_id = None, rec_type_length = 1, rec_type = Some [0x55, 0xAA],
           rec_payload = Payload_Bin \<lparr>bin_payload = Some [0xAA], bin_payload_length = 1\<rparr>\<rparr>, 0xC0, 5)"
proof -
  have p: "nfc_ndef_record_parse sample_record [0xD1, 1, 1, 0x55, 0xAA] 5 =
     Inr (\<lparr>bin_payload = Some [0xAA], bin_payload_length = 1\<rparr>,
          \<lparr>rec_tnf = 1, rec_id_length = 0, rec_id = None, rec_type_length = 1, rec_type = Some [0x55, 0xAA],
           rec_payload = Payload_Bin \<lparr>bin_payload = Some [0xAA], bin_payload_length = 1\<rparr>\<rparr>, 0xC0, 5)"
    by (simp add: nfc_ndef_record_parse_def mem_byte_def Let_def)
  show ?thesis using record_parse_pointers_in_bounds [OF p] p by simp
qed

text \<open>Without that bound the 32-bit sum wraps: a 10-byte long-format record that claims a payload of
  0xFFFFFFFA bytes is accepted with an expected size of 0, and its payload descriptor reaches
  outside the input.\<close>

lemma record_parse_length_wraps:
  "\<exists>bin r. nfc_ndef_record_parse sample_record [0xC1, 0, 0xFF, 0xFF, 0xFF, 0xFA, 1, 2, 3, 4] 10 =
     Inr (bin, r, 0xC0, 0) \<and> bin_payload_length bin = 0xFFFFFFFA \<and> \<not> bin_ok bin"
  by (simp add: nfc_ndef_record_parse_def mem_byte_def Let_def get_be32_def be32_def bin_ok_def)

end
