(* ===== verification/Ndef_Alloc.thy ===== *)
theory Ndef_Alloc
  imports Nfc_Prelude
begin

text \<open>
  The bump allocator of the record parsers (\<open>memory_allocate\<close> in \<open>le_oob_rec_parser.c\<close> and
  \<open>ch_rec_parser.c\<close>). It sits on \<open>net_buf_simple\<close>, a library outside this repository: its three
  operations are parameters, and \<open>net_buf_ok\<close> states their documented behaviour, that a buffer
  over \<open>size\<close> bytes starts with \<open>size\<close> bytes of tailroom and that adding \<open>n\<close> bytes takes \<open>n\<close> bytes of it.
  The size field of \<open>net_buf_simple\<close> has 16 bits, so only buffers below 64 KiB are covered.

  The objects that the parsers carve out of the result buffer are values of the model; what is
  tracked is how much of the buffer they take.
\<close>

record 'nb net_buf_ops =
  nb_init :: "u32 \<Rightarrow> 'nb"
  nb_tailroom :: "'nb \<Rightarrow> u32"
  nb_add :: "'nb \<Rightarrow> u32 \<Rightarrow> 'nb"

definition net_buf_ok :: "'nb net_buf_ops \<Rightarrow> bool" where
  "net_buf_ok ops \<longleftrightarrow>
     (\<forall>size. unat size < 65536 \<longrightarrow> nb_tailroom ops (nb_init ops size) = size) \<and>
     (\<forall>b n. n \<le> nb_tailroom ops b \<longrightarrow> nb_tailroom ops (nb_add ops b n) = nb_tailroom ops b - n)"

text \<open>\<open>None\<close> is the NULL result; otherwise the allocator after the allocation.\<close>

definition memory_allocate :: "'nb net_buf_ops \<Rightarrow> 'nb \<Rightarrow> u32 \<Rightarrow> 'nb option" where
  "memory_allocate ops nb alloc_size =
     (if nb_tailroom ops nb < alloc_size then None else Some (nb_add ops nb alloc_size))"

definition room :: "'nb net_buf_ops \<Rightarrow> 'nb \<Rightarrow> nat" where
  "room ops nb = unat (nb_tailroom ops nb)"

lemma memory_allocate_room:
  assumes "net_buf_ok ops" "memory_allocate ops nb n = Some nb'"
  shows "room ops nb = room ops nb' + unat n"
  using assms by (auto simp: memory_allocate_def net_buf_ok_def room_def unat_sub_le word_le_nat_alt not_less
      word_less_nat_alt split: if_splits)

lemma memory_allocate_fits:
  assumes "net_buf_ok ops" "unat n \<le> room ops nb"
  obtains nb' where "memory_allocate ops nb n = Some nb'" "room ops nb' = room ops nb - unat n"
proof -
  have a: "memory_allocate ops nb n = Some (nb_add ops nb n)"
    using assms(2) by (simp add: memory_allocate_def room_def word_less_nat_alt)
  from memory_allocate_room [OF assms(1) a] have "room ops (nb_add ops nb n) = room ops nb - unat n"
    by simp
  with a show ?thesis by (rule that)
qed

lemma room_init: "net_buf_ok ops \<Longrightarrow> unat n < 65536 \<Longrightarrow> room ops (nb_init ops n) = unat n"
  by (simp add: net_buf_ok_def room_def)

text \<open>An instance that satisfies the laws: the allocator that remembers the bytes left.\<close>

definition counting_net_buf :: "u32 net_buf_ops" where
  "counting_net_buf = \<lparr>nb_init = \<lambda>size. size, nb_tailroom = \<lambda>b. b, nb_add = \<lambda>b n. b - n\<rparr>"

lemma counting_net_buf_ok: "net_buf_ok counting_net_buf"
  by (simp add: net_buf_ok_def counting_net_buf_def)

end
