(* ===== verification/Ndef_Ch_Parser.thy ===== *)
theory Ndef_Ch_Parser
  imports Ndef_Ch Ndef_Parser Ndef_Alloc
begin

text \<open>
  The Connection Handover record parsers (\<open>subsys/nfc/ndef/ch_rec_parser.c\<close>).

  The structures the parsers fill live in the result buffer; their sizes are the parameters
  \<open>ch_abi\<close>. The result of a parser is the filled structure and the new \<open>*result_buf_len\<close>.
\<close>

section \<open>Record types\<close>

definition nfc_ndef_ch_hs_rec_type_field :: "u8 list" where "nfc_ndef_ch_hs_rec_type_field = [0x48, 0x73]"
definition nfc_ndef_ch_hr_rec_type_field :: "u8 list" where "nfc_ndef_ch_hr_rec_type_field = [0x48, 0x72]"
definition nfc_ndef_ch_hm_rec_type_field :: "u8 list" where "nfc_ndef_ch_hm_rec_type_field = [0x48, 0x6d]"
definition nfc_ndef_ch_hi_rec_type_field :: "u8 list" where "nfc_ndef_ch_hi_rec_type_field = [0x48, 0x69]"
definition nfc_ndef_ch_hc_rec_type_field :: "u8 list" where "nfc_ndef_ch_hc_rec_type_field = [0x48, 0x63]"
definition nfc_ndef_ch_ac_rec_type_field :: "u8 list" where "nfc_ndef_ch_ac_rec_type_field = [0x61, 0x63]"
definition nfc_ndef_ch_cr_rec_type_field :: "u8 list" where "nfc_ndef_ch_cr_rec_type_field = [0x63, 0x72]"

datatype nfc_ndef_ch_rec_type =
    NFC_NDEF_CH_REC_TYPE_HANDOVER_SELECT
  | NFC_NDEF_CH_REC_TYPE_HANDOVER_REQUEST
  | NFC_NDEF_CH_REC_TYPE_HANDOVER_INITIATE
  | NFC_NDEF_CH_REC_TYPE_HANDOVER_MEDIATION

definition rec_type_check :: "nfc_ndef_record_desc option \<Rightarrow> u8 list \<Rightarrow> bool res" where
  "rec_type_check rec_desc ty = (case rec_desc of None \<Rightarrow> Inr False | Some r \<Rightarrow>
     if rec_tnf r = 0 then Inr False
     else if rec_tnf r \<noteq> TNF_WELL_KNOWN then Inr False
     else if unat (rec_type_length r) \<noteq> length ty then Inr False
     else bindE (mem_read (rec_type r) (length ty)) (\<lambda>bs. Inr (bs = ty)))"

definition ch_rec_check :: "nfc_ndef_record_desc option \<Rightarrow> bool res" where
  "ch_rec_check rec_desc = (case rec_desc of None \<Rightarrow> Inr False | Some r \<Rightarrow>
     if rec_tnf r = 0 then Inr False
     else if rec_tnf r \<noteq> TNF_WELL_KNOWN then Inr False
     else if rec_type_length r \<noteq> 2 then Inr False
     else bindE (mem_read (rec_type r) 2) (\<lambda>bs.
       if bs = nfc_ndef_ch_hs_rec_type_field then Inr True
       else if bs = nfc_ndef_ch_hr_rec_type_field then Inr True
       else if bs = nfc_ndef_ch_hm_rec_type_field then Inr True
       else if bs = nfc_ndef_ch_hi_rec_type_field then Inr True
       else Inr False))"

definition nfc_ndef_ch_hc_rec_check :: "nfc_ndef_record_desc option \<Rightarrow> bool res" where
  "nfc_ndef_ch_hc_rec_check rec_desc = rec_type_check rec_desc nfc_ndef_ch_hc_rec_type_field"

definition nfc_ndef_ch_cr_rec_check :: "nfc_ndef_record_desc option \<Rightarrow> bool res" where
  "nfc_ndef_ch_cr_rec_check rec_desc = rec_type_check rec_desc nfc_ndef_ch_cr_rec_type_field"

definition nfc_ndef_ch_ac_rec_check :: "nfc_ndef_record_desc option \<Rightarrow> bool res" where
  "nfc_ndef_ch_ac_rec_check rec_desc = rec_type_check rec_desc nfc_ndef_ch_ac_rec_type_field"

fun nfc_ndef_ch_rec_check :: "nfc_ndef_record_desc option \<Rightarrow> nfc_ndef_ch_rec_type \<Rightarrow> bool res" where
  "nfc_ndef_ch_rec_check rec_desc NFC_NDEF_CH_REC_TYPE_HANDOVER_SELECT =
     rec_type_check rec_desc nfc_ndef_ch_hs_rec_type_field"
| "nfc_ndef_ch_rec_check rec_desc NFC_NDEF_CH_REC_TYPE_HANDOVER_REQUEST =
     rec_type_check rec_desc nfc_ndef_ch_hr_rec_type_field"
| "nfc_ndef_ch_rec_check rec_desc NFC_NDEF_CH_REC_TYPE_HANDOVER_INITIATE =
     rec_type_check rec_desc nfc_ndef_ch_hi_rec_type_field"
| "nfc_ndef_ch_rec_check rec_desc NFC_NDEF_CH_REC_TYPE_HANDOVER_MEDIATION =
     rec_type_check rec_desc nfc_ndef_ch_hm_rec_type_field"

section \<open>Payload parsers\<close>

record ch_abi =
  sz_hc :: u32
  sz_ac :: u32
  sz_ac_ref :: u32
  sz_ch :: u32

text \<open>The input cursor of the payload parsers: the pointer and the number of bytes left.\<close>

type_synonym in_cur = "ptr \<times> u32"

definition adv :: "nat \<Rightarrow> ptr \<Rightarrow> ptr" where
  "adv n p = map_option (drop n) p"

definition ptr_byte :: "ptr \<Rightarrow> u8 res" where
  "ptr_byte p = (case p of None \<Rightarrow> Inl UB | Some xs \<Rightarrow> mem_byte xs 0)"

text \<open>The carrier type format is computed from the pointer \<open>payload_buf\<close> itself (line 81), not from
  the byte it points to: \<open>payload_addr\<close> is the address converted to the enumeration. The two
  \<open>memcpy\<close> targets are the memory just allocated.\<close>

definition hc_rec_payload_parse ::
    "ch_abi \<Rightarrow> 'nb net_buf_ops \<Rightarrow> u8 \<Rightarrow> nfc_ndef_bin_payload_desc \<Rightarrow> u32 \<Rightarrow> (nfc_ndef_ch_hc_rec \<times> u32) res" where
  "hc_rec_payload_parse abi ops payload_addr payload_desc buf_size =
     (let payload_buf = bin_payload payload_desc; payload_len = bin_payload_length payload_desc in
      case memory_allocate ops (nb_init ops buf_size) (sz_hc abi) of None \<Rightarrow> Inl ENOMEM | Some buf \<Rightarrow>
      if payload_len < 1 then Inl EINVAL else
      let payload_buf = adv 1 payload_buf; payload_len = payload_len - 1 in
      if payload_len < 1 then Inl EINVAL else
      bindE (ptr_byte payload_buf) (\<lambda>type_len.
      let payload_buf = adv 1 payload_buf; payload_len = payload_len - 1 in
      if payload_len < ucast type_len then Inl EINVAL else
      case memory_allocate ops buf (ucast type_len) of None \<Rightarrow> Inl ENOMEM | Some buf \<Rightarrow>
      bindE (mem_read payload_buf (unat type_len)) (\<lambda>ty.
      let payload_buf = adv (unat type_len) payload_buf; payload_len = payload_len - ucast type_len;
          hc = \<lparr>hc_ctf = payload_addr, hc_type_len = type_len, hc_type = Some ty, hc_data_len = 0, hc_data = None\<rparr> in
      if payload_len < 1 then Inr (hc, buf_size - nb_tailroom ops buf) else
      let data_len = ucast payload_len in
      case memory_allocate ops buf (ucast data_len) of None \<Rightarrow> Inl ENOMEM | Some buf \<Rightarrow>
      bindE (mem_read payload_buf (unat data_len)) (\<lambda>dt.
      Inr (hc\<lparr>hc_data_len := data_len, hc_data := Some dt\<rparr>, buf_size - nb_tailroom ops buf)))))"

definition ac_reference_parse ::
    "'nb net_buf_ops \<Rightarrow> 'nb \<Rightarrow> in_cur \<Rightarrow> (nfc_ndef_ch_ac_rec_ref \<times> 'nb \<times> in_cur) res" where
  "ac_reference_parse ops buf = (\<lambda>(payload_buf, payload_len).
     if payload_len < 1 then Inl EINVAL else
     bindE (ptr_byte payload_buf) (\<lambda>len.
     let payload_buf = adv 1 payload_buf; payload_len = payload_len - 1 in
     if payload_len < ucast len then Inl EINVAL else
     case memory_allocate ops buf (ucast len) of None \<Rightarrow> Inl ENOMEM | Some buf \<Rightarrow>
     bindE (mem_read payload_buf (unat len)) (\<lambda>data.
     Inr (\<lparr>ref_length = len, ref_data = Some data\<rparr>, buf,
          (adv (unat len) payload_buf, payload_len - ucast len)))))"

text \<open>With no auxiliary references the parser returns before it updates \<open>*result_buf_len\<close>. The test
  after the allocation of the auxiliary references is inverted: a successful allocation returns
  \<open>-ENOMEM\<close>, and after a failed one the first store goes through a NULL pointer.\<close>

definition ac_rec_payload_parse ::
    "ch_abi \<Rightarrow> 'nb net_buf_ops \<Rightarrow> nfc_ndef_bin_payload_desc \<Rightarrow> u32 \<Rightarrow> (nfc_ndef_ch_ac_rec \<times> u32) res" where
  "ac_rec_payload_parse abi ops payload_desc buf_size =
     (let payload_buf = bin_payload payload_desc; payload_len = bin_payload_length payload_desc in
      case memory_allocate ops (nb_init ops buf_size) (sz_ac abi) of None \<Rightarrow> Inl ENOMEM | Some buf \<Rightarrow>
      if payload_len < 1 then Inl EINVAL else
      bindE (ptr_byte payload_buf) (\<lambda>cps.
      bindE (ac_reference_parse ops buf (adv 1 payload_buf, payload_len - 1)) (\<lambda>(ref, buf, payload_buf, payload_len).
      if payload_len < 1 then Inl EINVAL else
      bindE (ptr_byte payload_buf) (\<lambda>cnt.
      let payload_buf = adv 1 payload_buf; payload_len = payload_len - 1;
          ac = \<lparr>ac_cps = cps, ac_carrier_data_ref = ref, ac_max_aux_data_ref_cnt = 0, ac_aux_data_ref_cnt = cnt,
                ac_aux_data_ref = None\<rparr> in
      if cnt = 0 then Inr (ac, buf_size) else
      case memory_allocate ops buf (ucast cnt * sz_ac_ref abi) of
        Some buf \<Rightarrow> Inl ENOMEM
      | None \<Rightarrow>
          if payload_len < 1 then Inl EINVAL else Inl UB))))"

definition ch_rec_payload_parse ::
    "ch_abi \<Rightarrow> msg_parser_abi \<Rightarrow> (nat \<Rightarrow> nfc_ndef_record_desc) \<Rightarrow> 'nb net_buf_ops \<Rightarrow>
     nfc_ndef_bin_payload_desc \<Rightarrow> u32 \<Rightarrow> (nfc_ndef_ch_rec \<times> u32) res" where
  "ch_rec_payload_parse abi mabi recs0 ops payload_desc buf_size =
     (let payload_buf = bin_payload payload_desc; payload_len = bin_payload_length payload_desc in
      case memory_allocate ops (nb_init ops buf_size) (sz_ch abi) of None \<Rightarrow> Inl ENOMEM | Some buf \<Rightarrow>
      if payload_len < 1 then Inl EINVAL else
      bindE (ptr_byte payload_buf) (\<lambda>b.
      let payload_buf = adv 1 payload_buf; payload_len = payload_len - 1;
          local_msg_size = nb_tailroom ops buf in
      case memory_allocate ops buf local_msg_size of None \<Rightarrow> Inl ENOMEM | Some buf \<Rightarrow>
      bindE (nfc_ndef_msg_parse mabi recs0 local_msg_size (case payload_buf of None \<Rightarrow> [] | Some xs \<Rightarrow> xs) payload_len)
        (\<lambda>(msg, used, len).
      Inr (\<lparr>ch_major_version = drop_bit 4 b AND 0x0F, ch_minor_version = b AND 0x0F, ch_local_records = Some msg\<rparr>,
           buf_size - nb_tailroom ops buf))))"

section \<open>Record parsers\<close>

text \<open>What the four public parsers share: the arguments, the type check, and the test that the payload
  is a binary one. \<open>None\<close> stands for a NULL result pointer.\<close>

definition ch_parse_guard ::
    "(nfc_ndef_record_desc option \<Rightarrow> bool res) \<Rightarrow> nfc_ndef_record_desc option \<Rightarrow> bool \<Rightarrow> nfc_ndef_bin_payload_desc res" where
  "ch_parse_guard check rec_desc result = (case rec_desc of None \<Rightarrow> Inl EINVAL | Some r \<Rightarrow>
     if \<not> result then Inl EINVAL
     else bindE (check rec_desc) (\<lambda>ok. if \<not> ok then Inl EINVAL else
       case rec_payload r of Payload_Bin bin \<Rightarrow> Inr bin | _ \<Rightarrow> Inl ENOTSUP))"

definition nfc_ndef_ch_hc_rec_parse ::
    "ch_abi \<Rightarrow> 'nb net_buf_ops \<Rightarrow> u8 \<Rightarrow> nfc_ndef_record_desc option \<Rightarrow> u32 option \<Rightarrow> (nfc_ndef_ch_hc_rec \<times> u32) res" where
  "nfc_ndef_ch_hc_rec_parse abi ops payload_addr rec_desc result =
     bindE (ch_parse_guard nfc_ndef_ch_hc_rec_check rec_desc (result \<noteq> None)) (\<lambda>bin.
     hc_rec_payload_parse abi ops payload_addr bin (the result))"

definition nfc_ndef_ch_cr_rec_parse :: "nfc_ndef_record_desc option \<Rightarrow> bool \<Rightarrow> u16 res" where
  "nfc_ndef_ch_cr_rec_parse rec_desc cr_rec =
     bindE (ch_parse_guard nfc_ndef_ch_cr_rec_check rec_desc cr_rec) (\<lambda>bin.
     if bin_payload_length bin < 2 then Inl EINVAL
     else case bin_payload bin of None \<Rightarrow> Inl UB | Some xs \<Rightarrow> get_be16 xs)"

definition nfc_ndef_ch_ac_rec_parse ::
    "ch_abi \<Rightarrow> 'nb net_buf_ops \<Rightarrow> nfc_ndef_record_desc option \<Rightarrow> u32 option \<Rightarrow> (nfc_ndef_ch_ac_rec \<times> u32) res" where
  "nfc_ndef_ch_ac_rec_parse abi ops rec_desc result =
     bindE (ch_parse_guard nfc_ndef_ch_ac_rec_check rec_desc (result \<noteq> None)) (\<lambda>bin.
     ac_rec_payload_parse abi ops bin (the result))"

definition nfc_ndef_ch_rec_parse ::
    "ch_abi \<Rightarrow> msg_parser_abi \<Rightarrow> (nat \<Rightarrow> nfc_ndef_record_desc) \<Rightarrow> 'nb net_buf_ops \<Rightarrow>
     nfc_ndef_record_desc option \<Rightarrow> u32 option \<Rightarrow> (nfc_ndef_ch_rec \<times> u32) res" where
  "nfc_ndef_ch_rec_parse abi mabi recs0 ops rec_desc result =
     bindE (ch_parse_guard ch_rec_check rec_desc (result \<noteq> None)) (\<lambda>bin.
     ch_rec_payload_parse abi mabi recs0 ops bin (the result))"

section \<open>Handover records: parsing what was encoded\<close>

lemma ch_version_fields:
  "drop_bit 4 (ch_version_byte ch) AND 0x0F = ch_major_version ch AND 0x0F"
  "ch_version_byte ch AND 0x0F = ch_minor_version ch AND 0x0F"
proof -
  have b: "n \<in> {0, 1, 2, 3, 4, 5, 6, 7}" if "n < LENGTH(8)" for n :: nat
    using that by auto
  show "drop_bit 4 (ch_version_byte ch) AND 0x0F = ch_major_version ch AND 0x0F"
    by (rule bit_word_eqI, drule b) (auto simp: ch_version_byte_def bit_simps)
  show "ch_version_byte ch AND 0x0F = ch_minor_version ch AND 0x0F"
    by (rule bit_word_eqI, drule b) (auto simp: ch_version_byte_def bit_simps)
qed

lemma ch_payload_parse_bytes:
  assumes nb: "net_buf_ok ops" "unat rlen < 65536" "unat (sz_ch abi) \<le> unat rlen"
    and m: "msg_emits m rs" "list_all parseable rs" "rs \<noteq> []"
    and r: "abi_ok mabi" "nfc_ndef_msg_parser_memo_resolve mabi (rlen - sz_ch abi) = Inr (n, msg0, used)"
      "length rs \<le> unat n"
    and bin: "bin_payload bin = Some (ch_version_byte ch # msg_bytes rs @ rest)"
      "bin_payload_length bin = of_nat (1 + length (msg_bytes rs))" and len: "1 + length (msg_bytes rs) < 2 ^ 32"
  shows "\<exists>ch' msg' rs'. ch_rec_payload_parse abi mabi recs0 ops bin rlen = Inr (ch', rlen) \<and>
    ch_major_version ch' = ch_major_version ch AND 0x0F \<and> ch_minor_version ch' = ch_minor_version ch AND 0x0F \<and>
    ch_local_records ch' = Some msg' \<and> msg_records msg' = map Some rs' \<and> list_all2 describes rs' rs"
proof -
  have "unat (sz_ch abi) \<le> room ops (nb_init ops rlen)" using nb by (simp add: room_init)
  then obtain b1 where b1: "memory_allocate ops (nb_init ops rlen) (sz_ch abi) = Some b1"
      "room ops b1 = unat rlen - unat (sz_ch abi)"
    using memory_allocate_fits [OF nb(1)] room_init [OF nb(1,2)] by metis
  then have t1: "nb_tailroom ops b1 = rlen - sz_ch abi"
    unfolding room_def by (metis nb(3) of_nat_diff word_of_nat_unat_id)
  have "unat (nb_tailroom ops b1) \<le> room ops b1" by (simp add: room_def)
  then obtain b2 where b2: "memory_allocate ops b1 (nb_tailroom ops b1) = Some b2" "room ops b2 = 0"
    using memory_allocate_fits [OF nb(1)] by (metis diff_self_eq_0 room_def)
  have t2: "nb_tailroom ops b2 = 0" using b2(2) by (simp add: room_def unsigned_eq_0_iff)
  have ge: "\<not> bin_payload_length bin < 1"
    using len unat_of_nat_u32 [of "1 + length (msg_bytes rs)"] unfolding bin(2) by (simp add: word_less_nat_alt)
  have sub: "bin_payload_length bin - 1 = of_nat (length (msg_bytes rs))" by (simp add: bin(2))
  obtain msg' rs' where p: "nfc_ndef_msg_parse mabi recs0 (rlen - sz_ch abi) (msg_bytes rs @ rest)
        (of_nat (length (msg_bytes rs))) = Inr (msg', used, of_nat (length (msg_bytes rs)))"
      "msg_records msg' = map Some rs'" "list_all2 describes rs' rs"
    using msg_parse_bytes [OF msg_emits_length [OF m(1)] m(2,3) r] by blast
  have "ch_rec_payload_parse abi mabi recs0 ops bin rlen =
      Inr (\<lparr>ch_major_version = ch_major_version ch AND 0x0F, ch_minor_version = ch_minor_version ch AND 0x0F,
           ch_local_records = Some msg'\<rparr>, rlen)"
    unfolding ch_rec_payload_parse_def Let_def b1(1) option.case
    using ge sub b2(1) p(1) t1 t2
    by (simp add: bin(1) ptr_byte_def mem_byte_def adv_def ch_version_fields)
  with p show ?thesis by auto
qed

section \<open>Properties\<close>

text \<open>Parsing a Collision Resolution record whose payload the encoder wrote returns the random
  number, whatever follows the two bytes.\<close>

lemma cr_roundtrip:
  assumes "nfc_ndef_ch_cr_rec_payload_encode random (Some (mem, cap)) = Inr (mem', n)" "unat cap \<le> length mem"
    and "rec_tnf r = TNF_WELL_KNOWN" "rec_type_length r = 2" "rec_type r = Some nfc_ndef_ch_cr_rec_type_field"
    and "rec_payload r = Payload_Bin \<lparr>bin_payload = Some mem', bin_payload_length = n\<rparr>"
  shows "nfc_ndef_ch_cr_rec_parse (Some r) True = Inr random"
proof -
  have "mem' = put_be16 random @ drop 2 mem" "unat n = 2"
    using writes_InrD [OF cr.enc_writes assms(2,1)] by simp_all
  then show ?thesis
    using assms(3-6) by (simp add: nfc_ndef_ch_cr_rec_parse_def ch_parse_guard_def nfc_ndef_ch_cr_rec_check_def
        rec_type_check_def nfc_ndef_ch_cr_rec_type_field_def mem_read_def word_less_nat_alt)
qed

theorem cr_roundtrip_witness:
  "nfc_ndef_ch_cr_rec_parse (Some \<lparr>rec_tnf = 1, rec_id_length = 0, rec_id = None, rec_type_length = 2,
     rec_type = Some [0x63, 0x72],
     rec_payload = Payload_Bin \<lparr>bin_payload = Some [0xBE, 0xEF, 0], bin_payload_length = 2\<rparr>\<rparr>) True = Inr 0xBEEF"
proof -
  have "nfc_ndef_ch_cr_rec_payload_encode 0xBEEF (Some ([0, 0, 0], 3)) = Inr ([0xBE, 0xEF, 0], 2)"
    by (simp add: nfc_ndef_ch_cr_rec_payload_encode_def put_be16_def mem_write_def)
  from cr_roundtrip [OF this] show ?thesis by (simp add: nfc_ndef_ch_cr_rec_type_field_def)
qed

text \<open>The type field of a record begins with the type of a Handover Select, Request, Mediation or
  Initiate record, which are \<open>Hs\<close>, \<open>Hr\<close>, \<open>Hm\<close> and \<open>Hi\<close>.\<close>

lemma ch_rec_check_types:
  assumes "rec_tnf d = TNF_WELL_KNOWN" "rec_type_length d = 2" "rec_type d = Some ty"
    and "take 2 ty \<in> {[0x48, 0x73], [0x48, 0x72], [0x48, 0x6D], [0x48, 0x69]}"
  shows "ch_rec_check (Some d) = Inr True"
proof -
  have "length (take 2 ty) = 2" using assms(4) by (elim insertE emptyE) (simp_all del: length_take)
  then have "2 \<le> length ty" by simp
  then show ?thesis using assms
    by (auto simp: ch_rec_check_def mem_read_def nfc_ndef_ch_hs_rec_type_field_def nfc_ndef_ch_hr_rec_type_field_def
        nfc_ndef_ch_hm_rec_type_field_def nfc_ndef_ch_hi_rec_type_field_def)
qed

text \<open>C17: Parsing a handover record of any of the four types (Select, Request, Mediation, Initiate) whose
  payload was encoded from a version and a non-empty message of local records returns the version (its low
  nibbles) and descriptors of the same local records, when the result buffer has fewer than 65536
  bytes and a slot for each of them; the whole result buffer is accounted for.\<close>

theorem ch_rec_roundtrip:
  assumes nb: "net_buf_ok ops" "unat rlen < 65536" "unat (sz_ch abi) \<le> unat rlen"
    and m: "ch_local_records ch = Some m" "msg_emits m rs" "list_all emits rs" "list_all parseable rs" "rs \<noteq> []"
    and r: "abi_ok mabi" "nfc_ndef_msg_parser_memo_resolve mabi (rlen - sz_ch abi) = Inr (n, msg0, used)"
      "length rs \<le> unat n"
    and e: "nfc_ndef_ch_rec_payload_encode ch (Some (mem, cap)) = Inr (mem', k)" "unat cap \<le> length mem"
      "1 + length (msg_bytes rs) < 2 ^ 32"
    and d: "rec_tnf d = TNF_WELL_KNOWN" "rec_type_length d = 2" "rec_type d = Some ty"
      "take 2 ty \<in> {[0x48, 0x73], [0x48, 0x72], [0x48, 0x6D], [0x48, 0x69]}"
      "rec_payload d = Payload_Bin \<lparr>bin_payload = Some mem', bin_payload_length = k\<rparr>"
  shows "\<exists>ch' msg' rs'. nfc_ndef_ch_rec_parse abi mabi recs0 ops (Some d) (Some rlen) = Inr (ch', rlen) \<and>
    ch_major_version ch' = ch_major_version ch AND 0x0F \<and> ch_minor_version ch' = ch_minor_version ch AND 0x0F \<and>
    ch_local_records ch' = Some msg' \<and> msg_records msg' = map Some rs' \<and> list_all2 describes rs' rs"
proof -
  have w: "writes (nfc_ndef_ch_rec_payload_encode ch) (ch_version_byte ch # msg_bytes rs)"
    using e(3) by (intro ch_encode_writes [OF m(1) msg_encode_writes [OF m(2,3)]]) simp
  have x: "mem' = ch_version_byte ch # msg_bytes rs @ drop (1 + length (msg_bytes rs)) mem"
      "unat k = 1 + length (msg_bytes rs)"
    using writes_InrD [OF w e(2,1)] by simp_all
  have "k = of_nat (1 + length (msg_bytes rs))" by (metis x(2) word_of_nat_unat_id)
  then show ?thesis
    using ch_payload_parse_bytes [OF nb m(2,4,5) r, of "\<lparr>bin_payload = Some mem', bin_payload_length = k\<rparr>" ch
        "drop (1 + length (msg_bytes rs)) mem" recs0] x(1) e(3) d(5)
    by (simp add: nfc_ndef_ch_rec_parse_def ch_parse_guard_def ch_rec_check_types [OF d(1-4)])
qed

definition sample_ch_rec :: nfc_ndef_ch_rec where
  "sample_ch_rec = \<lparr>ch_major_version = 1, ch_minor_version = 5, ch_local_records = Some sample_msg\<rparr>"

lemma sample_parseable: "list_all parseable sample_emitted" "sample_emitted \<noteq> []"
  using sample_record_ok(1)
  by (simp_all add: sample_emitted_def parseable_def record_tnf_ok_def, simp add: sample_record_def)

theorem ch_rec_roundtrip_witness:
  "\<exists>mem' k ch' msg' rs'. nfc_ndef_ch_rec_payload_encode sample_ch_rec (Some (replicate 40 0, 40)) = Inr (mem', k) \<and>
     nfc_ndef_ch_rec_parse \<lparr>sz_hc = 16, sz_ac = 20, sz_ac_ref = 8, sz_ch = 8\<rparr> sample_abi (\<lambda>_. sample_record)
       counting_net_buf (Some \<lparr>rec_tnf = TNF_WELL_KNOWN, rec_id_length = 0, rec_id = None, rec_type_length = 2,
         rec_type = Some [0x48, 0x6D],
         rec_payload = Payload_Bin \<lparr>bin_payload = Some mem', bin_payload_length = k\<rparr>\<rparr>) (Some 108) =
       Inr (ch', 108) \<and> ch_major_version ch' = 1 \<and> ch_minor_version ch' = 5 \<and>
     ch_local_records ch' = Some msg' \<and> msg_records msg' = map Some rs' \<and> list_all2 describes rs' sample_emitted"
proof -
  have l: "ch_local_records sample_ch_rec = Some sample_msg" by (simp add: sample_ch_rec_def)
  have w: "writes (nfc_ndef_ch_rec_payload_encode sample_ch_rec) (ch_version_byte sample_ch_rec # msg_bytes sample_emitted)"
    by (intro ch_encode_writes [OF l msg_encode_writes [OF sample_msg_ok(1,2)]]) (simp add: sample_msg_bytes)
  obtain mem' k where e: "nfc_ndef_ch_rec_payload_encode sample_ch_rec (Some (replicate 40 0, 40)) = Inr (mem', k)"
    using writes_fits [OF w, of 40 "replicate 40 0"] by (simp add: sample_msg_bytes)
  obtain msg0 where r: "nfc_ndef_msg_parser_memo_resolve sample_abi 100 = Inr (2, msg0, 84)"
    using sample_abi_ok(2) by blast
  show ?thesis
    using ch_rec_roundtrip [OF counting_net_buf_ok _ _ l sample_msg_ok(1,2) sample_parseable sample_abi_ok(1), of 108
        "\<lparr>sz_hc = 16, sz_ac = 20, sz_ac_ref = 8, sz_ch = 8\<rparr>" 2 msg0 84 "replicate 40 0" 40 mem' k
        "\<lparr>rec_tnf = TNF_WELL_KNOWN, rec_id_length = 0, rec_id = None, rec_type_length = 2,
         rec_type = Some [0x48, 0x6D],
         rec_payload = Payload_Bin \<lparr>bin_payload = Some mem', bin_payload_length = k\<rparr>\<rparr>" "[0x48, 0x6D]" "\<lambda>_. sample_record"] r e
    by (simp add: sample_msg_bytes) (simp add: sample_ch_rec_def sample_emitted_def)
qed

text \<open>The Alternative Carrier parser succeeds only on records without auxiliary data references, and
  then leaves the result buffer length as it was: the NULL check after the allocation of the
  auxiliary references is inverted, so a record that has them is rejected with -ENOMEM when there is
  memory for them.\<close>

lemma ac_parse_only_without_aux:
  assumes "ac_rec_payload_parse abi ops bin rlen = Inr (ac, n)"
  shows "ac_aux_data_ref_cnt ac = 0 \<and> ac_aux_data_ref ac = None \<and> n = rlen"
  using assms by (auto simp: ac_rec_payload_parse_def Let_def resE split: option.splits if_splits prod.splits)

lemma ac_parse_only_without_aux_witness:
  "\<exists>ac. ac_rec_payload_parse \<lparr>sz_hc = 16, sz_ac = 20, sz_ac_ref = 8, sz_ch = 8\<rparr> counting_net_buf
       \<lparr>bin_payload = Some [1, 1, 0x30, 0], bin_payload_length = 4\<rparr> 64 = Inr (ac, 64) \<and>
     ac_carrier_data_ref ac = \<lparr>ref_length = 1, ref_data = Some [0x30]\<rparr> \<and> ac_aux_data_ref_cnt ac = 0"
proof -
  have p: "ac_rec_payload_parse \<lparr>sz_hc = 16, sz_ac = 20, sz_ac_ref = 8, sz_ch = 8\<rparr> counting_net_buf
     \<lparr>bin_payload = Some [1, 1, 0x30, 0], bin_payload_length = 4\<rparr> 64 =
   Inr (\<lparr>ac_cps = 1, ac_carrier_data_ref = \<lparr>ref_length = 1, ref_data = Some [0x30]\<rparr>, ac_max_aux_data_ref_cnt = 0,
        ac_aux_data_ref_cnt = 0, ac_aux_data_ref = None\<rparr>, 64)"
    by (simp add: ac_rec_payload_parse_def memory_allocate_def counting_net_buf_def ptr_byte_def mem_byte_def
        adv_def ac_reference_parse_def mem_read_def)
  show ?thesis using ac_parse_only_without_aux [OF p] p by auto
qed

end
