(* ===== verification/Ndef_Le_Oob.thy ===== *)
theory Ndef_Le_Oob
  imports Ndef_Msg Ndef_Alloc
begin

text \<open>
  Bluetooth LE OOB records: the payload constructor (\<open>subsys/nfc/ndef/le_oob_rec.c\<close>), the message
  that holds one record (\<open>nfc_ndef_ch_msg_le_oob_encode\<close> of \<open>ch_msg.c\<close>) and the parser
  (\<open>le_oob_rec_parser.c\<close>).

  The payload is a sequence of advertising data structures. The AD type codes, the flag
  \<open>BT_LE_AD_NO_BREDR\<close> and the sizes of the Bluetooth types come from the Bluetooth host headers,
  which are not part of this repository: they are the parameters \<open>bt_params\<close>.
\<close>

section \<open>Parameters and data\<close>

record bt_params =
  BT_DATA_LE_BT_DEVICE_ADDRESS :: u8
  BT_DATA_LE_ROLE :: u8
  BT_DATA_SM_TK_VALUE :: u8
  BT_DATA_LE_SC_CONFIRM_VALUE :: u8
  BT_DATA_LE_SC_RANDOM_VALUE :: u8
  BT_DATA_GAP_APPEARANCE :: u8
  BT_DATA_FLAGS :: u8
  BT_DATA_NAME_SHORTENED :: u8
  BT_DATA_NAME_COMPLETE :: u8
  BT_LE_AD_NO_BREDR :: u8
  sizeof_addr_a :: u8
  sizeof_addr :: u8
  sizeof_role :: u8
  sizeof_sc_c :: u8
  sizeof_sc_r :: u8
  sizeof_sc :: u32
  sizeof_oob_desc :: u32

record bt_addr_le_t =
  addr_type :: u8
  addr_a :: "u8 list"

record bt_le_oob_sc_data =
  sc_r :: "u8 list"
  sc_c :: "u8 list"

abbreviation (input) NFC_NDEF_LE_OOB_REC_TK_LEN :: u8 where "NFC_NDEF_LE_OOB_REC_TK_LEN \<equiv> 16"
abbreviation (input) NFC_NDEF_LE_OOB_REC_LE_ROLE_OPTIONS_NUM :: u32 where
  "NFC_NDEF_LE_OOB_REC_LE_ROLE_OPTIONS_NUM \<equiv> 4"

text \<open>Each field of the descriptor is a pointer; \<open>None\<close> is NULL. The local name points to a string
  that ends with a zero byte.\<close>

record nfc_ndef_le_oob_rec_payload_desc =
  oob_addr :: "bt_addr_le_t option"
  oob_le_role :: "u32 option"
  oob_le_sc_data :: "bt_le_oob_sc_data option"
  oob_tk_value :: ptr
  oob_appearance :: "u16 option"
  oob_flags :: "u8 option"
  oob_local_name :: ptr

record bt_data =
  bt_type :: u8
  bt_data_len :: u8
  bt_data_ptr :: ptr

section \<open>The payload constructor\<close>

text \<open>The output cursor: the memory, the offset of \<open>*buff\<close> and the remaining size.\<close>

type_synonym cursor = "u8 list \<times> nat \<times> u32"

definition bt_data_encode :: "bt_data \<Rightarrow> cursor \<Rightarrow> cursor res" where
  "bt_data_encode ad = (\<lambda>(mem, off, size).
     let ad_len = ucast (bt_data_len ad) + 1 + 1 in
     if size < ad_len then Inl ENOMEM
     else bindE (mem_read (bt_data_ptr ad) (unat (bt_data_len ad))) (\<lambda>data.
          bindE (mem_write mem off ([bt_data_len ad + 1, bt_type ad] @ data)) (\<lambda>mem'.
          Inr (mem', off + unat (bt_data_len ad) + 2, size - ad_len))))"

text \<open>The address buffer has the size of \<open>bt_addr_le_t\<close>; the device address and the address type must
  fill it.\<close>

definition ble_device_addr_encode :: "bt_params \<Rightarrow> bt_addr_le_t option \<Rightarrow> cursor \<Rightarrow> cursor res" where
  "ble_device_addr_encode P dev_addr cur = (case dev_addr of None \<Rightarrow> Inl EINVAL | Some a \<Rightarrow>
     bt_data_encode \<lparr>bt_type = BT_DATA_LE_BT_DEVICE_ADDRESS P, bt_data_len = sizeof_addr P,
       bt_data_ptr = Some (addr_a a @ [addr_type a])\<rparr> cur)"

definition le_role_encode :: "bt_params \<Rightarrow> u32 \<Rightarrow> cursor \<Rightarrow> cursor res" where
  "le_role_encode P le_role cur =
     (if le_role \<ge> NFC_NDEF_LE_OOB_REC_LE_ROLE_OPTIONS_NUM then Inl EINVAL
      else bt_data_encode \<lparr>bt_type = BT_DATA_LE_ROLE P, bt_data_len = 1, bt_data_ptr = Some [ucast le_role]\<rparr> cur)"

text \<open>\<open>strlen\<close> of a pointer; a string without a terminating zero byte is undefined behaviour.\<close>

definition c_strlen :: "u8 list \<Rightarrow> nat res" where
  "c_strlen xs = (if 0 \<in> set xs then Inr (length (takeWhile (\<lambda>b. b \<noteq> 0) xs)) else Inl UB)"

definition nfc_ndef_le_oob_rec_payload_constructor ::
    "bt_params \<Rightarrow> nfc_ndef_le_oob_rec_payload_desc option \<Rightarrow> payload_constructor_t" where
  "nfc_ndef_le_oob_rec_payload_constructor P payload_desc buf =
     (case payload_desc of None \<Rightarrow> Inl EINVAL | Some d \<Rightarrow>
      case oob_le_role d of None \<Rightarrow> Inl EINVAL | Some role \<Rightarrow>
      if oob_addr d = None then Inl EINVAL else
      case buf of None \<Rightarrow> Inl UB | Some (mem, len) \<Rightarrow>
      bindE (ble_device_addr_encode P (oob_addr d) (mem, 0, len)) (\<lambda>cur.
      bindE (le_role_encode P role cur) (\<lambda>cur.
      bindE (case oob_tk_value d of None \<Rightarrow> Inr cur | Some tk \<Rightarrow>
               bt_data_encode \<lparr>bt_type = BT_DATA_SM_TK_VALUE P, bt_data_len = NFC_NDEF_LE_OOB_REC_TK_LEN,
                 bt_data_ptr = Some tk\<rparr> cur) (\<lambda>cur.
      bindE (case oob_le_sc_data d of None \<Rightarrow> Inr cur | Some sc \<Rightarrow>
               bindE (bt_data_encode \<lparr>bt_type = BT_DATA_LE_SC_CONFIRM_VALUE P, bt_data_len = sizeof_sc_c P,
                        bt_data_ptr = Some (sc_c sc)\<rparr> cur) (\<lambda>cur.
               bt_data_encode \<lparr>bt_type = BT_DATA_LE_SC_RANDOM_VALUE P, bt_data_len = sizeof_sc_r P,
                 bt_data_ptr = Some (sc_r sc)\<rparr> cur)) (\<lambda>cur.
      bindE (case oob_appearance d of None \<Rightarrow> Inr cur | Some a \<Rightarrow>
               bt_data_encode \<lparr>bt_type = BT_DATA_GAP_APPEARANCE P, bt_data_len = 2,
                 bt_data_ptr = Some (put_le16 a)\<rparr> cur) (\<lambda>cur.
      bindE (case oob_flags d of None \<Rightarrow> Inr cur | Some f \<Rightarrow>
               if f AND BT_LE_AD_NO_BREDR P = 0 then Inl EINVAL
               else bt_data_encode \<lparr>bt_type = BT_DATA_FLAGS P, bt_data_len = 1, bt_data_ptr = Some [f]\<rparr> cur) (\<lambda>cur.
      bindE (case oob_local_name d of None \<Rightarrow> Inr cur | Some name \<Rightarrow>
               bindE (c_strlen name) (\<lambda>n.
               bt_data_encode \<lparr>bt_type = BT_DATA_NAME_COMPLETE P, bt_data_len = of_nat n,
                 bt_data_ptr = Some name\<rparr> cur)) (\<lambda>(mem, off, rem_size).
      Inr (mem, len - rem_size)))))))))"

text \<open>\<open>nfc_ndef_le_oob_rec_type_field\<close>: the bytes of the media type.\<close>

definition nfc_ndef_le_oob_rec_type_field :: "u8 list" where
  "nfc_ndef_le_oob_rec_type_field = map of_char ''application/vnd.bluetooth.le.oob''"

text \<open>\<open>NFC_NDEF_LE_OOB_RECORD_DESC_DEF\<close>: the payload ID is one byte, absent when 0.\<close>

definition NFC_NDEF_LE_OOB_RECORD_DESC_DEF ::
    "bt_params \<Rightarrow> u8 \<Rightarrow> nfc_ndef_le_oob_rec_payload_desc option \<Rightarrow> nfc_ndef_record_desc" where
  "NFC_NDEF_LE_OOB_RECORD_DESC_DEF P payload_id d =
     \<lparr>rec_tnf = TNF_MEDIA_TYPE, rec_id_length = (if payload_id \<noteq> 0 then 1 else 0), rec_id = Some [payload_id],
      rec_type_length = 32, rec_type = Some nfc_ndef_le_oob_rec_type_field,
      rec_payload = Payload_Fun (nfc_ndef_le_oob_rec_payload_constructor P d)\<rparr>"

definition nfc_ndef_ch_msg_le_oob_encode ::
    "bt_params \<Rightarrow> nfc_ndef_le_oob_rec_payload_desc option \<Rightarrow> payload_constructor_t" where
  "nfc_ndef_ch_msg_le_oob_encode P oob buf =
     bindE (nfc_ndef_msg_record_add (NFC_NDEF_MSG_DEF [None]) (Some (NFC_NDEF_LE_OOB_RECORD_DESC_DEF P 0 oob)))
       (\<lambda>msg. nfc_ndef_msg_encode (Some msg) buf)"

section \<open>What the constructor writes\<close>

text \<open>An advertising data structure: its type and its data.\<close>

type_synonym ad = "u8 \<times> u8 list"

definition ad_bytes :: "ad \<Rightarrow> u8 list" where
  "ad_bytes = (\<lambda>(t, data). [of_nat (length data) + 1, t] @ data)"

definition oob_ads :: "bt_params \<Rightarrow> nfc_ndef_le_oob_rec_payload_desc \<Rightarrow> ad list" where
  "oob_ads P d =
     (case oob_addr d of None \<Rightarrow> [] | Some a \<Rightarrow> [(BT_DATA_LE_BT_DEVICE_ADDRESS P, addr_a a @ [addr_type a])]) @
     (case oob_le_role d of None \<Rightarrow> [] | Some r \<Rightarrow> [(BT_DATA_LE_ROLE P, [ucast r])]) @
     (case oob_tk_value d of None \<Rightarrow> [] | Some tk \<Rightarrow> [(BT_DATA_SM_TK_VALUE P, take 16 tk)]) @
     (case oob_le_sc_data d of None \<Rightarrow> [] | Some sc \<Rightarrow>
        [(BT_DATA_LE_SC_CONFIRM_VALUE P, sc_c sc), (BT_DATA_LE_SC_RANDOM_VALUE P, sc_r sc)]) @
     (case oob_appearance d of None \<Rightarrow> [] | Some a \<Rightarrow> [(BT_DATA_GAP_APPEARANCE P, put_le16 a)]) @
     (case oob_flags d of None \<Rightarrow> [] | Some f \<Rightarrow> [(BT_DATA_FLAGS P, [f])]) @
     (case oob_local_name d of None \<Rightarrow> [] | Some name \<Rightarrow>
        [(BT_DATA_NAME_COMPLETE P, takeWhile (\<lambda>b. b \<noteq> 0) name)])"

definition oob_body :: "bt_params \<Rightarrow> nfc_ndef_le_oob_rec_payload_desc \<Rightarrow> u8 list" where
  "oob_body P d = concat (map ad_bytes (oob_ads P d))"

definition oob_ok :: "bt_params \<Rightarrow> nfc_ndef_le_oob_rec_payload_desc \<Rightarrow> bool" where
  "oob_ok P d \<longleftrightarrow>
     (\<exists>a. oob_addr d = Some a \<and> length (addr_a a) = unat (sizeof_addr_a P)) \<and>
     unat (sizeof_addr P) = unat (sizeof_addr_a P) + 1 \<and> unat (sizeof_addr P) < 255 \<and>
     (\<exists>r. oob_le_role d = Some r \<and> r < NFC_NDEF_LE_OOB_REC_LE_ROLE_OPTIONS_NUM) \<and>
     (\<forall>tk. oob_tk_value d = Some tk \<longrightarrow> 16 \<le> length tk) \<and>
     (\<forall>sc. oob_le_sc_data d = Some sc \<longrightarrow> length (sc_c sc) = unat (sizeof_sc_c P) \<and>
        length (sc_r sc) = unat (sizeof_sc_r P) \<and> unat (sizeof_sc_c P) < 255 \<and> unat (sizeof_sc_r P) < 255) \<and>
     (\<forall>f. oob_flags d = Some f \<longrightarrow> f AND BT_LE_AD_NO_BREDR P \<noteq> 0) \<and>
     (\<forall>name. oob_local_name d = Some name \<longrightarrow> 0 \<in> set name \<and> length (takeWhile (\<lambda>b. b \<noteq> 0) name) < 255)"

definition ad_of :: "ad \<Rightarrow> bt_data" where
  "ad_of = (\<lambda>(t, data). \<lparr>bt_type = t, bt_data_len = of_nat (length data), bt_data_ptr = Some data\<rparr>)"

definition ad_ok :: "ad \<Rightarrow> bool" where
  "ad_ok = (\<lambda>(t, data). length data < 255)"

lemma length_ad_bytes: "length (ad_bytes (t, data)) = length data + 2"
  by (simp add: ad_bytes_def)

text \<open>Encoding depends only on the bytes that are copied.\<close>

lemma bt_data_encode_take:
  assumes "unat n \<le> length xs"
  shows "bt_data_encode \<lparr>bt_type = t, bt_data_len = n, bt_data_ptr = Some xs\<rparr> =
    bt_data_encode (ad_of (t, take (unat n) xs))"
  using assms by (auto simp: bt_data_encode_def ad_of_def Let_def mem_simps split_beta)

lemma bt_data_encode_step:
  fixes size :: u32
  assumes ok: "ad_ok ad" and cap: "off + unat size \<le> length mem"
  shows "bt_data_encode (ad_of ad) (mem, off, size) =
    (if length (ad_bytes ad) \<le> unat size
     then Inr (take off mem @ ad_bytes ad @ drop (off + length (ad_bytes ad)) mem,
               off + length (ad_bytes ad), size - of_nat (length (ad_bytes ad)))
     else Inl ENOMEM)"
proof -
  obtain t data where ad: "ad = (t, data)" by (cases ad)
  have l: "length data < 255" using ok by (simp add: ad ad_ok_def)
  then have u: "unat (of_nat (length data) :: u8) = length data" by (simp add: unat_of_nat_u8)
  have w: "ucast (of_nat (length data) :: u8) + 1 + 1 = (of_nat (length (ad_bytes ad)) :: u32)"
    by (simp add: ad length_ad_bytes) (metis u of_nat_unat)
  have un: "unat (of_nat (length (ad_bytes ad)) :: u32) = length (ad_bytes ad)"
    by (rule unat_of_nat_u32) (use l in \<open>simp add: ad length_ad_bytes\<close>)
  show ?thesis
  proof (cases "length (ad_bytes ad) \<le> unat size")
    case True
    then have "mem_write mem off (ad_bytes ad) = Inr (take off mem @ ad_bytes ad @ drop (off + length (ad_bytes ad)) mem)"
      using cap by (simp add: mem_simps)
    moreover have "[of_nat (length data) + 1, t] @ data = ad_bytes ad" by (simp add: ad ad_bytes_def)
    moreover have "\<not> size < of_nat (length (ad_bytes ad))" using True un by (simp add: word_less_nat_alt)
    ultimately show ?thesis
      using True u w by (simp add: bt_data_encode_def ad_of_def ad mem_simps Let_def length_ad_bytes)
  next
    case False
    then have "size < of_nat (length (ad_bytes ad))" using un by (simp add: word_less_nat_alt)
    then show ?thesis using False w by (simp add: bt_data_encode_def ad_of_def ad Let_def)
  qed
qed

lemma ads_encode:
  fixes size :: u32
  assumes "list_all ad_ok ads" "off + unat size \<le> length mem"
  shows "foldE (\<lambda>cur ad. bt_data_encode (ad_of ad) cur) (mem, off, size) ads =
    (let bs = concat (map ad_bytes ads) in
     if length bs \<le> unat size
     then Inr (take off mem @ bs @ drop (off + length bs) mem, off + length bs, size - of_nat (length bs))
     else Inl ENOMEM)"
  using assms
proof (induction ads arbitrary: mem off size)
  case Nil
  then show ?case by simp
next
  case (Cons ad ads)
  let ?b = "ad_bytes ad" and ?rest = "concat (map ad_bytes ads)"
  have ok: "ad_ok ad" "list_all ad_ok ads" using Cons.prems by simp_all
  show ?case
  proof (cases "length ?b \<le> unat size")
    case True
    let ?mem = "take off mem @ ?b @ drop (off + length ?b) mem" and ?size = "size - of_nat (length ?b)"
    have u: "unat ?size = unat size - length ?b"
      using True unat_u32_lt [of size] by (simp add: unat_sub_le unat_of_nat_u32 word_le_nat_alt)
    have l: "off + length ?b + unat ?size \<le> length ?mem" using True Cons.prems u by simp
    have t: "take (off + length ?b) ?mem = take off mem @ ?b"
      "drop (off + length ?b + n) ?mem = drop (off + length ?b + n) mem" for n
      using Cons.prems True by (simp_all add: ac_simps)
    have c: "length ?rest \<le> unat size - length ?b \<longleftrightarrow> length ?b + length ?rest \<le> unat size"
      using True by auto
    have "foldE (\<lambda>cur ad. bt_data_encode (ad_of ad) cur) (mem, off, size) (ad # ads) =
        foldE (\<lambda>cur ad. bt_data_encode (ad_of ad) cur) (?mem, off + length ?b, ?size) ads"
      using bt_data_encode_step [OF ok(1) Cons.prems(2)] True by simp
    then show ?thesis
      unfolding Cons.IH [OF ok(2) l] Let_def u c t by (simp add: add.assoc diff_diff_eq)
  next
    case False
    then show ?thesis using bt_data_encode_step [OF ok(1) Cons.prems(2)] by (simp add: Let_def)
  qed
qed

text \<open>On a well-formed descriptor the constructor encodes the AD structures one after the other.\<close>

lemma oob_constructor_fold:
  assumes ok: "oob_ok P d"
  shows "nfc_ndef_le_oob_rec_payload_constructor P (Some d) (Some (mem, len)) =
    bindE (foldE (\<lambda>cur ad. bt_data_encode (ad_of ad) cur) (mem, 0, len) (oob_ads P d))
      (\<lambda>(mem, off, rem_size). Inr (mem, len - rem_size))"
proof -
  let ?enc = "\<lambda>cur ad. bt_data_encode (ad_of ad) cur"
  obtain a r where ar: "oob_addr d = Some a" "length (addr_a a) = unat (sizeof_addr_a P)"
      "oob_le_role d = Some r" "\<not> r \<ge> 4" "unat (sizeof_addr P) = unat (sizeof_addr_a P) + 1"
    using ok by (auto simp: oob_ok_def not_le)
  have addr: "ble_device_addr_encode P (oob_addr d) cur =
      ?enc cur (BT_DATA_LE_BT_DEVICE_ADDRESS P, addr_a a @ [addr_type a])" for cur
    using ar by (simp add: ble_device_addr_encode_def bt_data_encode_take)
  have role: "le_role_encode P r cur = ?enc cur (BT_DATA_LE_ROLE P, [ucast r])" for cur
    using ar by (simp add: le_role_encode_def bt_data_encode_take)
  have tk: "(case oob_tk_value d of None \<Rightarrow> Inr cur | Some tk \<Rightarrow>
      bt_data_encode \<lparr>bt_type = BT_DATA_SM_TK_VALUE P, bt_data_len = NFC_NDEF_LE_OOB_REC_TK_LEN, bt_data_ptr = Some tk\<rparr> cur) =
    foldE ?enc cur (case oob_tk_value d of None \<Rightarrow> [] | Some tk \<Rightarrow> [(BT_DATA_SM_TK_VALUE P, take 16 tk)])" for cur
    using ok by (auto simp: oob_ok_def bt_data_encode_take split: option.split)
  have sc: "(case oob_le_sc_data d of None \<Rightarrow> Inr cur | Some sc \<Rightarrow>
      bindE (bt_data_encode \<lparr>bt_type = BT_DATA_LE_SC_CONFIRM_VALUE P, bt_data_len = sizeof_sc_c P,
          bt_data_ptr = Some (sc_c sc)\<rparr> cur) (\<lambda>cur.
        bt_data_encode \<lparr>bt_type = BT_DATA_LE_SC_RANDOM_VALUE P, bt_data_len = sizeof_sc_r P,
          bt_data_ptr = Some (sc_r sc)\<rparr> cur)) =
    foldE ?enc cur (case oob_le_sc_data d of None \<Rightarrow> [] | Some sc \<Rightarrow>
      [(BT_DATA_LE_SC_CONFIRM_VALUE P, sc_c sc), (BT_DATA_LE_SC_RANDOM_VALUE P, sc_r sc)])" for cur
    using ok by (auto simp: oob_ok_def bt_data_encode_take split: option.split)
  have ap: "(case oob_appearance d of None \<Rightarrow> Inr cur | Some a \<Rightarrow>
      bt_data_encode \<lparr>bt_type = BT_DATA_GAP_APPEARANCE P, bt_data_len = 2, bt_data_ptr = Some (put_le16 a)\<rparr> cur) =
    foldE ?enc cur (case oob_appearance d of None \<Rightarrow> [] | Some a \<Rightarrow> [(BT_DATA_GAP_APPEARANCE P, put_le16 a)])" for cur
    by (auto simp: bt_data_encode_take split: option.split)
  have fl: "(case oob_flags d of None \<Rightarrow> Inr cur | Some f \<Rightarrow>
      if f AND BT_LE_AD_NO_BREDR P = 0 then Inl EINVAL
      else bt_data_encode \<lparr>bt_type = BT_DATA_FLAGS P, bt_data_len = 1, bt_data_ptr = Some [f]\<rparr> cur) =
    foldE ?enc cur (case oob_flags d of None \<Rightarrow> [] | Some f \<Rightarrow> [(BT_DATA_FLAGS P, [f])])" for cur
    using ok by (auto simp: oob_ok_def bt_data_encode_take split: option.split)
  have nm: "(case oob_local_name d of None \<Rightarrow> Inr cur | Some name \<Rightarrow>
      bindE (c_strlen name) (\<lambda>n.
        bt_data_encode \<lparr>bt_type = BT_DATA_NAME_COMPLETE P, bt_data_len = of_nat n, bt_data_ptr = Some name\<rparr> cur)) =
    foldE ?enc cur (case oob_local_name d of None \<Rightarrow> [] | Some name \<Rightarrow>
      [(BT_DATA_NAME_COMPLETE P, takeWhile (\<lambda>b. b \<noteq> 0) name)])" for cur
  proof (cases "oob_local_name d")
    case (Some name)
    then have n: "0 \<in> set name" "length (takeWhile (\<lambda>b. b \<noteq> 0) name) < 255"
      using ok by (simp_all add: oob_ok_def)
    then have "unat (of_nat (length (takeWhile (\<lambda>b. b \<noteq> 0) name)) :: u8) = length (takeWhile (\<lambda>b. b \<noteq> 0) name)"
      by (simp add: unat_of_nat_u8)
    moreover have "take (length (takeWhile (\<lambda>b. b \<noteq> 0) name)) name = takeWhile (\<lambda>b. b \<noteq> 0) name"
      by (metis append_eq_conv_conj takeWhile_dropWhile_id)
    ultimately show ?thesis using n Some length_takeWhile_le [of "\<lambda>b. b \<noteq> 0" name]
      by (simp add: c_strlen_def bt_data_encode_take)
  qed simp
  show ?thesis
    unfolding nfc_ndef_le_oob_rec_payload_constructor_def option.case ar(3) prod.case tk sc ap fl nm role addr
      oob_ads_def foldE_append bindE_assoc
    by (simp add: ar(1) bindE_assoc foldE_append)
qed

lemma oob_ads_ok: "oob_ok P d \<Longrightarrow> list_all ad_ok (oob_ads P d)"
  by (auto simp: oob_ok_def oob_ads_def ad_ok_def split: option.split)

lemma length_oob_body: "oob_ok P d \<Longrightarrow> length (oob_body P d) < 2 ^ 32"
proof -
  assume ok: "oob_ok P d"
  have "length (concat (map ad_bytes ads)) \<le> 257 * length ads" if "list_all ad_ok ads" for ads
    using that by (induction ads) (auto simp: ad_ok_def length_ad_bytes)
  from this [OF oob_ads_ok [OF ok]] have "length (oob_body P d) \<le> 257 * length (oob_ads P d)"
    by (simp add: oob_body_def)
  moreover have "length (oob_ads P d) \<le> 8"
    by (simp add: oob_ads_def split: option.split)
  ultimately show ?thesis by simp
qed

interpretation oob: payload_writer "\<lambda>(P, d). nfc_ndef_le_oob_rec_payload_constructor P (Some d)"
    "\<lambda>(P, d). oob_ok P d" "\<lambda>(P, d). oob_body P d"
proof (unfold_locales, clarify)
  fix P d
  assume ok: "oob_ok P d"
  show "writes (nfc_ndef_le_oob_rec_payload_constructor P (Some d)) (oob_body P d)"
  proof (rule writesI [OF length_oob_body [OF ok]])
    fix mem :: "u8 list" and cap :: u32
    assume "unat cap \<le> length mem"
    then have e: "nfc_ndef_le_oob_rec_payload_constructor P (Some d) (Some (mem, cap)) =
        bindE (if length (oob_body P d) \<le> unat cap
          then Inr (oob_body P d @ drop (length (oob_body P d)) mem, length (oob_body P d),
                    cap - of_nat (length (oob_body P d)))
          else Inl ENOMEM) (\<lambda>(mem, off, rem_size). Inr (mem, cap - rem_size))"
      unfolding oob_constructor_fold [OF ok]
      using ads_encode [OF oob_ads_ok [OF ok], of 0 cap mem]
      by (simp add: oob_body_def Let_def)
    show "nfc_ndef_le_oob_rec_payload_constructor P (Some d) (Some (mem, cap)) =
        Inr (oob_body P d @ drop (length (oob_body P d)) mem, of_nat (length (oob_body P d)))"
      if "length (oob_body P d) \<le> unat cap"
      using that by (simp add: e)
    show "nfc_ndef_le_oob_rec_payload_constructor P (Some d) (Some (mem, cap)) = Inl ENOMEM \<or>
        nfc_ndef_le_oob_rec_payload_constructor P (Some d) (Some (mem, cap)) = Inl ENOSR"
      if "unat cap < length (oob_body P d)"
      using that by (simp add: e)
  qed
qed

end
