(* ===== verification/Ndef_Le_Oob_Parser.thy ===== *)
theory Ndef_Le_Oob_Parser
  imports Ndef_Le_Oob
begin

text \<open>
  The LE OOB record parser (\<open>subsys/nfc/ndef/le_oob_rec_parser.c\<close>).

  A decoder gets the result of the allocation of its target as a Boolean (not NULL) and returns the
  value it stores. The Security data structure is allocated uninitialised; \<open>sc0\<close> is what its
  memory held. The loop runs on fuel, because a payload length near \<open>2 ^ 32\<close> makes the 32-bit index
  wrap around; \<open>le_oob_loop_returns\<close> shows that the length of the payload is enough fuel otherwise.
\<close>

section \<open>Decoders\<close>

definition ble_device_address_decode :: "bt_params \<Rightarrow> u8 list \<Rightarrow> u32 \<Rightarrow> bool \<Rightarrow> bt_addr_le_t res" where
  "ble_device_address_decode P payload_buf payload_len addr =
     (if \<not> addr then Inl ENOMEM
      else if payload_len \<noteq> ucast (sizeof_addr P) then Inl EINVAL
      else bindE (mem_read (Some payload_buf) (unat (sizeof_addr_a P))) (\<lambda>a.
           bindE (mem_byte payload_buf (unat (sizeof_addr_a P))) (\<lambda>t.
           Inr \<lparr>addr_type = t, addr_a = a\<rparr>)))"

definition le_role_decode :: "bt_params \<Rightarrow> u8 list \<Rightarrow> u32 \<Rightarrow> bool \<Rightarrow> u32 res" where
  "le_role_decode P payload_buf payload_len le_role =
     (if \<not> le_role then Inl ENOMEM
      else if payload_len \<noteq> ucast (sizeof_role P) then Inl EINVAL
      else bindE (mem_byte payload_buf 0) (\<lambda>b. Inr (ucast b)))"

definition tk_value_decode :: "u8 list \<Rightarrow> u32 \<Rightarrow> bool \<Rightarrow> u8 list res" where
  "tk_value_decode payload_buf payload_len tk_value =
     (if \<not> tk_value then Inl ENOMEM
      else if payload_len \<noteq> ucast NFC_NDEF_LE_OOB_REC_TK_LEN then Inl EINVAL
      else mem_read (Some payload_buf) (unat NFC_NDEF_LE_OOB_REC_TK_LEN))"

definition le_sc_confirm_value_decode ::
    "bt_params \<Rightarrow> u8 list \<Rightarrow> u32 \<Rightarrow> bt_le_oob_sc_data option \<Rightarrow> bt_le_oob_sc_data res" where
  "le_sc_confirm_value_decode P payload_buf payload_len le_sc_data =
     (case le_sc_data of None \<Rightarrow> Inl ENOMEM | Some sc \<Rightarrow>
        if payload_len \<noteq> ucast (sizeof_sc_c P) then Inl EINVAL
        else bindE (mem_read (Some payload_buf) (unat (sizeof_sc_c P))) (\<lambda>c. Inr (sc\<lparr>sc_c := c\<rparr>)))"

definition le_sc_random_value_decode ::
    "bt_params \<Rightarrow> u8 list \<Rightarrow> u32 \<Rightarrow> bt_le_oob_sc_data option \<Rightarrow> bt_le_oob_sc_data res" where
  "le_sc_random_value_decode P payload_buf payload_len le_sc_data =
     (case le_sc_data of None \<Rightarrow> Inl ENOMEM | Some sc \<Rightarrow>
        if payload_len \<noteq> ucast (sizeof_sc_r P) then Inl EINVAL
        else bindE (mem_read (Some payload_buf) (unat (sizeof_sc_r P))) (\<lambda>r. Inr (sc\<lparr>sc_r := r\<rparr>)))"

definition appearance_decode :: "u8 list \<Rightarrow> u32 \<Rightarrow> bool \<Rightarrow> u16 res" where
  "appearance_decode payload_buf payload_len appearance =
     (if \<not> appearance then Inl ENOMEM
      else if payload_len \<noteq> 2 then Inl EINVAL else get_le16 payload_buf)"

definition flags_decode :: "u8 list \<Rightarrow> u32 \<Rightarrow> bool \<Rightarrow> u8 res" where
  "flags_decode payload_buf payload_len flags =
     (if \<not> flags then Inl ENOMEM
      else if payload_len \<noteq> 1 then Inl EINVAL else mem_byte payload_buf 0)"

section \<open>The parser\<close>

text \<open>An allocation whose target is filled by a decoder; the allocator of a failed allocation is
  unchanged.\<close>

definition alloc_for :: "'nb net_buf_ops \<Rightarrow> 'nb \<Rightarrow> u32 \<Rightarrow> 'nb \<times> bool" where
  "alloc_for ops nb n = (case memory_allocate ops nb n of None \<Rightarrow> (nb, False) | Some nb' \<Rightarrow> (nb', True))"

text \<open>The switch over the AD type.\<close>

definition le_oob_ad_decode ::
    "bt_params \<Rightarrow> 'nb net_buf_ops \<Rightarrow> bt_le_oob_sc_data \<Rightarrow> u8 \<Rightarrow> u8 list \<Rightarrow> u8 \<Rightarrow>
     'nb \<times> nfc_ndef_le_oob_rec_payload_desc \<Rightarrow> ('nb \<times> nfc_ndef_le_oob_rec_payload_desc) res" where
  "le_oob_ad_decode P ops sc0 ad_type ad_data ad_data_len = (\<lambda>(nb, d).
     if ad_type = BT_DATA_LE_BT_DEVICE_ADDRESS P then
       let (nb, ok) = alloc_for ops nb (ucast (sizeof_addr P)) in
       bindE (ble_device_address_decode P ad_data (ucast ad_data_len) ok) (\<lambda>a. Inr (nb, d\<lparr>oob_addr := Some a\<rparr>))
     else if ad_type = BT_DATA_LE_ROLE P then
       let (nb, ok) = alloc_for ops nb (ucast (sizeof_role P)) in
       bindE (le_role_decode P ad_data (ucast ad_data_len) ok) (\<lambda>r. Inr (nb, d\<lparr>oob_le_role := Some r\<rparr>))
     else if ad_type = BT_DATA_SM_TK_VALUE P then
       let (nb, ok) = alloc_for ops nb (ucast NFC_NDEF_LE_OOB_REC_TK_LEN) in
       bindE (tk_value_decode ad_data (ucast ad_data_len) ok) (\<lambda>tk. Inr (nb, d\<lparr>oob_tk_value := Some tk\<rparr>))
     else if ad_type = BT_DATA_LE_SC_CONFIRM_VALUE P \<or> ad_type = BT_DATA_LE_SC_RANDOM_VALUE P then
       let (nb, sc) = (case oob_le_sc_data d of Some sc \<Rightarrow> (nb, Some sc)
                       | None \<Rightarrow> let (nb, ok) = alloc_for ops nb (sizeof_sc P)
                                 in (nb, if ok then Some sc0 else None)) in
       bindE (if ad_type = BT_DATA_LE_SC_CONFIRM_VALUE P
              then le_sc_confirm_value_decode P ad_data (ucast ad_data_len) sc
              else le_sc_random_value_decode P ad_data (ucast ad_data_len) sc)
         (\<lambda>sc. Inr (nb, d\<lparr>oob_le_sc_data := Some sc\<rparr>))
     else if ad_type = BT_DATA_GAP_APPEARANCE P then
       let (nb, ok) = alloc_for ops nb 2 in
       bindE (appearance_decode ad_data (ucast ad_data_len) ok) (\<lambda>a. Inr (nb, d\<lparr>oob_appearance := Some a\<rparr>))
     else if ad_type = BT_DATA_FLAGS P then
       let (nb, ok) = alloc_for ops nb 1 in
       bindE (flags_decode ad_data (ucast ad_data_len) ok) (\<lambda>f. Inr (nb, d\<lparr>oob_flags := Some f\<rparr>))
     else if ad_type = BT_DATA_NAME_SHORTENED P \<or> ad_type = BT_DATA_NAME_COMPLETE P then
       case memory_allocate ops nb (ucast ad_data_len + 1) of None \<Rightarrow> Inl ENOMEM | Some nb \<Rightarrow>
       bindE (mem_read (Some ad_data) (unat ad_data_len)) (\<lambda>name.
       Inr (nb, d\<lparr>oob_local_name := Some (name @ [0])\<rparr>))
     else Inr (nb, d))"

text \<open>One round of the loop. The third component of the result is the new index.\<close>

definition le_oob_step ::
    "bt_params \<Rightarrow> 'nb net_buf_ops \<Rightarrow> bt_le_oob_sc_data \<Rightarrow> u8 list \<Rightarrow> u32 \<Rightarrow>
     'nb \<times> nfc_ndef_le_oob_rec_payload_desc \<Rightarrow> u32 \<Rightarrow> (('nb \<times> nfc_ndef_le_oob_rec_payload_desc) \<times> u32) res" where
  "le_oob_step P ops sc0 payload_buf payload_len st index =
     bindE (mem_byte payload_buf (unat index)) (\<lambda>ad_len.
     let index = index + 1 in
     if ad_len = 1 \<or> index + ucast ad_len > payload_len then Inl EINVAL
     else bindE (mem_byte payload_buf (unat index)) (\<lambda>ad_type.
          bindE (le_oob_ad_decode P ops sc0 ad_type (drop (unat index + 1) payload_buf) (ad_len - 1) st) (\<lambda>st.
          Inr (st, index + ucast ad_len))))"

fun le_oob_loop ::
    "nat \<Rightarrow> bt_params \<Rightarrow> 'nb net_buf_ops \<Rightarrow> bt_le_oob_sc_data \<Rightarrow> u8 list \<Rightarrow> u32 \<Rightarrow>
     'nb \<times> nfc_ndef_le_oob_rec_payload_desc \<Rightarrow> u32 \<Rightarrow> ('nb \<times> nfc_ndef_le_oob_rec_payload_desc) res option" where
  "le_oob_loop 0 P ops sc0 payload_buf payload_len st index = None"
| "le_oob_loop (Suc fuel) P ops sc0 payload_buf payload_len st index =
     (if index < payload_len then
        case le_oob_step P ops sc0 payload_buf payload_len st index of
          Inl e \<Rightarrow> Some (Inl e)
        | Inr (st, index) \<Rightarrow> le_oob_loop fuel P ops sc0 payload_buf payload_len st index
      else Some (Inr st))"

definition empty_oob_desc :: nfc_ndef_le_oob_rec_payload_desc where
  "empty_oob_desc = \<lparr>oob_addr = None, oob_le_role = None, oob_le_sc_data = None, oob_tk_value = None,
     oob_appearance = None, oob_flags = None, oob_local_name = None\<rparr>"

definition nfc_ndef_le_oob_rec_payload_parse ::
    "nat \<Rightarrow> bt_params \<Rightarrow> 'nb net_buf_ops \<Rightarrow> bt_le_oob_sc_data \<Rightarrow> ptr \<Rightarrow> u32 \<Rightarrow> u32 \<Rightarrow>
     (nfc_ndef_le_oob_rec_payload_desc \<times> u32) res option" where
  "nfc_ndef_le_oob_rec_payload_parse fuel P ops sc0 payload_buf payload_len result_buf_len =
     (case payload_buf of None \<Rightarrow> Some (Inl EINVAL) | Some buf \<Rightarrow>
      case memory_allocate ops (nb_init ops result_buf_len) (sizeof_oob_desc P) of
        None \<Rightarrow> Some (Inl ENOMEM)
      | Some nb \<Rightarrow>
          map_option (\<lambda>r. bindE r (\<lambda>(nb, d). Inr (d, result_buf_len - nb_tailroom ops nb)))
            (le_oob_loop fuel P ops sc0 buf payload_len (nb, empty_oob_desc) 0))"

text \<open>\<open>memcmp\<close> with the type field reads as many bytes as the type has; the type pointer of the record
  must designate that many.\<close>

definition nfc_ndef_le_oob_rec_check :: "nfc_ndef_record_desc option \<Rightarrow> bool res" where
  "nfc_ndef_le_oob_rec_check rec_desc = (case rec_desc of None \<Rightarrow> Inr False | Some r \<Rightarrow>
     case rec_type r of None \<Rightarrow> Inr False | Some ty \<Rightarrow>
     if rec_tnf r \<noteq> TNF_MEDIA_TYPE then Inr False
     else if rec_type_length r \<noteq> 32 then Inr False
     else bindE (mem_read (Some ty) 32) (\<lambda>bs. Inr (bs = nfc_ndef_le_oob_rec_type_field)))"

definition nfc_ndef_le_oob_rec_parse ::
    "nat \<Rightarrow> bt_params \<Rightarrow> 'nb net_buf_ops \<Rightarrow> bt_le_oob_sc_data \<Rightarrow> nfc_ndef_record_desc option \<Rightarrow> u32 option \<Rightarrow>
     (nfc_ndef_le_oob_rec_payload_desc \<times> u32) res option" where
  "nfc_ndef_le_oob_rec_parse fuel P ops sc0 rec_desc result_buf =
     (case result_buf of None \<Rightarrow> Some (Inl EINVAL) | Some result_buf_len \<Rightarrow>
      case nfc_ndef_le_oob_rec_check rec_desc of
        Inl e \<Rightarrow> Some (Inl e)
      | Inr False \<Rightarrow> Some (Inl EINVAL)
      | Inr True \<Rightarrow>
          (case map_option rec_payload rec_desc of
             Some (Payload_Bin bin) \<Rightarrow>
               nfc_ndef_le_oob_rec_payload_parse fuel P ops sc0 (bin_payload bin) (bin_payload_length bin) result_buf_len
           | _ \<Rightarrow> Some (Inl ENOTSUP)))"

section \<open>The loop returns\<close>

lemma le_oob_step_progress:
  assumes "le_oob_step P ops sc0 buf len st index = Inr (st', index')" "index < len" "unat len + 256 < 2 ^ 32"
  shows "unat index < unat index' \<and> unat index' \<le> unat len"
proof -
  obtain ad_len where a: "index' = index + 1 + ucast (ad_len :: u8)" "\<not> index + 1 + ucast ad_len > len"
    using assms(1) by (auto simp: le_oob_step_def Let_def resE split: if_splits)
  have "unat index' = unat index + 1 + unat ad_len"
    using a(1) assms(2,3) unat_u8_lt [of ad_len] by (simp add: unat_word_ariths word_less_nat_alt)
  then show ?thesis using a by (simp add: word_less_nat_alt)
qed

lemma le_oob_loop_returns:
  assumes "unat len + 256 < 2 ^ 32" "unat len - unat index < fuel"
  shows "\<exists>r. le_oob_loop fuel P ops sc0 buf len st index = Some r"
  using assms
proof (induction fuel arbitrary: st index)
  case (Suc fuel)
  show ?case
  proof (cases "index < len")
    case lt: True
    show ?thesis
    proof (cases "le_oob_step P ops sc0 buf len st index")
      case (Inr x)
      then obtain st' index' where s: "le_oob_step P ops sc0 buf len st index = Inr (st', index')"
        by (cases x) auto
      have "unat len - unat index' < fuel"
        using le_oob_step_progress [OF s lt Suc.prems(1)] Suc.prems(2) by arith
      then show ?thesis using Suc.IH [OF Suc.prems(1), of index' st'] lt s by simp
    qed (use lt in simp)
  qed simp
qed simp

section \<open>Parsing what the constructor wrote\<close>

text \<open>What the round trip needs of the Bluetooth headers: the AD types differ, and the structure sizes
  are those of their fields.\<close>

definition bt_params_ok :: "bt_params \<Rightarrow> bool" where
  "bt_params_ok P \<longleftrightarrow>
     distinct [BT_DATA_LE_BT_DEVICE_ADDRESS P, BT_DATA_LE_ROLE P, BT_DATA_SM_TK_VALUE P,
       BT_DATA_LE_SC_CONFIRM_VALUE P, BT_DATA_LE_SC_RANDOM_VALUE P, BT_DATA_GAP_APPEARANCE P,
       BT_DATA_FLAGS P, BT_DATA_NAME_SHORTENED P, BT_DATA_NAME_COMPLETE P] \<and>
     unat (sizeof_addr P) = unat (sizeof_addr_a P) + 1 \<and> unat (sizeof_addr P) < 255 \<and> sizeof_role P = 1 \<and>
     0 < sizeof_sc_c P \<and> unat (sizeof_sc_c P) < 255 \<and> 0 < sizeof_sc_r P \<and> unat (sizeof_sc_r P) < 255"

text \<open>The parser consumes a list of AD structures anywhere in a payload and goes from one state to
  another.\<close>

definition seg :: "bt_params \<Rightarrow> 'nb net_buf_ops \<Rightarrow> bt_le_oob_sc_data \<Rightarrow>
    'nb \<times> nfc_ndef_le_oob_rec_payload_desc \<Rightarrow> ad list \<Rightarrow> 'nb \<times> nfc_ndef_le_oob_rec_payload_desc \<Rightarrow> bool" where
  "seg P ops sc0 st ads st' \<longleftrightarrow> (\<forall>fuel pre rest len.
     length (pre @ concat (map ad_bytes ads)) \<le> unat len \<longrightarrow>
     le_oob_loop (length ads + fuel) P ops sc0 (pre @ concat (map ad_bytes ads) @ rest) len st (of_nat (length pre)) =
     le_oob_loop fuel P ops sc0 (pre @ concat (map ad_bytes ads) @ rest) len st'
       (of_nat (length (pre @ concat (map ad_bytes ads)))))"

lemma segD:
  assumes "seg P ops sc0 st ads st'" "length (pre @ concat (map ad_bytes ads)) \<le> unat len"
  shows "le_oob_loop (length ads + fuel) P ops sc0 (pre @ concat (map ad_bytes ads) @ rest) len st (of_nat (length pre)) =
     le_oob_loop fuel P ops sc0 (pre @ concat (map ad_bytes ads) @ rest) len st'
       (of_nat (length (pre @ concat (map ad_bytes ads))))"
  using assms unfolding seg_def by blast

lemma seg_Nil: "seg P ops sc0 st [] st"
  by (simp add: seg_def)

lemma seg_append:
  assumes "seg P ops sc0 st ads st1" "seg P ops sc0 st1 bds st2"
  shows "seg P ops sc0 st (ads @ bds) st2"
  unfolding seg_def
proof (intro allI impI)
  fix fuel and pre rest :: "u8 list" and len :: u32
  let ?a = "concat (map ad_bytes ads)" and ?b = "concat (map ad_bytes bds)"
  assume l: "length (pre @ concat (map ad_bytes (ads @ bds))) \<le> unat len"
  show "le_oob_loop (length (ads @ bds) + fuel) P ops sc0 (pre @ concat (map ad_bytes (ads @ bds)) @ rest) len st
      (of_nat (length pre)) =
     le_oob_loop fuel P ops sc0 (pre @ concat (map ad_bytes (ads @ bds)) @ rest) len st2
       (of_nat (length (pre @ concat (map ad_bytes (ads @ bds)))))"
    using segD [OF assms(1), of pre len "length bds + fuel" "?b @ rest"]
      segD [OF assms(2), of "pre @ ?a" len fuel rest] l by (simp add: add.assoc)
qed

lemma seg_single:
  assumes ok: "ad_ok (t, data)" "data \<noteq> []"
    and dec: "\<And>rest. le_oob_ad_decode P ops sc0 t (data @ rest) (of_nat (length data)) st = Inr st'"
  shows "seg P ops sc0 st [(t, data)] st'"
  unfolding seg_def
proof (intro allI impI)
  fix fuel and pre rest :: "u8 list" and len :: u32
  let ?i = "of_nat (length pre) :: u32" and ?l = "of_nat (length data) + 1 :: u8"
  assume l: "length (pre @ concat (map ad_bytes [(t, data)])) \<le> unat len"
  have d: "length data < 255" using ok by (simp add: ad_ok_def)
  have p: "length pre + length data + 2 \<le> unat len" using l by (simp add: length_ad_bytes)
  have i: "unat ?i = length pre" "unat (?i + 1) = length pre + 1"
    using p unat_u32_lt [of len] by (simp_all add: unat_of_nat_u32 unat_add_no_wrap_u32)
  have lt: "?i < len" using i p by (simp add: word_less_nat_alt)
  have ul: "unat ?l = length data + 1"
    using d unat_of_nat_u8 [of "length data + 1"] by (simp add: add.commute)
  have l1: "?l \<noteq> 1" using ul ok(2) by auto
  have ix: "?i + 1 + ucast ?l = of_nat (length (pre @ concat (map ad_bytes [(t, data)])))"
  proof -
    have "ucast ?l = (of_nat (length data + 1) :: u32)" by (metis ul of_nat_unat)
    then show ?thesis by (simp add: length_ad_bytes)
  qed
  have le: "\<not> ?i + 1 + ucast ?l > len"
    unfolding ix using l unat_u32_lt [of len] by (simp add: word_less_nat_alt unat_of_nat_u32 del: of_nat_add)
  have step: "le_oob_step P ops sc0 (pre @ concat (map ad_bytes [(t, data)]) @ rest) len st ?i =
      Inr (st', of_nat (length (pre @ concat (map ad_bytes [(t, data)]))))"
    unfolding le_oob_step_def Let_def i using l1 le dec [of rest]
    by (simp add: mem_byte_def ad_bytes_def nth_append ix [unfolded ad_bytes_def, simplified])
  show "le_oob_loop (length [(t, data)] + fuel) P ops sc0 (pre @ concat (map ad_bytes [(t, data)]) @ rest) len st ?i =
     le_oob_loop fuel P ops sc0 (pre @ concat (map ad_bytes [(t, data)]) @ rest) len st'
       (of_nat (length (pre @ concat (map ad_bytes [(t, data)]))))"
    using lt step by simp
qed

lemma seg_loop:
  assumes "seg P ops sc0 st ads st'" "length (concat (map ad_bytes ads)) = unat len"
  shows "le_oob_loop (length ads + Suc fuel) P ops sc0 (concat (map ad_bytes ads) @ rest) len st 0 = Some (Inr st')"
proof -
  have "len = of_nat (length (concat (map ad_bytes ads)))" using assms(2) by simp
  then show ?thesis using segD [OF assms(1), of "[]" len "Suc fuel" rest] assms(2) by simp
qed

lemma alloc_for_ok:
  assumes "net_buf_ok ops" "unat n \<le> room ops nb"
  shows "\<exists>nb'. alloc_for ops nb n = (nb', True) \<and> room ops nb' = room ops nb - unat n"
  by (rule memory_allocate_fits [OF assms]) (simp add: alloc_for_def)

lemma params_ne:
  assumes "bt_params_ok P"
  shows
    "BT_DATA_LE_ROLE P \<noteq> BT_DATA_LE_BT_DEVICE_ADDRESS P"
    "BT_DATA_SM_TK_VALUE P \<noteq> BT_DATA_LE_BT_DEVICE_ADDRESS P"
    "BT_DATA_SM_TK_VALUE P \<noteq> BT_DATA_LE_ROLE P"
    "BT_DATA_LE_SC_CONFIRM_VALUE P \<noteq> BT_DATA_LE_BT_DEVICE_ADDRESS P"
    "BT_DATA_LE_SC_CONFIRM_VALUE P \<noteq> BT_DATA_LE_ROLE P"
    "BT_DATA_LE_SC_CONFIRM_VALUE P \<noteq> BT_DATA_SM_TK_VALUE P"
    "BT_DATA_LE_SC_RANDOM_VALUE P \<noteq> BT_DATA_LE_BT_DEVICE_ADDRESS P"
    "BT_DATA_LE_SC_RANDOM_VALUE P \<noteq> BT_DATA_LE_ROLE P"
    "BT_DATA_LE_SC_RANDOM_VALUE P \<noteq> BT_DATA_SM_TK_VALUE P"
    "BT_DATA_LE_SC_RANDOM_VALUE P \<noteq> BT_DATA_LE_SC_CONFIRM_VALUE P"
    "BT_DATA_GAP_APPEARANCE P \<noteq> BT_DATA_LE_BT_DEVICE_ADDRESS P"
    "BT_DATA_GAP_APPEARANCE P \<noteq> BT_DATA_LE_ROLE P"
    "BT_DATA_GAP_APPEARANCE P \<noteq> BT_DATA_SM_TK_VALUE P"
    "BT_DATA_GAP_APPEARANCE P \<noteq> BT_DATA_LE_SC_CONFIRM_VALUE P"
    "BT_DATA_GAP_APPEARANCE P \<noteq> BT_DATA_LE_SC_RANDOM_VALUE P"
    "BT_DATA_FLAGS P \<noteq> BT_DATA_LE_BT_DEVICE_ADDRESS P" "BT_DATA_FLAGS P \<noteq> BT_DATA_LE_ROLE P"
    "BT_DATA_FLAGS P \<noteq> BT_DATA_SM_TK_VALUE P"
    "BT_DATA_FLAGS P \<noteq> BT_DATA_LE_SC_CONFIRM_VALUE P"
    "BT_DATA_FLAGS P \<noteq> BT_DATA_LE_SC_RANDOM_VALUE P"
    "BT_DATA_FLAGS P \<noteq> BT_DATA_GAP_APPEARANCE P"
    "BT_DATA_NAME_COMPLETE P \<noteq> BT_DATA_LE_BT_DEVICE_ADDRESS P"
    "BT_DATA_NAME_COMPLETE P \<noteq> BT_DATA_LE_ROLE P"
    "BT_DATA_NAME_COMPLETE P \<noteq> BT_DATA_SM_TK_VALUE P"
    "BT_DATA_NAME_COMPLETE P \<noteq> BT_DATA_LE_SC_CONFIRM_VALUE P"
    "BT_DATA_NAME_COMPLETE P \<noteq> BT_DATA_LE_SC_RANDOM_VALUE P"
    "BT_DATA_NAME_COMPLETE P \<noteq> BT_DATA_GAP_APPEARANCE P"
    "BT_DATA_NAME_COMPLETE P \<noteq> BT_DATA_FLAGS P"
    "BT_DATA_NAME_COMPLETE P \<noteq> BT_DATA_NAME_SHORTENED P"
  using assms by (auto simp: bt_params_ok_def)

lemma seg_addr:
  assumes P: "bt_params_ok P" "net_buf_ok ops" and a: "length (addr_a a) = unat (sizeof_addr_a P)"
    and r: "unat (sizeof_addr P) \<le> room ops nb"
  shows "\<exists>nb'. seg P ops sc0 (nb, d) [(BT_DATA_LE_BT_DEVICE_ADDRESS P, addr_a a @ [addr_type a])]
      (nb', d\<lparr>oob_addr := Some a\<rparr>) \<and> room ops nb' = room ops nb - unat (sizeof_addr P)"
proof -
  obtain nb' where nb: "alloc_for ops nb (ucast (sizeof_addr P)) = (nb', True)"
      "room ops nb' = room ops nb - unat (sizeof_addr P)"
    using alloc_for_ok [OF P(2), of "ucast (sizeof_addr P)" nb] r by auto
  have s: "unat (sizeof_addr P) = length (addr_a a) + 1" "unat (sizeof_addr P) < 255"
    using P(1) a by (simp_all add: bt_params_ok_def)
  then have n: "of_nat (length (addr_a a @ [addr_type a])) = sizeof_addr P"
    by (metis One_nat_def length_append list.size(3,4) plus_nat.add_0 word_of_nat_unat_id)
  have "seg P ops sc0 (nb, d) [(BT_DATA_LE_BT_DEVICE_ADDRESS P, addr_a a @ [addr_type a])]
      (nb', d\<lparr>oob_addr := Some a\<rparr>)"
    unfolding seg_def [symmetric]
  proof (rule seg_single)
    show "le_oob_ad_decode P ops sc0 (BT_DATA_LE_BT_DEVICE_ADDRESS P) ((addr_a a @ [addr_type a]) @ rest)
        (of_nat (length (addr_a a @ [addr_type a]))) (nb, d) = Inr (nb', d\<lparr>oob_addr := Some a\<rparr>)" for rest
      unfolding n by (simp add: le_oob_ad_decode_def nb ble_device_address_decode_def a [symmetric] mem_read_def
          mem_byte_def nth_append)
  qed (use s in \<open>simp_all add: ad_ok_def\<close>)
  with nb show ?thesis by blast
qed

lemma seg_role:
  assumes P: "bt_params_ok P" "net_buf_ok ops" and r: "r < 4" "1 \<le> room ops nb"
  shows "\<exists>nb'. seg P ops sc0 (nb, d) [(BT_DATA_LE_ROLE P, [ucast r])] (nb', d\<lparr>oob_le_role := Some r\<rparr>) \<and>
    room ops nb' = room ops nb - 1"
proof -
  have sz: "sizeof_role P = 1" using P(1) by (simp add: bt_params_ok_def)
  obtain nb' where nb: "alloc_for ops nb 1 = (nb', True)" "room ops nb' = room ops nb - 1"
    using alloc_for_ok [OF P(2), of 1 nb] r by auto
  have c: "ucast (ucast r :: u8) = r"
  proof -
    have "unat r < 4" using r(1) by (simp add: word_less_nat_alt)
    then have "unat (ucast (ucast r :: u8) :: u32) = unat r"
      by (simp only: unat_ucast_u8_u32 unsigned_ucast_eq [where 'a = nat]) (simp add: take_bit_eq_mod)
    then show ?thesis by (rule unsigned_word_eqI)
  qed
  have "seg P ops sc0 (nb, d) [(BT_DATA_LE_ROLE P, [ucast r])] (nb', d\<lparr>oob_le_role := Some r\<rparr>)"
    by (rule seg_single) (simp_all add: ad_ok_def le_oob_ad_decode_def nb le_role_decode_def sz
        mem_byte_def c params_ne [OF P(1)])
  with nb show ?thesis by blast
qed

lemma seg_tk:
  assumes P: "bt_params_ok P" "net_buf_ok ops" and tk: "length tk = 16" "16 \<le> room ops nb"
  shows "\<exists>nb'. seg P ops sc0 (nb, d) [(BT_DATA_SM_TK_VALUE P, tk)] (nb', d\<lparr>oob_tk_value := Some tk\<rparr>) \<and>
    room ops nb' = room ops nb - 16"
proof -
  obtain nb' where nb: "alloc_for ops nb 16 = (nb', True)" "room ops nb' = room ops nb - 16"
    using alloc_for_ok [OF P(2), of 16 nb] tk by auto
  have "seg P ops sc0 (nb, d) [(BT_DATA_SM_TK_VALUE P, tk)] (nb', d\<lparr>oob_tk_value := Some tk\<rparr>)"
    by (rule seg_single) (use tk in \<open>auto simp: ad_ok_def le_oob_ad_decode_def nb tk_value_decode_def
        mem_read_def params_ne [OF P(1)]\<close>)
  with nb show ?thesis by blast
qed

lemma seg_sc:
  assumes P: "bt_params_ok P" "net_buf_ok ops" and d: "oob_le_sc_data d = None"
    and sc: "length (sc_c sc) = unat (sizeof_sc_c P)" "length (sc_r sc) = unat (sizeof_sc_r P)"
    and r: "unat (sizeof_sc P) \<le> room ops nb"
  shows "\<exists>nb'. seg P ops sc0 (nb, d) [(BT_DATA_LE_SC_CONFIRM_VALUE P, sc_c sc), (BT_DATA_LE_SC_RANDOM_VALUE P, sc_r sc)]
      (nb', d\<lparr>oob_le_sc_data := Some sc\<rparr>) \<and> room ops nb' = room ops nb - unat (sizeof_sc P)"
proof -
  obtain nb' where nb: "alloc_for ops nb (sizeof_sc P) = (nb', True)" "room ops nb' = room ops nb - unat (sizeof_sc P)"
    using alloc_for_ok [OF P(2) r] by auto
  have ne: "0 < unat (sizeof_sc_c P)" "0 < unat (sizeof_sc_r P)" "unat (sizeof_sc_c P) < 255" "unat (sizeof_sc_r P) < 255"
    using P(1) by (simp_all add: bt_params_ok_def word_less_nat_alt)
  have n: "of_nat (length (sc_c sc)) = sizeof_sc_c P" "of_nat (length (sc_r sc)) = sizeof_sc_r P"
    using sc by simp_all
  have "seg P ops sc0 (nb, d) [(BT_DATA_LE_SC_CONFIRM_VALUE P, sc_c sc)]
      (nb', d\<lparr>oob_le_sc_data := Some (sc0\<lparr>sc_c := sc_c sc\<rparr>)\<rparr>)" (is "seg _ _ _ _ _ ?m")
    by (rule seg_single) (use d sc ne in \<open>auto simp: ad_ok_def le_oob_ad_decode_def nb n Let_def
        le_sc_confirm_value_decode_def mem_read_def params_ne [OF P(1)]\<close>)
  moreover have "seg P ops sc0 ?m [(BT_DATA_LE_SC_RANDOM_VALUE P, sc_r sc)] (nb', d\<lparr>oob_le_sc_data := Some sc\<rparr>)"
    by (rule seg_single) (use d sc ne in \<open>auto simp: ad_ok_def le_oob_ad_decode_def n Let_def
        le_sc_random_value_decode_def mem_read_def params_ne [OF P(1)]\<close>)
  ultimately show ?thesis using seg_append nb by fastforce
qed

lemma seg_appearance:
  assumes P: "bt_params_ok P" "net_buf_ok ops" and r: "2 \<le> room ops nb"
  shows "\<exists>nb'. seg P ops sc0 (nb, d) [(BT_DATA_GAP_APPEARANCE P, put_le16 a)] (nb', d\<lparr>oob_appearance := Some a\<rparr>) \<and>
    room ops nb' = room ops nb - 2"
proof -
  obtain nb' where nb: "alloc_for ops nb 2 = (nb', True)" "room ops nb' = room ops nb - 2"
    using alloc_for_ok [OF P(2), of 2 nb] r by auto
  have "seg P ops sc0 (nb, d) [(BT_DATA_GAP_APPEARANCE P, put_le16 a)] (nb', d\<lparr>oob_appearance := Some a\<rparr>)"
  proof (rule seg_single)
    show "put_le16 a \<noteq> []" by (simp add: put_le16_def)
  qed (simp_all add: ad_ok_def le_oob_ad_decode_def nb appearance_decode_def params_ne [OF P(1)])
  with nb show ?thesis by blast
qed

lemma seg_flags:
  assumes P: "bt_params_ok P" "net_buf_ok ops" and r: "1 \<le> room ops nb"
  shows "\<exists>nb'. seg P ops sc0 (nb, d) [(BT_DATA_FLAGS P, [f])] (nb', d\<lparr>oob_flags := Some f\<rparr>) \<and>
    room ops nb' = room ops nb - 1"
proof -
  obtain nb' where nb: "alloc_for ops nb 1 = (nb', True)" "room ops nb' = room ops nb - 1"
    using alloc_for_ok [OF P(2), of 1 nb] r by auto
  have "seg P ops sc0 (nb, d) [(BT_DATA_FLAGS P, [f])] (nb', d\<lparr>oob_flags := Some f\<rparr>)"
    by (rule seg_single) (simp_all add: ad_ok_def le_oob_ad_decode_def nb flags_decode_def
        mem_byte_def params_ne [OF P(1)])
  with nb show ?thesis by blast
qed

lemma seg_name:
  assumes P: "bt_params_ok P" "net_buf_ok ops" and n: "name \<noteq> []" "length name < 255" "length name + 1 \<le> room ops nb"
  shows "\<exists>nb'. seg P ops sc0 (nb, d) [(BT_DATA_NAME_COMPLETE P, name)] (nb', d\<lparr>oob_local_name := Some (name @ [0])\<rparr>) \<and>
    room ops nb' = room ops nb - (length name + 1)"
proof -
  have u: "unat (of_nat (length name) :: u8) = length name" using n by (simp add: unat_of_nat_u8)
  then have "ucast (of_nat (length name) :: u8) = (of_nat (length name) :: u32)"
    by (metis of_nat_unat)
  then have w: "ucast (of_nat (length name) :: u8) + 1 = (of_nat (length name + 1) :: u32)"
    by simp
  have v: "unat (of_nat (length name + 1) :: u32) = length name + 1"
    using n by (intro unat_of_nat_u32) simp
  obtain nb' where nb: "memory_allocate ops nb (of_nat (length name + 1)) = Some nb'"
      "room ops nb' = room ops nb - (length name + 1)"
    using memory_allocate_fits [OF P(2), of "of_nat (length name + 1)" nb] n(3) unfolding v by blast
  have "seg P ops sc0 (nb, d) [(BT_DATA_NAME_COMPLETE P, name)] (nb', d\<lparr>oob_local_name := Some (name @ [0])\<rparr>)"
    by (rule seg_single) (use n nb(1) in \<open>auto simp: ad_ok_def le_oob_ad_decode_def w u mem_read_def
        params_ne [OF P(1)] simp del: of_nat_add of_nat_Suc\<close>)
  with nb show ?thesis by blast
qed

text \<open>The memory the fields of a descriptor take, and the descriptor the parser rebuilds: the TK value
  is cut to its length and the name is a fresh zero-terminated string.\<close>

definition oob_need :: "bt_params \<Rightarrow> nfc_ndef_le_oob_rec_payload_desc \<Rightarrow> nat" where
  "oob_need P d = unat (sizeof_addr P) + 1 +
     (case oob_tk_value d of None \<Rightarrow> 0 | Some _ \<Rightarrow> 16) +
     (case oob_le_sc_data d of None \<Rightarrow> 0 | Some _ \<Rightarrow> unat (sizeof_sc P)) +
     (case oob_appearance d of None \<Rightarrow> 0 | Some _ \<Rightarrow> 2) +
     (case oob_flags d of None \<Rightarrow> 0 | Some _ \<Rightarrow> 1) +
     (case oob_local_name d of None \<Rightarrow> 0 | Some name \<Rightarrow> length (takeWhile (\<lambda>b. b \<noteq> 0) name) + 1)"

definition oob_parsed :: "nfc_ndef_le_oob_rec_payload_desc \<Rightarrow> nfc_ndef_le_oob_rec_payload_desc" where
  "oob_parsed d = d\<lparr>oob_tk_value := map_option (take 16) (oob_tk_value d),
     oob_local_name := map_option (\<lambda>name. takeWhile (\<lambda>b. b \<noteq> 0) name @ [0]) (oob_local_name d)\<rparr>"

text \<open>\<open>takes e ads e' n\<close>: with \<open>n\<close> bytes left in the result buffer, the parser goes from
  descriptor \<open>e\<close> to \<open>e'\<close> over \<open>ads\<close> and uses exactly those bytes.\<close>

definition takes :: "bt_params \<Rightarrow> 'nb net_buf_ops \<Rightarrow> bt_le_oob_sc_data \<Rightarrow> nfc_ndef_le_oob_rec_payload_desc \<Rightarrow>
    ad list \<Rightarrow> nfc_ndef_le_oob_rec_payload_desc \<Rightarrow> nat \<Rightarrow> bool" where
  "takes P ops sc0 e ads e' n \<longleftrightarrow>
     (\<forall>nb. n \<le> room ops nb \<longrightarrow> (\<exists>nb'. seg P ops sc0 (nb, e) ads (nb', e') \<and> room ops nb' = room ops nb - n))"

lemma takes_append:
  assumes 1: "takes P ops sc0 e ads e1 m" and 2: "takes P ops sc0 e1 bds e2 n"
  shows "takes P ops sc0 e (ads @ bds) e2 (m + n)"
  unfolding takes_def
proof (intro allI impI)
  fix nb
  assume r: "m + n \<le> room ops nb"
  then obtain nb1 where s1: "seg P ops sc0 (nb, e) ads (nb1, e1)" "room ops nb1 = room ops nb - m"
    using 1 unfolding takes_def by force
  then obtain nb2 where s2: "seg P ops sc0 (nb1, e1) bds (nb2, e2)" "room ops nb2 = room ops nb1 - n"
    using 2 r unfolding takes_def by force
  show "\<exists>nb'. seg P ops sc0 (nb, e) (ads @ bds) (nb', e2) \<and> room ops nb' = room ops nb - (m + n)"
    using seg_append [OF s1(1) s2(1)] s1(2) s2(2) by auto
qed

lemma takes_option:
  assumes "\<And>x. v = Some x \<Longrightarrow> takes P ops sc0 e (f x) (g x) (h x)"
  shows "takes P ops sc0 e (case v of None \<Rightarrow> [] | Some x \<Rightarrow> f x) (case v of None \<Rightarrow> e | Some x \<Rightarrow> g x)
    (case v of None \<Rightarrow> 0 | Some x \<Rightarrow> h x)"
  using assms by (cases v) (auto simp: takes_def intro: seg_Nil)

lemma oob_takes:
  assumes P: "bt_params_ok P" "net_buf_ok ops" and ok: "oob_ok P d"
    and ne: "\<And>name. oob_local_name d = Some name \<Longrightarrow> takeWhile (\<lambda>b. b \<noteq> 0) name \<noteq> []"
  shows "takes P ops sc0 empty_oob_desc (oob_ads P d) (oob_parsed d) (oob_need P d)"
proof -
  obtain a role where ar: "oob_addr d = Some a" "length (addr_a a) = unat (sizeof_addr_a P)"
      "oob_le_role d = Some role" "role < 4"
    using ok by (auto simp: oob_ok_def)
  let ?t = "takes P ops sc0"
  have addr: "?t e [(BT_DATA_LE_BT_DEVICE_ADDRESS P, addr_a a @ [addr_type a])] (e\<lparr>oob_addr := Some a\<rparr>)
      (unat (sizeof_addr P))" for e
    unfolding takes_def using seg_addr [OF P ar(2)] by blast
  have role: "?t e [(BT_DATA_LE_ROLE P, [ucast role])] (e\<lparr>oob_le_role := Some role\<rparr>) 1" for e
    unfolding takes_def using seg_role [OF P ar(4)] by blast
  have tk: "?t e [(BT_DATA_SM_TK_VALUE P, take 16 tk)] (e\<lparr>oob_tk_value := Some (take 16 tk)\<rparr>) 16"
    if "oob_tk_value d = Some tk" for e tk
    using seg_tk [OF P, of "take 16 tk"] that ok by (auto simp: takes_def oob_ok_def)
  have sc: "?t e [(BT_DATA_LE_SC_CONFIRM_VALUE P, sc_c sc), (BT_DATA_LE_SC_RANDOM_VALUE P, sc_r sc)]
      (e\<lparr>oob_le_sc_data := Some sc\<rparr>) (unat (sizeof_sc P))"
    if "oob_le_sc_data d = Some sc" "oob_le_sc_data e = None" for e sc
    using seg_sc [OF P that(2), of sc] that(1) ok by (auto simp: takes_def oob_ok_def)
  have ap: "?t e [(BT_DATA_GAP_APPEARANCE P, put_le16 x)] (e\<lparr>oob_appearance := Some x\<rparr>) 2" for e x
    unfolding takes_def using seg_appearance [OF P] by blast
  have fl: "?t e [(BT_DATA_FLAGS P, [f])] (e\<lparr>oob_flags := Some f\<rparr>) 1" for e f
    unfolding takes_def using seg_flags [OF P] by blast
  have nm: "?t e [(BT_DATA_NAME_COMPLETE P, takeWhile (\<lambda>b. b \<noteq> 0) name)]
      (e\<lparr>oob_local_name := Some (takeWhile (\<lambda>b. b \<noteq> 0) name @ [0])\<rparr>) (length (takeWhile (\<lambda>b. b \<noteq> 0) name) + 1)"
    if "oob_local_name d = Some name" for e name
    using seg_name [OF P ne [OF that]] that ok by (auto simp: takes_def oob_ok_def)
  define e2 where "e2 = empty_oob_desc\<lparr>oob_addr := Some a, oob_le_role := Some role\<rparr>"
  define e3 where "e3 = (case oob_tk_value d of None \<Rightarrow> e2 | Some tk \<Rightarrow> e2\<lparr>oob_tk_value := Some (take 16 tk)\<rparr>)"
  define e4 where "e4 = (case oob_le_sc_data d of None \<Rightarrow> e3 | Some sc \<Rightarrow> e3\<lparr>oob_le_sc_data := Some sc\<rparr>)"
  define e5 where "e5 = (case oob_appearance d of None \<Rightarrow> e4 | Some x \<Rightarrow> e4\<lparr>oob_appearance := Some x\<rparr>)"
  define e6 where "e6 = (case oob_flags d of None \<Rightarrow> e5 | Some f \<Rightarrow> e5\<lparr>oob_flags := Some f\<rparr>)"
  have e3: "oob_le_sc_data e3 = None"
    by (simp add: e3_def e2_def empty_oob_desc_def split: option.split)
  have e7: "(case oob_local_name d of None \<Rightarrow> e6 | Some name \<Rightarrow>
      e6\<lparr>oob_local_name := Some (takeWhile (\<lambda>b. b \<noteq> 0) name @ [0])\<rparr>) = oob_parsed d"
    using ar by (cases d) (simp add: e6_def e5_def e4_def e3_def e2_def empty_oob_desc_def oob_parsed_def
        split: option.split)
  have s2: "?t empty_oob_desc ([(BT_DATA_LE_BT_DEVICE_ADDRESS P, addr_a a @ [addr_type a])] @
      [(BT_DATA_LE_ROLE P, [ucast role])]) e2 (unat (sizeof_addr P) + 1)"
    unfolding e2_def by (rule takes_append [OF addr role])
  have t3: "?t e2 (case oob_tk_value d of None \<Rightarrow> [] | Some tk \<Rightarrow> [(BT_DATA_SM_TK_VALUE P, take 16 tk)]) e3
      (case oob_tk_value d of None \<Rightarrow> 0 | Some _ \<Rightarrow> 16)"
    unfolding e3_def by (rule takes_option) (rule tk)
  have t4: "?t e3 (case oob_le_sc_data d of None \<Rightarrow> [] | Some sc \<Rightarrow>
        [(BT_DATA_LE_SC_CONFIRM_VALUE P, sc_c sc), (BT_DATA_LE_SC_RANDOM_VALUE P, sc_r sc)]) e4
      (case oob_le_sc_data d of None \<Rightarrow> 0 | Some _ \<Rightarrow> unat (sizeof_sc P))"
    unfolding e4_def by (rule takes_option) (rule sc [OF _ e3])
  have t5: "?t e4 (case oob_appearance d of None \<Rightarrow> [] | Some x \<Rightarrow> [(BT_DATA_GAP_APPEARANCE P, put_le16 x)]) e5
      (case oob_appearance d of None \<Rightarrow> 0 | Some _ \<Rightarrow> 2)"
    unfolding e5_def by (rule takes_option) (rule ap)
  have t6: "?t e5 (case oob_flags d of None \<Rightarrow> [] | Some f \<Rightarrow> [(BT_DATA_FLAGS P, [f])]) e6
      (case oob_flags d of None \<Rightarrow> 0 | Some _ \<Rightarrow> 1)"
    unfolding e6_def by (rule takes_option) (rule fl)
  have t7: "?t e6 (case oob_local_name d of None \<Rightarrow> [] | Some name \<Rightarrow>
        [(BT_DATA_NAME_COMPLETE P, takeWhile (\<lambda>b. b \<noteq> 0) name)]) (oob_parsed d)
      (case oob_local_name d of None \<Rightarrow> 0 | Some name \<Rightarrow> length (takeWhile (\<lambda>b. b \<noteq> 0) name) + 1)"
    unfolding e7 [symmetric] by (rule takes_option) (rule nm)
  note all = takes_append [OF takes_append [OF takes_append [OF takes_append [OF takes_append [OF s2 t3] t4] t5] t6] t7]
  then show ?thesis by (simp add: oob_ads_def oob_need_def ar)
qed

lemma length_ads_le: "2 * length ads \<le> length (concat (map ad_bytes ads))"
  by (induction ads) (auto simp: length_ad_bytes)

lemma le_oob_parse_body:
  assumes P: "bt_params_ok P" "net_buf_ok ops" and ok: "oob_ok P d"
    and ne: "\<And>name. oob_local_name d = Some name \<Longrightarrow> takeWhile (\<lambda>b. b \<noteq> 0) name \<noteq> []"
    and r: "unat (sizeof_oob_desc P) + oob_need P d \<le> unat rlen" "unat rlen < 65536"
    and n: "unat n = length (oob_body P d)"
  shows "nfc_ndef_le_oob_rec_payload_parse (Suc (unat n)) P ops sc0 (Some (oob_body P d @ rest)) n rlen =
    Some (Inr (oob_parsed d, of_nat (unat (sizeof_oob_desc P) + oob_need P d)))"
proof -
  have "unat (sizeof_oob_desc P) \<le> room ops (nb_init ops rlen)"
    using r by (simp add: room_init [OF P(2)])
  then obtain nb where nb: "memory_allocate ops (nb_init ops rlen) (sizeof_oob_desc P) = Some nb"
      "room ops nb = unat rlen - unat (sizeof_oob_desc P)"
    using memory_allocate_fits [OF P(2)] room_init [OF P(2) r(2)] by metis
  have "oob_need P d \<le> room ops nb" using r nb by simp
  with oob_takes [OF P ok ne, of sc0] obtain nb' where nb': "seg P ops sc0 (nb, empty_oob_desc) (oob_ads P d) (nb', oob_parsed d)"
      "room ops nb' = room ops nb - oob_need P d"
    unfolding takes_def by blast
  obtain k where k: "Suc (unat n) = length (oob_ads P d) + Suc k"
    using length_ads_le [of "oob_ads P d"] n nat_le_iff_add [of "length (oob_ads P d)" "unat n"]
    by (auto simp: oob_body_def)
  have "le_oob_loop (Suc (unat n)) P ops sc0 (oob_body P d @ rest) n (nb, empty_oob_desc) 0 = Some (Inr (nb', oob_parsed d))"
    unfolding k oob_body_def using seg_loop [OF nb'(1)] n by (simp only: oob_body_def)
  moreover have "rlen - nb_tailroom ops nb' = of_nat (unat (sizeof_oob_desc P) + oob_need P d)"
  proof -
    have "unat (nb_tailroom ops nb') = unat rlen - (unat (sizeof_oob_desc P) + oob_need P d)"
      using nb' nb by (simp add: room_def)
    then have "nb_tailroom ops nb' = rlen - of_nat (unat (sizeof_oob_desc P) + oob_need P d)"
      by (metis r(1) of_nat_diff word_of_nat_unat_id)
    then show ?thesis by simp
  qed
  ultimately show ?thesis by (simp add: nfc_ndef_le_oob_rec_payload_parse_def nb)
qed

section \<open>Properties\<close>

text \<open>C13: Parsing the payload that the LE OOB constructor wrote, for a descriptor the constructor accepts (address
  and role present, flags without BR/EDR, a name of fewer than 255 bytes) whose local name, if there is one, is
  not empty, rebuilds the descriptor: address, role, TK value, LE Secure Connections values,
  appearance, flags and local name. The result buffer, of fewer than 65536 bytes, must have room for the
  structures; the parser takes exactly their memory, and the payload length is enough fuel. (An empty name is
  written as an AD structure that the parser refuses, see below.)\<close>

theorem le_oob_roundtrip:
  assumes "bt_params_ok P" "net_buf_ok ops" "oob_ok P d"
    and "\<And>name. oob_local_name d = Some name \<Longrightarrow> takeWhile (\<lambda>b. b \<noteq> 0) name \<noteq> []"
    and "unat (sizeof_oob_desc P) + oob_need P d \<le> unat rlen" "unat rlen < 65536"
    and "unat cap \<le> length mem" "length (oob_body P d) \<le> unat cap"
  shows "\<exists>mem' n. nfc_ndef_le_oob_rec_payload_constructor P (Some d) (Some (mem, cap)) = Inr (mem', n) \<and>
    nfc_ndef_le_oob_rec_payload_parse (Suc (unat n)) P ops sc0 (Some mem') n rlen =
      Some (Inr (oob_parsed d, of_nat (unat (sizeof_oob_desc P) + oob_need P d)))"
proof -
  have w: "writes (nfc_ndef_le_oob_rec_payload_constructor P (Some d)) (oob_body P d)"
    using oob.enc_writes [of "(P, d)"] assms(3) by simp
  have "unat (of_nat (length (oob_body P d)) :: u32) = length (oob_body P d)"
    using writes_bound [OF w] by (rule unat_of_nat_u32)
  with writes_fits [OF w assms(7,8)] le_oob_parse_body [OF assms(1-6)] show ?thesis by blast
qed

definition sample_params :: bt_params where
  "sample_params = \<lparr>BT_DATA_LE_BT_DEVICE_ADDRESS = 0x1b, BT_DATA_LE_ROLE = 0x1c, BT_DATA_SM_TK_VALUE = 0x10,
     BT_DATA_LE_SC_CONFIRM_VALUE = 0x22, BT_DATA_LE_SC_RANDOM_VALUE = 0x23, BT_DATA_GAP_APPEARANCE = 0x19,
     BT_DATA_FLAGS = 0x01, BT_DATA_NAME_SHORTENED = 0x08, BT_DATA_NAME_COMPLETE = 0x09, BT_LE_AD_NO_BREDR = 4,
     sizeof_addr_a = 6, sizeof_addr = 7, sizeof_role = 1, sizeof_sc_c = 16, sizeof_sc_r = 16, sizeof_sc = 32,
     sizeof_oob_desc = 28\<rparr>"

definition sample_oob :: nfc_ndef_le_oob_rec_payload_desc where
  "sample_oob = \<lparr>oob_addr = Some \<lparr>addr_type = 1, addr_a = [1, 2, 3, 4, 5, 6]\<rparr>, oob_le_role = Some 2,
     oob_le_sc_data = None, oob_tk_value = None, oob_appearance = Some 0x340, oob_flags = Some 6,
     oob_local_name = Some [0x4e, 0x46, 0x43, 0]\<rparr>"

lemma sample_oob_ok: "bt_params_ok sample_params" "oob_ok sample_params sample_oob"
    "oob_need sample_params sample_oob = 15"
    "oob_body sample_params sample_oob =
       [8, 0x1b, 1, 2, 3, 4, 5, 6, 1, 2, 0x1c, 2, 3, 0x19, 0x40, 3, 2, 1, 6, 4, 9, 0x4e, 0x46, 0x43]"
  by (simp_all add: bt_params_ok_def oob_ok_def oob_need_def sample_params_def sample_oob_def oob_body_def
      oob_ads_def ad_bytes_def put_le16_def)

theorem le_oob_roundtrip_witness:
  "\<exists>mem' n. nfc_ndef_le_oob_rec_payload_constructor sample_params (Some sample_oob) (Some (replicate 40 0, 40)) =
      Inr (mem', n) \<and>
    nfc_ndef_le_oob_rec_payload_parse (Suc (unat n)) sample_params counting_net_buf \<lparr>sc_r = [], sc_c = []\<rparr>
      (Some mem') n 100 = Some (Inr (oob_parsed sample_oob, of_nat (28 + 15)))"
  using le_oob_roundtrip [OF sample_oob_ok(1) counting_net_buf_ok sample_oob_ok(2), of 100 40 "replicate 40 0"
      "\<lparr>sc_r = [], sc_c = []\<rparr>"]
  by (simp add: sample_oob_ok(3,4)) (simp add: sample_params_def sample_oob_def)

text \<open>C14: On every payload shorter than 2^32 - 256 bytes, well-formed or not, the parser returns: the
  index grows by at least one in each round.\<close>

theorem le_oob_parse_returns:
  assumes "unat len + 256 < 2 ^ 32"
  shows "\<exists>r. nfc_ndef_le_oob_rec_payload_parse (Suc (unat len)) P ops sc0 buf len rlen = Some r"
proof -
  have "\<exists>r. le_oob_loop (Suc (unat len)) P ops sc0 b len st 0 = Some r" for b st
    by (rule le_oob_loop_returns [OF assms]) simp
  then show ?thesis
    unfolding nfc_ndef_le_oob_rec_payload_parse_def
    by (auto split: option.split)
qed

theorem le_oob_parse_returns_witness:
  "\<exists>r. nfc_ndef_le_oob_rec_payload_parse 4 sample_params counting_net_buf \<lparr>sc_r = [], sc_c = []\<rparr>
     (Some [9, 9, 9]) 3 100 = Some r"
  using le_oob_parse_returns [of 3 sample_params counting_net_buf "\<lparr>sc_r = [], sc_c = []\<rparr>" "Some [9, 9, 9]" 100]
  by simp

text \<open>An empty local name is written as an AD structure of length 1, which the parser rejects: the payload
  the constructor wrote cannot be parsed.\<close>

lemma le_oob_empty_name_rejected:
  assumes P: "bt_params_ok P" "net_buf_ok ops" and ok: "oob_ok P d"
    and name: "oob_local_name d = Some name" "takeWhile (\<lambda>b. b \<noteq> 0) name = []"
    and r: "unat (sizeof_oob_desc P) + oob_need P d \<le> unat rlen" "unat rlen < 65536"
    and cap: "unat cap \<le> length mem" "length (oob_body P d) \<le> unat cap"
  shows "\<exists>mem' n. nfc_ndef_le_oob_rec_payload_constructor P (Some d) (Some (mem, cap)) = Inr (mem', n) \<and>
    nfc_ndef_le_oob_rec_payload_parse (Suc (unat n)) P ops sc0 (Some mem') n rlen = Some (Inl EINVAL)"
proof -
  define d' where "d' = d\<lparr>oob_local_name := None\<rparr>"
  let ?a = "concat (map ad_bytes (oob_ads P d'))" and ?rest = "drop (length (oob_body P d)) mem"
  let ?n = "of_nat (length (oob_body P d)) :: u32"
  have ads: "oob_ads P d = oob_ads P d' @ [(BT_DATA_NAME_COMPLETE P, [])]" using name by (simp add: oob_ads_def d'_def)
  have body: "oob_body P d = ?a @ [1, BT_DATA_NAME_COMPLETE P]" by (simp add: oob_body_def ads ad_bytes_def)
  have ok': "oob_ok P d'" using ok by (simp add: oob_ok_def d'_def)
  have w: "writes (nfc_ndef_le_oob_rec_payload_constructor P (Some d)) (oob_body P d)"
    using oob.enc_writes [of "(P, d)"] ok by simp
  have n: "unat ?n = length (oob_body P d)" using writes_bound [OF w] by (rule unat_of_nat_u32)
  have "unat (sizeof_oob_desc P) \<le> room ops (nb_init ops rlen)" using r by (simp add: room_init [OF P(2)])
  then obtain nb where nb: "memory_allocate ops (nb_init ops rlen) (sizeof_oob_desc P) = Some nb"
      "room ops nb = unat rlen - unat (sizeof_oob_desc P)"
    using memory_allocate_fits [OF P(2)] room_init [OF P(2) r(2)] by metis
  have "oob_need P d' \<le> room ops nb" using r nb name by (simp add: oob_need_def d'_def)
  then obtain nb' where seg: "seg P ops sc0 (nb, empty_oob_desc) (oob_ads P d') (nb', oob_parsed d')"
    using oob_takes [OF P ok', of sc0] unfolding takes_def by (auto simp: d'_def)
  have la: "unat (of_nat (length ?a) :: u32) = length ?a" "length ?a < unat ?n"
    using n body unat_u32_lt [of ?n] by (simp_all add: unat_of_nat_u32)
  have "le_oob_step P ops sc0 (oob_body P d @ ?rest) ?n st (of_nat (length ?a)) = Inl EINVAL" for st
    unfolding le_oob_step_def la(1) by (simp add: body mem_byte_def nth_append)
  then have "le_oob_loop (Suc k) P ops sc0 (oob_body P d @ ?rest) ?n st (of_nat (length ?a)) = Some (Inl EINVAL)" for k st
    using la by (simp add: word_less_nat_alt)
  then have L: "le_oob_loop (length (oob_ads P d') + Suc k) P ops sc0 (oob_body P d @ ?rest) ?n (nb, empty_oob_desc) 0 =
      Some (Inl EINVAL)" for k
    using segD [OF seg, of "[]" ?n "Suc k" "[1, BT_DATA_NAME_COMPLETE P] @ ?rest"] la(2) body by simp
  have "length (oob_ads P d') \<le> unat ?n" using length_ads_le [of "oob_ads P d'"] la(2) by linarith
  then have "Suc (unat ?n) = length (oob_ads P d') + Suc (unat ?n - length (oob_ads P d'))" by simp
  then have "le_oob_loop (Suc (unat ?n)) P ops sc0 (oob_body P d @ ?rest) ?n (nb, empty_oob_desc) 0 = Some (Inl EINVAL)"
    using L by metis
  then show ?thesis using writes_fits [OF w cap] by (simp add: nfc_ndef_le_oob_rec_payload_parse_def nb)
qed

text \<open>An AD structure of length 0 at the end of the payload passes the length check and the parser
  reads its type past the end of the payload.\<close>

lemma le_oob_zero_length_ad_overreads:
  "nfc_ndef_le_oob_rec_payload_parse 2 sample_params counting_net_buf sc0 (Some [0]) 1 100 = Some (Inl UB)"
proof -
  have "le_oob_step sample_params counting_net_buf sc0 [0] 1 st 0 = Inl UB" for st
    by (simp add: le_oob_step_def mem_byte_def)
  moreover have "memory_allocate counting_net_buf (nb_init counting_net_buf 100) (sizeof_oob_desc sample_params) = Some 72"
    by (simp add: memory_allocate_def counting_net_buf_def sample_params_def)
  ultimately show ?thesis
    by (simp add: nfc_ndef_le_oob_rec_payload_parse_def numeral_2_eq_2)
qed

end
