(* ===== verification/T4t_Tlv.thy ===== *)
theory T4t_Tlv
  imports Nfc_Prelude
begin

text \<open>
  File Control TLV blocks of Type 4 Tags (\<open>subsys/nfc/t4t/tlv_block.c\<close>) and the NDEF file header
  (\<open>subsys/nfc/t4t/ndef_file.c\<close>).
\<close>

section \<open>Data\<close>

abbreviation (input) NDEF_FILE_CONTROL_TLV :: u8 where "NDEF_FILE_CONTROL_TLV \<equiv> 0x04"
abbreviation (input) PROPRIETARY_FILE_CONTROL_TLV :: u8 where "PROPRIETARY_FILE_CONTROL_TLV \<equiv> 0x05"
abbreviation (input) EXTENDED_NDEF_FILE_CONTROL_TLV :: u8 where "EXTENDED_NDEF_FILE_CONTROL_TLV \<equiv> 0x06"

record nfc_t4t_tlv_block_file =
  file_content :: ptr
  file_len :: u16

record nfc_t4t_tlv_block_file_control_val =
  tlv_file :: nfc_t4t_tlv_block_file
  max_file_size :: u32
  file_id :: u16
  read_access :: u8
  write_access :: u8

record nfc_t4t_tlv_block =
  tlv_value :: nfc_t4t_tlv_block_file_control_val
  tlv_length :: u16
  tlv_type :: u8

section \<open>Operations\<close>

definition max_field_range_verify :: "u32 \<Rightarrow> u32 \<Rightarrow> u32 \<Rightarrow> bool" where
  "max_field_range_verify v mn mx \<longleftrightarrow> \<not> (v < mn \<or> v > mx)"

definition nfc_t4t_file_control_tl_validate :: "u8 \<Rightarrow> u16 \<Rightarrow> unit res" where
  "nfc_t4t_file_control_tl_validate ty len =
     (if ty = NDEF_FILE_CONTROL_TLV then (if len \<noteq> 6 then Inl EINVAL else Inr ())
      else if ty = PROPRIETARY_FILE_CONTROL_TLV then (if len \<noteq> 6 then Inl EINVAL else Inr ())
      else if ty = EXTENDED_NDEF_FILE_CONTROL_TLV then (if len \<noteq> 8 then Inl EINVAL else Inr ())
      else Inl EINVAL)"

text \<open>The value field; the fields that the parser does not set are those of the zeroed block.\<close>

definition nfc_t4t_file_control_value_parse ::
    "u8 \<Rightarrow> u8 list \<Rightarrow> nfc_t4t_tlv_block_file_control_val res" where
  "nfc_t4t_file_control_value_parse ty value_buff =
     bindE (get_be16 value_buff) (\<lambda>fid.
     let value_buff = drop 2 value_buff in
     if fid \<in> {0x0000, 0xE102, 0xE103, 0x3F00, 0x3FFF, 0xFFFF} then Inl EINVAL else
     bindE (if ty = NDEF_FILE_CONTROL_TLV then
              bindE (get_be16 value_buff) (\<lambda>w.
              if \<not> max_field_range_verify (ucast w) 0x0005 0xFFFE then Inl EINVAL
              else Inr (ucast w, drop 2 value_buff))
            else if ty = PROPRIETARY_FILE_CONTROL_TLV then
              bindE (get_be16 value_buff) (\<lambda>w.
              if \<not> max_field_range_verify (ucast w) 0x0003 0xFFFE then Inl EINVAL
              else Inr (ucast w, drop 2 value_buff))
            else if ty = EXTENDED_NDEF_FILE_CONTROL_TLV then
              bindE (get_be32 value_buff) (\<lambda>w.
              if \<not> max_field_range_verify w 0x0000FFFF 0xFFFFFFFE then Inl EINVAL
              else Inr (w, drop 4 value_buff))
            else Inr (0, value_buff)) (\<lambda>(size, value_buff).
     bindE (mem_byte value_buff 0) (\<lambda>ra.
     bindE (mem_byte value_buff 1) (\<lambda>wa.
     Inr \<lparr>tlv_file = \<lparr>file_content = None, file_len = 0\<rparr>, max_file_size = size, file_id = fid,
          read_access = ra, write_access = wa\<rparr>))))"

text \<open>The result is the block and its total length; the sum of the length fields is truncated to 16
  bits.\<close>

definition nfc_t4t_tlv_block_parse :: "u8 list \<Rightarrow> u16 \<Rightarrow> (nfc_t4t_tlv_block \<times> u16) res" where
  "nfc_t4t_tlv_block_parse raw_data len =
     (if len < 2 then Inl ENOMEM else
      bindE (mem_byte raw_data 0) (\<lambda>ty.
      bindE (mem_byte raw_data 1) (\<lambda>b.
      bindE (if b = 0xFF then
               if len < 4 then Inl ENOMEM
               else bindE (get_be16 (drop 2 raw_data)) (\<lambda>l. if l < 0xFF then Inl EINVAL else Inr (l, 4))
             else Inr (ucast b, 2)) (\<lambda>(l, off).
      let tlv_block_len = of_nat off + l in
      if len < tlv_block_len then Inl ENOMEM else
      bindE (nfc_t4t_file_control_tl_validate ty l) (\<lambda>_.
      bindE (nfc_t4t_file_control_value_parse ty (drop off raw_data)) (\<lambda>v.
      Inr (\<lparr>tlv_value = v, tlv_length = l, tlv_type = ty\<rparr>, tlv_block_len)))))))"

text \<open>\<open>nfc_t4t_ndef_file_encode\<close>: the two bytes before the message receive its length, big-endian.\<close>

definition nfc_t4t_ndef_file_encode :: "u8 list option \<Rightarrow> u32 option \<Rightarrow> (u8 list \<times> u32) res" where
  "nfc_t4t_ndef_file_encode file_buf psize = (case (file_buf, psize) of
     (Some buf, Some sz) \<Rightarrow>
       if sz < 1 then Inl EINVAL
       else if sz > 0xFFFF then Inl ENOTSUP
       else bindE (mem_write buf 0 (put_be16 (ucast sz))) (\<lambda>buf'. Inr (buf', sz + 2))
   | _ \<Rightarrow> Inl EINVAL)"

section \<open>The accepted blocks\<close>

definition tlv_value_ok :: "u8 \<Rightarrow> nfc_t4t_tlv_block_file_control_val \<Rightarrow> bool" where
  "tlv_value_ok ty v \<longleftrightarrow> file_id v \<notin> {0x0000, 0xE102, 0xE103, 0x3F00, 0x3FFF, 0xFFFF} \<and>
     tlv_file v = \<lparr>file_content = None, file_len = 0\<rparr> \<and>
     (if ty = NDEF_FILE_CONTROL_TLV then 5 \<le> max_file_size v \<and> max_file_size v \<le> 0xFFFE
      else if ty = PROPRIETARY_FILE_CONTROL_TLV then 3 \<le> max_file_size v \<and> max_file_size v \<le> 0xFFFE
      else ty = EXTENDED_NDEF_FILE_CONTROL_TLV \<and> 0xFFFF \<le> max_file_size v \<and> max_file_size v \<le> 0xFFFFFFFE)"

definition tlv_ok :: "nfc_t4t_tlv_block \<Rightarrow> bool" where
  "tlv_ok b \<longleftrightarrow> tlv_value_ok (tlv_type b) (tlv_value b) \<and>
     tlv_length b = (if tlv_type b = EXTENDED_NDEF_FILE_CONTROL_TLV then 8 else 6)"

definition tlv_value_bytes :: "u8 \<Rightarrow> nfc_t4t_tlv_block_file_control_val \<Rightarrow> u8 list" where
  "tlv_value_bytes ty v = put_be16 (file_id v) @
     (if ty = EXTENDED_NDEF_FILE_CONTROL_TLV then put_be32 (max_file_size v) else put_be16 (ucast (max_file_size v))) @
     [read_access v, write_access v]"

definition tlv_bytes :: "nfc_t4t_tlv_block \<Rightarrow> u8 list" where
  "tlv_bytes b = [tlv_type b, ucast (tlv_length b)] @ tlv_value_bytes (tlv_type b) (tlv_value b)"

lemma length_tlv_bytes:
  "length (tlv_bytes b) = (if tlv_type b = EXTENDED_NDEF_FILE_CONTROL_TLV then 10 else 8)"
  by (simp add: tlv_bytes_def tlv_value_bytes_def)

lemma ucast_u32_u16_id: "w \<le> 0xFFFE \<Longrightarrow> ucast (ucast (w :: u32) :: u16) = w"
proof -
  assume "w \<le> 0xFFFE"
  then have "unat w < 65536" by (simp add: word_le_nat_alt)
  then have "unat (ucast (ucast w :: u16) :: u32) = unat w"
    by (simp only: unat_ucast_u16_u32 unsigned_ucast_eq [where 'a = nat]) (simp add: take_bit_eq_mod)
  then show ?thesis by (rule unsigned_word_eqI)
qed

lemma ucast_u16_u32_u16 [simp]: "ucast (ucast (w :: u16) :: u32) = w"
  by (rule bit_word_eqI) (simp add: bit_simps)

text \<open>Parsing a block that is well-formed gives it back.\<close>

lemma tlv_parse_complete:
  assumes ok: "tlv_ok b" and len: "length (tlv_bytes b) \<le> unat len"
  shows "nfc_t4t_tlv_block_parse (tlv_bytes b @ rest) len = Inr (b, of_nat (length (tlv_bytes b)))"
proof -
  have lg: "\<not> len < 2" using len by (auto simp: length_tlv_bytes word_less_nat_alt split: if_splits)
  have ty: "tlv_type b = 4 \<or> tlv_type b = 5 \<or> tlv_type b = 6"
    using ok by (auto simp: tlv_ok_def tlv_value_ok_def split: if_splits)
  have l: "\<not> len < 2 + tlv_length b"
    using len ok by (auto simp: length_tlv_bytes tlv_ok_def word_less_nat_alt split: if_splits)
  have v: "nfc_t4t_file_control_value_parse (tlv_type b) (tlv_value_bytes (tlv_type b) (tlv_value b) @ rest) =
      Inr (tlv_value b)"
    using ok ty by (cases "tlv_value b") (auto simp: nfc_t4t_file_control_value_parse_def tlv_value_bytes_def tlv_ok_def
        tlv_value_ok_def max_field_range_verify_def mem_byte_def ucast_u32_u16_id not_less Let_def)
  have d: "tlv_bytes b @ rest = tlv_type b # ucast (tlv_length b) # (tlv_value_bytes (tlv_type b) (tlv_value b) @ rest)"
    by (simp add: tlv_bytes_def)
  have u: "ucast (ucast (tlv_length b) :: u8) = tlv_length b" "ucast (tlv_length b) \<noteq> (0xFF :: u8)"
    using ok by (auto simp: tlv_ok_def split: if_splits)
  have t: "nfc_t4t_file_control_tl_validate (tlv_type b) (tlv_length b) = Inr ()"
    using ok ty by (auto simp: nfc_t4t_file_control_tl_validate_def tlv_ok_def)
  have n: "of_nat (length (tlv_bytes b)) = 2 + tlv_length b"
    using ok by (auto simp: length_tlv_bytes tlv_ok_def)
  show ?thesis
    unfolding nfc_t4t_tlv_block_parse_def d n using lg l v t u by (simp add: mem_byte_def Let_def)
qed

text \<open>Conversely, the parser accepts only well-formed blocks, and it takes exactly their bytes.\<close>

lemma mem_byte_1_iff: "mem_byte (a # xs) 1 = Inr b \<longleftrightarrow> (\<exists>ys. xs = b # ys)"
  by (cases xs) (auto simp: mem_byte_def)

lemma tlv_value_parse_sound:
  assumes p: "nfc_t4t_file_control_value_parse ty vb = Inr v" and ty: "ty = 4 \<or> ty = 5 \<or> ty = 6"
  shows "tlv_value_ok ty v \<and> (\<exists>rest. vb = tlv_value_bytes ty v @ rest)"
proof -
  note f = nfc_t4t_file_control_value_parse_def Let_def bindE_eq_Inr get_be16_iff get_be32_iff mem_byte_0_iff
    tlv_value_ok_def tlv_value_bytes_def max_field_range_verify_def
  consider "ty = 4" | "ty = 5" | "ty = 6" using ty by blast
  then show ?thesis
    by cases (use p in \<open>auto simp: f mem_byte_1_iff [simplified] not_less split: if_splits\<close>)
qed

lemma tlv_parse_sound:
  assumes p: "nfc_t4t_tlv_block_parse raw len = Inr (b, n)"
  shows "tlv_ok b \<and> (\<exists>rest. raw = tlv_bytes b @ rest) \<and> unat n = length (tlv_bytes b) \<and> n \<le> len"
proof -
  obtain ty lb l off where
    1: "mem_byte raw 0 = Inr ty" "mem_byte raw 1 = Inr lb" and
    2: "(if lb = 0xFF then
               if len < 4 then Inl ENOMEM
               else bindE (get_be16 (drop 2 raw)) (\<lambda>l. if l < 0xFF then Inl EINVAL else Inr (l, 4))
             else Inr (ucast lb, 2)) = Inr (l, off)" and
    3: "n = of_nat off + l" "n \<le> len" "nfc_t4t_file_control_tl_validate ty l = Inr ()"
      "nfc_t4t_file_control_value_parse ty (drop off raw) = Inr (tlv_value b)" "tlv_length b = l" "tlv_type b = ty"
    using p unfolding nfc_t4t_tlv_block_parse_def Let_def
    by (auto simp only: bindE_eq_Inr if_Inl_eq_Inr split_paired_Ex prod.case Inr_inject prod.inject not_less) auto
  have t: "ty = 4 \<and> l = 6 \<or> ty = 5 \<and> l = 6 \<or> ty = 6 \<and> l = 8"
    using 3(3) by (auto simp: nfc_t4t_file_control_tl_validate_def split: if_splits)
  then have l: "lb \<noteq> 0xFF" "l = ucast lb" "off = 2"
    using 2 by (auto simp: bindE_eq_Inr word_less_nat_alt split: if_splits)
  have lb: "lb = ucast l" using l(2) by (metis ucast_ucast_u8_u16)
  have raw: "raw = ty # lb # drop 2 raw"
    using 1 by (auto simp: mem_byte_0_iff mem_byte_1_iff [simplified])
  have v: "tlv_value_ok ty (tlv_value b)" "\<exists>rest. drop 2 raw = tlv_value_bytes ty (tlv_value b) @ rest"
    using tlv_value_parse_sound [OF 3(4) [unfolded l(3)]] t by auto
  have "\<exists>rest. raw = tlv_bytes b @ rest"
    using raw v(2) lb 3(5,6) by (auto simp: tlv_bytes_def)
  moreover have "tlv_ok b" using t v(1) 3(5,6) by (auto simp: tlv_ok_def)
  moreover have "unat n = length (tlv_bytes b)" using t 3(1,6) l(3) by (auto simp: length_tlv_bytes)
  ultimately show ?thesis using 3(2) by simp
qed

lemma tlv_value_parse_no_ub:
  "6 \<le> length vb \<Longrightarrow> nfc_t4t_file_control_value_parse 4 vb \<noteq> Inl UB"
  "6 \<le> length vb \<Longrightarrow> nfc_t4t_file_control_value_parse 5 vb \<noteq> Inl UB"
  "8 \<le> length vb \<Longrightarrow> nfc_t4t_file_control_value_parse 6 vb \<noteq> Inl UB"
  by (simp_all add: nfc_t4t_file_control_value_parse_def Let_def get_be16_enough get_be32_enough mem_byte_def
      less_diff_conv)

lemma tlv_parse_no_ub:
  assumes len: "unat len \<le> length raw"
  shows "nfc_t4t_tlv_block_parse raw len \<noteq> Inl UB"
  using len tlv_value_parse_no_ub [of "drop 2 raw"]
  by (auto simp: nfc_t4t_tlv_block_parse_def Let_def bindE_eq_Inl mem_byte_def get_be16_enough
      word_less_nat_alt nfc_t4t_file_control_tl_validate_def split: if_splits)

section \<open>Properties\<close>

text \<open>C19: The File Control TLV parser accepts exactly the well-formed blocks: it succeeds with block
  \<open>b\<close> and length \<open>n\<close> if and only if the data starts with the encoding of a block \<open>b\<close> whose type, length, file
  identifier and size limits the Type 4 Tag specification allows, and \<open>n\<close>, the length of that
  encoding, is at most the length given. The 16-bit wrap-around of the block length for long length
  fields lets nothing else through.\<close>

theorem tlv_parse_iff:
  "nfc_t4t_tlv_block_parse raw len = Inr (b, n) \<longleftrightarrow>
     tlv_ok b \<and> (\<exists>rest. raw = tlv_bytes b @ rest) \<and> unat n = length (tlv_bytes b) \<and> n \<le> len"
proof
  assume r: "tlv_ok b \<and> (\<exists>rest. raw = tlv_bytes b @ rest) \<and> unat n = length (tlv_bytes b) \<and> n \<le> len"
  then have "n = of_nat (length (tlv_bytes b))" by (metis word_of_nat_unat_id)
  with r show "nfc_t4t_tlv_block_parse raw len = Inr (b, n)"
    using tlv_parse_complete [of b len] by (auto simp: word_le_nat_alt)
qed (rule tlv_parse_sound)

end
