(* ===== verification/T4t_Cc.thy ===== *)
theory T4t_Cc
  imports T4t_Tlv
begin

text \<open>
  The Capability Container file of a Type 4 Tag (\<open>subsys/nfc/t4t/cc_file.c\<close>): its descriptor, the
  parser and the access to the files its TLV blocks describe. \<open>nfc_t4t_cc_file_content_get\<close> returns
  a pointer into the block array; here it is the index of the block.
\<close>

record nfc_t4t_cc_file =
  cc_tlv_block_array :: "nfc_t4t_tlv_block list option"
  cc_tlv_count :: u16
  cc_max_tlv_blocks :: u16
  cc_len :: u16
  cc_max_rapdu_size :: u16
  cc_max_capdu_size :: u16
  cc_major_version :: u8
  cc_minor_version :: u8

section \<open>Operations\<close>

definition nfc_t4t_cc_args_validate :: "nfc_t4t_cc_file option \<Rightarrow> ptr \<Rightarrow> u16 \<Rightarrow> unit res" where
  "nfc_t4t_cc_args_validate cc raw_data len =
     (case cc of None \<Rightarrow> Inl EFAULT | Some c \<Rightarrow>
      if cc_tlv_block_array c = None \<or> raw_data = None then Inl EFAULT
      else if len < 0x000F \<or> len > 0xFFFE then Inl EINVAL
      else if cc_max_tlv_blocks c = 0 then Inl ENOMEM
      else Inr ())"

definition nfc_t4t_cc_file_validate :: "nfc_t4t_cc_file \<Rightarrow> unit res" where
  "nfc_t4t_cc_file_validate c =
     (case cc_tlv_block_array c of None \<Rightarrow> Inl UB | Some [] \<Rightarrow> Inl UB
      | Some (b # _) \<Rightarrow>
          if (cc_major_version c = 3 \<and> tlv_type b = EXTENDED_NDEF_FILE_CONTROL_TLV) \<or>
             (cc_major_version c = 2 \<and> tlv_type b = NDEF_FILE_CONTROL_TLV)
          then Inr () else Inl EINVAL)"

definition nfc_t4t_cc_file_clear :: "nfc_t4t_cc_file \<Rightarrow> nfc_t4t_cc_file" where
  "nfc_t4t_cc_file_clear c = c\<lparr>cc_tlv_count := 0\<rparr>"

definition nfc_t4t_tlv_block_insert :: "nfc_t4t_cc_file \<Rightarrow> nfc_t4t_tlv_block \<Rightarrow> nfc_t4t_cc_file res" where
  "nfc_t4t_tlv_block_insert c b =
     (if cc_tlv_count c = cc_max_tlv_blocks c then Inl ENOMEM
      else case cc_tlv_block_array c of None \<Rightarrow> Inl UB
        | Some bs \<Rightarrow> if unat (cc_tlv_count c) < length bs
            then Inr (c\<lparr>cc_tlv_block_array := Some (bs[unat (cc_tlv_count c) := b]),
                        cc_tlv_count := cc_tlv_count c + 1\<rparr>)
            else Inl UB)"

text \<open>The loop ends because every parsed block has at least eight bytes.\<close>

function cc_parse_loop :: "nfc_t4t_cc_file \<Rightarrow> u8 list \<Rightarrow> u16 \<Rightarrow> nfc_t4t_cc_file res" where
  "cc_parse_loop c offset len =
     (if len > 0 then
        bindE (nfc_t4t_tlv_block_parse offset len) (\<lambda>(b, tlv_len).
        bindE (nfc_t4t_tlv_block_insert c b) (\<lambda>c'.
        cc_parse_loop c' (drop (unat tlv_len) offset) (len - tlv_len)))
      else Inr c)"
  by pat_completeness auto
termination
proof (relation "measure (\<lambda>(_, _, len). unat len)", goal_cases)
  case (2 c offset len x b n)
  have "unat n = length (tlv_bytes b)" "n \<le> len"
    using tlv_parse_sound [of offset len b n] 2(2,3) by simp_all
  then have "unat (len - n) = unat len - unat n" "0 < unat n" "unat n \<le> unat len"
    by (simp_all add: unat_sub word_le_nat_alt length_tlv_bytes)
  then show ?case by simp
qed simp

declare cc_parse_loop.simps [simp del]

definition nfc_t4t_cc_file_parse :: "nfc_t4t_cc_file option \<Rightarrow> ptr \<Rightarrow> u16 \<Rightarrow> nfc_t4t_cc_file res" where
  "nfc_t4t_cc_file_parse cc raw_data len =
     bindE (nfc_t4t_cc_args_validate cc raw_data len) (\<lambda>_.
     let c = nfc_t4t_cc_file_clear (the cc); raw = the raw_data in
     bindE (get_be16 raw) (\<lambda>cclen.
     bindE (mem_byte raw 2) (\<lambda>ver.
     bindE (get_be16 (drop 3 raw)) (\<lambda>mle.
     bindE (get_be16 (drop 5 raw)) (\<lambda>mlc.
     bindE (cc_parse_loop (c\<lparr>cc_len := cclen, cc_major_version := drop_bit 4 ver AND 0x0F,
              cc_minor_version := ver AND 0x0F, cc_max_rapdu_size := mle, cc_max_capdu_size := mlc\<rparr>)
              (drop 7 raw) (len - 7)) (\<lambda>c.
     bindE (nfc_t4t_cc_file_validate c) (\<lambda>_. Inr c)))))))"

fun cc_find :: "nfc_t4t_tlv_block list \<Rightarrow> nat \<Rightarrow> nat \<Rightarrow> u16 \<Rightarrow> nat option res" where
  "cc_find bs i 0 fid = Inr None"
| "cc_find bs i (Suc n) fid =
     (if i < length bs
      then if file_id (tlv_value (bs ! i)) = fid then Inr (Some i) else cc_find bs (Suc i) n fid
      else Inl UB)"

definition nfc_t4t_cc_file_content_get :: "nfc_t4t_cc_file \<Rightarrow> u16 \<Rightarrow> nat option res" where
  "nfc_t4t_cc_file_content_get c fid =
     cc_find (case cc_tlv_block_array c of None \<Rightarrow> [] | Some bs \<Rightarrow> bs) 0 (unat (cc_tlv_count c)) fid"

definition nfc_t4t_cc_file_content_set ::
    "nfc_t4t_cc_file \<Rightarrow> nfc_t4t_tlv_block_file \<Rightarrow> u16 \<Rightarrow> nfc_t4t_cc_file res" where
  "nfc_t4t_cc_file_content_set c file fid =
     bindE (nfc_t4t_cc_file_content_get c fid) (\<lambda>r. case r of None \<Rightarrow> Inl EACCES
       | Some i \<Rightarrow>
           Inr (c\<lparr>cc_tlv_block_array := map_option (\<lambda>bs. bs[i := (bs ! i)\<lparr>tlv_value :=
                    (tlv_value (bs ! i))\<lparr>tlv_file := file\<rparr>\<rparr>]) (cc_tlv_block_array c)\<rparr>))"

section \<open>The descriptor invariant\<close>

definition cc_inv :: "nfc_t4t_cc_file \<Rightarrow> bool" where
  "cc_inv c \<longleftrightarrow> (\<exists>bs. cc_tlv_block_array c = Some bs \<and> length bs = unat (cc_max_tlv_blocks c)) \<and>
     cc_tlv_count c \<le> cc_max_tlv_blocks c"

definition cc_blocks :: "nfc_t4t_cc_file \<Rightarrow> nfc_t4t_tlv_block list" where
  "cc_blocks c = (case cc_tlv_block_array c of None \<Rightarrow> [] | Some bs \<Rightarrow> take (unat (cc_tlv_count c)) bs)"

lemma length_cc_blocks: "cc_inv c \<Longrightarrow> length (cc_blocks c) = unat (cc_tlv_count c)"
  by (auto simp: cc_inv_def cc_blocks_def word_le_nat_alt)

interpretation ccs: bounded_list nfc_t4t_tlv_block_insert nfc_t4t_cc_file_clear cc_blocks
    "\<lambda>c. unat (cc_max_tlv_blocks c)" cc_inv ENOMEM
proof unfold_locales
  fix c :: nfc_t4t_cc_file and b :: nfc_t4t_tlv_block
  assume inv: "cc_inv c"
  then obtain bs where bs: "cc_tlv_block_array c = Some bs" "length bs = unat (cc_max_tlv_blocks c)"
    by (auto simp: cc_inv_def)
  note l = length_cc_blocks [OF inv]
  show "\<exists>c'. nfc_t4t_tlv_block_insert c b = Inr c' \<and> cc_inv c' \<and> cc_blocks c' = cc_blocks c @ [b] \<and>
      unat (cc_max_tlv_blocks c') = unat (cc_max_tlv_blocks c)"
    if lt: "length (cc_blocks c) < unat (cc_max_tlv_blocks c)"
  proof -
    have s: "unat (cc_tlv_count c + 1) = unat (cc_tlv_count c) + 1"
      using lt l unat_u16_lt [of "cc_max_tlv_blocks c"] by (simp add: unat_word_ariths)
    show ?thesis
      using lt l bs s by (auto simp: nfc_t4t_tlv_block_insert_def cc_inv_def cc_blocks_def word_le_nat_alt
          take_Suc_conv_app_nth)
  qed
  show "nfc_t4t_tlv_block_insert c b = Inl ENOMEM" if "unat (cc_max_tlv_blocks c) \<le> length (cc_blocks c)"
    using that l inv by (simp add: nfc_t4t_tlv_block_insert_def cc_inv_def word_le_nat_alt word_unat_eq_iff)
  show "cc_inv (nfc_t4t_cc_file_clear c) \<and> cc_blocks (nfc_t4t_cc_file_clear c) = [] \<and>
      unat (cc_max_tlv_blocks (nfc_t4t_cc_file_clear c)) = unat (cc_max_tlv_blocks c)"
    using inv by (auto simp: nfc_t4t_cc_file_clear_def cc_inv_def cc_blocks_def)
qed

lemma insert_fields:
  "nfc_t4t_tlv_block_insert c b = Inr c' \<Longrightarrow>
   cc_len c' = cc_len c \<and> cc_major_version c' = cc_major_version c \<and> cc_minor_version c' = cc_minor_version c \<and>
   cc_max_rapdu_size c' = cc_max_rapdu_size c \<and> cc_max_capdu_size c' = cc_max_capdu_size c"
  by (auto simp: nfc_t4t_tlv_block_insert_def split: if_splits option.splits)

lemma insert_all_fields:
  "foldE nfc_t4t_tlv_block_insert c bs = Inr c' \<Longrightarrow>
   cc_len c' = cc_len c \<and> cc_major_version c' = cc_major_version c \<and> cc_minor_version c' = cc_minor_version c \<and>
   cc_max_rapdu_size c' = cc_max_rapdu_size c \<and> cc_max_capdu_size c' = cc_max_capdu_size c"
  by (induction bs arbitrary: c) (auto simp: bindE_eq_Inr dest!: insert_fields)

section \<open>The loop over the blocks\<close>

lemma cc_parse_loop_complete:
  assumes "list_all tlv_ok bs" "length (concat (map tlv_bytes bs)) = unat len"
  shows "cc_parse_loop c (concat (map tlv_bytes bs) @ rest) len = foldE nfc_t4t_tlv_block_insert c bs"
  using assms
proof (induction bs arbitrary: c len)
  case Nil
  then show ?case by (simp add: cc_parse_loop.simps unsigned_eq_0_iff)
next
  case (Cons b bs)
  let ?n = "of_nat (length (tlv_bytes b)) :: u16"
  have le: "length (tlv_bytes b) \<le> unat len" using Cons.prems by simp
  have n: "unat ?n = length (tlv_bytes b)" by (simp add: length_tlv_bytes)
  have sub: "unat (len - ?n) = unat len - length (tlv_bytes b)"
    using le n by (simp add: unat_sub word_le_nat_alt)
  have pos: "len > 0" using le by (simp add: length_tlv_bytes word_less_nat_alt split: if_splits)
  have "nfc_t4t_tlv_block_parse (tlv_bytes b @ concat (map tlv_bytes bs) @ rest) len = Inr (b, ?n)"
    using tlv_parse_complete [OF _ le] Cons.prems by simp
  moreover have "cc_parse_loop c' (concat (map tlv_bytes bs) @ rest) (len - ?n) = foldE nfc_t4t_tlv_block_insert c' bs" for c'
    using Cons.prems sub by (intro Cons.IH) simp_all
  ultimately show ?case
    using pos n by (subst cc_parse_loop.simps) simp
qed

lemma cc_parse_loop_sound:
  "cc_parse_loop c raw len = Inr c' \<Longrightarrow>
   \<exists>bs rest. raw = concat (map tlv_bytes bs) @ rest \<and> length (concat (map tlv_bytes bs)) = unat len \<and>
     list_all tlv_ok bs \<and> foldE nfc_t4t_tlv_block_insert c bs = Inr c'"
proof (induction c raw len rule: cc_parse_loop.induct)
  case (1 c raw len)
  show ?case
  proof (cases "len > 0")
    case True
    with "1.prems" obtain b n c1 where p: "nfc_t4t_tlv_block_parse raw len = Inr (b, n)"
        and i: "nfc_t4t_tlv_block_insert c b = Inr c1"
        and l: "cc_parse_loop c1 (drop (unat n) raw) (len - n) = Inr c'"
      by (subst (asm) cc_parse_loop.simps) (auto simp: bindE_eq_Inr)
    from "1.IH" [OF True p refl i l] obtain bs rest where
      bs: "drop (unat n) raw = concat (map tlv_bytes bs) @ rest" "length (concat (map tlv_bytes bs)) = unat (len - n)"
        "list_all tlv_ok bs" "foldE nfc_t4t_tlv_block_insert c1 bs = Inr c'" by blast
    from tlv_parse_sound [OF p] obtain r where
      b: "tlv_ok b" "raw = tlv_bytes b @ r" "unat n = length (tlv_bytes b)" "n \<le> len" by blast
    have "raw = concat (map tlv_bytes (b # bs)) @ rest" using b bs(1) by simp
    moreover have "length (concat (map tlv_bytes (b # bs))) = unat len"
      using b(3,4) bs(2) by (simp add: unat_sub word_le_nat_alt)
    ultimately show ?thesis using b(1) bs(3,4) i by (intro exI [of _ "b # bs"] exI [of _ rest]) simp
  next
    case False
    then have "len = 0" by (simp add: word_less_nat_alt unsigned_eq_0_iff)
    then show ?thesis using "1.prems"
      by (intro exI [of _ "[]"] exI [of _ raw]) (simp add: cc_parse_loop.simps)
  qed
qed

lemma cc_parse_loop_no_ub:
  "cc_inv c \<Longrightarrow> unat len \<le> length raw \<Longrightarrow> cc_parse_loop c raw len \<noteq> Inl UB"
proof (induction c raw len rule: cc_parse_loop.induct)
  case (1 c raw len)
  have nub: "nfc_t4t_tlv_block_parse raw len \<noteq> Inl UB" by (rule tlv_parse_no_ub [OF "1.prems"(2)])
  show ?case
  proof (cases "nfc_t4t_tlv_block_parse raw len")
    case (Inl e)
    then show ?thesis using nub by (subst cc_parse_loop.simps) simp
  next
    case (Inr x)
    then obtain b n where p: "nfc_t4t_tlv_block_parse raw len = Inr (b, n)" by (cases x) auto
    have n: "n \<le> len" using tlv_parse_sound [OF p] by blast
    have i: "nfc_t4t_tlv_block_insert c b \<noteq> Inl UB" by (rule ccs.add_no_ub [OF "1.prems"(1)]) simp
    show ?thesis
    proof (cases "nfc_t4t_tlv_block_insert c b")
      case e: (Inl e)
      then show ?thesis using p i by (subst cc_parse_loop.simps) simp
    next
      case c1: (Inr c1)
      then have "cc_inv c1"
        using ccs.add_fits [OF "1.prems"(1), of b] ccs.add_full [OF "1.prems"(1), of b]
        by (cases "length (cc_blocks c) < unat (cc_max_tlv_blocks c)") auto
      moreover have "unat (len - n) \<le> length (drop (unat n) raw)"
        using n "1.prems"(2) by (simp add: unat_sub word_le_nat_alt)
      ultimately have "len > 0 \<Longrightarrow> cc_parse_loop c1 (drop (unat n) raw) (len - n) \<noteq> Inl UB"
        using "1.IH" [OF _ p refl c1] by blast
      then show ?thesis using p c1 by (subst cc_parse_loop.simps) simp
    qed
  qed
qed

section \<open>Files\<close>

definition cc_header_bytes :: "nfc_t4t_cc_file \<Rightarrow> u8 list" where
  "cc_header_bytes c = put_be16 (cc_len c) @ [push_bit 4 (cc_major_version c) OR cc_minor_version c] @
     put_be16 (cc_max_rapdu_size c) @ put_be16 (cc_max_capdu_size c)"

definition cc_bytes :: "nfc_t4t_cc_file \<Rightarrow> u8 list" where
  "cc_bytes c = cc_header_bytes c @ concat (map tlv_bytes (cc_blocks c))"

text \<open>What a parsed descriptor looks like: versions are nibbles, the first block is the NDEF file that
  the version asks for.\<close>

definition cc_ok :: "nfc_t4t_cc_file \<Rightarrow> bool" where
  "cc_ok c \<longleftrightarrow> list_all tlv_ok (cc_blocks c) \<and> cc_minor_version c AND 0x0F = cc_minor_version c \<and>
     (\<exists>b bs. cc_blocks c = b # bs \<and>
        (cc_major_version c = 3 \<and> tlv_type b = EXTENDED_NDEF_FILE_CONTROL_TLV \<or>
         cc_major_version c = 2 \<and> tlv_type b = NDEF_FILE_CONTROL_TLV))"

lemma nibbles_join: "push_bit 4 (drop_bit 4 v AND 0x0F) OR (v AND 0x0F) = (v :: u8)"
proof (rule bit_word_eqI)
  fix n assume "n < LENGTH(8)"
  then have "n \<in> {0, 1, 2, 3, 4, 5, 6, 7}" by auto
  then show "bit (push_bit 4 (drop_bit 4 v AND 0x0F) OR (v AND 0x0F)) n = bit v n"
    by (auto simp: bit_simps)
qed

lemma cc_nibbles:
  assumes "b AND 0x0F = b" "a = 2 \<or> a = 3"
  shows "drop_bit 4 (push_bit 4 a OR b) AND 0x0F = (a :: u8)" "(push_bit 4 a OR b) AND 0x0F = b"
proof -
  have i: "n \<in> {0, 1, 2, 3, 4, 5, 6, 7}" if "n < LENGTH(8)" for n :: nat
    using that by auto
  have h: "\<not> bit b 4" "\<not> bit b 5" "\<not> bit b 6" "\<not> bit b 7"
    using arg_cong [OF assms(1), of "\<lambda>w. bit w 4"] arg_cong [OF assms(1), of "\<lambda>w. bit w 5"]
      arg_cong [OF assms(1), of "\<lambda>w. bit w 6"] arg_cong [OF assms(1), of "\<lambda>w. bit w 7"]
    by (auto simp: bit_simps)
  show "drop_bit 4 (push_bit 4 a OR b) AND 0x0F = a"
    using assms(2) by (intro bit_word_eqI, drule_tac i) (auto simp: bit_simps h)
  show "(push_bit 4 a OR b) AND 0x0F = b"
    by (rule bit_word_eqI, drule i) (auto simp: bit_simps h)
qed

lemma cc_validate_blocks:
  assumes "cc_inv c" "cc_blocks c \<noteq> []"
  shows "nfc_t4t_cc_file_validate c = Inr () \<longleftrightarrow>
     (\<exists>b bs. cc_blocks c = b # bs \<and>
        (cc_major_version c = 3 \<and> tlv_type b = EXTENDED_NDEF_FILE_CONTROL_TLV \<or>
         cc_major_version c = 2 \<and> tlv_type b = NDEF_FILE_CONTROL_TLV))"
    "nfc_t4t_cc_file_validate c \<noteq> Inl UB"
proof -
  obtain b xs where "cc_tlv_block_array c = Some (b # xs)"
    using assms by (auto simp: cc_inv_def cc_blocks_def) (metis list.exhaust list.size(3) take_Nil)
  moreover obtain n where "unat (cc_tlv_count c) = Suc n"
    using assms calculation by (cases "unat (cc_tlv_count c)") (auto simp: cc_blocks_def)
  ultimately show "nfc_t4t_cc_file_validate c = Inr () \<longleftrightarrow>
     (\<exists>b bs. cc_blocks c = b # bs \<and>
        (cc_major_version c = 3 \<and> tlv_type b = EXTENDED_NDEF_FILE_CONTROL_TLV \<or>
         cc_major_version c = 2 \<and> tlv_type b = NDEF_FILE_CONTROL_TLV))" "nfc_t4t_cc_file_validate c \<noteq> Inl UB"
    by (auto simp: nfc_t4t_cc_file_validate_def cc_blocks_def)
qed

lemma cc_header_split:
  assumes "7 \<le> length raw"
  obtains cl v ml mc where "raw = put_be16 cl @ [v] @ put_be16 ml @ put_be16 mc @ drop 7 raw"
    "get_be16 raw = Inr cl" "mem_byte raw 2 = Inr v" "get_be16 (drop 3 raw) = Inr ml" "get_be16 (drop 5 raw) = Inr mc"
proof -
  obtain a b c d e f g r where "raw = a # b # c # d # e # f # g # r"
    using assms by (auto simp: eval_nat_numeral Suc_le_length_iff)
  then have "raw = put_be16 (be16 a b) @ [c] @ put_be16 (be16 d e) @ put_be16 (be16 f g) @ drop 7 raw"
      "get_be16 raw = Inr (be16 a b)" "mem_byte raw 2 = Inr c" "get_be16 (drop 3 raw) = Inr (be16 d e)"
      "get_be16 (drop 5 raw) = Inr (be16 f g)"
    by (simp_all add: get_be16_def mem_byte_def)
  then show ?thesis by (rule that)
qed

section \<open>Properties\<close>

definition sample_tlv :: nfc_t4t_tlv_block where
  "sample_tlv = \<lparr>tlv_value = \<lparr>tlv_file = \<lparr>file_content = None, file_len = 0\<rparr>, max_file_size = 0xFF, file_id = 0xE104,
     read_access = 0, write_access = 0\<rparr>, tlv_length = 6, tlv_type = 4\<rparr>"

definition sample_cc :: "nfc_t4t_tlv_block list \<Rightarrow> u16 \<Rightarrow> nfc_t4t_cc_file" where
  "sample_cc bs n = \<lparr>cc_tlv_block_array = Some bs, cc_tlv_count = n, cc_max_tlv_blocks = 2, cc_len = 15,
     cc_max_rapdu_size = 0x3B, cc_max_capdu_size = 0x34, cc_major_version = 2, cc_minor_version = 0\<rparr>"

lemma sample_cc_ok: "cc_inv (sample_cc [sample_tlv, sample_tlv] 1)" "cc_ok (sample_cc [sample_tlv, sample_tlv] 1)"
    "cc_blocks (sample_cc [sample_tlv, sample_tlv] 1) = [sample_tlv]"
    "cc_bytes (sample_cc [sample_tlv, sample_tlv] 1) = [0, 15, 0x20, 0, 0x3B, 0, 0x34, 4, 6, 0xE1, 4, 0, 0xFF, 0, 0]"
  by (simp_all add: cc_inv_def cc_ok_def cc_blocks_def sample_cc_def sample_tlv_def tlv_ok_def tlv_value_ok_def
      cc_bytes_def cc_header_bytes_def tlv_bytes_def tlv_value_bytes_def put_be16_def)

text \<open>C20: When the Capability Container parser accepts a file, the resulting descriptor is well-formed
  (valid blocks, the first one the NDEF or extended NDEF file that the mapping version asks for) and
  the first \<open>len\<close> bytes of the input are exactly its encoding: nothing is skipped or made up.\<close>

theorem cc_parse_sound:
  assumes "nfc_t4t_cc_file_parse (Some c) (Some raw) len = Inr c'" "cc_inv c" "unat len \<le> length raw"
  shows "cc_inv c' \<and> cc_ok c' \<and> take (unat len) raw = cc_bytes c' \<and>
     cc_max_tlv_blocks c' = cc_max_tlv_blocks c"
proof -
  have a: "nfc_t4t_cc_args_validate (Some c) (Some raw) len = Inr ()"
    using assms(1) by (auto simp: nfc_t4t_cc_file_parse_def bindE_eq_Inr)
  then have l: "15 \<le> unat len"
    by (auto simp: nfc_t4t_cc_args_validate_def word_less_nat_alt split: if_splits)
  then have l7: "7 \<le> length raw" using assms(3) by simp
  from cc_header_split [OF this] obtain cl v ml mc where
    h: "raw = put_be16 cl @ [v] @ put_be16 ml @ put_be16 mc @ drop 7 raw"
      "get_be16 raw = Inr cl" "mem_byte raw 2 = Inr v" "get_be16 (drop 3 raw) = Inr ml" "get_be16 (drop 5 raw) = Inr mc"
    by blast
  define c0 where "c0 = (nfc_t4t_cc_file_clear c)\<lparr>cc_len := cl, cc_major_version := drop_bit 4 v AND 0x0F,
      cc_minor_version := v AND 0x0F, cc_max_rapdu_size := ml, cc_max_capdu_size := mc\<rparr>"
  have p: "cc_parse_loop c0 (drop 7 raw) (len - 7) = Inr c'" "nfc_t4t_cc_file_validate c' = Inr ()"
    using assms(1) by (auto simp: nfc_t4t_cc_file_parse_def a h(2-5) Let_def bindE_eq_Inr c0_def)
  have inv0: "cc_inv c0" "cc_blocks c0 = []"
    using assms(2) by (auto simp: c0_def cc_inv_def cc_blocks_def nfc_t4t_cc_file_clear_def)
  have s7: "unat (len - 7) = unat len - 7" using l by (simp add: unat_sub word_le_nat_alt)
  obtain bs rest where bs: "drop 7 raw = concat (map tlv_bytes bs) @ rest"
      "length (concat (map tlv_bytes bs)) = unat len - 7" "list_all tlv_ok bs"
      "foldE nfc_t4t_tlv_block_insert c0 bs = Inr c'"
    using cc_parse_loop_sound [OF p(1)] s7 by auto
  have c': "cc_inv c'" "cc_blocks c' = bs" "unat (cc_max_tlv_blocks c') = unat (cc_max_tlv_blocks c0)"
    using ccs.add_all [OF inv0(1), of bs] bs(4) inv0(2) by (auto split: if_splits)
  have ne: "bs \<noteq> []" using bs(2) l by auto
  note f = insert_all_fields [OF bs(4)]
  have "cc_ok c'"
    using cc_validate_blocks(1) [OF c'(1)] p(2) ne bs(3) c'(2) f by (simp add: cc_ok_def c0_def and.assoc)
  moreover have "take (unat len) raw = cc_bytes c'"
  proof -
    have "push_bit 4 (cc_major_version c') OR cc_minor_version c' = v"
      using f nibbles_join [of v] by (simp add: c0_def)
    then have "raw = cc_bytes c' @ rest"
      using h(1) bs(1) f by (simp add: cc_bytes_def cc_header_bytes_def c'(2) c0_def)
    moreover have "length (cc_bytes c') = unat len"
      using bs(2) l c'(2) by (simp add: cc_bytes_def cc_header_bytes_def)
    ultimately show ?thesis by simp
  qed
  ultimately show ?thesis
    using c' by (simp add: c0_def nfc_t4t_cc_file_clear_def word_unat_eq_iff)
qed

theorem cc_parse_sound_witness:
  "\<exists>c'. nfc_t4t_cc_file_parse (Some (sample_cc [sample_tlv, sample_tlv] 0))
       (Some [0, 15, 0x20, 0, 0x3B, 0, 0x34, 4, 6, 0xE1, 4, 0, 0xFF, 0, 0]) 15 = Inr c' \<and> cc_ok c' \<and>
     cc_bytes c' = [0, 15, 0x20, 0, 0x3B, 0, 0x34, 4, 6, 0xE1, 4, 0, 0xFF, 0, 0]"
proof -
  have i: "cc_inv (sample_cc [sample_tlv, sample_tlv] 0)" by (simp add: cc_inv_def sample_cc_def)
  have a: "nfc_t4t_tlv_block_parse [4, 6, 0xE1, 4, 0, 0xFF, 0, 0] 8 = Inr (sample_tlv, 8)"
    by (subst tlv_parse_iff) (simp add: sample_tlv_def tlv_ok_def tlv_value_ok_def tlv_bytes_def tlv_value_bytes_def
        put_be16_def)
  obtain c' where p: "nfc_t4t_cc_file_parse (Some (sample_cc [sample_tlv, sample_tlv] 0))
       (Some [0, 15, 0x20, 0, 0x3B, 0, 0x34, 4, 6, 0xE1, 4, 0, 0xFF, 0, 0]) 15 = Inr c'"
    by (simp add: nfc_t4t_cc_file_parse_def nfc_t4t_cc_args_validate_def Let_def get_be16_def be16_def mem_byte_def
        cc_parse_loop.simps a nfc_t4t_tlv_block_insert_def nfc_t4t_cc_file_clear_def nfc_t4t_cc_file_validate_def)
      (simp add: sample_cc_def sample_tlv_def)
  show ?thesis using cc_parse_sound [OF p i] p by simp
qed

text \<open>C21: The parser accepts the encoding of every well-formed descriptor that has room for its blocks,
  and returns that descriptor (over the caller's block array).\<close>

theorem cc_parse_complete:
  assumes ok: "cc_ok d" "cc_inv c" "length (cc_blocks d) \<le> unat (cc_max_tlv_blocks c)"
    and len: "unat len = length (cc_bytes d)" "length (cc_bytes d) \<le> 0xFFFE"
  shows "\<exists>c'. nfc_t4t_cc_file_parse (Some c) (Some (cc_bytes d @ rest)) len = Inr c' \<and> cc_inv c' \<and>
     cc_blocks c' = cc_blocks d \<and> cc_len c' = cc_len d \<and> cc_major_version c' = cc_major_version d \<and>
     cc_minor_version c' = cc_minor_version d \<and> cc_max_rapdu_size c' = cc_max_rapdu_size d \<and>
     cc_max_capdu_size c' = cc_max_capdu_size d"
proof -
  obtain b bs where bl: "cc_blocks d = b # bs" "list_all tlv_ok (cc_blocks d)"
      "cc_major_version d = 3 \<and> tlv_type b = 6 \<or> cc_major_version d = 2 \<and> tlv_type b = 4"
      "cc_minor_version d AND 0x0F = cc_minor_version d"
    using ok(1) by (auto simp: cc_ok_def)
  let ?raw = "cc_bytes d @ rest" and ?body = "concat (map tlv_bytes (cc_blocks d))"
  let ?v = "push_bit 4 (cc_major_version d) OR cc_minor_version d"
  have r: "?raw = put_be16 (cc_len d) @ [?v] @ put_be16 (cc_max_rapdu_size d) @ put_be16 (cc_max_capdu_size d) @ ?body @ rest"
    by (simp add: cc_bytes_def cc_header_bytes_def)
  have lb: "length (cc_bytes d) = 7 + length ?body" by (simp add: cc_bytes_def cc_header_bytes_def)
  have "8 \<le> length ?body" by (simp add: bl(1) length_tlv_bytes)
  then have l15: "15 \<le> unat len" using len lb by simp
  have mx: "cc_max_tlv_blocks c \<noteq> 0" using ok(3) bl(1) by auto
  have va: "nfc_t4t_cc_args_validate (Some c) (Some ?raw) len = Inr ()"
    using l15 len mx ok(2) by (auto simp: nfc_t4t_cc_args_validate_def cc_inv_def word_less_nat_alt)
  have v: "drop_bit 4 ?v AND 0x0F = cc_major_version d" "?v AND 0x0F = cc_minor_version d"
    using cc_nibbles [OF bl(4), of "cc_major_version d"] bl(3) by auto
  define c0 where "c0 = (nfc_t4t_cc_file_clear c)\<lparr>cc_len := cc_len d, cc_major_version := cc_major_version d,
      cc_minor_version := cc_minor_version d, cc_max_rapdu_size := cc_max_rapdu_size d,
      cc_max_capdu_size := cc_max_capdu_size d\<rparr>"
  have inv0: "cc_inv c0" "cc_blocks c0 = []" "cc_max_tlv_blocks c0 = cc_max_tlv_blocks c"
    using ok(2) by (auto simp: c0_def cc_inv_def cc_blocks_def nfc_t4t_cc_file_clear_def)
  obtain c' where c': "foldE nfc_t4t_tlv_block_insert c0 (cc_blocks d) = Inr c'" "cc_inv c'" "cc_blocks c' = cc_blocks d"
    using ccs.add_all_fits [OF inv0(1), of "cc_blocks d"] inv0 ok(3) by auto
  note f = insert_all_fields [OF c'(1)]
  have "length ?body = unat (len - 7)" using l15 len lb by (simp add: unat_sub word_le_nat_alt)
  then have lp: "cc_parse_loop c0 (?body @ rest) (len - 7) = Inr c'"
    using cc_parse_loop_complete [OF bl(2)] c'(1) by simp
  have "nfc_t4t_cc_file_validate c' = Inr ()"
    using cc_validate_blocks(1) [OF c'(2)] c'(3) bl f by (simp add: c0_def)
  then have "nfc_t4t_cc_file_parse (Some c) (Some ?raw) len = Inr c'"
    unfolding nfc_t4t_cc_file_parse_def va bindE_simps Let_def option.sel unfolding r
    using lp v by (simp add: mem_byte_def c0_def put_be16_def get_be16_def numeral_3_eq_3)
  then show ?thesis using c' f by (simp add: c0_def)
qed

theorem cc_parse_complete_witness:
  "\<exists>c'. nfc_t4t_cc_file_parse (Some (sample_cc [sample_tlv, sample_tlv] 0))
       (Some ([0, 15, 0x20, 0, 0x3B, 0, 0x34, 4, 6, 0xE1, 4, 0, 0xFF, 0, 0] @ [7])) 15 = Inr c' \<and>
     cc_blocks c' = [sample_tlv]"
proof -
  have i: "cc_inv (sample_cc [sample_tlv, sample_tlv] 0)" "unat (cc_max_tlv_blocks (sample_cc [sample_tlv, sample_tlv] 0)) = 2"
    by (simp_all add: cc_inv_def sample_cc_def)
  show ?thesis
    using cc_parse_complete [OF sample_cc_ok(2) i(1), of 15 "[7]"] i(2) by (auto simp: sample_cc_ok(3,4))
qed

text \<open>On any data of the declared length, the Capability Container parser neither reads outside the
  data nor writes outside the block array of the descriptor.\<close>

lemma cc_parse_no_ub:
  assumes "cc_inv c" "unat len \<le> length raw"
  shows "nfc_t4t_cc_file_parse (Some c) (Some raw) len \<noteq> Inl UB"
proof (cases "nfc_t4t_cc_args_validate (Some c) (Some raw) len")
  case (Inl e)
  then have "e \<noteq> UB" by (auto simp: nfc_t4t_cc_args_validate_def split: if_splits)
  then show ?thesis using Inl by (simp add: nfc_t4t_cc_file_parse_def)
next
  case (Inr u)
  then have l: "15 \<le> unat len"
    by (auto simp: nfc_t4t_cc_args_validate_def word_less_nat_alt split: if_splits)
  then have "7 \<le> length raw" using assms(2) by simp
  from cc_header_split [OF this] obtain cl v ml mc where
    "raw = put_be16 cl @ [v] @ put_be16 ml @ put_be16 mc @ drop 7 raw" and
    h: "get_be16 raw = Inr cl" "mem_byte raw 2 = Inr v" "get_be16 (drop 3 raw) = Inr ml" "get_be16 (drop 5 raw) = Inr mc"
    by blast
  define c0 where "c0 = (nfc_t4t_cc_file_clear c)\<lparr>cc_len := cl, cc_major_version := drop_bit 4 v AND 0x0F,
      cc_minor_version := v AND 0x0F, cc_max_rapdu_size := ml, cc_max_capdu_size := mc\<rparr>"
  have inv0: "cc_inv c0" "cc_blocks c0 = []"
    using assms(1) by (auto simp: c0_def cc_inv_def cc_blocks_def nfc_t4t_cc_file_clear_def)
  have s7: "unat (len - 7) = unat len - 7" using l by (simp add: unat_sub word_le_nat_alt)
  have "cc_parse_loop c0 (drop 7 raw) (len - 7) \<noteq> Inl UB"
    using assms(2) s7 by (intro cc_parse_loop_no_ub [OF inv0(1)]) simp
  moreover have "nfc_t4t_cc_file_validate c' \<noteq> Inl UB" if p: "cc_parse_loop c0 (drop 7 raw) (len - 7) = Inr c'" for c'
  proof -
    from cc_parse_loop_sound [OF p] obtain bs where
      bs: "length (concat (map tlv_bytes bs)) = unat len - 7" "foldE nfc_t4t_tlv_block_insert c0 bs = Inr c'"
      unfolding s7 by blast
    have "cc_inv c'" "cc_blocks c' = bs"
      using ccs.add_all [OF inv0(1), of bs] bs(2) inv0(2) by (auto split: if_splits)
    moreover have "bs \<noteq> []" using bs(1) l by auto
    ultimately show ?thesis by (simp add: cc_validate_blocks(2))
  qed
  moreover have "nfc_t4t_cc_file_parse (Some c) (Some raw) len =
      bindE (cc_parse_loop c0 (drop 7 raw) (len - 7)) (\<lambda>c. bindE (nfc_t4t_cc_file_validate c) (\<lambda>_. Inr c))"
    unfolding nfc_t4t_cc_file_parse_def Inr bindE_simps Let_def option.sel h c0_def ..
  ultimately show ?thesis by (simp add: bindE_eq_Inl)
qed

lemma cc_parse_no_ub_witness:
  "nfc_t4t_cc_file_parse (Some (sample_cc [sample_tlv, sample_tlv] 0)) (Some (replicate 20 0xFF)) 20 \<noteq> Inl UB"
  using cc_parse_no_ub [of "sample_cc [sample_tlv, sample_tlv] 0" 20 "replicate 20 0xFF"]
  by (simp add: cc_inv_def sample_cc_def)

section \<open>Files of the container\<close>

lemma cc_find_spec:
  "i + n \<le> length bs \<Longrightarrow>
   (\<exists>k. cc_find bs i n fid = Inr (Some k) \<and> i \<le> k \<and> k < i + n \<and> file_id (tlv_value (bs ! k)) = fid \<and>
      (\<forall>j. i \<le> j \<and> j < k \<longrightarrow> file_id (tlv_value (bs ! j)) \<noteq> fid)) \<or>
   cc_find bs i n fid = Inr None \<and> (\<forall>j. i \<le> j \<and> j < i + n \<longrightarrow> file_id (tlv_value (bs ! j)) \<noteq> fid)"
proof (induction n arbitrary: i)
  case (Suc n)
  show ?case
  proof (cases "file_id (tlv_value (bs ! i)) = fid")
    case True
    then show ?thesis using Suc.prems by auto
  next
    case False
    have "j = i \<or> Suc i \<le> j" if "i \<le> j" for j using that by auto
    with False Suc.IH [of "Suc i"] Suc.prems show ?thesis
      by (simp only: cc_find.simps) (simp, metis Suc_leI Suc_le_lessD less_imp_le_nat nat_less_le)
  qed
qed auto

lemma content_get_spec:
  assumes "cc_inv c"
  shows "(\<exists>k. nfc_t4t_cc_file_content_get c fid = Inr (Some k) \<and> k < length (cc_blocks c) \<and>
      file_id (tlv_value (cc_blocks c ! k)) = fid \<and> (\<forall>j<k. file_id (tlv_value (cc_blocks c ! j)) \<noteq> fid)) \<or>
    nfc_t4t_cc_file_content_get c fid = Inr None \<and> (\<forall>b\<in>set (cc_blocks c). file_id (tlv_value b) \<noteq> fid)"
proof -
  obtain bs where bs: "cc_tlv_block_array c = Some bs" "unat (cc_tlv_count c) \<le> length bs"
    using assms by (auto simp: cc_inv_def word_le_nat_alt)
  then show ?thesis
    using cc_find_spec [of 0 "unat (cc_tlv_count c)" bs fid]
    by (fastforce simp: nfc_t4t_cc_file_content_get_def cc_blocks_def in_set_conv_nth)
qed

text \<open>Binding file content to a file identifier changes the first block with that identifier and
  nothing else; looking the identifier up afterwards finds the block with the new content. An unknown
  identifier is refused with -EACCES.\<close>

lemma cc_content_set_get:
  assumes inv: "cc_inv c"
  shows "if \<exists>b\<in>set (cc_blocks c). file_id (tlv_value b) = fid
    then \<exists>c' k. nfc_t4t_cc_file_content_set c file fid = Inr c' \<and> cc_inv c' \<and>
      nfc_t4t_cc_file_content_get c fid = Inr (Some k) \<and> nfc_t4t_cc_file_content_get c' fid = Inr (Some k) \<and>
      cc_blocks c' = (cc_blocks c)[k := (cc_blocks c ! k)\<lparr>tlv_value := (tlv_value (cc_blocks c ! k))\<lparr>tlv_file := file\<rparr>\<rparr>]
    else nfc_t4t_cc_file_content_set c file fid = Inl EACCES"
proof (cases "\<exists>b\<in>set (cc_blocks c). file_id (tlv_value b) = fid")
  case True
  with content_get_spec [OF inv, of fid] obtain k where
    k: "nfc_t4t_cc_file_content_get c fid = Inr (Some k)" "k < length (cc_blocks c)"
      "file_id (tlv_value (cc_blocks c ! k)) = fid" "\<forall>j<k. file_id (tlv_value (cc_blocks c ! j)) \<noteq> fid"
    by auto
  obtain bs where bs: "cc_tlv_block_array c = Some bs" "length bs = unat (cc_max_tlv_blocks c)"
    using inv by (auto simp: cc_inv_def)
  have kb: "bs ! k = cc_blocks c ! k" using k(2) bs by (simp add: cc_blocks_def)
  let ?b = "(bs ! k)\<lparr>tlv_value := (tlv_value (bs ! k))\<lparr>tlv_file := file\<rparr>\<rparr>"
  let ?c = "c\<lparr>cc_tlv_block_array := Some (bs[k := ?b])\<rparr>"
  have set: "nfc_t4t_cc_file_content_set c file fid = Inr ?c"
    by (simp add: nfc_t4t_cc_file_content_set_def k(1) bs(1))
  have blk: "cc_blocks ?c = (cc_blocks c)[k := ?b]"
    using k(2) by (simp add: cc_blocks_def bs(1) take_update_swap)
  have inv': "cc_inv ?c" using inv bs by (simp add: cc_inv_def)
  have id: "file_id (tlv_value (cc_blocks ?c ! j)) = file_id (tlv_value (cc_blocks c ! j))" for j
    unfolding blk using kb k(2) by (cases "j = k") simp_all
  from content_get_spec [OF inv', of fid] have "nfc_t4t_cc_file_content_get ?c fid = Inr (Some k)"
  proof (elim disjE exE conjE)
    fix j assume j: "nfc_t4t_cc_file_content_get ?c fid = Inr (Some j)" "file_id (tlv_value (cc_blocks ?c ! j)) = fid"
      "\<forall>i<j. file_id (tlv_value (cc_blocks ?c ! i)) \<noteq> fid"
    then have "j = k" using k(3,4) id by (metis linorder_neqE_nat)
    with j(1) show ?thesis by simp
  next
    assume "\<forall>b\<in>set (cc_blocks ?c). file_id (tlv_value b) \<noteq> fid"
    then have False using id k(2,3) by (metis blk length_list_update nth_mem)
    then show ?thesis ..
  qed
  with True set blk inv' k(1) kb show ?thesis by auto
next
  case False
  with content_get_spec [OF inv, of fid] show ?thesis
    by (auto simp: nfc_t4t_cc_file_content_set_def)
qed

lemma cc_content_set_get_witness:
  "\<exists>c'. nfc_t4t_cc_file_content_set (sample_cc [sample_tlv, sample_tlv] 1)
       \<lparr>file_content = Some [1, 2], file_len = 2\<rparr> 0xE104 = Inr c' \<and>
     nfc_t4t_cc_file_content_get c' 0xE104 = Inr (Some 0)"
proof -
  have g: "nfc_t4t_cc_file_content_get (sample_cc [sample_tlv, sample_tlv] 1) 0xE104 = Inr (Some 0)"
    by (simp add: nfc_t4t_cc_file_content_get_def) (simp add: sample_cc_def sample_tlv_def)
  have i: "file_id (tlv_value sample_tlv) = 0xE104" by (simp add: sample_tlv_def)
  show ?thesis
    using cc_content_set_get [OF sample_cc_ok(1), of "0xE104" "\<lparr>file_content = Some [1, 2], file_len = 2\<rparr>"] g i
    by (auto simp: sample_cc_ok(3))
qed

end
