(* ===== verification/T4t_Apdu.thy ===== *)
theory T4t_Apdu
  imports Nfc_Prelude
begin

text \<open>
  Command and response APDUs of Type 4 Tags (\<open>subsys/nfc/t4t/apdu.c\<close>, \<open>include/nfc/t4t/apdu.h\<close>).
\<close>

section \<open>Data\<close>

abbreviation (input) NFC_T4T_APDU_COMM_INS_SELECT :: u8 where "NFC_T4T_APDU_COMM_INS_SELECT \<equiv> 0xA4"
abbreviation (input) NFC_T4T_APDU_COMM_INS_READ :: u8 where "NFC_T4T_APDU_COMM_INS_READ \<equiv> 0xB0"
abbreviation (input) NFC_T4T_APDU_COMM_INS_UPDATE :: u8 where "NFC_T4T_APDU_COMM_INS_UPDATE \<equiv> 0xD6"
abbreviation (input) NFC_T4T_APDU_SELECT_BY_FILE_ID :: u16 where "NFC_T4T_APDU_SELECT_BY_FILE_ID \<equiv> 0x000C"
abbreviation (input) NFC_T4T_APDU_SELECT_BY_NAME :: u16 where "NFC_T4T_APDU_SELECT_BY_NAME \<equiv> 0x0400"
abbreviation (input) NFC_T4T_APDU_RAPDU_STATUS_CMD_COMPLETED :: u16 where
  "NFC_T4T_APDU_RAPDU_STATUS_CMD_COMPLETED \<equiv> 0x9000"

record nfc_t4t_apdu_data =
  apdu_len :: u16
  apdu_buff :: ptr

record nfc_t4t_apdu_comm =
  class_byte :: u8
  instruction :: u8
  parameter :: u16
  comm_data :: nfc_t4t_apdu_data
  resp_len :: u16

record nfc_t4t_apdu_resp =
  resp_status :: u16
  resp_data :: nfc_t4t_apdu_data

definition nfc_t4t_apdu_comm_clear :: nfc_t4t_apdu_comm where
  "nfc_t4t_apdu_comm_clear = \<lparr>class_byte = 0, instruction = 0, parameter = 0,
     comm_data = \<lparr>apdu_len = 0, apdu_buff = None\<rparr>, resp_len = 0\<rparr>"

definition nfc_t4t_apdu_resp_clear :: nfc_t4t_apdu_resp where
  "nfc_t4t_apdu_resp_clear = \<lparr>resp_status = 0, resp_data = \<lparr>apdu_len = 0, apdu_buff = None\<rparr>\<rparr>"

section \<open>Operations\<close>

text \<open>The size is a \<open>uint16_t\<close> and wraps around.\<close>

definition nfc_t4t_apdu_comm_size_calc :: "nfc_t4t_apdu_comm \<Rightarrow> u16" where
  "nfc_t4t_apdu_comm_size_calc c =
     (let res = 4;
          res = (if apdu_buff (comm_data c) \<noteq> None
                 then if apdu_len (comm_data c) > 0xFF then res + 3 else res + 1 else res);
          res = res + apdu_len (comm_data c)
      in if resp_len c \<noteq> 0 then if resp_len c > 0x0100 then res + 2 else res + 1 else res)"

definition nfc_t4t_apdu_comm_args_validate ::
    "nfc_t4t_apdu_comm option \<Rightarrow> u8 list option \<Rightarrow> u16 option \<Rightarrow> unit res" where
  "nfc_t4t_apdu_comm_args_validate cmd raw_data len = (case (cmd, raw_data, len) of
     (Some c, Some _, Some _) \<Rightarrow>
       if apdu_buff (comm_data c) \<noteq> None \<and> apdu_len (comm_data c) = 0 then Inl EFAULT else Inr ()
   | _ \<Rightarrow> Inl EINVAL)"

text \<open>The bytes that the encoder stores one after the other.\<close>

definition apdu_comm_store :: "nfc_t4t_apdu_comm \<Rightarrow> u8 list res" where
  "apdu_comm_store c =
     bindE (case apdu_buff (comm_data c) of None \<Rightarrow> Inr []
            | Some _ \<Rightarrow>
                bindE (mem_read (apdu_buff (comm_data c)) (unat (apdu_len (comm_data c)))) (\<lambda>d.
                Inr ((if apdu_len (comm_data c) > 0xFF then 0x00 # put_be16 (apdu_len (comm_data c))
                      else [ucast (apdu_len (comm_data c))]) @ d))) (\<lambda>data.
     Inr ([class_byte c, instruction c] @ put_be16 (parameter c) @ data @
          (if resp_len c \<noteq> 0
           then if resp_len c > 0x0100 then put_be16 (resp_len c)
                else if resp_len c = 0x0100 then [0x00] else [ucast (resp_len c)]
           else [])))"

definition nfc_t4t_apdu_comm_encode ::
    "nfc_t4t_apdu_comm option \<Rightarrow> u8 list option \<Rightarrow> u16 option \<Rightarrow> (u8 list \<times> u16) res" where
  "nfc_t4t_apdu_comm_encode cmd raw_data len =
     bindE (nfc_t4t_apdu_comm_args_validate cmd raw_data len) (\<lambda>_.
     let c = the cmd; mem = the raw_data; comm_apdu_len = nfc_t4t_apdu_comm_size_calc c in
     if comm_apdu_len > the len then Inl ENOMEM
     else bindE (apdu_comm_store c) (\<lambda>bs.
          bindE (mem_write mem 0 bs) (\<lambda>mem'. Inr (mem', comm_apdu_len))))"

definition nfc_t4t_apdu_resp_args_validate :: "bool \<Rightarrow> ptr \<Rightarrow> u16 \<Rightarrow> unit res" where
  "nfc_t4t_apdu_resp_args_validate resp_apdu raw_data len =
     (if \<not> resp_apdu \<or> raw_data = None then Inl EINVAL
      else if len < 2 then Inl EPERM else Inr ())"

definition nfc_t4t_apdu_resp_decode :: "bool \<Rightarrow> ptr \<Rightarrow> u16 \<Rightarrow> nfc_t4t_apdu_resp res" where
  "nfc_t4t_apdu_resp_decode resp_apdu raw_data len =
     bindE (nfc_t4t_apdu_resp_args_validate resp_apdu raw_data len) (\<lambda>_.
     let r = nfc_t4t_apdu_resp_clear;
         r = (if len > 2 then r\<lparr>resp_data := \<lparr>apdu_len = len - 2, apdu_buff = raw_data\<rparr>\<rparr> else r) in
     bindE (get_be16 (drop (unat (apdu_len (resp_data r))) (the raw_data))) (\<lambda>st.
     Inr (r\<lparr>resp_status := st\<rparr>)))"

section \<open>The bytes of an APDU\<close>

text \<open>A command as ISO/IEC 7816-4 lays it out: header, optional Lc and data, optional Le.\<close>

definition lc_bytes :: "u8 list \<Rightarrow> u8 list" where
  "lc_bytes data = (if length data > 255 then 0x00 # put_be16 (of_nat (length data)) else [of_nat (length data)])"

definition le_bytes :: "u16 \<Rightarrow> u8 list" where
  "le_bytes n = (if n = 0 then [] else if n > 0x0100 then put_be16 n else [ucast n])"

definition apdu_bytes :: "nfc_t4t_apdu_comm \<Rightarrow> u8 list" where
  "apdu_bytes c = [class_byte c, instruction c] @ put_be16 (parameter c) @
     (case apdu_buff (comm_data c) of None \<Rightarrow> []
      | Some xs \<Rightarrow> lc_bytes (take (unat (apdu_len (comm_data c))) xs) @ take (unat (apdu_len (comm_data c))) xs) @
     le_bytes (resp_len c)"

text \<open>Well-formed commands: the data pointer and its length agree and the sizes do not wrap.\<close>

definition apdu_ok :: "nfc_t4t_apdu_comm \<Rightarrow> bool" where
  "apdu_ok c \<longleftrightarrow> (case apdu_buff (comm_data c) of None \<Rightarrow> apdu_len (comm_data c) = 0
     | Some xs \<Rightarrow> 0 < unat (apdu_len (comm_data c)) \<and> unat (apdu_len (comm_data c)) \<le> length xs) \<and>
     unat (apdu_len (comm_data c)) \<le> 65526"

lemma u16_gt_255: "(0xFF < (w :: u16)) \<longleftrightarrow> 255 < unat w"
  by (simp add: word_less_nat_alt)

lemma ucast_eq_of_nat_u8: "ucast (w :: u16) = (of_nat (unat w) :: u8)"
  by simp

lemma apdu_store_bytes:
  assumes "apdu_ok c"
  shows "apdu_comm_store c = Inr (apdu_bytes c)"
proof -
  let ?n = "apdu_len (comm_data c)"
  have le: "(if resp_len c \<noteq> 0 then if resp_len c > 0x0100 then put_be16 (resp_len c)
      else if resp_len c = 0x0100 then [0x00] else [ucast (resp_len c)] else []) = le_bytes (resp_len c)"
    by (simp add: le_bytes_def)
  show ?thesis
  proof (cases "apdu_buff (comm_data c)")
    case None
    then show ?thesis using le by (simp add: apdu_comm_store_def apdu_bytes_def)
  next
    case (Some xs)
    then have n: "unat ?n \<le> length xs" "0 < unat ?n" using assms by (simp_all add: apdu_ok_def)
    have lc: "(if ?n > 0xFF then 0x00 # put_be16 ?n else [ucast ?n]) = lc_bytes (take (unat ?n) xs)"
      using n by (simp add: lc_bytes_def u16_gt_255 min_absorb2)
    show ?thesis
      unfolding apdu_comm_store_def apdu_bytes_def Some option.case le lc
      using n by (simp add: mem_read_def)
  qed
qed

lemma apdu_size_bytes:
  assumes "apdu_ok c"
  shows "unat (nfc_t4t_apdu_comm_size_calc c) = length (apdu_bytes c)"
proof -
  have le: "length (le_bytes n) = (if n = 0 then 0 else if n > 0x0100 then 2 else 1)" for n
    by (simp add: le_bytes_def)
  have lc: "length (lc_bytes d) = (if length d > 255 then 3 else 1)" for d
    by (simp add: lc_bytes_def)
  show ?thesis
    using assms
    by (auto simp: nfc_t4t_apdu_comm_size_calc_def apdu_bytes_def apdu_ok_def Let_def le lc u16_gt_255
        unat_word_ariths split: option.splits)
qed

lemma apdu_encode_ok:
  assumes ok: "apdu_ok c" and cap: "unat len \<le> length mem"
  shows "nfc_t4t_apdu_comm_encode (Some c) (Some mem) (Some len) =
     (if length (apdu_bytes c) \<le> unat len
      then Inr (apdu_bytes c @ drop (length (apdu_bytes c)) mem, of_nat (length (apdu_bytes c)))
      else Inl ENOMEM)"
proof -
  have v: "nfc_t4t_apdu_comm_args_validate (Some c) (Some mem) (Some len) = Inr ()"
    using ok by (auto simp: nfc_t4t_apdu_comm_args_validate_def apdu_ok_def split: option.splits)
  note s = apdu_size_bytes [OF ok]
  then have w: "nfc_t4t_apdu_comm_size_calc c = of_nat (length (apdu_bytes c))"
    by (metis word_of_nat_unat_id)
  show ?thesis
    using cap s by (simp add: nfc_t4t_apdu_comm_encode_def v apdu_store_bytes [OF ok] Let_def word_less_nat_alt
        mem_simps) (simp add: w)
qed

lemma apdu_resp_decode_ok:
  assumes "length data + 2 < 2 ^ 16"
  shows "nfc_t4t_apdu_resp_decode True (Some (data @ put_be16 st @ rest)) (of_nat (length data + 2)) =
     Inr \<lparr>resp_status = st, resp_data = \<lparr>apdu_len = of_nat (length data),
       apdu_buff = (if data = [] then None else Some (data @ put_be16 st @ rest))\<rparr>\<rparr>"
proof -
  have n: "unat (of_nat (length data + 2) :: u16) = length data + 2"
    unfolding unat_of_nat take_bit_eq_mod using assms by simp
  have m: "unat (of_nat (length data) :: u16) = length data"
    using assms by (simp add: unat_of_nat take_bit_eq_mod)
  have g: "\<not> (of_nat (length data + 2) :: u16) < 2" "(2 < (of_nat (length data + 2) :: u16)) = (data \<noteq> [])"
    unfolding word_less_nat_alt n by simp_all
  have s: "(of_nat (length data + 2) :: u16) - 2 = of_nat (length data)" by simp
  show ?thesis
    unfolding nfc_t4t_apdu_resp_decode_def nfc_t4t_apdu_resp_args_validate_def Let_def g s
    using m g(1) by (cases "data = []") (simp_all add: nfc_t4t_apdu_resp_clear_def)
qed

section \<open>Properties\<close>

text \<open>The command encoder stores the ISO 7816 encoding of the command (header, short or extended Lc
  and data, short or extended Le, with 256 encoded as 0), leaves the rest of the buffer alone and
  returns its length, or fails with -ENOMEM when the buffer is smaller.\<close>

lemma apdu_encode_correct:
  assumes "apdu_ok c" "unat len \<le> length mem"
  shows "nfc_t4t_apdu_comm_encode (Some c) (Some mem) (Some len) =
     (if length (apdu_bytes c) \<le> unat len
      then Inr (apdu_bytes c @ drop (length (apdu_bytes c)) mem, of_nat (length (apdu_bytes c)))
      else Inl ENOMEM)"
  by (rule apdu_encode_ok [OF assms])

lemma apdu_encode_correct_witness:
  "nfc_t4t_apdu_comm_encode (Some \<lparr>class_byte = 0, instruction = 0xA4, parameter = 0x000C,
      comm_data = \<lparr>apdu_len = 2, apdu_buff = Some [0xE1, 0x03]\<rparr>, resp_len = 256\<rparr>)
     (Some (replicate 9 7)) (Some 9) = Inr ([0, 0xA4, 0, 0x0C, 2, 0xE1, 0x03, 0, 7], 8)"
  using apdu_encode_correct [of "\<lparr>class_byte = 0, instruction = 0xA4, parameter = 0x000C,
      comm_data = \<lparr>apdu_len = 2, apdu_buff = Some [0xE1, 0x03]\<rparr>, resp_len = 256\<rparr>" 9 "replicate 9 7"]
  by (simp add: apdu_ok_def apdu_bytes_def lc_bytes_def le_bytes_def put_be16_def)

text \<open>Decoding a response splits it into data and status: the status is the last two bytes and the
  data everything before; a response shorter than the status is refused with -EPERM.\<close>

lemma apdu_resp_decode_correct:
  assumes "length data + 2 < 2 ^ 16"
  shows "nfc_t4t_apdu_resp_decode True (Some (data @ put_be16 st @ rest)) (of_nat (length data + 2)) =
     Inr \<lparr>resp_status = st, resp_data = \<lparr>apdu_len = of_nat (length data),
       apdu_buff = (if data = [] then None else Some (data @ put_be16 st @ rest))\<rparr>\<rparr>"
  by (rule apdu_resp_decode_ok [OF assms])

lemma apdu_resp_decode_correct_witness:
  "nfc_t4t_apdu_resp_decode True (Some [1, 2, 0x90, 0x00]) 4 =
     Inr \<lparr>resp_status = 0x9000, resp_data = \<lparr>apdu_len = 2, apdu_buff = Some [1, 2, 0x90, 0x00]\<rparr>\<rparr>"
proof -
  have "[1, 2, 0x90, 0x00] = [1, 2 :: u8] @ put_be16 0x9000 @ []" by (simp add: put_be16_def)
  with apdu_resp_decode_correct [of "[1, 2]" "0x9000" "[]"] show ?thesis by simp
qed

text \<open>With a data field of 65535 bytes the 16-bit size wraps around: the encoder takes a buffer of 8
  bytes for large enough and writes outside it.\<close>

lemma apdu_size_wraps:
  "nfc_t4t_apdu_comm_encode (Some \<lparr>class_byte = 0, instruction = 0xD6, parameter = 0,
      comm_data = \<lparr>apdu_len = 0xFFFF, apdu_buff = Some (replicate 65535 0)\<rparr>, resp_len = 0\<rparr>)
     (Some (replicate 8 0)) (Some 8) = Inl UB"
  by (simp add: nfc_t4t_apdu_comm_encode_def nfc_t4t_apdu_comm_args_validate_def nfc_t4t_apdu_comm_size_calc_def
      apdu_comm_store_def mem_read_def mem_write_def Let_def)

end
