(* ===== verification/T4t_Isodep.thy ===== *)
theory T4t_Isodep
  imports Nfc_Prelude
begin

text \<open>
  The ISO-DEP protocol of a Type 4 Tag reader (\<open>subsys/nfc/t4t/isodep.c\<close>,
  \<open>include/nfc/t4t/isodep.h\<close>): activation, block exchange with chaining in both directions, frame
  waiting time extension, deselection and error recovery.

  The module keeps one static structure; it is the record \<open>nfc_t4t_isodep\<close>, passed through every
  operation. Calls of the user's callbacks are the events an operation returns. Every callback is
  the last thing its handler does (except that the retransmission counter is incremented after the
  callback), so a callback that calls back into the module is the next operation.

  An operation returns the new state, its events and its return value (\<open>None\<close> for 0). \<open>Inl UB\<close> is
  undefined behaviour. The retry limits of the configuration, the uptime clock and the result of
  submitting delayed work are parameters.
\<close>

section \<open>State\<close>

datatype isodep_frame =
    ISODEP_FRAME_NONE | ISODEP_FRAME_RATS | ISODEP_FRAME_DESELECT | ISODEP_FRAME_WTX_RESPONSE
  | ISODEP_FRAME_I | ISODEP_FRAME_I_CHAINING

datatype isodep_state =
    ISODEP_STATE_UNINITIALIZED | ISODEP_STATE_INITIALIZED | ISODEP_STATE_SELECTED | ISODEP_STATE_TRANSFER

record nfc_t4t_isodep_tag =
  tag_fwt :: u32
  tag_sfgt :: u32
  tag_fsc :: u16
  tag_did :: u8
  tag_lp_divisor :: u8
  tag_pl_divisor :: u8
  tag_historical :: "u8 list"
  tag_historical_len :: u8
  tag_did_supported :: bool
  tag_nad_supported :: bool

text \<open>Which of the callbacks are set.\<close>

record nfc_t4t_isodep_cb =
  cb_data_received :: bool
  cb_selected :: bool
  cb_deselected :: bool
  cb_ready_to_send :: bool
  cb_error :: bool

text \<open>The buffers are the memory behind \<open>data\<close>, the length in use and the size given at initialisation.\<close>

record nfc_t4t_buf =
  buf_mem :: "u8 list"
  buf_len :: u32
  buf_size :: u32

record nfc_t4t_isodep =
  iso_state :: isodep_state
  iso_tag :: nfc_t4t_isodep_tag
  iso_tx :: nfc_t4t_buf
  iso_rx :: nfc_t4t_buf
  iso_last_frame :: isodep_frame
  iso_frame_retry_cnt :: u8
  iso_wtx :: u8
  iso_fsd :: u16
  iso_block_num :: u8
  iso_retransmit_cnt :: u8
  iso_transmit_data :: ptr
  iso_transmit_len :: u32
  iso_transmitted_len :: u32
  iso_chaining :: bool
  iso_equal_divisor :: bool
  iso_ats_expected :: bool
  iso_first_transfer :: bool
  iso_ats_time :: int
  iso_cb :: "nfc_t4t_isodep_cb option"

datatype isodep_ev =
    Ready_To_Send "u8 list" u32
  | Data_Received "u8 list"
  | Selected nfc_t4t_isodep_tag
  | Deselected
  | Error err
  | Delayed_Work u32

type_synonym outcome = "(nfc_t4t_isodep \<times> isodep_ev list \<times> err option) res"

record isodep_config =
  RATS_RETRY :: nat
  ACK_RETRY :: nat
  NAK_RETRY :: nat
  WTX_RETRY :: nat
  DESELECT_RETRY :: nat

abbreviation (input) FDT_BASE :: u32 where "FDT_BASE \<equiv> 49152 + 164 * 1356"
abbreviation (input) T4T_RATS_FDT :: u32 where "T4T_RATS_FDT \<equiv> 71680 + 49152 + 164 * 1356"
abbreviation (input) ISODEP_FWT_DEACTIVATION :: u32 where "ISODEP_FWT_DEACTIVATION \<equiv> 71680"

definition fsd_value_map :: "u16 list" where
  "fsd_value_map = [16, 24, 32, 40, 48, 64, 96, 128, 256]"

definition fsd_value :: "nat \<Rightarrow> u16 res" where
  "fsd_value i = (if i < length fsd_value_map then Inr (fsd_value_map ! i) else Inl UB)"

definition T4T_FWI_TO_FWT :: "u8 \<Rightarrow> u32" where
  "T4T_FWI_TO_FWT fwi = 256 * 16 * push_bit (unat fwi) 1"

definition T4T_SFGT_DELTA :: "u8 \<Rightarrow> u32" where
  "T4T_SFGT_DELTA sfgi = 384 * push_bit (unat sfgi) 1"

definition T4T_FWT_TO_MS :: "u32 \<Rightarrow> u32" where
  "T4T_FWT_TO_MS fwt = (fwt + 13560 - 1) div 13560"

section \<open>Helpers\<close>

text \<open>A callback through the registered structure, when the user has set it.\<close>

definition notify :: "nfc_t4t_isodep \<Rightarrow> (nfc_t4t_isodep_cb \<Rightarrow> bool) \<Rightarrow> isodep_ev \<Rightarrow> isodep_ev list res" where
  "notify s f ev = (case iso_cb s of None \<Rightarrow> Inl UB | Some cb \<Rightarrow> Inr (if f cb then [ev] else []))"

text \<open>Handing the first \<open>n\<close> bytes of the transmit buffer to the user.\<close>

definition send_tx :: "nfc_t4t_isodep \<Rightarrow> u32 \<Rightarrow> u32 \<Rightarrow> isodep_ev list res" where
  "send_tx s n fdt = notify s cb_ready_to_send (Ready_To_Send (take (unat n) (buf_mem (iso_tx s))) fdt)"

definition set_tx :: "nfc_t4t_isodep \<Rightarrow> u8 list \<Rightarrow> nfc_t4t_isodep" where
  "set_tx s mem = s\<lparr>iso_tx := (iso_tx s)\<lparr>buf_mem := mem\<rparr>\<rparr>"

definition isodep_transmission_clear :: "nfc_t4t_isodep \<Rightarrow> nfc_t4t_isodep" where
  "isodep_transmission_clear s = s\<lparr>iso_rx := (iso_rx s)\<lparr>buf_len := 0\<rparr>, iso_transmitted_len := 0,
     iso_transmit_len := 0, iso_chaining := False, iso_retransmit_cnt := 0, iso_frame_retry_cnt := 0,
     iso_last_frame := ISODEP_FRAME_NONE\<rparr>"

definition did_include :: "nfc_t4t_isodep \<Rightarrow> u8 list \<Rightarrow> nat \<Rightarrow> (u8 list \<times> nat) res" where
  "did_include s data pos =
     (if tag_did_supported (iso_tag s) \<and> tag_did (iso_tag s) \<noteq> 0 then
        bindE (mem_byte data pos) (\<lambda>b.
        bindE (mem_write data pos [b OR 0x08]) (\<lambda>data.
        bindE (mem_write data (pos + 1) [tag_did (iso_tag s)]) (\<lambda>data.
        Inr (data, pos + 2))))
      else Inr (data, pos + 1))"

definition err_notify :: "nfc_t4t_isodep \<Rightarrow> err \<Rightarrow> (nfc_t4t_isodep \<times> isodep_ev list) res" where
  "err_notify s e =
     (let s = isodep_transmission_clear s in bindE (notify s cb_error (Error e)) (\<lambda>evs. Inr (s, evs)))"

section \<open>Activation\<close>

text \<open>The interface bytes TA, TB and TC, when T0 announces them, and the historical bytes.\<close>

definition ats_ta :: "nfc_t4t_isodep \<Rightarrow> u8 \<Rightarrow> u8 list \<Rightarrow> nat \<Rightarrow> (nfc_t4t_isodep \<times> nat) res" where
  "ats_ta s t0 data index =
     (if t0 AND 0x10 \<noteq> 0 then
        bindE (mem_byte data index) (\<lambda>ta.
        Inr (s\<lparr>iso_equal_divisor := (if ta AND 0x80 \<noteq> 0 then True else iso_equal_divisor s),
               iso_tag := (iso_tag s)\<lparr>tag_pl_divisor := push_bit 1 (ta AND 0x07),
                                     tag_lp_divisor := drop_bit 3 (ta AND 0x70)\<rparr>\<rparr>, index + 1))
      else Inr (s\<lparr>iso_tag := (iso_tag s)\<lparr>tag_pl_divisor := 0, tag_lp_divisor := 0\<rparr>\<rparr>, index))"

definition ats_tb :: "nfc_t4t_isodep \<Rightarrow> u8 \<Rightarrow> u8 list \<Rightarrow> nat \<Rightarrow> (nfc_t4t_isodep \<times> nat) res" where
  "ats_tb s t0 data index =
     bindE (if t0 AND 0x20 \<noteq> 0 then
              bindE (mem_byte data index) (\<lambda>tb. Inr (drop_bit 4 (tb AND 0xF0), tb AND 0x0F, index + 1))
            else Inr (4, 0, index)) (\<lambda>(fwi, sfgi, index).
     Inr (s\<lparr>iso_tag := (iso_tag s)\<lparr>tag_fwt := T4T_FWI_TO_FWT fwi,
              tag_sfgt := (if sfgi \<noteq> 0 then T4T_FWI_TO_FWT sfgi + T4T_SFGT_DELTA sfgi else 6780)\<rparr>\<rparr>, index))"

definition ats_tc :: "nfc_t4t_isodep \<Rightarrow> u8 \<Rightarrow> u8 list \<Rightarrow> nat \<Rightarrow> (nfc_t4t_isodep \<times> nat) res" where
  "ats_tc s t0 data index =
     (if t0 AND 0x40 \<noteq> 0 then
        bindE (mem_byte data index) (\<lambda>tc.
        Inr (s\<lparr>iso_tag := (iso_tag s)\<lparr>tag_did_supported := (tc AND 0x02 \<noteq> 0),
                                     tag_nad_supported := (tc AND 0x01 \<noteq> 0)\<rparr>\<rparr>, index + 1))
      else Inr (s\<lparr>iso_tag := (iso_tag s)\<lparr>tag_did_supported := True, tag_nad_supported := False\<rparr>\<rparr>, index))"

definition ats_historical :: "nfc_t4t_isodep \<Rightarrow> u8 list \<Rightarrow> u32 \<Rightarrow> nat \<Rightarrow> nfc_t4t_isodep res" where
  "ats_historical s data len index =
     (if index < unat len then
        bindE (mem_read (Some (drop index data)) (unat len - index)) (\<lambda>h.
        bindE (mem_write (tag_historical (iso_tag s)) 0 h) (\<lambda>hist.
        Inr (s\<lparr>iso_tag := (iso_tag s)\<lparr>tag_historical_len := of_nat (unat len - index),
                                     tag_historical := hist\<rparr>\<rparr>)))
      else Inr s)"

definition ats_parse :: "int \<Rightarrow> nfc_t4t_isodep \<Rightarrow> u8 list \<Rightarrow> u32 \<Rightarrow> outcome" where
  "ats_parse now s data len =
     (let s = s\<lparr>iso_ats_time := now\<rparr> in
      if len < 2 then Inr (s, [], Some ISODEP_SYNTAX_ERROR) else
      bindE (mem_byte data 0) (\<lambda>tl0.
      if ucast tl0 \<noteq> len \<or> len > 20 then Inr (s, [], Some ISODEP_SYNTAX_ERROR) else
      bindE (mem_byte data 1) (\<lambda>t0.
      bindE (fsd_value (unat (t0 AND 0x0F))) (\<lambda>fsc.
      bindE (ats_ta (s\<lparr>iso_tag := (iso_tag s)\<lparr>tag_fsc := fsc - 2\<rparr>\<rparr>) t0 data 2) (\<lambda>(s, index).
      bindE (ats_tb s t0 data index) (\<lambda>(s, index).
      bindE (ats_tc s t0 data index) (\<lambda>(s, index).
      bindE (ats_historical s data len index) (\<lambda>s.
      let s = s\<lparr>iso_block_num := 0, iso_first_transfer := True, iso_state := ISODEP_STATE_SELECTED\<rparr> in
      bindE (notify s cb_selected (Selected (iso_tag s))) (\<lambda>evs.
      Inr (s, evs, None))))))))))"

section \<open>Sending\<close>

definition isodep_chunk_send :: "nfc_t4t_isodep \<Rightarrow> (nfc_t4t_isodep \<times> isodep_ev list) res" where
  "isodep_chunk_send s =
     bindE (mem_write (buf_mem (iso_tx s)) 0 [0x02 OR (iso_block_num s AND 1)]) (\<lambda>tx.
     bindE (did_include s tx 0) (\<lambda>(tx, index).
     let room = ucast (tag_fsc (iso_tag s)) - of_nat index;
         left = iso_transmit_len s - iso_transmitted_len s;
         more = (room < left);
         data_len = (if more then room else left) in
     bindE (if more then bindE (mem_byte tx 0) (\<lambda>b. mem_write tx 0 [b OR 0x10]) else Inr tx) (\<lambda>tx.
     bindE (mem_read (map_option (drop (unat (iso_transmitted_len s))) (iso_transmit_data s)) (unat data_len)) (\<lambda>d.
     bindE (mem_write tx index d) (\<lambda>tx.
     let n = of_nat index + data_len;
         s = s\<lparr>iso_chaining := more, iso_last_frame := ISODEP_FRAME_I,
               iso_tx := (iso_tx s)\<lparr>buf_mem := tx, buf_len := n\<rparr>,
               iso_transmitted_len := iso_transmitted_len s + data_len\<rparr> in
     bindE (send_tx s n (tag_fwt (iso_tag s) + FDT_BASE)) (\<lambda>evs. Inr (s, evs)))))))"

definition block_num_toggle :: "nfc_t4t_isodep \<Rightarrow> nfc_t4t_isodep" where
  "block_num_toggle s = s\<lparr>iso_block_num := iso_block_num s XOR 0x01\<rparr>"

definition isodep_r_frame_send :: "nfc_t4t_isodep \<Rightarrow> bool \<Rightarrow> (nfc_t4t_isodep \<times> isodep_ev list) res" where
  "isodep_r_frame_send s ack =
     bindE (mem_write (buf_mem (iso_tx s)) 0
              [(if ack then 0xA2 OR (iso_block_num s AND 1) else (0xA2 OR (iso_block_num s AND 1)) OR 0x10)]) (\<lambda>tx.
     bindE (did_include s tx 0) (\<lambda>(tx, index).
     let s = set_tx s tx in
     bindE (send_tx s (of_nat index) (tag_fwt (iso_tag s) + FDT_BASE)) (\<lambda>evs. Inr (s, evs))))"

section \<open>Receiving\<close>

definition isodep_s_frame_handle :: "nfc_t4t_isodep \<Rightarrow> u8 list \<Rightarrow> u32 \<Rightarrow> outcome" where
  "isodep_s_frame_handle s data len =
     bindE (mem_byte data 0) (\<lambda>s_block.
     let index = (if s_block AND 0x08 \<noteq> 0 then 2 else 1) :: nat in
     if s_block AND 0x30 \<noteq> 0x30 then
       if s_block AND 0x30 = 0 then
         if len > of_nat index then Inr (s, [], Some ISODEP_SYNTAX_ERROR)
         else let s = s\<lparr>iso_state := ISODEP_STATE_INITIALIZED\<rparr> in
              bindE (notify s cb_deselected Deselected) (\<lambda>evs. Inr (s, evs, None))
       else Inr (s, [], Some ISODEP_SYNTAX_ERROR)
     else if len > of_nat index + 1 then Inr (s, [], Some EINVAL)
     else
       bindE (mem_byte data index) (\<lambda>b.
       let wtxm = b AND 0x3F in
       if wtxm < 1 \<or> wtxm > 59 then Inr (s, [], Some ISODEP_SYNTAX_ERROR)
       else
         bindE (mem_write (buf_mem (iso_tx s)) 0 [0xC2 OR 0x30]) (\<lambda>tx.
         bindE (did_include s tx 0) (\<lambda>(tx, index).
         bindE (mem_write tx index [wtxm]) (\<lambda>tx.
         let n = of_nat index + 1;
             s = s\<lparr>iso_tx := (iso_tx s)\<lparr>buf_mem := tx, buf_len := n\<rparr>, iso_last_frame := ISODEP_FRAME_WTX_RESPONSE\<rparr> in
         bindE (send_tx s n (tag_fwt (iso_tag s) * ucast wtxm + FDT_BASE)) (\<lambda>evs. Inr (s, evs, None)))))))"

definition isodep_r_frame_handle :: "nfc_t4t_isodep \<Rightarrow> u8 list \<Rightarrow> u32 \<Rightarrow> outcome" where
  "isodep_r_frame_handle s data len =
     bindE (mem_byte data 0) (\<lambda>r_block.
     let index = (if r_block AND 0x08 \<noteq> 0 then 2 else 1) in
     if len > index then Inr (s, [], Some ISODEP_SYNTAX_ERROR)
     else if r_block AND 0x10 \<noteq> 0 then Inr (s, [], Some ISODEP_SEMANTIC_ERROR)
     else if \<not> iso_chaining s then Inr (s, [], Some ISODEP_SEMANTIC_ERROR)
     else if r_block AND 0x01 = iso_block_num s then
       bindE (isodep_chunk_send (block_num_toggle s)) (\<lambda>(s, evs). Inr (s, evs, None))
     else if iso_retransmit_cnt s > 2 then Inr (s, [], Some ISODEP_SEMANTIC_ERROR)
     else bindE (send_tx s (buf_len (iso_tx s)) (tag_fwt (iso_tag s) + FDT_BASE)) (\<lambda>evs.
          Inr (if evs \<noteq> [] then s\<lparr>iso_retransmit_cnt := iso_retransmit_cnt s + 1\<rparr> else s, evs, None)))"

text \<open>Where the information field of an I-block starts: after the block byte, the DID and the NAD.\<close>

definition i_frame_index :: "u8 \<Rightarrow> nat" where
  "i_frame_index i_block = 1 + (if i_block AND 0x08 \<noteq> 0 then 1 else 0) + (if i_block AND 0x04 \<noteq> 0 then 1 else 0)"

definition isodep_i_frame_handle :: "nfc_t4t_isodep \<Rightarrow> u8 list \<Rightarrow> u32 \<Rightarrow> outcome" where
  "isodep_i_frame_handle s data len =
     bindE (mem_byte data 0) (\<lambda>i_block.
     let index = i_frame_index i_block in
     if len < of_nat index then Inr (s, [], Some EINVAL)
     else if buf_len (iso_rx s) + (len - of_nat index) > buf_size (iso_rx s) then Inr (s, [], Some ENOMEM)
     else
       let s = (if i_block AND 0x01 = iso_block_num s then block_num_toggle s else s);
           n = len - of_nat index in
       bindE (mem_read (Some (drop index data)) (unat n)) (\<lambda>d.
       bindE (mem_write (buf_mem (iso_rx s)) (unat (buf_len (iso_rx s))) d) (\<lambda>rx.
       let s = s\<lparr>iso_rx := (iso_rx s)\<lparr>buf_mem := rx, buf_len := buf_len (iso_rx s) + n\<rparr>\<rparr> in
       if i_block AND 0x10 \<noteq> 0 then
         bindE (isodep_r_frame_send (s\<lparr>iso_last_frame := ISODEP_FRAME_I_CHAINING\<rparr>) True) (\<lambda>(s, evs).
         Inr (s, evs, None))
       else
         let s = s\<lparr>iso_state := ISODEP_STATE_SELECTED, iso_last_frame := ISODEP_FRAME_I\<rparr> in
         bindE (notify s cb_data_received (Data_Received (take (unat (buf_len (iso_rx s))) (buf_mem (iso_rx s)))))
           (\<lambda>evs. Inr (s, evs, None)))))"

section \<open>Error recovery\<close>

definition isodep_error_handle :: "isodep_config \<Rightarrow> nfc_t4t_isodep \<Rightarrow> bool \<Rightarrow> (nfc_t4t_isodep \<times> isodep_ev list) res" where
  "isodep_error_handle cfg s timeout =
     (let s = s\<lparr>iso_frame_retry_cnt := iso_frame_retry_cnt s + 1\<rparr>;
          cnt = unat (iso_frame_retry_cnt s);
          resend = (\<lambda>fdt. bindE (send_tx s (buf_len (iso_tx s)) fdt) (\<lambda>evs. Inr (s, evs)));
          give_up = (let s = s\<lparr>iso_state := ISODEP_STATE_INITIALIZED\<rparr> in
                     err_notify s (if timeout then ISODEP_TIMEOUT_ERROR else ISODEP_TRANSMISSION_ERROR)) in
      case iso_last_frame s of
        ISODEP_FRAME_RATS \<Rightarrow> if cnt > RATS_RETRY cfg then give_up else resend T4T_RATS_FDT
      | ISODEP_FRAME_I \<Rightarrow> if cnt > NAK_RETRY cfg then give_up else isodep_r_frame_send s False
      | ISODEP_FRAME_I_CHAINING \<Rightarrow> if cnt > ACK_RETRY cfg then give_up else isodep_r_frame_send s True
      | ISODEP_FRAME_WTX_RESPONSE \<Rightarrow> if cnt > WTX_RETRY cfg then give_up
          else resend (ucast (iso_wtx s) * tag_fwt (iso_tag s) + FDT_BASE)
      | ISODEP_FRAME_DESELECT \<Rightarrow> if cnt > DESELECT_RETRY cfg then give_up else resend ISODEP_FWT_DEACTIVATION
      | ISODEP_FRAME_NONE \<Rightarrow> give_up)"

section \<open>Interface\<close>

definition nfc_t4t_isodep_init ::
    "nfc_t4t_isodep \<Rightarrow> ptr \<Rightarrow> u32 \<Rightarrow> ptr \<Rightarrow> u32 \<Rightarrow> nfc_t4t_isodep_cb option \<Rightarrow> outcome" where
  "nfc_t4t_isodep_init s tx_buf size_tx rx_buf size_rx cb = (case (tx_buf, rx_buf) of
     (Some tx, Some rx) \<Rightarrow>
       if size_tx < 16 then Inr (s, [], Some EINVAL)
       else if size_rx < 16 then Inr (s, [], Some EINVAL)
       else if iso_state s \<noteq> ISODEP_STATE_UNINITIALIZED then Inr (s, [], Some EACCES)
       else Inr (s\<lparr>iso_tx := (iso_tx s)\<lparr>buf_mem := tx, buf_size := size_tx\<rparr>,
                   iso_rx := (iso_rx s)\<lparr>buf_mem := rx, buf_size := size_rx\<rparr>,
                   iso_cb := cb, iso_state := ISODEP_STATE_INITIALIZED\<rparr>, [], None)
   | _ \<Rightarrow> Inr (s, [], Some EINVAL))"

definition isodep_delay_handler :: "nfc_t4t_isodep \<Rightarrow> outcome" where
  "isodep_delay_handler s = bindE (isodep_chunk_send s) (\<lambda>(s, evs). Inr (s, evs, None))"

definition nfc_t4t_isodep_on_timeout :: "isodep_config \<Rightarrow> nfc_t4t_isodep \<Rightarrow> outcome" where
  "nfc_t4t_isodep_on_timeout cfg s = bindE (isodep_error_handle cfg s True) (\<lambda>(s, evs). Inr (s, evs, None))"

text \<open>The state changes to TRANSFER before the arguments are checked and stays so when they are wrong.\<close>

definition nfc_t4t_isodep_rats_send :: "nfc_t4t_isodep \<Rightarrow> nat \<Rightarrow> u8 \<Rightarrow> outcome" where
  "nfc_t4t_isodep_rats_send s fsd did =
     (if iso_state s \<noteq> ISODEP_STATE_INITIALIZED \<and> iso_state s \<noteq> ISODEP_STATE_SELECTED
      then Inr (s, [], Some EACCES)
      else
        let s = s\<lparr>iso_state := ISODEP_STATE_TRANSFER\<rparr> in
        if did > 14 then Inr (s, [], Some EINVAL)
        else bindE (fsd_value fsd) (\<lambda>v.
        if buf_size (iso_tx s) < ucast v then Inr (s, [], Some ENOMEM)
        else
          let param = (did AND 0x0F) OR (push_bit 4 (of_nat fsd) AND 0xF0) in
          bindE (mem_write (buf_mem (iso_tx s)) 0 [0xE0, param]) (\<lambda>tx.
          let s = s\<lparr>iso_tx := (iso_tx s)\<lparr>buf_mem := tx, buf_len := 2\<rparr>,
                    iso_tag := (iso_tag s)\<lparr>tag_did := did\<rparr>, iso_fsd := v,
                    iso_ats_expected := True, iso_last_frame := ISODEP_FRAME_RATS\<rparr> in
          bindE (send_tx s 2 T4T_RATS_FDT) (\<lambda>evs. Inr (s, evs, None)))))"

definition nfc_t4t_isodep_tag_deselect :: "nfc_t4t_isodep \<Rightarrow> outcome" where
  "nfc_t4t_isodep_tag_deselect s =
     (if iso_state s \<noteq> ISODEP_STATE_SELECTED then Inr (s, [], Some EACCES)
      else
        let s = s\<lparr>iso_state := ISODEP_STATE_TRANSFER\<rparr> in
        bindE (mem_write (buf_mem (iso_tx s)) 0 [0xC2]) (\<lambda>tx.
        bindE (did_include s tx 0) (\<lambda>(tx, index).
        let s = s\<lparr>iso_tx := (iso_tx s)\<lparr>buf_mem := tx, buf_len := of_nat index\<rparr>,
                  iso_last_frame := ISODEP_FRAME_DESELECT\<rparr> in
        bindE (send_tx s (of_nat index) ISODEP_FWT_DEACTIVATION) (\<lambda>evs. Inr (s, evs, None)))))"

text \<open>The dispatch of a received block on its block type bits.\<close>

definition isodep_block_handle :: "nfc_t4t_isodep \<Rightarrow> u8 list \<Rightarrow> u32 \<Rightarrow> outcome" where
  "isodep_block_handle s data len =
     bindE (mem_byte data 0) (\<lambda>b.
     if b AND 0x02 \<noteq> 0 then
       if b AND 0x40 \<noteq> 0 then isodep_s_frame_handle s data len
       else if b AND 0x80 \<noteq> 0 then isodep_r_frame_handle s data len
       else isodep_i_frame_handle s data len
     else Inr (s, [], Some ISODEP_SEMANTIC_ERROR))"

definition nfc_t4t_isodep_data_received ::
    "isodep_config \<Rightarrow> int \<Rightarrow> nfc_t4t_isodep \<Rightarrow> ptr \<Rightarrow> u32 \<Rightarrow> bool \<Rightarrow> outcome" where
  "nfc_t4t_isodep_data_received cfg now s data data_len err = (case data of None \<Rightarrow> Inr (s, [], Some EINVAL)
     | Some d \<Rightarrow>
       if data_len < 1 then Inr (s, [], Some ENOMEM)
       else if err then bindE (isodep_error_handle cfg s False) (\<lambda>(s, evs). Inr (s, evs, None))
       else
         bindE (if iso_ats_expected s then ats_parse now (s\<lparr>iso_ats_expected := False\<rparr>) d data_len
                else isodep_block_handle s d data_len) (\<lambda>(s, evs, r).
         case r of None \<Rightarrow> Inr (s, evs, None)
         | Some e \<Rightarrow> bindE (err_notify s e) (\<lambda>(s, evs'). Inr (s, evs @ evs', None))))"

text \<open>\<open>now\<close> is the uptime in milliseconds; \<open>submit\<close> is the result of \<open>k_delayed_work_submit\<close>.\<close>

definition nfc_t4t_isodep_transmit ::
    "int \<Rightarrow> (u32 \<Rightarrow> err option) \<Rightarrow> nfc_t4t_isodep \<Rightarrow> ptr \<Rightarrow> u32 \<Rightarrow> outcome" where
  "nfc_t4t_isodep_transmit now submit s data data_len =
     (if data = None then Inr (s, [], Some EINVAL)
      else if data_len < 1 then Inr (s, [], Some ENOMEM)
      else if iso_state s \<noteq> ISODEP_STATE_SELECTED then Inr (s, [], Some EACCES)
      else
        let s = (isodep_transmission_clear (s\<lparr>iso_state := ISODEP_STATE_TRANSFER\<rparr>))
                  \<lparr>iso_transmit_data := data, iso_transmit_len := data_len\<rparr>;
            spent_time = now - iso_ats_time s;
            ms = T4T_FWT_TO_MS (tag_fwt (iso_tag s)) in
        if iso_first_transfer s \<and> spent_time < uint ms then
          let s = s\<lparr>iso_first_transfer := False, iso_ats_time := now\<rparr>;
              delay = of_int (uint ms - spent_time) in
          Inr (s, [Delayed_Work delay], submit delay)
        else
          let s = (if iso_first_transfer s then s\<lparr>iso_first_transfer := False, iso_ats_time := now\<rparr> else s) in
          bindE (isodep_chunk_send s) (\<lambda>(s, evs). Inr (s, evs, None)))"

section \<open>Building blocks of the frames\<close>

text \<open>The header of a frame: the block byte, followed by the DID when the tag uses it.\<close>

definition frame_hdr :: "nfc_t4t_isodep_tag \<Rightarrow> u8 \<Rightarrow> u8 list" where
  "frame_hdr tag b = (if tag_did_supported tag \<and> tag_did tag \<noteq> 0 then [b OR 0x08, tag_did tag] else [b])"

definition hdr_len :: "nfc_t4t_isodep_tag \<Rightarrow> nat" where
  "hdr_len tag = (if tag_did_supported tag \<and> tag_did tag \<noteq> 0 then 2 else 1)"

lemma length_frame_hdr [simp]: "length (frame_hdr tag b) = hdr_len tag"
  by (simp add: frame_hdr_def hdr_len_def)

lemma hdr_len_bounds: "1 \<le> hdr_len tag" "hdr_len tag \<le> 2"
  by (simp_all add: hdr_len_def)

lemma frame_hdr_Cons: "frame_hdr tag b = (if hdr_len tag = 2 then [b OR 0x08, tag_did tag] else [b])"
  by (simp add: frame_hdr_def hdr_len_def)

lemma header_write [mem_simps]:
  assumes "2 \<le> length m"
  shows "bindE (mem_write m 0 [b]) (\<lambda>tx. bindE (did_include s tx 0) f) =
         f (frame_hdr (iso_tag s) b @ drop (hdr_len (iso_tag s)) m, hdr_len (iso_tag s))"
proof -
  from assms obtain x y m' where "m = x # y # m'"
    by (auto simp: numeral_2_eq_2 Suc_le_length_iff)
  then show ?thesis
    by (simp add: did_include_def mem_write_def mem_byte_def frame_hdr_def hdr_len_def numeral_2_eq_2)
qed

lemma frame_hdr_or:
  "bindE (mem_byte (frame_hdr tag b @ m) 0) (\<lambda>x. mem_write (frame_hdr tag b @ m) 0 [x OR c]) =
   Inr (frame_hdr tag (b OR c) @ m)"
  by (simp add: frame_hdr_def mem_byte_def mem_write_def ac_simps)

lemma frame_body_write:
  "hdr_len tag + length d \<le> length m \<Longrightarrow>
   mem_write (frame_hdr tag b @ drop (hdr_len tag) m) (hdr_len tag) d =
   Inr (frame_hdr tag b @ d @ drop (hdr_len tag + length d) m)"
  by (simp add: mem_write_def ac_simps)

lemma notify_Some [simp]: "iso_cb s = Some cb \<Longrightarrow> notify s f ev = Inr (if f cb then [ev] else [])"
  by (simp add: notify_def)

lemma transmission_clear_simps [simp]:
  "iso_state (isodep_transmission_clear s) = iso_state s"
  "iso_tag (isodep_transmission_clear s) = iso_tag s"
  "iso_tx (isodep_transmission_clear s) = iso_tx s"
  "iso_rx (isodep_transmission_clear s) = (iso_rx s)\<lparr>buf_len := 0\<rparr>"
  "iso_cb (isodep_transmission_clear s) = iso_cb s"
  "iso_block_num (isodep_transmission_clear s) = iso_block_num s"
  "iso_transmit_data (isodep_transmission_clear s) = iso_transmit_data s"
  "iso_transmit_len (isodep_transmission_clear s) = 0"
  "iso_transmitted_len (isodep_transmission_clear s) = 0"
  "iso_chaining (isodep_transmission_clear s) = False"
  "iso_retransmit_cnt (isodep_transmission_clear s) = 0"
  "iso_frame_retry_cnt (isodep_transmission_clear s) = 0"
  "iso_last_frame (isodep_transmission_clear s) = ISODEP_FRAME_NONE"
  "iso_first_transfer (isodep_transmission_clear s) = iso_first_transfer s"
  "iso_ats_time (isodep_transmission_clear s) = iso_ats_time s"
  "iso_ats_expected (isodep_transmission_clear s) = iso_ats_expected s"
  "iso_wtx (isodep_transmission_clear s) = iso_wtx s"
  by (simp_all add: isodep_transmission_clear_def)

section \<open>Invariant\<close>

text \<open>
  What the module keeps at all times. The buffers become those of the user with the
  initialisation; the frame size of the tag is 0 until the first ATS and afterwards at least 14 and
  within the transmit buffer (for a tag whose FSCI the transmit buffer admits, see \<open>call_ok\<close>).
\<close>

definition isodep_inv :: "nfc_t4t_isodep \<Rightarrow> bool" where
  "isodep_inv s \<longleftrightarrow>
     iso_block_num s \<le> 1 \<and>
     iso_transmitted_len s \<le> iso_transmit_len s \<and>
     readable (iso_transmit_data s) (unat (iso_transmit_len s)) \<and>
     (iso_chaining s \<longrightarrow> iso_transmitted_len s < iso_transmit_len s) \<and>
     iso_retransmit_cnt s \<le> 3 \<and>
     length (tag_historical (iso_tag s)) = 15 \<and> tag_historical_len (iso_tag s) \<le> 15 \<and>
     (iso_state s = ISODEP_STATE_UNINITIALIZED \<longrightarrow>
        tag_fsc (iso_tag s) = 0 \<and> buf_len (iso_rx s) = 0 \<and> buf_len (iso_tx s) = 0) \<and>
     (iso_state s \<noteq> ISODEP_STATE_UNINITIALIZED \<longrightarrow>
        iso_cb s \<noteq> None \<and>
        length (buf_mem (iso_tx s)) = unat (buf_size (iso_tx s)) \<and> 16 \<le> buf_size (iso_tx s) \<and>
        length (buf_mem (iso_rx s)) = unat (buf_size (iso_rx s)) \<and> 16 \<le> buf_size (iso_rx s)) \<and>
     buf_len (iso_rx s) \<le> buf_size (iso_rx s) \<and> buf_len (iso_tx s) \<le> buf_size (iso_tx s) \<and>
     (tag_fsc (iso_tag s) \<noteq> 0 \<longrightarrow> 14 \<le> tag_fsc (iso_tag s) \<and>
        unat (tag_fsc (iso_tag s)) \<le> unat (buf_size (iso_tx s))) \<and>
     (iso_state s = ISODEP_STATE_SELECTED \<or> iso_transmit_data s \<noteq> None \<longrightarrow> tag_fsc (iso_tag s) \<noteq> 0) \<and>
     (iso_state s = ISODEP_STATE_UNINITIALIZED \<longrightarrow> iso_transmit_data s = None)"

text \<open>The static structure before anything is called.\<close>

definition isodep_zero :: nfc_t4t_isodep where
  "isodep_zero = \<lparr>iso_state = ISODEP_STATE_UNINITIALIZED,
     iso_tag = \<lparr>tag_fwt = 0, tag_sfgt = 0, tag_fsc = 0, tag_did = 0, tag_lp_divisor = 0, tag_pl_divisor = 0,
        tag_historical = replicate 15 0, tag_historical_len = 0, tag_did_supported = False, tag_nad_supported = False\<rparr>,
     iso_tx = \<lparr>buf_mem = [], buf_len = 0, buf_size = 0\<rparr>, iso_rx = \<lparr>buf_mem = [], buf_len = 0, buf_size = 0\<rparr>,
     iso_last_frame = ISODEP_FRAME_NONE, iso_frame_retry_cnt = 0, iso_wtx = 0, iso_fsd = 0, iso_block_num = 0,
     iso_retransmit_cnt = 0, iso_transmit_data = None, iso_transmit_len = 0, iso_transmitted_len = 0,
     iso_chaining = False, iso_equal_divisor = False, iso_ats_expected = False, iso_first_transfer = False,
     iso_ats_time = 0, iso_cb = None\<rparr>"

lemma isodep_inv_zero: "isodep_inv isodep_zero"
  by (simp add: isodep_inv_def isodep_zero_def)

lemma isodep_inv_ready:
  assumes "isodep_inv s" "iso_state s \<noteq> ISODEP_STATE_UNINITIALIZED"
  obtains cb where "iso_cb s = Some cb" "16 \<le> length (buf_mem (iso_tx s))" "16 \<le> length (buf_mem (iso_rx s))"
    "length (buf_mem (iso_tx s)) = unat (buf_size (iso_tx s))" "length (buf_mem (iso_rx s)) = unat (buf_size (iso_rx s))"
proof -
  from assms obtain cb where "iso_cb s = Some cb" by (auto simp: isodep_inv_def)
  moreover from assms have "16 \<le> length (buf_mem (iso_tx s))" "16 \<le> length (buf_mem (iso_rx s))"
    "length (buf_mem (iso_tx s)) = unat (buf_size (iso_tx s))" "length (buf_mem (iso_rx s)) = unat (buf_size (iso_rx s))"
    by (auto simp: isodep_inv_def word_le_nat_alt)
  ultimately show ?thesis using that by blast
qed

section \<open>What the sending operations do\<close>

text \<open>How much of the data still to send goes into the next I-block.\<close>

definition chunk_room :: "nfc_t4t_isodep \<Rightarrow> nat" where
  "chunk_room s = unat (tag_fsc (iso_tag s)) - hdr_len (iso_tag s)"

definition chunk_left :: "nfc_t4t_isodep \<Rightarrow> nat" where
  "chunk_left s = unat (iso_transmit_len s) - unat (iso_transmitted_len s)"

definition chunk_data :: "nfc_t4t_isodep \<Rightarrow> u8 list" where
  "chunk_data s = take (chunk_room s) (drop (unat (iso_transmitted_len s))
     (block (iso_transmit_data s) (unat (iso_transmit_len s))))"

definition i_block :: "nfc_t4t_isodep \<Rightarrow> u8 list" where
  "i_block s = frame_hdr (iso_tag s)
     ((0x02 OR (iso_block_num s AND 1)) OR (if chunk_room s < chunk_left s then 0x10 else 0)) @ chunk_data s"

definition chunk_state :: "nfc_t4t_isodep \<Rightarrow> nfc_t4t_isodep" where
  "chunk_state s = s\<lparr>iso_chaining := chunk_room s < chunk_left s, iso_last_frame := ISODEP_FRAME_I,
     iso_tx := (iso_tx s)\<lparr>buf_mem := i_block s @ drop (length (i_block s)) (buf_mem (iso_tx s)),
                          buf_len := of_nat (length (i_block s))\<rparr>,
     iso_transmitted_len := of_nat (unat (iso_transmitted_len s) + length (chunk_data s))\<rparr>"

definition chunk_ready :: "nfc_t4t_isodep \<Rightarrow> bool" where
  "chunk_ready s \<longleftrightarrow> iso_cb s \<noteq> None \<and> 14 \<le> tag_fsc (iso_tag s) \<and>
     unat (tag_fsc (iso_tag s)) \<le> length (buf_mem (iso_tx s)) \<and>
     iso_transmitted_len s \<le> iso_transmit_len s \<and>
     readable (iso_transmit_data s) (unat (iso_transmit_len s))"

lemma length_chunk_data:
  assumes "readable (iso_transmit_data s) (unat (iso_transmit_len s))"
  shows "length (chunk_data s) = min (chunk_room s) (chunk_left s)"
  using length_block [OF assms] by (simp add: chunk_data_def chunk_left_def min.commute)

lemma mem_read_chunk:
  assumes "readable p (unat n)" "k + l \<le> unat (n :: u32)"
  shows "mem_read (map_option (drop k) p) l = Inr (take l (drop k (block p (unat n))))"
proof (cases p)
  case None
  with assms(1) have "unat n = 0" by (simp add: readable_def)
  with assms(2) None show ?thesis by (simp add: mem_read_def)
next
  case (Some xs)
  with assms show ?thesis by (auto simp: mem_read_def take_drop min_def)
qed

lemma chunk_send_eq:
  assumes "chunk_ready s" "iso_cb s = Some cb"
  shows "isodep_chunk_send s = Inr (chunk_state s,
           if cb_ready_to_send cb then [Ready_To_Send (i_block s) (tag_fwt (iso_tag s) + FDT_BASE)] else [])"
proof -
  let ?n = "hdr_len (iso_tag s)"
  let ?h = "of_nat ?n :: u32"
  have rdy: "14 \<le> unat (tag_fsc (iso_tag s))" "unat (tag_fsc (iso_tag s)) \<le> length (buf_mem (iso_tx s))"
      "iso_transmitted_len s \<le> iso_transmit_len s"
      "readable (iso_transmit_data s) (unat (iso_transmit_len s))"
    using assms(1) by (auto simp: chunk_ready_def word_le_nat_alt)
  have h: "unat ?h = ?n" "1 \<le> ?n" "?n \<le> 2" using hdr_len_bounds [of "iso_tag s"] by (auto simp: unat_of_nat_u32)
  have room: "unat (ucast (tag_fsc (iso_tag s)) - ?h :: u32) = chunk_room s"
    using rdy(1) h by (subst unat_sub) (auto simp: word_le_nat_alt chunk_room_def)
  have left: "unat (iso_transmit_len s - iso_transmitted_len s) = chunk_left s"
    using rdy(3) by (simp add: unat_sub chunk_left_def)
  have more: "ucast (tag_fsc (iso_tag s)) - ?h < iso_transmit_len s - iso_transmitted_len s \<longleftrightarrow> chunk_room s < chunk_left s"
    by (simp add: word_less_nat_alt room left)
  define dl where "dl = (if chunk_room s < chunk_left s then ucast (tag_fsc (iso_tag s)) - ?h
     else iso_transmit_len s - iso_transmitted_len s)"
  have dl: "unat dl = min (chunk_room s) (chunk_left s)" "unat dl = length (chunk_data s)"
    using length_chunk_data [OF rdy(4)] by (auto simp: dl_def room left)
  have len: "?n + length (chunk_data s) \<le> length (buf_mem (iso_tx s))"
    using dl rdy(1,2) h by (auto simp: chunk_room_def)
  have "unat (iso_transmitted_len s) + unat dl \<le> unat (iso_transmit_len s)"
    using dl(1) rdy(3) by (auto simp: chunk_left_def word_le_nat_alt)
  then have data: "mem_read (map_option (drop (unat (iso_transmitted_len s))) (iso_transmit_data s)) (unat dl) = Inr (chunk_data s)"
    by (subst mem_read_chunk [OF rdy(4)])
      (auto simp: dl(1) chunk_data_def chunk_left_def length_block [OF rdy(4)] min_def)
  have cnt: "of_nat (length (chunk_data s)) = dl" by (simp add: dl(2) [symmetric])
  have n: "unat (?h + dl) = length (i_block s)" "of_nat (length (i_block s)) = ?h + dl"
    using h dl(2) len rdy(2) unat_u16_lt [of "tag_fsc (iso_tag s)"] dl(1) cnt
    by (auto simp: i_block_def unat_word_ariths chunk_room_def)
  have tx: "bindE (if chunk_room s < chunk_left s
        then bindE (mem_byte (frame_hdr (iso_tag s) (2 OR (iso_block_num s AND 1)) @ m) 0)
               (\<lambda>b. mem_write (frame_hdr (iso_tag s) (2 OR (iso_block_num s AND 1)) @ m) 0 [b OR 0x10])
        else Inr (frame_hdr (iso_tag s) (2 OR (iso_block_num s AND 1)) @ m)) f =
      f (frame_hdr (iso_tag s) ((2 OR (iso_block_num s AND 1)) OR (if chunk_room s < chunk_left s then 0x10 else 0)) @ m)" for m f
    by (simp add: frame_hdr_or)
  show ?thesis
    using rdy(1,2) len data assms(2)
    by (simp add: isodep_chunk_send_def header_write more dl_def [symmetric] Let_def tx frame_body_write
        send_tx_def n(1) chunk_state_def n(2) cnt)
      (simp add: i_block_def)
qed

definition r_block :: "nfc_t4t_isodep \<Rightarrow> bool \<Rightarrow> u8 list" where
  "r_block s ack = frame_hdr (iso_tag s) ((0xA2 OR (iso_block_num s AND 1)) OR (if ack then 0 else 0x10))"

lemma r_frame_send_eq:
  assumes "iso_cb s = Some cb" "2 \<le> length (buf_mem (iso_tx s))"
  shows "isodep_r_frame_send s ack =
    Inr (set_tx s (r_block s ack @ drop (hdr_len (iso_tag s)) (buf_mem (iso_tx s))),
         if cb_ready_to_send cb then [Ready_To_Send (r_block s ack) (tag_fwt (iso_tag s) + FDT_BASE)] else [])"
proof -
  have "hdr_len (iso_tag s) < 4294967296" using hdr_len_bounds [of "iso_tag s"] by simp
  then show ?thesis
    using assms
    by (simp add: isodep_r_frame_send_def header_write Let_def send_tx_def set_tx_def unat_of_nat_u32 r_block_def)
qed

section \<open>Every operation keeps the invariant\<close>

text \<open>An operation that succeeds in a state with the invariant: no undefined behaviour.\<close>

definition safe_outcome :: "outcome \<Rightarrow> bool" where
  "safe_outcome r \<longleftrightarrow> (case r of Inl _ \<Rightarrow> False | Inr (s, _) \<Rightarrow> isodep_inv s)"

lemma safe_outcome_simps [simp]: "safe_outcome (Inr (s, x)) \<longleftrightarrow> isodep_inv s" "\<not> safe_outcome (Inl e)"
  by (simp_all add: safe_outcome_def)

lemma isodep_inv_chunk_ready:
  "isodep_inv s \<Longrightarrow> iso_state s \<noteq> ISODEP_STATE_UNINITIALIZED \<Longrightarrow> tag_fsc (iso_tag s) \<noteq> 0 \<Longrightarrow> chunk_ready s"
  by (auto simp: isodep_inv_def chunk_ready_def)

lemma length_i_block: "chunk_ready s \<Longrightarrow> length (i_block s) \<le> unat (tag_fsc (iso_tag s))"
  using hdr_len_bounds [of "iso_tag s"] length_chunk_data [of s]
  by (auto simp: i_block_def chunk_ready_def chunk_room_def word_le_nat_alt)

lemma chunk_transmitted:
  assumes "chunk_ready s"
  shows "unat (iso_transmitted_len (chunk_state s)) = unat (iso_transmitted_len s) + min (chunk_room s) (chunk_left s)"
    and "unat (iso_transmitted_len (chunk_state s)) \<le> unat (iso_transmit_len s)"
proof -
  have "length (chunk_data s) = min (chunk_room s) (chunk_left s)"
    using assms by (simp add: length_chunk_data chunk_ready_def)
  moreover have "unat (iso_transmitted_len s) \<le> unat (iso_transmit_len s)"
    using assms by (simp add: chunk_ready_def word_le_nat_alt)
  ultimately show "unat (iso_transmitted_len (chunk_state s)) = unat (iso_transmitted_len s) + min (chunk_room s) (chunk_left s)"
    using unat_u32_lt [of "iso_transmit_len s"]
    by (simp add: chunk_state_def unat_of_nat_u32 chunk_left_def del: of_nat_add)
  then show "unat (iso_transmitted_len (chunk_state s)) \<le> unat (iso_transmit_len s)"
    using \<open>unat (iso_transmitted_len s) \<le> _\<close> by (simp add: chunk_left_def)
qed

lemma chunk_state_simps [simp]:
  "iso_state (chunk_state s) = iso_state s" "iso_tag (chunk_state s) = iso_tag s"
  "iso_rx (chunk_state s) = iso_rx s" "iso_cb (chunk_state s) = iso_cb s"
  "iso_block_num (chunk_state s) = iso_block_num s" "iso_transmit_data (chunk_state s) = iso_transmit_data s"
  "iso_transmit_len (chunk_state s) = iso_transmit_len s" "iso_retransmit_cnt (chunk_state s) = iso_retransmit_cnt s"
  "iso_chaining (chunk_state s) = (chunk_room s < chunk_left s)"
  "iso_last_frame (chunk_state s) = ISODEP_FRAME_I" "iso_ats_expected (chunk_state s) = iso_ats_expected s"
  "buf_size (iso_tx (chunk_state s)) = buf_size (iso_tx s)"
  "iso_frame_retry_cnt (chunk_state s) = iso_frame_retry_cnt s"
  "iso_first_transfer (chunk_state s) = iso_first_transfer s"
  by (simp_all add: chunk_state_def)

lemma chunk_state_tx:
  assumes "chunk_ready s"
  shows "length (buf_mem (iso_tx (chunk_state s))) = length (buf_mem (iso_tx s))"
    and "unat (buf_len (iso_tx (chunk_state s))) = length (i_block s)"
  using length_i_block [OF assms] assms unat_u16_lt [of "tag_fsc (iso_tag s)"]
  by (auto simp: chunk_state_def chunk_ready_def unat_of_nat_u32)

lemma isodep_inv_chunk_state:
  assumes inv: "isodep_inv s" and "iso_state s \<noteq> ISODEP_STATE_UNINITIALIZED" "tag_fsc (iso_tag s) \<noteq> 0"
  shows "isodep_inv (chunk_state s)"
proof -
  have rdy: "chunk_ready s" using assms by (rule isodep_inv_chunk_ready)
  have "chunk_room s < chunk_left s \<longrightarrow> unat (iso_transmitted_len (chunk_state s)) < unat (iso_transmit_len s)"
    using chunk_transmitted(1) [OF rdy] unfolding chunk_left_def by linarith
  moreover have "unat (buf_len (iso_tx (chunk_state s))) \<le> unat (buf_size (iso_tx s))"
    using chunk_state_tx(2) [OF rdy] length_i_block [OF rdy] inv assms(3) by (simp add: isodep_inv_def)
  ultimately show ?thesis
    using inv assms(2,3) chunk_transmitted(2) [OF rdy] chunk_state_tx(1) [OF rdy]
    by (simp add: isodep_inv_def word_le_nat_alt word_less_nat_alt)
qed

lemma u8_le_1: "x \<le> 1 \<longleftrightarrow> x = 0 \<or> x = (1 :: u8)"
proof
  assume "x \<le> 1"
  then have "unat x = 0 \<or> unat x = 1" by (auto simp: word_le_nat_alt)
  then show "x = 0 \<or> x = 1" by (simp add: word_unat_eq_iff)
qed auto

lemma toggle_toggle [simp]: "(x XOR 1) XOR 1 = (x :: u8)"
  by (simp add: xor.assoc)

lemma toggle_le_1 [simp]: "x XOR 1 \<le> 1 \<longleftrightarrow> x \<le> (1 :: u8)"
proof -
  have "y \<le> 1 \<Longrightarrow> y XOR 1 \<le> 1" for y :: u8 by (auto simp: u8_le_1)
  from this [of x] this [of "x XOR 1"] show ?thesis by auto
qed

lemma isodep_inv_toggle [simp]: "isodep_inv (block_num_toggle s) \<longleftrightarrow> isodep_inv s"
  by (simp add: block_num_toggle_def isodep_inv_def)

lemma isodep_inv_clear: "isodep_inv s \<Longrightarrow> isodep_inv (isodep_transmission_clear s)"
  by (simp add: isodep_inv_def)

lemma chunk_send_safe:
  assumes "isodep_inv s" "iso_state s \<noteq> ISODEP_STATE_UNINITIALIZED" "tag_fsc (iso_tag s) \<noteq> 0"
  shows "safe_outcome (bindE (isodep_chunk_send s) (\<lambda>(s, evs). Inr (s, evs, None)))"
proof -
  from assms(1,2) obtain cb where "iso_cb s = Some cb" by (rule isodep_inv_ready)
  with chunk_send_eq [OF isodep_inv_chunk_ready [OF assms]] isodep_inv_chunk_state [OF assms]
  show ?thesis by simp
qed

lemma err_notify_safe:
  assumes "isodep_inv s" "iso_state s \<noteq> ISODEP_STATE_UNINITIALIZED"
  obtains evs where "err_notify s e = Inr (isodep_transmission_clear s, evs)"
    "isodep_inv (isodep_transmission_clear s)"
proof -
  from assms obtain cb where "iso_cb s = Some cb" by (rule isodep_inv_ready)
  then have "err_notify s e = Inr (isodep_transmission_clear s, if cb_error cb then [Error e] else [])"
    by (simp add: err_notify_def Let_def)
  then show ?thesis using that isodep_inv_clear [OF assms(1)] by blast
qed

lemma r_frame_send_safe:
  assumes "isodep_inv s" "iso_state s \<noteq> ISODEP_STATE_UNINITIALIZED"
  obtains s' evs where "isodep_r_frame_send s ack = Inr (s', evs)" "isodep_inv s'"
    "iso_state s' = iso_state s"
proof -
  from assms obtain cb where cb: "iso_cb s = Some cb" "16 \<le> length (buf_mem (iso_tx s))"
    by (rule isodep_inv_ready)
  have "isodep_inv (set_tx s (r_block s ack @ drop (hdr_len (iso_tag s)) (buf_mem (iso_tx s))))"
    using assms cb(2) hdr_len_bounds [of "iso_tag s"] by (simp add: isodep_inv_def set_tx_def r_block_def)
  with r_frame_send_eq [OF cb(1), of ack] cb(2) show ?thesis
    using that by (simp add: set_tx_def)
qed

lemma send_tx_safe:
  assumes "isodep_inv s" "iso_state s \<noteq> ISODEP_STATE_UNINITIALIZED"
  obtains evs where "send_tx s n fdt = Inr evs"
  using isodep_inv_ready [OF assms] by (metis send_tx_def notify_Some)

lemma error_handle_safe:
  assumes inv: "isodep_inv s" and st: "iso_state s \<noteq> ISODEP_STATE_UNINITIALIZED"
  shows "safe_outcome (bindE (isodep_error_handle cfg s timeout) (\<lambda>(s, evs). Inr (s, evs, None)))"
proof -
  let ?s = "s\<lparr>iso_frame_retry_cnt := iso_frame_retry_cnt s + 1\<rparr>"
  let ?g = "?s\<lparr>iso_state := ISODEP_STATE_INITIALIZED\<rparr>"
  have s: "isodep_inv ?s" "iso_state ?s \<noteq> ISODEP_STATE_UNINITIALIZED"
    and g: "isodep_inv ?g" "iso_state ?g \<noteq> ISODEP_STATE_UNINITIALIZED"
    using inv st by (simp_all add: isodep_inv_def)
  have resend: "safe_outcome (bindE (bindE (send_tx ?s n fdt) (\<lambda>evs. Inr (?s, evs))) (\<lambda>(s, evs). Inr (s, evs, None)))" for n fdt
  proof -
    from s obtain evs where "send_tx ?s n fdt = Inr evs" by (rule send_tx_safe)
    then show ?thesis using s(1) by simp
  qed
  have give_up: "safe_outcome (bindE (err_notify ?g e) (\<lambda>(s, evs). Inr (s, evs, None)))" for e
    using g by (rule err_notify_safe [where e = e]) simp
  have r: "safe_outcome (bindE (isodep_r_frame_send ?s ack) (\<lambda>(s, evs). Inr (s, evs, None)))" for ack
    using s by (rule r_frame_send_safe [where ack = ack]) simp
  show ?thesis
    using resend give_up r
    by (cases "iso_last_frame s") (simp_all add: isodep_error_handle_def Let_def)
qed

lemma on_timeout_safe:
  "isodep_inv s \<Longrightarrow> iso_state s \<noteq> ISODEP_STATE_UNINITIALIZED \<Longrightarrow> safe_outcome (nfc_t4t_isodep_on_timeout cfg s)"
  unfolding nfc_t4t_isodep_on_timeout_def by (rule error_handle_safe)

lemma init_safe:
  assumes "isodep_inv s" "cb \<noteq> None"
    and "\<forall>m. tx = Some m \<longrightarrow> length m = unat size_tx" "\<forall>m. rx = Some m \<longrightarrow> length m = unat size_rx"
  shows "safe_outcome (nfc_t4t_isodep_init s tx size_tx rx size_rx cb)"
  using assms
  by (auto simp: nfc_t4t_isodep_init_def isodep_inv_def word_le_nat_alt word_less_nat_alt split: option.split)

lemma rats_send_safe:
  assumes inv: "isodep_inv s" and "fsd < 9"
  shows "safe_outcome (nfc_t4t_isodep_rats_send s fsd did)"
proof (cases "iso_state s = ISODEP_STATE_INITIALIZED \<or> iso_state s = ISODEP_STATE_SELECTED")
  case True
  with inv obtain cb where cb: "iso_cb s = Some cb" "16 \<le> length (buf_mem (iso_tx s))"
    by (auto elim: isodep_inv_ready)
  obtain v where "fsd_value fsd = Inr v"
    using \<open>fsd < 9\<close> by (simp add: fsd_value_def fsd_value_map_def)
  with True inv cb show ?thesis
    by (auto simp: nfc_t4t_isodep_rats_send_def Let_def isodep_inv_def send_tx_def mem_write_0 word_le_nat_alt word_less_nat_alt)
qed (use inv in \<open>auto simp: nfc_t4t_isodep_rats_send_def\<close>)

lemma deselect_safe:
  assumes inv: "isodep_inv s"
  shows "safe_outcome (nfc_t4t_isodep_tag_deselect s)"
proof (cases "iso_state s = ISODEP_STATE_SELECTED")
  case True
  with inv obtain cb where cb: "iso_cb s = Some cb" "16 \<le> length (buf_mem (iso_tx s))"
    by (auto elim: isodep_inv_ready)
  have "unat (of_nat (hdr_len (iso_tag s)) :: u32) \<le> 2"
    using hdr_len_bounds [of "iso_tag s"] by (simp add: unat_of_nat_u32)
  with True inv cb hdr_len_bounds [of "iso_tag s"] show ?thesis
    by (simp add: nfc_t4t_isodep_tag_deselect_def Let_def header_write send_tx_def isodep_inv_def word_le_nat_alt)
qed (use inv in \<open>auto simp: nfc_t4t_isodep_tag_deselect_def\<close>)

lemma transmit_safe:
  assumes inv: "isodep_inv s" and rd: "readable data (unat data_len)"
  shows "safe_outcome (nfc_t4t_isodep_transmit now submit s data data_len)"
proof (cases "data = None \<or> data_len < 1 \<or> iso_state s \<noteq> ISODEP_STATE_SELECTED")
  case True
  then show ?thesis using inv by (auto simp: nfc_t4t_isodep_transmit_def)
next
  case False
  define t where "t = (isodep_transmission_clear (s\<lparr>iso_state := ISODEP_STATE_TRANSFER\<rparr>))
     \<lparr>iso_transmit_data := data, iso_transmit_len := data_len\<rparr>"
  let ?t = "t\<lparr>iso_first_transfer := False, iso_ats_time := now\<rparr>"
  have fsc: "tag_fsc (iso_tag s) \<noteq> 0" using False inv by (auto simp: isodep_inv_def)
  have inv_t: "isodep_inv t" "isodep_inv ?t"
    using inv False rd fsc by (simp_all add: isodep_inv_def t_def)
  have send: "safe_outcome (bindE (isodep_chunk_send t) (\<lambda>(s, evs). Inr (s, evs, None)))"
      "safe_outcome (bindE (isodep_chunk_send ?t) (\<lambda>(s, evs). Inr (s, evs, None)))"
    using inv_t by (auto intro!: chunk_send_safe simp: t_def fsc)
  from False show ?thesis
    by (auto simp: nfc_t4t_isodep_transmit_def t_def [symmetric] Let_def inv_t send)
qed

section \<open>Received frames\<close>

text \<open>
  What has to hold of a frame so that the handlers stay within it and within the module's buffers.
  An ATS that passes the length checks must announce a known frame size that fits the transmit
  buffer, be long enough for its interface bytes and have at most 15 historical bytes. A request
  for a waiting time extension must have its WTXM byte. The code checks neither.
\<close>

definition ats_index :: "u8 \<Rightarrow> nat" where
  "ats_index t0 = 2 + of_bool (t0 AND 0x10 \<noteq> 0) + of_bool (t0 AND 0x20 \<noteq> 0) + of_bool (t0 AND 0x40 \<noteq> 0)"

definition ats_ok :: "nat \<Rightarrow> u8 list \<Rightarrow> u32 \<Rightarrow> bool" where
  "ats_ok tx_size d len \<longleftrightarrow> len < 2 \<or> ucast (d ! 0) \<noteq> len \<or> len > 20 \<or>
     (unat (d ! 1 AND 0x0F) < 9 \<and> unat (fsd_value_map ! unat (d ! 1 AND 0x0F)) \<le> tx_size + 2 \<and>
      ats_index (d ! 1) \<le> unat len \<and> unat len \<le> ats_index (d ! 1) + 15)"

definition is_wtx :: "u8 \<Rightarrow> bool" where
  "is_wtx b \<longleftrightarrow> b AND 0x02 \<noteq> 0 \<and> b AND 0x40 \<noteq> 0 \<and> b AND 0x30 = 0x30"

definition frame_ok :: "u8 list \<Rightarrow> u32 \<Rightarrow> bool" where
  "frame_ok d len \<longleftrightarrow> \<not> is_wtx (d ! 0) \<or> (if d ! 0 AND 0x08 \<noteq> 0 then 3 \<le> unat len else 2 \<le> unat len)"

lemma fsd_value_map_nth:
  assumes "i < 9"
  shows "fsd_value i = Inr (fsd_value_map ! i)" "14 \<le> unat (fsd_value_map ! i - 2)"
    "unat (fsd_value_map ! i - 2) = unat (fsd_value_map ! i) - 2" "fsd_value_map ! i - 2 \<noteq> 0"
proof -
  have "i \<in> set [0..<9]" using assms by simp
  then have "i = 0 \<or> i = 1 \<or> i = 2 \<or> i = 3 \<or> i = 4 \<or> i = 5 \<or> i = 6 \<or> i = 7 \<or> i = 8"
    by (simp add: upt_conv_Cons eval_nat_numeral)
  then show "fsd_value i = Inr (fsd_value_map ! i)" "14 \<le> unat (fsd_value_map ! i - 2)"
    "unat (fsd_value_map ! i - 2) = unat (fsd_value_map ! i) - 2" "fsd_value_map ! i - 2 \<noteq> 0"
    by (elim disjE; simp add: fsd_value_def fsd_value_map_def)+
qed

text \<open>The parts of the ATS change only what the invariant does not mention.\<close>

definition same_core :: "nfc_t4t_isodep \<Rightarrow> nfc_t4t_isodep \<Rightarrow> bool" where
  "same_core s s' \<longleftrightarrow> (isodep_inv s \<longrightarrow> isodep_inv s') \<and> iso_cb s' = iso_cb s \<and> iso_state s' = iso_state s \<and>
     tag_fsc (iso_tag s') = tag_fsc (iso_tag s)"

lemma ats_ta_ok:
  "index + of_bool (t0 AND 0x10 \<noteq> 0) \<le> length d \<Longrightarrow>
   \<exists>s'. ats_ta s t0 d index = Inr (s', index + of_bool (t0 AND 0x10 \<noteq> 0)) \<and> same_core s s'"
  by (cases "t0 AND 0x10 = 0") (simp_all add: ats_ta_def mem_byte_in same_core_def isodep_inv_def)

lemma ats_tb_ok:
  "index + of_bool (t0 AND 0x20 \<noteq> 0) \<le> length d \<Longrightarrow>
   \<exists>s'. ats_tb s t0 d index = Inr (s', index + of_bool (t0 AND 0x20 \<noteq> 0)) \<and> same_core s s'"
  by (cases "t0 AND 0x20 = 0") (simp_all add: ats_tb_def mem_byte_in same_core_def isodep_inv_def)

lemma ats_tc_ok:
  "index + of_bool (t0 AND 0x40 \<noteq> 0) \<le> length d \<Longrightarrow>
   \<exists>s'. ats_tc s t0 d index = Inr (s', index + of_bool (t0 AND 0x40 \<noteq> 0)) \<and> same_core s s'"
  by (cases "t0 AND 0x40 = 0") (simp_all add: ats_tc_def mem_byte_in same_core_def isodep_inv_def)

lemma ats_historical_ok:
  assumes "unat len \<le> length d" "unat len \<le> index + 15" "isodep_inv s"
  shows "\<exists>s'. ats_historical s d len index = Inr s' \<and> same_core s s'"
proof (cases "index < unat len")
  case True
  have "length (tag_historical (iso_tag s)) = 15" using assms(3) by (simp add: isodep_inv_def)
  moreover have "unat (of_nat (unat len - index) :: u8) \<le> 15" using assms(2) by (simp add: unat_of_nat_u8)
  ultimately show ?thesis
    using True assms by (simp add: ats_historical_def mem_read_block mem_write_0 same_core_def isodep_inv_def word_le_nat_alt)
qed (simp add: ats_historical_def same_core_def)

lemma ats_parse_safe:
  assumes inv: "isodep_inv s" and st: "iso_state s \<noteq> ISODEP_STATE_UNINITIALIZED"
    and rd: "unat len \<le> length d" and ok: "ats_ok (unat (buf_size (iso_tx s))) d len"
  shows "safe_outcome (ats_parse now s d len)"
proof -
  have inv': "isodep_inv (s\<lparr>iso_ats_time := now\<rparr>)" using inv by (simp add: isodep_inv_def)
  have d0: "mem_byte d 0 = Inr (d ! 0)" if "\<not> len < 2"
    using that rd by (intro mem_byte_in) (auto simp: word_less_nat_alt)
  show ?thesis
  proof (cases "len < 2 \<or> ucast (d ! 0) \<noteq> len \<or> len > 20")
    case True
    then show ?thesis using inv' d0 by (cases "len < 2") (auto simp: ats_parse_def Let_def)
  next
    case False
    let ?t0 = "d ! 1"
    let ?i1 = "2 + of_bool (?t0 AND 0x10 \<noteq> 0)" let ?i2 = "?i1 + of_bool (?t0 AND 0x20 \<noteq> 0)"
    let ?i3 = "?i2 + of_bool (?t0 AND 0x40 \<noteq> 0)"
    have idx: "unat (?t0 AND 0x0F) < 9" "unat (fsd_value_map ! unat (?t0 AND 0x0F)) \<le> unat (buf_size (iso_tx s)) + 2"
        "?i3 \<le> unat len" "unat len \<le> ?i3 + 15"
      using ok False by (auto simp: ats_ok_def ats_index_def)
    note fsc = fsd_value_map_nth [OF idx(1)]
    let ?s = "s\<lparr>iso_ats_time := now, iso_tag := (iso_tag s)\<lparr>tag_fsc := fsd_value_map ! unat (?t0 AND 0x0F) - 2\<rparr>\<rparr>"
    have s: "isodep_inv ?s"
      using inv st idx(2) fsc by (auto simp: isodep_inv_def word_le_nat_alt)
    have le: "?i1 \<le> length d" "?i2 \<le> length d" "?i3 \<le> length d" using idx(3) rd by linarith+
    obtain s1 where s1: "ats_ta ?s ?t0 d 2 = Inr (s1, ?i1)" "same_core ?s s1" using ats_ta_ok le(1) by blast
    obtain s2 where s2: "ats_tb s1 ?t0 d ?i1 = Inr (s2, ?i2)" "same_core s1 s2" using ats_tb_ok le(2) by blast
    obtain s3 where s3: "ats_tc s2 ?t0 d ?i2 = Inr (s3, ?i3)" "same_core s2 s3" using ats_tc_ok le(3) by blast
    have "isodep_inv s3" using s s1(2) s2(2) s3(2) by (simp add: same_core_def)
    then obtain s4 where s4: "ats_historical s3 d len ?i3 = Inr s4" "same_core s3 s4"
      using ats_historical_ok rd idx(4) by blast
    have core: "isodep_inv s4" "iso_cb s4 = iso_cb s" "tag_fsc (iso_tag s4) \<noteq> 0" "iso_state s4 = iso_state s"
      using s s1(2) s2(2) s3(2) s4(2) fsc(4) by (auto simp: same_core_def)
    obtain cb where "iso_cb s = Some cb" using inv st by (rule isodep_inv_ready)
    moreover have "mem_byte d 1 = Inr ?t0" using le(1) by (intro mem_byte_in) simp
    moreover have "isodep_inv (s4\<lparr>iso_block_num := 0, iso_first_transfer := True, iso_state := ISODEP_STATE_SELECTED\<rparr>)"
      using core(1,3,4) st by (simp add: isodep_inv_def)
    ultimately show ?thesis
      using False d0 fsc(1) s1(1) s2(1) s3(1) s4(1) core(2)
      by (simp add: ats_parse_def Let_def)
  qed
qed

lemma s_frame_safe:
  assumes inv: "isodep_inv s" and st: "iso_state s \<noteq> ISODEP_STATE_UNINITIALIZED"
    and rd: "unat len \<le> length d" "1 \<le> unat len"
    and ok: "d ! 0 AND 0x30 = 0x30 \<Longrightarrow> (if d ! 0 AND 0x08 \<noteq> 0 then 3 \<le> unat len else 2 \<le> unat len)"
  shows "safe_outcome (isodep_s_frame_handle s d len)"
proof -
  let ?i = "if d ! 0 AND 0x08 \<noteq> 0 then 2 else 1 :: nat"
  from inv st obtain cb where cb: "iso_cb s = Some cb" "16 \<le> length (buf_mem (iso_tx s))"
    by (rule isodep_inv_ready)
  have d0: "mem_byte d 0 = Inr (d ! 0)" using rd by (intro mem_byte_in) linarith
  show ?thesis
  proof (cases "d ! 0 AND 0x30 = 0x30")
    case False
    moreover have "isodep_inv (s\<lparr>iso_state := ISODEP_STATE_INITIALIZED\<rparr>)" using inv st by (auto simp: isodep_inv_def)
    ultimately show ?thesis using d0 inv cb(1) by (simp add: isodep_s_frame_handle_def Let_def)
  next
    case True
    with ok rd have di: "mem_byte d ?i = Inr (d ! ?i)" by (intro mem_byte_in) (auto split: if_splits)
    let ?w = "d ! ?i AND 0x3F" let ?n = "hdr_len (iso_tag s)"
    have n: "unat (of_nat ?n + 1 :: u32) = ?n + 1" "?n + 1 \<le> 3"
      using hdr_len_bounds [of "iso_tag s"] by (auto simp: unat_word_ariths unat_of_nat_u32)
    have "safe_outcome
        (bindE (mem_write (buf_mem (iso_tx s)) 0 [0xC2 OR 0x30]) (\<lambda>tx.
         bindE (did_include s tx 0) (\<lambda>(tx, index).
         bindE (mem_write tx index [w]) (\<lambda>tx.
         let n = of_nat index + 1;
             s = s\<lparr>iso_tx := (iso_tx s)\<lparr>buf_mem := tx, buf_len := n\<rparr>, iso_last_frame := ISODEP_FRAME_WTX_RESPONSE\<rparr> in
         bindE (send_tx s n (tag_fwt (iso_tag s) * ucast w + FDT_BASE)) (\<lambda>evs. Inr (s, evs, None))))))" for w
      using inv st cb n by (simp add: header_write frame_body_write Let_def send_tx_def isodep_inv_def word_le_nat_alt)
    then show ?thesis
      using True d0 di inv by (simp add: isodep_s_frame_handle_def Let_def del: One_nat_def)
  qed
qed

lemma isodep_inv_chaining:
  assumes inv: "isodep_inv s" and "iso_chaining s"
  shows "tag_fsc (iso_tag s) \<noteq> 0"
proof -
  have "iso_transmit_len s \<noteq> 0" "readable (iso_transmit_data s) (unat (iso_transmit_len s))"
    using assms by (auto simp: isodep_inv_def)
  then have "iso_transmit_data s \<noteq> None" using readable_nonnull by blast
  then show ?thesis using inv by (simp add: isodep_inv_def)
qed

lemma r_frame_safe:
  assumes inv: "isodep_inv s" and st: "iso_state s \<noteq> ISODEP_STATE_UNINITIALIZED"
    and rd: "1 \<le> length d"
  shows "safe_outcome (isodep_r_frame_handle s d len)"
proof -
  have d0: "mem_byte d 0 = Inr (d ! 0)" using rd by (intro mem_byte_in) linarith
  have chunk: "safe_outcome (bindE (isodep_chunk_send (block_num_toggle s)) (\<lambda>(s, evs). Inr (s, evs, None)))"
    if "iso_chaining s"
    using inv st isodep_inv_chaining [OF inv that]
    by (intro chunk_send_safe) (simp, simp_all add: block_num_toggle_def)
  have resend: "safe_outcome (bindE (send_tx s n fdt) (\<lambda>evs.
       Inr (if evs \<noteq> [] then s\<lparr>iso_retransmit_cnt := iso_retransmit_cnt s + 1\<rparr> else s, evs, None)))"
    if "\<not> iso_retransmit_cnt s > 2" for n fdt
  proof -
    from inv st obtain evs where evs: "send_tx s n fdt = Inr evs" by (rule send_tx_safe)
    have "iso_retransmit_cnt s + 1 \<le> 3"
      using that by (simp add: word_le_nat_alt word_less_nat_alt unat_word_ariths)
    then show ?thesis using evs inv by (simp add: isodep_inv_def)
  qed
  show ?thesis
    using d0 inv chunk resend by (simp add: isodep_r_frame_handle_def Let_def)
qed

text \<open>The state after the payload \<open>p\<close> of a block with block byte \<open>b\<close> has been stored.\<close>

definition rx_append :: "nfc_t4t_isodep \<Rightarrow> u8 \<Rightarrow> u8 list \<Rightarrow> nfc_t4t_isodep" where
  "rx_append s b p =
     (let s = (if b AND 0x01 = iso_block_num s then block_num_toggle s else s) in
      s\<lparr>iso_rx := (iso_rx s)\<lparr>
         buf_mem := take (unat (buf_len (iso_rx s))) (buf_mem (iso_rx s)) @ p @
                    drop (unat (buf_len (iso_rx s)) + length p) (buf_mem (iso_rx s)),
         buf_len := buf_len (iso_rx s) + of_nat (length p)\<rparr>\<rparr>)"

lemma rx_append_simps [simp]:
  "iso_state (rx_append s b p) = iso_state s" "iso_tag (rx_append s b p) = iso_tag s"
  "iso_tx (rx_append s b p) = iso_tx s" "iso_cb (rx_append s b p) = iso_cb s"
  "iso_ats_expected (rx_append s b p) = iso_ats_expected s"
  "iso_chaining (rx_append s b p) = iso_chaining s"
  "iso_transmit_data (rx_append s b p) = iso_transmit_data s"
  "iso_transmit_len (rx_append s b p) = iso_transmit_len s"
  "iso_transmitted_len (rx_append s b p) = iso_transmitted_len s"
  "iso_retransmit_cnt (rx_append s b p) = iso_retransmit_cnt s"
  "iso_block_num (rx_append s b p) =
     (if b AND 0x01 = iso_block_num s then iso_block_num s XOR 1 else iso_block_num s)"
  "buf_size (iso_rx (rx_append s b p)) = buf_size (iso_rx s)"
  "buf_len (iso_rx (rx_append s b p)) = buf_len (iso_rx s) + of_nat (length p)"
  "buf_mem (iso_rx (rx_append s b p)) = take (unat (buf_len (iso_rx s))) (buf_mem (iso_rx s)) @ p @
                    drop (unat (buf_len (iso_rx s)) + length p) (buf_mem (iso_rx s))"
  by (simp_all add: rx_append_def block_num_toggle_def Let_def)

lemma i_frame_index_bounds: "1 \<le> i_frame_index b" "i_frame_index b \<le> 3"
  by (simp_all add: i_frame_index_def)

lemma i_frame_handle_eq:
  assumes "unat len = i_frame_index b + length p" "d = b # d'" "take (length p) (drop (i_frame_index b) d) = p"
    and "unat (buf_len (iso_rx s)) + length p \<le> length (buf_mem (iso_rx s))"
    and "length (buf_mem (iso_rx s)) = unat (buf_size (iso_rx s))"
  shows "isodep_i_frame_handle s d len =
    (if b AND 0x10 \<noteq> 0 then
       bindE (isodep_r_frame_send ((rx_append s b p)\<lparr>iso_last_frame := ISODEP_FRAME_I_CHAINING\<rparr>) True)
         (\<lambda>(s, evs). Inr (s, evs, None))
     else
       let s = (rx_append s b p)\<lparr>iso_state := ISODEP_STATE_SELECTED, iso_last_frame := ISODEP_FRAME_I\<rparr> in
       bindE (notify s cb_data_received (Data_Received (take (unat (buf_len (iso_rx s))) (buf_mem (iso_rx s)))))
         (\<lambda>evs. Inr (s, evs, None)))"
proof -
  let ?i = "i_frame_index b"
  have i: "unat (of_nat ?i :: u32) = ?i" using i_frame_index_bounds [of b] by (simp add: unat_of_nat_u32)
  have n: "len - of_nat ?i = of_nat (length p)"
    by (rule word_unat_eq_iff [THEN iffD2])
      (use assms(1) i unat_u32_lt [of len] in \<open>simp add: unat_sub word_le_nat_alt unat_of_nat_u32\<close>)
  have un: "unat (of_nat (length p) :: u32) = length p"
    using assms(1) unat_u32_lt [of len] by (simp add: unat_of_nat_u32)
  have lt: "\<not> len < of_nat ?i" using assms(1) i by (simp add: word_less_nat_alt)
  have fit: "\<not> buf_size (iso_rx s) < buf_len (iso_rx s) + of_nat (length p)"
    using assms(4,5) un unat_u32_lt [of "buf_size (iso_rx s)"]
    by (simp add: word_less_nat_alt unat_add_no_wrap_u32)
  have "length p \<le> length (drop ?i d)"
    by (metis assms(3) length_take min.cobounded2 min.commute min.cobounded1)
  then have "mem_read (Some (drop ?i d)) (length p) = Inr p" using assms(3) by (simp add: mem_read_block)
  then show ?thesis
    using assms(2,4) lt fit
    by (cases "b AND 1 = iso_block_num s")
      (simp_all add: isodep_i_frame_handle_def n un Let_def mem_byte_def mem_write_ok rx_append_def
        block_num_toggle_def)
qed

lemma isodep_inv_rx_append:
  assumes "isodep_inv s" "iso_state s \<noteq> ISODEP_STATE_UNINITIALIZED"
    and "unat (buf_len (iso_rx s)) + length p \<le> length (buf_mem (iso_rx s))"
  shows "isodep_inv (rx_append s b p)"
proof -
  have "unat (buf_len (iso_rx s) + of_nat (length p)) = unat (buf_len (iso_rx s)) + length p"
    using assms unat_u32_lt [of "buf_size (iso_rx s)"]
    by (subst unat_add_no_wrap_u32) (auto simp: isodep_inv_def unat_of_nat_u32)
  moreover have "iso_block_num s XOR 1 \<le> 1" using assms(1) by (simp add: isodep_inv_def)
  ultimately show ?thesis using assms by (simp add: isodep_inv_def word_le_nat_alt)
qed

lemma i_frame_safe:
  assumes inv: "isodep_inv s" and st: "iso_state s \<noteq> ISODEP_STATE_UNINITIALIZED"
    and rd: "unat len \<le> length d" "1 \<le> unat len" and fsc: "tag_fsc (iso_tag s) \<noteq> 0"
    and space: "unat (buf_size (iso_rx s)) + unat len < 4294967296"
  shows "safe_outcome (isodep_i_frame_handle s d len)"
proof -
  from rd obtain b d' where d: "d = b # d'" by (cases d) auto
  let ?i = "i_frame_index b"
  have i: "unat (of_nat ?i :: u32) = ?i" using i_frame_index_bounds [of b] by (simp add: unat_of_nat_u32)
  show ?thesis
  proof (cases "len < of_nat ?i \<or> buf_len (iso_rx s) + (len - of_nat ?i) > buf_size (iso_rx s)")
    case True
    then show ?thesis using d inv by (auto simp: isodep_i_frame_handle_def Let_def mem_byte_def)
  next
    case False
    then have ile: "?i \<le> unat len" using i by (simp add: word_less_nat_alt)
    define p where "p = take (unat len - ?i) (drop ?i d)"
    have lp: "unat len = ?i + length p" "take (length p) (drop ?i d) = p" using ile rd(1) by (auto simp: p_def)
    have n: "unat (len - of_nat ?i) = length p" using lp(1) i by (simp add: unat_sub word_le_nat_alt)
    have rx: "buf_len (iso_rx s) \<le> buf_size (iso_rx s)" "length (buf_mem (iso_rx s)) = unat (buf_size (iso_rx s))"
      using inv st by (auto simp: isodep_inv_def)
    have "unat (buf_len (iso_rx s) + (len - of_nat ?i)) = unat (buf_len (iso_rx s)) + length p"
      using rx(1) n lp(1) space by (subst unat_add_no_wrap_u32) (auto simp: word_le_nat_alt)
    with False rx(2) have fit: "unat (buf_len (iso_rx s)) + length p \<le> length (buf_mem (iso_rx s))"
      by (simp add: word_less_nat_alt)
    have inv1: "isodep_inv ((rx_append s b p)\<lparr>iso_last_frame := ISODEP_FRAME_I_CHAINING\<rparr>)"
        "isodep_inv ((rx_append s b p)\<lparr>iso_state := ISODEP_STATE_SELECTED, iso_last_frame := ISODEP_FRAME_I\<rparr>)"
      using isodep_inv_rx_append [OF inv st fit, of b] st fsc by (simp_all add: isodep_inv_def)
    have r: "safe_outcome (bindE (isodep_r_frame_send ((rx_append s b p)\<lparr>iso_last_frame := ISODEP_FRAME_I_CHAINING\<rparr>) True)
        (\<lambda>(s, evs). Inr (s, evs, None)))"
      using inv1(1) by (rule r_frame_send_safe [where ack = True]) (simp_all add: st)
    obtain cb where "iso_cb s = Some cb" using inv st by (rule isodep_inv_ready)
    with i_frame_handle_eq [OF lp(1) d lp(2) fit rx(2)] r inv1(2) show ?thesis by (simp add: Let_def)
  qed
qed


section \<open>Sequences of calls\<close>

text \<open>Everything that can happen to the module: the calls of the user, the arrival of frames and timeouts, and
  the expiry of the delay before the first block.\<close>

datatype isodep_call =
    Init ptr u32 ptr u32 "nfc_t4t_isodep_cb option"
  | Rats nat u8
  | Deselect
  | Received int ptr u32 bool
  | Timeout
  | Transmit int "err option" ptr u32
  | Delay_Expired

definition isodep_exec :: "isodep_config \<Rightarrow> nfc_t4t_isodep \<Rightarrow> isodep_call \<Rightarrow> outcome" where
  "isodep_exec cfg s c = (case c of
     Init tx n_tx rx n_rx cb \<Rightarrow> nfc_t4t_isodep_init s tx n_tx rx n_rx cb
   | Rats fsd did \<Rightarrow> nfc_t4t_isodep_rats_send s fsd did
   | Deselect \<Rightarrow> nfc_t4t_isodep_tag_deselect s
   | Received now data len err \<Rightarrow> nfc_t4t_isodep_data_received cfg now s data len err
   | Timeout \<Rightarrow> nfc_t4t_isodep_on_timeout cfg s
   | Transmit now r data len \<Rightarrow> nfc_t4t_isodep_transmit now (\<lambda>_. r) s data len
   | Delay_Expired \<Rightarrow> isodep_delay_handler s)"

text \<open>
  What the callers have to respect: buffers and frames of the given lengths (which together fit the address
  space), a callback structure, a frame size of the enumeration, no frame and no timeout before the
  initialisation, no block before the first ATS, the delay only expires once it was started; and the
  frames must satisfy \<open>ats_ok\<close> or \<open>frame_ok\<close>.
\<close>

definition buffer_of :: "ptr \<Rightarrow> u32 \<Rightarrow> bool" where
  "buffer_of p n \<longleftrightarrow> (case p of None \<Rightarrow> True | Some m \<Rightarrow> length m = unat n)"

definition received_ok :: "nfc_t4t_isodep \<Rightarrow> ptr \<Rightarrow> u32 \<Rightarrow> bool \<Rightarrow> bool" where
  "received_ok s data len err \<longleftrightarrow> iso_state s \<noteq> ISODEP_STATE_UNINITIALIZED \<and>
     (case data of None \<Rightarrow> True
      | Some d \<Rightarrow> len = 0 \<or> err \<or> unat len \<le> length d \<and>
          (if iso_ats_expected s then ats_ok (unat (buf_size (iso_tx s))) d len
           else frame_ok d len \<and> tag_fsc (iso_tag s) \<noteq> 0 \<and> unat (buf_size (iso_rx s)) + unat len < 4294967296))"

definition call_ok :: "nfc_t4t_isodep \<Rightarrow> isodep_call \<Rightarrow> bool" where
  "call_ok s c = (case c of
     Init tx n_tx rx n_rx cb \<Rightarrow> cb \<noteq> None \<and> buffer_of tx n_tx \<and> buffer_of rx n_rx
   | Rats fsd did \<Rightarrow> fsd < 9
   | Deselect \<Rightarrow> True
   | Received now data len err \<Rightarrow> received_ok s data len err
   | Timeout \<Rightarrow> iso_state s \<noteq> ISODEP_STATE_UNINITIALIZED
   | Transmit now r data len \<Rightarrow> readable data (unat len)
   | Delay_Expired \<Rightarrow> iso_transmit_data s \<noteq> None)"

lemma block_handle_safe:
  assumes "isodep_inv s" "iso_state s \<noteq> ISODEP_STATE_UNINITIALIZED" "unat len \<le> length d" "1 \<le> unat len"
    and "frame_ok d len" "tag_fsc (iso_tag s) \<noteq> 0" "unat (buf_size (iso_rx s)) + unat len < 4294967296"
  shows "safe_outcome (isodep_block_handle s d len)"
proof -
  have "mem_byte d 0 = Inr (d ! 0)" using assms(3,4) by (intro mem_byte_in) linarith
  moreover have "d ! 0 AND 0x02 \<noteq> 0 \<Longrightarrow> d ! 0 AND 0x40 \<noteq> 0 \<Longrightarrow> safe_outcome (isodep_s_frame_handle s d len)"
    using assms(1-5) by (intro s_frame_safe) (auto simp: frame_ok_def is_wtx_def)
  moreover have "safe_outcome (isodep_r_frame_handle s d len)"
    using assms(1-4) by (intro r_frame_safe) auto
  moreover have "safe_outcome (isodep_i_frame_handle s d len)"
    using assms by (intro i_frame_safe)
  ultimately show ?thesis using assms(1) by (simp add: isodep_block_handle_def)
qed

text \<open>A handler that reports an error has changed neither the state nor called anyone.\<close>

lemma ats_parse_error:
  "ats_parse now s d len = Inr (s', evs, Some e) \<Longrightarrow> s' = s\<lparr>iso_ats_time := now\<rparr> \<and> evs = [] \<and> e = ISODEP_SYNTAX_ERROR"
  by (auto simp: ats_parse_def Let_def bindE_eq_Inr split: if_splits)

lemma s_frame_error: "isodep_s_frame_handle s d len = Inr (s', evs, Some e) \<Longrightarrow> s' = s \<and> evs = []"
  by (auto simp: isodep_s_frame_handle_def Let_def bindE_eq_Inr split: if_split_asm)

lemma r_frame_error: "isodep_r_frame_handle s d len = Inr (s', evs, Some e) \<Longrightarrow> s' = s \<and> evs = []"
  by (auto simp: isodep_r_frame_handle_def Let_def bindE_eq_Inr split: if_split_asm)

lemma i_frame_error: "isodep_i_frame_handle s d len = Inr (s', evs, Some e) \<Longrightarrow> s' = s \<and> evs = []"
proof -
  assume h: "isodep_i_frame_handle s d len = Inr (s', evs, Some e)"
  then obtain b where b: "mem_byte d 0 = Inr b" by (auto simp: isodep_i_frame_handle_def bindE_eq_Inr)
  let ?i = "i_frame_index b"
  show ?thesis
  proof (cases "len < of_nat ?i \<or> buf_len (iso_rx s) + (len - of_nat ?i) > buf_size (iso_rx s)")
    case True
    then show ?thesis using h b by (auto simp: isodep_i_frame_handle_def Let_def split: if_split_asm)
  next
    case False
    then show ?thesis
      using h b by (simp add: isodep_i_frame_handle_def Let_def bindE_eq_Inr split del: if_split) (auto split: if_split_asm simp: bindE_eq_Inr Let_def)
  qed
qed

lemma block_handle_error:
  "isodep_block_handle s d len = Inr (s', evs, Some e) \<Longrightarrow> s' = s \<and> evs = []"
  by (auto simp: isodep_block_handle_def bindE_eq_Inr split: if_split_asm
      dest: s_frame_error r_frame_error i_frame_error)

lemma data_received_safe:
  assumes inv: "isodep_inv s" and ok: "received_ok s data len err"
  shows "safe_outcome (nfc_t4t_isodep_data_received cfg now s data len err)"
proof (cases data)
  case (Some d)
  have st: "iso_state s \<noteq> ISODEP_STATE_UNINITIALIZED" using ok by (simp add: received_ok_def)
  show ?thesis
  proof (cases "len = 0 \<or> err")
    case True
    then show ?thesis
      using Some inv error_handle_safe [OF inv st] by (auto simp: nfc_t4t_isodep_data_received_def)
  next
    case False
    let ?r = "if iso_ats_expected s then ats_parse now (s\<lparr>iso_ats_expected := False\<rparr>) d len
      else isodep_block_handle s d len"
    have len: "1 \<le> unat len" using False by (simp add: Suc_le_eq unat_gt_0)
    have "isodep_inv (s\<lparr>iso_ats_expected := False\<rparr>)" using inv by (simp add: isodep_inv_def)
    then have safe: "safe_outcome ?r"
      using inv ok False Some st len
      by (auto simp: received_ok_def intro!: ats_parse_safe block_handle_safe)
    then obtain s' evs r where r: "?r = Inr (s', evs, r)" "isodep_inv s'"
      by (auto simp: safe_outcome_def split: sum.splits prod.splits)
    show ?thesis
    proof (cases r)
      case None
      then show ?thesis using Some False r by (simp add: nfc_t4t_isodep_data_received_def)
    next
      case e: (Some e)
      have "iso_state s' \<noteq> ISODEP_STATE_UNINITIALIZED"
        using r(1) e st by (auto split: if_splits dest!: ats_parse_error block_handle_error)
      with r(2) obtain evs' where "err_notify s' e = Inr (isodep_transmission_clear s', evs')"
          "isodep_inv (isodep_transmission_clear s')"
        by (rule err_notify_safe)
      then show ?thesis using Some False r(1) e by (simp add: nfc_t4t_isodep_data_received_def)
    qed
  qed
qed (use inv in \<open>simp add: nfc_t4t_isodep_data_received_def\<close>)


lemma isodep_exec_safe:
  assumes "isodep_inv s" "call_ok s c"
  shows "safe_outcome (isodep_exec cfg s c)"
proof (cases c)
  case (Init tx n_tx rx n_rx cb)
  then show ?thesis
    using assms init_safe [of s cb tx n_tx rx n_rx] by (auto simp: isodep_exec_def call_ok_def buffer_of_def split: option.splits)
next
  case (Rats fsd did)
  then show ?thesis using assms by (simp add: isodep_exec_def call_ok_def rats_send_safe)
next
  case Deselect
  then show ?thesis using assms by (simp add: isodep_exec_def deselect_safe)
next
  case (Received now data len err)
  then show ?thesis using assms by (simp add: isodep_exec_def call_ok_def data_received_safe)
next
  case Timeout
  then show ?thesis using assms by (simp add: isodep_exec_def call_ok_def on_timeout_safe)
next
  case (Transmit now r data len)
  then show ?thesis using assms by (simp add: isodep_exec_def call_ok_def transmit_safe)
next
  case Delay_Expired
  have "iso_state s \<noteq> ISODEP_STATE_UNINITIALIZED" "tag_fsc (iso_tag s) \<noteq> 0"
    using assms Delay_Expired by (auto simp: call_ok_def isodep_inv_def)
  then show ?thesis
    using assms Delay_Expired chunk_send_safe [of s] by (simp add: isodep_exec_def isodep_delay_handler_def)
qed

inductive isodep_reach :: "isodep_config \<Rightarrow> nfc_t4t_isodep \<Rightarrow> bool" for cfg where
  zero: "isodep_reach cfg isodep_zero"
| call: "isodep_reach cfg s \<Longrightarrow> call_ok s c \<Longrightarrow> isodep_exec cfg s c = Inr (s', evs, r) \<Longrightarrow> isodep_reach cfg s'"

lemma isodep_reach_inv: "isodep_reach cfg s \<Longrightarrow> isodep_inv s"
proof (induction rule: isodep_reach.induct)
  case zero
  show ?case by (rule isodep_inv_zero)
next
  case (call s c s' evs r)
  then show ?case using isodep_exec_safe [of s c cfg] by simp
qed

end
