(* ===== verification/T4t_Isodep_Exchange.thy ===== *)
theory T4t_Isodep_Exchange
  imports T4t_Isodep
begin

text \<open>
  What the ISO-DEP module achieves over a sequence of calls: it never leaves its buffers, it cuts the
  data of the user into I-blocks and sends one for every acknowledgement, it puts the blocks of the
  answer together again, and it gives up after a bounded number of timeouts.
\<close>

section \<open>Runs\<close>

fun isodep_run :: "isodep_config \<Rightarrow> nfc_t4t_isodep \<Rightarrow> isodep_call list \<Rightarrow> (nfc_t4t_isodep \<times> isodep_ev list) res" where
  "isodep_run cfg s [] = Inr (s, [])"
| "isodep_run cfg s (c # cs) =
     bindE (isodep_exec cfg s c) (\<lambda>(s, evs, r).
     bindE (isodep_run cfg s cs) (\<lambda>(s, evs'). Inr (s, evs @ evs')))"

lemma isodep_run_append:
  "isodep_run cfg s (cs @ ds) =
   bindE (isodep_run cfg s cs) (\<lambda>(s, evs). bindE (isodep_run cfg s ds) (\<lambda>(s, evs'). Inr (s, evs @ evs')))"
proof (induction cs arbitrary: s)
  case Nil
  show ?case by (cases "isodep_run cfg s ds") auto
next
  case (Cons c cs)
  then show ?case by (cases "isodep_exec cfg s c") (auto simp: bindE_assoc bindE_def split: sum.split)
qed

text \<open>C27: every call that respects the interface, in every state that such calls can reach, runs without
  undefined behaviour and keeps the invariant: buffers, lengths, the block number, the retransmission
  counter and the frame size of the tag stay within their bounds. The calls respect the interface if buffers and data have
  the lengths given, initialisation comes first and blocks only follow an ATS, and if what the tag sends is well-formed
  in the places the module does not check (\<open>ats_ok\<close>, \<open>frame_ok\<close>): an ATS whose length byte is right has an FSCI below 9 for a
  frame size that the transmit buffer can hold, all interface bytes it announces and at most 15 historical
  bytes, and a request for a waiting time extension has its WTXM byte. \<open>isodep_unchecked_frames\<close> below shows that each of these
  conditions on the tag is needed.\<close>

theorem isodep_safe:
  assumes "isodep_reach cfg s" "call_ok s c"
  shows "\<exists>s' evs r. isodep_exec cfg s c = Inr (s', evs, r) \<and> isodep_inv s'"
  using isodep_exec_safe [OF isodep_reach_inv [OF assms(1)] assms(2), of cfg]
  by (auto simp: safe_outcome_def split: sum.splits)

definition demo_cfg :: isodep_config where
  "demo_cfg = \<lparr>RATS_RETRY = 0, ACK_RETRY = 2, NAK_RETRY = 2, WTX_RETRY = 2, DESELECT_RETRY = 0\<rparr>"

definition demo_cb :: nfc_t4t_isodep_cb where
  "demo_cb = \<lparr>cb_data_received = True, cb_selected = True, cb_deselected = True, cb_ready_to_send = True, cb_error = True\<rparr>"

section \<open>Sending a message in blocks\<close>

text \<open>The specification: the data in pieces of \<open>n\<close> bytes, and the I-blocks that carry them, with alternating
  block numbers and the chaining bit on all but the last.\<close>

fun chunks :: "nat \<Rightarrow> u8 list \<Rightarrow> u8 list list" where
  "chunks n xs = (if n = 0 \<or> length xs \<le> n then [xs] else take n xs # chunks n (drop n xs))"

declare chunks.simps [simp del]

fun i_frames :: "nfc_t4t_isodep_tag \<Rightarrow> u8 \<Rightarrow> u8 list list \<Rightarrow> u8 list list" where
  "i_frames tag bn [] = []"
| "i_frames tag bn [p] = [frame_hdr tag (0x02 OR bn) @ p]"
| "i_frames tag bn (p # q # ps) = (frame_hdr tag (0x12 OR bn) @ p) # i_frames tag (bn XOR 1) (q # ps)"

lemma chunks_nonempty [simp]: "chunks n xs \<noteq> []"
  by (subst chunks.simps) simp

lemma concat_chunks: "concat (chunks n xs) = xs"
  by (induction n xs rule: chunks.induct) (subst chunks.simps, simp)

lemma chunks_bounded: "0 < n \<Longrightarrow> c \<in> set (chunks n xs) \<Longrightarrow> length c \<le> n"
  by (induction n xs rule: chunks.induct) (subst (asm) (2) chunks.simps, auto split: if_splits)

text \<open>A positive acknowledgement of the block with number \<open>bn\<close>.\<close>

definition ack :: "u8 \<Rightarrow> isodep_call" where
  "ack bn = Received 0 (Some [0xA2 OR bn]) 1 False"

fun acks :: "nat \<Rightarrow> u8 \<Rightarrow> isodep_call list" where
  "acks 0 bn = []"
| "acks (Suc k) bn = ack bn # acks k (bn XOR 1)"

lemma ack_step:
  assumes "iso_chaining s" "\<not> iso_ats_expected s" "iso_block_num s \<le> 1"
  shows "isodep_exec cfg s (ack (iso_block_num s)) =
         bindE (isodep_chunk_send (block_num_toggle s)) (\<lambda>(s, evs). Inr (s, evs, None))"
proof -
  have "iso_block_num s = 0 \<or> iso_block_num s = 1" using assms(3) by (simp add: u8_le_1)
  then show ?thesis
    using assms(1,2)
    by (cases "isodep_chunk_send (block_num_toggle s)")
      (auto simp: ack_def isodep_exec_def nfc_t4t_isodep_data_received_def isodep_block_handle_def mem_byte_def
        isodep_r_frame_handle_def Let_def)
qed

definition chunk_rest :: "nfc_t4t_isodep \<Rightarrow> u8 list" where
  "chunk_rest s = drop (unat (iso_transmitted_len s)) (block (iso_transmit_data s) (unat (iso_transmit_len s)))"

lemma chunk_rest_facts:
  assumes "chunk_ready s"
  shows "length (chunk_rest s) = chunk_left s" "chunk_data s = take (chunk_room s) (chunk_rest s)"
    "chunk_rest (chunk_state s) = drop (chunk_room s) (chunk_rest s)" "0 < chunk_room s"
proof -
  have rd: "readable (iso_transmit_data s) (unat (iso_transmit_len s))" using assms by (simp add: chunk_ready_def)
  show "length (chunk_rest s) = chunk_left s" by (simp add: chunk_rest_def chunk_left_def length_block [OF rd])
  then show "chunk_rest (chunk_state s) = drop (chunk_room s) (chunk_rest s)"
    using chunk_transmitted(1) [OF assms] by (auto simp: chunk_rest_def chunk_left_def min_def add.commute length_block [OF rd])
  show "chunk_data s = take (chunk_room s) (chunk_rest s)" by (simp add: chunk_data_def chunk_rest_def)
  show "0 < chunk_room s"
    using assms hdr_len_bounds [of "iso_tag s"] by (auto simp: chunk_ready_def chunk_room_def word_le_nat_alt)
qed

lemma chunk_ready_next:
  assumes "chunk_ready s"
  shows "chunk_ready (block_num_toggle (chunk_state s))"
  using assms chunk_transmitted(2) [OF assms] chunk_state_tx(1) [OF assms]
  by (simp add: chunk_ready_def block_num_toggle_def word_le_nat_alt)


text \<open>Sending the next block and then one more for every acknowledgement.\<close>

definition run_from_chunk :: "isodep_config \<Rightarrow> nfc_t4t_isodep \<Rightarrow> isodep_call list \<Rightarrow> (nfc_t4t_isodep \<times> isodep_ev list) res" where
  "run_from_chunk cfg s cs = bindE (isodep_chunk_send s) (\<lambda>(s, evs).
     bindE (isodep_run cfg s cs) (\<lambda>(s, evs'). Inr (s, evs @ evs')))"

definition sent_all :: "nfc_t4t_isodep \<Rightarrow> nfc_t4t_isodep \<Rightarrow> bool" where
  "sent_all s s' \<longleftrightarrow> iso_state s' = iso_state s \<and> iso_tag s' = iso_tag s \<and> iso_cb s' = iso_cb s \<and> iso_rx s' = iso_rx s \<and>
     iso_ats_expected s' = iso_ats_expected s \<and> iso_transmit_len s' = iso_transmit_len s \<and>
     iso_block_num s' \<le> 1 \<and> length (buf_mem (iso_tx s')) = length (buf_mem (iso_tx s)) \<and>
     \<not> iso_chaining s' \<and> iso_transmitted_len s' = iso_transmit_len s \<and> iso_last_frame s' = ISODEP_FRAME_I"

lemma block_num_and_1: "bn \<le> 1 \<Longrightarrow> bn AND 1 = (bn :: u8)"
  by (auto simp: u8_le_1)

lemma run_from_chunk_acks:
  assumes "chunk_ready s" "iso_cb s = Some cb" "cb_ready_to_send cb" "\<not> iso_ats_expected s" "iso_block_num s \<le> 1"
    and "cs = chunks (chunk_room s) (chunk_rest s)"
  shows "\<exists>s'. run_from_chunk cfg s (acks (length cs - 1) (iso_block_num s)) =
      Inr (s', map (\<lambda>f. Ready_To_Send f (tag_fwt (iso_tag s) + FDT_BASE)) (i_frames (iso_tag s) (iso_block_num s) cs)) \<and>
    sent_all s s' \<and> iso_block_num s' = (if odd (length cs) then iso_block_num s else iso_block_num s XOR 1)"
  using assms
proof (induction "length cs" arbitrary: s cs rule: less_induct)
  case less
  note facts = chunk_rest_facts [OF less.prems(1)]
  note send = chunk_send_eq [OF less.prems(1,2)]
  have bn: "iso_block_num s AND 1 = iso_block_num s" using less.prems(5) by (rule block_num_and_1)
  show ?case
  proof (cases "chunk_room s < chunk_left s")
    case False
    then have cs: "cs = [chunk_rest s]" using less.prems(6) facts(1) by (simp add: chunks.simps)
    have "i_block s = frame_hdr (iso_tag s) (0x02 OR iso_block_num s) @ chunk_rest s"
      using False facts(1,2) bn by (simp add: i_block_def)
    moreover have "iso_transmitted_len (chunk_state s) = iso_transmit_len s"
      using chunk_transmitted(1) [OF less.prems(1)] False less.prems(1)
      by (simp add: word_unat_eq_iff chunk_left_def chunk_ready_def word_le_nat_alt min_def)
    ultimately show ?thesis
      using cs send less.prems False chunk_state_tx(1) [OF less.prems(1)]
      by (simp add: run_from_chunk_def sent_all_def)
  next
    case True
    let ?t = "block_num_toggle (chunk_state s)"
    let ?cs = "chunks (chunk_room s) (drop (chunk_room s) (chunk_rest s))"
    have cs: "cs = chunk_data s # ?cs"
      using True less.prems(6) facts by (subst (asm) chunks.simps) simp
    have t: "chunk_room ?t = chunk_room s" "chunk_rest ?t = drop (chunk_room s) (chunk_rest s)"
        "iso_cb ?t = Some cb" "\<not> iso_ats_expected ?t" "iso_block_num ?t = iso_block_num s XOR 1" "iso_tag ?t = iso_tag s"
      using facts(3) less.prems by (simp_all add: block_num_toggle_def chunk_room_def chunk_rest_def)
    obtain q qs where q: "?cs = q # qs" using chunks_nonempty [of "chunk_room s" "drop (chunk_room s) (chunk_rest s)"]
      by (cases ?cs) auto
    have "\<exists>s'. run_from_chunk cfg ?t (acks (length ?cs - 1) (iso_block_num ?t)) =
        Inr (s', map (\<lambda>f. Ready_To_Send f (tag_fwt (iso_tag ?t) + FDT_BASE)) (i_frames (iso_tag ?t) (iso_block_num ?t) ?cs)) \<and>
      sent_all ?t s' \<and> iso_block_num s' = (if odd (length ?cs) then iso_block_num ?t else iso_block_num ?t XOR 1)"
      by (rule less.hyps) (use cs t less.prems in \<open>simp_all add: chunk_ready_next\<close>)
    then obtain s' where IH: "run_from_chunk cfg ?t (acks (length qs) (iso_block_num s XOR 1)) =
        Inr (s', map (\<lambda>f. Ready_To_Send f (tag_fwt (iso_tag s) + FDT_BASE)) (i_frames (iso_tag s) (iso_block_num s XOR 1) (q # qs)))"
      and s': "sent_all ?t s'" "iso_block_num s' = (if odd (length (q # qs)) then iso_block_num s XOR 1 else iso_block_num s)"
      by (auto simp: q t)
    have ack: "isodep_exec cfg (chunk_state s) (ack (iso_block_num s)) =
        bindE (isodep_chunk_send ?t) (\<lambda>(s, evs). Inr (s, evs, None))"
      using ack_step [of "chunk_state s" cfg] True less.prems(4,5) by simp
    have ib: "i_block s = frame_hdr (iso_tag s) (0x12 OR iso_block_num s) @ chunk_data s"
      using True less.prems(5) by (auto simp: i_block_def u8_le_1)
    have "run_from_chunk cfg s (acks (length cs - 1) (iso_block_num s)) =
        bindE (run_from_chunk cfg ?t (acks (length qs) (iso_block_num s XOR 1)))
          (\<lambda>(s', evs'). Inr (s', Ready_To_Send (i_block s) (tag_fwt (iso_tag s) + FDT_BASE) # evs'))"
      using less.prems(3) cs q by (simp add: run_from_chunk_def send ack bindE_assoc) (simp add: bindE_def split: sum.split prod.split)
    moreover have "sent_all s s'"
      using s'(1) chunk_state_tx(1) [OF less.prems(1)] by (simp add: sent_all_def block_num_toggle_def)
    ultimately show ?thesis
      using IH s'(2) cs q ib by auto
  qed
qed


lemma isodep_run_exec_chunk:
  assumes "isodep_exec cfg s c = bindE (isodep_chunk_send t) (\<lambda>(s, evs). Inr (s, evs, None))"
  shows "isodep_run cfg s (c # cs) = run_from_chunk cfg t cs"
  using assms by (simp add: run_from_chunk_def bindE_assoc) (simp add: bindE_def split: sum.split prod.split)

text \<open>The state in which a message can be sent at once: a tag is selected and the guard time after the ATS is over.\<close>

definition ready_to_transmit :: "int \<Rightarrow> nfc_t4t_isodep \<Rightarrow> bool" where
  "ready_to_transmit now s \<longleftrightarrow> iso_state s = ISODEP_STATE_SELECTED \<and> \<not> iso_ats_expected s \<and>
     (iso_first_transfer s \<longrightarrow> uint (T4T_FWT_TO_MS (tag_fwt (iso_tag s))) \<le> now - iso_ats_time s)"

lemma transmit_run:
  assumes inv: "isodep_inv s" and rdy: "ready_to_transmit now s"
    and cb: "iso_cb s = Some cb" "cb_ready_to_send cb"
    and data: "data = Some m" "unat data_len \<le> length m" "0 < data_len"
    and cs: "cs = chunks (chunk_room s) (take (unat data_len) m)"
  shows "\<exists>s'. isodep_run cfg s (Transmit now r data data_len # acks (length cs - 1) (iso_block_num s)) =
      Inr (s', map (\<lambda>f. Ready_To_Send f (tag_fwt (iso_tag s) + FDT_BASE)) (i_frames (iso_tag s) (iso_block_num s) cs)) \<and>
    iso_state s' = ISODEP_STATE_TRANSFER \<and> sent_all ((isodep_transmission_clear s)\<lparr>iso_state := ISODEP_STATE_TRANSFER,
      iso_transmit_len := data_len\<rparr>) s' \<and>
    iso_block_num s' = (if odd (length cs) then iso_block_num s else iso_block_num s XOR 1)"
proof -
  define t where "t = (isodep_transmission_clear (s\<lparr>iso_state := ISODEP_STATE_TRANSFER\<rparr>))
     \<lparr>iso_transmit_data := data, iso_transmit_len := data_len\<rparr>"
  define u where "u = (if iso_first_transfer s then t\<lparr>iso_first_transfer := False, iso_ats_time := now\<rparr> else t)"
  have u: "iso_tag u = iso_tag s" "iso_cb u = iso_cb s" "iso_tx u = iso_tx s" "iso_transmit_data u = data"
      "iso_transmit_len u = data_len" "iso_transmitted_len u = 0" "iso_block_num u = iso_block_num s"
      "iso_ats_expected u = iso_ats_expected s" "iso_state u = ISODEP_STATE_TRANSFER" "iso_rx u = (iso_rx s)\<lparr>buf_len := 0\<rparr>"
    by (simp_all add: u_def t_def)
  have "isodep_exec cfg s (Transmit now r data data_len) = bindE (isodep_chunk_send u) (\<lambda>(s, evs). Inr (s, evs, None))"
    using rdy data
    by (simp add: isodep_exec_def nfc_t4t_isodep_transmit_def ready_to_transmit_def u_def t_def [symmetric] Let_def)
      (auto simp: t_def)
  note run = isodep_run_exec_chunk [OF this]
  have "chunk_ready u"
    using inv rdy data cb by (auto simp: chunk_ready_def isodep_inv_def u ready_to_transmit_def)
  moreover have "cs = chunks (chunk_room u) (chunk_rest u)"
    using cs data by (simp add: chunk_room_def chunk_rest_def u)
  moreover have "iso_block_num s \<le> 1" using inv by (simp add: isodep_inv_def)
  ultimately obtain s' where "run_from_chunk cfg u (acks (length cs - 1) (iso_block_num u)) =
      Inr (s', map (\<lambda>f. Ready_To_Send f (tag_fwt (iso_tag u) + FDT_BASE)) (i_frames (iso_tag u) (iso_block_num u) cs))"
    "sent_all u s'" "iso_block_num s' = (if odd (length cs) then iso_block_num u else iso_block_num u XOR 1)"
    using run_from_chunk_acks [of u cb cs cfg] cb rdy by (auto simp: u ready_to_transmit_def)
  then show ?thesis by (intro exI [of _ s']) (simp add: run [unfolded isodep_run.simps] u sent_all_def)
qed

text \<open>C28: sending a message. In a reachable state with a selected tag, transmitting the data and
  receiving an acknowledgement for every block but the last makes the module send exactly the I-blocks of
  the specification: the chunks of the data in order, with alternating block numbers and the chaining bit
  on all but the last; their payloads put together are the data and each frame fits the frame size of the tag.\<close>

theorem isodep_transmit_chained:
  assumes "isodep_reach cfg s" "ready_to_transmit now s" "iso_cb s = Some cb" "cb_ready_to_send cb"
    and "unat data_len \<le> length m" "0 < data_len"
  shows "let cs = chunks (unat (tag_fsc (iso_tag s)) - hdr_len (iso_tag s)) (take (unat data_len) m) in
    concat cs = take (unat data_len) m \<and>
    (\<forall>c \<in> set cs. hdr_len (iso_tag s) + length c \<le> unat (tag_fsc (iso_tag s))) \<and>
    (\<exists>s'. isodep_run cfg s (Transmit now r (Some m) data_len # acks (length cs - 1) (iso_block_num s)) =
       Inr (s', map (\<lambda>f. Ready_To_Send f (tag_fwt (iso_tag s) + FDT_BASE)) (i_frames (iso_tag s) (iso_block_num s) cs)) \<and>
     iso_state s' = ISODEP_STATE_TRANSFER \<and> \<not> iso_chaining s' \<and> iso_transmitted_len s' = data_len)"
proof -
  let ?cs = "chunks (chunk_room s) (take (unat data_len) m)"
  have inv: "isodep_inv s" using assms(1) by (rule isodep_reach_inv)
  then have fsc: "14 \<le> unat (tag_fsc (iso_tag s))"
    using assms(2) by (auto simp: isodep_inv_def ready_to_transmit_def word_le_nat_alt)
  have "length c \<le> chunk_room s" if "c \<in> set ?cs" for c
    using chunks_bounded [OF _ that] fsc hdr_len_bounds [of "iso_tag s"] by (simp add: chunk_room_def)
  then have "\<forall>c \<in> set ?cs. hdr_len (iso_tag s) + length c \<le> unat (tag_fsc (iso_tag s))"
    using fsc hdr_len_bounds [of "iso_tag s"] by (fastforce simp: chunk_room_def)
  with transmit_run [OF inv assms(2,3,4) refl assms(5,6) refl, of cfg r] concat_chunks show ?thesis
    by (auto simp: Let_def chunk_room_def [symmetric] sent_all_def)
qed


text \<open>A concrete session: initialisation, RATS, an ATS that announces 32-byte frames and all interface bytes.\<close>

definition after :: "isodep_config \<Rightarrow> nfc_t4t_isodep \<Rightarrow> isodep_call \<Rightarrow> nfc_t4t_isodep" where
  "after cfg s c = (case isodep_exec cfg s c of Inl _ \<Rightarrow> s | Inr (s', _) \<Rightarrow> s')"

definition demo_init :: nfc_t4t_isodep where
  "demo_init = after demo_cfg isodep_zero (Init (Some (replicate 32 0)) 32 (Some (replicate 32 0)) 32 (Some demo_cb))"

definition demo_rats :: nfc_t4t_isodep where
  "demo_rats = after demo_cfg demo_init (Rats 2 0)"

definition demo_sel :: nfc_t4t_isodep where
  "demo_sel = after demo_cfg demo_rats (Received 5 (Some [6, 0x72, 0x00, 0x81, 0x02, 0x80]) 6 False)"

lemma reach_after: "isodep_reach cfg s \<Longrightarrow> call_ok s c \<Longrightarrow> isodep_reach cfg (after cfg s c)"
  using isodep_exec_safe [OF isodep_reach_inv, of cfg s c cfg]
  by (auto simp: after_def safe_outcome_def split: sum.splits intro: isodep_reach.call)

lemma demo_sel_reach: "isodep_reach demo_cfg demo_sel"
proof -
  have "isodep_reach demo_cfg demo_init"
    unfolding demo_init_def by (rule reach_after [OF isodep_reach.zero]) (simp add: call_ok_def buffer_of_def)
  then have "isodep_reach demo_cfg demo_rats"
    unfolding demo_rats_def by (rule reach_after) (simp add: call_ok_def)
  then show ?thesis unfolding demo_sel_def by (rule reach_after) code_simp
qed

lemma demo_sel_facts:
  "ready_to_transmit 100 demo_sel" "iso_cb demo_sel = Some demo_cb" "cb_ready_to_send demo_cb"
  "tag_fsc (iso_tag demo_sel) = 30" "hdr_len (iso_tag demo_sel) = 1" "iso_block_num demo_sel = 0"
  "iso_tag demo_sel = \<lparr>tag_fwt = 1048576, tag_sfgt = 8960, tag_fsc = 30, tag_did = 0, tag_lp_divisor = 0, tag_pl_divisor = 0,
        tag_historical = 0x80 # replicate 14 0, tag_historical_len = 1, tag_did_supported = True, tag_nad_supported = False\<rparr>"
  "buf_size (iso_rx demo_sel) = 32"
  by code_simp+

theorem isodep_safe_witness:
  "(\<exists>s' evs r. isodep_exec demo_cfg demo_sel (Received 0 (Some [0xF2, 3]) 2 False) = Inr (s', evs, r) \<and> isodep_inv s') \<and>
   (\<exists>s' evs r. isodep_exec demo_cfg demo_sel (Received 0 (Some (0x12 # replicate 31 7)) 32 False) = Inr (s', evs, r) \<and> isodep_inv s')"
proof -
  have st: "iso_state demo_sel \<noteq> ISODEP_STATE_UNINITIALIZED" "\<not> iso_ats_expected demo_sel"
    using demo_sel_facts(1) by (auto simp: ready_to_transmit_def)
  have "call_ok demo_sel (Received 0 (Some [0xF2, 3]) 2 False)"
    using st by (simp add: call_ok_def received_ok_def frame_ok_def demo_sel_facts)
  moreover have "call_ok demo_sel (Received 0 (Some (0x12 # replicate 31 7)) 32 False)"
    using st by (simp add: call_ok_def received_ok_def frame_ok_def is_wtx_def demo_sel_facts)
  ultimately show ?thesis using isodep_safe [OF demo_sel_reach] by blast
qed

theorem isodep_transmit_chained_witness:
  "\<exists>s'. isodep_run demo_cfg demo_sel (Transmit 100 None (Some (replicate 40 7)) 40 # acks 1 0) =
       Inr (s', [Ready_To_Send (0x12 # replicate 29 7) 1320112, Ready_To_Send (0x03 # replicate 11 7) 1320112])"
proof -
  have cs: "chunks 29 (replicate 40 7) = [replicate 29 7, replicate 11 7]" by (simp add: chunks.simps)
  show ?thesis
    using isodep_transmit_chained [OF demo_sel_reach demo_sel_facts(1-3), of 40 "replicate 40 7" None]
    by (auto simp: demo_sel_facts cs Let_def frame_hdr_def hdr_len_def simp del: acks.simps)
qed


section \<open>Receiving a message in blocks\<close>

text \<open>The arrival of a frame, and what the module answers to the I-blocks with payloads \<open>ps\<close> whose first has the
  number \<open>bn\<close>: an acknowledgement for each but the last, and at the end the data for the user.\<close>

definition arrival :: "u8 list \<Rightarrow> isodep_call" where
  "arrival f = Received 0 (Some f) (of_nat (length f)) False"

fun rx_events :: "nfc_t4t_isodep_tag \<Rightarrow> u8 \<Rightarrow> u8 list \<Rightarrow> u8 list list \<Rightarrow> isodep_ev list" where
  "rx_events tag bn got [] = []"
| "rx_events tag bn got [p] = [Data_Received (got @ p)]"
| "rx_events tag bn got (p # q # ps) =
     Ready_To_Send (frame_hdr tag (0xA2 OR (bn XOR 1))) (tag_fwt tag + FDT_BASE) # rx_events tag (bn XOR 1) (got @ p) (q # ps)"

lemma i_frame_index_hdr:
  assumes "bn \<le> 1" "b = 0x02 OR bn \<or> b = 0x12 OR bn"
  shows "frame_hdr tag b @ p = hd (frame_hdr tag b) # tl (frame_hdr tag b) @ p"
    "i_frame_index (hd (frame_hdr tag b)) = hdr_len tag" "hd (frame_hdr tag b) AND 1 = bn"
    "hd (frame_hdr tag b) AND 0x02 \<noteq> 0" "hd (frame_hdr tag b) AND 0x40 = 0" "hd (frame_hdr tag b) AND 0x80 = 0"
    "hd (frame_hdr tag b) AND 0x10 = (if b = 0x12 OR bn then 0x10 else 0)"
  using assms by (auto simp: frame_hdr_def hdr_len_def i_frame_index_def u8_le_1)

lemma arrival_i_frame:
  assumes bn: "iso_block_num s \<le> 1" and b: "b = 0x02 OR iso_block_num s \<or> b = 0x12 OR iso_block_num s"
    and ats: "\<not> iso_ats_expected s"
    and fit: "unat (buf_len (iso_rx s)) + length p \<le> length (buf_mem (iso_rx s))"
      "length (buf_mem (iso_rx s)) = unat (buf_size (iso_rx s))"
    and len: "length p + 2 < 4294967296"
    and cb: "iso_cb s = Some cb" "cb_ready_to_send cb" "cb_data_received cb" "2 \<le> length (buf_mem (iso_tx s))"
  defines "t \<equiv> rx_append s (hd (frame_hdr (iso_tag s) b)) p"
  shows "isodep_exec cfg s (arrival (frame_hdr (iso_tag s) b @ p)) =
    (if b = 0x12 OR iso_block_num s then
       Inr (set_tx (t\<lparr>iso_last_frame := ISODEP_FRAME_I_CHAINING\<rparr>)
              (r_block t True @ drop (hdr_len (iso_tag s)) (buf_mem (iso_tx s))),
            [Ready_To_Send (r_block t True) (tag_fwt (iso_tag s) + FDT_BASE)], None)
     else Inr (t\<lparr>iso_state := ISODEP_STATE_SELECTED, iso_last_frame := ISODEP_FRAME_I\<rparr>,
            [Data_Received (take (unat (buf_len (iso_rx t))) (buf_mem (iso_rx t)))], None))"
proof -
  let ?f = "frame_hdr (iso_tag s) b @ p" let ?h = "hd (frame_hdr (iso_tag s) b)"
  note idx = i_frame_index_hdr [OF bn b]
  have l: "unat (of_nat (length ?f) :: u32) = i_frame_index ?h + length p" "of_nat (length ?f) \<noteq> (0 :: u32)"
    using len hdr_len_bounds [of "iso_tag s"] idx(2)
    by (auto simp: unat_of_nat_u32 of_nat_u32_eq_0 simp del: of_nat_add)
  have dr: "take (length p) (drop (i_frame_index ?h) ?f) = p" using idx(2) by simp
  have handle: "isodep_exec cfg s (arrival ?f) = bindE (isodep_i_frame_handle s ?f (of_nat (length ?f))) (\<lambda>(s, evs, r).
      case r of None \<Rightarrow> Inr (s, evs, None) | Some e \<Rightarrow> bindE (err_notify s e) (\<lambda>(s, evs'). Inr (s, evs @ evs', None)))"
  proof -
    define f where "f = ?f"
    have f: "mem_byte f 0 = Inr ?h" unfolding f_def by (subst idx(1)) (simp add: mem_byte_def)
    have "of_nat (length f) \<noteq> (0 :: u32)" unfolding f_def by (rule l(2))
    with ats idx(4-6) f show ?thesis unfolding f_def [symmetric]
      by (simp add: arrival_def isodep_exec_def nfc_t4t_isodep_data_received_def isodep_block_handle_def)
  qed
  have "r_block (t\<lparr>iso_last_frame := ISODEP_FRAME_I_CHAINING\<rparr>) True = r_block t True"
    by (simp add: r_block_def)
  then have "isodep_r_frame_send (t\<lparr>iso_last_frame := ISODEP_FRAME_I_CHAINING\<rparr>) True =
      Inr (set_tx (t\<lparr>iso_last_frame := ISODEP_FRAME_I_CHAINING\<rparr>)
              (r_block t True @ drop (hdr_len (iso_tag s)) (buf_mem (iso_tx s))),
            [Ready_To_Send (r_block t True) (tag_fwt (iso_tag s) + FDT_BASE)])"
    using r_frame_send_eq [of "t\<lparr>iso_last_frame := ISODEP_FRAME_I_CHAINING\<rparr>" cb True] cb by (simp add: t_def)
  then show ?thesis
    using handle i_frame_handle_eq [OF l(1) idx(1) dr fit] idx(7) cb
    by (cases "b = 0x12 OR iso_block_num s") (simp_all add: t_def Let_def del: length_append of_nat_add)
qed

lemma rx_got_append:
  assumes "unat (buf_len (iso_rx s)) + length p \<le> length (buf_mem (iso_rx s))"
    "length (buf_mem (iso_rx s)) = unat (buf_size (iso_rx s))"
  shows "unat (buf_len (iso_rx s) + of_nat (length p)) = unat (buf_len (iso_rx s)) + length p"
    "take (unat (buf_len (iso_rx s)) + length p) (buf_mem (iso_rx (rx_append s b p))) =
     take (unat (buf_len (iso_rx s))) (buf_mem (iso_rx s)) @ p"
proof -
  have "unat (buf_len (iso_rx s)) + length p < 4294967296"
    using assms unat_u32_lt [of "buf_size (iso_rx s)"] by linarith
  then show "unat (buf_len (iso_rx s) + of_nat (length p)) = unat (buf_len (iso_rx s)) + length p"
    by (subst unat_add_no_wrap_u32) (simp_all add: unat_of_nat_u32)
  show "take (unat (buf_len (iso_rx s)) + length p) (buf_mem (iso_rx (rx_append s b p))) =
     take (unat (buf_len (iso_rx s))) (buf_mem (iso_rx s)) @ p"
    using assms(1) by simp
qed

definition rx_got :: "nfc_t4t_isodep \<Rightarrow> u8 list" where
  "rx_got s = take (unat (buf_len (iso_rx s))) (buf_mem (iso_rx s))"

text \<open>What the reception of blocks relies on: the link is up and the callbacks are set.\<close>

definition link_up :: "nfc_t4t_isodep \<Rightarrow> bool" where
  "link_up s \<longleftrightarrow> \<not> iso_ats_expected s \<and> iso_block_num s \<le> 1 \<and> 2 \<le> length (buf_mem (iso_tx s)) \<and>
     length (buf_mem (iso_rx s)) = unat (buf_size (iso_rx s)) \<and>
     (\<exists>cb. iso_cb s = Some cb \<and> cb_ready_to_send cb \<and> cb_data_received cb)"

lemma receive_run:
  assumes "link_up s" "ps \<noteq> []"
    and "unat (buf_len (iso_rx s)) + length (concat ps) \<le> unat (buf_size (iso_rx s))"
    and "unat (buf_size (iso_rx s)) + 2 < 4294967296"
  shows "\<exists>s'. isodep_run cfg s (map arrival (i_frames (iso_tag s) (iso_block_num s) ps)) =
      Inr (s', rx_events (iso_tag s) (iso_block_num s) (rx_got s) ps) \<and> iso_state s' = ISODEP_STATE_SELECTED"
  using assms(2,1,3,4)
proof (induction ps arbitrary: s rule: list_nonempty_induct)
  case (single p)
  then obtain cb where cb: "iso_cb s = Some cb" "cb_ready_to_send cb" "cb_data_received cb"
    by (auto simp: link_up_def)
  have fit: "unat (buf_len (iso_rx s)) + length p \<le> length (buf_mem (iso_rx s))"
      "length (buf_mem (iso_rx s)) = unat (buf_size (iso_rx s))"
    using single.prems by (auto simp: link_up_def)
  have "(0x02 :: u8) OR iso_block_num s \<noteq> 0x12 OR iso_block_num s"
    using single.prems(1) by (auto simp: link_up_def u8_le_1)
  then show ?case
    using arrival_i_frame [of s "0x02 OR iso_block_num s" p cb cfg] single.prems fit cb
    by (simp add: link_up_def rx_got_def rx_got_append del: rx_append_simps(14))
next
  case (cons p ps)
  then obtain q qs where ps: "ps = q # qs" by (cases ps) auto
  obtain cb where cb: "iso_cb s = Some cb" "cb_ready_to_send cb" "cb_data_received cb"
    using cons.prems by (auto simp: link_up_def)
  have fit: "unat (buf_len (iso_rx s)) + length p \<le> length (buf_mem (iso_rx s))"
      "length (buf_mem (iso_rx s)) = unat (buf_size (iso_rx s))"
    using cons.prems by (auto simp: link_up_def)
  define h where "h = hd (frame_hdr (iso_tag s) (0x12 OR iso_block_num s))"
  define t where "t = rx_append s h p"
  define u where "u = set_tx (t\<lparr>iso_last_frame := ISODEP_FRAME_I_CHAINING\<rparr>)
      (r_block t True @ drop (hdr_len (iso_tag s)) (buf_mem (iso_tx s)))"
  have bn: "iso_block_num s \<le> 1" "h AND 1 = iso_block_num s"
    using cons.prems(1) i_frame_index_hdr(3) [of "iso_block_num s"] by (auto simp: link_up_def h_def)
  have rb: "r_block t True = frame_hdr (iso_tag s) (0xA2 OR (iso_block_num s XOR 1))"
    using bn by (simp add: r_block_def t_def block_num_and_1)
  have step: "isodep_exec cfg s (arrival (frame_hdr (iso_tag s) (0x12 OR iso_block_num s) @ p)) =
      Inr (u, [Ready_To_Send (r_block t True) (tag_fwt (iso_tag s) + FDT_BASE)], None)"
    using arrival_i_frame [of s "0x12 OR iso_block_num s" p cb cfg] cons.prems fit cb
    by (simp add: link_up_def u_def t_def h_def)
  have u: "iso_tag u = iso_tag s" "iso_block_num u = iso_block_num s XOR 1" "rx_got u = rx_got s @ p"
      "buf_size (iso_rx u) = buf_size (iso_rx s)" "unat (buf_len (iso_rx u)) = unat (buf_len (iso_rx s)) + length p" "link_up u"
    using bn cb cons.prems(1) rx_got_append(1) [OF fit] rx_got_append(2) [OF fit, of h] fit hdr_len_bounds [of "iso_tag s"]
    by (simp_all add: u_def t_def set_tx_def rx_got_def link_up_def r_block_def)
  have "\<exists>s'. isodep_run cfg u (map arrival (i_frames (iso_tag u) (iso_block_num u) ps)) =
      Inr (s', rx_events (iso_tag u) (iso_block_num u) (rx_got u) ps) \<and> iso_state s' = ISODEP_STATE_SELECTED"
    by (rule cons.IH) (use u cons.prems in simp_all)
  then show ?case using step u ps by (auto simp: rb)
qed


fun r_acks :: "nfc_t4t_isodep_tag \<Rightarrow> nat \<Rightarrow> u8 \<Rightarrow> isodep_ev list" where
  "r_acks tag 0 bn = []"
| "r_acks tag (Suc k) bn =
     Ready_To_Send (frame_hdr tag (0xA2 OR (bn XOR 1))) (tag_fwt tag + FDT_BASE) # r_acks tag k (bn XOR 1)"

lemma rx_events_eq:
  "ps \<noteq> [] \<Longrightarrow> rx_events tag bn got ps = r_acks tag (length ps - 1) bn @ [Data_Received (got @ concat ps)]"
  by (induction tag bn got ps rule: rx_events.induct) auto

text \<open>C29: a whole exchange. The user transmits a message; the tag acknowledges every block and answers with
  the I-blocks of its own message. The module sends the blocks of the user's data, acknowledges every block of
  the answer but the last, hands the answer over in one piece and is ready for the next message.\<close>

theorem isodep_exchange:
  assumes "isodep_reach cfg s" "ready_to_transmit now s"
    and "iso_cb s = Some cb" "cb_ready_to_send cb" "cb_data_received cb"
    and "unat data_len \<le> length m" "0 < data_len"
    and "ps \<noteq> []" "length (concat ps) \<le> unat (buf_size (iso_rx s))" "unat (buf_size (iso_rx s)) + 2 < 4294967296"
  shows "let tag = iso_tag s; bn = iso_block_num s;
             cs = chunks (unat (tag_fsc tag) - hdr_len tag) (take (unat data_len) m);
             bn' = (if odd (length cs) then bn else bn XOR 1) in
    \<exists>s'. isodep_run cfg s (Transmit now r (Some m) data_len # acks (length cs - 1) bn @ map arrival (i_frames tag bn' ps)) =
      Inr (s', map (\<lambda>f. Ready_To_Send f (tag_fwt tag + FDT_BASE)) (i_frames tag bn cs) @
               r_acks tag (length ps - 1) bn' @ [Data_Received (concat ps)]) \<and>
    iso_state s' = ISODEP_STATE_SELECTED"
proof -
  define cs where "cs = chunks (chunk_room s) (take (unat data_len) m)"
  define bn' where "bn' = (if odd (length cs) then iso_block_num s else iso_block_num s XOR 1)"
  have inv: "isodep_inv s" using assms(1) by (rule isodep_reach_inv)
  obtain t where t: "isodep_run cfg s (Transmit now r (Some m) data_len # acks (length cs - 1) (iso_block_num s)) =
      Inr (t, map (\<lambda>f. Ready_To_Send f (tag_fwt (iso_tag s) + FDT_BASE)) (i_frames (iso_tag s) (iso_block_num s) cs))"
    "sent_all ((isodep_transmission_clear s)\<lparr>iso_state := ISODEP_STATE_TRANSFER, iso_transmit_len := data_len\<rparr>) t"
    "iso_block_num t = bn'"
    using transmit_run [OF inv assms(2,3,4) refl assms(6,7) cs_def, of cfg r] by (auto simp: bn'_def)
  have rx: "iso_tag t = iso_tag s" "iso_rx t = (iso_rx s)\<lparr>buf_len := 0\<rparr>" "rx_got t = []"
    using t(2) by (auto simp: sent_all_def rx_got_def)
  have "link_up t"
    using t(2) inv assms(2-5) by (auto simp: link_up_def sent_all_def isodep_inv_def ready_to_transmit_def word_le_nat_alt)
  with receive_run [of t ps cfg] assms(8-10) rx t(3) obtain s' where
    "isodep_run cfg t (map arrival (i_frames (iso_tag s) bn' ps)) = Inr (s', rx_events (iso_tag s) bn' [] ps)"
    "iso_state s' = ISODEP_STATE_SELECTED" by auto
  moreover have "isodep_run cfg s (Transmit now r (Some m) data_len # acks (length cs - 1) (iso_block_num s) @
      map arrival (i_frames (iso_tag s) bn' ps)) =
    bindE (isodep_run cfg s (Transmit now r (Some m) data_len # acks (length cs - 1) (iso_block_num s))) (\<lambda>(s, evs).
    bindE (isodep_run cfg s (map arrival (i_frames (iso_tag s0) bn' ps))) (\<lambda>(s, evs'). Inr (s, evs @ evs')))"
    if "s0 = s" for s0
    using isodep_run_append [of cfg s "Transmit now r (Some m) data_len # acks (length cs - 1) (iso_block_num s)"] that by simp
  ultimately show ?thesis
    using t(1) rx_events_eq [OF assms(8)] by (simp add: Let_def cs_def bn'_def chunk_room_def del: isodep_run.simps)
qed

theorem isodep_exchange_witness:
  "\<exists>s'. isodep_run demo_cfg demo_sel (Transmit 100 None (Some [1, 2, 3]) 3 # [arrival [0x12, 9, 8], arrival [0x03, 7]]) =
       Inr (s', [Ready_To_Send [0x02, 1, 2, 3] 1320112, Ready_To_Send [0xA3] 1320112, Data_Received [9, 8, 7]]) \<and>
     iso_state s' = ISODEP_STATE_SELECTED"
proof -
  have cs: "chunks 29 [1, 2, 3] = [[1, 2, 3]]" by (simp add: chunks.simps)
  show ?thesis
    using isodep_exchange [OF demo_sel_reach demo_sel_facts(1-3), of 3 "[1, 2, 3]" "[[9, 8], [7]]" None]
    by (simp add: demo_sel_facts demo_cb_def cs Let_def frame_hdr_def hdr_len_def del: isodep_run.simps)
qed

section \<open>Giving up\<close>

definition retry_left :: "isodep_config \<Rightarrow> nfc_t4t_isodep \<Rightarrow> bool" where
  "retry_left cfg s \<longleftrightarrow> (let cnt = unat (iso_frame_retry_cnt s + 1) in
     case iso_last_frame s of
       ISODEP_FRAME_RATS \<Rightarrow> cnt \<le> RATS_RETRY cfg
     | ISODEP_FRAME_I \<Rightarrow> cnt \<le> NAK_RETRY cfg
     | ISODEP_FRAME_I_CHAINING \<Rightarrow> cnt \<le> ACK_RETRY cfg
     | ISODEP_FRAME_WTX_RESPONSE \<Rightarrow> cnt \<le> WTX_RETRY cfg
     | ISODEP_FRAME_DESELECT \<Rightarrow> cnt \<le> DESELECT_RETRY cfg
     | ISODEP_FRAME_NONE \<Rightarrow> False)"

definition is_frame :: "isodep_ev \<Rightarrow> bool" where
  "is_frame ev = (case ev of Ready_To_Send _ _ \<Rightarrow> True | _ \<Rightarrow> False)"

text \<open>The limits of the configuration options.\<close>

definition config_ok :: "isodep_config \<Rightarrow> bool" where
  "config_ok cfg \<longleftrightarrow> RATS_RETRY cfg \<le> 1 \<and> ACK_RETRY cfg \<le> 5 \<and> NAK_RETRY cfg \<le> 5 \<and> WTX_RETRY cfg \<le> 5 \<and> DESELECT_RETRY cfg \<le> 5"

lemma timeout_gives_up:
  assumes "iso_cb s = Some cb" "cb_error cb" "\<not> retry_left cfg s"
  shows "\<exists>s'. nfc_t4t_isodep_on_timeout cfg s = Inr (s', [Error ISODEP_TIMEOUT_ERROR], None) \<and>
     iso_state s' = ISODEP_STATE_INITIALIZED"
  using assms
  by (cases "iso_last_frame s")
    (auto simp: nfc_t4t_isodep_on_timeout_def isodep_error_handle_def retry_left_def err_notify_def Let_def)

lemma timeout_retries:
  assumes inv: "isodep_inv s" and st: "iso_state s \<noteq> ISODEP_STATE_UNINITIALIZED" and left: "retry_left cfg s"
  shows "\<exists>s' evs. nfc_t4t_isodep_on_timeout cfg s = Inr (s', evs, None) \<and> list_all is_frame evs \<and> isodep_inv s' \<and>
     iso_state s' = iso_state s \<and> iso_cb s' = iso_cb s \<and> iso_frame_retry_cnt s' = iso_frame_retry_cnt s + 1 \<and>
     iso_last_frame s' = iso_last_frame s"
proof -
  let ?s = "s\<lparr>iso_frame_retry_cnt := iso_frame_retry_cnt s + 1\<rparr>"
  from inv st obtain cb where cb: "iso_cb s = Some cb" "16 \<le> length (buf_mem (iso_tx s))" by (rule isodep_inv_ready)
  have s: "isodep_inv ?s" using inv by (simp add: isodep_inv_def)
  have r: "isodep_inv (set_tx ?s (r_block ?s a @ drop (hdr_len (iso_tag s)) (buf_mem (iso_tx s))))" for a
    using s st cb(2) hdr_len_bounds [of "iso_tag s"] by (simp add: isodep_inv_def set_tx_def r_block_def)
  show ?thesis
    using left cb s r r_frame_send_eq [of ?s cb]
    by (cases "iso_last_frame s")
      (simp_all add: nfc_t4t_isodep_on_timeout_def isodep_error_handle_def retry_left_def Let_def send_tx_def is_frame_def set_tx_def)
qed

lemma retry_left_bound:
  "config_ok cfg \<Longrightarrow> retry_left cfg s \<Longrightarrow> unat (iso_frame_retry_cnt s + 1) \<le> 5"
  by (cases "iso_last_frame s") (auto simp: config_ok_def retry_left_def Let_def)

lemma timeouts_give_up:
  assumes "config_ok cfg" "isodep_inv s" "iso_state s \<noteq> ISODEP_STATE_UNINITIALIZED"
    and "iso_cb s = Some cb" "cb_error cb"
  shows "\<exists>k s' evs. k \<le> 6 - unat (iso_frame_retry_cnt s + 1) + 1 \<and> isodep_run cfg s (replicate k Timeout) =
      Inr (s', evs @ [Error ISODEP_TIMEOUT_ERROR]) \<and> list_all is_frame evs \<and> iso_state s' = ISODEP_STATE_INITIALIZED"
  using assms(2-)
proof (induction "6 - unat (iso_frame_retry_cnt s + 1)" arbitrary: s rule: less_induct)
  case less
  show ?case
  proof (cases "retry_left cfg s")
    case False
    from timeout_gives_up [OF less.prems(3,4) False] show ?thesis
      by (intro exI [of _ 1]) (auto simp: isodep_exec_def)
  next
    case True
    from timeout_retries [OF less.prems(1,2) True] obtain t evs where
      t: "nfc_t4t_isodep_on_timeout cfg s = Inr (t, evs, None)" "list_all is_frame evs" "isodep_inv t"
        "iso_state t = iso_state s" "iso_cb t = iso_cb s" "iso_frame_retry_cnt t = iso_frame_retry_cnt s + 1"
      by blast
    have le: "unat (iso_frame_retry_cnt s + 1) \<le> 5" using assms(1) True by (rule retry_left_bound)
    have cnt: "unat (iso_frame_retry_cnt t + 1) = unat (iso_frame_retry_cnt s + 1) + 1"
      unfolding t(6) by (subst unat_word_ariths) (use le in simp)
    have "6 - unat (iso_frame_retry_cnt t + 1) < 6 - unat (iso_frame_retry_cnt s + 1)" using le cnt by linarith
    from less.hyps [OF this t(3)] t(4,5) less.prems obtain k s' evs' where
      k: "k \<le> 6 - unat (iso_frame_retry_cnt t + 1) + 1"
        "isodep_run cfg t (replicate k Timeout) = Inr (s', evs' @ [Error ISODEP_TIMEOUT_ERROR])"
        "list_all is_frame evs'" "iso_state s' = ISODEP_STATE_INITIALIZED" by auto
    show ?thesis
      using k t le cnt by (intro exI [of _ "Suc k"] exI [of _ s'] exI [of _ "evs @ evs'"]) (auto simp: isodep_exec_def)
  qed
qed

text \<open>C30: the module does not retry forever. Whatever it waits for, after at most seven timeouts in a row it has
  reported a timeout error and is back in the initialised state, having sent nothing but frames before.\<close>

theorem isodep_gives_up:
  assumes "config_ok cfg" "isodep_reach cfg s" "iso_state s \<noteq> ISODEP_STATE_UNINITIALIZED"
    and "iso_cb s = Some cb" "cb_error cb"
  shows "\<exists>k s' evs. k \<le> 7 \<and> isodep_run cfg s (replicate k Timeout) = Inr (s', evs @ [Error ISODEP_TIMEOUT_ERROR]) \<and>
     list_all is_frame evs \<and> iso_state s' = ISODEP_STATE_INITIALIZED"
proof -
  obtain k s' evs where "k \<le> 6 - unat (iso_frame_retry_cnt s + 1) + 1"
    "isodep_run cfg s (replicate k Timeout) = Inr (s', evs @ [Error ISODEP_TIMEOUT_ERROR])"
    "list_all is_frame evs" "iso_state s' = ISODEP_STATE_INITIALIZED"
    using timeouts_give_up [OF assms(1) isodep_reach_inv [OF assms(2)] assms(3-5)] by blast
  moreover from this have "k \<le> 7" by linarith
  ultimately show ?thesis by blast
qed

theorem isodep_gives_up_witness:
  "\<exists>k s' evs. k \<le> 7 \<and> isodep_run demo_cfg demo_sel (replicate k Timeout) = Inr (s', evs @ [Error ISODEP_TIMEOUT_ERROR]) \<and>
     list_all is_frame evs \<and> iso_state s' = ISODEP_STATE_INITIALIZED"
  by (rule isodep_gives_up [OF _ demo_sel_reach _ demo_sel_facts(2)])
    (use demo_sel_facts(1) in \<open>simp_all add: config_ok_def demo_cfg_def demo_cb_def ready_to_transmit_def\<close>)

section \<open>Where the module stays busy, and what it does not check\<close>

definition refuses :: "isodep_config \<Rightarrow> nfc_t4t_isodep \<Rightarrow> ptr \<Rightarrow> u32 \<Rightarrow> bool" where
  "refuses cfg s data len \<longleftrightarrow>
     (\<forall>fsd did. isodep_exec cfg s (Rats fsd did) = Inr (s, [], Some EACCES)) \<and>
     isodep_exec cfg s Deselect = Inr (s, [], Some EACCES) \<and>
     (\<forall>now r. isodep_exec cfg s (Transmit now r data len) = Inr (s, [], Some EACCES))"

lemma busy_refuses:
  "iso_state s = ISODEP_STATE_TRANSFER \<Longrightarrow> data \<noteq> None \<Longrightarrow> 0 < len \<Longrightarrow> refuses cfg s data len"
  by (auto simp: refuses_def isodep_exec_def nfc_t4t_isodep_rats_send_def nfc_t4t_isodep_tag_deselect_def nfc_t4t_isodep_transmit_def)

text \<open>A call of \<open>nfc_t4t_isodep_rats_send\<close> that is rejected because of its DID, and a received block with a
  protocol error, leave the module in the TRANSFER state (the error is returned or reported, nothing is sent):
  from there RATS, DESELECT and data are refused with \<open>-EACCES\<close>.\<close>

lemma isodep_error_stays_busy:
  assumes "isodep_inv s" "iso_cb s = Some cb" "cb_error cb" "data \<noteq> None" "0 < len" "0 < n"
  shows "(did > 14 \<and> (iso_state s = ISODEP_STATE_INITIALIZED \<or> iso_state s = ISODEP_STATE_SELECTED) \<longrightarrow>
      (\<exists>t. isodep_exec cfg s (Rats fsd did) = Inr (t, [], Some EINVAL) \<and> refuses cfg t data len)) \<and>
    (iso_state s = ISODEP_STATE_TRANSFER \<and> \<not> iso_ats_expected s \<and> isodep_block_handle s d n = Inr (s', evs, Some e) \<longrightarrow>
      (\<exists>t. isodep_exec cfg s (Received now (Some d) n False) = Inr (t, [Error e], None) \<and> refuses cfg t data len))"
proof (intro conjI impI)
  let ?t = "s\<lparr>iso_state := ISODEP_STATE_TRANSFER\<rparr>"
  assume "did > 14 \<and> (iso_state s = ISODEP_STATE_INITIALIZED \<or> iso_state s = ISODEP_STATE_SELECTED)"
  then have "isodep_exec cfg s (Rats fsd did) = Inr (?t, [], Some EINVAL)"
    by (auto simp: isodep_exec_def nfc_t4t_isodep_rats_send_def Let_def)
  then show "\<exists>t. isodep_exec cfg s (Rats fsd did) = Inr (t, [], Some EINVAL) \<and> refuses cfg t data len"
    using busy_refuses [of ?t data len] assms(4,5) by auto
next
  let ?t = "isodep_transmission_clear s"
  assume a: "iso_state s = ISODEP_STATE_TRANSFER \<and> \<not> iso_ats_expected s \<and> isodep_block_handle s d n = Inr (s', evs, Some e)"
  then have "isodep_exec cfg s (Received now (Some d) n False) = Inr (?t, [Error e], None)"
    using assms(2,3,6) block_handle_error [of s d n s' evs e]
    by (auto simp: isodep_exec_def nfc_t4t_isodep_data_received_def err_notify_def Let_def)
  then show "\<exists>t. isodep_exec cfg s (Received now (Some d) n False) = Inr (t, [Error e], None) \<and> refuses cfg t data len"
    using busy_refuses [of ?t data len] assms(4,5) a by auto
qed

lemma isodep_error_stays_busy_witness:
  "(\<exists>t. isodep_exec demo_cfg demo_sel (Rats 2 15) = Inr (t, [], Some EINVAL) \<and> refuses demo_cfg t (Some [1]) 1) \<and>
   (\<exists>t. isodep_exec demo_cfg (demo_sel\<lparr>iso_state := ISODEP_STATE_TRANSFER\<rparr>) (Received 0 (Some [0xA2]) 1 False) =
          Inr (t, [Error ISODEP_SEMANTIC_ERROR], None) \<and> refuses demo_cfg t (Some [1]) 1)"
proof -
  let ?s = "demo_sel\<lparr>iso_state := ISODEP_STATE_TRANSFER\<rparr>"
  have inv: "isodep_inv demo_sel" by (rule isodep_reach_inv [OF demo_sel_reach])
  have st: "iso_state demo_sel = ISODEP_STATE_SELECTED" "\<not> iso_ats_expected demo_sel"
    using demo_sel_facts(1) by (auto simp: ready_to_transmit_def)
  have "iso_chaining demo_sel = False" by code_simp
  then have "isodep_block_handle ?s [0xA2] 1 = Inr (?s, [], Some ISODEP_SEMANTIC_ERROR)"
    by (simp add: isodep_block_handle_def isodep_r_frame_handle_def mem_byte_def)
  moreover have "isodep_inv ?s" using inv st by (simp add: isodep_inv_def)
  ultimately show ?thesis
    using isodep_error_stays_busy [OF inv demo_sel_facts(2), of "Some [1]" 1 1 15 demo_cfg 2]
      isodep_error_stays_busy [of ?s demo_cb "Some [1]" 1 1 15 demo_cfg 2 "[0xA2]" ?s "[]" ISODEP_SEMANTIC_ERROR 0]
      st demo_sel_facts(2)
    by (simp add: demo_cb_def)
qed

text \<open>Frames the module does not check. After a RATS, an ATS whose FSCI is above 8 indexes past the
  frame size table, an ATS with 18 historical bytes overruns the tag description, and an ATS that announces an
  interface byte it does not have is read past its end; a request for a waiting time extension without its
  WTXM byte is read past its end; a tag that announces larger frames than the transmit buffer overruns it.\<close>

lemma isodep_unchecked_frames:
  "isodep_exec demo_cfg demo_rats (Received 5 (Some [2, 0x09]) 2 False) = Inl UB \<and>
   isodep_exec demo_cfg demo_rats (Received 5 (Some ([20, 0x02] @ replicate 18 0)) 20 False) = Inl UB \<and>
   isodep_exec demo_cfg demo_rats (Received 5 (Some [2, 0x12]) 2 False) = Inl UB \<and>
   isodep_exec demo_cfg demo_sel (Received 5 (Some [0xF2]) 1 False) = Inl UB \<and>
   isodep_exec demo_cfg (after demo_cfg demo_rats (Received 5 (Some [2, 0x08]) 2 False))
     (Transmit 500 None (Some (replicate 40 0)) 40) = Inl UB"
  by (intro conjI; code_simp)

end
