(* ===== verification/T4t_Hl.thy ===== *)
theory T4t_Hl
  imports T4t_Cc T4t_Apdu T4t_Isodep_Exchange
begin

text \<open>
  The high level procedures of a Type 4 Tag reader (\<open>subsys/nfc/t4t/hl_procedure.c\<close>): selecting the NDEF
  application and files, reading the Capability Container, reading and updating an NDEF file. Every
  procedure sends command APDUs over ISO-DEP (theory \<open>T4t_Isodep\<close>) and continues when the response arrives.

  The module's static structure is the record \<open>t4t_hl_procedure\<close>; the state of the ISO-DEP module is passed
  beside it. Pointers to CC descriptors of the user are addresses into the store \<open>hl_ccs\<close>, because the
  read procedures write through them. The module hands the address of its APDU buffer to
  \<open>nfc_t4t_isodep_transmit\<close>, so encoding a command also changes the bytes that ISO-DEP still has to send
  (\<open>hl_alias\<close>). The time and the delayed work are parameters as in \<open>T4t_Isodep\<close>.
\<close>

section \<open>State\<close>

datatype nfc_t4t_hl_transaction_type =
    NFC_T4T_HL_SELECT | NFC_T4T_HL_CC_READ | NFC_T4T_HL_NDEF_NLEN_READ | NFC_T4T_HL_NDEF_READ
  | NFC_T4T_HL_NDEF_NLEN_CLEAR | NFC_T4T_HL_NDEF_UPDATE | NFC_T4T_HL_NDEF_NLEN_UPDATE

datatype nfc_t4t_hl_procedure_select =
    NFC_T4T_HL_PROCEDURE_NDEF_APP_SELECT | NFC_T4T_HL_PROCEDURE_CC_SELECT | NFC_T4T_HL_PROCEDURE_NDEF_FILE_SELECT

record t4t_hl_ndef =
  ndef_cc :: "nat option"
  ndef_buff :: ptr
  ndef_buff_size :: u16
  ndef_nlen :: u16
  ndef_file_id :: "u8 list"

record t4t_hl_cc =
  hlcc_cc :: "nat option"
  hlcc_len :: u16
  hlcc_data :: "u8 list"

record nfc_t4t_hl_procedure_cb =
  hlcb_selected :: bool
  hlcb_cc_read :: bool
  hlcb_ndef_read :: bool
  hlcb_ndef_updated :: bool

record t4t_hl_procedure =
  hl_cc_file :: t4t_hl_cc
  hl_ndef :: t4t_hl_ndef
  hl_transaction_type :: nfc_t4t_hl_transaction_type
  hl_select_type :: nfc_t4t_hl_procedure_select
  hl_file_offset :: u16
  hl_apdu_buff :: "u8 list"
  hl_cb :: "nfc_t4t_hl_procedure_cb option"
  hl_ccs :: "nat \<Rightarrow> nfc_t4t_cc_file"

datatype hl_ev =
    Hl_Selected nfc_t4t_hl_procedure_select
  | Hl_Cc_Read nat nfc_t4t_cc_file
  | Hl_Ndef_Read u16 "u8 list"
  | Hl_Ndef_Updated u16
  | Link isodep_ev

type_synonym hl_env = "int \<times> (u32 \<Rightarrow> err option)"
type_synonym hl_outcome = "(t4t_hl_procedure \<times> nfc_t4t_isodep \<times> hl_ev list \<times> err option) res"

section \<open>Exchanging APDUs\<close>

definition hl_alias :: "u8 list \<Rightarrow> nfc_t4t_isodep \<Rightarrow> nfc_t4t_isodep" where
  "hl_alias mem lk = lk\<lparr>iso_transmit_data := map_option (\<lambda>_. mem) (iso_transmit_data lk)\<rparr>"

definition t4t_hl_data_exchange :: "hl_env \<Rightarrow> t4t_hl_procedure \<Rightarrow> nfc_t4t_isodep \<Rightarrow> nfc_t4t_apdu_comm \<Rightarrow> hl_outcome" where
  "t4t_hl_data_exchange env hl lk comm =
     (case nfc_t4t_apdu_comm_encode (Some comm) (Some (hl_apdu_buff hl)) (Some (of_nat (length (hl_apdu_buff hl)))) of
        Inl e \<Rightarrow> if e = UB then Inl UB else Inr (hl, lk, [], Some e)
      | Inr (mem, n) \<Rightarrow>
          bindE (nfc_t4t_isodep_transmit (fst env) (snd env) (hl_alias mem lk) (Some mem) (ucast n)) (\<lambda>(lk, evs, r).
          Inr (hl\<lparr>hl_apdu_buff := mem\<rparr>, lk, map Link evs, r)))"

text \<open>The callbacks of the user go through the registered structure.\<close>

definition hl_notify :: "t4t_hl_procedure \<Rightarrow> (nfc_t4t_hl_procedure_cb \<Rightarrow> bool) \<Rightarrow> hl_ev \<Rightarrow> hl_ev list res" where
  "hl_notify hl f ev = (case hl_cb hl of None \<Rightarrow> Inl UB | Some cb \<Rightarrow> Inr (if f cb then [ev] else []))"

section \<open>Handling responses\<close>

text \<open>When the parser of the CC file fails, the descriptor of the user is left as it was (the code may have
  stored some of its fields).\<close>

definition on_cc_read :: "hl_env \<Rightarrow> t4t_hl_procedure \<Rightarrow> nfc_t4t_isodep \<Rightarrow> nfc_t4t_apdu_resp \<Rightarrow> hl_outcome" where
  "on_cc_read env hl lk resp =
     (let data = apdu_buff (resp_data resp); len = apdu_len (resp_data resp) in
      bindE (if len \<noteq> 0 \<and> hlcc_len (hl_cc_file hl) = 0
             then case data of None \<Rightarrow> Inl UB
               | Some d \<Rightarrow> bindE (get_be16 d) (\<lambda>v. Inr (hl\<lparr>hl_cc_file := (hl_cc_file hl)\<lparr>hlcc_len := v\<rparr>\<rparr>))
             else Inr hl) (\<lambda>hl.
      if unat (hl_file_offset hl) + unat len > length (hlcc_data (hl_cc_file hl)) then Inr (hl, lk, [], Some ENOMEM)
      else
        bindE (mem_read data (unat len)) (\<lambda>d.
        bindE (mem_write (hlcc_data (hl_cc_file hl)) (unat (hl_file_offset hl)) d) (\<lambda>mem.
        let hl = hl\<lparr>hl_cc_file := (hl_cc_file hl)\<lparr>hlcc_data := mem\<rparr>, hl_file_offset := hl_file_offset hl + len\<rparr> in
        if hl_file_offset hl < hlcc_len (hl_cc_file hl) then
          t4t_hl_data_exchange env hl lk (nfc_t4t_apdu_comm_clear\<lparr>instruction := NFC_T4T_APDU_COMM_INS_READ,
             parameter := hl_file_offset hl,
             resp_len := min 0x0F (hlcc_len (hl_cc_file hl) - hl_file_offset hl)\<rparr>)
        else case hl_cb hl of None \<Rightarrow> Inl UB
          | Some cb \<Rightarrow>
              if hlcb_cc_read cb then
                case hlcc_cc (hl_cc_file hl) of None \<Rightarrow> Inl UB
                | Some a \<Rightarrow>
                    (case nfc_t4t_cc_file_parse (Some (hl_ccs hl a)) (Some (hlcc_data (hl_cc_file hl))) (hlcc_len (hl_cc_file hl)) of
                       Inl e \<Rightarrow> if e = UB then Inl UB else Inr (hl, lk, [], Some e)
                     | Inr cc \<Rightarrow> Inr (hl\<lparr>hl_ccs := (hl_ccs hl)(a := cc)\<rparr>, lk, [Hl_Cc_Read a cc], None))
              else Inr (hl, lk, [], None)))))"

definition on_ndef_nlen_read :: "t4t_hl_procedure \<Rightarrow> nfc_t4t_apdu_resp \<Rightarrow> t4t_hl_procedure res" where
  "on_ndef_nlen_read hl resp =
     (if apdu_len (resp_data resp) \<noteq> 2 then Inl EINVAL
      else case apdu_buff (resp_data resp) of None \<Rightarrow> Inl UB
        | Some d \<Rightarrow> bindE (get_be16 d) (\<lambda>v. Inr (hl\<lparr>hl_ndef := (hl_ndef hl)\<lparr>ndef_nlen := v\<rparr>\<rparr>)))"

definition t4t_file_assign :: "t4t_hl_procedure \<Rightarrow> u16 \<Rightarrow> t4t_hl_procedure res" where
  "t4t_file_assign hl fid = (case ndef_cc (hl_ndef hl) of None \<Rightarrow> Inl UB
     | Some a \<Rightarrow>
         bindE (nfc_t4t_cc_file_content_set (hl_ccs hl a)
                  \<lparr>file_content = ndef_buff (hl_ndef hl), file_len = hl_file_offset hl\<rparr> fid) (\<lambda>cc.
         Inr (hl\<lparr>hl_ccs := (hl_ccs hl)(a := cc)\<rparr>)))"

definition ndef_file_chunk_read :: "hl_env \<Rightarrow> t4t_hl_procedure \<Rightarrow> nfc_t4t_isodep \<Rightarrow> nfc_t4t_apdu_resp \<Rightarrow> hl_outcome" where
  "ndef_file_chunk_read env hl lk resp =
     (let data = apdu_buff (resp_data resp); len = apdu_len (resp_data resp) in
      if unat (ndef_buff_size (hl_ndef hl)) < unat (hl_file_offset hl) + unat len then Inr (hl, lk, [], Some ENOMEM)
      else
        bindE (mem_read data (unat len)) (\<lambda>d.
        case ndef_buff (hl_ndef hl) of None \<Rightarrow> Inl UB | Some buff \<Rightarrow>
        bindE (mem_write buff (unat (hl_file_offset hl)) d) (\<lambda>buff.
        let hl = hl\<lparr>hl_ndef := (hl_ndef hl)\<lparr>ndef_buff := Some buff\<rparr>, hl_file_offset := hl_file_offset hl + len\<rparr> in
        if unat (hl_file_offset hl) < unat (ndef_nlen (hl_ndef hl)) + 2 then
          (case ndef_cc (hl_ndef hl) of None \<Rightarrow> Inl UB
           | Some a \<Rightarrow>
               t4t_hl_data_exchange env (hl\<lparr>hl_transaction_type := NFC_T4T_HL_NDEF_READ\<rparr>) lk
                 (nfc_t4t_apdu_comm_clear\<lparr>instruction := NFC_T4T_APDU_COMM_INS_READ, parameter := hl_file_offset hl,
                    resp_len := of_nat (min (unat (ndef_nlen (hl_ndef hl)) + 2 - unat (hl_file_offset hl))
                                            (min 0xFF (unat (cc_max_rapdu_size (hl_ccs hl a)))))\<rparr>))
        else
          bindE (get_be16 (ndef_file_id (hl_ndef hl))) (\<lambda>fid.
          case t4t_file_assign hl fid of
            Inl e \<Rightarrow> if e = UB then Inl UB else Inr (hl, lk, [], Some e)
          | Inr hl \<Rightarrow>
              bindE (hl_notify hl hlcb_ndef_read (Hl_Ndef_Read fid (take (unat (ndef_nlen (hl_ndef hl)) + 2) buff))) (\<lambda>evs.
              Inr (hl, lk, evs, None))))))"

definition ndef_file_chunk_update :: "hl_env \<Rightarrow> t4t_hl_procedure \<Rightarrow> nfc_t4t_isodep \<Rightarrow> hl_outcome" where
  "ndef_file_chunk_update env hl lk =
     (if hl_file_offset hl < ndef_buff_size (hl_ndef hl) then
        case ndef_cc (hl_ndef hl) of None \<Rightarrow> Inl UB
        | Some a \<Rightarrow>
            let n = min (ndef_buff_size (hl_ndef hl) - hl_file_offset hl) (min 0xFF (cc_max_capdu_size (hl_ccs hl a))) in
            t4t_hl_data_exchange env
              (hl\<lparr>hl_file_offset := hl_file_offset hl + n, hl_transaction_type := NFC_T4T_HL_NDEF_UPDATE\<rparr>) lk
              (nfc_t4t_apdu_comm_clear\<lparr>instruction := NFC_T4T_APDU_COMM_INS_UPDATE, parameter := hl_file_offset hl,
                 comm_data := \<lparr>apdu_len = n,
                   apdu_buff = map_option (drop (unat (hl_file_offset hl))) (ndef_buff (hl_ndef hl))\<rparr>\<rparr>)
      else
        t4t_hl_data_exchange env (hl\<lparr>hl_transaction_type := NFC_T4T_HL_NDEF_NLEN_UPDATE\<rparr>) lk
          (nfc_t4t_apdu_comm_clear\<lparr>instruction := NFC_T4T_APDU_COMM_INS_UPDATE, parameter := 0,
             comm_data := \<lparr>apdu_len = 2, apdu_buff = Some (put_be16 (ndef_nlen (hl_ndef hl)))\<rparr>\<rparr>))"

definition on_ndef_nlen_update :: "t4t_hl_procedure \<Rightarrow> hl_ev list res" where
  "on_ndef_nlen_update hl =
     bindE (get_be16 (ndef_file_id (hl_ndef hl))) (\<lambda>fid. hl_notify hl hlcb_ndef_updated (Hl_Ndef_Updated fid))"

definition on_rapdu_succes :: "hl_env \<Rightarrow> t4t_hl_procedure \<Rightarrow> nfc_t4t_isodep \<Rightarrow> nfc_t4t_apdu_resp \<Rightarrow> hl_outcome" where
  "on_rapdu_succes env hl lk resp = (case hl_transaction_type hl of
     NFC_T4T_HL_SELECT \<Rightarrow>
       bindE (hl_notify hl hlcb_selected (Hl_Selected (hl_select_type hl))) (\<lambda>evs. Inr (hl, lk, evs, None))
   | NFC_T4T_HL_CC_READ \<Rightarrow> on_cc_read env hl lk resp
   | NFC_T4T_HL_NDEF_NLEN_READ \<Rightarrow>
       (case on_ndef_nlen_read hl resp of
          Inl e \<Rightarrow> if e = UB then Inl UB else Inr (hl, lk, [], Some e)
        | Inr hl \<Rightarrow> ndef_file_chunk_read env hl lk resp)
   | NFC_T4T_HL_NDEF_READ \<Rightarrow> ndef_file_chunk_read env hl lk resp
   | NFC_T4T_HL_NDEF_NLEN_CLEAR \<Rightarrow> ndef_file_chunk_update env hl lk
   | NFC_T4T_HL_NDEF_UPDATE \<Rightarrow> ndef_file_chunk_update env hl lk
   | NFC_T4T_HL_NDEF_NLEN_UPDATE \<Rightarrow> bindE (on_ndef_nlen_update hl) (\<lambda>evs. Inr (hl, lk, evs, None)))"

section \<open>Interface\<close>

definition nfc_t4t_hl_procedure_cb_register ::
    "t4t_hl_procedure \<Rightarrow> nfc_t4t_hl_procedure_cb option \<Rightarrow> t4t_hl_procedure res" where
  "nfc_t4t_hl_procedure_cb_register hl cb = (case cb of None \<Rightarrow> Inl EINVAL | Some _ \<Rightarrow> Inr (hl\<lparr>hl_cb := cb\<rparr>))"

text \<open>The length is a \<open>size_t\<close>, the decoder takes its low 16 bits.\<close>

definition nfc_t4t_hl_procedure_on_data_received ::
    "hl_env \<Rightarrow> t4t_hl_procedure \<Rightarrow> nfc_t4t_isodep \<Rightarrow> ptr \<Rightarrow> u32 \<Rightarrow> hl_outcome" where
  "nfc_t4t_hl_procedure_on_data_received env hl lk data len =
     (if data = None \<or> len < 2 then Inr (hl, lk, [], Some EINVAL)
      else case nfc_t4t_apdu_resp_decode True data (ucast len) of
        Inl e \<Rightarrow> if e = UB then Inl UB else Inr (hl, lk, [], Some e)
      | Inr resp \<Rightarrow>
          if resp_status resp = NFC_T4T_APDU_RAPDU_STATUS_CMD_COMPLETED then on_rapdu_succes env hl lk resp
          else Inr (hl, lk, [], Some EPERM))"

definition nfc_t4t_hl_procedure_ndef_tag_app_select :: "hl_env \<Rightarrow> t4t_hl_procedure \<Rightarrow> nfc_t4t_isodep \<Rightarrow> hl_outcome" where
  "nfc_t4t_hl_procedure_ndef_tag_app_select env hl lk =
     t4t_hl_data_exchange env
       (hl\<lparr>hl_transaction_type := NFC_T4T_HL_SELECT, hl_select_type := NFC_T4T_HL_PROCEDURE_NDEF_APP_SELECT\<rparr>) lk
       (nfc_t4t_apdu_comm_clear\<lparr>instruction := NFC_T4T_APDU_COMM_INS_SELECT, parameter := NFC_T4T_APDU_SELECT_BY_NAME,
          comm_data := \<lparr>apdu_len = 7, apdu_buff = Some [0xD2, 0x76, 0x00, 0x00, 0x85, 0x01, 0x01]\<rparr>, resp_len := 256\<rparr>)"

definition nfc_t4t_hl_procedure_ndef_file_select :: "hl_env \<Rightarrow> t4t_hl_procedure \<Rightarrow> nfc_t4t_isodep \<Rightarrow> u16 \<Rightarrow> hl_outcome" where
  "nfc_t4t_hl_procedure_ndef_file_select env hl lk fid =
     t4t_hl_data_exchange env
       (hl\<lparr>hl_ndef := (hl_ndef hl)\<lparr>ndef_file_id := put_be16 fid\<rparr>, hl_transaction_type := NFC_T4T_HL_SELECT,
           hl_select_type := (if fid = 0xE103 then NFC_T4T_HL_PROCEDURE_CC_SELECT
                              else NFC_T4T_HL_PROCEDURE_NDEF_FILE_SELECT)\<rparr>) lk
       (nfc_t4t_apdu_comm_clear\<lparr>instruction := NFC_T4T_APDU_COMM_INS_SELECT, parameter := NFC_T4T_APDU_SELECT_BY_FILE_ID,
          comm_data := \<lparr>apdu_len = 2, apdu_buff = Some (put_be16 fid)\<rparr>\<rparr>)"

definition nfc_t4t_hl_procedure_cc_select :: "hl_env \<Rightarrow> t4t_hl_procedure \<Rightarrow> nfc_t4t_isodep \<Rightarrow> hl_outcome" where
  "nfc_t4t_hl_procedure_cc_select env hl lk = nfc_t4t_hl_procedure_ndef_file_select env hl lk 0xE103"

definition nfc_t4t_hl_procedure_cc_read :: "hl_env \<Rightarrow> t4t_hl_procedure \<Rightarrow> nfc_t4t_isodep \<Rightarrow> nat option \<Rightarrow> hl_outcome" where
  "nfc_t4t_hl_procedure_cc_read env hl lk cc =
     (if cc = None then Inr (hl, lk, [], Some EINVAL)
      else
        t4t_hl_data_exchange env
          (hl\<lparr>hl_cc_file := \<lparr>hlcc_cc = cc, hlcc_len = 0, hlcc_data = replicate (length (hlcc_data (hl_cc_file hl))) 0\<rparr>,
              hl_file_offset := 0, hl_transaction_type := NFC_T4T_HL_CC_READ\<rparr>) lk
          (nfc_t4t_apdu_comm_clear\<lparr>instruction := NFC_T4T_APDU_COMM_INS_READ, parameter := 0, resp_len := 0x0F\<rparr>))"

definition nfc_t4t_hl_procedure_ndef_read ::
    "hl_env \<Rightarrow> t4t_hl_procedure \<Rightarrow> nfc_t4t_isodep \<Rightarrow> nat option \<Rightarrow> ptr \<Rightarrow> u16 \<Rightarrow> hl_outcome" where
  "nfc_t4t_hl_procedure_ndef_read env hl lk cc buff ndef_len =
     (let hl = hl\<lparr>hl_file_offset := 0\<rparr> in
      if cc = None \<or> buff = None \<or> ndef_len = 0 then Inr (hl, lk, [], Some EINVAL)
      else
        t4t_hl_data_exchange env
          (hl\<lparr>hl_ndef := (hl_ndef hl)\<lparr>ndef_buff := buff, ndef_buff_size := ndef_len, ndef_cc := cc\<rparr>,
              hl_transaction_type := NFC_T4T_HL_NDEF_NLEN_READ\<rparr>) lk
          (nfc_t4t_apdu_comm_clear\<lparr>instruction := NFC_T4T_APDU_COMM_INS_READ, parameter := 0, resp_len := 2\<rparr>))"

definition nfc_t4t_hl_procedure_ndef_update ::
    "hl_env \<Rightarrow> t4t_hl_procedure \<Rightarrow> nfc_t4t_isodep \<Rightarrow> nat option \<Rightarrow> ptr \<Rightarrow> u16 \<Rightarrow> hl_outcome" where
  "nfc_t4t_hl_procedure_ndef_update env hl lk cc data ndef_len =
     (case (cc, data) of
        (Some a, Some d) \<Rightarrow>
          if ndef_len < 2 then Inr (hl, lk, [], Some EINVAL)
          else
            bindE (get_be16 (ndef_file_id (hl_ndef hl))) (\<lambda>fid.
            bindE (nfc_t4t_cc_file_content_get (hl_ccs hl a) fid) (\<lambda>r.
            case r of None \<Rightarrow> Inr (hl, lk, [], Some EACCES)
            | Some i \<Rightarrow>
                bindE (get_be16 d) (\<lambda>nlen.
                case cc_tlv_block_array (hl_ccs hl a) of None \<Rightarrow> Inl UB
                | Some bs \<Rightarrow>
                    if unat nlen + 2 \<noteq> unat ndef_len \<or> ucast ndef_len > max_file_size (tlv_value (bs ! i))
                    then Inr (hl, lk, [], Some ENOMEM)
                    else
                      t4t_hl_data_exchange env
                        (hl\<lparr>hl_ndef := (hl_ndef hl)\<lparr>ndef_buff := data, ndef_buff_size := ndef_len, ndef_nlen := nlen,
                                                  ndef_cc := cc\<rparr>,
                            hl_file_offset := 2, hl_transaction_type := NFC_T4T_HL_NDEF_NLEN_CLEAR\<rparr>) lk
                        (nfc_t4t_apdu_comm_clear\<lparr>instruction := NFC_T4T_APDU_COMM_INS_UPDATE, parameter := 0,
                           comm_data := \<lparr>apdu_len = 2, apdu_buff = Some [0x00, 0x00]\<rparr>\<rparr>))))
      | _ \<Rightarrow> Inr (hl, lk, [], Some EINVAL))"

section \<open>What an exchange sends\<close>

text \<open>The command that ISO-DEP is carrying to the tag.\<close>

definition hl_pending :: "nfc_t4t_isodep \<Rightarrow> u8 list" where
  "hl_pending lk = block (iso_transmit_data lk) (unat (iso_transmit_len lk))"

text \<open>The link to the tag is ready for a command: the module's only client is this one, so whatever ISO-DEP sent
  last lies in the APDU buffer.\<close>

definition hl_ready :: "hl_env \<Rightarrow> t4t_hl_procedure \<Rightarrow> nfc_t4t_isodep \<Rightarrow> bool" where
  "hl_ready env hl lk \<longleftrightarrow> isodep_inv lk \<and> ready_to_transmit (fst env) lk \<and>
     (\<forall>m. iso_transmit_data lk = Some m \<longrightarrow> length m = length (hl_apdu_buff hl))"

lemma transmit_accepts:
  assumes inv: "isodep_inv lk" and rdy: "ready_to_transmit now lk" and data: "unat n \<le> length m" "0 < n"
  shows "\<exists>lk' evs. nfc_t4t_isodep_transmit now submit lk (Some m) n = Inr (lk', evs, None) \<and>
     iso_transmit_data lk' = Some m \<and> iso_transmit_len lk' = n \<and> isodep_inv lk'"
proof -
  define t where "t = (isodep_transmission_clear (lk\<lparr>iso_state := ISODEP_STATE_TRANSFER\<rparr>))
     \<lparr>iso_transmit_data := Some m, iso_transmit_len := n\<rparr>"
  define u where "u = (if iso_first_transfer lk then t\<lparr>iso_first_transfer := False, iso_ats_time := now\<rparr> else t)"
  have "tag_fsc (iso_tag lk) \<noteq> 0" using inv rdy by (auto simp: isodep_inv_def ready_to_transmit_def)
  then have u: "isodep_inv u" "iso_state u \<noteq> ISODEP_STATE_UNINITIALIZED" "tag_fsc (iso_tag u) \<noteq> 0"
      "iso_transmit_data u = Some m" "iso_transmit_len u = n"
    using inv rdy data by (auto simp: u_def t_def isodep_inv_def ready_to_transmit_def)
  have "nfc_t4t_isodep_transmit now submit lk (Some m) n = bindE (isodep_chunk_send u) (\<lambda>(s, evs). Inr (s, evs, None))"
    using rdy data
    by (simp add: nfc_t4t_isodep_transmit_def ready_to_transmit_def u_def t_def [symmetric] Let_def) (auto simp: t_def)
  moreover obtain cb where "iso_cb u = Some cb" using u(1,2) by (rule isodep_inv_ready)
  ultimately show ?thesis
    using chunk_send_eq [OF isodep_inv_chunk_ready [OF u(1-3)]] isodep_inv_chunk_state [OF u(1-3)] u(4,5) by simp
qed

lemma data_exchange_ok:
  assumes c: "apdu_ok c" and fit: "length (apdu_bytes c) \<le> length (hl_apdu_buff hl)" "length (hl_apdu_buff hl) < 65536"
    and rdy: "hl_ready env hl lk"
  shows "\<exists>mem lk' evs. t4t_hl_data_exchange env hl lk c = Inr (hl\<lparr>hl_apdu_buff := mem\<rparr>, lk', map Link evs, None) \<and>
     length mem = length (hl_apdu_buff hl) \<and> hl_pending lk' = apdu_bytes c"
proof -
  let ?n = "length (apdu_bytes c)"
  let ?mem = "apdu_bytes c @ drop ?n (hl_apdu_buff hl)"
  have len: "unat (of_nat (length (hl_apdu_buff hl)) :: u16) = length (hl_apdu_buff hl)"
    using fit(2) by (simp add: unat_of_nat take_bit_eq_mod)
  have n: "unat (of_nat ?n :: u16) = ?n" using fit by (simp add: unat_of_nat take_bit_eq_mod)
  have enc: "nfc_t4t_apdu_comm_encode (Some c) (Some (hl_apdu_buff hl)) (Some (of_nat (length (hl_apdu_buff hl)))) =
      Inr (?mem, of_nat ?n)"
    using apdu_encode_ok [OF c, of "of_nat (length (hl_apdu_buff hl))" "hl_apdu_buff hl"] fit(1) len by simp
  have pos: "0 < ?n" by (simp add: apdu_bytes_def)
  have un: "unat (ucast (of_nat ?n :: u16) :: u32) = ?n" by (simp add: n)
  then have gt: "0 < (ucast (of_nat ?n :: u16) :: u32)" using pos by (simp add: word_less_nat_alt)
  have "isodep_inv (hl_alias ?mem lk)"
  proof (cases "iso_transmit_data lk")
    case None
    then have "hl_alias ?mem lk = lk" by (simp add: hl_alias_def)
    then show ?thesis using rdy by (simp add: hl_ready_def)
  next
    case (Some m)
    then have "length m = length ?mem" using rdy fit(1) by (simp add: hl_ready_def)
    then show ?thesis using rdy Some by (simp add: hl_ready_def hl_alias_def isodep_inv_def)
  qed
  moreover have "ready_to_transmit (fst env) (hl_alias ?mem lk)"
    using rdy by (simp add: hl_ready_def hl_alias_def ready_to_transmit_def)
  moreover have "unat (ucast (of_nat ?n :: u16) :: u32) \<le> length ?mem" unfolding un by simp
  ultimately obtain lk' evs where
    tr: "nfc_t4t_isodep_transmit (fst env) (snd env) (hl_alias ?mem lk) (Some ?mem) (ucast (of_nat ?n :: u16)) = Inr (lk', evs, None)"
      "iso_transmit_data lk' = Some ?mem" "iso_transmit_len lk' = ucast (of_nat ?n :: u16)"
    using transmit_accepts gt by blast
  have "t4t_hl_data_exchange env hl lk c = Inr (hl\<lparr>hl_apdu_buff := ?mem\<rparr>, lk', map Link evs, None)"
    unfolding t4t_hl_data_exchange_def enc by (simp add: tr(1))
  moreover have "hl_pending lk' = apdu_bytes c" unfolding hl_pending_def tr(2,3) un by simp
  moreover have "length ?mem = length (hl_apdu_buff hl)" using fit(1) by simp
  ultimately show ?thesis by blast
qed

lemma response_ok:
  assumes "length d + 2 < 65536"
  shows "nfc_t4t_hl_procedure_on_data_received env hl lk (Some (d @ [0x90, 0x00])) (of_nat (length d + 2)) =
     on_rapdu_succes env hl lk \<lparr>resp_status = 0x9000, resp_data = \<lparr>apdu_len = of_nat (length d),
       apdu_buff = (if d = [] then None else Some (d @ [0x90, 0x00]))\<rparr>\<rparr>"
proof -
  have st: "put_be16 0x9000 = [0x90, 0x00]" by (simp add: put_be16_def)
  have un: "unat (of_nat (length d + 2) :: u32) = length d + 2" by (rule unat_of_nat_u32) (use assms in simp)
  have "\<not> (of_nat (length d + 2) :: u32) < 2" unfolding word_less_nat_alt un by simp
  define n where "n = length d + 2"
  have cast: "(ucast (of_nat n :: u32) :: u16) = of_nat n" by (rule ucast_of_nat_u16) (use assms in \<open>simp add: n_def\<close>)
  have "nfc_t4t_apdu_resp_decode True (Some (d @ [0x90, 0x00])) (of_nat n) =
      Inr \<lparr>resp_status = 0x9000, resp_data = \<lparr>apdu_len = of_nat (length d),
       apdu_buff = (if d = [] then None else Some (d @ [0x90, 0x00]))\<rparr>\<rparr>"
    using assms apdu_resp_decode_ok [of d "0x9000" "[]"] unfolding n_def st by simp
  then show ?thesis
    using \<open>\<not> (of_nat (length d + 2) :: u32) < 2\<close> unfolding n_def [symmetric]
    by (simp add: nfc_t4t_hl_procedure_on_data_received_def cast split del: if_split)
qed

section \<open>A tag at the other end\<close>

text \<open>A Type 4 Tag with one selected file: what it does with READ BINARY and UPDATE BINARY commands in their short form.\<close>

definition tag_respond :: "u8 list \<Rightarrow> u8 list \<Rightarrow> u8 list \<times> u8 list" where
  "tag_respond fl cmd = (case cmd of
     cla # ins # p1 # p2 # x # d \<Rightarrow>
       (let off = unat (be16 p1 p2) in
        if ins = 0xB0 \<and> d = [] then (fl, take (if x = 0 then 256 else unat x) (drop off fl) @ [0x90, 0x00])
        else if ins = 0xD6 \<and> length d = unat x \<and> off + length d \<le> length fl
        then (take off fl @ d @ drop (off + length d) fl, [0x90, 0x00])
        else (fl, [0x6A, 0x82]))
   | _ \<Rightarrow> (fl, [0x67, 0x00]))"

definition read_cmd :: "u16 \<Rightarrow> u16 \<Rightarrow> nfc_t4t_apdu_comm" where
  "read_cmd off n = nfc_t4t_apdu_comm_clear\<lparr>instruction := NFC_T4T_APDU_COMM_INS_READ, parameter := off, resp_len := n\<rparr>"

definition update_cmd :: "u16 \<Rightarrow> u16 \<Rightarrow> u8 list \<Rightarrow> nfc_t4t_apdu_comm" where
  "update_cmd off n d = nfc_t4t_apdu_comm_clear\<lparr>instruction := NFC_T4T_APDU_COMM_INS_UPDATE, parameter := off,
     comm_data := \<lparr>apdu_len = n, apdu_buff = Some d\<rparr>\<rparr>"

lemma be16_put_list: "put_be16 w = [a, b] \<Longrightarrow> be16 a b = w"
  by (auto simp: put_be16_def)

lemma read_cmd_facts:
  assumes "0 < unat n" "unat n < 256"
  shows "apdu_ok (read_cmd off n)" "length (apdu_bytes (read_cmd off n)) = 5"
    "tag_respond fl (apdu_bytes (read_cmd off n)) = (fl, take (unat n) (drop (unat off) fl) @ [0x90, 0x00])"
proof -
  have n: "n \<noteq> 0" "\<not> 0x0100 < n" using assms by (auto simp: word_less_nat_alt)
  have un: "unat (ucast n :: u8) = unat n" using assms by (simp add: unsigned_ucast_eq take_bit_eq_mod)
  then have "(ucast n :: u8) \<noteq> 0" using assms by (metis unat_0 less_irrefl)
  with n un show "apdu_ok (read_cmd off n)" "length (apdu_bytes (read_cmd off n)) = 5"
    "tag_respond fl (apdu_bytes (read_cmd off n)) = (fl, take (unat n) (drop (unat off) fl) @ [0x90, 0x00])"
    by (simp_all add: apdu_ok_def read_cmd_def nfc_t4t_apdu_comm_clear_def apdu_bytes_def le_bytes_def tag_respond_def put_be16_def)
qed

lemma update_cmd_facts:
  assumes "0 < unat n" "unat n < 256" "unat n \<le> length d"
  shows "apdu_ok (update_cmd off n d)" "length (apdu_bytes (update_cmd off n d)) = unat n + 5"
    "unat off + unat n \<le> length fl \<Longrightarrow> tag_respond fl (apdu_bytes (update_cmd off n d)) =
       (take (unat off) fl @ take (unat n) d @ drop (unat off + unat n) fl, [0x90, 0x00])"
proof -
  have un: "unat (ucast n :: u8) = unat n" using assms by (simp add: unsigned_ucast_eq take_bit_eq_mod)
  show "apdu_ok (update_cmd off n d)" "length (apdu_bytes (update_cmd off n d)) = unat n + 5"
    "unat off + unat n \<le> length fl \<Longrightarrow> tag_respond fl (apdu_bytes (update_cmd off n d)) =
       (take (unat off) fl @ take (unat n) d @ drop (unat off + unat n) fl, [0x90, 0x00])"
    using assms un
    by (simp_all add: apdu_ok_def update_cmd_def nfc_t4t_apdu_comm_clear_def apdu_bytes_def le_bytes_def lc_bytes_def
        tag_respond_def put_be16_def min_absorb2 Let_def)
qed

text \<open>Rounds of a procedure: the tag answers the pending command and the module handles the response, over a link
  that \<open>link\<close> provides. The events of the link itself are left out.\<close>

definition is_link :: "hl_ev \<Rightarrow> bool" where
  "is_link ev = (case ev of Link _ \<Rightarrow> True | _ \<Rightarrow> False)"

fun hl_rounds :: "hl_env \<Rightarrow> (t4t_hl_procedure \<Rightarrow> nfc_t4t_isodep) \<Rightarrow> nat \<Rightarrow> u8 list \<Rightarrow> t4t_hl_procedure \<Rightarrow> u8 list \<Rightarrow>
    (u8 list \<times> t4t_hl_procedure \<times> hl_ev list) res" where
  "hl_rounds env link 0 fl hl cmd = Inr (fl, hl, [])"
| "hl_rounds env link (Suc k) fl hl cmd =
     (let (fl', resp) = tag_respond fl cmd in
      bindE (nfc_t4t_hl_procedure_on_data_received env hl (link hl) (Some resp) (of_nat (length resp))) (\<lambda>(hl', lk, evs, r).
      case r of Some e \<Rightarrow> Inl e
      | None \<Rightarrow> bindE (hl_rounds env link k fl' hl' (hl_pending lk)) (\<lambda>(f, h, evs').
                Inr (f, h, filter (\<lambda>e. \<not> is_link e) evs @ evs'))))"

lemma filter_links [simp]: "filter (\<lambda>e. \<not> is_link e) (map Link evs) = []"
  by (induction evs) (simp_all add: is_link_def)

lemma bindE_triple: "bindE m (\<lambda>(f, h, evs). Inr (f, h, evs)) = m"
  by (cases m) auto

lemma round_step:
  assumes "tag_respond fl cmd = (fl', d @ [0x90, 0x00])" "length d + 2 < 65536"
    and "on_rapdu_succes env hl (link hl) \<lparr>resp_status = 0x9000, resp_data = \<lparr>apdu_len = of_nat (length d),
       apdu_buff = (if d = [] then None else Some (d @ [0x90, 0x00]))\<rparr>\<rparr> = Inr (hl', lk, evs, None)"
  shows "hl_rounds env link (Suc k) fl hl cmd =
     bindE (hl_rounds env link k fl' hl' (hl_pending lk)) (\<lambda>(f, h, evs'). Inr (f, h, filter (\<lambda>e. \<not> is_link e) evs @ evs'))"
proof -
  have "length (d @ [0x90, 0x00 :: u8]) = length d + 2" by simp
  then have "nfc_t4t_hl_procedure_on_data_received env hl (link hl) (Some (d @ [0x90, 0x00])) (of_nat (length (d @ [0x90, 0x00 :: u8]))) =
      Inr (hl', lk, evs, None)"
    using response_ok [OF assms(2), of env hl "link hl"] assms(3) by presburger
  then show ?thesis using assms(1) by (simp del: of_nat_add length_append)
qed

lemma round_step_link:
  assumes "tag_respond fl cmd = (fl', [0x90, 0x00])" "\<And>r. on_rapdu_succes env hl (link hl) r = Inr (hl', lk, map Link evs, None)"
  shows "hl_rounds env link (Suc k) fl hl cmd = hl_rounds env link k fl' hl' (hl_pending lk)"
  using round_step [of fl cmd fl' "[]" env hl link hl' lk "map Link evs" k] assms
  by (simp add: bindE_triple del: hl_rounds.simps)

section \<open>Updating a file\<close>

text \<open>An update of the file described by the CC at \<open>a\<close> with the data \<open>D\<close> is under way: how it looks to the module.\<close>

definition updating :: "nat \<Rightarrow> u8 list \<Rightarrow> t4t_hl_procedure \<Rightarrow> bool" where
  "updating a D hl \<longleftrightarrow> ndef_cc (hl_ndef hl) = Some a \<and> ndef_buff (hl_ndef hl) = Some D \<and>
     length D = unat (ndef_buff_size (hl_ndef hl)) \<and> put_be16 (ndef_nlen (hl_ndef hl)) = take 2 D \<and>
     2 \<le> hl_file_offset hl \<and> hl_file_offset hl \<le> ndef_buff_size (hl_ndef hl) \<and>
     hl_transaction_type hl \<in> {NFC_T4T_HL_NDEF_NLEN_CLEAR, NFC_T4T_HL_NDEF_UPDATE} \<and>
     0 < cc_max_capdu_size (hl_ccs hl a) \<and>
     min 255 (min (length D) (unat (cc_max_capdu_size (hl_ccs hl a)))) + 5 \<le> length (hl_apdu_buff hl) \<and>
     7 \<le> length (hl_apdu_buff hl) \<and> length (hl_apdu_buff hl) < 65536"

lemma on_update_response:
  "updating a D hl \<Longrightarrow> on_rapdu_succes env hl lk resp = ndef_file_chunk_update env hl lk"
  by (auto simp: updating_def on_rapdu_succes_def)

lemma chunk_update_next:
  assumes upd: "updating a D hl" and rdy: "hl_ready env hl lk" and lt: "unat (hl_file_offset hl) < length D"
  obtains hl' lk' evs n where "ndef_file_chunk_update env hl lk = Inr (hl', lk', map Link evs, None)"
    "updating a D hl'" "0 < unat n" "unat n < 256" "unat (hl_file_offset hl') = unat (hl_file_offset hl) + unat n"
    "unat (hl_file_offset hl) + unat n \<le> length D"
    "hl_pending lk' = apdu_bytes (update_cmd (hl_file_offset hl) n (drop (unat (hl_file_offset hl)) D))"
    "ndef_file_id (hl_ndef hl') = ndef_file_id (hl_ndef hl)" "hl_cb hl' = hl_cb hl"
proof -
  let ?o = "hl_file_offset hl" let ?m = "cc_max_capdu_size (hl_ccs hl a)"
  define n where "n = min (ndef_buff_size (hl_ndef hl) - ?o) (min 0xFF ?m)"
  have D: "length D = unat (ndef_buff_size (hl_ndef hl))" "?o \<le> ndef_buff_size (hl_ndef hl)" "0 < ?m"
      "?o < ndef_buff_size (hl_ndef hl)"
    using upd lt by (auto simp: updating_def word_less_nat_alt)
  have sub: "unat (ndef_buff_size (hl_ndef hl) - ?o) = length D - unat ?o" using D by (simp add: unat_sub)
  have un: "unat n = min (length D - unat ?o) (min 255 (unat ?m))"
    by (simp add: n_def min_def word_le_nat_alt sub)
  have n: "0 < unat n" "unat n < 256" "unat ?o + unat n \<le> length D" "unat n \<le> length (drop (unat ?o) D)"
    using un lt D(3) by (auto simp: word_less_nat_alt)
  have off: "unat (?o + n) = unat ?o + unat n"
    using n(3) D(1) unat_u16_lt [of "ndef_buff_size (hl_ndef hl)"] by (simp add: unat_word_ariths)
  let ?h = "hl\<lparr>hl_file_offset := ?o + n, hl_transaction_type := NFC_T4T_HL_NDEF_UPDATE\<rparr>"
  let ?c = "update_cmd ?o n (drop (unat ?o) D)"
  have "unat n \<le> min 255 (min (length D) (unat ?m))" unfolding un by linarith
  moreover have "min 255 (min (length D) (unat ?m)) + 5 \<le> length (hl_apdu_buff hl)" "length (hl_apdu_buff ?h) < 65536"
    using upd unfolding updating_def by (blast, simp)
  ultimately have len: "length (apdu_bytes ?c) \<le> length (hl_apdu_buff ?h)" "length (hl_apdu_buff ?h) < 65536"
    using update_cmd_facts(2) [OF n(1,2,4), of ?o] by (simp, linarith, simp)
  have "hl_ready env ?h lk" using rdy by (simp add: hl_ready_def)
  from data_exchange_ok [OF update_cmd_facts(1) [OF n(1,2,4)] len this] obtain mem lk' evs where
    ex: "t4t_hl_data_exchange env ?h lk ?c = Inr (?h\<lparr>hl_apdu_buff := mem\<rparr>, lk', map Link evs, None)"
      "length mem = length (hl_apdu_buff hl)" "hl_pending lk' = apdu_bytes ?c" by auto
  have "ndef_file_chunk_update env hl lk = t4t_hl_data_exchange env ?h lk ?c"
    using upd D(4) by (simp add: ndef_file_chunk_update_def updating_def n_def Let_def update_cmd_def)
  moreover have "updating a D (?h\<lparr>hl_apdu_buff := mem\<rparr>)"
    using upd ex(2) n(3) off D(1) by (auto simp: updating_def word_le_nat_alt)
  ultimately show ?thesis using that [of "?h\<lparr>hl_apdu_buff := mem\<rparr>" lk' evs n] ex(1,3) n off by auto
qed

lemma chunk_update_last:
  assumes upd: "updating a D hl" and rdy: "hl_ready env hl lk" and ge: "unat (hl_file_offset hl) = length D"
  obtains mem lk' evs where "ndef_file_chunk_update env hl lk =
      Inr (hl\<lparr>hl_transaction_type := NFC_T4T_HL_NDEF_NLEN_UPDATE, hl_apdu_buff := mem\<rparr>, lk', map Link evs, None)"
    "hl_pending lk' = apdu_bytes (update_cmd 0 2 (take 2 D))"
proof -
  let ?h = "hl\<lparr>hl_transaction_type := NFC_T4T_HL_NDEF_NLEN_UPDATE\<rparr>"
  have D: "2 \<le> length D" "put_be16 (ndef_nlen (hl_ndef hl)) = take 2 D"
    using upd ge by (auto simp: updating_def word_le_nat_alt)
  have f: "apdu_ok (update_cmd 0 2 (take 2 D))" "length (apdu_bytes (update_cmd 0 2 (take 2 D))) = 7"
    using update_cmd_facts(1,2) [of 2 "take 2 D" 0] D(1) by simp_all
  have "length (apdu_bytes (update_cmd 0 2 (take 2 D))) \<le> length (hl_apdu_buff ?h)" "length (hl_apdu_buff ?h) < 65536"
      "hl_ready env ?h lk"
    using upd rdy f(2) by (auto simp: updating_def hl_ready_def)
  from data_exchange_ok [OF f(1) this] obtain mem lk' evs where
    "t4t_hl_data_exchange env ?h lk (update_cmd 0 2 (take 2 D)) = Inr (?h\<lparr>hl_apdu_buff := mem\<rparr>, lk', map Link evs, None)"
    "hl_pending lk' = apdu_bytes (update_cmd 0 2 (take 2 D))" by blast
  moreover have "\<not> hl_file_offset hl < ndef_buff_size (hl_ndef hl)"
    using upd ge by (simp add: updating_def word_less_nat_alt)
  ultimately show ?thesis
    using that D(2) by (simp add: ndef_file_chunk_update_def update_cmd_def)
qed

text \<open>The file of the tag while its NLEN field is 0: the data up to \<open>n\<close> has arrived.\<close>

definition written :: "u8 list \<Rightarrow> nat \<Rightarrow> u8 list \<Rightarrow> u8 list" where
  "written D n fl = [0, 0] @ take (n - 2) (drop 2 D) @ drop n fl"

lemma written_more:
  assumes "2 \<le> n" "n + k \<le> length D" "length D \<le> length fl"
  shows "take n (written D n fl) @ take k (drop n D) @ drop (n + k) (written D n fl) = written D (n + k) fl"
proof -
  define A where "A = [0, 0] @ take (n - 2) (drop 2 D)"
  have A: "length A = n" using assms by (simp add: A_def)
  have "written D n fl = A @ drop n fl" by (simp add: written_def A_def)
  then have "take n (written D n fl) = A" "drop (n + k) (written D n fl) = drop (n + k) fl"
    using A by (simp_all add: add.commute [of n k])
  moreover have "take (n + k - 2) (drop 2 D) = take (n - 2) (drop 2 D) @ take k (drop n D)"
  proof -
    have "n + k - 2 = (n - 2) + k" "n - 2 + 2 = n" using assms by simp_all
    then have "drop (n - 2) (drop 2 D) = drop n D" by (metis drop_drop)
    with \<open>n + k - 2 = _\<close> show ?thesis using take_add [of "n - 2" k "drop 2 D"] by simp
  qed
  ultimately show ?thesis by (simp add: written_def A_def)
qed

text \<open>The rounds of an update from a state where the tag is about to have stored the data up to the file offset.\<close>

lemma update_rounds:
  assumes "updating a D hl" "\<And>h. hl_ready env h (link h)"
    and "tag_respond fl cmd = (written D (unat (hl_file_offset hl)) old, [0x90, 0x00])" "length D \<le> length old"
    and "ndef_file_id (hl_ndef hl) = put_be16 fid" "hl_cb hl = Some cb" "hlcb_ndef_updated cb"
  shows "\<exists>n \<le> length D - unat (hl_file_offset hl).
     (\<exists>hl'. hl_rounds env link (Suc (Suc n)) fl hl cmd = Inr (D @ drop (length D) old, hl', [Hl_Ndef_Updated fid])) \<and>
     (\<forall>j. 0 < j \<and> j \<le> Suc n \<longrightarrow> (\<exists>f h. hl_rounds env link j fl hl cmd = Inr (f, h, []) \<and> take 2 f = [0, 0]))"
  using assms
proof (induction "length D - unat (hl_file_offset hl)" arbitrary: hl fl cmd rule: less_induct)
  case less
  let ?o = "unat (hl_file_offset hl)"
  have o: "2 \<le> ?o" "?o \<le> length D" using less.prems(1) by (auto simp: updating_def word_le_nat_alt)
  have resp: "tag_respond fl cmd = (written D ?o old, [] @ [0x90, 0x00])" using less.prems(3) by simp
  have w2: "take 2 (written D ?o old) = [0, 0]" by (simp add: written_def)
  note on = on_update_response [OF less.prems(1), of env "link hl"]
  note rdy = less.prems(2) [of hl]
  show ?case
  proof (cases "?o < length D")
    case True
    from less.prems(1) rdy True obtain hl' lk' evs n where
      st: "ndef_file_chunk_update env hl (link hl) = Inr (hl', lk', map Link evs, None)"
      and n: "updating a D hl'" "0 < unat n" "unat n < 256" "unat (hl_file_offset hl') = ?o + unat n" "?o + unat n \<le> length D"
      and p: "hl_pending lk' = apdu_bytes (update_cmd (hl_file_offset hl) n (drop ?o D))"
      and fid: "ndef_file_id (hl_ndef hl') = ndef_file_id (hl_ndef hl)" "hl_cb hl' = hl_cb hl"
      by (rule chunk_update_next)
    have step: "hl_rounds env link (Suc k) fl hl cmd = hl_rounds env link k (written D ?o old) hl' (hl_pending lk')" for k
      by (rule round_step_link [OF less.prems(3)]) (simp add: on st)
    have len: "length (written D ?o old) = length old" using o less.prems(4) by (simp add: written_def)
    have "tag_respond (written D ?o old) (hl_pending lk') = (written D (unat (hl_file_offset hl')) old, [0x90, 0x00])"
      using update_cmd_facts(3) [OF n(2,3), of "drop ?o D" "hl_file_offset hl" "written D ?o old"] n(4,5) len less.prems(4)
        written_more [OF o(1) n(5) less.prems(4)]
      by (simp add: p)
    moreover have "length D - unat (hl_file_offset hl') < length D - ?o" using n(2,4,5) by linarith
    ultimately obtain m where m: "m \<le> length D - unat (hl_file_offset hl')"
      "\<exists>h. hl_rounds env link (Suc (Suc m)) (written D ?o old) hl' (hl_pending lk') = Inr (D @ drop (length D) old, h, [Hl_Ndef_Updated fid])"
      "\<forall>j. 0 < j \<and> j \<le> Suc m \<longrightarrow> (\<exists>f h. hl_rounds env link j (written D ?o old) hl' (hl_pending lk') = Inr (f, h, []) \<and> take 2 f = [0, 0])"
      using less.hyps [of hl' "written D ?o old" "hl_pending lk'"] n(1) less.prems(2,4-7) fid by auto
    have early: "\<exists>f h. hl_rounds env link j fl hl cmd = Inr (f, h, []) \<and> take 2 f = [0, 0]" if "0 < j" "j \<le> Suc (Suc m)" for j
    proof (cases "j = 1")
      case True
      then show ?thesis using w2 step [of 0] by auto
    next
      case False
      then obtain i where "j = Suc i" "0 < i" "i \<le> Suc m" using \<open>0 < j\<close> \<open>j \<le> _\<close> by (cases j) auto
      then show ?thesis using m(3) step [of i] by auto
    qed
    show ?thesis
      using m(1,2) n(2,4,5) early step [of "Suc (Suc m)"] by (intro exI [of _ "Suc m"]) (auto simp del: hl_rounds.simps)
  next
    case False
    with o have oe: "?o = length D" by simp
    from less.prems(1) rdy oe obtain mem lk' evs where
      st: "ndef_file_chunk_update env hl (link hl) =
          Inr (hl\<lparr>hl_transaction_type := NFC_T4T_HL_NDEF_NLEN_UPDATE, hl_apdu_buff := mem\<rparr>, lk', map Link evs, None)"
      and p: "hl_pending lk' = apdu_bytes (update_cmd 0 2 (take 2 D))"
      by (rule chunk_update_last)
    let ?h = "hl\<lparr>hl_transaction_type := NFC_T4T_HL_NDEF_NLEN_UPDATE, hl_apdu_buff := mem\<rparr>"
    have step: "hl_rounds env link (Suc k) fl hl cmd = hl_rounds env link k (written D ?o old) ?h (hl_pending lk')" for k
      by (rule round_step_link [OF less.prems(3)]) (simp add: on st)
    have "take 2 D @ drop 2 (written D (length D) old) = D @ drop (length D) old"
      using o append_take_drop_id [of 2 D] by (simp add: written_def oe del: append_take_drop_id)
    then have "tag_respond (written D ?o old) (hl_pending lk') = (D @ drop (length D) old, [] @ [0x90, 0x00])"
      using update_cmd_facts(3) [of 2 "take 2 D" 0 "written D ?o old"] o by (simp add: p oe written_def)
    moreover have "on_rapdu_succes env ?h (link ?h) r = Inr (?h, link ?h, [Hl_Ndef_Updated fid], None)" for r
      using less.prems(5-7) by (simp add: on_rapdu_succes_def on_ndef_nlen_update_def hl_notify_def get_put_be16 [of fid "[]", simplified])
    ultimately have "hl_rounds env link (Suc 0) (written D ?o old) ?h (hl_pending lk') =
        Inr (D @ drop (length D) old, ?h, [Hl_Ndef_Updated fid])"
      using round_step [of "written D ?o old" "hl_pending lk'" "D @ drop (length D) old" "[]" env ?h link ?h "link ?h" "[Hl_Ndef_Updated fid]" 0]
      by (simp add: is_link_def del: hl_rounds.simps(2))
    then show ?thesis
      using step [of "Suc 0"] step [of 0] w2
      by (intro exI [of _ 0]) (auto simp: le_Suc_eq simp del: hl_rounds.simps(2))
  qed
qed

text \<open>The user asks to update the file \<open>fid\<close>, selected before and described by the CC at \<open>a\<close>, with the \<open>ndef_len\<close>
  bytes \<open>D\<close>, which start with their length.\<close>

definition update_request :: "t4t_hl_procedure \<Rightarrow> nat \<Rightarrow> u16 \<Rightarrow> u8 list \<Rightarrow> u16 \<Rightarrow> bool" where
  "update_request hl a fid D ndef_len \<longleftrightarrow> ndef_file_id (hl_ndef hl) = put_be16 fid \<and>
     length D = unat ndef_len \<and> 2 \<le> length D \<and> take 2 D = put_be16 (ndef_len - 2) \<and>
     0 < cc_max_capdu_size (hl_ccs hl a) \<and> 7 \<le> length (hl_apdu_buff hl) \<and> length (hl_apdu_buff hl) < 65536 \<and>
     (\<exists>i bs. nfc_t4t_cc_file_content_get (hl_ccs hl a) fid = Inr (Some i) \<and> cc_tlv_block_array (hl_ccs hl a) = Some bs \<and>
        ucast ndef_len \<le> max_file_size (tlv_value (bs ! i)))"

lemma ndef_update_starts:
  assumes req: "update_request hl a fid D ndef_len" and rdy: "hl_ready env hl lk" and len: "length D \<le> length fl"
  obtains hl' lk' evs where "nfc_t4t_hl_procedure_ndef_update env hl lk (Some a) (Some D) ndef_len = Inr (hl', lk', map Link evs, None)"
    "tag_respond fl (hl_pending lk') = (written D 2 fl, [0x90, 0x00])" "hl_file_offset hl' = 2"
    "hl_transaction_type hl' = NFC_T4T_HL_NDEF_NLEN_CLEAR" "hl_cb hl' = hl_cb hl" "hl_ccs hl' = hl_ccs hl"
    "length (hl_apdu_buff hl') = length (hl_apdu_buff hl)"
    "hl_ndef hl' = (hl_ndef hl)\<lparr>ndef_buff := Some D, ndef_buff_size := ndef_len, ndef_nlen := ndef_len - 2, ndef_cc := Some a\<rparr>"
proof -
  from req obtain i bs where cc: "nfc_t4t_cc_file_content_get (hl_ccs hl a) fid = Inr (Some i)"
      "cc_tlv_block_array (hl_ccs hl a) = Some bs" "ucast ndef_len \<le> max_file_size (tlv_value (bs ! i))"
    by (auto simp: update_request_def)
  have D: "length D = unat ndef_len" "2 \<le> unat ndef_len" "take 2 D = put_be16 (ndef_len - 2)"
    using req by (auto simp: update_request_def)
  have "D = put_be16 (ndef_len - 2) @ drop 2 D" using D(3) append_take_drop_id [of 2 D] by simp
  then have nl: "get_be16 D = Inr (ndef_len - 2)" using get_put_be16 [of "ndef_len - 2" "drop 2 D"] by simp
  have sub: "unat (ndef_len - 2) + 2 = unat ndef_len" using D(2) by (simp add: unat_sub word_le_nat_alt)
  let ?h = "hl\<lparr>hl_ndef := (hl_ndef hl)\<lparr>ndef_buff := Some D, ndef_buff_size := ndef_len, ndef_nlen := ndef_len - 2, ndef_cc := Some a\<rparr>,
      hl_file_offset := 2, hl_transaction_type := NFC_T4T_HL_NDEF_NLEN_CLEAR\<rparr>"
  let ?c = "update_cmd 0 2 [0x00, 0x00]"
  have f: "apdu_ok ?c" "length (apdu_bytes ?c) = 7" using update_cmd_facts(1,2) [of 2 "[0x00, 0x00]" 0] by simp_all
  have "length (apdu_bytes ?c) \<le> length (hl_apdu_buff ?h)" "length (hl_apdu_buff ?h) < 65536" "hl_ready env ?h lk"
    using req rdy f(2) by (auto simp: update_request_def hl_ready_def)
  from data_exchange_ok [OF f(1) this] obtain mem lk' evs where
    ex: "t4t_hl_data_exchange env ?h lk ?c = Inr (?h\<lparr>hl_apdu_buff := mem\<rparr>, lk', map Link evs, None)"
      "length mem = length (hl_apdu_buff hl)" "hl_pending lk' = apdu_bytes ?c" by auto
  have fid: "get_be16 (ndef_file_id (hl_ndef hl)) = Inr fid"
    using req get_put_be16 [of fid "[]"] by (simp add: update_request_def)
  have "nfc_t4t_hl_procedure_ndef_update env hl lk (Some a) (Some D) ndef_len = t4t_hl_data_exchange env ?h lk ?c"
    using cc D(2) nl sub
    by (simp add: nfc_t4t_hl_procedure_ndef_update_def fid word_less_nat_alt word_le_nat_alt linorder_not_less update_cmd_def)
  moreover have "tag_respond fl (hl_pending lk') = (written D 2 fl, [0x90, 0x00])"
    using update_cmd_facts(3) [of 2 "[0x00, 0x00]" 0 fl] len D(1,2)
    by (simp add: ex(3) written_def) (simp add: numeral_2_eq_2)
  ultimately show ?thesis using ex(1,2) by (intro that [of "?h\<lparr>hl_apdu_buff := mem\<rparr>" lk' evs]) simp_all
qed

text \<open>C33: updating the NDEF file of a tag. When the user's request is well-formed and every piece of the data fits the
  APDU buffer, the procedure ends after a bounded number of commands with the update callback, and the tag's file then
  starts with the new data and is otherwise unchanged. At every moment in between the length field in the file is zero, so
  no reader ever sees a partly written message.\<close>

theorem hl_ndef_update_writes:
  assumes "update_request hl a fid D ndef_len" "\<And>h. hl_ready env h (link h)" "length D \<le> length fl"
    and "min 255 (min (length D) (unat (cc_max_capdu_size (hl_ccs hl a)))) + 5 \<le> length (hl_apdu_buff hl)"
    and "hl_cb hl = Some cb" "hlcb_ndef_updated cb"
  shows "\<exists>hl' lk evs n. nfc_t4t_hl_procedure_ndef_update env hl (link hl) (Some a) (Some D) ndef_len = Inr (hl', lk, map Link evs, None) \<and>
     n \<le> length D \<and>
     (\<exists>hl''. hl_rounds env link n fl hl' (hl_pending lk) = Inr (D @ drop (length D) fl, hl'', [Hl_Ndef_Updated fid])) \<and>
     (\<forall>j. 0 < j \<and> j < n \<longrightarrow> (\<exists>f h. hl_rounds env link j fl hl' (hl_pending lk) = Inr (f, h, []) \<and> take 2 f = [0, 0]))"
proof -
  from assms(1) assms(2) [of hl] assms(3) obtain hl' lk evs where
    st: "nfc_t4t_hl_procedure_ndef_update env hl (link hl) (Some a) (Some D) ndef_len = Inr (hl', lk, map Link evs, None)"
    and tg: "tag_respond fl (hl_pending lk) = (written D 2 fl, [0x90, 0x00])"
    and h: "hl_file_offset hl' = 2" "hl_transaction_type hl' = NFC_T4T_HL_NDEF_NLEN_CLEAR" "hl_cb hl' = hl_cb hl" "hl_ccs hl' = hl_ccs hl"
      "length (hl_apdu_buff hl') = length (hl_apdu_buff hl)"
      "hl_ndef hl' = (hl_ndef hl)\<lparr>ndef_buff := Some D, ndef_buff_size := ndef_len, ndef_nlen := ndef_len - 2, ndef_cc := Some a\<rparr>"
    by (rule ndef_update_starts)
  have D: "length D = unat ndef_len" "2 \<le> length D" using assms(1) by (auto simp: update_request_def)
  have "updating a D hl'"
    using assms(1,4) h by (auto simp: updating_def update_request_def word_le_nat_alt)
  then obtain n where n: "n \<le> length D - unat (hl_file_offset hl')"
     "\<exists>h. hl_rounds env link (Suc (Suc n)) fl hl' (hl_pending lk) = Inr (D @ drop (length D) fl, h, [Hl_Ndef_Updated fid])"
     "\<forall>j. 0 < j \<and> j \<le> Suc n \<longrightarrow> (\<exists>f h. hl_rounds env link j fl hl' (hl_pending lk) = Inr (f, h, []) \<and> take 2 f = [0, 0])"
    using update_rounds [of a D hl' env link fl "hl_pending lk" fl fid cb] assms h tg
    by (auto simp: update_request_def)
  have "Suc (Suc n) \<le> length D" using n(1) h(1) D(2) by simp
  then show ?thesis using st n(2,3) less_Suc_eq_le by (metis (no_types, lifting))
qed

text \<open>C34: with an APDU buffer of at most 255 bytes (the largest the configuration allows) and a tag that accepts 255 data
  bytes per command, updating a file with 257 bytes or more fails: the first command sets the tag's length field to zero, the
  next one does not fit the buffer and the procedure stops with \<open>-ENOMEM\<close>, leaving an empty file.\<close>

theorem hl_ndef_update_large_fails:
  assumes "update_request hl a fid D ndef_len" "\<And>h. hl_ready env h (link h)" "length D \<le> length fl"
    and "length (hl_apdu_buff hl) \<le> 255" "255 \<le> cc_max_capdu_size (hl_ccs hl a)" "257 \<le> length D"
  shows "\<exists>hl' lk evs. nfc_t4t_hl_procedure_ndef_update env hl (link hl) (Some a) (Some D) ndef_len = Inr (hl', lk, map Link evs, None) \<and>
     hl_rounds env link 1 fl hl' (hl_pending lk) = Inl ENOMEM \<and> take 2 (fst (tag_respond fl (hl_pending lk))) = [0, 0]"
proof -
  from assms(1) assms(2) [of hl] assms(3) obtain hl' lk evs where
    st: "nfc_t4t_hl_procedure_ndef_update env hl (link hl) (Some a) (Some D) ndef_len = Inr (hl', lk, map Link evs, None)"
    and tg: "tag_respond fl (hl_pending lk) = (written D 2 fl, [0x90, 0x00])"
    and h: "hl_file_offset hl' = 2" "hl_transaction_type hl' = NFC_T4T_HL_NDEF_NLEN_CLEAR" "hl_cb hl' = hl_cb hl" "hl_ccs hl' = hl_ccs hl"
      "length (hl_apdu_buff hl') = length (hl_apdu_buff hl)"
      "hl_ndef hl' = (hl_ndef hl)\<lparr>ndef_buff := Some D, ndef_buff_size := ndef_len, ndef_nlen := ndef_len - 2, ndef_cc := Some a\<rparr>"
    by (rule ndef_update_starts)
  have D: "length D = unat ndef_len" using assms(1) by (auto simp: update_request_def)
  have "255 \<le> unat (ndef_len - 2)" "2 < ndef_len" using assms(6) D by (auto simp: unat_sub word_le_nat_alt word_less_nat_alt)
  then have n: "min (ndef_len - 2) (min 0xFF (cc_max_capdu_size (hl_ccs hl a))) = 255"
    using assms(5) by (intro word_unat_eq_iff [THEN iffD2]) (auto simp: min_def word_le_nat_alt)
  let ?h = "hl'\<lparr>hl_file_offset := 2 + 255, hl_transaction_type := NFC_T4T_HL_NDEF_UPDATE\<rparr>"
  let ?c = "update_cmd 2 255 (drop 2 D)"
  have "apdu_ok ?c" "length (apdu_bytes ?c) = 260"
    using update_cmd_facts(1,2) [of 255 "drop 2 D" 2] assms(6) by simp_all
  moreover have "unat (of_nat (length (hl_apdu_buff hl)) :: u16) = length (hl_apdu_buff hl)"
    using assms(4) by (simp add: unat_of_nat take_bit_eq_mod)
  ultimately have "t4t_hl_data_exchange env ?h (link hl') ?c = Inr (?h, link hl', [], Some ENOMEM)"
    using apdu_encode_ok [of ?c "of_nat (length (hl_apdu_buff ?h))" "hl_apdu_buff ?h"] assms(4) h(5)
    by (simp add: t4t_hl_data_exchange_def)
  then have "on_rapdu_succes env hl' (link hl') r = Inr (?h, link hl', [], Some ENOMEM)" for r
    using h n \<open>2 < ndef_len\<close> by (simp add: on_rapdu_succes_def ndef_file_chunk_update_def Let_def update_cmd_def)
  then have "hl_rounds env link 1 fl hl' (hl_pending lk) = Inl ENOMEM"
    using response_ok [of "[]" env hl' "link hl'"] tg by simp
  moreover have "take 2 (fst (tag_respond fl (hl_pending lk))) = [0, 0]" using tg by (simp add: written_def)
  ultimately show ?thesis using st by blast
qed

section \<open>Reading a file\<close>

text \<open>A read of the tag's file into the user's buffer has stored everything before the file offset.\<close>

definition reading :: "nat \<Rightarrow> u8 list \<Rightarrow> t4t_hl_procedure \<Rightarrow> bool" where
  "reading a F hl \<longleftrightarrow> ndef_cc (hl_ndef hl) = Some a \<and>
     (\<exists>buff. ndef_buff (hl_ndef hl) = Some buff \<and> length buff = unat (ndef_buff_size (hl_ndef hl)) \<and>
        take (unat (hl_file_offset hl)) buff = take (unat (hl_file_offset hl)) F) \<and>
     length F \<le> unat (ndef_buff_size (hl_ndef hl)) \<and> unat (hl_file_offset hl) \<le> length F \<and>
     0 < cc_max_rapdu_size (hl_ccs hl a) \<and> 5 \<le> length (hl_apdu_buff hl) \<and> length (hl_apdu_buff hl) < 65536"

text \<open>The state when the bytes \<open>d\<close> have been stored, and what the module does then.\<close>

definition stored :: "t4t_hl_procedure \<Rightarrow> u8 list \<Rightarrow> u8 list \<Rightarrow> t4t_hl_procedure" where
  "stored hl buff d = hl\<lparr>hl_ndef := (hl_ndef hl)\<lparr>ndef_buff := Some buff\<rparr>, hl_file_offset := hl_file_offset hl + of_nat (length d)\<rparr>"

definition after_store :: "hl_env \<Rightarrow> t4t_hl_procedure \<Rightarrow> nfc_t4t_isodep \<Rightarrow> nat \<Rightarrow> u8 list \<Rightarrow> hl_outcome" where
  "after_store env hl lk a buff =
     (if unat (hl_file_offset hl) < unat (ndef_nlen (hl_ndef hl)) + 2 then
        t4t_hl_data_exchange env (hl\<lparr>hl_transaction_type := NFC_T4T_HL_NDEF_READ\<rparr>) lk
          (read_cmd (hl_file_offset hl) (of_nat (min (unat (ndef_nlen (hl_ndef hl)) + 2 - unat (hl_file_offset hl))
                                         (min 0xFF (unat (cc_max_rapdu_size (hl_ccs hl a)))))))
      else
        bindE (get_be16 (ndef_file_id (hl_ndef hl))) (\<lambda>fid.
        case t4t_file_assign hl fid of
          Inl e \<Rightarrow> if e = UB then Inl UB else Inr (hl, lk, [], Some e)
        | Inr hl \<Rightarrow>
            bindE (hl_notify hl hlcb_ndef_read (Hl_Ndef_Read fid (take (unat (ndef_nlen (hl_ndef hl)) + 2) buff))) (\<lambda>evs.
            Inr (hl, lk, evs, None))))"

lemma chunk_read_store:
  assumes rd: "reading a F hl" and d: "d = take (length d) (drop (unat (hl_file_offset hl)) F)" "d \<noteq> []"
  defines "resp \<equiv> \<lparr>resp_status = 0x9000, resp_data = \<lparr>apdu_len = of_nat (length d), apdu_buff = Some (d @ [0x90, 0x00])\<rparr>\<rparr>"
  obtains buff where "take (unat (hl_file_offset hl) + length d) buff = take (unat (hl_file_offset hl) + length d) F"
    "reading a F (stored hl buff d)"
    "unat (hl_file_offset hl + of_nat (length d)) = unat (hl_file_offset hl) + length d"
    "unat (hl_file_offset hl) + length d \<le> length F"
    "ndef_file_chunk_read env hl lk resp =
      after_store env (stored hl buff d) lk a buff"
proof -
  let ?o = "unat (hl_file_offset hl)"
  from rd obtain b where b: "ndef_buff (hl_ndef hl) = Some b" "length b = unat (ndef_buff_size (hl_ndef hl))" "take ?o b = take ?o F"
    by (auto simp: reading_def)
  have F: "length F \<le> length b" "?o \<le> length F" "ndef_cc (hl_ndef hl) = Some a" using rd b(2) by (auto simp: reading_def)
  have "length d \<le> length (drop ?o F)" using d(1) by (metis length_take min.cobounded1)
  then have le: "?o + length d \<le> length F" using F(2) by simp
  have lt: "length b < 65536" using b(2) unat_u16_lt [of "ndef_buff_size (hl_ndef hl)"] by simp
  have un: "unat (of_nat (length d) :: u16) = length d" using le F(1) lt by (simp add: unat_of_nat take_bit_eq_mod)
  have off: "unat (hl_file_offset hl + of_nat (length d)) = ?o + length d"
    using le F(1) lt un by (simp add: unat_word_ariths)
  define buff where "buff = take ?o b @ d @ drop (?o + length d) b"
  have tk: "take (?o + length d) buff = take (?o + length d) F"
    using b(3) F le d(1) take_add [of ?o "length d" F] by (simp add: buff_def)
  have lb: "length buff = length b" using le F by (simp add: buff_def)
  have "mem_write b ?o d = Inr buff" using le F(1) by (simp add: mem_write_def buff_def)
  moreover have "mem_read (Some (d @ [0x90, 0x00])) (length d) = Inr d" by (simp add: mem_read_block)
  moreover have "\<not> unat (ndef_buff_size (hl_ndef hl)) < ?o + length d" using le F(1) b(2) by simp
  ultimately have eq: "ndef_file_chunk_read env hl lk resp =
      after_store env (stored hl buff d) lk a buff"
    using b(1) F(3) by (simp add: ndef_file_chunk_read_def resp_def un read_cmd_def after_store_def stored_def Let_def)
  have rd': "reading a F (stored hl buff d)"
    using rd lb b(2) tk le by (simp add: reading_def stored_def off)
  show ?thesis using tk rd' off le eq by (rule that)
qed

definition same_read :: "t4t_hl_procedure \<Rightarrow> t4t_hl_procedure \<Rightarrow> bool" where
  "same_read hl hl' \<longleftrightarrow> ndef_nlen (hl_ndef hl') = ndef_nlen (hl_ndef hl) \<and> ndef_file_id (hl_ndef hl') = ndef_file_id (hl_ndef hl) \<and>
     hl_cb hl' = hl_cb hl \<and> hl_ccs hl' = hl_ccs hl"

abbreviation (input) ok_resp :: "u8 list \<Rightarrow> nfc_t4t_apdu_resp" where
  "ok_resp d \<equiv> \<lparr>resp_status = 0x9000, resp_data = \<lparr>apdu_len = of_nat (length d), apdu_buff = Some (d @ [0x90, 0x00])\<rparr>\<rparr>"

lemma chunk_read_more:
  assumes rd: "reading a F hl" and d: "d = take (length d) (drop (unat (hl_file_offset hl)) F)" "d \<noteq> []"
    and F: "length F = unat (ndef_nlen (hl_ndef hl)) + 2" "unat (hl_file_offset hl) + length d < length F" and rdy: "hl_ready env hl lk"
  obtains hl' lk' evs n where "ndef_file_chunk_read env hl lk (ok_resp d) = Inr (hl', lk', map Link evs, None)"
    "reading a F hl'" "same_read hl hl'" "hl_transaction_type hl' = NFC_T4T_HL_NDEF_READ"
    "unat (hl_file_offset hl') = unat (hl_file_offset hl) + length d"
    "0 < unat n" "unat n < 256" "unat (hl_file_offset hl') + unat n \<le> length F"
    "hl_pending lk' = apdu_bytes (read_cmd (hl_file_offset hl') n)"
proof -
  from rd d obtain buff where
    tk: "take (unat (hl_file_offset hl) + length d) buff = take (unat (hl_file_offset hl) + length d) F"
    and rd': "reading a F (stored hl buff d)"
    and off: "unat (hl_file_offset hl + of_nat (length d)) = unat (hl_file_offset hl) + length d"
    and eq: "ndef_file_chunk_read env hl lk (ok_resp d) =
      after_store env (stored hl buff d) lk a buff"
    by (rule chunk_read_store)
  let ?h = "hl\<lparr>hl_ndef := (hl_ndef hl)\<lparr>ndef_buff := Some buff\<rparr>, hl_file_offset := hl_file_offset hl + of_nat (length d),
      hl_transaction_type := NFC_T4T_HL_NDEF_READ\<rparr>"
  define n :: u16 where "n = of_nat (min (length F - (unat (hl_file_offset hl) + length d)) (min 0xFF (unat (cc_max_rapdu_size (hl_ccs hl a)))))"
  have m: "0 < unat (cc_max_rapdu_size (hl_ccs hl a))" "5 \<le> length (hl_apdu_buff hl)" "length (hl_apdu_buff hl) < 65536"
    using rd by (auto simp: reading_def word_less_nat_alt)
  have "unat n = min (length F - (unat (hl_file_offset hl) + length d)) (min 0xFF (unat (cc_max_rapdu_size (hl_ccs hl a))))"
    unfolding n_def by (simp add: unat_of_nat take_bit_eq_mod)
  then have n: "0 < unat n" "unat n < 256" "unat (hl_file_offset hl) + length d + unat n \<le> length F"
    using m(1) F(2) by auto
  have "length (apdu_bytes (read_cmd (hl_file_offset ?h) n)) \<le> length (hl_apdu_buff ?h)" "length (hl_apdu_buff ?h) < 65536" "hl_ready env ?h lk"
    using read_cmd_facts(2) [OF n(1,2)] m rdy by (auto simp: hl_ready_def)
  from data_exchange_ok [OF read_cmd_facts(1) [OF n(1,2)] this] obtain mem lk' evs where
    ex: "t4t_hl_data_exchange env ?h lk (read_cmd (hl_file_offset ?h) n) = Inr (?h\<lparr>hl_apdu_buff := mem\<rparr>, lk', map Link evs, None)"
      "length mem = length (hl_apdu_buff hl)" "hl_pending lk' = apdu_bytes (read_cmd (hl_file_offset ?h) n)" by auto
  have "ndef_file_chunk_read env hl lk (ok_resp d) = t4t_hl_data_exchange env ?h lk (read_cmd (hl_file_offset ?h) n)"
    using F off by (simp add: eq after_store_def stored_def n_def)
  moreover have "reading a F (?h\<lparr>hl_apdu_buff := mem\<rparr>)" using rd' ex(2) by (simp add: reading_def stored_def)
  ultimately show ?thesis
    using ex n off by (intro that [of "?h\<lparr>hl_apdu_buff := mem\<rparr>" lk' evs n]) (simp_all add: same_read_def)
qed

lemma chunk_read_done:
  assumes rd: "reading a F hl" and d: "d = take (length d) (drop (unat (hl_file_offset hl)) F)" "d \<noteq> []"
    and F: "length F = unat (ndef_nlen (hl_ndef hl)) + 2" "unat (hl_file_offset hl) + length d = length F"
    and fid: "ndef_file_id (hl_ndef hl) = put_be16 fid" "nfc_t4t_cc_file_content_get (hl_ccs hl a) fid = Inr (Some i)"
    and cb: "hl_cb hl = Some cb" "hlcb_ndef_read cb"
  obtains hl' buff where "ndef_file_chunk_read env hl lk (ok_resp d) = Inr (hl', lk, [Hl_Ndef_Read fid F], None)"
    "ndef_buff (hl_ndef hl') = Some buff" "take (length F) buff = F"
proof -
  from rd d obtain buff where
    tk: "take (unat (hl_file_offset hl) + length d) buff = take (unat (hl_file_offset hl) + length d) F"
    and rd': "reading a F (stored hl buff d)"
    and off: "unat (hl_file_offset hl + of_nat (length d)) = unat (hl_file_offset hl) + length d"
    and eq: "ndef_file_chunk_read env hl lk (ok_resp d) =
      after_store env (stored hl buff d) lk a buff"
    by (rule chunk_read_store)
  have a: "ndef_cc (hl_ndef hl) = Some a" using rd by (simp add: reading_def)
  have g: "get_be16 (put_be16 fid) = Inr fid" using get_put_be16 [of fid "[]"] by simp
  have tF: "take (Suc (Suc (unat (ndef_nlen (hl_ndef hl))))) buff = F" using tk F by simp
  have "\<exists>cc. ndef_file_chunk_read env hl lk (ok_resp d) =
      Inr (hl\<lparr>hl_ndef := (hl_ndef hl)\<lparr>ndef_buff := Some buff\<rparr>, hl_file_offset := hl_file_offset hl + of_nat (length d), hl_ccs := cc\<rparr>,
           lk, [Hl_Ndef_Read fid F], None)"
    using F off fid a cb tF
    by (simp add: eq after_store_def stored_def g t4t_file_assign_def nfc_t4t_cc_file_content_set_def hl_notify_def) blast
  then show ?thesis using that tk F(2) by auto
qed

lemma read_rounds:
  assumes "reading a F hl" "\<And>h. hl_ready env h (link h)" "length F = unat (ndef_nlen (hl_ndef hl)) + 2"
    and "hl_transaction_type hl = NFC_T4T_HL_NDEF_READ"
    and "tag_respond fl cmd = (fl, d @ [0x90, 0x00])" "d = take (length d) (drop (unat (hl_file_offset hl)) F)" "d \<noteq> []" "fl = F @ rest"
    and "ndef_file_id (hl_ndef hl) = put_be16 fid" "nfc_t4t_cc_file_content_get (hl_ccs hl a) fid = Inr (Some i)"
    and "hl_cb hl = Some cb" "hlcb_ndef_read cb" "2 \<le> unat (hl_file_offset hl)"
  shows "\<exists>n hl' buff. n \<le> length F - unat (hl_file_offset hl) \<and> hl_rounds env link n fl hl cmd = Inr (fl, hl', [Hl_Ndef_Read fid F]) \<and>
     ndef_buff (hl_ndef hl') = Some buff \<and> take (length F) buff = F"
  using assms
proof (induction "length F - unat (hl_file_offset hl)" arbitrary: hl cmd d rule: less_induct)
  case less
  let ?o = "unat (hl_file_offset hl)"
  have ld: "length d \<le> length F - ?o" "0 < length d" using less.prems(6,7) by (metis length_drop length_take min.cobounded1, simp)
  have "length d + 2 < 65536"
  proof -
    have "length F < 65536"
      using less.prems(1) unat_u16_lt [of "ndef_buff_size (hl_ndef hl)"] by (simp add: reading_def)
    then show ?thesis using ld(1) less.prems(13) by linarith
  qed
  note lt = this
  have on: "on_rapdu_succes env hl (link hl) r = ndef_file_chunk_read env hl (link hl) r" for r
    using less.prems(4) by (simp add: on_rapdu_succes_def)
  show ?case
  proof (cases "?o + length d < length F")
    case False
    then have e: "?o + length d = length F" using ld by linarith
    obtain hl' buff where c: "ndef_file_chunk_read env hl (link hl) (ok_resp d) = Inr (hl', link hl, [Hl_Ndef_Read fid F], None)"
        "ndef_buff (hl_ndef hl') = Some buff" "take (length F) buff = F"
      using less.prems(1,6,7,3) e less.prems(9-12) by (rule chunk_read_done)
    have "hl_rounds env link (Suc 0) fl hl cmd = Inr (fl, hl', [Hl_Ndef_Read fid F])"
      using round_step [OF less.prems(5) lt, of env hl link hl' "link hl" "[Hl_Ndef_Read fid F]" 0] less.prems(7) c(1)
      by (simp add: on is_link_def del: hl_rounds.simps(2))
    moreover have "Suc 0 \<le> length F - ?o" using ld by linarith
    ultimately show ?thesis using c(2,3) by (intro exI conjI)
  next
    case True
    obtain hl' lk' evs n where st: "ndef_file_chunk_read env hl (link hl) (ok_resp d) = Inr (hl', lk', map Link evs, None)"
      and h: "reading a F hl'" "same_read hl hl'" "hl_transaction_type hl' = NFC_T4T_HL_NDEF_READ" "unat (hl_file_offset hl') = ?o + length d"
      and n: "0 < unat n" "unat n < 256" "unat (hl_file_offset hl') + unat n \<le> length F"
      and p: "hl_pending lk' = apdu_bytes (read_cmd (hl_file_offset hl') n)"
      using less.prems(1,6,7,3) True less.prems(2) [of hl] by (rule chunk_read_more)
    have step: "hl_rounds env link (Suc k) fl hl cmd = hl_rounds env link k fl hl' (hl_pending lk')" for k
      using round_step [OF less.prems(5) lt, of env hl link hl' lk' "map Link evs" k] st less.prems(7)
      by (simp add: on bindE_triple del: hl_rounds.simps(2))
    let ?d = "take (unat n) (drop (unat (hl_file_offset hl')) F)"
    have tg: "tag_respond fl (hl_pending lk') = (fl, ?d @ [0x90, 0x00])"
      using read_cmd_facts(3) [OF n(1,2), of fl "hl_file_offset hl'"] n(3) less.prems(8) by (simp add: p)
    have d': "?d = take (length ?d) (drop (unat (hl_file_offset hl')) F)" "?d \<noteq> []" using n by auto
    have "length F - unat (hl_file_offset hl') < length F - ?o" using h(4) ld True by linarith
    from less.hyps [OF this h(1) less.prems(2) _ h(3) tg d' less.prems(8)]
    have "\<exists>m hl'' buff. m \<le> length F - unat (hl_file_offset hl') \<and> hl_rounds env link m fl hl' (hl_pending lk') = Inr (fl, hl'', [Hl_Ndef_Read fid F]) \<and>
       ndef_buff (hl_ndef hl'') = Some buff \<and> take (length F) buff = F"
      using h(2,4) less.prems(3,9-13) by (simp add: same_read_def del: hl_rounds.simps)
    then obtain m h' buff where m: "m \<le> length F - unat (hl_file_offset hl')"
        "hl_rounds env link m fl hl' (hl_pending lk') = Inr (fl, h', [Hl_Ndef_Read fid F])"
        "ndef_buff (hl_ndef h') = Some buff" "take (length F) buff = F" by blast
    have "Suc m \<le> length F - ?o" using m(1) h(4) ld True by linarith
    moreover have "hl_rounds env link (Suc m) fl hl cmd = Inr (fl, h', [Hl_Ndef_Read fid F])" using step [of m] m(2) by (simp only:)
    ultimately show ?thesis using m(3,4) by (intro exI conjI)
  qed
qed

text \<open>The rounds of a read from the state in which the length field has been asked for.\<close>

lemma nlen_read_rounds:
  assumes F: "fl = F @ rest" "F = put_be16 nlen @ msg" "length F = unat nlen + 2"
    and g: "hl_transaction_type g = NFC_T4T_HL_NDEF_NLEN_READ" "hl_file_offset g = 0"
    and rd: "reading a F (g\<lparr>hl_ndef := (hl_ndef g)\<lparr>ndef_nlen := nlen\<rparr>\<rparr>)"
    and tg: "tag_respond fl cmd = (fl, put_be16 nlen @ [0x90, 0x00])"
    and fid: "ndef_file_id (hl_ndef g) = put_be16 fid" "nfc_t4t_cc_file_content_get (hl_ccs g a) fid = Inr (Some i)"
    and cb: "hl_cb g = Some cb" "hlcb_ndef_read cb" and link: "\<And>h. hl_ready env h (link h)"
  shows "\<exists>n hl' buff. n \<le> length F \<and> hl_rounds env link n fl g cmd = Inr (fl, hl', [Hl_Ndef_Read fid F]) \<and>
     ndef_buff (hl_ndef hl') = Some buff \<and> take (length F) buff = F"
proof -
  let ?k = "g\<lparr>hl_ndef := (hl_ndef g)\<lparr>ndef_nlen := nlen\<rparr>\<rparr>" let ?d = "put_be16 nlen"
  have d: "?d = take (length ?d) (drop (unat (hl_file_offset ?k)) F)" "?d \<noteq> []" using F(2) g(2) by (simp_all add: put_be16_def)
  have Fk: "length F = unat (ndef_nlen (hl_ndef ?k)) + 2" using F(3) by simp
  have on: "on_rapdu_succes env g lk' (ok_resp ?d) = ndef_file_chunk_read env ?k lk' (ok_resp ?d)" for lk'
    using get_put_be16 [of nlen "[0x90, 0x00]"] g(1) by (simp add: on_rapdu_succes_def on_ndef_nlen_read_def)
  have rdy: "hl_ready env ?k (link g)" using link [of g] by (simp add: hl_ready_def)
  have rs: "hl_rounds env link (Suc k) fl g cmd =
      bindE (hl_rounds env link k fl hl' (hl_pending lk')) (\<lambda>(f, h, evs'). Inr (f, h, filter (\<lambda>e. \<not> is_link e) es @ evs'))"
    if "ndef_file_chunk_read env ?k (link g) (ok_resp ?d) = Inr (hl', lk', es, None)" for k hl' lk' es
    using round_step [OF tg, of env g link hl' lk' es k] that on [of "link g"] d(2) by (simp del: hl_rounds.simps)
  show ?thesis
  proof (cases "nlen = 0")
    case True
    then have "unat (hl_file_offset ?k) + length ?d = length F" using F(3) g(2) by simp
    with rd d Fk obtain hl' b where c: "ndef_file_chunk_read env ?k (link g) (ok_resp ?d) = Inr (hl', link g, [Hl_Ndef_Read fid F], None)"
        "ndef_buff (hl_ndef hl') = Some b" "take (length F) b = F"
      by (rule chunk_read_done [where fid = fid and i = i and cb = cb]) (use fid cb in simp_all)
    have "hl_rounds env link (Suc 0) fl g cmd = Inr (fl, hl', [Hl_Ndef_Read fid F])"
      using rs [OF c(1), of 0] by (simp add: is_link_def del: hl_rounds.simps(2))
    moreover have "Suc 0 \<le> length F" using F(3) by simp
    ultimately show ?thesis using c(2,3) by (intro exI conjI)
  next
    case False
    then have lt: "unat (hl_file_offset ?k) + length ?d < length F" using F(3) g(2) by (simp add: unat_gt_0)
    from rd d Fk lt rdy obtain hl' lk' evs' n where
      st: "ndef_file_chunk_read env ?k (link g) (ok_resp ?d) = Inr (hl', lk', map Link evs', None)"
      and h: "reading a F hl'" "same_read ?k hl'" "hl_transaction_type hl' = NFC_T4T_HL_NDEF_READ"
        "unat (hl_file_offset hl') = unat (hl_file_offset ?k) + length ?d"
      and n: "0 < unat n" "unat n < 256" "unat (hl_file_offset hl') + unat n \<le> length F"
      and p: "hl_pending lk' = apdu_bytes (read_cmd (hl_file_offset hl') n)"
      by (rule chunk_read_more)
    let ?e = "take (unat n) (drop (unat (hl_file_offset hl')) F)"
    have e: "?e = take (length ?e) (drop (unat (hl_file_offset hl')) F)" "?e \<noteq> []" using n by auto
    have tg': "tag_respond fl (hl_pending lk') = (fl, ?e @ [0x90, 0x00])"
      using read_cmd_facts(3) [OF n(1,2), of fl "hl_file_offset hl'"] n(3) F(1) by (simp add: p)
    have "\<exists>m hl'' buff. m \<le> length F - unat (hl_file_offset hl') \<and> hl_rounds env link m fl hl' (hl_pending lk') = Inr (fl, hl'', [Hl_Ndef_Read fid F]) \<and>
       ndef_buff (hl_ndef hl'') = Some buff \<and> take (length F) buff = F"
      by (rule read_rounds [OF h(1) link _ h(3) tg' e F(1), where i = i and cb = cb])
        (use h(2,4) F(3) fid cb in \<open>simp_all add: same_read_def\<close>)
    then obtain m hl'' b where m: "m \<le> length F - unat (hl_file_offset hl')"
        "hl_rounds env link m fl hl' (hl_pending lk') = Inr (fl, hl'', [Hl_Ndef_Read fid F])"
        "ndef_buff (hl_ndef hl'') = Some b" "take (length F) b = F" by blast
    have "Suc m \<le> length F" using m(1) h(4) F(3) by simp
    moreover have "hl_rounds env link (Suc m) fl g cmd = Inr (fl, hl'', [Hl_Ndef_Read fid F])"
      using rs [OF st, of m] m(2) by (simp del: hl_rounds.simps(2))
    ultimately show ?thesis using m(3,4) by (intro exI conjI)
  qed
qed

text \<open>C35: reading the NDEF file of a tag. When the user's buffer can hold the file and the CC describes it, the
  procedure ends after a bounded number of commands with the read callback, which gets exactly the NDEF part of the tag's file
  (the length field and as many bytes as it says); the same bytes are in the user's buffer.\<close>

theorem hl_ndef_read_reads:
  assumes "fl = F @ rest" "F = put_be16 nlen @ msg" "length msg = unat nlen" "length F \<le> unat ndef_len" "length buff = unat ndef_len"
    and "ndef_file_id (hl_ndef hl) = put_be16 fid" "nfc_t4t_cc_file_content_get (hl_ccs hl a) fid = Inr (Some i)"
    and "0 < cc_max_rapdu_size (hl_ccs hl a)" "5 \<le> length (hl_apdu_buff hl)" "length (hl_apdu_buff hl) < 65536"
    and "hl_cb hl = Some cb" "hlcb_ndef_read cb" "\<And>h. hl_ready env h (link h)"
  shows "\<exists>hl' lk evs n. nfc_t4t_hl_procedure_ndef_read env hl (link hl) (Some a) (Some buff) ndef_len = Inr (hl', lk, map Link evs, None) \<and>
     n \<le> length F \<and>
     (\<exists>hl'' buff'. hl_rounds env link n fl hl' (hl_pending lk) = Inr (fl, hl'', [Hl_Ndef_Read fid F]) \<and>
        ndef_buff (hl_ndef hl'') = Some buff' \<and> take (length F) buff' = F)"
proof -
  let ?h = "hl\<lparr>hl_file_offset := 0, hl_ndef := (hl_ndef hl)\<lparr>ndef_buff := Some buff, ndef_buff_size := ndef_len, ndef_cc := Some a\<rparr>,
      hl_transaction_type := NFC_T4T_HL_NDEF_NLEN_READ\<rparr>"
  have lF: "length F = unat nlen + 2" using assms(2,3) by simp
  then have pos: "ndef_len \<noteq> 0" using assms(4) by auto
  have n2: "0 < unat (2 :: u16)" "unat (2 :: u16) < 256" by simp_all
  have "length (apdu_bytes (read_cmd 0 2)) \<le> length (hl_apdu_buff ?h)" "length (hl_apdu_buff ?h) < 65536" "hl_ready env ?h (link hl)"
    using read_cmd_facts(2) [OF n2, of 0] assms(9,10) assms(13) [of hl] by (auto simp: hl_ready_def)
  from data_exchange_ok [OF read_cmd_facts(1) [OF n2] this] obtain mem lk evs where
    ex: "t4t_hl_data_exchange env ?h (link hl) (read_cmd 0 2) = Inr (?h\<lparr>hl_apdu_buff := mem\<rparr>, lk, map Link evs, None)"
      "length mem = length (hl_apdu_buff hl)" "hl_pending lk = apdu_bytes (read_cmd 0 2)" by auto
  let ?g = "?h\<lparr>hl_apdu_buff := mem\<rparr>"
  have start: "nfc_t4t_hl_procedure_ndef_read env hl (link hl) (Some a) (Some buff) ndef_len = Inr (?g, lk, map Link evs, None)"
    using ex(1) pos by (simp add: nfc_t4t_hl_procedure_ndef_read_def read_cmd_def Let_def)
  have rd: "reading a F (?g\<lparr>hl_ndef := (hl_ndef ?g)\<lparr>ndef_nlen := nlen\<rparr>\<rparr>)"
    using assms(4,5,8-10) ex(2) by (simp add: reading_def)
  have tg: "tag_respond fl (hl_pending lk) = (fl, put_be16 nlen @ [0x90, 0x00])"
    using read_cmd_facts(3) [OF n2, of fl 0] assms(1,2) by (simp add: ex(3) put_be16_def)
  have "\<exists>n hl' b. n \<le> length F \<and> hl_rounds env link n fl ?g (hl_pending lk) = Inr (fl, hl', [Hl_Ndef_Read fid F]) \<and>
     ndef_buff (hl_ndef hl') = Some b \<and> take (length F) b = F"
    by (rule nlen_read_rounds [OF assms(1,2) lF _ _ rd tg]) (use assms(6,7,11-13) in simp_all)
  then show ?thesis using start by blast
qed

section \<open>Concrete instances\<close>

definition demo_cc :: nfc_t4t_cc_file where
  "demo_cc = \<lparr>cc_tlv_block_array = Some [\<lparr>tlv_value = \<lparr>tlv_file = \<lparr>file_content = None, file_len = 0\<rparr>, max_file_size = 1024,
       file_id = 0xE104, read_access = 0, write_access = 0\<rparr>, tlv_length = 6, tlv_type = 4\<rparr>],
     cc_tlv_count = 1, cc_max_tlv_blocks = 1, cc_len = 15, cc_max_rapdu_size = 255, cc_max_capdu_size = 255,
     cc_major_version = 2, cc_minor_version = 0\<rparr>"

definition demo_hl :: t4t_hl_procedure where
  "demo_hl = \<lparr>hl_cc_file = \<lparr>hlcc_cc = None, hlcc_len = 0, hlcc_data = replicate 64 0\<rparr>,
     hl_ndef = \<lparr>ndef_cc = None, ndef_buff = None, ndef_buff_size = 0, ndef_nlen = 0, ndef_file_id = [0xE1, 0x04]\<rparr>,
     hl_transaction_type = NFC_T4T_HL_SELECT, hl_select_type = NFC_T4T_HL_PROCEDURE_NDEF_FILE_SELECT, hl_file_offset = 0,
     hl_apdu_buff = replicate 255 0,
     hl_cb = Some \<lparr>hlcb_selected = True, hlcb_cc_read = True, hlcb_ndef_read = True, hlcb_ndef_updated = True\<rparr>,
     hl_ccs = (\<lambda>_. demo_cc)\<rparr>"

lemma demo_ready: "hl_ready (100, \<lambda>_. None) h demo_sel"
proof -
  have "iso_transmit_data demo_sel = None" by code_simp
  then show ?thesis using isodep_reach_inv [OF demo_sel_reach] demo_sel_facts(1) by (simp add: hl_ready_def)
qed

lemma demo_request:
  assumes "length D = unat n" "2 \<le> length D" "take 2 D = put_be16 (n - 2)" "length D \<le> 1024"
  shows "update_request demo_hl 0 0xE104 D n"
proof -
  have "nfc_t4t_cc_file_content_get demo_cc 0xE104 = Inr (Some 0)" by code_simp
  then show ?thesis
    using assms by (simp add: update_request_def demo_hl_def put_be16_def word_le_nat_alt) (simp add: demo_cc_def)
qed

theorem hl_ndef_update_writes_witness:
  "\<exists>hl' lk evs n. nfc_t4t_hl_procedure_ndef_update (100, \<lambda>_. None) demo_hl demo_sel (Some 0) (Some [0, 3, 1, 2, 3]) 5 = Inr (hl', lk, map Link evs, None) \<and>
     (\<exists>hl''. hl_rounds (100, \<lambda>_. None) (\<lambda>_. demo_sel) n (replicate 6 9) hl' (hl_pending lk) = Inr ([0, 3, 1, 2, 3, 9], hl'', [Hl_Ndef_Updated 0xE104]))"
proof -
  have "update_request demo_hl 0 0xE104 [0, 3, 1, 2, 3] 5" by (rule demo_request) (simp_all add: put_be16_def)
  from hl_ndef_update_writes [OF this, of "(100, \<lambda>_. None)" "\<lambda>_. demo_sel" "replicate 6 9"] demo_ready show ?thesis
    by (fastforce simp: demo_hl_def demo_cc_def simp del: hl_rounds.simps)
qed

theorem hl_ndef_update_large_fails_witness:
  "\<exists>hl' lk evs. nfc_t4t_hl_procedure_ndef_update (100, \<lambda>_. None) demo_hl demo_sel (Some 0) (Some ([1, 0x2C] @ replicate 300 7)) 302 = Inr (hl', lk, map Link evs, None) \<and>
     hl_rounds (100, \<lambda>_. None) (\<lambda>_. demo_sel) 1 (replicate 1024 9) hl' (hl_pending lk) = Inl ENOMEM \<and>
     take 2 (fst (tag_respond (replicate 1024 9) (hl_pending lk))) = [0, 0]"
proof -
  have "update_request demo_hl 0 0xE104 ([1, 0x2C] @ replicate 300 7) 302" by (rule demo_request) (simp_all add: put_be16_def)
  then show ?thesis
    by (rule hl_ndef_update_large_fails) (use demo_ready in \<open>simp_all add: demo_hl_def demo_cc_def\<close>)
qed

theorem hl_ndef_read_reads_witness:
  "\<exists>hl' lk evs n. nfc_t4t_hl_procedure_ndef_read (100, \<lambda>_. None) demo_hl demo_sel (Some 0) (Some (replicate 8 0)) 8 = Inr (hl', lk, map Link evs, None) \<and>
     (\<exists>hl'' buff'. hl_rounds (100, \<lambda>_. None) (\<lambda>_. demo_sel) n [0, 3, 1, 2, 3, 9] hl' (hl_pending lk) =
        Inr ([0, 3, 1, 2, 3, 9], hl'', [Hl_Ndef_Read 0xE104 [0, 3, 1, 2, 3]]))"
proof -
  have "nfc_t4t_cc_file_content_get demo_cc 0xE104 = Inr (Some 0)" by code_simp
  then have "\<exists>hl' lk evs n. nfc_t4t_hl_procedure_ndef_read (100, \<lambda>_. None) demo_hl demo_sel (Some 0) (Some (replicate 8 0)) 8 = Inr (hl', lk, map Link evs, None) \<and>
     n \<le> length [0, 3, 1, 2, 3 :: u8] \<and>
     (\<exists>hl'' buff'. hl_rounds (100, \<lambda>_. None) (\<lambda>_. demo_sel) n [0, 3, 1, 2, 3, 9] hl' (hl_pending lk) =
        Inr ([0, 3, 1, 2, 3, 9], hl'', [Hl_Ndef_Read 0xE104 [0, 3, 1, 2, 3]]) \<and>
        ndef_buff (hl_ndef hl'') = Some buff' \<and> take (length [0, 3, 1, 2, 3 :: u8]) buff' = [0, 3, 1, 2, 3])"
    by (intro hl_ndef_read_reads [where rest = "[9]" and nlen = 3 and msg = "[1, 2, 3]" and i = 0
          and cb = "\<lparr>hlcb_selected = True, hlcb_cc_read = True, hlcb_ndef_read = True, hlcb_ndef_updated = True\<rparr>"])
      (use demo_ready in \<open>simp_all add: demo_hl_def demo_cc_def put_be16_def\<close>)
  then show ?thesis by blast
qed

end
