(* ===== verification/T2t_Parser.thy ===== *)
theory T2t_Parser
  imports Nfc_Prelude
begin

text \<open>
  The parser of Type 2 Tag memory images (\<open>subsys/nfc/t2t/parser.c\<close>, \<open>include/nfc/t2t/parser.h\<close>,
  \<open>include/nfc/t2t/tlv_block.h\<close>): serial number, lock bytes, Capability Container and the TLV blocks of the data area.

  The functions return the changed descriptor together with the error (\<open>None\<close> for 0), because a
  descriptor whose parsing stopped early still holds the blocks found so far. Offsets are \<open>uint16_t\<close>; the
  sums of the range check are computed as \<open>int\<close> and do not wrap.
\<close>

section \<open>Data\<close>

abbreviation (input) NFC_T2T_TLV_NULL :: u8 where "NFC_T2T_TLV_NULL \<equiv> 0x00"
abbreviation (input) NFC_T2T_TLV_LOCK_CONTROL :: u8 where "NFC_T2T_TLV_LOCK_CONTROL \<equiv> 0x01"
abbreviation (input) NFC_T2T_TLV_MEMORY_CONTROL :: u8 where "NFC_T2T_TLV_MEMORY_CONTROL \<equiv> 0x02"
abbreviation (input) NFC_T2T_TLV_TERMINATOR :: u8 where "NFC_T2T_TLV_TERMINATOR \<equiv> 0xFE"

record nfc_t2t_tlv_block =
  t2_tag :: u8
  t2_length :: u16
  t2_value :: ptr

record nfc_t2t_sn =
  manufacturer_id :: u8
  serial_number_part_1 :: u16
  serial_number_part_2 :: u32
  check_byte_0 :: u8
  check_byte_1 :: u8
  sn_internal :: u8

record nfc_t2t_cc =
  t2cc_major_version :: u8
  t2cc_minor_version :: u8
  data_area_size :: u16
  t2cc_read_access :: u8
  t2cc_write_access :: u8

record nfc_t2t =
  t2_sn :: nfc_t2t_sn
  t2_lock_bytes :: u16
  t2_cc :: nfc_t2t_cc
  t2_max_tlv_blocks :: u16
  t2_tlv_block_array :: "nfc_t2t_tlv_block list"
  t2_tlv_count :: u16

section \<open>Operations\<close>

definition nfc_t2t_tlv_block_insert :: "nfc_t2t \<Rightarrow> nfc_t2t_tlv_block \<Rightarrow> nfc_t2t res" where
  "nfc_t2t_tlv_block_insert t b =
     (if t2_tlv_count t = t2_max_tlv_blocks t then Inl ENOMEM
      else if unat (t2_tlv_count t) < length (t2_tlv_block_array t)
      then Inr (t\<lparr>t2_tlv_block_array := (t2_tlv_block_array t)[unat (t2_tlv_count t) := b], t2_tlv_count := t2_tlv_count t + 1\<rparr>)
      else Inl UB)"

definition tlv_block_is_data_length_correct :: "nfc_t2t_tlv_block \<Rightarrow> bool" where
  "tlv_block_is_data_length_correct b =
     (if t2_tag b = NFC_T2T_TLV_NULL \<or> t2_tag b = NFC_T2T_TLV_TERMINATOR then t2_length b = 0
      else if t2_tag b = NFC_T2T_TLV_LOCK_CONTROL \<or> t2_tag b = NFC_T2T_TLV_MEMORY_CONTROL then t2_length b = 3
      else True)"

definition nfc_t2t_is_end_reached :: "nfc_t2t \<Rightarrow> u16 \<Rightarrow> bool" where
  "nfc_t2t_is_end_reached t offset \<longleftrightarrow> unat offset = unat (data_area_size (t2_cc t)) + 16"

definition nfc_t2t_is_version_supported :: "nfc_t2t \<Rightarrow> bool" where
  "nfc_t2t_is_version_supported t \<longleftrightarrow> t2cc_major_version (t2_cc t) = 1"

definition nfc_t2t_is_field_within_data_range :: "nfc_t2t \<Rightarrow> u16 \<Rightarrow> u16 \<Rightarrow> bool" where
  "nfc_t2t_is_field_within_data_range t offset field_length \<longleftrightarrow>
     (if field_length = 0 then False
      else unat offset + unat field_length - 1 < unat (data_area_size (t2_cc t)) + 16 \<and> offset \<ge> 16)"

definition nfc_t2t_type_extract :: "nfc_t2t \<Rightarrow> u8 list \<Rightarrow> u16 \<Rightarrow> nfc_t2t_tlv_block \<Rightarrow> (nfc_t2t_tlv_block \<times> u16) res" where
  "nfc_t2t_type_extract t raw off b =
     (if \<not> nfc_t2t_is_field_within_data_range t off 1 then Inl EINVAL
      else bindE (mem_byte raw (unat off)) (\<lambda>v. Inr (b\<lparr>t2_tag := v\<rparr>, off + 1)))"

definition nfc_t2t_length_extract :: "nfc_t2t \<Rightarrow> u8 list \<Rightarrow> u16 \<Rightarrow> nfc_t2t_tlv_block \<Rightarrow> (nfc_t2t_tlv_block \<times> u16) res" where
  "nfc_t2t_length_extract t raw off b =
     (if \<not> nfc_t2t_is_field_within_data_range t off 1 then Inl EINVAL
      else bindE (mem_byte raw (unat off)) (\<lambda>len.
        if len = 0xFF then
          if \<not> nfc_t2t_is_field_within_data_range t off 3 then Inl EINVAL
          else bindE (get_be16 (drop (unat off + 1) raw)) (\<lambda>len.
               if len < 0xFF then Inl EINVAL else Inr (b\<lparr>t2_length := len\<rparr>, off + 3))
        else Inr (b\<lparr>t2_length := ucast len\<rparr>, off + 1)))"

definition nfc_t2t_value_ptr_extract :: "nfc_t2t \<Rightarrow> u8 list \<Rightarrow> u16 \<Rightarrow> nfc_t2t_tlv_block \<Rightarrow> (nfc_t2t_tlv_block \<times> u16) res" where
  "nfc_t2t_value_ptr_extract t raw off b =
     (if t2_length b = 0 then Inr (b\<lparr>t2_value := None\<rparr>, off)
      else if \<not> nfc_t2t_is_field_within_data_range t off (t2_length b) then Inl EINVAL
      else Inr (b\<lparr>t2_value := Some (drop (unat off) raw)\<rparr>, off + t2_length b))"

definition nfc_t2t_tlv_block_extract :: "nfc_t2t \<Rightarrow> u8 list \<Rightarrow> u16 \<Rightarrow> (nfc_t2t_tlv_block \<times> u16) res" where
  "nfc_t2t_tlv_block_extract t raw off =
     bindE (nfc_t2t_type_extract t raw off \<lparr>t2_tag = 0, t2_length = 0, t2_value = None\<rparr>) (\<lambda>(b, off).
     if t2_tag b = NFC_T2T_TLV_NULL then Inr (b, off)
     else if t2_tag b = NFC_T2T_TLV_TERMINATOR then Inr (b, 0)
     else bindE (nfc_t2t_length_extract t raw off b) (\<lambda>(b, off).
          if t2_length b > 0 then nfc_t2t_value_ptr_extract t raw off b else Inr (b, off)))"

definition nfc_t2t_is_bcc_correct :: "nfc_t2t_sn \<Rightarrow> bool" where
  "nfc_t2t_is_bcc_correct sn =
     (let bcc1 = ((0x88 XOR manufacturer_id sn) XOR ucast (drop_bit 8 (serial_number_part_1 sn) AND 0xFF)) XOR
            ucast (serial_number_part_1 sn AND 0xFF);
          bcc2 = ((ucast (drop_bit 24 (serial_number_part_2 sn) AND 0xFF) XOR ucast (drop_bit 16 (serial_number_part_2 sn) AND 0xFF)) XOR
            ucast (drop_bit 8 (serial_number_part_2 sn) AND 0xFF)) XOR ucast (serial_number_part_2 sn AND 0xFF)
      in bcc1 = check_byte_0 sn \<and> bcc2 = check_byte_1 sn)"

text \<open>A wrong check character is only logged.\<close>

definition nfc_t2t_internal_parse :: "nfc_t2t \<Rightarrow> u8 list \<Rightarrow> nfc_t2t res" where
  "nfc_t2t_internal_parse t raw =
     bindE (mem_byte raw 0) (\<lambda>m.
     bindE (get_be16 (drop 1 raw)) (\<lambda>s1.
     bindE (mem_byte raw 3) (\<lambda>c0.
     bindE (get_be32 (drop 4 raw)) (\<lambda>s2.
     bindE (mem_byte raw 8) (\<lambda>c1.
     bindE (mem_byte raw 9) (\<lambda>i.
     bindE (get_be16 (drop 10 raw)) (\<lambda>lk.
     Inr (t\<lparr>t2_sn := \<lparr>manufacturer_id = m, serial_number_part_1 = s1, serial_number_part_2 = s2, check_byte_0 = c0,
                       check_byte_1 = c1, sn_internal = i\<rparr>, t2_lock_bytes := lk\<rparr>))))))))"

definition nfc_t2t_cc_parse :: "nfc_t2t \<Rightarrow> u8 list \<Rightarrow> nfc_t2t res" where
  "nfc_t2t_cc_parse t raw =
     bindE (mem_byte raw 12) (\<lambda>c0.
     if c0 \<noteq> 0xE1 then Inl EINVAL
     else bindE (mem_byte raw 13) (\<lambda>c1.
       bindE (mem_byte raw 14) (\<lambda>c2.
       bindE (mem_byte raw 15) (\<lambda>c3.
       Inr (t\<lparr>t2_cc := \<lparr>t2cc_major_version = drop_bit 4 c1 AND 0x0F, t2cc_minor_version = c1 AND 0x0F,
                        data_area_size = ucast c2 * 8, t2cc_read_access = drop_bit 4 c3 AND 0x0F,
                        t2cc_write_access = c3 AND 0x0F\<rparr>\<rparr>)))))"

definition nfc_t2t_tlv_parse :: "nfc_t2t \<Rightarrow> u8 list \<Rightarrow> u16 \<Rightarrow> (nfc_t2t \<times> u16) res" where
  "nfc_t2t_tlv_parse t raw off =
     bindE (nfc_t2t_tlv_block_extract t raw off) (\<lambda>(b, off).
     if \<not> tlv_block_is_data_length_correct b then Inl EINVAL
     else if t2_tag b = NFC_T2T_TLV_NULL \<or> t2_tag b = NFC_T2T_TLV_TERMINATOR then Inr (t, off)
     else bindE (nfc_t2t_tlv_block_insert t b) (\<lambda>t. Inr (t, off)))"

definition nfc_t2t_clear :: "nfc_t2t \<Rightarrow> nfc_t2t" where
  "nfc_t2t_clear t = t\<lparr>t2_tlv_count := 0,
     t2_cc := \<lparr>t2cc_major_version = 0, t2cc_minor_version = 0, data_area_size = 0, t2cc_read_access = 0, t2cc_write_access = 0\<rparr>,
     t2_sn := \<lparr>manufacturer_id = 0, serial_number_part_1 = 0, serial_number_part_2 = 0, check_byte_0 = 0, check_byte_1 = 0,
               sn_internal = 0\<rparr>\<rparr>"

section \<open>Progress of the loop\<close>

definition area_end :: "nfc_t2t \<Rightarrow> nat" where
  "area_end t = unat (data_area_size (t2_cc t)) + 16"

lemma field_within:
  "nfc_t2t_is_field_within_data_range t off n \<longleftrightarrow> 0 < unat n \<and> 16 \<le> unat off \<and> unat off + unat n \<le> area_end t"
  by (auto simp: nfc_t2t_is_field_within_data_range_def area_end_def word_le_nat_alt unat_gt_0)

text \<open>Advancing within the data area moves forward, or wraps around to an offset before it, where nothing is accepted.\<close>

definition ahead :: "nfc_t2t \<Rightarrow> u16 \<Rightarrow> u16 \<Rightarrow> bool" where
  "ahead t off off' \<longleftrightarrow> unat off' < 16 \<or> unat off < unat off' \<and> unat off' \<le> area_end t"

lemma off_add:
  assumes "unat off + unat n \<le> area_end t" "0 < unat n"
  shows "ahead t off (off + n)"
proof (cases "unat off + unat n < 65536")
  case True
  then show ?thesis using assms by (simp add: ahead_def unat_word_ariths)
next
  case False
  moreover have "unat (off + n) = unat off + unat n - 65536"
    using False unat_u16_lt [of off] unat_u16_lt [of n]
    by (simp add: unat_word_ariths mod_if [of _ "65536 :: nat"])
  ultimately show ?thesis
    using assms unat_u16_lt [of "data_area_size (t2_cc t)"] unfolding ahead_def area_end_def by linarith
qed

lemma off_add_exact:
  "unat off + unat n \<le> area_end t \<Longrightarrow> area_end t < 65536 \<Longrightarrow> unat (off + n :: u16) = unat off + unat n"
  by (simp add: unat_word_ariths)

lemma ahead_trans: "ahead t a b \<Longrightarrow> ahead t b c \<Longrightarrow> 16 \<le> unat b \<Longrightarrow> ahead t a c"
  by (auto simp: ahead_def)

lemma type_extract_offset:
  "nfc_t2t_type_extract t raw off b = Inr (b', off') \<Longrightarrow> ahead t off off' \<and> 16 \<le> unat off"
  using off_add [of off 1 t] by (auto simp: nfc_t2t_type_extract_def bindE_eq_Inr field_within split: if_splits)

lemma length_extract_offset:
  "nfc_t2t_length_extract t raw off b = Inr (b', off') \<Longrightarrow> ahead t off off' \<and> 16 \<le> unat off"
  using off_add [of off 1 t] off_add [of off 3 t]
  by (auto simp: nfc_t2t_length_extract_def bindE_eq_Inr field_within split: if_splits)

lemma value_ptr_extract_offset:
  "nfc_t2t_value_ptr_extract t raw off b = Inr (b', off') \<Longrightarrow> t2_length b > 0 \<Longrightarrow> ahead t off off' \<and> 16 \<le> unat off"
  using off_add [of off "t2_length b" t]
  by (auto simp: nfc_t2t_value_ptr_extract_def field_within split: if_splits)

lemma tlv_block_extract_offset:
  assumes "nfc_t2t_tlv_block_extract t raw off = Inr (b, off')"
  shows "ahead t off off' \<and> 16 \<le> unat off"
proof -
  obtain b1 o1 where 1: "nfc_t2t_type_extract t raw off \<lparr>t2_tag = 0, t2_length = 0, t2_value = None\<rparr> = Inr (b1, o1)"
    using assms(1) by (auto simp: nfc_t2t_tlv_block_extract_def bindE_eq_Inr)
  note o1 = type_extract_offset [OF 1]
  show ?thesis
  proof (cases "t2_tag b1 = 0 \<or> t2_tag b1 = 0xFE")
    case True
    then show ?thesis using assms(1) 1 o1 by (auto simp: nfc_t2t_tlv_block_extract_def ahead_def split: if_splits)
  next
    case False
    then obtain b2 o2 where 2: "nfc_t2t_length_extract t raw o1 b1 = Inr (b2, o2)"
        "(if t2_length b2 > 0 then nfc_t2t_value_ptr_extract t raw o2 b2 else Inr (b2, o2)) = Inr (b, off')"
      using assms(1) 1 by (auto simp: nfc_t2t_tlv_block_extract_def bindE_eq_Inr)
    note o2 = length_extract_offset [OF 2(1)]
    have o12: "ahead t off o2" using o1 o2 ahead_trans by blast
    show ?thesis
    proof (cases "t2_length b2 > 0")
      case True
      then show ?thesis using 2(2) value_ptr_extract_offset [of t raw o2 b2 b off'] o12 o1 ahead_trans by auto
    next
      case False
      then show ?thesis using 2(2) o12 o1 by simp
    qed
  qed
qed

lemma block_insert_cc: "nfc_t2t_tlv_block_insert t b = Inr t' \<Longrightarrow> t2_cc t' = t2_cc t"
  by (auto simp: nfc_t2t_tlv_block_insert_def split: if_splits)

lemma tlv_parse_offset:
  assumes "nfc_t2t_tlv_parse t raw off = Inr (t', off')"
  shows "t2_cc t' = t2_cc t" "ahead t off off'" "16 \<le> unat off"
  using assms tlv_block_extract_offset [of t raw off _ off']
  by (auto simp: nfc_t2t_tlv_parse_def bindE_eq_Inr block_insert_cc split: if_splits)

text \<open>The loop of \<open>nfc_t2t_parse\<close>.\<close>

function t2t_parse_loop :: "nfc_t2t \<Rightarrow> u8 list \<Rightarrow> u16 \<Rightarrow> (nfc_t2t \<times> err option) res" where
  "t2t_parse_loop t raw off =
     (if off = 0 then Inr (t, None)
      else if nfc_t2t_is_end_reached t off then Inr (t, None)
      else case nfc_t2t_tlv_parse t raw off of
        Inl e \<Rightarrow> if e = UB then Inl UB else Inr (t, Some e)
      | Inr (t', off') \<Rightarrow> t2t_parse_loop t' raw off')"
  by pat_completeness auto

termination
proof (relation "measure (\<lambda>(t, _, off). if unat off < 16 then unat off else 16 + (area_end t - unat off))", goal_cases)
  case (2 t raw off p t' off')
  note o = tlv_parse_offset [of t raw off t' off']
  have "area_end t' = area_end t" using 2 o(1) by (simp add: area_end_def)
  then show ?case using 2 o(2,3) by (auto simp: ahead_def)
qed simp

declare t2t_parse_loop.simps [simp del]

definition nfc_t2t_parse :: "nfc_t2t \<Rightarrow> u8 list \<Rightarrow> (nfc_t2t \<times> err option) res" where
  "nfc_t2t_parse t raw =
     bindE (nfc_t2t_internal_parse (nfc_t2t_clear t) raw) (\<lambda>t.
     case nfc_t2t_cc_parse t raw of
       Inl e \<Rightarrow> if e = UB then Inl UB else Inr (t, Some e)
     | Inr t \<Rightarrow>
         if \<not> nfc_t2t_is_version_supported t then Inr (t, Some EFAULT)
         else t2t_parse_loop t raw 16)"

section \<open>Blocks\<close>

definition t2t_inv :: "nfc_t2t \<Rightarrow> bool" where
  "t2t_inv t \<longleftrightarrow> length (t2_tlv_block_array t) = unat (t2_max_tlv_blocks t) \<and> t2_tlv_count t \<le> t2_max_tlv_blocks t"

definition t2_blocks :: "nfc_t2t \<Rightarrow> nfc_t2t_tlv_block list" where
  "t2_blocks t = take (unat (t2_tlv_count t)) (t2_tlv_block_array t)"

interpretation t2s: bounded_list nfc_t2t_tlv_block_insert nfc_t2t_clear t2_blocks
    "\<lambda>t. unat (t2_max_tlv_blocks t)" t2t_inv ENOMEM
proof unfold_locales
  fix t :: nfc_t2t and b
  assume inv: "t2t_inv t"
  have len: "length (t2_blocks t) = unat (t2_tlv_count t)"
    using inv by (simp add: t2t_inv_def t2_blocks_def word_le_nat_alt)
  show "\<exists>t'. nfc_t2t_tlv_block_insert t b = Inr t' \<and> t2t_inv t' \<and> t2_blocks t' = t2_blocks t @ [b] \<and>
      unat (t2_max_tlv_blocks t') = unat (t2_max_tlv_blocks t)" if "length (t2_blocks t) < unat (t2_max_tlv_blocks t)"
  proof -
    have lt: "unat (t2_tlv_count t) < length (t2_tlv_block_array t)" using inv that len by (simp add: t2t_inv_def)
    have "unat (t2_tlv_count t + 1) = unat (t2_tlv_count t) + 1"
      using that len unat_u16_lt [of "t2_max_tlv_blocks t"] by (simp add: unat_word_ariths)
    with inv that len lt show ?thesis
      by (auto simp: nfc_t2t_tlv_block_insert_def t2t_inv_def t2_blocks_def word_le_nat_alt take_Suc_conv_app_nth)
  qed
  show "nfc_t2t_tlv_block_insert t b = Inl ENOMEM" if "unat (t2_max_tlv_blocks t) \<le> length (t2_blocks t)"
  proof -
    have "t2_tlv_count t = t2_max_tlv_blocks t"
      using inv that len by (simp add: t2t_inv_def word_le_nat_alt word_unat_eq_iff)
    then show ?thesis by (simp add: nfc_t2t_tlv_block_insert_def)
  qed
  show "t2t_inv (nfc_t2t_clear t) \<and> t2_blocks (nfc_t2t_clear t) = [] \<and>
      unat (t2_max_tlv_blocks (nfc_t2t_clear t)) = unat (t2_max_tlv_blocks t)"
    using inv by (simp add: t2t_inv_def t2_blocks_def nfc_t2t_clear_def)
qed


section \<open>Memory safety\<close>

lemma get_be16_no_ub: "2 \<le> length xs \<Longrightarrow> get_be16 xs \<noteq> Inl UB"
  by (simp add: get_be16_enough)

lemma block_extract_no_ub:
  assumes "area_end t \<le> length raw" "area_end t < 65536"
  shows "nfc_t2t_tlv_block_extract t raw off \<noteq> Inl UB"
proof -
  have ty: "nfc_t2t_type_extract t raw off b \<noteq> Inl UB" for off b
    using assms by (auto simp: nfc_t2t_type_extract_def field_within mem_byte_def)
  have ln: "nfc_t2t_length_extract t raw off b \<noteq> Inl UB" for off b
    using assms by (auto simp: nfc_t2t_length_extract_def field_within mem_byte_def bindE_eq_Inl get_be16_enough split: if_splits)
  have vl: "nfc_t2t_value_ptr_extract t raw off b \<noteq> Inl UB" for off b
    by (simp add: nfc_t2t_value_ptr_extract_def)
  show ?thesis
    using ty ln vl by (auto simp: nfc_t2t_tlv_block_extract_def bindE_eq_Inl split: if_splits prod.splits)
qed

lemma t2t_tlv_parse_no_ub:
  assumes "t2t_inv t" "area_end t \<le> length raw" "area_end t < 65536"
  shows "nfc_t2t_tlv_parse t raw off \<noteq> Inl UB"
  using block_extract_no_ub [OF assms(2,3)] t2s.add_no_ub [OF assms(1)]
  by (auto simp: nfc_t2t_tlv_parse_def bindE_eq_Inl split: if_splits prod.splits)

lemma tlv_parse_inv:
  assumes "t2t_inv t" "nfc_t2t_tlv_parse t raw off = Inr (t', off')"
  shows "t2t_inv t'"
proof -
  have "t2t_inv u" if "nfc_t2t_tlv_block_insert t b = Inr u" for b u
    using that t2s.add_fits [OF assms(1), of b] t2s.add_full [OF assms(1), of b]
    by (cases "length (t2_blocks t) < unat (t2_max_tlv_blocks t)") auto
  then show ?thesis using assms by (auto simp: nfc_t2t_tlv_parse_def bindE_eq_Inr split: if_splits)
qed

lemma parse_loop_no_ub:
  assumes "t2t_inv t" "area_end t \<le> length raw" "area_end t < 65536"
  shows "\<exists>t' r. t2t_parse_loop t raw off = Inr (t', r) \<and> t2t_inv t' \<and> r \<noteq> Some UB"
  using assms
proof (induction t raw off rule: t2t_parse_loop.induct)
  case (1 t raw off)
  show ?case
  proof (cases "nfc_t2t_tlv_parse t raw off")
    case (Inl e)
    then show ?thesis
      using 1(2) t2t_tlv_parse_no_ub [OF 1(2-4), of off] by (subst t2t_parse_loop.simps) auto
  next
    case (Inr p)
    obtain t' off' where p: "p = (t', off')" by (cases p)
    have inv: "t2t_inv t'" "area_end t' = area_end t"
      using tlv_parse_inv [OF 1(2)] tlv_parse_offset(1) [of t raw off t' off'] Inr p by (simp_all add: area_end_def)
    show ?thesis
      using 1(1) [OF _ _ Inr p [symmetric]] 1(2-4) inv Inr p by (subst t2t_parse_loop.simps) auto
  qed
qed

definition t2t_header_ok :: "u8 list \<Rightarrow> bool" where
  "t2t_header_ok raw \<longleftrightarrow> 16 \<le> length raw \<and> 16 + 8 * unat (raw ! 14) \<le> length raw"

lemma internal_parse_ok:
  "16 \<le> length raw \<Longrightarrow> \<exists>sn lk. nfc_t2t_internal_parse t raw = Inr (t\<lparr>t2_sn := sn, t2_lock_bytes := lk\<rparr>)"
  by (auto simp: nfc_t2t_internal_parse_def mem_byte_def get_be16_enough get_be32_enough)

lemma cc_parse_ok:
  assumes "16 \<le> length raw"
  shows "nfc_t2t_cc_parse t raw = (if raw ! 12 \<noteq> 0xE1 then Inl EINVAL else Inr (t\<lparr>t2_cc :=
     \<lparr>t2cc_major_version = drop_bit 4 (raw ! 13) AND 0x0F, t2cc_minor_version = (raw ! 13) AND 0x0F,
      data_area_size = ucast (raw ! 14) * 8, t2cc_read_access = drop_bit 4 (raw ! 15) AND 0x0F,
      t2cc_write_access = (raw ! 15) AND 0x0F\<rparr>\<rparr>))"
  using assms by (simp add: nfc_t2t_cc_parse_def mem_byte_def)

lemma area_size: "unat (ucast (c :: u8) * 8 :: u16) = 8 * unat c"
  using unat_u8_lt [of c] by (simp add: unat_word_ariths)

text \<open>C36: parsing an image as long as its Capability Container says ends without undefined behaviour, whatever its bytes
  are, and leaves the descriptor with at most as many blocks as its array holds.\<close>

theorem t2t_parse_no_ub:
  assumes "t2t_inv t" "t2t_header_ok raw"
  shows "\<exists>t' r. nfc_t2t_parse t raw = Inr (t', r) \<and> t2t_inv t' \<and> r \<noteq> Some UB"
proof -
  have len: "16 \<le> length raw" "16 + 8 * unat (raw ! 14) \<le> length raw" using assms(2) by (simp_all add: t2t_header_ok_def)
  have inv: "t2t_inv (nfc_t2t_clear t)" using t2s.clear_ok [OF assms(1)] by simp
  obtain sn lk where ip: "nfc_t2t_internal_parse (nfc_t2t_clear t) raw = Inr ((nfc_t2t_clear t)\<lparr>t2_sn := sn, t2_lock_bytes := lk\<rparr>)"
    using internal_parse_ok [OF len(1)] by blast
  let ?t = "(nfc_t2t_clear t)\<lparr>t2_sn := sn, t2_lock_bytes := lk\<rparr>"
  have inv1: "t2t_inv ?t" using inv by (simp add: t2t_inv_def)
  show ?thesis
  proof (cases "raw ! 12 = 0xE1")
    case False
    then show ?thesis using ip inv1 by (simp add: nfc_t2t_parse_def cc_parse_ok [OF len(1)])
  next
    case True
    then obtain u where u: "nfc_t2t_cc_parse ?t raw = Inr u" "t2t_inv u" "area_end u = 8 * unat (raw ! 14) + 16"
      using inv1 by (simp add: cc_parse_ok [OF len(1)] t2t_inv_def area_end_def area_size)
    have "area_end u \<le> length raw" "area_end u < 65536" using u(3) len(2) unat_u8_lt [of "raw ! 14"] by simp_all
    from parse_loop_no_ub [OF u(2) this, of 16] u(1,2) ip show ?thesis by (auto simp: nfc_t2t_parse_def)
  qed
qed


section \<open>What is found\<close>

text \<open>The contents of a data area: padding and blocks, and their bytes.\<close>

datatype t2_item = Pad | Blk u8 "u8 list"

fun item_bytes :: "t2_item \<Rightarrow> u8 list" where
  "item_bytes Pad = [0]"
| "item_bytes (Blk ty v) =
     ty # (if length v < 255 then [of_nat (length v)] else 0xFF # put_be16 (of_nat (length v))) @ v"

fun item_ok :: "t2_item \<Rightarrow> bool" where
  "item_ok Pad = True"
| "item_ok (Blk ty v) = (ty \<noteq> NFC_T2T_TLV_NULL \<and> ty \<noteq> NFC_T2T_TLV_TERMINATOR \<and> length v < 65536 \<and>
     (ty = NFC_T2T_TLV_LOCK_CONTROL \<or> ty = NFC_T2T_TLV_MEMORY_CONTROL \<longrightarrow> length v = 3))"

fun item_block :: "t2_item \<Rightarrow> (u8 \<times> u8 list) list" where
  "item_block Pad = []"
| "item_block (Blk ty v) = [(ty, v)]"

definition block_view :: "nfc_t2t_tlv_block \<Rightarrow> u8 \<times> u8 list" where
  "block_view b = (t2_tag b, block (t2_value b) (unat (t2_length b)))"

lemma nth_append_at: "length pre = n \<Longrightarrow> (pre @ x # post) ! n = x"
  by auto

lemma extract_pad:
  assumes "raw = pre @ [0] @ post" "length pre = unat off" "16 \<le> unat off" "unat off + 1 \<le> area_end t"
  shows "nfc_t2t_tlv_parse t raw off = Inr (t, off + 1)"
  using assms
  by (simp add: nfc_t2t_tlv_parse_def nfc_t2t_tlv_block_extract_def nfc_t2t_type_extract_def field_within mem_byte_def
      nth_append_at tlv_block_is_data_length_correct_def)

lemma extract_terminator:
  assumes "raw = pre @ [0xFE] @ post" "length pre = unat off" "16 \<le> unat off" "unat off + 1 \<le> area_end t"
  shows "nfc_t2t_tlv_parse t raw off = Inr (t, 0)"
  using assms
  by (simp add: nfc_t2t_tlv_parse_def nfc_t2t_tlv_block_extract_def nfc_t2t_type_extract_def field_within mem_byte_def
      nth_append_at tlv_block_is_data_length_correct_def)

lemma length_extract_item:
  assumes "raw = pre @ (if length v < 255 then [of_nat (length v)] else 0xFF # put_be16 (of_nat (length v))) @ v @ post"
    and "length pre = unat off" "16 \<le> unat off" "length v < 65536" "area_end t < 65536"
    and "unat off + (if length v < 255 then 1 else 3) + length v \<le> area_end t"
  shows "\<exists>off'. nfc_t2t_length_extract t raw off b = Inr (b\<lparr>t2_length := of_nat (length v)\<rparr>, off') \<and>
     unat off' = unat off + (if length v < 255 then 1 else 3)"
proof (cases "length v < 255")
  case True
  have ne: "(of_nat (length v) :: u8) \<noteq> 0xFF"
  proof
    assume "(of_nat (length v) :: u8) = 0xFF"
    then have "unat (of_nat (length v) :: u8) = 255" by simp
    then show False using True by (simp add: unat_of_nat take_bit_eq_mod)
  qed
  have c: "ucast (of_nat (length v) :: u8) = (of_nat (length v) :: u16)"
    using True by (simp add: unsigned_of_nat take_bit_eq_mod)
  have "unat (off + 1) = unat off + 1" using off_add_exact [of off 1 t] assms True by simp
  with True ne c assms show ?thesis
    by (simp add: nfc_t2t_length_extract_def field_within mem_byte_def nth_append_at)
next
  case False
  let ?n = "of_nat (length v) :: u16"
  have n: "unat ?n = length v" using assms(4) by (simp add: unat_of_nat take_bit_eq_mod)
  have "drop (unat off + 1) raw = put_be16 ?n @ v @ post" using assms(1,2) False by simp
  then have g: "get_be16 (drop (unat off + 1) raw) = Inr ?n" by simp
  have "unat (off + 3) = unat off + 3" using off_add_exact [of off 3 t] assms False by simp
  moreover have "\<not> ?n < 0xFF" using False n by (simp add: word_less_nat_alt)
  moreover have "mem_byte raw (unat off) = Inr 0xFF" using assms(1,2) False by (simp add: mem_byte_def nth_append_at)
  ultimately show ?thesis using False g assms(3,5,6)
    by (simp add: nfc_t2t_length_extract_def field_within)
qed

lemma extract_block:
  assumes raw: "raw = pre @ item_bytes (Blk ty v) @ post" and pre: "length pre = unat off" "16 \<le> unat off"
    and ok: "item_ok (Blk ty v)" and fit: "unat off + length (item_bytes (Blk ty v)) \<le> area_end t" "area_end t < 65536"
  shows "\<exists>b off'. nfc_t2t_tlv_parse t raw off = bindE (nfc_t2t_tlv_block_insert t b) (\<lambda>t. Inr (t, off')) \<and>
     block_view b = (ty, v) \<and> unat off' = unat off + length (item_bytes (Blk ty v))"
proof -
  let ?l = "if length v < 255 then [of_nat (length v)] else 0xFF # put_be16 (of_nat (length v)) :: u8 list"
  let ?b = "\<lparr>t2_tag = ty, t2_length = 0, t2_value = None\<rparr>"
  have ll: "length ?l = (if length v < 255 then 1 else 3)" by simp
  have o1: "unat (off + 1) = unat off + 1" using off_add_exact [of off 1 t] fit by simp
  have ty: "nfc_t2t_type_extract t raw off \<lparr>t2_tag = 0, t2_length = 0, t2_value = None\<rparr> = Inr (?b, off + 1)"
    using raw pre fit by (simp add: nfc_t2t_type_extract_def field_within mem_byte_def nth_append_at)
  have raw1: "raw = (pre @ [ty]) @ ?l @ v @ post" using raw by simp
  have "\<exists>off'. nfc_t2t_length_extract t raw (off + 1) ?b = Inr (?b\<lparr>t2_length := of_nat (length v)\<rparr>, off') \<and>
     unat off' = unat (off + 1) + (if length v < 255 then 1 else 3)"
    by (rule length_extract_item [OF raw1]) (use pre o1 ok fit ll in \<open>auto split: if_splits\<close>)
  then obtain o2 where ln: "nfc_t2t_length_extract t raw (off + 1) ?b = Inr (?b\<lparr>t2_length := of_nat (length v)\<rparr>, o2)"
    "unat o2 = unat off + 1 + length ?l" using o1 ll by auto
  have n: "unat (of_nat (length v) :: u16) = length v" using ok by (simp add: unat_of_nat take_bit_eq_mod)
  have tot: "length (item_bytes (Blk ty v)) = 1 + length ?l + length v" by simp
  define val where "val = (if v = [] then None else Some (drop (unat o2) raw))"
  have bv: "block val (length v) = v"
    using raw1 pre(1) ln(2) by (simp add: val_def split del: if_split) (auto simp del: item_bytes.simps)
  have "\<exists>off'. nfc_t2t_tlv_block_extract t raw off = Inr (\<lparr>t2_tag = ty, t2_length = of_nat (length v), t2_value = val\<rparr>, off') \<and>
      unat off' = unat o2 + length v"
  proof (cases "v = []")
    case True
    then show ?thesis using ok ty ln by (simp add: nfc_t2t_tlv_block_extract_def val_def)
  next
    case False
    have "(of_nat (length v) :: u16) \<noteq> 0" using n False by (metis length_0_conv unat_0)
    moreover have "nfc_t2t_is_field_within_data_range t o2 (of_nat (length v))"
      using fit(1) tot ln(2) pre(2) n False by (simp add: field_within)
    moreover have "unat (o2 + of_nat (length v)) = unat o2 + length v"
      using off_add_exact [of o2 "of_nat (length v)" t] fit tot ln(2) n by simp
    ultimately show ?thesis
      using ok ty ln(1) False by (simp add: nfc_t2t_tlv_block_extract_def nfc_t2t_value_ptr_extract_def val_def word_neq_0_conv)
  qed
  then obtain off' where e: "nfc_t2t_tlv_block_extract t raw off = Inr (\<lparr>t2_tag = ty, t2_length = of_nat (length v), t2_value = val\<rparr>, off')"
    "unat off' = unat o2 + length v" by blast
  have "tlv_block_is_data_length_correct \<lparr>t2_tag = ty, t2_length = of_nat (length v), t2_value = val\<rparr>"
    using ok by (auto simp: tlv_block_is_data_length_correct_def)
  with e ok bv n ln(2) tot show ?thesis
    by (intro exI [of _ "\<lparr>t2_tag = ty, t2_length = of_nat (length v), t2_value = val\<rparr>"] exI [of _ off'])
      (simp add: nfc_t2t_tlv_parse_def block_view_def del: item_bytes.simps)
qed

definition t2_view :: "nfc_t2t \<Rightarrow> (u8 \<times> u8 list) list" where
  "t2_view t = map block_view (t2_blocks t)"

text \<open>The data area ends with a terminator or with the items themselves.\<close>

definition terminated :: "nat \<Rightarrow> u8 list \<Rightarrow> u8 list \<Rightarrow> bool" where
  "terminated area items post \<longleftrightarrow> length items = area \<or> (\<exists>post'. post = 0xFE # post' \<and> length items < area)"

lemma item_bytes_nonempty [simp]: "item_bytes it \<noteq> []"
  by (cases it) auto

lemma loop_step:
  assumes "unat off \<noteq> area_end t" "16 \<le> unat off"
  shows "t2t_parse_loop t raw off = (case nfc_t2t_tlv_parse t raw off of
        Inl e \<Rightarrow> if e = UB then Inl UB else Inr (t, Some e) | Inr (t', off') \<Rightarrow> t2t_parse_loop t' raw off')"
  using assms by (subst t2t_parse_loop.simps) (auto simp: nfc_t2t_is_end_reached_def area_end_def)

lemma parse_loop_items:
  assumes "t2t_inv t" "area_end t < 65536" "raw = pre @ concat (map item_bytes its) @ post" "length pre = unat off" "16 \<le> unat off"
    and "list_all item_ok its" "unat off \<le> area_end t"
    and "terminated (area_end t - unat off) (concat (map item_bytes its)) post"
  shows "let found = t2_view t @ concat (map item_block its); cap = unat (t2_max_tlv_blocks t) in
    \<exists>t'. t2t_parse_loop t raw off = Inr (t', if length found \<le> cap then None else Some ENOMEM) \<and>
      t2_view t' = take cap found \<and> t2_cc t' = t2_cc t"
  using assms
proof (induction its arbitrary: t off pre)
  case Nil
  have cap: "length (t2_view t) \<le> unat (t2_max_tlv_blocks t)"
    using Nil.prems(1) by (simp add: t2_view_def t2_blocks_def t2t_inv_def word_le_nat_alt)
  show ?case
  proof (cases "unat off = area_end t")
    case True
    then show ?thesis
      using cap Nil.prems(5) by (subst t2t_parse_loop.simps) (auto simp: nfc_t2t_is_end_reached_def area_end_def Let_def)
  next
    case False
    then obtain post' where "post = 0xFE # post'" "unat off < area_end t" using Nil.prems(7,8) by (auto simp: terminated_def)
    then have "nfc_t2t_tlv_parse t raw off = Inr (t, 0)"
      using Nil.prems(3-5) by (intro extract_terminator) auto
    then show ?thesis
      using loop_step [OF False Nil.prems(5), of raw] cap by (simp add: t2t_parse_loop.simps [of t raw 0])
  qed
next
  case (Cons it its)
  let ?n = "length (item_bytes it)"
  have len: "unat off + ?n + length (concat (map item_bytes its)) \<le> area_end t" "0 < ?n"
    using Cons.prems(7,8) by (auto simp: terminated_def)
  then have ne: "unat off \<noteq> area_end t" by linarith
  note step = loop_step [OF ne Cons.prems(5), of raw]
  have raw: "raw = (pre @ item_bytes it) @ concat (map item_bytes its) @ post" using Cons.prems(3) by simp
  have tm: "terminated (area_end t - (unat off + ?n)) (concat (map item_bytes its)) post"
    using Cons.prems(8) len by (auto simp: terminated_def)
  show ?case
  proof (cases it)
    case Pad
    have "nfc_t2t_tlv_parse t raw off = Inr (t, off + 1)"
      using Cons.prems(3-5) Pad len by (intro extract_pad [of raw pre "concat (map item_bytes its) @ post"]) auto
    moreover have "unat (off + 1) = unat off + ?n" using off_add_exact [of off 1 t] Cons.prems(2) len Pad by simp
    ultimately show ?thesis
      using Cons.IH [of t "pre @ item_bytes it" "off + 1"] Cons.prems raw tm step Pad len by (simp add: Let_def)
  next
    case (Blk ty v)
    have "raw = pre @ item_bytes (Blk ty v) @ concat (map item_bytes its) @ post" using raw Blk by simp
    moreover have "item_ok (Blk ty v)" using Cons.prems(6) Blk by simp
    moreover have "unat off + length (item_bytes (Blk ty v)) \<le> area_end t" using len(1) Blk by simp
    ultimately obtain b off' where
      b: "nfc_t2t_tlv_parse t raw off = bindE (nfc_t2t_tlv_block_insert t b) (\<lambda>t. Inr (t, off'))"
        "block_view b = (ty, v)" "unat off' = unat off + ?n"
      using extract_block Cons.prems(2,4,5) Blk by blast
    have lb: "length (t2_view t) = length (t2_blocks t)" by (simp add: t2_view_def)
    show ?thesis
    proof (cases "length (t2_blocks t) < unat (t2_max_tlv_blocks t)")
      case True
      from t2s.add_fits [OF Cons.prems(1) True, of b] obtain t' where
        t': "nfc_t2t_tlv_block_insert t b = Inr t'" "t2t_inv t'" "t2_blocks t' = t2_blocks t @ [b]"
          "unat (t2_max_tlv_blocks t') = unat (t2_max_tlv_blocks t)" by blast
      have cc: "area_end t' = area_end t" "t2_cc t' = t2_cc t" using block_insert_cc [OF t'(1)] by (simp_all add: area_end_def)
      have "t2_view t' = t2_view t @ [(ty, v)]" using t'(3) b(2) by (simp add: t2_view_def)
      then show ?thesis
        using Cons.IH [of t' "pre @ item_bytes it" off'] Cons.prems raw tm step b(1,3) t' cc len(1) Blk
        by (simp add: Let_def)
    next
      case False
      then have "nfc_t2t_tlv_block_insert t b = Inl ENOMEM" using t2s.add_full [OF Cons.prems(1), of b] by simp
      moreover have "unat (t2_max_tlv_blocks t) = length (t2_view t)"
        using False Cons.prems(1) lb by (simp add: t2_blocks_def t2t_inv_def word_le_nat_alt)
      ultimately show ?thesis using step b(1) Blk by (simp add: Let_def)
    qed
  qed
qed

text \<open>C37: parsing finds the blocks of the data area. For an image whose header is that of a supported tag and whose data
  area holds padding and blocks up to a terminator or the end of the area, the parser returns the blocks in order, each with its
  type and value; when the descriptor has too little room it holds the first ones and the parser returns \<open>-ENOMEM\<close>.\<close>

theorem t2t_parse_finds_blocks:
  assumes "t2t_inv t" "length hdr = 16" "hdr ! 12 = 0xE1" "drop_bit 4 (hdr ! 13) AND 0x0F = 1"
    and "list_all item_ok its" "terminated (8 * unat (hdr ! 14)) (concat (map item_bytes its)) post"
  shows "\<exists>t'. let found = concat (map item_block its); cap = unat (t2_max_tlv_blocks t) in
    nfc_t2t_parse t (hdr @ concat (map item_bytes its) @ post) = Inr (t', if length found \<le> cap then None else Some ENOMEM) \<and>
    map (\<lambda>b. (t2_tag b, block (t2_value b) (unat (t2_length b)))) (take (unat (t2_tlv_count t')) (t2_tlv_block_array t')) =
      take cap found \<and>
    unat (data_area_size (t2_cc t')) = 8 * unat (hdr ! 14)"
proof -
  let ?raw = "hdr @ concat (map item_bytes its) @ post"
  have len: "16 \<le> length ?raw" using assms(2) by simp
  have nth: "?raw ! 12 = hdr ! 12" "?raw ! 13 = hdr ! 13" "?raw ! 14 = hdr ! 14" "?raw ! 15 = hdr ! 15"
    using assms(2) by (simp_all add: nth_append)
  have inv: "t2t_inv (nfc_t2t_clear t)" "t2_blocks (nfc_t2t_clear t) = []" "unat (t2_max_tlv_blocks (nfc_t2t_clear t)) = unat (t2_max_tlv_blocks t)"
    using t2s.clear_ok [OF assms(1)] by simp_all
  obtain sn lk where ip: "nfc_t2t_internal_parse (nfc_t2t_clear t) ?raw = Inr ((nfc_t2t_clear t)\<lparr>t2_sn := sn, t2_lock_bytes := lk\<rparr>)"
    using internal_parse_ok [OF len] by blast
  let ?t = "(nfc_t2t_clear t)\<lparr>t2_sn := sn, t2_lock_bytes := lk\<rparr>"
  obtain u where u: "nfc_t2t_cc_parse ?t ?raw = Inr u" "t2t_inv u" "t2_view u = []" "t2_max_tlv_blocks u = t2_max_tlv_blocks (nfc_t2t_clear t)"
      "unat (data_area_size (t2_cc u)) = 8 * unat (hdr ! 14)" "nfc_t2t_is_version_supported u"
    using inv(1,2) assms(3,4)
    by (simp add: cc_parse_ok [OF len] nth t2t_inv_def area_size t2_view_def t2_blocks_def nfc_t2t_is_version_supported_def)
  have "area_end u < 65536" using u(5) unat_u8_lt [of "hdr ! 14"] by (simp add: area_end_def)
  from parse_loop_items [OF u(2) this refl, of hdr 16] assms(2,5,6) u(3-5) inv(3)
  obtain t' where t': "t2t_parse_loop u ?raw 16 =
      Inr (t', if length (concat (map item_block its)) \<le> unat (t2_max_tlv_blocks t) then None else Some ENOMEM)"
    "t2_view t' = take (unat (t2_max_tlv_blocks t)) (concat (map item_block its))" "t2_cc t' = t2_cc u"
    by (auto simp: Let_def area_end_def)
  have "nfc_t2t_parse t ?raw = t2t_parse_loop u ?raw 16" using ip u(1,6) by (simp add: nfc_t2t_parse_def)
  with t' u(5) show ?thesis
    by (intro exI [of _ t']) (simp add: Let_def t2_view_def t2_blocks_def block_view_def [abs_def] del: map_concat)
qed

definition demo_t2t :: nfc_t2t where
  "demo_t2t = \<lparr>t2_sn = \<lparr>manufacturer_id = 0, serial_number_part_1 = 0, serial_number_part_2 = 0, check_byte_0 = 0, check_byte_1 = 0, sn_internal = 0\<rparr>,
     t2_lock_bytes = 0, t2_cc = \<lparr>t2cc_major_version = 0, t2cc_minor_version = 0, data_area_size = 0, t2cc_read_access = 0, t2cc_write_access = 0\<rparr>,
     t2_max_tlv_blocks = 1, t2_tlv_block_array = [\<lparr>t2_tag = 0, t2_length = 0, t2_value = None\<rparr>], t2_tlv_count = 0\<rparr>"

definition demo_header :: "u8 list" where
  "demo_header = [4, 1, 2, 0, 3, 4, 5, 6, 0, 0, 0, 0, 0xE1, 0x10, 1, 0]"

theorem t2t_parse_no_ub_witness:
  "\<exists>t' r. nfc_t2t_parse demo_t2t (demo_header @ [3, 0xFF, 0, 0, 0, 0, 0, 0]) = Inr (t', r) \<and> t2t_inv t' \<and> r \<noteq> Some UB"
  by (rule t2t_parse_no_ub) (simp_all add: t2t_inv_def t2t_header_ok_def demo_t2t_def demo_header_def)

theorem t2t_parse_finds_blocks_witness:
  "\<exists>t'. nfc_t2t_parse demo_t2t (demo_header @ [0, 3, 3, 7, 8, 9, 0xFE, 0]) = Inr (t', None) \<and>
    map (\<lambda>b. (t2_tag b, block (t2_value b) (unat (t2_length b)))) (take (unat (t2_tlv_count t')) (t2_tlv_block_array t')) = [(3, [7, 8, 9])]"
  using t2t_parse_finds_blocks [of demo_t2t demo_header "[Pad, Blk 3 [7, 8, 9]]" "[0xFE, 0]"]
  by (auto simp: t2t_inv_def demo_t2t_def demo_header_def terminated_def Let_def)

end
