(* ===== verification/Tnep_Tag.thy ===== *)
theory Tnep_Tag
  imports Ndef_Parser Ndef_Payloads T4t_Tlv
begin

text \<open>
  The Tag NDEF Exchange Protocol on the tag side (\<open>subsys/nfc/tnep/tag.c\<close>, \<open>include/nfc/tnep/tag.h\<close>).

  The two static structures of the module and its state variable are the record \<open>tnep_tag\<close>, passed
  through every operation. The transmit buffers are objects of a store \<open>tt_mem\<close> from addresses to
  bytes, because the module compares their addresses and hands them to the NFC stack, which goes on
  reading them: \<open>tt_log\<close> records in order the calls of the payload function and of the service
  callbacks. The services are the linker section \<open>te_svcs\<close>; \<open>svc_active\<close> is an index into it.

  A service callback is application code. It may answer by calling back into the module, so it is
  modelled by the list of calls it makes; these run before the callback returns. The callback for
  the initial message is modelled by what it does to the message and by the arguments it passes to
  \<open>nfc_tnep_initial_msg_encode\<close>, which it has to call.

  An operation returns the new state and its return value (\<open>None\<close> for 0); \<open>Inl UB\<close> is undefined
  behaviour. Signals follow the kernel's documented behaviour: raising stores the result and marks
  the signal, \<open>k_poll\<close> marks the events whose signal is marked.
\<close>

section \<open>State\<close>

datatype tnep_event = TNEP_EVENT_DUMMY | TNEP_EVENT_MSG_RX_NEW | TNEP_EVENT_TAG_SELECTED

datatype tnep_state_name = TNEP_STATE_DISABLED | TNEP_STATE_SERVICE_READY | TNEP_STATE_SERVICE_SELECTED

datatype tnep_svc_record_status = TNEP_SVC_NOT_FOUND | TNEP_SVC_SELECTED | TNEP_SVC_DESELECTED

abbreviation (input) NFC_TNEP_STATUS_SUCCESS :: u8 where "NFC_TNEP_STATUS_SUCCESS \<equiv> 0"
abbreviation (input) NFC_TNEP_STATUS_PROTOCOL_ERROR :: u8 where "NFC_TNEP_STATUS_PROTOCOL_ERROR \<equiv> 1"
abbreviation (input) NFC_TNEP_EVENTS_NUMBER :: u8 where "NFC_TNEP_EVENTS_NUMBER \<equiv> 2"

text \<open>The calls an application makes to answer the poller.\<close>

datatype tnep_app_call =
    App_Data "nfc_ndef_msg_desc option" u8
  | No_App_Data

record nfc_tnep_tag_service_cb =
  scb_selected :: "tnep_app_call list option"
  scb_deselected :: "tnep_app_call list option"
  scb_message_received :: "(u8 list \<Rightarrow> u32 \<Rightarrow> tnep_app_call list) option"
  scb_error_detected :: "(err \<Rightarrow> tnep_app_call list) option"

record nfc_tnep_tag_service =
  svc_parameters :: nfc_ndef_tnep_rec_svc_param
  svc_ndef_record :: "nfc_ndef_record_desc option"
  svc_callbacks :: nfc_tnep_tag_service_cb

datatype tnep_out =
    Payload_Set nat u32
  | Svc_Selected nat
  | Svc_Deselected nat
  | Svc_Message nat "u8 list" u32
  | Svc_Error nat err

type_synonym initial_msg_encode_t =
  "nfc_ndef_msg_desc \<Rightarrow> nfc_ndef_msg_desc option \<times> nfc_ndef_record_desc list option \<times> u32"

record k_poll_signal =
  sig_signaled :: bool
  sig_result :: tnep_event

record tnep_tag =
  tt_state :: tnep_state_name
  tt_mem :: "nat \<Rightarrow> u8 list"
  tt_tx_data :: "nat option"
  tt_tx_swap :: "nat option"
  tt_tx_len :: u32
  tt_rx_data :: ptr
  tt_rx_len :: u32
  tt_svc_active :: "nat option"
  tt_svc_cnt :: u32
  tt_max_records_cnt :: u32
  tt_app_data_expected :: bool
  tt_data_set :: bool
  tt_initial_msg_encode :: "initial_msg_encode_t option"
  tt_current_buff :: "nat option"
  tt_status_record :: u8
  tt_events :: "bool list option"
  tt_msg_rx :: k_poll_signal
  tt_msg_tx :: k_poll_signal
  tt_log :: "tnep_out list"

text \<open>
  The configuration: whether the tag is a Type 4 Tag (\<open>CONFIG_NFC_T4T_NRFXLIB\<close>), the limits for
  received messages, the structure sizes and the old contents of the parser's result buffer, and
  what the encoder leaves in the message area when it fails half-way.
\<close>

record tnep_env =
  te_svcs :: "nfc_tnep_tag_service list"
  te_t4t :: bool
  te_rx_max_record_cnt :: u32
  te_rx_max_record_size :: nat
  te_abi :: msg_parser_abi
  te_recs0 :: "nat \<Rightarrow> nfc_ndef_record_desc"
  te_residue :: "nfc_ndef_msg_desc \<Rightarrow> u8 list \<Rightarrow> u8 list"

type_synonym tnep_outcome = "(tnep_tag \<times> err option) res"

definition tnep_emit :: "tnep_tag \<Rightarrow> tnep_out \<Rightarrow> tnep_tag" where
  "tnep_emit s ev = s\<lparr>tt_log := tt_log s @ [ev]\<rparr>"

section \<open>Preparing the message the poller reads\<close>

definition tnep_tx_msg_clear :: "nfc_ndef_msg_desc \<Rightarrow> nfc_ndef_msg_desc" where
  "tnep_tx_msg_clear msg = nfc_ndef_msg_clear msg"

text \<open>The encoder's result on the message area: the new bytes, the length and the return value.\<close>

definition tnep_area_encode ::
    "tnep_env \<Rightarrow> nfc_ndef_msg_desc option \<Rightarrow> u8 list \<Rightarrow> u32 \<Rightarrow> (u8 list \<times> u32 \<times> err option) res" where
  "tnep_area_encode env msg area len = (case msg of None \<Rightarrow> Inr (area, len, None)
     | Some m \<Rightarrow>
         if msg_record_count m > 0 then
           on_err (nfc_ndef_msg_encode (Some m) (Some (area, len)))
             (\<lambda>e. Inr (take (length area) (te_residue env m area @ area), len, Some e))
             (\<lambda>(area', len'). Inr (area', len', None))
         else Inr (area, len, None))"

definition tnep_tx_msg_encode :: "tnep_env \<Rightarrow> tnep_tag \<Rightarrow> nfc_ndef_msg_desc option \<Rightarrow> tnep_outcome" where
  "tnep_tx_msg_encode env s msg =
     (case (if tt_current_buff s = tt_tx_data s then tt_tx_swap s else tt_tx_data s) of
        None \<Rightarrow> Inl UB
      | Some b \<Rightarrow>
          bindE (mem_write (tt_mem s b) 0 (replicate (unat (tt_tx_len s)) 0)) (\<lambda>mem.
          let off = (if te_t4t env then 2 else 0);
              len = (if te_t4t env then tt_tx_len s - 2 else tt_tx_len s) in
          bindE (tnep_area_encode env msg (drop off mem) len) (\<lambda>(area, len, err).
          let mem = take off mem @ area in
          bindE (if te_t4t env
                 then on_err (nfc_t4t_ndef_file_encode (Some mem) (Some len)) (\<lambda>_. Inr mem) (\<lambda>(mem', _). Inr mem')
                 else Inr mem) (\<lambda>mem.
          if \<not> tt_data_set s then Inl UB
          else Inr (tnep_emit (s\<lparr>tt_current_buff := Some b, tt_mem := (tt_mem s)(b := mem)\<rparr>)
                     (Payload_Set b (tt_tx_len s)), err)))))"

definition tnep_tx_msg_add_rec :: "nfc_ndef_msg_desc \<Rightarrow> nfc_ndef_record_desc option \<Rightarrow> nfc_ndef_msg_desc res" where
  "tnep_tx_msg_add_rec msg rd = (if rd = None then Inl EINVAL else nfc_ndef_msg_record_add msg rd)"

definition tnep_tx_msg_add_rec_status ::
    "tnep_tag \<Rightarrow> nfc_ndef_msg_desc \<Rightarrow> u8 \<Rightarrow> tnep_tag \<times> nfc_ndef_msg_desc res" where
  "tnep_tx_msg_add_rec_status s msg status =
     (let msg = (if status = NFC_TNEP_STATUS_PROTOCOL_ERROR then tnep_tx_msg_clear msg else msg);
          s = s\<lparr>tt_status_record := status\<rparr>
      in (s, tnep_tx_msg_add_rec msg (Some (NFC_TNEP_STATUS_RECORD_DESC_DEF (tt_status_record s)))))"

definition nfc_tnep_initial_msg_encode ::
    "tnep_env \<Rightarrow> tnep_tag \<Rightarrow> nfc_ndef_msg_desc option \<Rightarrow> nfc_ndef_record_desc list option \<Rightarrow> u32 \<Rightarrow> tnep_outcome" where
  "nfc_tnep_initial_msg_encode env s msg records records_cnt = (case msg of
     None \<Rightarrow> Inr (s, Some EINVAL)
   | Some m \<Rightarrow>
       if records \<noteq> None \<and> records_cnt < 1 then Inr (s, Some EINVAL)
       else
         let used_records = msg_record_count m + tt_svc_cnt s in
         if records_cnt > tt_max_records_cnt s - used_records then Inr (s, Some ENOMEM)
         else
           on_err (foldE (\<lambda>m i. case records of None \<Rightarrow> tnep_tx_msg_add_rec m None
                     | Some rs \<Rightarrow> if i < length rs then tnep_tx_msg_add_rec m (Some (rs ! i)) else Inl UB)
                   m [0..<unat records_cnt])
             (\<lambda>e. Inr (s, Some e)) (\<lambda>m.
           on_err (foldE tnep_tx_msg_add_rec m (map svc_ndef_record (te_svcs env)))
             (\<lambda>e. Inr (s, Some e)) (\<lambda>m.
           tnep_tx_msg_encode env s (Some m))))"

definition tnep_tx_initial_msg_set :: "tnep_env \<Rightarrow> tnep_tag \<Rightarrow> tnep_outcome" where
  "tnep_tx_initial_msg_set env s =
     (let initial_msg = tnep_tx_msg_clear
            (NFC_NDEF_MSG_DEF (replicate (unat (tt_svc_cnt s + tt_max_records_cnt s)) None))
      in case (if tt_max_records_cnt s > 0 then tt_initial_msg_encode s else None) of
           Some cb \<Rightarrow> (case cb initial_msg of (msg, records, cnt) \<Rightarrow>
             nfc_tnep_initial_msg_encode env s msg records cnt)
         | None \<Rightarrow>
             on_err (foldE tnep_tx_msg_add_rec initial_msg (map svc_ndef_record (te_svcs env)))
               (\<lambda>e. Inr (s, Some e)) (\<lambda>m. tnep_tx_msg_encode env s (Some m)))"

section \<open>Answers of the application\<close>

definition tnep_new_app_msg_prepare :: "tnep_env \<Rightarrow> tnep_tag \<Rightarrow> nfc_ndef_msg_desc \<Rightarrow> u8 \<Rightarrow> tnep_outcome" where
  "tnep_new_app_msg_prepare env s msg status =
     (case tnep_tx_msg_add_rec_status s msg status of (s, r) \<Rightarrow>
        on_err r (\<lambda>e. Inr (s, Some e)) (\<lambda>m. tnep_tx_msg_encode env s (Some m)))"

definition nfc_tnep_tag_tx_msg_app_data ::
    "tnep_env \<Rightarrow> tnep_tag \<Rightarrow> nfc_ndef_msg_desc option \<Rightarrow> u8 \<Rightarrow> tnep_outcome" where
  "nfc_tnep_tag_tx_msg_app_data env s msg status = (case msg of
     None \<Rightarrow> Inr (s, Some EINVAL)
   | Some m \<Rightarrow>
       if tt_state s \<noteq> TNEP_STATE_SERVICE_SELECTED then Inr (s, Some EACCES)
       else if \<not> tt_app_data_expected s then Inr (s, Some EACCES)
       else tnep_new_app_msg_prepare env (s\<lparr>tt_app_data_expected := False\<rparr>) m status)"

definition nfc_tnep_tag_tx_msg_no_app_data :: "tnep_env \<Rightarrow> tnep_tag \<Rightarrow> tnep_outcome" where
  "nfc_tnep_tag_tx_msg_no_app_data env s =
     (if tt_state s \<noteq> TNEP_STATE_SERVICE_SELECTED then Inr (s, Some EACCES)
      else if \<not> tt_app_data_expected s then Inr (s, Some EACCES)
      else case tnep_tx_msg_add_rec_status (s\<lparr>tt_app_data_expected := False\<rparr>)
                  (tnep_tx_msg_clear (NFC_NDEF_MSG_DEF [None])) NFC_TNEP_STATUS_SUCCESS of (s, r) \<Rightarrow>
             on_err r (\<lambda>e. Inr (s, Some e)) (\<lambda>m. tnep_tx_msg_encode env s (Some m)))"

definition tnep_app_exec :: "tnep_env \<Rightarrow> tnep_tag \<Rightarrow> tnep_app_call \<Rightarrow> tnep_outcome" where
  "tnep_app_exec env s c = (case c of
     App_Data msg status \<Rightarrow> nfc_tnep_tag_tx_msg_app_data env s msg status
   | No_App_Data \<Rightarrow> nfc_tnep_tag_tx_msg_no_app_data env s)"

text \<open>Calling a callback of service \<open>i\<close>: the pointer must not be NULL; the application's calls follow.\<close>

definition tnep_callback ::
    "tnep_env \<Rightarrow> tnep_tag \<Rightarrow> nat \<Rightarrow> tnep_out \<Rightarrow> (nfc_tnep_tag_service_cb \<Rightarrow> tnep_app_call list option) \<Rightarrow> tnep_tag res" where
  "tnep_callback env s i ev f =
     (if i < length (te_svcs env) then
        case f (svc_callbacks (te_svcs env ! i)) of None \<Rightarrow> Inl UB
        | Some calls \<Rightarrow> foldE (\<lambda>s c. bindE (tnep_app_exec env s c) (\<lambda>(s, _). Inr s)) (tnep_emit s ev) calls
      else Inl UB)"

section \<open>Service selection\<close>

definition ndef_check_rec_type :: "nfc_ndef_record_desc \<Rightarrow> u8 list \<Rightarrow> u32 \<Rightarrow> bool res" where
  "ndef_check_rec_type r type_field type_field_length =
     (if ucast (rec_type_length r) \<noteq> type_field_length then Inr False
      else bindE (mem_read (rec_type r) (unat type_field_length)) (\<lambda>a.
           bindE (mem_read (Some type_field) (unat type_field_length)) (\<lambda>b. Inr (a = b))))"

fun svc_find :: "nfc_tnep_tag_service list \<Rightarrow> nat \<Rightarrow> u8 list \<Rightarrow> u32 \<Rightarrow> nat option res" where
  "svc_find [] i uri_name uri_length = Inr None"
| "svc_find (svc # svcs) i uri_name uri_length =
     (if ucast (par_uri_length (svc_parameters svc)) = uri_length then
        bindE (mem_read (Some uri_name) (unat uri_length)) (\<lambda>a.
        bindE (mem_read (par_uri (svc_parameters svc)) (unat uri_length)) (\<lambda>b.
        if a = b then Inr (Some i) else svc_find svcs (i + 1) uri_name uri_length))
      else svc_find svcs (i + 1) uri_name uri_length)"

definition tnep_svc_set_active ::
    "tnep_env \<Rightarrow> tnep_tag \<Rightarrow> u8 list \<Rightarrow> u32 \<Rightarrow> (tnep_tag \<times> tnep_svc_record_status) res" where
  "tnep_svc_set_active env s uri_name uri_length =
     bindE (svc_find (te_svcs env) 0 uri_name uri_length) (\<lambda>r.
     Inr (s\<lparr>tt_svc_active := r\<rparr>, if r = None then TNEP_SVC_DESELECTED else TNEP_SVC_SELECTED))"

text \<open>The payload of the select record is constructed in a zeroed array; the constructor's error code
  is ignored.\<close>

definition svc_record_payload :: "nat \<Rightarrow> nfc_ndef_record_desc \<Rightarrow> u8 list res" where
  "svc_record_payload n r = (case payload_construct (rec_payload r) of None \<Rightarrow> Inl UB
     | Some pc \<Rightarrow> on_err (pc (Some (replicate n 0, of_nat n))) (\<lambda>_. Inr (replicate n 0)) (\<lambda>(bin_rec, _). Inr bin_rec))"

fun svc_select_loop ::
    "tnep_env \<Rightarrow> tnep_tag \<Rightarrow> nfc_ndef_record_desc option list \<Rightarrow> (tnep_tag \<times> tnep_svc_record_status) res" where
  "svc_select_loop env s [] = Inr (s, TNEP_SVC_NOT_FOUND)"
| "svc_select_loop env s (None # rs) = Inl UB"
| "svc_select_loop env s (Some r # rs) =
     bindE (ndef_check_rec_type r nfc_ndef_tnep_rec_type_svc_select 2) (\<lambda>select_rec.
     if select_rec then
       bindE (svc_record_payload (te_rx_max_record_size env) r) (\<lambda>bin_rec.
       bindE (mem_byte bin_rec 0) (\<lambda>uri_len.
       tnep_svc_set_active env s (drop 1 bin_rec) (ucast uri_len)))
     else svc_select_loop env s rs)"

definition tnep_desc_buf_len :: "tnep_env \<Rightarrow> u32" where
  "tnep_desc_buf_len env = sizeof_parser_msg_1 (te_abi env) +
     NFC_NDEF_MSG_PARSER_DELTA (te_abi env) * (te_rx_max_record_cnt env - 1)"

text \<open>The result is the status, or the error code the function returns instead.\<close>

definition tnep_svc_select_from_msg ::
    "tnep_env \<Rightarrow> tnep_tag \<Rightarrow> (tnep_tag \<times> (err + tnep_svc_record_status)) res" where
  "tnep_svc_select_from_msg env s = (case tt_rx_data s of None \<Rightarrow> Inl UB
     | Some data \<Rightarrow>
         on_err (nfc_ndef_msg_parse (te_abi env) (te_recs0 env) (tnep_desc_buf_len env) data (tt_rx_len s))
           (\<lambda>_. Inr (s, Inl EINVAL))
           (\<lambda>(msg, _, len). bindE (svc_select_loop env (s\<lparr>tt_rx_len := len\<rparr>) (msg_records msg))
              (\<lambda>(s, st). Inr (s, Inr st))))"

section \<open>The state machine\<close>

definition tnep_error_check :: "tnep_env \<Rightarrow> tnep_tag \<Rightarrow> err option \<Rightarrow> tnep_tag res" where
  "tnep_error_check env s error_code = (case error_code of None \<Rightarrow> Inr s
     | Some e \<Rightarrow> (case tt_svc_active s of None \<Rightarrow> Inr s
         | Some i \<Rightarrow> tnep_callback env s i (Svc_Error i e) (\<lambda>cb. map_option (\<lambda>f. f e) (scb_error_detected cb))))"

definition tnep_sm_disabled :: "tnep_env \<Rightarrow> tnep_tag \<Rightarrow> tnep_event \<Rightarrow> tnep_tag res" where
  "tnep_sm_disabled env s event = Inr s"

definition service_ready_rx_status_process ::
    "tnep_env \<Rightarrow> tnep_tag \<Rightarrow> err + tnep_svc_record_status \<Rightarrow> tnep_outcome" where
  "service_ready_rx_status_process env s status = (case status of
     Inr TNEP_SVC_SELECTED \<Rightarrow>
       let s = s\<lparr>tt_app_data_expected := True, tt_state := TNEP_STATE_SERVICE_SELECTED\<rparr> in
       (case tt_svc_active s of None \<Rightarrow> Inl UB
        | Some i \<Rightarrow> bindE (tnep_callback env s i (Svc_Selected i) scb_selected) (\<lambda>s. Inr (s, None)))
   | Inr TNEP_SVC_NOT_FOUND \<Rightarrow> tnep_tx_initial_msg_set env s
   | Inr TNEP_SVC_DESELECTED \<Rightarrow> tnep_tx_initial_msg_set env s
   | Inl _ \<Rightarrow> Inr (s, Some ENOTSUP))"

definition tnep_sm_service_ready :: "tnep_env \<Rightarrow> tnep_tag \<Rightarrow> tnep_event \<Rightarrow> tnep_tag res" where
  "tnep_sm_service_ready env s event =
     bindE (case event of
        TNEP_EVENT_MSG_RX_NEW \<Rightarrow>
          bindE (tnep_tx_msg_encode env s None) (\<lambda>(s, err).
          if err \<noteq> None then Inr (s, err) else
          bindE (tnep_svc_select_from_msg env s) (\<lambda>(s, status).
          service_ready_rx_status_process env s status))
      | TNEP_EVENT_TAG_SELECTED \<Rightarrow> tnep_tx_initial_msg_set env s
      | TNEP_EVENT_DUMMY \<Rightarrow> Inr (s, Some ENOTSUP))
     (\<lambda>(s, err). tnep_error_check env s err)"

definition service_selected_rx_status_process ::
    "tnep_env \<Rightarrow> tnep_tag \<Rightarrow> nat \<Rightarrow> err + tnep_svc_record_status \<Rightarrow> tnep_outcome" where
  "service_selected_rx_status_process env s service status = (case status of
     Inr TNEP_SVC_NOT_FOUND \<Rightarrow>
       let s = s\<lparr>tt_app_data_expected := True\<rparr> in
       (case (tt_svc_active s, tt_rx_data s) of
          (Some i, Some data) \<Rightarrow>
            bindE (tnep_callback env s i (Svc_Message i data (tt_rx_len s))
                     (\<lambda>cb. map_option (\<lambda>f. f data (tt_rx_len s)) (scb_message_received cb))) (\<lambda>s. Inr (s, None))
        | _ \<Rightarrow> Inl UB)
   | Inr TNEP_SVC_SELECTED \<Rightarrow>
       bindE (tnep_callback env s service (Svc_Deselected service) scb_deselected) (\<lambda>s.
       let s = s\<lparr>tt_app_data_expected := True\<rparr> in
       (case tt_svc_active s of None \<Rightarrow> Inl UB
        | Some i \<Rightarrow> bindE (tnep_callback env s i (Svc_Selected i) scb_selected) (\<lambda>s. Inr (s, None))))
   | Inr TNEP_SVC_DESELECTED \<Rightarrow>
       bindE (tnep_tx_initial_msg_set env s) (\<lambda>(s, err).
       bindE (tnep_callback env s service (Svc_Deselected service) scb_deselected) (\<lambda>s.
       Inr (s\<lparr>tt_app_data_expected := False, tt_state := TNEP_STATE_SERVICE_READY\<rparr>, err)))
   | Inl _ \<Rightarrow> Inr (s, Some ENOTSUP))"

definition tnep_sm_service_selected :: "tnep_env \<Rightarrow> tnep_tag \<Rightarrow> tnep_event \<Rightarrow> tnep_tag res" where
  "tnep_sm_service_selected env s event = (case tt_svc_active s of None \<Rightarrow> Inr s
     | Some last_service \<Rightarrow>
         bindE (case event of
            TNEP_EVENT_MSG_RX_NEW \<Rightarrow>
              bindE (tnep_tx_msg_encode env s None) (\<lambda>(s, err).
              if err \<noteq> None then Inr (s, err) else
              bindE (tnep_svc_select_from_msg env s) (\<lambda>(s, status).
              service_selected_rx_status_process env s last_service status))
          | TNEP_EVENT_TAG_SELECTED \<Rightarrow>
              bindE (tnep_tx_initial_msg_set env s) (\<lambda>(s, err).
              Inr (s\<lparr>tt_state := TNEP_STATE_SERVICE_READY\<rparr>, err))
          | TNEP_EVENT_DUMMY \<Rightarrow> Inr (s, None))
         (\<lambda>(s, err). tnep_error_check env s err))"

definition tnep_state_machine :: "tnep_env \<Rightarrow> tnep_tag \<Rightarrow> tnep_event \<Rightarrow> tnep_tag res" where
  "tnep_state_machine env s = (case tt_state s of
     TNEP_STATE_DISABLED \<Rightarrow> tnep_sm_disabled env s
   | TNEP_STATE_SERVICE_READY \<Rightarrow> tnep_sm_service_ready env s
   | TNEP_STATE_SERVICE_SELECTED \<Rightarrow> tnep_sm_service_selected env s)"

section \<open>Interface\<close>

definition nfc_tnep_tag_tx_msg_buffer_register :: "tnep_tag \<Rightarrow> nat option \<Rightarrow> nat option \<Rightarrow> u32 \<Rightarrow> tnep_tag \<times> err option" where
  "nfc_tnep_tag_tx_msg_buffer_register s tx_buff tx_swap_buff len =
     (if tx_buff = None \<or> tx_swap_buff = None \<or> len = 0 then (s, Some EINVAL)
      else (s\<lparr>tt_tx_len := len, tt_tx_data := tx_buff, tt_tx_swap := tx_swap_buff\<rparr>, None))"

definition nfc_tnep_tag_rx_msg_indicate :: "tnep_tag \<Rightarrow> ptr \<Rightarrow> u32 \<Rightarrow> tnep_tag" where
  "nfc_tnep_tag_rx_msg_indicate s rx_buffer len =
     (if len < 1 \<or> rx_buffer = None then s
      else s\<lparr>tt_rx_len := len, tt_rx_data := rx_buffer,
             tt_msg_rx := \<lparr>sig_signaled = True, sig_result = TNEP_EVENT_MSG_RX_NEW\<rparr>\<rparr>)"

definition nfc_tnep_tag_init :: "tnep_env \<Rightarrow> tnep_tag \<Rightarrow> bool list option \<Rightarrow> u8 \<Rightarrow> bool \<Rightarrow> tnep_outcome" where
  "nfc_tnep_tag_init env s events event_cnt payload_set = (case events of
     None \<Rightarrow> Inr (s, Some EINVAL)
   | Some evs \<Rightarrow>
       if \<not> payload_set then Inr (s, Some EINVAL)
       else if event_cnt \<noteq> NFC_TNEP_EVENTS_NUMBER then Inr (s, Some EINVAL)
       else if tt_state s \<noteq> TNEP_STATE_DISABLED then Inr (s, Some ENOTSUP)
       else if tt_tx_data s = None \<or> tt_tx_swap s = None \<or> tt_tx_len s = 0 then Inr (s, Some EIO)
       else if length evs < 2 then Inl UB
       else Inr (s\<lparr>tt_events := Some (evs[0 := False, 1 := False]), tt_current_buff := tt_tx_data s, tt_data_set := True,
                   tt_svc_cnt := of_nat (length (te_svcs env)),
                   tt_msg_rx := (tt_msg_rx s)\<lparr>sig_signaled := False\<rparr>,
                   tt_msg_tx := (tt_msg_tx s)\<lparr>sig_signaled := False\<rparr>\<rparr>, None))"

definition nfc_tnep_tag_initial_msg_create ::
    "tnep_env \<Rightarrow> tnep_tag \<Rightarrow> u32 \<Rightarrow> initial_msg_encode_t option \<Rightarrow> tnep_outcome" where
  "nfc_tnep_tag_initial_msg_create env s max_record_cnt msg_encode_cb =
     (if max_record_cnt \<noteq> 0 \<and> msg_encode_cb = None then Inr (s, Some EINVAL)
      else if tt_svc_cnt s < 1 then Inr (s, Some EFAULT)
      else bindE (tnep_tx_initial_msg_set env
                    (s\<lparr>tt_max_records_cnt := max_record_cnt, tt_initial_msg_encode := msg_encode_cb\<rparr>)) (\<lambda>(s, err).
           if err \<noteq> None then Inr (s, err)
           else Inr (s\<lparr>tt_state := TNEP_STATE_SERVICE_READY\<rparr>, None)))"

text \<open>One round of \<open>nfc_tnep_tag_process\<close>: the event with index 0 belongs to \<open>msg_rx\<close>, the one with
  index 1 to \<open>msg_tx\<close>.\<close>

definition tnep_process_event :: "tnep_env \<Rightarrow> tnep_tag \<Rightarrow> nat \<Rightarrow> tnep_tag res" where
  "tnep_process_event env s i = (case tt_events s of None \<Rightarrow> Inl UB
     | Some evs \<Rightarrow>
         if i \<ge> length evs then Inl UB
         else if evs ! i then
           let event = sig_result (if i = 0 then tt_msg_rx s else tt_msg_tx s);
               s = (if i = 0 then s\<lparr>tt_msg_rx := (tt_msg_rx s)\<lparr>sig_signaled := False\<rparr>\<rparr>
                    else s\<lparr>tt_msg_tx := (tt_msg_tx s)\<lparr>sig_signaled := False\<rparr>\<rparr>)
           in tnep_state_machine env (s\<lparr>tt_events := Some (evs[i := False])\<rparr>) event
         else Inr s)"

definition nfc_tnep_tag_process :: "tnep_env \<Rightarrow> tnep_tag \<Rightarrow> tnep_tag res" where
  "nfc_tnep_tag_process env s = foldE (tnep_process_event env) s [0, 1]"

definition nfc_tnep_tag_on_selected :: "tnep_tag \<Rightarrow> tnep_tag" where
  "nfc_tnep_tag_on_selected s = s\<lparr>tt_msg_tx := \<lparr>sig_signaled = True, sig_result = TNEP_EVENT_TAG_SELECTED\<rparr>\<rparr>"

definition nfc_tnep_tag_svc_count_get :: "tnep_tag \<Rightarrow> u32" where
  "nfc_tnep_tag_svc_count_get s = tt_svc_cnt s"

text \<open>The kernel's \<open>k_poll\<close> on the two events, which the application calls before it processes them.\<close>

definition tnep_k_poll :: "tnep_tag \<Rightarrow> tnep_tag" where
  "tnep_k_poll s = (case tt_events s of
     Some (a # b # evs) \<Rightarrow> s\<lparr>tt_events := Some ((a \<or> sig_signaled (tt_msg_rx s)) # (b \<or> sig_signaled (tt_msg_tx s)) # evs)\<rparr>
   | _ \<Rightarrow> s)"

end
