(* ===== verification/Ndef_Lengths.thy ===== *)
theory Ndef_Lengths
  imports Ndef_Parser
begin

text \<open>
  The lengths that the bytes of a message announce, read off the NDEF record layout and not through the
  parser. The record parser adds a record's lengths up in 32 bits and does not notice when the sum wraps
  around (\<open>subsys/nfc/ndef/record_parser.c\<close>). What is stated here is when that cannot happen, and that the
  descriptors of a parsed message are then safe to use.
\<close>

section \<open>The record layout\<close>

definition short_record :: "u8 list \<Rightarrow> bool" where
  "short_record d \<longleftrightarrow> d ! 0 AND 0x10 \<noteq> 0"

definition header_length :: "u8 list \<Rightarrow> nat" where
  "header_length d = (if short_record d then 3 else 6)"

definition announced_payload :: "u8 list \<Rightarrow> nat" where
  "announced_payload d = (if short_record d then unat (d ! 2) else unat (be32 (d ! 2) (d ! 3) (d ! 4) (d ! 5)))"

definition announced_id :: "u8 list \<Rightarrow> nat" where
  "announced_id d = (if d ! 0 AND 0x08 \<noteq> 0 \<and> header_length d < length d then unat (d ! header_length d) else 0)"

definition record_length :: "u8 list \<Rightarrow> nat" where
  "record_length d = header_length d + (if d ! 0 AND 0x08 \<noteq> 0 then 1 else 0) + unat (d ! 1) + announced_id d + announced_payload d"

text \<open>Up to the record marked as the last one, no record announces a payload of nearly \<open>2 ^ 32\<close> bytes: the other
  lengths of a record come to at most 517 bytes.\<close>

function lengths_ok :: "u8 list \<Rightarrow> bool" where
  "lengths_ok d =
     (if length d < 3 \<or> length d < header_length d then True
      else if 2 ^ 32 \<le> announced_payload d + 517 then False
      else if d ! 0 AND 0x40 \<noteq> 0 then True
      else lengths_ok (drop (record_length d) d))"
  by pat_completeness auto
termination
  by (relation "measure length") (auto simp: record_length_def header_length_def)

declare lengths_ok.simps [simp del]

lemma lengths_okD:
  assumes "lengths_ok d" "3 \<le> length d" "header_length d \<le> length d"
  shows "announced_payload d + 517 < 2 ^ 32" "d ! 0 AND 0x40 = 0 \<Longrightarrow> lengths_ok (drop (record_length d) d)"
  using assms(1) unfolding lengths_ok.simps [of d] using assms(2,3) by (simp_all split: if_splits)

section \<open>What the parser finds\<close>

lemma record_parse_lengths:
  assumes p: "nfc_ndef_record_parse old data len = Inr (bin, r, loc, used)" and len: "unat len \<le> length data"
  defines "d \<equiv> take (unat len) data"
  shows "3 \<le> length d" "header_length d \<le> length d" "unat (bin_payload_length bin) = announced_payload d"
    "loc = d ! 0 AND 0xC0" "announced_payload d + 517 < 2 ^ 32 \<Longrightarrow> unat used = record_length d"
proof -
  obtain flags ty pl off ex il ip off' ex' where
    st: "mem_byte data 0 = Inr flags" "mem_byte data 1 = Inr ty" "3 \<le> len"
       "(if flags AND NDEF_RECORD_SR_MASK \<noteq> 0
             then bindE (mem_byte data 2) (\<lambda>b. Inr (ucast b, 3, 3))
             else if 6 > len then Inl EINVAL
             else bindE (get_be32 (drop 2 data)) (\<lambda>w. Inr (w, 6, 6))) = Inr (pl, off, ex)"
       "(if flags AND NDEF_RECORD_IL_MASK \<noteq> 0
             then if ex + 1 > len then Inl EINVAL
                  else bindE (mem_byte data off) (\<lambda>b. Inr (b, rec_id old, off + 1, ex + 1))
             else Inr (0, None, off, ex)) = Inr (il, ip, off', ex')"
    and u: "used = ex' + (ucast ty + ucast il + pl)" "bin_payload_length bin = pl" "loc = flags AND NDEF_RECORD_LOCATION_MASK"
    using p unfolding nfc_ndef_record_parse_def Let_def
    by (simp only: if_Inl_eq_Inr bindE_eq_Inr split_paired_Ex prod.case Inr_inject prod.inject linorder_not_less)
      fastforce
  have ld: "length d = unat len" using len by (simp add: d_def)
  have l3: "3 \<le> unat len" using st(3) by (simp add: word_le_nat_alt)
  then show "3 \<le> length d" using ld by simp
  have n: "d ! i = data ! i" if "i < unat len" for i using that by (simp add: d_def)
  have f: "flags = d ! 0" "ty = d ! 1" using st(1,2) n [of 0] n [of 1] l3 by (auto simp: resE mem_byte_def split: if_splits)
  show "loc = d ! 0 AND 0xC0" using u(3) f by simp
  have h: "off = header_length d" "unat ex = header_length d" "header_length d \<le> unat len" "unat pl = announced_payload d"
  proof -
    show "off = header_length d" "unat ex = header_length d"
      using st(4) f by (auto simp: header_length_def short_record_def resE split: if_splits)
    show h: "header_length d \<le> unat len"
      using st(4) f l3 by (auto simp: header_length_def short_record_def word_less_nat_alt split: if_splits)
    show "unat pl = announced_payload d"
    proof (cases "short_record d")
      case True
      then show ?thesis using st(4) f n [of 2] l3
        by (auto simp: announced_payload_def short_record_def resE mem_byte_def split: if_splits)
    next
      case False
      then have "6 \<le> unat len" using h by (simp add: header_length_def)
      then show ?thesis using False st(4) f n [of 2] n [of 3] n [of 4] n [of 5] len
        by (auto simp: announced_payload_def short_record_def get_be32_enough split: if_splits)
    qed
  qed
  show "header_length d \<le> length d" "unat (bin_payload_length bin) = announced_payload d"
    using h ld u(2) by simp_all
  assume nw: "announced_payload d + 517 < 2 ^ 32"
  have hl: "header_length d = 3 \<or> header_length d = 6" by (simp add: header_length_def)
  have i: "unat ex' = header_length d + (if d ! 0 AND 0x08 \<noteq> 0 then 1 else 0)" "unat il = announced_id d"
  proof -
    have "unat (ex + 1) = unat ex + 1" using unat_add_no_wrap_u32 [of ex 1] h(2) hl by auto
    moreover have "header_length d < unat len" if "\<not> len < ex + 1"
      using that h(2) calculation by (simp add: word_less_nat_alt)
    moreover have "data ! header_length d = d ! header_length d" if "header_length d < unat len"
      using n that by simp
    ultimately show "unat ex' = header_length d + (if d ! 0 AND 0x08 \<noteq> 0 then 1 else 0)" "unat il = announced_id d"
      using st(5) f h ld by (auto simp: announced_id_def resE mem_byte_def split: if_splits)
  qed
  have "unat used = (unat ex' + (unat ty + unat il + unat pl)) mod 2 ^ 32"
    unfolding u(1) by (simp add: unat_word_ariths mod_simps)
  also have "\<dots> = unat ex' + (unat ty + unat il + unat pl)"
    using i(1) h(4) hl nw unat_u8_lt [of ty] unat_u8_lt [of il] by (intro mod_less) (auto split: if_splits)
  finally show "unat used = record_length d" using i f(2) h(4) by (simp add: record_length_def)
qed

lemma msg_parser_loop_lengths:
  assumes "parser_inv slots msg slot data left"
    and "msg_parser_loop recs0 slots msg slot data left = Inr (msg', left')"
    and "lengths_ok (take (unat left) data)"
  shows "\<exists>rs. msg_records msg' = msg_records msg @ map Some rs \<and> list_all rec_ok rs"
  using assms
proof (induction "slots - slot" arbitrary: msg slot data left rule: less_induct)
  case less
  let ?d = "take (unat left) data"
  have s: "slot < slots" "unat left \<le> length data" using less.prems(1) by (auto simp: parser_inv_def word_less_nat_alt)
  from less.prems(1,2) obtain bin r loc used msg1 where
    p: "nfc_ndef_record_parse (recs0 slot) data left = Inr (bin, r, loc, used)" and m1: "msg_records msg1 = msg_records msg @ [Some r]"
    and c: "(loc = NDEF_LAST_RECORD \<or> loc = NDEF_LONE_RECORD) \<and> msg' = msg1 \<and> left' = left - used \<or>
     (loc = NDEF_FIRST_RECORD \<or> loc = NDEF_MIDDLE_RECORD) \<and>
       parser_inv slots msg1 (slot + 1) (drop (unat used) data) (left - used) \<and>
       msg_parser_loop recs0 slots msg1 (slot + 1) (drop (unat used) data) (left - used) = Inr (msg', left')"
    by (rule msg_parser_loop_rounds)
  note pl = record_parse_lengths [OF p s(2)]
  note lo = lengths_okD [OF less.prems(3) pl(1,2)]
  note nw = lo(1)
  have "no_wrap bin" using nw pl(3) by (simp add: no_wrap_def)
  then have ok: "rec_ok r"
    using record_parse_parsed_ok [OF p s(2)] record_parse_used [OF p] by (auto simp: parsed_ok_def rec_ok_def)
  from c show ?case
  proof
    assume "(loc = NDEF_LAST_RECORD \<or> loc = NDEF_LONE_RECORD) \<and> msg' = msg1 \<and> left' = left - used"
    then show ?thesis using m1 ok by (intro exI [of _ "[r]"]) simp
  next
    assume "(loc = NDEF_FIRST_RECORD \<or> loc = NDEF_MIDDLE_RECORD) \<and>
       parser_inv slots msg1 (slot + 1) (drop (unat used) data) (left - used) \<and>
       msg_parser_loop recs0 slots msg1 (slot + 1) (drop (unat used) data) (left - used) = Inr (msg', left')"
    then have l: "loc = NDEF_FIRST_RECORD \<or> loc = NDEF_MIDDLE_RECORD" and
      n: "parser_inv slots msg1 (slot + 1) (drop (unat used) data) (left - used)"
      "msg_parser_loop recs0 slots msg1 (slot + 1) (drop (unat used) data) (left - used) = Inr (msg', left')" by simp_all
    have "?d ! 0 AND 0x40 = (?d ! 0 AND 0xC0) AND 0x40" by (simp add: and.assoc)
    then have "?d ! 0 AND 0x40 = 0" using l pl(4) by auto
    then have "lengths_ok (drop (unat used) ?d)" using lo(2) pl(5) [OF nw] by simp
    moreover have "drop (unat used) ?d = take (unat (left - used)) (drop (unat used) data)"
      using record_parse_used [OF p] by (simp add: drop_take unat_sub_le)
    ultimately have k: "lengths_ok (take (unat (left - used)) (drop (unat used) data))" by simp
    have "slots - (slot + 1) < slots - slot" using s(1) by simp
    from less.hyps [OF this n k] obtain rs where
      "msg_records msg' = msg_records msg1 @ map Some rs" "list_all rec_ok rs" by blast
    then show ?thesis using m1 ok by (intro exI [of _ "r # rs"]) auto
  qed
qed

lemma msg_parse_lengths:
  assumes "abi_ok abi" "unat len \<le> length data" "lengths_ok (take (unat len) data)"
    and p: "nfc_ndef_msg_parse abi recs0 rlen data len = Inr (msg, used, k)"
  shows "\<exists>rs. msg_records msg = map Some rs \<and> list_all rec_ok rs"
proof -
  obtain n msg0 left where r: "nfc_ndef_msg_parser_memo_resolve abi rlen = Inr (n, msg0, used)"
      and l: "msg_parser_loop recs0 (unat n) msg0 0 data len = Inr (msg, left)"
    using p by (auto simp: nfc_ndef_msg_parse_def nfc_ndef_msg_parser_internal_def bindE_eq_Inr)
  note inv = memo_resolve_parser_inv [OF r memo_resolve_bound(1) [OF assms(1) r] assms(2)]
  from msg_parser_loop_lengths [OF inv(1) l assms(3)] inv(2) show ?thesis by simp
qed

section \<open>What the encoder writes\<close>

text \<open>Every message that the encoder writes is within the bound.\<close>

lemma record_bytes_lengths:
  fixes loc :: u8 and body rest :: "u8 list" and r :: nfc_ndef_record_desc
  assumes ok: "record_desc_ok r" "location_ok loc" "record_tnf_ok r" and body: "length body < 2 ^ 32"
  defines "d \<equiv> record_bytes r loc body @ rest"
  shows "header_length d = 6" "announced_payload d = length body" "d ! 0 AND 0xC0 = loc"
    "record_length d = length (record_bytes r loc body)" "6 \<le> length d"
proof -
  note fl = record_flags_fields [OF ok(2,3)] and nth = record_bytes_nth [OF ok(1), of loc body rest, folded d_def]
  show l6: "6 \<le> length d" by (simp add: d_def length_record_bytes)
  have sr: "\<not> short_record d" using fl(3) nth(1) by (simp add: short_record_def)
  then show h: "header_length d = 6" by (simp add: header_length_def)
  show "d ! 0 AND 0xC0 = loc" using fl(2) nth(1) by simp
  have "be32 (d ! 2) (d ! 3) (d ! 4) (d ! 5) = of_nat (length body)"
    using get_be32_enough [of "drop 2 d", unfolded nth(3) get_put_be32, folded nth(3)] l6 by simp
  then show a: "announced_payload d = length body" using sr body by (simp add: announced_payload_def unat_of_nat_u32)
  have it: "length (record_id_type r) = (if 0 < rec_id_length r then 1 else 0) + unat (rec_type_length r) + unat (rec_id_length r)"
    using ok(1) by (simp add: record_id_type_def record_desc_ok_def mem_simps)
  have i: "announced_id d = unat (rec_id_length r)"
    using fl(4) nth(1) h record_bytes_drops(1) [OF ok(1), of loc body rest, folded d_def] it
    by (auto simp: announced_id_def d_def length_record_bytes u8_pos_unat)
  show "record_length d = length (record_bytes r loc body)"
    using i h a it fl(4) nth(1,2) by (auto simp: record_length_def length_record_bytes)
qed

lemma lengths_ok_msg_bytes_from:
  assumes "list_all parseable rs" "emitted_size rs + 517 < 2 ^ 32"
  shows "lengths_ok (msg_bytes_from begins rs)"
  using assms
proof (induction rs arbitrary: begins)
  case Nil
  then show ?case by (subst lengths_ok.simps) simp
next
  case (Cons e rs)
  obtain r body where e: "e = (r, body)" by (cases e)
  let ?d = "msg_bytes_from begins (e # rs)" and ?m = "message_mark begins (rs = [])"
  have ok: "record_desc_ok r" "record_tnf_ok r" and sz: "length body + 517 < 2 ^ 32" "emitted_size rs + 517 < 2 ^ 32"
    using Cons.prems e by (auto simp: parseable_def emitted_size_def)
  have b: "length body < 2 ^ 32" using sz(1) by simp
  note rb = record_bytes_lengths [OF ok(1) location_ok_mark ok(2) b, of begins "rs = []" "msg_bytes_from False rs"]
  have "lengths_ok (msg_bytes_from False rs)" using Cons.IH Cons.prems(1) sz(2) by simp
  then show ?case using rb sz(1) e by (subst lengths_ok.simps) simp
qed

end
