(* ===== verification/Tnep_Tag_Inv.thy ===== *)
theory Tnep_Tag_Inv
  imports Tnep_Tag Ndef_Lengths
begin

text \<open>
  Safety of the TNEP tag: an invariant of the module's state that every operation preserves, under
  which no operation has undefined behaviour.
\<close>

section \<open>What the application promises\<close>

definition msg_ok :: "nfc_ndef_msg_desc \<Rightarrow> bool" where
  "msg_ok m \<longleftrightarrow> (\<exists>rs. msg_holds m rs \<and> emitted_size rs + 9 < 2 ^ 32)"

definition app_ok :: "tnep_app_call \<Rightarrow> bool" where
  "app_ok c = (case c of App_Data (Some m) status \<Rightarrow> msg_ok m | _ \<Rightarrow> True)"

definition svc_emitted :: "nfc_tnep_tag_service \<Rightarrow> emitted" where
  "svc_emitted svc = (NFC_TNEP_SERIVCE_PARAM_RECORD_DESC_DEF (svc_parameters svc), param_body (svc_parameters svc))"

text \<open>A service as \<open>NFC_TNEP_TAG_SERVICE_DEF\<close> defines it, with all callbacks and a URI that a received
  record can hold.\<close>

definition svc_ok :: "nat \<Rightarrow> nfc_tnep_tag_service \<Rightarrow> bool" where
  "svc_ok n svc \<longleftrightarrow> param_ok (svc_parameters svc) \<and> svc_ndef_record svc = Some (fst (svc_emitted svc)) \<and>
     unat (par_uri_length (svc_parameters svc)) < n \<and>
     (\<exists>sel des msg err. svc_callbacks svc = \<lparr>scb_selected = Some sel, scb_deselected = Some des,
        scb_message_received = Some msg, scb_error_detected = Some err\<rparr> \<and>
        list_all app_ok sel \<and> list_all app_ok des \<and> (\<forall>d n. list_all app_ok (msg d n)) \<and> (\<forall>e. list_all app_ok (err e)))"

definition env_ok :: "tnep_env \<Rightarrow> bool" where
  "env_ok env \<longleftrightarrow> list_all (svc_ok (te_rx_max_record_size env)) (te_svcs env) \<and>
     length (te_svcs env) < 65536 \<and> emitted_size (map svc_emitted (te_svcs env)) < 2 ^ 31 \<and>
     0 < te_rx_max_record_size env \<and> te_rx_max_record_size env < 2 ^ 32 \<and> abi_ok (te_abi env)"

text \<open>The callback for the initial message adds records and passes existing records on.\<close>

definition initial_cb_ok :: "initial_msg_encode_t \<Rightarrow> bool" where
  "initial_cb_ok cb \<longleftrightarrow> (\<forall>m. msg_holds m [] \<longrightarrow> (case cb m of
     (Some m', None, _) \<Rightarrow> \<exists>rs. msg_holds m' rs \<and> emitted_size rs < 2 ^ 31
   | (Some m', Some ds, cnt) \<Rightarrow> unat cnt \<le> length ds \<and> (\<exists>rs es. msg_holds m' rs \<and>
       map fst es = take (unat cnt) ds \<and> list_all emits es \<and> emitted_size rs + emitted_size es < 2 ^ 31)
   | (None, _, _) \<Rightarrow> True))"

section \<open>The invariant\<close>

definition bufs_ok :: "tnep_env \<Rightarrow> tnep_tag \<Rightarrow> bool" where
  "bufs_ok env s \<longleftrightarrow> (case (tt_tx_data s, tt_tx_swap s) of
     (Some a, Some b) \<Rightarrow> unat (tt_tx_len s) \<le> length (tt_mem s a) \<and> unat (tt_tx_len s) \<le> length (tt_mem s b) \<and>
        tt_tx_len s \<noteq> 0 \<and> (te_t4t env \<longrightarrow> 2 \<le> unat (tt_tx_len s))
   | (None, None) \<Rightarrow> True | _ \<Rightarrow> False)"

text \<open>The bytes of a received message are there, and none of its records announces a payload of nearly
  \<open>2 ^ 32\<close> bytes. The second part is about the bytes that the poller sent; the module does not check it.\<close>

definition rx_ok :: "u8 list \<Rightarrow> u32 \<Rightarrow> bool" where
  "rx_ok data len \<longleftrightarrow> unat len \<le> length data \<and> lengths_ok (take (unat len) data)"

definition rx_pending :: "tnep_tag \<Rightarrow> bool" where
  "rx_pending s \<longleftrightarrow> sig_signaled (tt_msg_rx s) \<or> (\<exists>evs. tt_events s = Some evs \<and> evs ! 0)"

definition tag_base :: "tnep_env \<Rightarrow> tnep_tag \<Rightarrow> bool" where
  "tag_base env s \<longleftrightarrow> bufs_ok env s \<and>
     (if tt_data_set s
      then tt_tx_data s \<noteq> None \<and> tt_svc_cnt s = of_nat (length (te_svcs env)) \<and>
        (\<exists>evs. tt_events s = Some evs \<and> 2 \<le> length evs)
      else tt_state s = TNEP_STATE_DISABLED \<and> tt_svc_cnt s = 0 \<and> tt_events s = None) \<and>
     (\<forall>i. tt_svc_active s = Some i \<longrightarrow> i < length (te_svcs env)) \<and>
     (rx_pending s \<longrightarrow> sig_result (tt_msg_rx s) = TNEP_EVENT_MSG_RX_NEW \<and>
        (\<exists>data. tt_rx_data s = Some data \<and> rx_ok data (tt_rx_len s))) \<and>
     sig_result (tt_msg_tx s) \<noteq> TNEP_EVENT_MSG_RX_NEW \<and>
     unat (tt_max_records_cnt s) < 2 ^ 31 \<and>
     (\<forall>cb. tt_initial_msg_encode s = Some cb \<longrightarrow> initial_cb_ok cb)"

text \<open>Outside of the handlers a selected state has a service.\<close>

definition tag_inv :: "tnep_env \<Rightarrow> tnep_tag \<Rightarrow> bool" where
  "tag_inv env s \<longleftrightarrow> tag_base env s \<and> (tt_state s = TNEP_STATE_SERVICE_SELECTED \<longrightarrow> tt_svc_active s \<noteq> None)"

text \<open>The part of the state that answering the poller does not touch.\<close>

definition tnep_core :: "tnep_tag \<Rightarrow> tnep_tag" where
  "tnep_core s = s\<lparr>tt_mem := (\<lambda>_. []), tt_current_buff := None, tt_status_record := 0, tt_app_data_expected := False,
     tt_log := []\<rparr>"

fun is_payload :: "tnep_out \<Rightarrow> bool" where
  "is_payload (Payload_Set b n) = True"
| "is_payload _ = False"

definition same_ctl :: "tnep_tag \<Rightarrow> tnep_tag \<Rightarrow> bool" where
  "same_ctl s s' \<longleftrightarrow> tnep_core s' = tnep_core s \<and> (\<forall>a. length (tt_mem s' a) = length (tt_mem s a)) \<and>
     (\<exists>evs. tt_log s' = tt_log s @ evs \<and> list_all is_payload evs)"

lemma tnep_core_fields:
  assumes "tnep_core s' = tnep_core s"
  shows "tt_state s' = tt_state s" "tt_tx_data s' = tt_tx_data s" "tt_tx_swap s' = tt_tx_swap s"
    "tt_tx_len s' = tt_tx_len s" "tt_rx_data s' = tt_rx_data s" "tt_rx_len s' = tt_rx_len s"
    "tt_svc_active s' = tt_svc_active s" "tt_svc_cnt s' = tt_svc_cnt s" "tt_max_records_cnt s' = tt_max_records_cnt s"
    "tt_data_set s' = tt_data_set s" "tt_initial_msg_encode s' = tt_initial_msg_encode s"
    "tt_events s' = tt_events s" "tt_msg_rx s' = tt_msg_rx s" "tt_msg_tx s' = tt_msg_tx s"
  using arg_cong [OF assms, of tt_state] arg_cong [OF assms, of tt_tx_data] arg_cong [OF assms, of tt_tx_swap]
    arg_cong [OF assms, of tt_tx_len] arg_cong [OF assms, of tt_rx_data] arg_cong [OF assms, of tt_rx_len]
    arg_cong [OF assms, of tt_svc_active] arg_cong [OF assms, of tt_svc_cnt] arg_cong [OF assms, of tt_max_records_cnt]
    arg_cong [OF assms, of tt_data_set] arg_cong [OF assms, of tt_initial_msg_encode] arg_cong [OF assms, of tt_events]
    arg_cong [OF assms, of tt_msg_rx] arg_cong [OF assms, of tt_msg_tx]
  by (simp_all add: tnep_core_def)

lemma tag_base_core:
  assumes "tnep_core s' = tnep_core s" "\<And>a. length (tt_mem s' a) = length (tt_mem s a)"
  shows "tag_base env s' = tag_base env s"
  by (simp only: tag_base_def bufs_ok_def rx_pending_def tnep_core_fields [OF assms(1)] assms(2))

lemma same_ctl_refl [simp]: "same_ctl s s"
  by (simp add: same_ctl_def)

lemma same_ctl_trans: "same_ctl s s' \<Longrightarrow> same_ctl s' s'' \<Longrightarrow> same_ctl s s''"
  unfolding same_ctl_def by (metis append.assoc list_all_append)

lemma same_ctl_inv: "same_ctl s s' \<Longrightarrow> tag_base env s' = tag_base env s"
  unfolding same_ctl_def by (intro tag_base_core) auto

lemma same_ctl_core: "same_ctl s s' \<Longrightarrow> tnep_core s' = tnep_core s"
  by (simp add: same_ctl_def)

lemmas same_ctl_fields = tnep_core_fields [OF same_ctl_core]

lemma tnep_emit_simps [simp]:
  "tt_state (tnep_emit s e) = tt_state s" "tt_tx_data (tnep_emit s e) = tt_tx_data s"
  "tt_svc_active (tnep_emit s e) = tt_svc_active s" "tt_mem (tnep_emit s e) = tt_mem s"
  "tt_log (tnep_emit s e) = tt_log s @ [e]" "tnep_core (tnep_emit s e) = tnep_core s"
  "tt_app_data_expected (tnep_emit s e) = tt_app_data_expected s" "tt_data_set (tnep_emit s e) = tt_data_set s"
  by (simp_all add: tnep_emit_def tnep_core_def)

lemma tnep_emit_inv [simp]: "tag_base env (tnep_emit s e) = tag_base env s"
  by (rule tag_base_core) simp_all

section \<open>Encoding\<close>

lemma area_encode_safe:
  assumes "msg = None \<or> (\<exists>m rs. msg = Some m \<and> msg_holds m rs \<and> emitted_size rs < 2 ^ 32)" "unat len \<le> length area"
  obtains area' len' err where "tnep_area_encode env msg area len = Inr (area', len', err)" "length area' = length area"
proof (cases msg)
  case None
  then show ?thesis using that by (simp add: tnep_area_encode_def)
next
  case (Some m)
  then obtain rs where rs: "msg_holds m rs" "emitted_size rs < 2 ^ 32" using assms(1) by auto
  note w = msg_holds_writes(2) [OF rs]
  show ?thesis
  proof (cases "length (msg_bytes rs) \<le> unat len")
    case True
    with writes_fits [OF w assms(2)] Some assms(2) that show ?thesis
      by (cases "msg_record_count m > 0") (simp_all add: tnep_area_encode_def)
  next
    case False
    then have "nfc_ndef_msg_encode (Some m) (Some (area, len)) \<in> {Inl ENOMEM, Inl ENOSR}"
      using writes_nospace [OF w assms(2)] by auto
    with Some that show ?thesis
      by (cases "msg_record_count m > 0") (auto simp: tnep_area_encode_def)
  qed
qed

definition next_buff :: "tnep_tag \<Rightarrow> nat option" where
  "next_buff s = (if tt_current_buff s = tt_tx_data s then tt_tx_swap s else tt_tx_data s)"

text \<open>The state after the buffer \<open>b\<close> with contents \<open>mem\<close> was handed over.\<close>

definition handed :: "tnep_tag \<Rightarrow> nat \<Rightarrow> u8 list \<Rightarrow> tnep_tag" where
  "handed s b mem = tnep_emit (s\<lparr>tt_current_buff := Some b, tt_mem := (tt_mem s)(b := mem)\<rparr>) (Payload_Set b (tt_tx_len s))"

lemma same_ctl_handed: "length mem = length (tt_mem s b) \<Longrightarrow> same_ctl s (handed s b mem)"
  by (auto simp: same_ctl_def handed_def) (simp add: tnep_core_def)

lemma ndef_file_encode_safe:
  assumes "2 \<le> length mem"
  obtains mem' where "on_err (nfc_t4t_ndef_file_encode (Some mem) (Some len)) (\<lambda>_. Inr mem) (\<lambda>(mem', _). Inr mem') = Inr mem'"
    "length mem' = length mem"
proof (cases "len < 1 \<or> len > 0xFFFF")
  case True
  then show ?thesis using that by (auto simp: nfc_t4t_ndef_file_encode_def)
next
  case False
  then show ?thesis using that assms by (simp add: nfc_t4t_ndef_file_encode_def mem_simps)
qed

lemma tx_msg_encode_handed:
  assumes inv: "tag_base env s" "tt_data_set s"
    and msg: "msg = None \<or> (\<exists>m rs. msg = Some m \<and> msg_holds m rs \<and> emitted_size rs < 2 ^ 32)"
  obtains b mem err where "tnep_tx_msg_encode env s msg = Inr (handed s b mem, err)" "next_buff s = Some b"
    "length mem = length (tt_mem s b)"
proof -
  obtain x y where xy: "tt_tx_data s = Some x" "tt_tx_swap s = Some y" "unat (tt_tx_len s) \<le> length (tt_mem s x)"
      "unat (tt_tx_len s) \<le> length (tt_mem s y)" "te_t4t env \<longrightarrow> 2 \<le> unat (tt_tx_len s)"
    using inv by (auto simp: tag_base_def bufs_ok_def split: option.splits)
  then obtain b where b: "next_buff s = Some b" "unat (tt_tx_len s) \<le> length (tt_mem s b)"
    using that [of y] that [of x] by (cases "tt_current_buff s = tt_tx_data s") (simp_all add: next_buff_def)
  let ?n = "unat (tt_tx_len s)" and ?off = "if te_t4t env then 2 else 0"
  let ?len = "if te_t4t env then tt_tx_len s - 2 else tt_tx_len s"
  define mem where "mem = replicate ?n 0 @ drop ?n (tt_mem s b)"
  have m: "mem_write (tt_mem s b) 0 (replicate ?n 0) = Inr mem" "length mem = length (tt_mem s b)" "?n \<le> length mem"
    using b(2) by (simp_all add: mem_write_0 mem_def)
  have "unat (tt_tx_len s - 2) = ?n - 2" if "te_t4t env"
    using xy(5) that by (simp add: unat_sub_le word_le_nat_alt)
  then have len: "unat ?len \<le> length (drop ?off mem)"
    using m(3) by auto
  obtain area' len' err where a: "tnep_area_encode env msg (drop ?off mem) ?len = Inr (area', len', err)"
      "length area' = length (drop ?off mem)"
    by (rule area_encode_safe [OF msg len, where env = env])
  have o: "?off \<le> length mem" using m(3) xy(5) by auto
  have l2: "length (take ?off mem @ area') = length mem" using a(2) o by simp
  obtain mem' where f: "(if te_t4t env
      then on_err (nfc_t4t_ndef_file_encode (Some (take ?off mem @ area')) (Some len')) (\<lambda>_. Inr (take ?off mem @ area')) (\<lambda>(mem', _). Inr mem')
      else Inr (take ?off mem @ area')) = Inr mem'" "length mem' = length mem"
  proof (cases "te_t4t env")
    case True
    then have "2 \<le> length (take ?off mem @ area')" using o l2 by simp
    from ndef_file_encode_safe [OF this] obtain mem' where
      "on_err (nfc_t4t_ndef_file_encode (Some (take ?off mem @ area')) (Some len')) (\<lambda>_. Inr (take ?off mem @ area')) (\<lambda>(mem', _). Inr mem') = Inr mem'"
      "length mem' = length (take ?off mem @ area')" by blast
    then show ?thesis using that True l2 by simp
  qed (use that l2 in simp)
  have "tnep_tx_msg_encode env s msg = Inr (handed s b mem', err)"
    unfolding tnep_tx_msg_encode_def next_buff_def [symmetric] b(1) option.case m(1) bindE_simps Let_def a(1) prod.case f(1)
    using inv(2) by (simp add: handed_def)
  with that b(1) f(2) m(2) show ?thesis by simp
qed

lemma tx_msg_encode_safe:
  assumes "tag_base env s" "tt_data_set s"
    and "msg = None \<or> (\<exists>m rs. msg = Some m \<and> msg_holds m rs \<and> emitted_size rs < 2 ^ 32)"
  obtains s' err where "tnep_tx_msg_encode env s msg = Inr (s', err)" "same_ctl s s'"
  using tx_msg_encode_handed [OF assms] same_ctl_handed by metis

lemma tx_encode_none_ok:
  "tnep_tx_msg_encode env s None = Inr (s', err) \<Longrightarrow> err = None"
  by (auto simp: tnep_tx_msg_encode_def tnep_area_encode_def Let_def bindE_eq_Inr split: option.splits if_splits)

section \<open>The initial message\<close>

lemma add_rec_Some: "tnep_tx_msg_add_rec m (Some r) = nfc_ndef_msg_record_add m (Some r)"
  by (simp add: tnep_tx_msg_add_rec_def)

lemma add_recs:
  assumes "msg_holds m rs" "list_all emits es"
  obtains (full) "foldE tnep_tx_msg_add_rec m (map (Some \<circ> fst) es) = Inl ENOSR"
    | (added) m' where "foldE tnep_tx_msg_add_rec m (map (Some \<circ> fst) es) = Inr m'" "msg_holds m' (rs @ es)"
proof -
  have "foldE tnep_tx_msg_add_rec m (map (Some \<circ> fst) es) = foldE nfc_ndef_msg_record_add m (map (Some \<circ> fst) es)"
    by (rule foldE_cong) (auto simp: add_rec_Some)
  then show ?thesis
    using msg_holds_add_all [OF assms] that by (auto split: if_splits)
qed

lemma add_recs_fit:
  assumes "msg_holds m rs" "list_all emits es" "length rs + length es \<le> unat (msg_max_record_count m)"
  obtains m' where "foldE tnep_tx_msg_add_rec m (map (Some \<circ> fst) es) = Inr m'" "msg_holds m' (rs @ es)"
    "unat (msg_max_record_count m') = unat (msg_max_record_count m)"
proof -
  have "foldE tnep_tx_msg_add_rec m (map (Some \<circ> fst) es) = foldE nfc_ndef_msg_record_add m (map (Some \<circ> fst) es)"
    by (rule foldE_cong) (auto simp: add_rec_Some)
  then show ?thesis
    using msg_holds_add_all [OF assms(1,2)] assms(3) that by (auto split: if_splits)
qed

text \<open>The loop over the array of additional records.\<close>

lemma add_indexed:
  assumes "k \<le> length ds" "map fst es = take k ds"
  shows "foldE (\<lambda>m i. if i < length ds then tnep_tx_msg_add_rec m (Some (ds ! i)) else Inl UB) m [0..<k] =
    foldE tnep_tx_msg_add_rec m (map (Some \<circ> fst) es)"
proof -
  have "foldE (\<lambda>m i. if i < length ds then tnep_tx_msg_add_rec m (Some (ds ! i)) else Inl UB) m [0..<k] =
      foldE (\<lambda>m i. tnep_tx_msg_add_rec m (Some (ds ! i))) m [0..<k]"
    using assms(1) by (intro foldE_cong) auto
  also have "\<dots> = foldE tnep_tx_msg_add_rec m (map Some (map ((!) ds) [0..<k]))"
    by (simp add: foldE_map)
  also have "map ((!) ds) [0..<k] = map fst es"
    using assms by (metis map_nth take_map take_upt add.left_neutral)
  finally show ?thesis by simp
qed

lemma svc_records:
  assumes "env_ok env"
  shows "map svc_ndef_record (te_svcs env) = map (Some \<circ> fst) (map svc_emitted (te_svcs env))"
    "list_all emits (map svc_emitted (te_svcs env))"
  using assms by (auto simp: env_ok_def list_all_iff svc_ok_def svc_emitted_def intro: param_record_emits)

lemma initial_msg_encode_safe:
  assumes inv: "tag_base env s" "tt_data_set s" "env_ok env"
    and m: "msg_holds m rs" "case records of None \<Rightarrow> emitted_size rs < 2 ^ 31
      | Some ds \<Rightarrow> unat cnt \<le> length ds \<and> (\<exists>es. map fst es = take (unat cnt) ds \<and> list_all emits es \<and>
          emitted_size rs + emitted_size es < 2 ^ 31)"
  obtains s' err where "nfc_tnep_initial_msg_encode env s (Some m) records cnt = Inr (s', err)" "same_ctl s s'"
proof -
  let ?add = "\<lambda>m i. case records of None \<Rightarrow> tnep_tx_msg_add_rec m None
      | Some ds \<Rightarrow> if i < length ds then tnep_tx_msg_add_rec m (Some (ds ! i)) else Inl UB"
  let ?svcs = "map svc_emitted (te_svcs env)"
  have step: "\<exists>s' err. on_err (foldE tnep_tx_msg_add_rec m1 (map svc_ndef_record (te_svcs env)))
      (\<lambda>e. Inr (s, Some e)) (\<lambda>m. tnep_tx_msg_encode env s (Some m)) = Inr (s', err) \<and> same_ctl s s'"
    if m1: "msg_holds m1 rs1" "emitted_size rs1 < 2 ^ 31" for m1 rs1
  proof (rule add_recs [OF m1(1) svc_records(2) [OF inv(3)]])
    fix m' assume a: "foldE tnep_tx_msg_add_rec m1 (map (Some \<circ> fst) ?svcs) = Inr m'" "msg_holds m' (rs1 @ ?svcs)"
    have "emitted_size (rs1 @ ?svcs) < 2 ^ 32" using m1(2) inv(3) by (simp add: env_ok_def)
    with a(2) obtain s' err where "tnep_tx_msg_encode env s (Some m') = Inr (s', err)" "same_ctl s s'"
      using tx_msg_encode_safe [OF inv(1,2), of "Some m'"] by blast
    then show ?thesis by (simp add: svc_records(1) [OF inv(3)] a(1) del: map_map)
  qed (simp add: svc_records(1) [OF inv(3)] del: map_map)
  have "\<exists>s' err. on_err (foldE ?add m [0..<unat cnt]) (\<lambda>e. Inr (s, Some e)) (\<lambda>m.
      on_err (foldE tnep_tx_msg_add_rec m (map svc_ndef_record (te_svcs env)))
      (\<lambda>e. Inr (s, Some e)) (\<lambda>m. tnep_tx_msg_encode env s (Some m))) = Inr (s', err) \<and> same_ctl s s'"
  proof (cases records)
    case None
    show ?thesis
    proof (cases "unat cnt")
      case 0
      then show ?thesis using step [OF m(1)] m(2) None by simp
    next
      case (Suc k)
      have "[0..<unat cnt] = 0 # [1..<unat cnt]" using Suc upt_rec [of 0 "unat cnt"] by simp
      then have "foldE ?add m [0..<unat cnt] = Inl EINVAL" using None by (simp add: tnep_tx_msg_add_rec_def)
      then show ?thesis by simp
    qed
  next
    case (Some ds)
    then obtain es where es: "unat cnt \<le> length ds" "map fst es = take (unat cnt) ds" "list_all emits es"
        "emitted_size rs + emitted_size es < 2 ^ 31"
      using m(2) by auto
    have f: "foldE ?add m [0..<unat cnt] = foldE tnep_tx_msg_add_rec m (map (Some \<circ> fst) es)"
      using add_indexed [OF es(1,2), of m] Some by simp
    show ?thesis
    proof (rule add_recs [OF m(1) es(3)])
      fix m' assume a: "foldE tnep_tx_msg_add_rec m (map (Some \<circ> fst) es) = Inr m'" "msg_holds m' (rs @ es)"
      show ?thesis unfolding f a(1) on_err_simps using es(4) by (intro step [OF a(2)]) simp
    qed (unfold f, simp)
  qed
  then show ?thesis
    using that unfolding nfc_tnep_initial_msg_encode_def Let_def option.case
    by (cases "records \<noteq> None \<and> cnt < 1"; cases "cnt > tt_max_records_cnt s - (msg_record_count m + tt_svc_cnt s)") auto
qed

lemma initial_msg_set_safe:
  assumes inv: "tag_base env s" "tt_data_set s" "env_ok env"
  obtains s' err where "tnep_tx_initial_msg_set env s = Inr (s', err)" "same_ctl s s'"
proof -
  let ?m = "tnep_tx_msg_clear (NFC_NDEF_MSG_DEF (replicate (unat (tt_svc_cnt s + tt_max_records_cnt s)) None))"
  have m: "msg_holds ?m []"
    using unat_u32_lt by (auto simp: tnep_tx_msg_clear_def intro!: msg_holds_clear msg_holds_empty)
  show ?thesis
  proof (cases "if tt_max_records_cnt s > 0 then tt_initial_msg_encode s else None")
    case None
    show ?thesis
    proof (rule add_recs [OF m svc_records(2) [OF inv(3)]])
      fix m' assume a: "foldE tnep_tx_msg_add_rec ?m (map (Some \<circ> fst) (map svc_emitted (te_svcs env))) = Inr m'"
        "msg_holds m' ([] @ map svc_emitted (te_svcs env))"
      have "emitted_size ([] @ map svc_emitted (te_svcs env)) < 2 ^ 32" using inv(3) by (simp add: env_ok_def)
      with a(2) obtain s' err where "tnep_tx_msg_encode env s (Some m') = Inr (s', err)" "same_ctl s s'"
        using tx_msg_encode_safe [OF inv(1,2), of "Some m'"] by blast
      then show ?thesis
        using that None by (simp add: tnep_tx_initial_msg_set_def Let_def svc_records(1) [OF inv(3)] a(1) del: map_map)
    qed (use that None in \<open>simp add: tnep_tx_initial_msg_set_def Let_def svc_records(1) [OF inv(3)] del: map_map\<close>)
  next
    case (Some cb)
    then have "initial_cb_ok cb" using inv(1) by (auto simp: tag_base_def split: if_splits)
    then have ok: "case cb ?m of
       (Some m', None, _) \<Rightarrow> \<exists>rs. msg_holds m' rs \<and> emitted_size rs < 2 ^ 31
     | (Some m', Some ds, cnt) \<Rightarrow> unat cnt \<le> length ds \<and> (\<exists>rs es. msg_holds m' rs \<and>
         map fst es = take (unat cnt) ds \<and> list_all emits es \<and> emitted_size rs + emitted_size es < 2 ^ 31)
     | (None, _, _) \<Rightarrow> True"
      using m by (simp only: initial_cb_ok_def)
    obtain mo records cnt where c: "cb ?m = (mo, records, cnt)" by (cases "cb ?m")
    have e: "tnep_tx_initial_msg_set env s = nfc_tnep_initial_msg_encode env s mo records cnt"
      by (simp only: tnep_tx_initial_msg_set_def Let_def Some option.case c prod.case)
    show ?thesis
    proof (cases mo)
      case None
      then show ?thesis using that [of s "Some EINVAL"] e by (simp add: nfc_tnep_initial_msg_encode_def)
    next
      case (Some m')
      obtain rs where "msg_holds m' rs" "case records of None \<Rightarrow> emitted_size rs < 2 ^ 31
        | Some ds \<Rightarrow> unat cnt \<le> length ds \<and> (\<exists>es. map fst es = take (unat cnt) ds \<and> list_all emits es \<and>
          emitted_size rs + emitted_size es < 2 ^ 31)"
        using ok c Some by (auto split: option.splits)
      from initial_msg_encode_safe [OF inv this] show ?thesis using that e Some by metis
    qed
  qed
qed

section \<open>The application's answers\<close>

lemma app_ctl: "same_ctl s (s\<lparr>tt_app_data_expected := x, tt_status_record := y\<rparr>)"
  "same_ctl s (s\<lparr>tt_app_data_expected := x\<rparr>)"
  by (auto simp: same_ctl_def tnep_core_def)

lemma status_emitted_size: "emitted_size [(NFC_TNEP_STATUS_RECORD_DESC_DEF st, [st])] = 9"
  by (simp add: emitted_size_def NFC_TNEP_STATUS_RECORD_DESC_DEF_def tnep_record_id_type tnep_types)

lemma add_status_cases:
  assumes "msg_holds m rs" "emitted_size rs + 9 < 2 ^ 32"
  obtains (full) "tnep_tx_msg_add_rec_status s m st = (s\<lparr>tt_status_record := st\<rparr>, Inl ENOSR)"
  | (added) m' rs' where "tnep_tx_msg_add_rec_status s m st = (s\<lparr>tt_status_record := st\<rparr>, Inr m')"
      "msg_holds m' (rs' @ [(NFC_TNEP_STATUS_RECORD_DESC_DEF st, [st])])"
      "rs' = (if st = NFC_TNEP_STATUS_PROTOCOL_ERROR then [] else rs)"
      "emitted_size (rs' @ [(NFC_TNEP_STATUS_RECORD_DESC_DEF st, [st])]) < 2 ^ 32"
proof -
  let ?m = "if st = NFC_TNEP_STATUS_PROTOCOL_ERROR then tnep_tx_msg_clear m else m"
  let ?rs = "if st = NFC_TNEP_STATUS_PROTOCOL_ERROR then [] else rs" and ?e = "(NFC_TNEP_STATUS_RECORD_DESC_DEF st, [st])"
  have h: "msg_holds ?m ?rs" using assms(1) by (auto simp: tnep_tx_msg_clear_def intro: msg_holds_clear)
  have sz: "emitted_size (?rs @ [?e]) < 2 ^ 32" using assms(2) status_emitted_size [of st] by (simp del: One_nat_def)
  have eq: "tnep_tx_msg_add_rec_status s m st =
      (s\<lparr>tt_status_record := st\<rparr>, foldE tnep_tx_msg_add_rec ?m (map (Some \<circ> fst) [?e]))"
    by (simp add: tnep_tx_msg_add_rec_status_def Let_def)
  have "list_all emits [?e]" using status_record_emits by simp
  from h this show ?thesis
  proof (rule add_recs)
    assume "foldE tnep_tx_msg_add_rec ?m (map (Some \<circ> fst) [?e]) = Inl ENOSR"
    then show ?thesis using full by (simp only: eq)
  next
    fix m' assume "foldE tnep_tx_msg_add_rec ?m (map (Some \<circ> fst) [?e]) = Inr m'" "msg_holds m' (?rs @ [?e])"
    then show ?thesis using added [of m' ?rs] sz by (simp only: eq)
  qed
qed

lemma app_exec_safe:
  assumes inv: "tag_base env s" and ok: "app_ok c"
  obtains s' err where "tnep_app_exec env s c = Inr (s', err)" "same_ctl s s'"
proof (cases "tt_state s = TNEP_STATE_SERVICE_SELECTED \<and> tt_app_data_expected s")
  case False
  then have "tnep_app_exec env s c \<in> {Inr (s, Some EACCES), Inr (s, Some EINVAL)}"
    by (auto simp: tnep_app_exec_def nfc_tnep_tag_tx_msg_app_data_def nfc_tnep_tag_tx_msg_no_app_data_def
        split: tnep_app_call.splits option.splits)
  then show ?thesis using that by auto
next
  case True
  have ds: "tt_data_set s" using inv True by (auto simp: tag_base_def split: if_splits)
  have go: "\<exists>s' err. (case tnep_tx_msg_add_rec_status (s\<lparr>tt_app_data_expected := False\<rparr>) m st of (s, r) \<Rightarrow>
      on_err r (\<lambda>e. Inr (s, Some e)) (\<lambda>m. tnep_tx_msg_encode env s (Some m))) = Inr (s', err) \<and> same_ctl s s'"
    if m: "msg_holds m rs" "emitted_size rs + 9 < 2 ^ 32" for m rs st
  proof (rule add_status_cases [OF m, of "s\<lparr>tt_app_data_expected := False\<rparr>" st])
    let ?s = "s\<lparr>tt_app_data_expected := False, tt_status_record := st\<rparr>"
    fix m' rs' assume a: "tnep_tx_msg_add_rec_status (s\<lparr>tt_app_data_expected := False\<rparr>) m st = (?s, Inr m')"
      and h: "msg_holds m' (rs' @ [(NFC_TNEP_STATUS_RECORD_DESC_DEF st, [st])])"
        "emitted_size (rs' @ [(NFC_TNEP_STATUS_RECORD_DESC_DEF st, [st])]) < 2 ^ 32"
    have "tag_base env ?s" "tt_data_set ?s" using inv ds same_ctl_inv [OF app_ctl(1)] by simp_all
    then obtain s' err where "tnep_tx_msg_encode env ?s (Some m') = Inr (s', err)" "same_ctl ?s s'"
      using tx_msg_encode_safe [of env ?s "Some m'"] h by blast
    then show ?thesis using a same_ctl_trans [OF app_ctl(1)] by auto
  qed (auto intro: app_ctl)
  show ?thesis
  proof (cases c)
    case (App_Data mo st)
    show ?thesis
    proof (cases mo)
      case None
      then show ?thesis
        using that [of s "Some EINVAL"] App_Data by (simp add: tnep_app_exec_def nfc_tnep_tag_tx_msg_app_data_def)
    next
      case (Some m)
      then obtain rs where "msg_holds m rs" "emitted_size rs + 9 < 2 ^ 32"
        using ok App_Data by (auto simp: app_ok_def msg_ok_def)
      from go [OF this, of st] show ?thesis
        using that App_Data Some True
        by (auto simp: tnep_app_exec_def nfc_tnep_tag_tx_msg_app_data_def tnep_new_app_msg_prepare_def)
    qed
  next
    case No_App_Data
    have "msg_holds (tnep_tx_msg_clear (NFC_NDEF_MSG_DEF [None])) []"
      using msg_holds_clear [OF msg_holds_empty [of "[None]"]] by (simp add: tnep_tx_msg_clear_def)
    from go [OF this, of NFC_TNEP_STATUS_SUCCESS] show ?thesis
      using that No_App_Data True
      by (auto simp: tnep_app_exec_def nfc_tnep_tag_tx_msg_no_app_data_def)
  qed
qed

lemma callback_safe:
  assumes inv: "tag_base env s" and i: "i < length (te_svcs env)"
    and f: "f (svc_callbacks (te_svcs env ! i)) = Some calls" "list_all app_ok calls"
  obtains s' where "tnep_callback env s i ev f = Inr s'" "same_ctl (tnep_emit s ev) s'"
proof -
  have "\<exists>s'. foldE (\<lambda>s c. bindE (tnep_app_exec env s c) (\<lambda>(s, _). Inr s)) s0 calls = Inr s' \<and> same_ctl s0 s'"
    if "tag_base env s0" for s0
    using f(2) that
  proof (induction calls arbitrary: s0)
    case (Cons c calls)
    obtain s1 err where 1: "tnep_app_exec env s0 c = Inr (s1, err)" "same_ctl s0 s1"
      using app_exec_safe [OF Cons.prems(2), of c] Cons.prems(1) by auto
    have "tag_base env s1" using same_ctl_inv [OF 1(2)] Cons.prems(2) by simp
    then obtain s' where "foldE (\<lambda>s c. bindE (tnep_app_exec env s c) (\<lambda>(s, _). Inr s)) s1 calls = Inr s'" "same_ctl s1 s'"
      using Cons.IH [of s1] Cons.prems(1) by auto
    then show ?case using 1 same_ctl_trans by auto
  qed simp
  from this [of "tnep_emit s ev"] show ?thesis
    using that i f(1) inv by (auto simp: tnep_callback_def)
qed

end
