(* ===== verification/Tnep_Tag_Spec.thy ===== *)
theory Tnep_Tag_Spec
  imports Tnep_Tag_Inv
begin

text \<open>
  The TNEP tag against an abstract protocol: what a received message asks for, what it does to the
  state and which callbacks the services get, and that the handlers of the state machine do just that
  while they preserve the invariant.
\<close>

section \<open>Requests\<close>

text \<open>The meaning of a received message: the first Service Select record decides. The URI in its payload
  is cut to the announced length, and zeros stand for missing bytes; a payload that is empty or too
  large is taken for a deselection.\<close>

datatype tnep_request =
    Req_Malformed
  | Req_Data u32
  | Req_Select u32 nat
  | Req_Deselect u32

definition select_uri :: "nat \<Rightarrow> u8 list \<Rightarrow> u8 list" where
  "select_uri n p = (if p = [] \<or> n < length p then [] else take (unat (hd p)) (tl p @ replicate 255 0))"

definition svc_uri :: "nfc_tnep_tag_service \<Rightarrow> u8 list" where
  "svc_uri svc = block (par_uri (svc_parameters svc)) (unat (par_uri_length (svc_parameters svc)))"

fun index_of :: "nat \<Rightarrow> 'a \<Rightarrow> 'a list \<Rightarrow> nat option" where
  "index_of i x [] = None"
| "index_of i x (y # ys) = (if y = x then Some i else index_of (i + 1) x ys)"

definition is_select :: "nfc_ndef_record_desc \<Rightarrow> bool" where
  "is_select r \<longleftrightarrow> rec_type_length r = 2 \<and> block (rec_type r) 2 = nfc_ndef_tnep_rec_type_svc_select"

definition requested :: "tnep_env \<Rightarrow> nfc_ndef_record_desc list \<Rightarrow> u32 \<Rightarrow> tnep_request" where
  "requested env rs len = (case find is_select rs of None \<Rightarrow> Req_Data len
     | Some r \<Rightarrow> (case index_of 0 (select_uri (te_rx_max_record_size env) (payload_of r)) (map svc_uri (te_svcs env)) of
         None \<Rightarrow> Req_Deselect len | Some i \<Rightarrow> Req_Select len i))"

definition tnep_request :: "tnep_env \<Rightarrow> u8 list \<Rightarrow> u32 \<Rightarrow> tnep_request" where
  "tnep_request env data len =
     (case nfc_ndef_msg_parse (te_abi env) (te_recs0 env) (tnep_desc_buf_len env) data len of
        Inl _ \<Rightarrow> Req_Malformed
      | Inr (msg, _, k) \<Rightarrow> requested env (map the (msg_records msg)) k)"

lemma index_of_bound: "index_of i x ys = Some j \<Longrightarrow> i \<le> j \<and> j < i + length ys"
  by (induction i x ys rule: index_of.induct) (auto split: if_splits)

lemma length_select_uri: "p \<noteq> [] \<Longrightarrow> length p \<le> n \<Longrightarrow> length (select_uri n p) = unat (hd p)"
  using unat_u8_le [of "hd p"] by (simp add: select_uri_def)

text \<open>\<open>bin_rec\<close> holds the payload followed by zeros.\<close>

lemma svc_find_index:
  assumes "list_all (svc_ok n) svcs" "n = length bin_rec" "0 < n"
    and p: "bin_rec = p @ replicate (n - length p) 0" "length p \<le> n"
  shows "svc_find svcs i (drop 1 bin_rec) (ucast (bin_rec ! 0)) = Inr (index_of i (select_uri n p) (map svc_uri svcs))"
  using assms(1)
proof (induction svcs arbitrary: i)
  case (Cons svc svcs)
  let ?par = "svc_parameters svc" and ?len = "ucast (bin_rec ! 0) :: u32"
  have ok: "readable (par_uri ?par) (unat (par_uri_length ?par))" "unat (par_uri_length ?par) < n"
      "par_uri_length ?par \<noteq> 0"
    using Cons.prems by (auto simp: svc_ok_def param_ok_def)
  have len: "length (svc_uri svc) = unat (par_uri_length ?par)" using ok(1) by (simp add: svc_uri_def mem_simps)
  have eq: "(ucast (par_uri_length ?par) = ?len) \<longleftrightarrow> par_uri_length ?par = bin_rec ! 0"
    by (metis unat_ucast_u8_u32 unsigned_word_eqI)
  have IH: "svc_find svcs (i + 1) (drop 1 bin_rec) ?len = Inr (index_of (i + 1) (select_uri n p) (map svc_uri svcs))"
    using Cons.IH Cons.prems by simp
  show ?case
  proof (cases "par_uri_length ?par = bin_rec ! 0")
    case False
    have "svc_uri svc \<noteq> select_uri n p"
    proof
      assume u: "svc_uri svc = select_uri n p"
      then have ne: "p \<noteq> []" using len ok(3) by (auto simp: select_uri_def unat_eq_zero)
      with u len length_select_uri [OF ne p(2)] have "unat (par_uri_length ?par) = unat (hd p)" by simp
      moreover have "bin_rec ! 0 = hd p" using p(1) ne by (metis hd_append2 hd_conv_nth append_is_Nil_conv)
      ultimately show False using False by (simp add: unsigned_word_eqI)
    qed
    then show ?thesis using False IH eq by simp
  next
    case True
    then have ne: "p \<noteq> []" using ok(3) p(1) assms(3) by (auto simp: nth_append)
    have h: "bin_rec ! 0 = hd p" using p(1) ne by (metis hd_append2 hd_conv_nth append_is_Nil_conv)
    have le: "unat (bin_rec ! 0) < n" using True ok(2) by simp
    have d: "drop 1 bin_rec = tl p @ replicate (n - length p) 0"
      using p(1) ne by (cases p) simp_all
    have "take (unat (hd p)) (tl p @ replicate (n - length p) 0) = select_uri n p"
      using ne p(2) le h unat_u8_le [of "hd p"]
      by (cases p) (auto simp: select_uri_def not_le min_def intro!: nth_equalityI)
    then have a: "mem_read (Some (drop 1 bin_rec)) (unat ?len) = Inr (select_uri n p)"
      using le assms(2) h d by (simp add: mem_simps)
    have b: "mem_read (par_uri ?par) (unat ?len) = Inr (svc_uri svc)"
      using ok(1) True by (simp add: svc_uri_def mem_simps)
    show ?thesis using True a b IH eq by auto
  qed
qed simp

lemma record_payload_safe:
  assumes "rec_payload r = Payload_Bin bin" "bin_ok bin" "n < 2 ^ 32"
  shows "svc_record_payload n r = Inr ((if length (bin_body bin) \<le> n then bin_body bin else []) @
    replicate (n - (if length (bin_body bin) \<le> n then length (bin_body bin) else 0)) 0)"
proof -
  note w = bin.enc_writes [OF assms(2)]
  have u: "unat (of_nat n :: u32) = n" using assms(3) by (simp add: unat_of_nat_u32)
  show ?thesis
    using writes_fits [OF w, of "of_nat n" "replicate n 0"] writes_nospace [OF w, of "of_nat n" "replicate n 0"] u assms(1)
    by (auto simp: svc_record_payload_def)
qed

lemma check_rec_type:
  assumes "record_desc_ok r"
  shows "ndef_check_rec_type r nfc_ndef_tnep_rec_type_svc_select 2 = Inr (is_select r)"
proof -
  have "(ucast (rec_type_length r) = (2 :: u32)) \<longleftrightarrow> rec_type_length r = 2"
    by (simp add: word_unat_eq_iff)
  then show ?thesis
    using assms by (auto simp: ndef_check_rec_type_def is_select_def record_desc_ok_def mem_simps tnep_types)
qed

text \<open>The record that a request leads to.\<close>

definition chosen :: "tnep_tag \<Rightarrow> tnep_request \<Rightarrow> tnep_tag \<times> (err + tnep_svc_record_status)" where
  "chosen s rq = (case rq of
     Req_Malformed \<Rightarrow> (s, Inl EINVAL)
   | Req_Data k \<Rightarrow> (s\<lparr>tt_rx_len := k\<rparr>, Inr TNEP_SVC_NOT_FOUND)
   | Req_Select k i \<Rightarrow> (s\<lparr>tt_rx_len := k, tt_svc_active := Some i\<rparr>, Inr TNEP_SVC_SELECTED)
   | Req_Deselect k \<Rightarrow> (s\<lparr>tt_rx_len := k, tt_svc_active := None\<rparr>, Inr TNEP_SVC_DESELECTED))"

lemma select_loop_requested:
  assumes env: "env_ok env"
    and rs: "\<And>r. r \<in> set rs \<Longrightarrow> record_desc_ok r \<and> (\<exists>bin. rec_payload r = Payload_Bin bin \<and> bin_ok bin)"
  shows "bindE (svc_select_loop env (s\<lparr>tt_rx_len := k\<rparr>) (map Some rs)) (\<lambda>(s, st). Inr (s, Inr st)) =
    Inr (chosen s (requested env rs k))"
  using rs
proof (induction rs)
  case Nil
  then show ?case by (simp add: requested_def chosen_def)
next
  case (Cons r rs)
  let ?n = "te_rx_max_record_size env"
  obtain bin where ok: "record_desc_ok r" "rec_payload r = Payload_Bin bin" "bin_ok bin"
    using Cons.prems [of r] by auto
  show ?case
  proof (cases "is_select r")
    case False
    then show ?thesis using Cons ok(1) by (simp add: check_rec_type requested_def)
  next
    case True
    let ?p = "if length (bin_body bin) \<le> ?n then bin_body bin else []"
    define bin_rec where "bin_rec = ?p @ replicate (?n - length ?p) 0"
    have n: "0 < ?n" "?n < 2 ^ 32" "list_all (svc_ok ?n) (te_svcs env)" using env by (simp_all add: env_ok_def)
    have b: "length bin_rec = ?n" "svc_record_payload ?n r = Inr bin_rec"
      using record_payload_safe [OF ok(2,3) n(2)] by (auto simp: bin_rec_def)
    have u: "select_uri ?n ?p = select_uri ?n (payload_of r)"
      using ok(2) by (auto simp: select_uri_def payload_of_def)
    have "svc_find (te_svcs env) 0 (drop 1 bin_rec) (ucast (bin_rec ! 0)) =
        Inr (index_of 0 (select_uri ?n (payload_of r)) (map svc_uri (te_svcs env)))"
      unfolding u [symmetric] using n b(1) by (intro svc_find_index) (simp_all add: bin_rec_def)
    moreover have "mem_byte bin_rec 0 = Inr (bin_rec ! 0)" using n(1) b(1) by (simp add: mem_byte_def)
    ultimately show ?thesis
      using True ok(1) b(2)
      by (simp add: check_rec_type tnep_svc_set_active_def requested_def chosen_def split: option.split)
  qed
qed

lemma select_from_msg_chosen:
  assumes env: "env_ok env" and rx: "tt_rx_data s = Some data" "rx_ok data (tt_rx_len s)"
  shows "tnep_svc_select_from_msg env s = Inr (chosen s (tnep_request env data (tt_rx_len s)))"
proof -
  let ?parse = "nfc_ndef_msg_parse (te_abi env) (te_recs0 env) (tnep_desc_buf_len env) data (tt_rx_len s)"
  have abi: "abi_ok (te_abi env)" and len: "unat (tt_rx_len s) \<le> length data"
    using env rx by (simp_all add: env_ok_def rx_ok_def)
  note safe = msg_parse_safe [OF abi len]
  show ?thesis
  proof (cases ?parse)
    case (Inl e)
    moreover have "e \<noteq> UB" using safe(1) Inl by auto
    ultimately show ?thesis using rx by (simp add: tnep_svc_select_from_msg_def tnep_request_def chosen_def)
  next
    case (Inr x)
    obtain msg used k where x: "x = (msg, used, k)" by (cases x)
    obtain rs where rs: "msg_records msg = map Some rs" "list_all rec_ok rs"
      using msg_parse_lengths [OF abi len _ Inr [unfolded x]] rx(2) by (auto simp: rx_ok_def)
    then have "record_desc_ok r \<and> (\<exists>bin. rec_payload r = Payload_Bin bin \<and> bin_ok bin)" if "r \<in> set rs" for r
      using that by (simp add: list_all_iff rec_ok_def)
    from select_loop_requested [OF env this, of rs k s] show ?thesis
      using rx(1) Inr x rs(1) by (simp add: tnep_svc_select_from_msg_def tnep_request_def comp_def)
  qed
qed

lemma request_bound:
  "tnep_request env data len = Req_Select k i \<Longrightarrow> i < length (te_svcs env)"
  using index_of_bound [of 0 _ "map svc_uri (te_svcs env)"]
  by (fastforce simp: tnep_request_def requested_def split: sum.splits option.splits)

section \<open>The abstract protocol\<close>

text \<open>The abstract state is the state name and the service last selected. \<open>tnep_spec_rx\<close> says what a request
  does to it and which callbacks the services receive, in order.\<close>

type_synonym tnep_spec = "tnep_state_name \<times> nat option"

definition tnep_abs :: "tnep_tag \<Rightarrow> tnep_spec" where
  "tnep_abs s = (tt_state s, tt_svc_active s)"

definition tnep_calls :: "tnep_tag \<Rightarrow> tnep_out list" where
  "tnep_calls s = filter (\<lambda>e. \<not> is_payload e) (tt_log s)"

definition spec_error :: "nat option \<Rightarrow> err option \<Rightarrow> tnep_out list" where
  "spec_error act err = (case (act, err) of (Some i, Some e) \<Rightarrow> [Svc_Error i e] | _ \<Rightarrow> [])"

fun tnep_spec_rx :: "u8 list \<Rightarrow> tnep_spec \<Rightarrow> tnep_request \<Rightarrow> tnep_spec \<times> tnep_out list" where
  "tnep_spec_rx data (TNEP_STATE_DISABLED, act) rq = ((TNEP_STATE_DISABLED, act), [])"
| "tnep_spec_rx data (TNEP_STATE_SERVICE_READY, act) rq = (case rq of
     Req_Malformed \<Rightarrow> ((TNEP_STATE_SERVICE_READY, act), spec_error act (Some ENOTSUP))
   | Req_Data k \<Rightarrow> ((TNEP_STATE_SERVICE_READY, act), [])
   | Req_Select k i \<Rightarrow> ((TNEP_STATE_SERVICE_SELECTED, Some i), [Svc_Selected i])
   | Req_Deselect k \<Rightarrow> ((TNEP_STATE_SERVICE_READY, None), []))"
| "tnep_spec_rx data (TNEP_STATE_SERVICE_SELECTED, None) rq = ((TNEP_STATE_SERVICE_SELECTED, None), [])"
| "tnep_spec_rx data (TNEP_STATE_SERVICE_SELECTED, Some i) rq = (case rq of
     Req_Malformed \<Rightarrow> ((TNEP_STATE_SERVICE_SELECTED, Some i), [Svc_Error i ENOTSUP])
   | Req_Data k \<Rightarrow> ((TNEP_STATE_SERVICE_SELECTED, Some i), [Svc_Message i data k])
   | Req_Select k j \<Rightarrow> ((TNEP_STATE_SERVICE_SELECTED, Some j), [Svc_Deselected i, Svc_Selected j])
   | Req_Deselect k \<Rightarrow> ((TNEP_STATE_SERVICE_READY, None), [Svc_Deselected i]))"

text \<open>Effects that only concern the buffers, the pending answer and the log.\<close>

definition ctl_step :: "tnep_tag \<Rightarrow> tnep_out list \<Rightarrow> tnep_tag \<Rightarrow> bool" where
  "ctl_step s evs s' \<longleftrightarrow> tnep_core s' = tnep_core s \<and> (\<forall>a. length (tt_mem s' a) = length (tt_mem s a)) \<and>
     tnep_calls s' = tnep_calls s @ evs"

lemma ctl_step_trans: "ctl_step s e s1 \<Longrightarrow> ctl_step s1 e' s2 \<Longrightarrow> ctl_step s (e @ e') s2"
  by (simp add: ctl_step_def)

lemma ctl_step_core: "ctl_step s e s' \<Longrightarrow> tnep_core s' = tnep_core s"
  by (simp add: ctl_step_def)

lemmas ctl_step_fields = tnep_core_fields [OF ctl_step_core]

lemma ctl_step_inv: "ctl_step s e s' \<Longrightarrow> tag_base env s' = tag_base env s"
  unfolding ctl_step_def by (intro tag_base_core) auto

lemma ctl_step_pending: "ctl_step s e s' \<Longrightarrow> rx_pending s' = rx_pending s"
  by (simp add: rx_pending_def ctl_step_fields)

lemma same_ctl_step: "same_ctl s s' \<Longrightarrow> ctl_step s [] s'"
proof -
  assume a: "same_ctl s s'"
  then obtain evs where evs: "tt_log s' = tt_log s @ evs" "list_all is_payload evs" by (auto simp: same_ctl_def)
  then have "filter (\<lambda>e. \<not> is_payload e) evs = []" by (simp add: list_all_iff filter_empty_conv)
  then show ?thesis using a evs(1) by (simp add: same_ctl_def ctl_step_def tnep_calls_def)
qed

lemma emit_step: "\<not> is_payload ev \<Longrightarrow> ctl_step s [ev] (tnep_emit s ev)"
  by (simp add: ctl_step_def tnep_calls_def)

lemma callback_step:
  assumes "tag_base env s" "i < length (te_svcs env)" "f (svc_callbacks (te_svcs env ! i)) = Some calls"
    and "list_all app_ok calls" "\<not> is_payload ev"
  obtains s' where "tnep_callback env s i ev f = Inr s'" "ctl_step s [ev] s'"
proof -
  obtain s' where c: "tnep_callback env s i ev f = Inr s'" "same_ctl (tnep_emit s ev) s'"
    using callback_safe [of env s i f calls ev] assms by blast
  have "ctl_step s ([ev] @ []) s'" by (rule ctl_step_trans [OF emit_step [OF assms(5)] same_ctl_step [OF c(2)]])
  then show ?thesis using that c(1) by simp
qed

lemma svc_callbacks:
  assumes "env_ok env" "i < length (te_svcs env)"
  shows "\<exists>calls. scb_selected (svc_callbacks (te_svcs env ! i)) = Some calls \<and> list_all app_ok calls"
    "\<exists>calls. scb_deselected (svc_callbacks (te_svcs env ! i)) = Some calls \<and> list_all app_ok calls"
    "\<exists>f. scb_message_received (svc_callbacks (te_svcs env ! i)) = Some f \<and> (\<forall>d n. list_all app_ok (f d n))"
    "\<exists>f. scb_error_detected (svc_callbacks (te_svcs env ! i)) = Some f \<and> (\<forall>e. list_all app_ok (f e))"
proof -
  have "svc_ok (te_rx_max_record_size env) (te_svcs env ! i)"
    using assms by (simp add: env_ok_def list_all_length)
  then show "\<exists>calls. scb_selected (svc_callbacks (te_svcs env ! i)) = Some calls \<and> list_all app_ok calls"
    "\<exists>calls. scb_deselected (svc_callbacks (te_svcs env ! i)) = Some calls \<and> list_all app_ok calls"
    "\<exists>f. scb_message_received (svc_callbacks (te_svcs env ! i)) = Some f \<and> (\<forall>d n. list_all app_ok (f d n))"
    "\<exists>f. scb_error_detected (svc_callbacks (te_svcs env ! i)) = Some f \<and> (\<forall>e. list_all app_ok (f e))"
    by (auto simp: svc_ok_def)
qed

lemma selected_step:
  assumes "env_ok env" "tag_base env s" "i < length (te_svcs env)"
  obtains s' where "tnep_callback env s i (Svc_Selected i) scb_selected = Inr s'" "ctl_step s [Svc_Selected i] s'"
  using svc_callbacks(1) [OF assms(1,3)] callback_step [OF assms(2,3), of scb_selected _ "Svc_Selected i"] by auto

lemma deselected_step:
  assumes "env_ok env" "tag_base env s" "i < length (te_svcs env)"
  obtains s' where "tnep_callback env s i (Svc_Deselected i) scb_deselected = Inr s'" "ctl_step s [Svc_Deselected i] s'"
  using svc_callbacks(2) [OF assms(1,3)] callback_step [OF assms(2,3), of scb_deselected _ "Svc_Deselected i"] by auto

lemma message_step:
  assumes "env_ok env" "tag_base env s" "i < length (te_svcs env)"
  obtains s' where "tnep_callback env s i (Svc_Message i d n) (\<lambda>cb. map_option (\<lambda>f. f d n) (scb_message_received cb)) = Inr s'"
    "ctl_step s [Svc_Message i d n] s'"
proof -
  obtain f where f: "scb_message_received (svc_callbacks (te_svcs env ! i)) = Some f" "list_all app_ok (f d n)"
    using svc_callbacks(3) [OF assms(1,3)] by blast
  show ?thesis
    by (rule callback_step [OF assms(2,3), where ev = "Svc_Message i d n" and calls = "f d n" and
          f = "\<lambda>cb. map_option (\<lambda>f. f d n) (scb_message_received cb)"]) (use that f in simp_all)
qed

lemma error_check_step:
  assumes "env_ok env" "tag_base env s"
  obtains s' where "tnep_error_check env s err = Inr s'" "ctl_step s (spec_error (tt_svc_active s) err) s'"
proof (cases "(tt_svc_active s, err)")
  case (Pair a b)
  show ?thesis
  proof (cases a; cases b)
    fix i e assume ie: "a = Some i" "b = Some e"
    have i: "i < length (te_svcs env)" using assms(2) Pair ie by (simp add: tag_base_def)
    obtain f where f: "scb_error_detected (svc_callbacks (te_svcs env ! i)) = Some f" "list_all app_ok (f e)"
      using svc_callbacks(4) [OF assms(1) i] by blast
    show ?thesis
      by (rule callback_step [OF assms(2) i, where ev = "Svc_Error i e" and calls = "f e" and
            f = "\<lambda>cb. map_option (\<lambda>f. f e) (scb_error_detected cb)"])
        (use that f Pair ie in \<open>simp_all add: tnep_error_check_def spec_error_def\<close>)
  qed (use that [of s] Pair in \<open>auto simp: tnep_error_check_def spec_error_def ctl_step_def split: option.splits\<close>)
qed

section \<open>The contents of the buffers\<close>

text \<open>What the poller finds in a transmit buffer of \<open>n\<close> bytes: the length of the message on a Type 4 Tag, the
  message, zeros.\<close>

definition ndef_image :: "bool \<Rightarrow> nat \<Rightarrow> u8 list \<Rightarrow> u8 list" where
  "ndef_image t4t n bs = (let file = (if t4t then put_be16 (of_nat (length bs)) else []) @ bs in
     file @ replicate (n - length file) 0)"

definition image_fits :: "bool \<Rightarrow> nat \<Rightarrow> nat \<Rightarrow> bool" where
  "image_fits t4t n k \<longleftrightarrow> (if t4t then k + 2 \<le> n \<and> k \<le> 0xFFFF else k \<le> n)"

lemma tx_encode_fits:
  assumes inv: "tag_base env s" "tt_data_set s" and m: "msg_holds m rs" "rs \<noteq> []"
    and fits: "image_fits (te_t4t env) (unat (tt_tx_len s)) (emitted_size rs)" and b: "next_buff s = Some b"
  shows "tnep_tx_msg_encode env s (Some m) =
     Inr (handed s b (ndef_image (te_t4t env) (unat (tt_tx_len s)) (msg_bytes rs) @ drop (unat (tt_tx_len s)) (tt_mem s b)), None)"
proof -
  let ?n = "unat (tt_tx_len s)" and ?bs = "msg_bytes rs"
  have sz: "length ?bs = emitted_size rs" by (rule length_msg_bytes)
  have lt: "emitted_size rs < 2 ^ 32"
    using fits unat_u32_lt [of "tt_tx_len s"] by (auto simp: image_fits_def split: if_splits)
  note w = msg_holds_writes(2) [OF m(1) lt]
  have bl: "?n \<le> length (tt_mem s b)"
    using inv b by (auto simp: tag_base_def bufs_ok_def next_buff_def split: option.splits if_splits)
  define mem where "mem = replicate ?n 0 @ drop ?n (tt_mem s b)"
  have mw: "mem_write (tt_mem s b) 0 (replicate ?n 0) = Inr mem" "?n \<le> length mem"
    using bl by (simp_all add: mem_write_0 mem_def)
  have cnt: "0 < msg_record_count m"
    using msg_holds_count [OF m(1)] m(2) by (simp add: word_less_nat_alt)
  have pos: "6 \<le> emitted_size rs" using m(2) by (cases rs) (auto simp: emitted_size_def)
  show ?thesis
  proof (cases "te_t4t env")
    case False
    have "nfc_ndef_msg_encode (Some m) (Some (mem, tt_tx_len s)) = Inr (?bs @ drop (length ?bs) mem, of_nat (length ?bs))"
      using fits False mw(2) sz by (intro writes_fits [OF w]) (simp_all add: image_fits_def)
    moreover have "?bs @ drop (length ?bs) mem = ndef_image False ?n ?bs @ drop ?n (tt_mem s b)"
      using fits False sz by (simp add: ndef_image_def mem_def image_fits_def)
    ultimately show ?thesis
      using False cnt inv(2) mw(1) b
      by (simp add: tnep_tx_msg_encode_def next_buff_def [symmetric] tnep_area_encode_def handed_def Let_def)
  next
    case True
    have l2: "unat (tt_tx_len s - 2) = ?n - 2" "2 \<le> ?n"
      using fits True by (simp_all add: image_fits_def unat_sub_le word_le_nat_alt)
    have e: "nfc_ndef_msg_encode (Some m) (Some (drop 2 mem, tt_tx_len s - 2)) =
        Inr (?bs @ drop (length ?bs) (drop 2 mem), of_nat (length ?bs))"
      using fits True mw(2) sz l2 by (intro writes_fits [OF w]) (auto simp: image_fits_def)
    have k: "\<not> (of_nat (length ?bs) :: u32) < 1" "\<not> (0xFFFF :: u32) < of_nat (length ?bs)"
        "ucast (of_nat (length ?bs) :: u32) = (of_nat (length ?bs) :: u16)"
      using fits True sz pos
      by (simp_all add: image_fits_def word_less_nat_alt unat_of_nat_u32 ucast_of_nat_u16)
    have "take 2 mem @ ?bs @ drop (length ?bs) (drop 2 mem) = [0, 0] @ ?bs @ drop (length ?bs + 2) mem"
      using l2 by (simp add: mem_def numeral_2_eq_2 add.commute)
    then have "mem_write (take 2 mem @ ?bs @ drop (length ?bs) (drop 2 mem)) 0 (put_be16 (of_nat (length ?bs))) =
        Inr (put_be16 (of_nat (length ?bs)) @ ?bs @ drop (length ?bs + 2) mem)"
      by (simp add: mem_write_0)
    moreover have "put_be16 (of_nat (length ?bs)) @ ?bs @ drop (length ?bs + 2) mem =
        ndef_image True ?n ?bs @ drop ?n (tt_mem s b)"
      using fits True sz by (simp add: ndef_image_def mem_def image_fits_def Let_def)
    ultimately show ?thesis
      using True cnt inv(2) mw(1) b e k
      by (simp add: tnep_tx_msg_encode_def next_buff_def [symmetric] tnep_area_encode_def handed_def Let_def
          nfc_t4t_ndef_file_encode_def)
  qed
qed

text \<open>The records of the initial message: the parameter records of all services, and before them, when the application
  asked for additional records, those its callback put in the message and those it passes on. The
  message must have places for all of them; the limit for the records passed on is the one of the code, a 32-bit difference from which the
  services are subtracted.\<close>

definition initial_area :: "tnep_tag \<Rightarrow> nfc_ndef_msg_desc" where
  "initial_area s = tnep_tx_msg_clear (NFC_NDEF_MSG_DEF (replicate (unat (tt_svc_cnt s + tt_max_records_cnt s)) None))"

definition initial_records :: "tnep_env \<Rightarrow> tnep_tag \<Rightarrow> emitted list \<Rightarrow> bool" where
  "initial_records env s xs \<longleftrightarrow> (case (if tt_max_records_cnt s > 0 then tt_initial_msg_encode s else None) of
     None \<Rightarrow> xs = map svc_emitted (te_svcs env)
   | Some cb \<Rightarrow> (case cb (initial_area s) of
       (Some m, records, cnt) \<Rightarrow> \<exists>rs es. msg_holds m rs \<and> list_all emits es \<and>
         (case records of None \<Rightarrow> cnt = 0 \<and> es = [] | Some ds \<Rightarrow> 1 \<le> cnt \<and> unat cnt \<le> length ds \<and> map fst es = take (unat cnt) ds) \<and>
         cnt \<le> tt_max_records_cnt s - (msg_record_count m + tt_svc_cnt s) \<and>
         length rs + length es + length (te_svcs env) \<le> unat (msg_max_record_count m) \<and>
         xs = rs @ es @ map svc_emitted (te_svcs env)
     | (None, _, _) \<Rightarrow> False))"

definition initial_fits :: "tnep_env \<Rightarrow> tnep_tag \<Rightarrow> bool" where
  "initial_fits env s \<longleftrightarrow> te_svcs env \<noteq> [] \<and>
     (\<exists>xs. initial_records env s xs \<and> image_fits (te_t4t env) (unat (tt_tx_len s)) (emitted_size xs))"

lemma initial_fits_cong:
  assumes "tt_max_records_cnt s' = tt_max_records_cnt s" "tt_initial_msg_encode s' = tt_initial_msg_encode s"
    "tt_svc_cnt s' = tt_svc_cnt s" "tt_tx_len s' = tt_tx_len s"
  shows "initial_fits env s' = initial_fits env s"
  by (simp only: initial_fits_def initial_records_def initial_area_def assms)

lemma services_served:
  assumes inv: "tag_base env s" "tt_data_set s" "env_ok env" "te_svcs env \<noteq> []" and b: "next_buff s = Some b"
    and m: "msg_holds m rs" "length rs + length (te_svcs env) \<le> unat (msg_max_record_count m)"
    and fits: "image_fits (te_t4t env) (unat (tt_tx_len s)) (emitted_size (rs @ map svc_emitted (te_svcs env)))"
  shows "on_err (foldE tnep_tx_msg_add_rec m (map svc_ndef_record (te_svcs env)))
      (\<lambda>e. Inr (s, Some e)) (\<lambda>m. tnep_tx_msg_encode env s (Some m)) = Inr (handed s b
     (ndef_image (te_t4t env) (unat (tt_tx_len s)) (msg_bytes (rs @ map svc_emitted (te_svcs env))) @
      drop (unat (tt_tx_len s)) (tt_mem s b)), None)"
proof -
  have le: "length rs + length (map svc_emitted (te_svcs env)) \<le> unat (msg_max_record_count m)" using m(2) by simp
  obtain m' where m': "foldE tnep_tx_msg_add_rec m (map (Some \<circ> fst) (map svc_emitted (te_svcs env))) = Inr m'"
      "msg_holds m' (rs @ map svc_emitted (te_svcs env))"
    by (rule add_recs_fit [OF m(1) svc_records(2) [OF inv(3)] le])
  have "rs @ map svc_emitted (te_svcs env) \<noteq> []" using inv(4) by simp
  from tx_encode_fits [OF inv(1,2) m'(2) this fits b] show ?thesis
    using m'(1) by (simp add: svc_records(1) [OF inv(3)] del: map_map)
qed

lemma initial_area_holds:
  "msg_holds (initial_area s) []" "unat (msg_max_record_count (initial_area s)) = unat (tt_svc_cnt s + tt_max_records_cnt s)"
proof -
  show "msg_holds (initial_area s) []"
    using unat_u32_lt by (auto simp: initial_area_def tnep_tx_msg_clear_def intro!: msg_holds_clear msg_holds_empty)
  show "unat (msg_max_record_count (initial_area s)) = unat (tt_svc_cnt s + tt_max_records_cnt s)"
    by (simp add: initial_area_def tnep_tx_msg_clear_def nfc_ndef_msg_clear_def NFC_NDEF_MSG_DEF_def)
qed

lemma initial_msg_set_fits:
  assumes inv: "tag_base env s" "tt_data_set s" "env_ok env" "te_svcs env \<noteq> []" and b: "next_buff s = Some b"
    and xs: "initial_records env s xs" and fits: "image_fits (te_t4t env) (unat (tt_tx_len s)) (emitted_size xs)"
  shows "tnep_tx_initial_msg_set env s = Inr (handed s b
     (ndef_image (te_t4t env) (unat (tt_tx_len s)) (msg_bytes xs) @ drop (unat (tt_tx_len s)) (tt_mem s b)), None)"
proof (cases "if tt_max_records_cnt s > 0 then tt_initial_msg_encode s else None")
  case None
  have n: "unat (tt_svc_cnt s) = length (te_svcs env)" "length (te_svcs env) < 65536" "unat (tt_max_records_cnt s) < 2 ^ 31"
    using inv by (simp_all add: tag_base_def env_ok_def unat_of_nat_u32)
  then have "length (te_svcs env) \<le> unat (tt_svc_cnt s + tt_max_records_cnt s)"
    by (simp add: unat_add_no_wrap_u32)
  then show ?thesis
    using services_served [OF inv b initial_area_holds(1)] xs fits None
    by (simp add: initial_records_def tnep_tx_initial_msg_set_def initial_area_holds(2) initial_area_def [symmetric])
next
  case (Some cb)
  obtain m records cnt where c: "cb (initial_area s) = (Some m, records, cnt)"
    using xs Some by (auto simp: initial_records_def split: prod.splits option.splits)
  then obtain rs es where x: "msg_holds m rs" "list_all emits es"
      "case records of None \<Rightarrow> cnt = 0 \<and> es = [] | Some ds \<Rightarrow> 1 \<le> cnt \<and> unat cnt \<le> length ds \<and> map fst es = take (unat cnt) ds"
      "cnt \<le> tt_max_records_cnt s - (msg_record_count m + tt_svc_cnt s)"
      "length rs + length es + length (te_svcs env) \<le> unat (msg_max_record_count m)" "xs = rs @ es @ map svc_emitted (te_svcs env)"
    using xs Some by (auto simp: initial_records_def)
  let ?add = "\<lambda>m i. case records of None \<Rightarrow> tnep_tx_msg_add_rec m None
      | Some ds \<Rightarrow> if i < length ds then tnep_tx_msg_add_rec m (Some (ds ! i)) else Inl UB"
  have f: "foldE ?add m [0..<unat cnt] = foldE tnep_tx_msg_add_rec m (map (Some \<circ> fst) es)"
    using x(3) add_indexed [of "unat cnt" _ es m] by (cases records) auto
  have le: "length rs + length es \<le> unat (msg_max_record_count m)" using x(5) by simp
  obtain m' where m': "foldE ?add m [0..<unat cnt] = Inr m'" "msg_holds m' (rs @ es)"
      "unat (msg_max_record_count m') = unat (msg_max_record_count m)"
    unfolding f by (rule add_recs_fit [OF x(1,2) le])
  have g: "\<not> (records \<noteq> None \<and> cnt < 1)" "\<not> cnt > tt_max_records_cnt s - (msg_record_count m + tt_svc_cnt s)"
    using x(3,4) by (auto split: option.splits)
  have "nfc_tnep_initial_msg_encode env s (Some m) records cnt = Inr (handed s b
     (ndef_image (te_t4t env) (unat (tt_tx_len s)) (msg_bytes xs) @ drop (unat (tt_tx_len s)) (tt_mem s b)), None)"
    unfolding nfc_tnep_initial_msg_encode_def Let_def option.case if_not_P [OF g(1)] if_not_P [OF g(2)] m'(1) on_err_simps
    using services_served [OF inv b m'(2)] m'(3) x(5,6) fits by simp
  then show ?thesis unfolding tnep_tx_initial_msg_set_def Let_def initial_area_def [symmetric] Some option.case c prod.case .
qed

lemma next_buff_ex: "tag_base env s \<Longrightarrow> tt_data_set s \<Longrightarrow> \<exists>b. next_buff s = Some b"
  by (auto simp: tag_base_def bufs_ok_def next_buff_def split: option.splits)

lemma initial_step:
  assumes inv: "tag_base env s" "tt_data_set s" "env_ok env"
  obtains s' err where "tnep_tx_initial_msg_set env s = Inr (s', err)" "ctl_step s [] s'" "initial_fits env s \<longrightarrow> err = None"
proof -
  obtain s' err where i: "tnep_tx_initial_msg_set env s = Inr (s', err)" "same_ctl s s'"
    by (rule initial_msg_set_safe [OF inv])
  obtain b where b: "next_buff s = Some b" using next_buff_ex [OF inv(1,2)] by blast
  have "err = None" if fits: "initial_fits env s"
  proof -
    obtain xs where "te_svcs env \<noteq> []" "initial_records env s xs" "image_fits (te_t4t env) (unat (tt_tx_len s)) (emitted_size xs)"
      using fits by (auto simp: initial_fits_def)
    then show ?thesis using initial_msg_set_fits [OF inv _ b] i(1) by simp
  qed
  then show ?thesis using that i same_ctl_step by blast
qed

section \<open>The state machine\<close>

text \<open>The handler runs with the signal already reset, so that no message is pending, and has the message.\<close>

definition rx_taken :: "tnep_env \<Rightarrow> tnep_tag \<Rightarrow> u8 list \<Rightarrow> bool" where
  "rx_taken env s data \<longleftrightarrow> tag_inv env s \<and> \<not> rx_pending s \<and> tt_rx_data s = Some data \<and> rx_ok data (tt_rx_len s)"

text \<open>A state that is the abstract protocol's next state, with its callbacks.\<close>

definition simulates :: "tnep_tag \<Rightarrow> tnep_spec \<times> tnep_out list \<Rightarrow> tnep_tag \<Rightarrow> bool" where
  "simulates s r s' \<longleftrightarrow> tnep_abs s' = fst r \<and> tnep_calls s' = tnep_calls s @ snd r"

lemma bufs_ok_upd [simp]:
  "bufs_ok env (s\<lparr>tt_rx_len := k\<rparr>) = bufs_ok env s" "bufs_ok env (s\<lparr>tt_svc_active := a\<rparr>) = bufs_ok env s"
  "bufs_ok env (s\<lparr>tt_state := st\<rparr>) = bufs_ok env s" "bufs_ok env (s\<lparr>tt_app_data_expected := x\<rparr>) = bufs_ok env s"
  "bufs_ok env (s\<lparr>tt_events := ev\<rparr>) = bufs_ok env s" "bufs_ok env (s\<lparr>tt_msg_rx := sg\<rparr>) = bufs_ok env s"
  "bufs_ok env (s\<lparr>tt_msg_tx := sg\<rparr>) = bufs_ok env s" "bufs_ok env (s\<lparr>tt_rx_data := d\<rparr>) = bufs_ok env s"
  "bufs_ok env (s\<lparr>tt_max_records_cnt := n\<rparr>) = bufs_ok env s" "bufs_ok env (s\<lparr>tt_initial_msg_encode := cb\<rparr>) = bufs_ok env s"
  "bufs_ok env (s\<lparr>tt_current_buff := b\<rparr>) = bufs_ok env s" "bufs_ok env (s\<lparr>tt_data_set := x\<rparr>) = bufs_ok env s"
  "bufs_ok env (s\<lparr>tt_svc_cnt := n\<rparr>) = bufs_ok env s"
  by (simp_all add: bufs_ok_def split: option.split)

lemma rx_pending_upd [simp]:
  "rx_pending (s\<lparr>tt_rx_len := k\<rparr>) = rx_pending s" "rx_pending (s\<lparr>tt_svc_active := a\<rparr>) = rx_pending s"
  "rx_pending (s\<lparr>tt_state := st\<rparr>) = rx_pending s" "rx_pending (s\<lparr>tt_app_data_expected := x\<rparr>) = rx_pending s"
  "rx_pending (s\<lparr>tt_max_records_cnt := n\<rparr>) = rx_pending s" "rx_pending (s\<lparr>tt_initial_msg_encode := cb\<rparr>) = rx_pending s"
  "rx_pending (s\<lparr>tt_msg_tx := sg\<rparr>) = rx_pending s"
  by (simp_all add: rx_pending_def)

text \<open>How the handlers change the control state.\<close>

lemma base_state: "tag_base env s \<Longrightarrow> tt_data_set s \<Longrightarrow> tag_base env (s\<lparr>tt_state := st\<rparr>)"
  by (simp add: tag_base_def)

lemma base_active: "tag_base env s \<Longrightarrow> (\<And>i. a = Some i \<Longrightarrow> i < length (te_svcs env)) \<Longrightarrow> tag_base env (s\<lparr>tt_svc_active := a\<rparr>)"
  by (simp add: tag_base_def)

lemma base_rx_len: "tag_base env s \<Longrightarrow> \<not> rx_pending s \<Longrightarrow> tag_base env (s\<lparr>tt_rx_len := k\<rparr>)"
  by (simp add: tag_base_def)

lemma base_app: "tag_base env s \<Longrightarrow> tag_base env (s\<lparr>tt_app_data_expected := x\<rparr>)"
  by (simp add: tag_base_def)

lemmas base_intros = base_state base_active base_rx_len base_app

lemma base_activeD: "tag_base env s \<Longrightarrow> tt_svc_active s = Some i \<Longrightarrow> i < length (te_svcs env)"
  by (simp add: tag_base_def)

text \<open>What no handler changes: everything of the control state but the state name, the active service and
  the length of the received message.\<close>

definition tnep_fixed :: "tnep_tag \<Rightarrow> tnep_tag" where
  "tnep_fixed s = (tnep_core s)\<lparr>tt_state := TNEP_STATE_DISABLED, tt_svc_active := None, tt_rx_len := 0\<rparr>"

definition tag_kept :: "tnep_env \<Rightarrow> tnep_tag \<Rightarrow> tnep_tag \<Rightarrow> bool" where
  "tag_kept env s s' \<longleftrightarrow> tag_inv env s' \<and> tnep_fixed s' = tnep_fixed s"

lemma tnep_fixed_upd [simp]:
  "tnep_fixed (s\<lparr>tt_rx_len := k\<rparr>) = tnep_fixed s" "tnep_fixed (s\<lparr>tt_svc_active := a\<rparr>) = tnep_fixed s"
  "tnep_fixed (s\<lparr>tt_app_data_expected := x\<rparr>) = tnep_fixed s" "tnep_fixed (s\<lparr>tt_state := st\<rparr>) = tnep_fixed s"
  by (simp_all add: tnep_fixed_def tnep_core_def)

lemma tnep_fixed_step: "ctl_step s evs s' \<Longrightarrow> tnep_fixed s' = tnep_fixed s"
  by (simp add: tnep_fixed_def ctl_step_def)

lemma tnep_fixed_fields:
  assumes "tnep_fixed s' = tnep_fixed s"
  shows "tt_tx_data s' = tt_tx_data s" "tt_tx_swap s' = tt_tx_swap s" "tt_tx_len s' = tt_tx_len s"
    "tt_max_records_cnt s' = tt_max_records_cnt s" "tt_data_set s' = tt_data_set s" "tt_events s' = tt_events s"
  using arg_cong [OF assms, of tt_tx_data] arg_cong [OF assms, of tt_tx_swap] arg_cong [OF assms, of tt_tx_len]
    arg_cong [OF assms, of tt_max_records_cnt] arg_cong [OF assms, of tt_data_set] arg_cong [OF assms, of tt_events]
  by (simp_all add: tnep_fixed_def tnep_core_def)

lemma tnep_calls_upd [simp]:
  "tnep_calls (s\<lparr>tt_rx_len := k\<rparr>) = tnep_calls s" "tnep_calls (s\<lparr>tt_svc_active := a\<rparr>) = tnep_calls s"
  "tnep_calls (s\<lparr>tt_app_data_expected := x\<rparr>) = tnep_calls s" "tnep_calls (s\<lparr>tt_state := st\<rparr>) = tnep_calls s"
  by (simp_all add: tnep_calls_def)

lemma initial_fits_upd [simp]:
  "initial_fits env (s\<lparr>tt_rx_len := k\<rparr>) = initial_fits env s" "initial_fits env (s\<lparr>tt_svc_active := a\<rparr>) = initial_fits env s"
  "initial_fits env (s\<lparr>tt_rx_data := d\<rparr>) = initial_fits env s" "initial_fits env (s\<lparr>tt_msg_rx := sg\<rparr>) = initial_fits env s"
  "initial_fits env (s\<lparr>tt_events := ev\<rparr>) = initial_fits env s" "initial_fits env (s\<lparr>tt_state := st\<rparr>) = initial_fits env s"
  by (rule initial_fits_cong; simp)+

lemma ready_data_set: "tag_base env s \<Longrightarrow> tt_state s \<noteq> TNEP_STATE_DISABLED \<Longrightarrow> tt_data_set s"
  by (auto simp: tag_base_def split: if_splits)

lemma tx_empty_step:
  assumes "tag_base env s" "tt_data_set s"
  obtains s' where "tnep_tx_msg_encode env s None = Inr (s', None)" "ctl_step s [] s'"
  using tx_msg_encode_safe [OF assms, of None] tx_encode_none_ok same_ctl_step by metis

lemma simulates_step:
  assumes "ctl_step s evs s'" "simulates s0 (r, evs0) s"
  shows "simulates s0 (r, evs0 @ evs) s'"
  using ctl_step_fields(1,7) [OF assms(1)] assms by (simp add: simulates_def ctl_step_def tnep_abs_def)

lemma simulates_start: "tnep_calls s = tnep_calls s0 \<Longrightarrow> simulates s0 (tnep_abs s, []) s"
  by (simp add: simulates_def)

text \<open>Showing the initial message and reporting its error, if any, to the service last selected.\<close>

lemma initial_check:
  assumes s2: "tag_base env s" "tt_data_set s" "env_ok env"
  obtains s' where "bindE (tnep_tx_initial_msg_set env s) (\<lambda>(s, err). tnep_error_check env s err) = Inr s'"
    "tag_base env s'" "tt_state s' = tt_state s" "tt_svc_active s' = tt_svc_active s" "tnep_fixed s' = tnep_fixed s"
    "initial_fits env s \<longrightarrow> simulates s (tnep_abs s, []) s'"
proof -
  obtain s1 err where i: "tnep_tx_initial_msg_set env s = Inr (s1, err)" "ctl_step s [] s1" "initial_fits env s \<longrightarrow> err = None"
    by (rule initial_step [OF s2])
  have inv: "tag_base env s1" using s2(1) ctl_step_inv [OF i(2)] by simp
  then obtain s2 where x: "tnep_error_check env s1 err = Inr s2" "ctl_step s1 (spec_error (tt_svc_active s1) err) s2"
    by (rule error_check_step [OF s2(3)])
  show ?thesis
  proof (rule that)
    show "initial_fits env s \<longrightarrow> simulates s (tnep_abs s, []) s2"
      using simulates_step [OF x(2) simulates_step [OF i(2) simulates_start [OF refl]]] i(3)
      by (auto simp: spec_error_def split: option.splits)
  qed (use i(1) x(1) ctl_step_inv [OF x(2)] inv ctl_step_fields(1,7) [OF x(2)] ctl_step_fields(1,7) [OF i(2)]
      tnep_fixed_step [OF x(2)] tnep_fixed_step [OF i(2)] in simp_all)
qed

lemma simulates_via:
  assumes "simulates s1 r s'" "tnep_calls s1 = tnep_calls s" shows "simulates s r s'"
  using assms by (simp add: simulates_def)

lemma simulates_callback:
  assumes "ctl_step s1 evs s'" "tnep_calls s1 = tnep_calls s" "tnep_abs s1 = a"
  shows "simulates s (a, evs) s'"
  using simulates_step [OF assms(1) simulates_start [OF assms(2)]] assms(3) by simp

lemma step_inv:
  assumes "ctl_step s evs s'" "tag_base env s" "tt_state s = TNEP_STATE_SERVICE_SELECTED \<longrightarrow> tt_svc_active s \<noteq> None"
    and "tnep_fixed s = tnep_fixed s0"
  shows "tag_kept env s0 s'"
  using ctl_step_inv [OF assms(1)] ctl_step_fields(1,7) [OF assms(1)] tnep_fixed_step [OF assms(1)] assms(2-4)
  by (simp add: tag_kept_def tag_inv_def)

text \<open>Service Ready: a request for a service selects it, a malformed message is reported to the service
  selected before, every other message makes the tag show the initial message.\<close>

lemma ready_chosen:
  assumes env: "env_ok env" and inv: "tag_base env s" "\<not> rx_pending s" "tt_state s = TNEP_STATE_SERVICE_READY"
    and rq: "\<And>k i. rq = Req_Select k i \<Longrightarrow> i < length (te_svcs env)"
  obtains s' where "bindE (case chosen s rq of (s, status) \<Rightarrow> service_ready_rx_status_process env s status)
        (\<lambda>(s, err). tnep_error_check env s err) = Inr s'" "tag_kept env s s'"
    "initial_fits env s \<longrightarrow> simulates s (tnep_spec_rx data (tnep_abs s) rq) s'"
proof -
  have ds: "tt_data_set s" using inv ready_data_set by simp
  have abs: "tnep_abs s = (TNEP_STATE_SERVICE_READY, tt_svc_active s)" using inv(3) by (simp add: tnep_abs_def)
  have idle: "\<exists>s'. bindE (tnep_tx_initial_msg_set env s1) (\<lambda>(s, err). tnep_error_check env s err) = Inr s' \<and> tag_kept env s s' \<and>
      (initial_fits env s \<longrightarrow> simulates s ((TNEP_STATE_SERVICE_READY, tt_svc_active s1), []) s')"
    if s1: "tag_base env s1" "tt_data_set s1" "tt_state s1 = TNEP_STATE_SERVICE_READY" "tnep_calls s1 = tnep_calls s"
      "initial_fits env s1 = initial_fits env s" "tnep_fixed s1 = tnep_fixed s" for s1
  proof -
    obtain s' where "bindE (tnep_tx_initial_msg_set env s1) (\<lambda>(s, err). tnep_error_check env s err) = Inr s'"
        "tag_base env s'" "tt_state s' = tt_state s1" "tnep_fixed s' = tnep_fixed s1"
        "initial_fits env s1 \<longrightarrow> simulates s1 (tnep_abs s1, []) s'"
      by (rule initial_check [OF s1(1,2) env])
    then show ?thesis using simulates_via [OF _ s1(4)] s1(3,5,6) by (auto simp: tnep_abs_def tag_inv_def tag_kept_def)
  qed
  show ?thesis
  proof (cases rq)
    case Req_Malformed
    obtain s2 where x: "tnep_error_check env s (Some ENOTSUP) = Inr s2" "ctl_step s (spec_error (tt_svc_active s) (Some ENOTSUP)) s2"
      by (rule error_check_step [OF env inv(1)])
    show ?thesis
      by (rule that [of s2]) (use Req_Malformed x(1) step_inv [OF x(2) inv(1)] inv(3) simulates_callback [OF x(2) refl abs]
          in \<open>simp_all add: chosen_def service_ready_rx_status_process_def abs\<close>)
  next
    case (Req_Data k)
    from idle [of "s\<lparr>tt_rx_len := k\<rparr>"] show ?thesis
      using that Req_Data inv ds by (auto simp: chosen_def service_ready_rx_status_process_def abs base_intros)
  next
    case (Req_Deselect k)
    have "tag_base env (s\<lparr>tt_rx_len := k, tt_svc_active := None\<rparr>)" using inv by (intro base_intros) simp_all
    from idle [OF this] show ?thesis
      using that Req_Deselect inv ds by (auto simp: chosen_def service_ready_rx_status_process_def abs base_intros)
  next
    case (Req_Select k i)
    let ?s2 = "s\<lparr>tt_rx_len := k, tt_svc_active := Some i, tt_app_data_expected := True, tt_state := TNEP_STATE_SERVICE_SELECTED\<rparr>"
    have i: "i < length (te_svcs env)" using Req_Select by (rule rq)
    have inv2: "tag_base env ?s2" using inv ds i by (intro base_intros) simp_all
    obtain s3 where x: "tnep_callback env ?s2 i (Svc_Selected i) scb_selected = Inr s3" "ctl_step ?s2 [Svc_Selected i] s3"
      by (rule selected_step [OF env inv2 i])
    have "simulates s ((TNEP_STATE_SERVICE_SELECTED, Some i), [Svc_Selected i]) s3"
      by (rule simulates_callback [OF x(2)]) (simp_all add: tnep_abs_def)
    then show ?thesis
      by (intro that [of s3]) (use x(1) step_inv [OF x(2) inv2] Req_Select
          in \<open>simp_all add: chosen_def service_ready_rx_status_process_def tnep_error_check_def abs\<close>)
  qed
qed

text \<open>Service Selected: messages go to the service, a request for a service (also the same one) deselects the
  service and selects the other, a deselection returns to Service Ready.\<close>

lemma selected_chosen:
  assumes env: "env_ok env" and inv: "tag_base env s" "\<not> rx_pending s" "tt_state s = TNEP_STATE_SERVICE_SELECTED"
    and act: "tt_svc_active s = Some old" "tt_rx_data s = Some data"
    and rq: "\<And>k i. rq = Req_Select k i \<Longrightarrow> i < length (te_svcs env)"
  obtains s' where "bindE (case chosen s rq of (s, status) \<Rightarrow> service_selected_rx_status_process env s old status)
        (\<lambda>(s, err). tnep_error_check env s err) = Inr s'" "tag_kept env s s'"
    "initial_fits env s \<longrightarrow> simulates s (tnep_spec_rx data (tnep_abs s) rq) s'"
proof -
  have ds: "tt_data_set s" using inv ready_data_set by simp
  have abs: "tnep_abs s = (TNEP_STATE_SERVICE_SELECTED, Some old)" using inv(3) act(1) by (simp add: tnep_abs_def)
  have l: "old < length (te_svcs env)" by (rule base_activeD [OF inv(1) act(1)])
  show ?thesis
  proof (cases rq)
    case Req_Malformed
    obtain s2 where x: "tnep_error_check env s (Some ENOTSUP) = Inr s2" "ctl_step s (spec_error (tt_svc_active s) (Some ENOTSUP)) s2"
      by (rule error_check_step [OF env inv(1)])
    show ?thesis
      by (rule that [of s2]) (use Req_Malformed x(1) step_inv [OF x(2) inv(1)] act simulates_callback [OF x(2) refl abs]
          in \<open>simp_all add: chosen_def service_selected_rx_status_process_def abs spec_error_def\<close>)
  next
    case (Req_Data k)
    let ?s2 = "s\<lparr>tt_rx_len := k, tt_app_data_expected := True\<rparr>"
    have inv2: "tag_base env ?s2" using inv by (intro base_intros) simp_all
    obtain s3 where x: "tnep_callback env ?s2 old (Svc_Message old data k)
        (\<lambda>cb. map_option (\<lambda>f. f data k) (scb_message_received cb)) = Inr s3" "ctl_step ?s2 [Svc_Message old data k] s3"
      by (rule message_step [OF env inv2 l])
    have "simulates s ((TNEP_STATE_SERVICE_SELECTED, Some old), [Svc_Message old data k]) s3"
      by (rule simulates_callback [OF x(2)]) (simp_all add: tnep_abs_def act inv(3))
    then show ?thesis
      by (intro that [of s3]) (use x(1) step_inv [OF x(2) inv2] Req_Data act
          in \<open>simp_all add: chosen_def service_selected_rx_status_process_def tnep_error_check_def abs\<close>)
  next
    case (Req_Select k i)
    let ?s2 = "s\<lparr>tt_rx_len := k, tt_svc_active := Some i\<rparr>"
    have i: "i < length (te_svcs env)" using Req_Select by (rule rq)
    have inv2: "tag_base env ?s2" using inv i by (intro base_intros) simp_all
    obtain s3 where x: "tnep_callback env ?s2 old (Svc_Deselected old) scb_deselected = Inr s3" "ctl_step ?s2 [Svc_Deselected old] s3"
      by (rule deselected_step [OF env inv2 l])
    have inv3: "tag_base env (s3\<lparr>tt_app_data_expected := True\<rparr>)" using inv2 ctl_step_inv [OF x(2)] by (intro base_intros) simp_all
    obtain s4 where y: "tnep_callback env (s3\<lparr>tt_app_data_expected := True\<rparr>) i (Svc_Selected i) scb_selected = Inr s4"
        "ctl_step (s3\<lparr>tt_app_data_expected := True\<rparr>) [Svc_Selected i] s4"
      by (rule selected_step [OF env inv3 i])
    note f3 = ctl_step_fields(1,7) [OF x(2)]
    have "simulates s ((TNEP_STATE_SERVICE_SELECTED, Some i), [Svc_Deselected old] @ [Svc_Selected i]) s4"
    proof (rule simulates_step [OF y(2)])
      show "simulates s ((TNEP_STATE_SERVICE_SELECTED, Some i), [Svc_Deselected old]) (s3\<lparr>tt_app_data_expected := True\<rparr>)"
        using x(2) f3 inv(3) by (simp add: simulates_def tnep_abs_def ctl_step_def)
    qed
    then show ?thesis
      by (intro that [of s4]) (use x(1) y(1) step_inv [OF y(2) inv3] tnep_fixed_step [OF x(2)] f3 Req_Select
          in \<open>simp_all add: chosen_def service_selected_rx_status_process_def tnep_error_check_def abs\<close>)
  next
    case (Req_Deselect k)
    let ?s2 = "s\<lparr>tt_rx_len := k, tt_svc_active := None\<rparr>"
    have "tag_base env ?s2" using inv by (intro base_intros) simp_all
    moreover have "tt_data_set ?s2" using ds by simp
    ultimately have inv2: "tag_base env ?s2" "tt_data_set ?s2" .
    obtain s3 err where x: "tnep_tx_initial_msg_set env ?s2 = Inr (s3, err)" "ctl_step ?s2 [] s3"
      by (rule initial_step [OF inv2 env])
    have inv3: "tag_base env s3" using inv2 ctl_step_inv [OF x(2)] by simp
    obtain s4 where y: "tnep_callback env s3 old (Svc_Deselected old) scb_deselected = Inr s4" "ctl_step s3 [Svc_Deselected old] s4"
      by (rule deselected_step [OF env inv3 l])
    let ?s5 = "s4\<lparr>tt_app_data_expected := False, tt_state := TNEP_STATE_SERVICE_READY\<rparr>"
    note f4 = ctl_step_fields(7,10) [OF x(2)] ctl_step_fields(7,10) [OF y(2)]
    have inv5: "tag_kept env s ?s5"
      using inv3 ctl_step_inv [OF y(2)] tnep_fixed_step [OF y(2)] tnep_fixed_step [OF x(2)] f4 ds
      by (simp add: tag_kept_def tag_inv_def base_intros)
    have "simulates s ((TNEP_STATE_SERVICE_READY, None), [Svc_Deselected old]) ?s5"
      using x(2) y(2) f4 by (simp add: simulates_def tnep_abs_def ctl_step_def)
    then show ?thesis
      by (intro that [of ?s5]) (use x(1) y(1) inv5 f4 Req_Deselect
          in \<open>simp_all add: chosen_def service_selected_rx_status_process_def tnep_error_check_def abs split: option.split\<close>)
  qed
qed

lemma rx_handled:
  assumes "env_ok env" "rx_taken env s data" "tt_data_set s"
  obtains s1 where "tnep_tx_msg_encode env s None = Inr (s1, None)" "ctl_step s [] s1"
    "tnep_svc_select_from_msg env s1 = Inr (chosen s1 (tnep_request env data (tt_rx_len s)))"
    "tag_base env s1" "\<not> rx_pending s1" "initial_fits env s1 = initial_fits env s" "\<And>s'. tag_kept env s1 s' = tag_kept env s s'"
    "\<And>r s'. simulates s1 (tnep_spec_rx data (tnep_abs s1) r) s' \<Longrightarrow> simulates s (tnep_spec_rx data (tnep_abs s) r) s'"
proof -
  have inv: "tag_base env s" "\<not> rx_pending s" using assms by (auto simp: rx_taken_def tag_inv_def)
  obtain s1 where e: "tnep_tx_msg_encode env s None = Inr (s1, None)" "ctl_step s [] s1"
    by (rule tx_empty_step [OF inv(1) assms(3)])
  note f1 = ctl_step_fields [OF e(2)]
  show ?thesis
  proof (rule that [OF e])
    show "tnep_svc_select_from_msg env s1 = Inr (chosen s1 (tnep_request env data (tt_rx_len s)))"
      using select_from_msg_chosen [OF assms(1), of s1 data] assms(2) f1 by (simp add: rx_taken_def)
    have "tnep_abs s1 = tnep_abs s" "tnep_calls s1 = tnep_calls s"
      using e(2) f1 by (simp_all add: tnep_abs_def ctl_step_def)
    then show "simulates s (tnep_spec_rx data (tnep_abs s) r) s'" if "simulates s1 (tnep_spec_rx data (tnep_abs s1) r) s'" for r s'
      using that by (simp add: simulates_def)
    show "initial_fits env s1 = initial_fits env s" by (rule initial_fits_cong) (fact f1)+
  qed (use inv ctl_step_inv [OF e(2)] ctl_step_pending [OF e(2)] tnep_fixed_step [OF e(2)] f1
      in \<open>simp_all add: tag_kept_def\<close>)
qed

lemma sm_rx:
  assumes env: "env_ok env" and rx: "rx_taken env s data"
  obtains s' where "tnep_state_machine env s TNEP_EVENT_MSG_RX_NEW = Inr s'" "tag_kept env s s'"
    "initial_fits env s \<longrightarrow> simulates s (tnep_spec_rx data (tnep_abs s) (tnep_request env data (tt_rx_len s))) s'"
proof -
  let ?rq = "tnep_request env data (tt_rx_len s)"
  have inv: "tag_inv env s" using rx by (simp add: rx_taken_def)
  show ?thesis
  proof (cases "tt_state s")
    case TNEP_STATE_DISABLED
    then show ?thesis
      using that [of s] inv by (simp add: tnep_state_machine_def tnep_sm_disabled_def simulates_def tnep_abs_def tag_kept_def)
  next
    case TNEP_STATE_SERVICE_READY
    then have "tt_data_set s" using inv ready_data_set by (simp add: tag_inv_def)
    then obtain s1 where 1: "tnep_tx_msg_encode env s None = Inr (s1, None)" "ctl_step s [] s1"
        "tnep_svc_select_from_msg env s1 = Inr (chosen s1 ?rq)" "tag_base env s1" "\<not> rx_pending s1"
        "initial_fits env s1 = initial_fits env s" "\<And>s'. tag_kept env s1 s' = tag_kept env s s'"
        "\<And>r s'. simulates s1 (tnep_spec_rx data (tnep_abs s1) r) s' \<Longrightarrow> simulates s (tnep_spec_rx data (tnep_abs s) r) s'"
      by (rule rx_handled [OF env rx]) blast
    have st: "tt_state s1 = TNEP_STATE_SERVICE_READY" using TNEP_STATE_SERVICE_READY ctl_step_fields(1) [OF 1(2)] by simp
    obtain s' where "bindE (case chosen s1 ?rq of (s, status) \<Rightarrow> service_ready_rx_status_process env s status)
        (\<lambda>(s, err). tnep_error_check env s err) = Inr s'" "tag_kept env s1 s'"
      "initial_fits env s1 \<longrightarrow> simulates s1 (tnep_spec_rx data (tnep_abs s1) ?rq) s'"
      by (rule ready_chosen [OF env 1(4,5) st, of ?rq]) (use request_bound in blast)+
    then show ?thesis
      using 1 by (intro that [of s']) (simp_all add: tnep_state_machine_def TNEP_STATE_SERVICE_READY tnep_sm_service_ready_def)
  next
    case TNEP_STATE_SERVICE_SELECTED
    then obtain old where old: "tt_svc_active s = Some old" using inv by (auto simp: tag_inv_def)
    have "tt_data_set s" using TNEP_STATE_SERVICE_SELECTED inv ready_data_set [of env s] by (simp add: tag_inv_def)
    then obtain s1 where 1: "tnep_tx_msg_encode env s None = Inr (s1, None)" "ctl_step s [] s1"
        "tnep_svc_select_from_msg env s1 = Inr (chosen s1 ?rq)" "tag_base env s1" "\<not> rx_pending s1"
        "initial_fits env s1 = initial_fits env s" "\<And>s'. tag_kept env s1 s' = tag_kept env s s'"
        "\<And>r s'. simulates s1 (tnep_spec_rx data (tnep_abs s1) r) s' \<Longrightarrow> simulates s (tnep_spec_rx data (tnep_abs s) r) s'"
      by (rule rx_handled [OF env rx]) blast
    note f1 = ctl_step_fields(1,5,7) [OF 1(2)]
    have st: "tt_state s1 = TNEP_STATE_SERVICE_SELECTED" "tt_svc_active s1 = Some old" "tt_rx_data s1 = Some data"
      using TNEP_STATE_SERVICE_SELECTED old rx f1 by (simp_all add: rx_taken_def)
    obtain s' where "bindE (case chosen s1 ?rq of (s, status) \<Rightarrow> service_selected_rx_status_process env s old status)
        (\<lambda>(s, err). tnep_error_check env s err) = Inr s'" "tag_kept env s1 s'"
      "initial_fits env s1 \<longrightarrow> simulates s1 (tnep_spec_rx data (tnep_abs s1) ?rq) s'"
      by (rule selected_chosen [OF env 1(4,5) st, of ?rq]) (use request_bound in blast)+
    then show ?thesis
      using 1 by (intro that [of s']) (simp_all add: tnep_state_machine_def TNEP_STATE_SERVICE_SELECTED tnep_sm_service_selected_def old)
  qed
qed

text \<open>A new selection of the tag by the reader makes it show the initial message; a selected service is
  not told.\<close>

lemma sm_tag_selected:
  assumes env: "env_ok env" and inv: "tag_inv env s"
  obtains s' where "tnep_state_machine env s TNEP_EVENT_TAG_SELECTED = Inr s'" "tag_kept env s s'"
    "initial_fits env s \<longrightarrow> tnep_calls s' = tnep_calls s \<and> tt_svc_active s' = tt_svc_active s \<and>
       (tt_state s \<noteq> TNEP_STATE_DISABLED \<longrightarrow> tt_state s' = TNEP_STATE_SERVICE_READY)"
proof (cases "tt_state s")
  case TNEP_STATE_DISABLED
  then show ?thesis using that [of s] inv by (simp add: tnep_state_machine_def tnep_sm_disabled_def tag_kept_def)
next
  case TNEP_STATE_SERVICE_READY
  then have b: "tag_base env s" "tt_data_set s" using inv ready_data_set by (simp_all add: tag_inv_def)
  obtain s' where "bindE (tnep_tx_initial_msg_set env s) (\<lambda>(s, err). tnep_error_check env s err) = Inr s'"
    "tag_base env s'" "tt_state s' = tt_state s" "tt_svc_active s' = tt_svc_active s" "tnep_fixed s' = tnep_fixed s"
    "initial_fits env s \<longrightarrow> simulates s (tnep_abs s, []) s'"
    by (rule initial_check [OF b env])
  then show ?thesis
    using that [of s'] TNEP_STATE_SERVICE_READY
    by (simp add: tnep_state_machine_def tnep_sm_service_ready_def tag_inv_def simulates_def tag_kept_def)
next
  case TNEP_STATE_SERVICE_SELECTED
  have b: "tag_base env s" "tt_data_set s"
    using inv ready_data_set [of env s] TNEP_STATE_SERVICE_SELECTED by (simp_all add: tag_inv_def)
  obtain old where old: "tt_svc_active s = Some old" using inv TNEP_STATE_SERVICE_SELECTED by (auto simp: tag_inv_def)
  obtain s1 err where i: "tnep_tx_initial_msg_set env s = Inr (s1, err)" "ctl_step s [] s1" "initial_fits env s \<longrightarrow> err = None"
    by (rule initial_step [OF b env])
  let ?s2 = "s1\<lparr>tt_state := TNEP_STATE_SERVICE_READY\<rparr>"
  have "tag_base env ?s2" using b ctl_step_inv [OF i(2)] ctl_step_fields(10) [OF i(2)] by (intro base_intros) simp_all
  then obtain s3 where x: "tnep_error_check env ?s2 err = Inr s3" "ctl_step ?s2 (spec_error (tt_svc_active ?s2) err) s3"
    by (rule error_check_step [OF env])
  have "tnep_calls s1 = tnep_calls s" using i(2) by (simp add: ctl_step_def)
  then have "initial_fits env s \<longrightarrow> tnep_calls s3 = tnep_calls s"
    using x(2) i(3) by (auto simp: ctl_step_def spec_error_def split: option.splits)
  then show ?thesis
    using that [of s3] i(1) x(1) step_inv [OF x(2) \<open>tag_base env ?s2\<close>] tnep_fixed_step [OF i(2)] ctl_step_fields(1,7) [OF x(2)] ctl_step_fields(7) [OF i(2)]
    by (simp add: tnep_state_machine_def tnep_sm_service_selected_def TNEP_STATE_SERVICE_SELECTED old)
qed

end
