(* ===== verification/Tnep_Tag_Run.thy ===== *)
theory Tnep_Tag_Run
  imports Tnep_Tag_Spec
begin

text \<open>
  Runs of the TNEP tag: the calls of the application and of the NFC stack as one step function, the
  states that legal calls reach, and the properties of the tag.
\<close>

section \<open>Calls\<close>

datatype tnep_call =
    Buffer_Register "nat option" "nat option" u32
  | Tag_Init "bool list option" u8 bool
  | Initial_Msg_Create u32 "initial_msg_encode_t option"
  | Rx_Indicate ptr u32
  | On_Selected
  | K_Poll
  | Process
  | App_Call tnep_app_call

definition tnep_exec :: "tnep_env \<Rightarrow> tnep_tag \<Rightarrow> tnep_call \<Rightarrow> tnep_outcome" where
  "tnep_exec env s c = (case c of
     Buffer_Register a b len \<Rightarrow> Inr (nfc_tnep_tag_tx_msg_buffer_register s a b len)
   | Tag_Init evs n p \<Rightarrow> nfc_tnep_tag_init env s evs n p
   | Initial_Msg_Create n cb \<Rightarrow> nfc_tnep_tag_initial_msg_create env s n cb
   | Rx_Indicate d len \<Rightarrow> Inr (nfc_tnep_tag_rx_msg_indicate s d len, None)
   | On_Selected \<Rightarrow> Inr (nfc_tnep_tag_on_selected s, None)
   | K_Poll \<Rightarrow> Inr (tnep_k_poll s, None)
   | Process \<Rightarrow> bindE (nfc_tnep_tag_process env s) (\<lambda>s. Inr (s, None))
   | App_Call c \<Rightarrow> tnep_app_exec env s c)"

text \<open>
  What the callers have to respect: buffers of the given length (with room for the length field on a
  Type 4 Tag), two events, well-formed messages and callbacks, received bytes that are really there and
  that announce no payload of nearly \<open>2 ^ 32\<close> bytes, and no processing before the initialisation.
\<close>

definition buf_arg_ok :: "tnep_env \<Rightarrow> tnep_tag \<Rightarrow> nat option \<Rightarrow> u32 \<Rightarrow> bool" where
  "buf_arg_ok env s p len \<longleftrightarrow> (case p of None \<Rightarrow> True
     | Some a \<Rightarrow> unat len \<le> length (tt_mem s a) \<and> (te_t4t env \<longrightarrow> 2 \<le> unat len))"

definition tnep_call_ok :: "tnep_env \<Rightarrow> tnep_tag \<Rightarrow> tnep_call \<Rightarrow> bool" where
  "tnep_call_ok env s c = (case c of
     Buffer_Register a b len \<Rightarrow> buf_arg_ok env s a len \<and> buf_arg_ok env s b len
   | Tag_Init evs n p \<Rightarrow> (case evs of None \<Rightarrow> True | Some es \<Rightarrow> n = 2 \<longrightarrow> 2 \<le> length es)
   | Initial_Msg_Create n cb \<Rightarrow> unat n < 2 ^ 31 \<and> (case cb of None \<Rightarrow> True | Some f \<Rightarrow> initial_cb_ok f)
   | Rx_Indicate d len \<Rightarrow> (case d of None \<Rightarrow> True | Some data \<Rightarrow> rx_ok data len)
   | Process \<Rightarrow> tt_events s \<noteq> None
   | App_Call c \<Rightarrow> app_ok c
   | _ \<Rightarrow> True)"

text \<open>The state the C runtime gives the module; the memory is the application's.\<close>

definition tnep_zero :: "(nat \<Rightarrow> u8 list) \<Rightarrow> tnep_tag" where
  "tnep_zero mem = \<lparr>tt_state = TNEP_STATE_DISABLED, tt_mem = mem, tt_tx_data = None, tt_tx_swap = None, tt_tx_len = 0,
     tt_rx_data = None, tt_rx_len = 0, tt_svc_active = None, tt_svc_cnt = 0, tt_max_records_cnt = 0,
     tt_app_data_expected = False, tt_data_set = False, tt_initial_msg_encode = None, tt_current_buff = None,
     tt_status_record = NFC_TNEP_STATUS_PROTOCOL_ERROR, tt_events = None,
     tt_msg_rx = \<lparr>sig_signaled = False, sig_result = TNEP_EVENT_DUMMY\<rparr>,
     tt_msg_tx = \<lparr>sig_signaled = False, sig_result = TNEP_EVENT_DUMMY\<rparr>, tt_log = []\<rparr>"

inductive tnep_reach :: "tnep_env \<Rightarrow> tnep_tag \<Rightarrow> bool" for env where
  zero: "tnep_reach env (tnep_zero mem)"
| call: "tnep_reach env s \<Longrightarrow> tnep_call_ok env s c \<Longrightarrow> tnep_exec env s c = Inr (s', r) \<Longrightarrow> tnep_reach env s'"

inductive_cases tnep_reachE: "tnep_reach env s"

section \<open>Every legal call keeps the invariant\<close>

lemma tag_inv_zero: "tag_inv env (tnep_zero mem)"
  by (simp add: tag_inv_def tag_base_def bufs_ok_def rx_pending_def tnep_zero_def)

lemma register_inv:
  assumes "tag_inv env s" "buf_arg_ok env s a len" "buf_arg_ok env s b len"
  shows "tag_inv env (fst (nfc_tnep_tag_tx_msg_buffer_register s a b len))"
proof (cases "a = None \<or> b = None \<or> len = 0")
  case True
  then show ?thesis using assms(1) by (simp add: nfc_tnep_tag_tx_msg_buffer_register_def)
next
  case False
  then show ?thesis
    using assms by (auto simp: nfc_tnep_tag_tx_msg_buffer_register_def tag_inv_def tag_base_def bufs_ok_def
        buf_arg_ok_def rx_pending_def)
qed

lemma tag_init_safe:
  assumes inv: "tag_inv env s" and evs: "case evs of None \<Rightarrow> True | Some es \<Rightarrow> n = 2 \<longrightarrow> 2 \<le> length es"
  obtains s' err where "nfc_tnep_tag_init env s evs n p = Inr (s', err)" "tag_inv env s'"
proof (cases "evs = None \<or> \<not> p \<or> n \<noteq> 2 \<or> tt_state s \<noteq> TNEP_STATE_DISABLED \<or> tt_tx_data s = None \<or> tt_tx_swap s = None \<or> tt_tx_len s = 0")
  case True
  then have "\<exists>e. nfc_tnep_tag_init env s evs n p = Inr (s, Some e)"
    by (auto simp: nfc_tnep_tag_init_def split: option.split)
  then show ?thesis using that inv by blast
next
  case False
  then obtain es where es: "evs = Some es" "2 \<le> length es" using evs by auto
  let ?s = "s\<lparr>tt_events := Some (es[0 := False, 1 := False]), tt_current_buff := tt_tx_data s, tt_data_set := True,
      tt_svc_cnt := of_nat (length (te_svcs env)), tt_msg_rx := (tt_msg_rx s)\<lparr>sig_signaled := False\<rparr>,
      tt_msg_tx := (tt_msg_tx s)\<lparr>sig_signaled := False\<rparr>\<rparr>"
  have "\<not> (es[0 := False, 1 := False]) ! 0" using es(2) by (cases es) (auto simp: nth_list_update)
  then have "tag_inv env ?s"
    using inv False es(2) by (auto simp: tag_inv_def tag_base_def rx_pending_def)
  then show ?thesis using that [of ?s None] False es by (simp add: nfc_tnep_tag_init_def)
qed

lemma initial_msg_create_safe:
  assumes env: "env_ok env" and inv: "tag_inv env s" and n: "unat n < 2 ^ 31"
    and cb: "case cb of None \<Rightarrow> True | Some f \<Rightarrow> initial_cb_ok f"
  obtains s' err where "nfc_tnep_tag_initial_msg_create env s n cb = Inr (s', err)" "tag_inv env s'"
proof (cases "n \<noteq> 0 \<and> cb = None \<or> tt_svc_cnt s < 1")
  case True
  then have "\<exists>e. nfc_tnep_tag_initial_msg_create env s n cb = Inr (s, Some e)"
    by (auto simp: nfc_tnep_tag_initial_msg_create_def)
  then show ?thesis using that inv by blast
next
  case False
  let ?s = "s\<lparr>tt_max_records_cnt := n, tt_initial_msg_encode := cb\<rparr>"
  have ds: "tt_data_set ?s" using inv False by (auto simp: tag_inv_def tag_base_def split: if_splits)
  have b: "tag_base env ?s" using inv n cb by (auto simp: tag_inv_def tag_base_def)
  obtain s1 err where i: "tnep_tx_initial_msg_set env ?s = Inr (s1, err)" "ctl_step ?s [] s1"
    by (rule initial_step [OF b ds env])
  have b1: "tag_base env s1" "tt_data_set s1" "tt_state s1 = tt_state s" "tt_svc_active s1 = tt_svc_active s"
    using b ds ctl_step_inv [OF i(2)] ctl_step_fields(1,7,10) [OF i(2)] by simp_all
  have "tag_inv env s1" using b1 inv by (simp add: tag_inv_def)
  moreover have "tag_inv env (s1\<lparr>tt_state := TNEP_STATE_SERVICE_READY\<rparr>)"
    using b1 by (simp add: tag_inv_def base_intros)
  ultimately show ?thesis
    using that False i(1) by (cases err) (auto simp: nfc_tnep_tag_initial_msg_create_def)
qed

lemma k_poll_inv: "tag_inv env s \<Longrightarrow> tag_inv env (tnep_k_poll s)"
proof (cases "tt_events s")
  case None
  then show "tag_inv env s \<Longrightarrow> tag_inv env (tnep_k_poll s)" by (simp add: tnep_k_poll_def)
next
  case (Some evs)
  assume inv: "tag_inv env s"
  then have ds: "tt_data_set s" "2 \<le> length evs" using Some by (auto simp: tag_inv_def tag_base_def split: if_splits)
  then obtain a b es where evs: "evs = a # b # es" by (cases evs; cases "List.tl evs") auto
  have "rx_pending (tnep_k_poll s) = rx_pending s" using Some evs by (auto simp: tnep_k_poll_def rx_pending_def)
  then show "tag_inv env (tnep_k_poll s)"
    using inv Some evs ds by (simp add: tnep_k_poll_def tag_inv_def tag_base_def)
qed

lemma sm_dummy:
  assumes env: "env_ok env" and inv: "tag_inv env s"
  obtains s' where "tnep_state_machine env s TNEP_EVENT_DUMMY = Inr s'" "tag_kept env s s'"
proof -
  obtain s1 where x: "tnep_error_check env s (Some ENOTSUP) = Inr s1" "ctl_step s (spec_error (tt_svc_active s) (Some ENOTSUP)) s1"
    by (rule error_check_step [OF env]) (use inv in \<open>auto simp: tag_inv_def\<close>)
  have k: "tag_kept env s s1" using step_inv [OF x(2)] inv by (simp add: tag_inv_def)
  have r: "tag_kept env s s" using inv by (simp add: tag_kept_def)
  show ?thesis
    using that [OF _ k] that [OF _ r] x(1)
    by (cases "tt_state s"; cases "tt_svc_active s")
      (auto simp: tnep_state_machine_def tnep_sm_disabled_def tnep_sm_service_ready_def tnep_sm_service_selected_def
        tnep_error_check_def)
qed

lemma process_event_rx:
  assumes env: "env_ok env" and inv: "tag_inv env s" and ev: "tt_events s = Some evs" "evs ! 0"
  obtains s0 data where "tnep_process_event env s 0 = tnep_state_machine env s0 TNEP_EVENT_MSG_RX_NEW" "rx_taken env s0 data"
    "tt_rx_data s = Some data" "tnep_abs s0 = tnep_abs s" "tnep_calls s0 = tnep_calls s" "initial_fits env s0 = initial_fits env s"
    "tt_rx_len s0 = tt_rx_len s" "tt_events s0 = Some (evs[0 := False])" "tt_data_set s0"
proof -
  let ?s0 = "s\<lparr>tt_msg_rx := (tt_msg_rx s)\<lparr>sig_signaled := False\<rparr>, tt_events := Some (evs[0 := False])\<rparr>"
  have ds: "tt_data_set s" "2 \<le> length evs" using inv ev by (auto simp: tag_inv_def tag_base_def split: if_splits)
  have "rx_pending s" using ev by (simp add: rx_pending_def)
  then obtain data where d: "sig_result (tt_msg_rx s) = TNEP_EVENT_MSG_RX_NEW" "tt_rx_data s = Some data"
      "rx_ok data (tt_rx_len s)"
    using inv by (auto simp: tag_inv_def tag_base_def)
  have "\<not> rx_pending ?s0" using ds(2) by (simp add: rx_pending_def) (use ds(2) in \<open>cases evs; simp\<close>)
  moreover have "tag_inv env ?s0" using inv ds calculation by (simp add: tag_inv_def tag_base_def)
  ultimately have "rx_taken env ?s0 data" using d by (simp add: rx_taken_def)
  moreover have "tnep_process_event env s 0 = tnep_state_machine env ?s0 TNEP_EVENT_MSG_RX_NEW"
    using ev ds(2) d(1) by (cases evs) (simp_all add: tnep_process_event_def Let_def)
  ultimately show ?thesis
    using that [of ?s0 data] ds(1) d(2) by (simp add: tnep_abs_def tnep_calls_def)
qed

lemma process_event_safe:
  assumes env: "env_ok env" and inv: "tag_inv env s" and ev: "tt_data_set s" and i: "i = 0 \<or> i = 1"
  obtains s' where "tnep_process_event env s i = Inr s'" "tag_inv env s'" "tt_data_set s'"
proof -
  obtain evs where evs: "tt_events s = Some evs" "2 \<le> length evs"
    using inv ev by (auto simp: tag_inv_def tag_base_def)
  show ?thesis
  proof (cases "evs ! i")
    case False
    then have "tnep_process_event env s i = Inr s" using evs i by (cases evs) (auto simp: tnep_process_event_def)
    then show ?thesis using that inv ev by blast
  next
    case True
    show ?thesis
    proof (cases "i = 0")
      case rx: True
      obtain s0 data where p: "tnep_process_event env s 0 = tnep_state_machine env s0 TNEP_EVENT_MSG_RX_NEW"
          "rx_taken env s0 data" "tt_data_set s0"
        by (rule process_event_rx [OF env inv evs(1)]) (use True rx in auto)
      obtain s' where "tnep_state_machine env s0 TNEP_EVENT_MSG_RX_NEW = Inr s'" "tag_kept env s0 s'"
        by (rule sm_rx [OF env p(2)])
      then show ?thesis using that p(1,3) rx tnep_fixed_fields(5) [of s' s0] by (simp add: tag_kept_def)
    next
      case tx: False
      let ?s0 = "s\<lparr>tt_msg_tx := (tt_msg_tx s)\<lparr>sig_signaled := False\<rparr>, tt_events := Some (evs[i := False])\<rparr>"
      have pend: "rx_pending ?s0 = rx_pending s" using evs tx by (simp add: rx_pending_def)
      have inv0: "tag_inv env ?s0" "tt_data_set ?s0"
        using inv evs ev pend by (simp_all add: tag_inv_def tag_base_def)
      have p: "tnep_process_event env s i = tnep_state_machine env ?s0 (sig_result (tt_msg_tx s))"
        using evs tx True i by (auto simp: tnep_process_event_def Let_def)
      have ne: "sig_result (tt_msg_tx s) \<noteq> TNEP_EVENT_MSG_RX_NEW" using inv by (simp add: tag_inv_def tag_base_def)
      obtain s' where "tnep_state_machine env ?s0 (sig_result (tt_msg_tx s)) = Inr s'" "tag_kept env ?s0 s'"
        using ne sm_dummy [OF env inv0(1)] sm_tag_selected [OF env inv0(1)] by (cases "sig_result (tt_msg_tx s)") metis+
      then show ?thesis using that p inv0(2) tnep_fixed_fields(5) [of s' ?s0] by (simp add: tag_kept_def)
    qed
  qed
qed

lemma process_safe:
  assumes env: "env_ok env" and inv: "tag_inv env s" and ev: "tt_data_set s"
  obtains s' where "nfc_tnep_tag_process env s = Inr s'" "tag_inv env s'"
proof -
  obtain s1 where 1: "tnep_process_event env s 0 = Inr s1" "tag_inv env s1" "tt_data_set s1"
    by (rule process_event_safe [OF assms, of 0]) simp_all
  obtain s2 where "tnep_process_event env s1 1 = Inr s2" "tag_inv env s2"
    by (rule process_event_safe [OF env 1(2,3), of 1]) simp_all
  then show ?thesis using that 1(1) by (simp add: nfc_tnep_tag_process_def)
qed

lemma tnep_exec_safe:
  assumes env: "env_ok env" and inv: "tag_inv env s" and ok: "tnep_call_ok env s c"
  obtains s' r where "tnep_exec env s c = Inr (s', r)" "tag_inv env s'"
proof (cases c)
  case (Buffer_Register a b len)
  then show ?thesis
    using that register_inv [OF inv, of a len b] ok
    by (cases "nfc_tnep_tag_tx_msg_buffer_register s a b len") (auto simp: tnep_exec_def tnep_call_ok_def)
next
  case (Tag_Init evs n p)
  then show ?thesis
    using that tag_init_safe [where env = env and s = s and evs = evs and n = n and p = p] inv ok by (auto simp: tnep_exec_def tnep_call_ok_def)
next
  case (Initial_Msg_Create n cb)
  then show ?thesis
    using that initial_msg_create_safe [where env = env and s = s and n = n and cb = cb] env inv ok by (auto simp: tnep_exec_def tnep_call_ok_def)
next
  case (Rx_Indicate d len)
  have "tag_inv env (nfc_tnep_tag_rx_msg_indicate s d len)"
    using inv ok Rx_Indicate
    by (auto simp: nfc_tnep_tag_rx_msg_indicate_def tnep_call_ok_def tag_inv_def tag_base_def rx_pending_def split: option.splits)
  then show ?thesis using that Rx_Indicate by (simp add: tnep_exec_def)
next
  case On_Selected
  have "tag_inv env (nfc_tnep_tag_on_selected s)"
    using inv by (simp add: nfc_tnep_tag_on_selected_def tag_inv_def tag_base_def)
  then show ?thesis using that On_Selected by (simp add: tnep_exec_def)
next
  case K_Poll
  then show ?thesis using that k_poll_inv [OF inv] by (simp add: tnep_exec_def)
next
  case Process
  have "tt_data_set s" using ok Process inv by (auto simp: tnep_call_ok_def tag_inv_def tag_base_def split: if_splits)
  then obtain s' where "nfc_tnep_tag_process env s = Inr s'" "tag_inv env s'" by (rule process_safe [OF env inv])
  then show ?thesis using that Process by (simp add: tnep_exec_def)
next
  case (App_Call a)
  obtain s' err where "tnep_app_exec env s a = Inr (s', err)" "same_ctl s s'"
    by (rule app_exec_safe [of env s a]) (use inv ok App_Call in \<open>auto simp: tag_inv_def tnep_call_ok_def\<close>)
  then show ?thesis
    using that App_Call inv same_ctl_inv [of s s' env] same_ctl_fields(1,7) [of s s'] by (simp add: tnep_exec_def tag_inv_def)
qed

lemma tnep_reach_inv: "tnep_reach env s \<Longrightarrow> env_ok env \<Longrightarrow> tag_inv env s"
proof (induction rule: tnep_reach.induct)
  case (zero mem)
  show ?case by (rule tag_inv_zero)
next
  case (call s c s' r)
  then show ?case using tnep_exec_safe [of env s c] by (metis Inr_inject prod.inject)
qed

section \<open>Processing a message\<close>

lemma process_simulates:
  assumes "env_ok env" "tnep_reach env s" "initial_fits env s"
    and "tt_events s = Some evs" "evs ! 0" "\<not> evs ! 1"
  shows "\<exists>data s'. tt_rx_data s = Some data \<and> nfc_tnep_tag_process env s = Inr s' \<and>
    simulates s (tnep_spec_rx data (tnep_abs s) (tnep_request env data (tt_rx_len s))) s'"
proof -
  have inv: "tag_inv env s" by (rule tnep_reach_inv [OF assms(2,1)])
  obtain s0 data where p: "tnep_process_event env s 0 = tnep_state_machine env s0 TNEP_EVENT_MSG_RX_NEW" "rx_taken env s0 data"
    "tt_rx_data s = Some data" "tnep_abs s0 = tnep_abs s" "tnep_calls s0 = tnep_calls s" "initial_fits env s0 = initial_fits env s"
    "tt_rx_len s0 = tt_rx_len s" "tt_events s0 = Some (evs[0 := False])"
    by (rule process_event_rx [OF assms(1) inv assms(4,5)])
  obtain s' where m: "tnep_state_machine env s0 TNEP_EVENT_MSG_RX_NEW = Inr s'" "tag_kept env s0 s'"
    "initial_fits env s0 \<longrightarrow> simulates s0 (tnep_spec_rx data (tnep_abs s0) (tnep_request env data (tt_rx_len s0))) s'"
    by (rule sm_rx [OF assms(1) p(2)])
  have "tt_events s' = Some (evs[0 := False])"
    using m(2) p(8) tnep_fixed_fields(6) [of s' s0] by (simp add: tag_kept_def)
  moreover have "2 \<le> length evs"
    using inv assms(4) by (auto simp: tag_inv_def tag_base_def split: if_splits)
  ultimately have "tnep_process_event env s' 1 = Inr s'"
    using assms(6) by (auto simp: tnep_process_event_def)
  then have "nfc_tnep_tag_process env s = Inr s'" using p(1) m(1) by (simp add: nfc_tnep_tag_process_def)
  then show ?thesis using p m(3) assms(3) by (auto simp: simulates_def)
qed

section \<open>Answers and buffers\<close>

text \<open>The records that an answer with a status serves: with the status protocol error (1) the module removes those of
  the application.\<close>

definition answer_records :: "u8 \<Rightarrow> emitted list \<Rightarrow> emitted list" where
  "answer_records status rs = (if status = 1 then [] else rs)"

lemma add_status_fits:
  assumes m: "msg_holds m rs" "length (answer_records st rs) < unat (msg_max_record_count m)"
  obtains m' where "tnep_tx_msg_add_rec_status s m st = (s\<lparr>tt_status_record := st\<rparr>, Inr m')"
    "msg_holds m' (answer_records st rs @ [(NFC_TNEP_STATUS_RECORD_DESC_DEF st, [st])])"
proof -
  let ?e = "(NFC_TNEP_STATUS_RECORD_DESC_DEF st, [st])"
  let ?m = "if st = NFC_TNEP_STATUS_PROTOCOL_ERROR then tnep_tx_msg_clear m else m"
  have h: "msg_holds ?m (answer_records st rs)"
    using m(1) by (auto simp: answer_records_def tnep_tx_msg_clear_def intro: msg_holds_clear)
  have "msg_max_record_count ?m = msg_max_record_count m" by (simp add: tnep_tx_msg_clear_def nfc_ndef_msg_clear_def)
  then have le: "length (answer_records st rs) + length [?e] \<le> unat (msg_max_record_count ?m)" using m(2) by simp
  have "list_all emits [?e]" using status_record_emits by simp
  from add_recs_fit [OF h this le] obtain m' where
    "foldE tnep_tx_msg_add_rec ?m (map (Some \<circ> fst) [?e]) = Inr m'" "msg_holds m' (answer_records st rs @ [?e])" .
  then show ?thesis using that by (simp add: tnep_tx_msg_add_rec_status_def)
qed

lemma app_data_served:
  assumes inv: "tag_inv env s" and st: "tt_state s = TNEP_STATE_SERVICE_SELECTED" "tt_app_data_expected s"
    and m: "msg_holds m rs" "length (answer_records status rs) < unat (msg_max_record_count m)"
    and fits: "image_fits (te_t4t env) (unat (tt_tx_len s)) (emitted_size (answer_records status rs) + 9)" and b: "next_buff s = Some b"
  shows "nfc_tnep_tag_tx_msg_app_data env s (Some m) status =
     Inr (handed (s\<lparr>tt_app_data_expected := False, tt_status_record := status\<rparr>) b
       (ndef_image (te_t4t env) (unat (tt_tx_len s))
          (msg_bytes (answer_records status rs @ [(NFC_TNEP_STATUS_RECORD_DESC_DEF status, [status])])) @
        drop (unat (tt_tx_len s)) (tt_mem s b)), None)"
proof -
  let ?s = "s\<lparr>tt_app_data_expected := False, tt_status_record := status\<rparr>"
  let ?rs = "answer_records status rs" and ?e = "(NFC_TNEP_STATUS_RECORD_DESC_DEF status, [status])"
  obtain m' where a: "tnep_tx_msg_add_rec_status (s\<lparr>tt_app_data_expected := False\<rparr>) m status = (?s, Inr m')"
      "msg_holds m' (?rs @ [?e])"
    by (rule add_status_fits [OF m])
  have ds: "tt_data_set s" using inv st(1) ready_data_set [of env s] by (simp add: tag_inv_def)
  have nb: "next_buff ?s = Some b" using b by (simp add: next_buff_def split: if_splits)
  have "tag_base env ?s" using inv same_ctl_inv [OF app_ctl(1)] by (simp add: tag_inv_def)
  moreover have "emitted_size (?rs @ [?e]) = emitted_size ?rs + 9"
    using status_emitted_size by (simp add: emitted_size_simps(2))
  ultimately have "tnep_tx_msg_encode env ?s (Some m') = Inr (handed ?s b
      (ndef_image (te_t4t env) (unat (tt_tx_len s)) (msg_bytes (?rs @ [?e])) @ drop (unat (tt_tx_len s)) (tt_mem s b)), None)"
    using tx_encode_fits [of env ?s m' "?rs @ [?e]" b] a(2) ds fits nb by simp
  then show ?thesis
    using st a(1) by (simp add: nfc_tnep_tag_tx_msg_app_data_def tnep_new_app_msg_prepare_def)
qed

lemma app_refused:
  "\<not> tt_app_data_expected s \<Longrightarrow> nfc_tnep_tag_tx_msg_app_data env s (Some m) st = Inr (s, Some EACCES)"
  "\<not> tt_app_data_expected s \<Longrightarrow> nfc_tnep_tag_tx_msg_no_app_data env s = Inr (s, Some EACCES)"
  by (simp_all add: nfc_tnep_tag_tx_msg_app_data_def nfc_tnep_tag_tx_msg_no_app_data_def)

text \<open>Without a message, a Type 4 Tag serves the length of the whole buffer, not 0, and zeros.\<close>

lemma empty_answer_nonempty:
  assumes inv: "tag_base env s" "tt_data_set s" "te_t4t env" and b: "next_buff s = Some b"
    and n: "2 < unat (tt_tx_len s)" "unat (tt_tx_len s) \<le> 0xFFFF"
  shows "tnep_tx_msg_encode env s None =
     Inr (handed s b (put_be16 (of_nat (unat (tt_tx_len s) - 2)) @ replicate (unat (tt_tx_len s) - 2) 0 @ drop (unat (tt_tx_len s)) (tt_mem s b)), None)"
proof -
  let ?n = "unat (tt_tx_len s)"
  have bl: "?n \<le> length (tt_mem s b)"
    using inv b by (auto simp: tag_base_def bufs_ok_def next_buff_def split: option.splits if_splits)
  define mem where "mem = replicate ?n 0 @ drop ?n (tt_mem s b)"
  have mw: "mem_write (tt_mem s b) 0 (replicate ?n 0) = Inr mem" using bl by (simp add: mem_write_0 mem_def)
  have u: "unat (tt_tx_len s - 2) = ?n - 2" using n by (simp add: unat_sub_le word_le_nat_alt)
  have k: "\<not> tt_tx_len s - 2 < 1" "\<not> 0xFFFF < tt_tx_len s - 2" using n u by (simp_all add: word_less_nat_alt)
  have c: "ucast (tt_tx_len s - 2) = (of_nat (?n - 2) :: u16)" using u by (metis of_nat_unat ucast_of_nat_u16)
  have "mem_write (take 2 mem @ drop 2 mem) 0 (put_be16 (of_nat (?n - 2))) = 
     Inr (put_be16 (of_nat (?n - 2)) @ replicate (?n - 2) 0 @ drop ?n (tt_mem s b))"
    using n bl by (simp add: mem_write_0 mem_def)
  then show ?thesis using inv b mw k c
    by (simp add: tnep_tx_msg_encode_def next_buff_def [symmetric] tnep_area_encode_def handed_def Let_def nfc_t4t_ndef_file_encode_def)
qed
section \<open>Properties\<close>


text \<open>C39: When a received message is processed, the tag does what the abstract protocol says: its state and
  its active service change as for the request that the message contains, and the services get just the
  callbacks of the protocol, in order. The initial message, with the additional records if the application has any, must
  be such that the code can encode it and must fit the buffers, and no selection of the tag by a reader may be pending, which
  the same call would process too. The message that is processed is one that a legal call indicated.\<close>

theorem tnep_tag_refines:
  assumes "env_ok env" "tnep_reach env s" "initial_fits env s"
    and "tt_events s = Some evs" "evs ! 0" "\<not> evs ! 1"
  shows "\<exists>data s'. tt_rx_data s = Some data \<and> nfc_tnep_tag_process env s = Inr s' \<and>
    simulates s (tnep_spec_rx data (tnep_abs s) (tnep_request env data (tt_rx_len s))) s'"
  by (rule process_simulates [OF assms])

text \<open>C40: In the Service Selected state with an answer outstanding and with two different buffers, the application's
  answer is served: the buffer that the NFC stack is not reading is handed to it with the length field (Type 4 Tag), the
  application's records, the status record and zeros; the buffer the stack was reading is not touched, and further answers are
  refused until the next request. With the status protocol error the application's records are left out and
  the status record is served alone. The message descriptor must have a place for the status record, and the message must
  fit the buffer.\<close>

theorem tnep_app_data_answers:
  assumes "env_ok env" "tnep_reach env s" "tt_state s = TNEP_STATE_SERVICE_SELECTED" "tt_app_data_expected s"
    and "tt_tx_data s \<noteq> tt_tx_swap s" "tt_current_buff s = Some b"
    and "msg_holds m rs" "length (answer_records status rs) < unat (msg_max_record_count m)"
    and "image_fits (te_t4t env) (unat (tt_tx_len s)) (emitted_size (answer_records status rs) + 9)"
  shows "\<exists>s' b'. nfc_tnep_tag_tx_msg_app_data env s (Some m) status = Inr (s', None) \<and>
    b' \<noteq> b \<and> tt_mem s' = (tt_mem s)(b' := tt_mem s' b') \<and> tt_log s' = tt_log s @ [Payload_Set b' (tt_tx_len s)] \<and>
    take (unat (tt_tx_len s)) (tt_mem s' b') = ndef_image (te_t4t env) (unat (tt_tx_len s))
      (msg_bytes (answer_records status rs @ [(NFC_TNEP_STATUS_RECORD_DESC_DEF status, [status])])) \<and>
    nfc_tnep_tag_tx_msg_app_data env s' (Some m2) status2 = Inr (s', Some EACCES) \<and>
    nfc_tnep_tag_tx_msg_no_app_data env s' = Inr (s', Some EACCES)"
proof -
  have inv: "tag_inv env s" by (rule tnep_reach_inv [OF assms(2,1)])
  then have "tag_base env s" "tt_data_set s" using ready_data_set [of env s] assms(3) by (simp_all add: tag_inv_def)
  then obtain b' where b': "next_buff s = Some b'" using next_buff_ex by blast
  have ne: "b' \<noteq> b" using b' assms(5,6) by (auto simp: next_buff_def split: if_splits)
  let ?im = "ndef_image (te_t4t env) (unat (tt_tx_len s))
      (msg_bytes (answer_records status rs @ [(NFC_TNEP_STATUS_RECORD_DESC_DEF status, [status])]))"
  let ?s = "handed (s\<lparr>tt_app_data_expected := False, tt_status_record := status\<rparr>) b' (?im @ drop (unat (tt_tx_len s)) (tt_mem s b'))"
  have len: "length ?im = unat (tt_tx_len s)"
    using assms(9) status_emitted_size [of status]
    by (auto simp: ndef_image_def image_fits_def Let_def length_msg_bytes split: if_splits)
  have "nfc_tnep_tag_tx_msg_app_data env s (Some m) status = Inr (?s, None)"
    by (rule app_data_served [OF inv assms(3,4,7-9) b'])
  moreover have "tt_mem ?s = (tt_mem s)(b' := tt_mem ?s b')" "tt_log ?s = tt_log s @ [Payload_Set b' (tt_tx_len s)]"
    "take (unat (tt_tx_len s)) (tt_mem ?s b') = ?im" "\<not> tt_app_data_expected ?s"
    using len by (simp_all add: handed_def)
  ultimately show ?thesis using ne app_refused [of ?s env] by blast
qed

end
