(* ===== verification/Tnep_Poller.thy ===== *)
theory Tnep_Poller
  imports Ndef_Parser Ndef_Payloads T4t_Tlv
begin

text \<open>
  The Tag NDEF Exchange Protocol on the side of the reader (\<open>subsys/nfc/tnep/poller.c\<close>,
  \<open>include/nfc/tnep/poller.h\<close>).

  The static structure of the module is the record \<open>tnep_poller\<close>. Buffers are objects of a store
  \<open>tp_mem\<close>; services are structures of the application at the addresses of \<open>tp_params\<close>, which the
  module compares. The calls of the NDEF interface, of the callbacks and of the delayed work are
  recorded in \<open>tp_log\<close>. The results of the NDEF interface and of submitting work and the uptime clock
  are parameters. An operation returns the new state and its return value (\<open>None\<close> for 0).
\<close>

section \<open>State\<close>

datatype tnep_poller_state =
    TNEP_POLLER_STATE_IDLE | TNEP_POLLER_STATE_SELECTING | TNEP_POLLER_STATE_DESELECTING
  | TNEP_POLLER_STATE_READING | TNEP_POLLER_STATE_UPDATING

datatype nfc_tnep_tag_type =
    NFC_TNEP_TAG_TYPE_UNSUPPORTED | NFC_TNEP_TAG_TYPE_T2T | NFC_TNEP_TAG_TYPE_T4T

record nfc_tnep_buf =
  tbuf_data :: "nat option"
  tbuf_size :: u32

record nfc_tnep_poller_msg =
  pmsg_status :: u8
  pmsg_records :: "nfc_ndef_record_desc option list"

record nfc_tnep_poller_ndef_api =
  api_ndef_read :: "(nat \<Rightarrow> u16 \<Rightarrow> err option) option"
  api_ndef_update :: "(u8 list \<Rightarrow> u16 \<Rightarrow> err option) option"

text \<open>Which of the callbacks are set.\<close>

record nfc_tnep_poller_cb =
  pcb_svc_selected :: bool
  pcb_svc_deselected :: bool
  pcb_svc_received :: bool
  pcb_svc_sent :: bool
  pcb_error :: bool

datatype poller_out =
    Ndef_Read nat u16
  | Ndef_Update "u8 list" u16
  | Delayed_Read int
  | Poll_Selected "nat option" "nfc_tnep_poller_msg option" bool
  | Poll_Received "nat option" "nfc_tnep_poller_msg option" bool
  | Poll_Sent "nat option" "nfc_tnep_poller_msg option" bool
  | Poll_Deselected
  | Poll_Error err

record tnep_poller =
  tp_mem :: "nat \<Rightarrow> u8 list"
  tp_params :: "nat \<Rightarrow> nfc_ndef_tnep_rec_svc_param"
  tp_rx :: "nfc_tnep_buf option"
  tp_tx :: "nfc_tnep_buf option"
  tp_svc_to_select :: "nat option"
  tp_active_svc :: "nat option"
  tp_cb :: "nfc_tnep_poller_cb option"
  tp_api :: "nfc_tnep_poller_ndef_api option"
  tp_last_time :: int
  tp_state :: tnep_poller_state
  tp_type :: nfc_tnep_tag_type
  tp_wait_time :: u32
  tp_retry_cnt :: u8
  tp_log :: "poller_out list"

record poller_env =
  pe_rx_max_record_cnt :: u32
  pe_abi :: msg_parser_abi
  pe_recs0 :: "nat \<Rightarrow> nfc_ndef_record_desc"
  pe_residue :: "nfc_ndef_msg_desc \<Rightarrow> u8 list \<Rightarrow> u8 list"
  pe_submit :: "err option"

type_synonym poller_outcome = "(tnep_poller \<times> err option) res"

definition poller_emit :: "tnep_poller \<Rightarrow> poller_out \<Rightarrow> tnep_poller" where
  "poller_emit s ev = s\<lparr>tp_log := tp_log s @ [ev]\<rparr>"

text \<open>A callback that is called when it is set.\<close>

definition poller_notify :: "tnep_poller \<Rightarrow> (nfc_tnep_poller_cb \<Rightarrow> bool) \<Rightarrow> poller_out \<Rightarrow> tnep_poller res" where
  "poller_notify s f ev = (case tp_cb s of None \<Rightarrow> Inl UB | Some cb \<Rightarrow> Inr (if f cb then poller_emit s ev else s))"

text \<open>\<open>1 << (ceil(t / 4) - 1)\<close> on \<open>int\<close>: a negative or too large shift is undefined.\<close>

definition NFC_TNEP_MIN_WAIT_TIME :: "u8 \<Rightarrow> u32 res" where
  "NFC_TNEP_MIN_WAIT_TIME t = (let n = (uint t + 3) div 4 - 1 in
     if n < 0 \<or> 31 \<le> n then Inl UB else Inr (push_bit (nat n) 1))"

section \<open>Preparing an update\<close>

definition tnep_tag_update_prepare ::
    "poller_env \<Rightarrow> tnep_poller \<Rightarrow> nfc_ndef_msg_desc \<Rightarrow> (tnep_poller \<times> (err + u32)) res" where
  "tnep_tag_update_prepare env s msg = (case tp_tx s of None \<Rightarrow> Inl UB
     | Some tx \<Rightarrow> (case tbuf_data tx of None \<Rightarrow> Inl UB
       | Some a \<Rightarrow>
           let t4t = (tp_type s = NFC_TNEP_TAG_TYPE_T4T);
               off = (if t4t then 2 else 0);
               len = (if t4t then tbuf_size tx - 2 else tbuf_size tx);
               hd2 = take off (tp_mem s a); area = drop off (tp_mem s a) in
           on_err (nfc_ndef_msg_encode (Some msg) (Some (area, len)))
             (\<lambda>e. Inr (s\<lparr>tp_mem := (tp_mem s)(a := hd2 @ take (length area) (pe_residue env msg area @ area))\<rparr>, Inl e))
             (\<lambda>(area', len).
                if t4t then
                  on_err (nfc_t4t_ndef_file_encode (Some (hd2 @ area')) (Some len))
                    (\<lambda>_. Inr (s\<lparr>tp_mem := (tp_mem s)(a := hd2 @ area')\<rparr>, Inr len))
                    (\<lambda>(mem, len). Inr (s\<lparr>tp_mem := (tp_mem s)(a := mem)\<rparr>, Inr len))
                else Inr (s\<lparr>tp_mem := (tp_mem s)(a := area')\<rparr>, Inr len))))"

text \<open>The call \<open>tnep.api->ndef_update(tnep.tx->data, len)\<close>; the length parameter has 16 bits.\<close>

definition poller_ndef_update :: "tnep_poller \<Rightarrow> u32 \<Rightarrow> poller_outcome" where
  "poller_ndef_update s len = (case (tp_api s, tp_tx s) of
     (Some api, Some tx) \<Rightarrow> (case (api_ndef_update api, tbuf_data tx) of
        (Some f, Some a) \<Rightarrow> let d = take (unat (ucast len :: u16)) (tp_mem s a) in
           Inr (poller_emit s (Ndef_Update d (ucast len)), f d (ucast len))
      | _ \<Rightarrow> Inl UB)
   | _ \<Rightarrow> Inl UB)"

section \<open>Analysing received messages\<close>

definition status_record_check :: "nfc_ndef_record_desc \<Rightarrow> u8 list \<Rightarrow> nat \<Rightarrow> bool res" where
  "status_record_check r type_field type_field_length =
     (if rec_type_length r = 0 then Inr False
      else bindE (mem_read (rec_type r) type_field_length) (\<lambda>a.
           bindE (mem_read (Some type_field) type_field_length) (\<lambda>b. Inr (a = b))))"

fun tnep_data_analyze :: "nfc_ndef_record_desc option list \<Rightarrow> nfc_ndef_record_desc option list \<Rightarrow> nfc_tnep_poller_msg res" where
  "tnep_data_analyze msg [] = Inl EAGAIN"
| "tnep_data_analyze msg (None # rs) = Inl UB"
| "tnep_data_analyze msg (Some r # rs) =
     bindE (status_record_check r nfc_ndef_tnep_rec_type_status 2) (\<lambda>is_status.
     if is_status then
       (case rec_payload r of Payload_Bin desc \<Rightarrow>
          if bin_payload_length desc \<noteq> 1 then Inl EINVAL
          else bindE (mem_read (bin_payload desc) 1) (\<lambda>p. Inr \<lparr>pmsg_status = hd p, pmsg_records = msg\<rparr>)
        | _ \<Rightarrow> Inl UB)
     else tnep_data_analyze msg rs)"

definition service_param_rec_check :: "u8 \<Rightarrow> ptr \<Rightarrow> u8 \<Rightarrow> bool res" where
  "service_param_rec_check tnf type len =
     (if tnf \<noteq> TNF_WELL_KNOWN then Inr False
      else if len \<noteq> 2 then Inr False
      else bindE (mem_read type 2) (\<lambda>a. Inr (a = nfc_ndef_tnep_rec_type_svc_param)))"

text \<open>The parameters are stored field by field: the structure passed in, the structure left behind and the
  return value.\<close>

definition svc_param_record_get ::
    "nfc_ndef_bin_payload_desc \<Rightarrow> nfc_ndef_tnep_rec_svc_param \<Rightarrow> (nfc_ndef_tnep_rec_svc_param \<times> err option) res" where
  "svc_param_record_get desc param =
     (if bin_payload_length desc < 7 then Inr (param, Some EFAULT)
      else bindE (mem_read (bin_payload desc) 2) (\<lambda>vu.
        let param = param\<lparr>par_version := vu ! 0, par_uri_length := vu ! 1\<rparr>;
            n = unat (par_uri_length param) in
        if bin_payload_length desc \<noteq> 7 + ucast (par_uri_length param) then Inr (param, Some EFAULT)
        else
          bindE (mem_read (map_option (drop (2 + n)) (bin_payload desc)) 5) (\<lambda>b.
          Inr (param\<lparr>par_uri := map_option (drop 2) (bin_payload desc), par_communication_mode := b ! 0, par_min_time := b ! 1,
                     par_max_time_ext := b ! 2, par_max_size := be16 (b ! 3) (b ! 4)\<rparr>, None))))"

section \<open>Timing\<close>

definition on_svc_delayed_operation :: "poller_env \<Rightarrow> int \<Rightarrow> tnep_poller \<Rightarrow> tnep_poller res" where
  "on_svc_delayed_operation env now s =
     (let time_spent = now - tp_last_time s;
          wait = uint (tp_wait_time s);
          s = poller_emit (s\<lparr>tp_last_time := now\<rparr>) (Delayed_Read (if time_spent > wait then 0 else wait - time_spent))
      in case pe_submit env of None \<Rightarrow> Inr s
         | Some e \<Rightarrow> poller_notify s pcb_error (Poll_Error e))"

definition tnep_delay_handler :: "tnep_poller \<Rightarrow> tnep_poller res" where
  "tnep_delay_handler s =
     bindE (case tp_state s of
        TNEP_POLLER_STATE_IDLE \<Rightarrow> Inr (s, Some EPERM)
      | TNEP_POLLER_STATE_DESELECTING \<Rightarrow> Inr (s, Some EPERM)
      | _ \<Rightarrow> (case (tp_api s, tp_rx s) of
           (Some api, Some rx) \<Rightarrow> (case (api_ndef_read api, tbuf_data rx) of
              (Some f, Some a) \<Rightarrow> Inr (poller_emit s (Ndef_Read a (ucast (tbuf_size rx))), f a (ucast (tbuf_size rx)))
            | _ \<Rightarrow> Inl UB)
         | _ \<Rightarrow> Inl UB))
     (\<lambda>(s, err). case err of None \<Rightarrow> Inr s | Some e \<Rightarrow> poller_notify s pcb_error (Poll_Error e))"

definition on_ndef_read_cb :: "tnep_poller \<Rightarrow> nfc_tnep_poller_msg option \<Rightarrow> bool \<Rightarrow> poller_outcome" where
  "on_ndef_read_cb s msg timeout = (case tp_state s of
     TNEP_POLLER_STATE_SELECTING \<Rightarrow>
       bindE (poller_notify s pcb_svc_selected (Poll_Selected (tp_active_svc s) msg timeout)) (\<lambda>s. Inr (s, None))
   | TNEP_POLLER_STATE_READING \<Rightarrow>
       bindE (poller_notify s pcb_svc_received (Poll_Received (tp_active_svc s) msg timeout)) (\<lambda>s. Inr (s, None))
   | TNEP_POLLER_STATE_UPDATING \<Rightarrow>
       bindE (poller_notify s pcb_svc_sent (Poll_Sent (tp_active_svc s) msg timeout)) (\<lambda>s. Inr (s, None))
   | _ \<Rightarrow> Inr (s, Some ENOTSUP))"

section \<open>Interface\<close>

definition nfc_tnep_poller_init :: "tnep_poller \<Rightarrow> nfc_tnep_buf option \<Rightarrow> nfc_tnep_poller_cb option \<Rightarrow> tnep_poller \<times> err option" where
  "nfc_tnep_poller_init s tx_buf cb = (case (tx_buf, cb) of
     (Some tx, Some c) \<Rightarrow>
       if tbuf_data tx = None then (s, Some EINVAL)
       else if tbuf_size tx < 1 then (s, Some ENOMEM)
       else (s\<lparr>tp_cb := cb, tp_tx := tx_buf, tp_state := TNEP_POLLER_STATE_IDLE\<rparr>, None)
   | _ \<Rightarrow> (s, Some EINVAL))"

definition nfc_tnep_poller_api_set ::
    "tnep_poller \<Rightarrow> nfc_tnep_poller_ndef_api option \<Rightarrow> nfc_tnep_tag_type \<Rightarrow> tnep_poller \<times> err option" where
  "nfc_tnep_poller_api_set s api tag_type =
     (if api = None then (s, Some EINVAL)
      else if tag_type \<noteq> NFC_TNEP_TAG_TYPE_T2T \<and> tag_type \<noteq> NFC_TNEP_TAG_TYPE_T4T then (s, Some EINVAL)
      else (s\<lparr>tp_api := api, tp_type := tag_type\<rparr>, None))"

text \<open>The search for services: the array of the application, its declared size and the records. A write
  past the end of the array is undefined.\<close>

fun svc_search_loop ::
    "nfc_ndef_record_desc option list \<Rightarrow> u8 \<Rightarrow> nfc_ndef_tnep_rec_svc_param list \<Rightarrow> u8 \<Rightarrow>
     (nfc_ndef_tnep_rec_svc_param list \<times> u8) res" where
  "svc_search_loop [] sz params cnt = Inr (params, cnt)"
| "svc_search_loop (None # rs) sz params cnt = Inl UB"
| "svc_search_loop (Some r # rs) sz params cnt =
     bindE (service_param_rec_check (rec_tnf r) (rec_type r) (rec_type_length r)) (\<lambda>is_param.
     if is_param then
       if cnt > sz then Inl ENOMEM
       else (case rec_payload r of Payload_Bin desc \<Rightarrow>
         if unat cnt < length params then
           bindE (svc_param_record_get desc (params ! unat cnt)) (\<lambda>(p, err).
           svc_search_loop rs sz (params[unat cnt := p]) (if err = None then cnt + 1 else cnt))
         else if bin_payload_length desc < 7 then svc_search_loop rs sz params cnt
         else Inl UB
        | _ \<Rightarrow> Inl UB)
     else svc_search_loop rs sz params cnt)"

definition nfc_tnep_poller_svc_search ::
    "nfc_ndef_msg_desc option \<Rightarrow> nfc_ndef_tnep_rec_svc_param list option \<Rightarrow> u8 option \<Rightarrow>
     (nfc_ndef_tnep_rec_svc_param list \<times> u8) res" where
  "nfc_tnep_poller_svc_search ndef_msg params cnt = (case (ndef_msg, params, cnt) of
     (Some msg, Some ps, Some n) \<Rightarrow>
       if n < 1 then Inl ENOMEM
       else if msg_record_count msg < 1 then Inr (ps, 0)
       else svc_search_loop (msg_records msg) n ps 0
   | _ \<Rightarrow> Inl EINVAL)"

definition nfc_tnep_poller_svc_select ::
    "poller_env \<Rightarrow> int \<Rightarrow> tnep_poller \<Rightarrow> nfc_tnep_buf option \<Rightarrow> nat option \<Rightarrow> u32 \<Rightarrow> poller_outcome" where
  "nfc_tnep_poller_svc_select env now s svc_buf svc max_ndef_area_size = (case (svc_buf, svc) of
     (Some buf, Some sv) \<Rightarrow>
       if tbuf_data buf = None then Inr (s, Some EINVAL)
       else if tbuf_size buf < 1 then Inr (s, Some ENOMEM)
       else
         let s = s\<lparr>tp_state := TNEP_POLLER_STATE_SELECTING\<rparr>; p = tp_params s sv in
         if svc = tp_active_svc s then bindE (on_svc_delayed_operation env now s) (\<lambda>s. Inr (s, None))
         else if par_communication_mode p \<noteq> 0 then Inr (s, Some ENOTSUP)
         else if ucast (par_max_size p) > max_ndef_area_size then Inr (s, Some ENOMEM)
         else
           on_err (nfc_ndef_msg_record_add (nfc_ndef_msg_clear (NFC_NDEF_MSG_DEF [None]))
                     (Some (NFC_TNEP_SERIVCE_SELECT_RECORD_DESC_DEF (par_uri_length p) (par_uri p))))
             (\<lambda>e. Inr (s, Some e)) (\<lambda>msg.
           bindE (tnep_tag_update_prepare env s msg) (\<lambda>(s, r). case r of
             Inl e \<Rightarrow> Inr (s, Some e)
           | Inr len \<Rightarrow> poller_ndef_update (s\<lparr>tp_svc_to_select := svc, tp_rx := svc_buf\<rparr>) len))
   | _ \<Rightarrow> Inr (s, Some EINVAL))"

definition nfc_tnep_poller_svc_deselect :: "poller_env \<Rightarrow> tnep_poller \<Rightarrow> poller_outcome" where
  "nfc_tnep_poller_svc_deselect env s =
     (if tp_active_svc s = None then Inr (s, None)
      else
        on_err (nfc_ndef_msg_record_add (nfc_ndef_msg_clear (NFC_NDEF_MSG_DEF [None]))
                  (Some (NFC_TNEP_SERIVCE_SELECT_RECORD_DESC_DEF 0 None)))
          (\<lambda>e. Inr (s, Some e)) (\<lambda>msg.
        bindE (tnep_tag_update_prepare env s msg) (\<lambda>(s, r). case r of
          Inl e \<Rightarrow> Inr (s, Some e)
        | Inr len \<Rightarrow> poller_ndef_update (s\<lparr>tp_state := TNEP_POLLER_STATE_DESELECTING\<rparr>) len)))"

definition nfc_tnep_poller_svc_read :: "poller_env \<Rightarrow> int \<Rightarrow> tnep_poller \<Rightarrow> nfc_tnep_buf option \<Rightarrow> poller_outcome" where
  "nfc_tnep_poller_svc_read env now s svc_buf = (case svc_buf of None \<Rightarrow> Inr (s, Some EINVAL)
     | Some buf \<Rightarrow>
         if tbuf_data buf = None then Inr (s, Some EINVAL)
         else if tbuf_size buf < 1 then Inr (s, Some ENOMEM)
         else bindE (on_svc_delayed_operation env now (s\<lparr>tp_rx := svc_buf, tp_state := TNEP_POLLER_STATE_READING\<rparr>))
                (\<lambda>s. Inr (s, None)))"

definition nfc_tnep_poller_svc_write ::
    "poller_env \<Rightarrow> tnep_poller \<Rightarrow> nfc_ndef_msg_desc option \<Rightarrow> nfc_tnep_buf option \<Rightarrow> poller_outcome" where
  "nfc_tnep_poller_svc_write env s msg resp_buf = (case (msg, resp_buf) of
     (Some m, Some buf) \<Rightarrow>
       if msg_record_count m < 1 then Inr (s, Some ENOMEM)
       else if tbuf_data buf = None then Inr (s, Some EINVAL)
       else if tbuf_size buf < 1 then Inr (s, Some ENOMEM)
       else
         bindE (tnep_tag_update_prepare env (s\<lparr>tp_rx := resp_buf, tp_state := TNEP_POLLER_STATE_UPDATING\<rparr>) m) (\<lambda>(s, r).
         case r of Inl e \<Rightarrow> Inr (s, Some e) | Inr len \<Rightarrow> poller_ndef_update s len)
   | _ \<Rightarrow> Inr (s, Some EINVAL))"

definition poller_desc_buf_len :: "poller_env \<Rightarrow> u32" where
  "poller_desc_buf_len env = sizeof_parser_msg_1 (pe_abi env) +
     NFC_NDEF_MSG_PARSER_DELTA (pe_abi env) * (pe_rx_max_record_cnt env - 1)"

text \<open>The two notifications read the clock first and again when they submit delayed work.\<close>

definition nfc_tnep_poller_on_ndef_read :: "poller_env \<Rightarrow> int \<Rightarrow> int \<Rightarrow> tnep_poller \<Rightarrow> u8 list \<Rightarrow> u32 \<Rightarrow> poller_outcome" where
  "nfc_tnep_poller_on_ndef_read env now later s data len =
     (let s = s\<lparr>tp_last_time := now\<rparr> in
      if len = 0 then
        (case tp_active_svc s of None \<Rightarrow> Inl UB
         | Some sv \<Rightarrow>
             if tp_retry_cnt s < par_max_time_ext (tp_params s sv) then
               bindE (on_svc_delayed_operation env later (s\<lparr>tp_retry_cnt := tp_retry_cnt s + 1\<rparr>)) (\<lambda>s. Inr (s, None))
             else on_ndef_read_cb s None True)
      else
        let s = s\<lparr>tp_retry_cnt := 0\<rparr> in
        on_err (nfc_ndef_msg_parse (pe_abi env) (pe_recs0 env) (poller_desc_buf_len env) data len)
          (\<lambda>e. Inr (s, Some e)) (\<lambda>(msg, _, _).
        on_err (tnep_data_analyze (msg_records msg) (msg_records msg))
          (\<lambda>e. Inr (s, Some e)) (\<lambda>poller_msg.
        on_ndef_read_cb s (Some poller_msg) False)))"

definition nfc_tnep_poller_on_ndef_write :: "poller_env \<Rightarrow> int \<Rightarrow> int \<Rightarrow> tnep_poller \<Rightarrow> poller_outcome" where
  "nfc_tnep_poller_on_ndef_write env now later s =
     (let s = s\<lparr>tp_last_time := now\<rparr> in
      case tp_state s of
        TNEP_POLLER_STATE_SELECTING \<Rightarrow>
          let s = s\<lparr>tp_active_svc := tp_svc_to_select s\<rparr> in
          (case tp_active_svc s of None \<Rightarrow> Inl UB
           | Some sv \<Rightarrow>
               bindE (NFC_TNEP_MIN_WAIT_TIME (par_min_time (tp_params s sv))) (\<lambda>wait.
               bindE (on_svc_delayed_operation env later (s\<lparr>tp_wait_time := wait, tp_svc_to_select := None\<rparr>)) (\<lambda>s.
               Inr (s, None))))
      | TNEP_POLLER_STATE_DESELECTING \<Rightarrow>
          bindE (poller_notify (s\<lparr>tp_active_svc := None, tp_state := TNEP_POLLER_STATE_IDLE\<rparr>) pcb_svc_deselected Poll_Deselected)
            (\<lambda>s. Inr (s, None))
      | TNEP_POLLER_STATE_UPDATING \<Rightarrow>
          bindE (on_svc_delayed_operation env later s) (\<lambda>s. Inr (s, None))
      | _ \<Rightarrow> Inr (s, Some ENOTSUP))"

end
