(* ===== verification/Tnep_Poller_Run.thy ===== *)
theory Tnep_Poller_Run
  imports Tnep_Poller
begin

text \<open>
  Properties of the TNEP poller: the search for services finds the parameters that the tag announced, and
  waiting for an answer ends.
\<close>

section \<open>Service search\<close>

definition is_param_rec :: "nfc_ndef_record_desc \<Rightarrow> bool" where
  "is_param_rec r \<longleftrightarrow> rec_tnf r = TNF_WELL_KNOWN \<and> rec_type_length r = 2 \<and>
     block (rec_type r) 2 = nfc_ndef_tnep_rec_type_svc_param"

definition param_payload_ok :: "u8 list \<Rightarrow> bool" where
  "param_payload_ok p \<longleftrightarrow> 7 \<le> length p \<and> length p = 7 + unat (p ! 1)"

text \<open>A structure that stands for a payload.\<close>

definition param_for :: "u8 list \<Rightarrow> nfc_ndef_tnep_rec_svc_param \<Rightarrow> bool" where
  "param_for p q \<longleftrightarrow> param_body q = p \<and> readable (par_uri q) (unat (par_uri_length q))"

lemma param_check:
  assumes "record_desc_ok r"
  shows "service_param_rec_check (rec_tnf r) (rec_type r) (rec_type_length r) = Inr (is_param_rec r)"
  using assms by (auto simp: service_param_rec_check_def is_param_rec_def record_desc_ok_def mem_simps)

lemma list_of_5: "length (b :: u8 list) = 5 \<Longrightarrow> b = [b ! 0, b ! 1, b ! 2] @ put_be16 (be16 (b ! 3) (b ! 4))"
  by (simp only: put_be16_be16) (auto simp: eval_nat_numeral length_Suc_conv)

lemma param_get_ok:
  assumes ok: "bin_ok desc" and v: "param_payload_ok (bin_body desc)"
  obtains q where "svc_param_record_get desc param = Inr (q, None)" "param_for (bin_body desc) q"
proof -
  obtain xs where xs: "bin_payload desc = Some xs" "bin_body desc = take (unat (bin_payload_length desc)) xs"
      "unat (bin_payload_length desc) \<le> length xs"
    using ok v by (cases "bin_payload desc") (auto simp: bin_ok_def bin_body_def readable_def block_def param_payload_ok_def)
  define n where "n = unat (xs ! 1)"
  have len: "unat (bin_payload_length desc) = 7 + n" "7 + n \<le> length xs"
  proof -
    have "7 \<le> unat (bin_payload_length desc)" using v xs by (simp add: param_payload_ok_def)
    then have "bin_body desc ! 1 = xs ! 1" using xs(2) by simp
    then show "unat (bin_payload_length desc) = 7 + n" using v xs by (simp add: param_payload_ok_def n_def)
    then show "7 + n \<le> length xs" using xs(3) by simp
  qed
  have l7: "\<not> bin_payload_length desc < 7" using len(1) by (simp add: word_less_nat_alt)
  have eq: "bin_payload_length desc = 7 + ucast (xs ! 1)"
    using len(1) n_def unat_u8_lt [of "xs ! 1"] by (simp add: word_unat_eq_iff unat_word_ariths)
  obtain v0 u0 rest where d: "xs = v0 # u0 # rest" using len(2) by (cases xs; cases "List.tl xs") auto
  have r1: "mem_read (bin_payload desc) 2 = Inr [v0, u0]" using xs(1) d by (simp add: mem_read_def)
  have r2: "mem_read (map_option (drop (2 + n)) (bin_payload desc)) 5 = Inr (take 5 (drop n rest))"
    using xs(1) d len(2) by (simp add: mem_read_def)
  let ?b = "take 5 (drop n rest)"
  let ?q = "param\<lparr>par_version := v0, par_uri_length := u0, par_uri := map_option (drop 2) (bin_payload desc),
      par_communication_mode := ?b ! 0, par_min_time := ?b ! 1, par_max_time_ext := ?b ! 2, par_max_size := be16 (?b ! 3) (?b ! 4)\<rparr>"
  have u: "u0 = xs ! 1" "unat u0 = n" using d n_def by simp_all
  have "svc_param_record_get desc param = Inr (?q, None)"
    unfolding svc_param_record_get_def using l7 eq u r1 r2 by (simp add: Let_def)
  moreover have "param_for (bin_body desc) ?q"
  proof -
    have "length ?b = 5" using len(2) d by simp
    then have b: "[?b ! 0, ?b ! 1, ?b ! 2] @ put_be16 (be16 (?b ! 3) (?b ! 4)) = ?b" by (rule list_of_5 [symmetric])
    have "param_body ?q = [v0, u0] @ take n rest @ ([?b ! 0, ?b ! 1, ?b ! 2] @ put_be16 (be16 (?b ! 3) (?b ! 4)))"
      using xs(1) d u(2) by (simp add: param_body_def)
    also have "\<dots> = [v0, u0] @ take n rest @ ?b" unfolding b ..
    also have "\<dots> = bin_body desc"
      using xs(2) d len by (simp add: take_add [symmetric] add.commute numeral_eq_Suc)
    finally show ?thesis using xs(1) d u(2) len(2) by (simp add: param_for_def)
  qed
  ultimately show ?thesis by (rule that)
qed

lemma param_get_bad:
  assumes ok: "bin_ok desc" and v: "\<not> param_payload_ok (bin_body desc)"
  obtains q where "svc_param_record_get desc param = Inr (q, Some EFAULT)"
proof (cases "bin_payload_length desc < 7")
  case True
  then show ?thesis using that by (simp add: svc_param_record_get_def)
next
  case False
  then obtain xs where xs: "bin_payload desc = Some xs" "unat (bin_payload_length desc) \<le> length xs"
    using ok by (auto simp: bin_ok_def readable_def word_less_nat_alt)
  have l: "7 \<le> unat (bin_payload_length desc)" using False by (simp add: word_less_nat_alt)
  obtain v0 u0 rest where d: "xs = v0 # u0 # rest" using xs(2) l by (cases xs; cases "List.tl xs") auto
  have "bin_payload_length desc \<noteq> 7 + ucast u0"
  proof
    assume "bin_payload_length desc = 7 + ucast u0"
    then have "unat (bin_payload_length desc) = 7 + unat u0"
      using unat_u8_lt [of u0] by (simp add: unat_word_ariths)
    then show False using v xs d l by (simp add: param_payload_ok_def bin_body_def)
  qed
  then show ?thesis using that False xs(1) d by (simp add: svc_param_record_get_def mem_read_def Let_def)
qed

text \<open>The records whose payload the search accepts.\<close>

definition found_services :: "nfc_ndef_record_desc list \<Rightarrow> nfc_ndef_record_desc list" where
  "found_services rs = filter (\<lambda>r. is_param_rec r \<and> param_payload_ok (payload_of r)) rs"

lemma search_step:
  assumes "rec_ok r" "is_param_rec r" "cnt \<le> sz" "unat cnt < length params"
  obtains q and err :: "err option" where "svc_search_loop (Some r # rs) sz params cnt =
      svc_search_loop rs sz (params[unat cnt := q]) (if err = None then cnt + 1 else cnt)"
    "err = None \<longleftrightarrow> param_payload_ok (payload_of r)" "err = None \<longrightarrow> param_for (payload_of r) q"
proof -
  obtain desc where d: "rec_payload r = Payload_Bin desc" "bin_ok desc" "record_desc_ok r" "payload_of r = bin_body desc"
    using assms(1) by (auto simp: rec_ok_def payload_of_def)
  have go: "svc_search_loop (Some r # rs) sz params cnt =
      bindE (svc_param_record_get desc (params ! unat cnt)) (\<lambda>(p, err).
           svc_search_loop rs sz (params[unat cnt := p]) (if err = None then cnt + 1 else cnt))"
    using assms(2,4) leD [OF assms(3)] d by (simp add: param_check)
  show ?thesis
  proof (cases "param_payload_ok (bin_body desc)")
    case True
    obtain q where "svc_param_record_get desc (params ! unat cnt) = Inr (q, None)" "param_for (bin_body desc) q"
      by (rule param_get_ok [OF d(2) True])
    then show ?thesis using that [of q None] go d(4) True by simp
  next
    case False
    obtain q where "svc_param_record_get desc (params ! unat cnt) = Inr (q, Some EFAULT)"
      by (rule param_get_bad [OF d(2) False])
    then show ?thesis using that [of q "Some EFAULT"] go d(4) False by simp
  qed
qed

text \<open>What the search leaves: the parameters found stand from position \<open>c\<close> on.\<close>

definition search_found ::
    "nfc_ndef_record_desc list \<Rightarrow> nat \<Rightarrow> nfc_ndef_tnep_rec_svc_param list \<Rightarrow> nfc_ndef_tnep_rec_svc_param list \<Rightarrow> u8 \<Rightarrow> bool" where
  "search_found rs c params params' k \<longleftrightarrow> unat k = c + length (found_services rs) \<and> length params' = length params \<and>
     take c params' = take c params \<and>
     list_all2 param_for (map payload_of (found_services rs)) (take (length (found_services rs)) (drop c params'))"

lemma search_found_skip:
  assumes "search_found rs c (params[c := q]) params' k" "found_services (r # rs) = found_services rs"
  shows "search_found (r # rs) c params params' k"
  using assms by (simp add: search_found_def)

lemma search_found_Cons:
  assumes f: "search_found rs (c + 1) (params[c := q]) params' k" and "c < length params"
    and "found_services (r # rs) = r # found_services rs" "param_for (payload_of r) q"
  shows "search_found (r # rs) c params params' k"
proof -
  have e: "take (c + 1) params' = take (c + 1) (params[c := q])" "length params' = length params"
    using f by (simp_all add: search_found_def)
  have at: "params' ! c = q" "take c params' = take c params"
    using arg_cong [OF e(1), of "\<lambda>xs. xs ! c"] arg_cong [OF e(1), of "take c"] assms(2) e(2) by simp_all
  have "drop c params' = q # drop (c + 1) params'"
    using Cons_nth_drop_Suc [of c params'] at(1) assms(2) e(2) by simp
  then show ?thesis using f assms(3,4) at(2) by (simp add: search_found_def)
qed

lemma search_loop_finds:
  assumes "list_all rec_ok rs" "unat cnt + length (filter is_param_rec rs) \<le> unat sz" "unat sz \<le> length params"
  shows "\<exists>params' k. svc_search_loop (map Some rs) sz params cnt = Inr (params', k) \<and>
     search_found rs (unat cnt) params params' k"
  using assms
proof (induction rs arbitrary: params cnt)
  case Nil
  then show ?case by (simp add: found_services_def search_found_def)
next
  case (Cons r rs)
  have ok: "rec_ok r" "list_all rec_ok rs" using Cons.prems(1) by simp_all
  show ?case
  proof (cases "is_param_rec r")
    case False
    have "svc_search_loop (map Some (r # rs)) sz params cnt = svc_search_loop (map Some rs) sz params cnt"
        and skip: "found_services (r # rs) = found_services rs"
      using False ok(1) by (simp_all add: param_check found_services_def rec_ok_def)
    moreover have "unat cnt + length (filter is_param_rec rs) \<le> unat sz" using Cons.prems(2) False by simp
    from Cons.IH [OF ok(2) this Cons.prems(3)] obtain params' k where
      "svc_search_loop (map Some rs) sz params cnt = Inr (params', k)" "search_found rs (unat cnt) params params' k"
      by (elim exE conjE)
    ultimately show ?thesis by (intro exI [of _ params'] exI [of _ k]) (simp add: search_found_def)
  next
    case True
    have c: "cnt \<le> sz" "unat cnt < length params" and
        le: "unat cnt + length (filter is_param_rec rs) \<le> unat sz" "unat cnt + 1 + length (filter is_param_rec rs) \<le> unat sz"
      using Cons.prems(2,3) True by (simp_all add: word_le_nat_alt)
    obtain q and err :: "err option" where st: "svc_search_loop (map Some (r # rs)) sz params cnt =
        svc_search_loop (map Some rs) sz (params[unat cnt := q]) (if err = None then cnt + 1 else cnt)"
      "err = None \<longleftrightarrow> param_payload_ok (payload_of r)" "err = None \<longrightarrow> param_for (payload_of r) q"
      unfolding list.map by (rule search_step [OF ok(1) True c, of "map Some rs"])
    have sz: "unat sz \<le> length (params[unat cnt := q])" using Cons.prems(3) by simp
    show ?thesis
    proof (cases "err = None")
      case False
      from Cons.IH [OF ok(2) le(1) sz] obtain params' k where
        P: "svc_search_loop (map Some rs) sz (params[unat cnt := q]) cnt = Inr (params', k)"
        "search_found rs (unat cnt) (params[unat cnt := q]) params' k"
        by (elim exE conjE)
      have "found_services (r # rs) = found_services rs" using st(2) False by (simp add: found_services_def)
      from search_found_skip [OF P(2) this] show ?thesis using st(1) False P(1) by (intro exI conjI) simp_all
    next
      case ok': True
      have n: "unat (cnt + 1) = unat cnt + 1" using le(2) unat_u8_lt [of sz] by (simp add: unat_word_ariths)
      have "unat (cnt + 1) + length (filter is_param_rec rs) \<le> unat sz" using le(2) unfolding n .
      from Cons.IH [OF ok(2) this sz] obtain params' k where
        P: "svc_search_loop (map Some rs) sz (params[unat cnt := q]) (cnt + 1) = Inr (params', k)"
        "search_found rs (unat cnt + 1) (params[unat cnt := q]) params' k"
        unfolding n by (elim exE conjE)
      have "found_services (r # rs) = r # found_services rs" "param_for (payload_of r) q"
        using st(2,3) ok' True by (simp_all add: found_services_def)
      from search_found_Cons [OF P(2) c(2) this] show ?thesis using st(1) ok' P(1) by (intro exI conjI) simp_all
    qed
  qed
qed

text \<open>The parameters that a tag announces and the records of its initial message.\<close>

definition param_emitted :: "nfc_ndef_tnep_rec_svc_param \<Rightarrow> emitted" where
  "param_emitted p = (NFC_TNEP_SERIVCE_PARAM_RECORD_DESC_DEF p, param_body p)"

definition same_param :: "nfc_ndef_tnep_rec_svc_param \<Rightarrow> nfc_ndef_tnep_rec_svc_param \<Rightarrow> bool" where
  "same_param p q \<longleftrightarrow> par_version q = par_version p \<and> par_uri_length q = par_uri_length p \<and>
     block (par_uri q) (unat (par_uri_length p)) = block (par_uri p) (unat (par_uri_length p)) \<and>
     par_communication_mode q = par_communication_mode p \<and> par_min_time q = par_min_time p \<and>
     par_max_time_ext q = par_max_time_ext p \<and> par_max_size q = par_max_size p"

lemma put_be16_eq: "put_be16 a = put_be16 b \<longleftrightarrow> a = b"
  by (metis get_put_be16 append_Nil2 sum.inject(2))

lemma param_body_same:
  assumes "param_ok p" "param_for (param_body p) q" shows "same_param p q"
proof -
  have l: "par_uri_length q = par_uri_length p" using assms(2) by (simp add: param_for_def param_body_def)
  have "length (block (par_uri q) (unat (par_uri_length p))) = length (block (par_uri p) (unat (par_uri_length p)))"
    using assms l by (simp add: param_for_def param_ok_def mem_simps)
  then show ?thesis using assms(2) l by (simp add: param_for_def param_body_def same_param_def put_be16_eq)
qed

lemma param_emitted_ok:
  assumes "param_ok p"
  shows "emits (param_emitted p)" "parseable (param_emitted p)" "param_payload_ok (param_body p)"
proof -
  show "emits (param_emitted p)" using param_record_emits [OF assms] by (simp add: param_emitted_def)
  show "parseable (param_emitted p)"
    by (simp add: param_emitted_def parseable_def NFC_TNEP_SERIVCE_PARAM_RECORD_DESC_DEF_def tnep_types)
      (simp add: tnep_record_desc_def record_tnf_ok_def)
  show "param_payload_ok (param_body p)"
    using assms by (simp add: param_payload_ok_def param_body_def param_ok_def mem_simps)
qed

lemma describes_param: "describes r (param_emitted p) \<Longrightarrow> is_param_rec r"
  by (auto simp: describes_def param_emitted_def is_param_rec_def NFC_TNEP_SERIVCE_PARAM_RECORD_DESC_DEF_def
      tnep_record_desc_def tnep_types)

lemma described_services:
  assumes "list_all2 describes rs (map param_emitted ps)" "list_all param_ok ps"
  shows "list_all rec_ok rs" "found_services rs = rs" "filter is_param_rec rs = rs" "map payload_of rs = map param_body ps"
proof -
  have "list_all rec_ok rs \<and> found_services rs = rs \<and> filter is_param_rec rs = rs \<and> map payload_of rs = map param_body ps"
    using assms
  proof (induction ps arbitrary: rs)
    case Nil
    then show ?case by (simp add: found_services_def)
  next
    case (Cons p ps)
    then obtain r rs' where rs: "rs = r # rs'" "describes r (param_emitted p)" "list_all2 describes rs' (map param_emitted ps)"
      by (auto simp: list_all2_Cons2)
    have "rec_ok r" "payload_of r = param_body p" "is_param_rec r" "param_payload_ok (param_body p)"
      using describes_ok [of r] rs(2) describes_param [OF rs(2)] param_emitted_ok(3) [of p] Cons.prems(2)
      by (simp_all add: param_emitted_def [of p])
    then show ?case using Cons.IH [OF rs(3)] Cons.prems(2) rs(1) by (simp add: found_services_def)
  qed
  then show "list_all rec_ok rs" "found_services rs = rs" "filter is_param_rec rs = rs" "map payload_of rs = map param_body ps"
    by simp_all
qed

lemma search_described:
  assumes d: "list_all2 describes rs (map param_emitted ps)" "list_all param_ok ps" "ps \<noteq> []"
    and m: "msg_records msg = map Some rs" "msg_inv msg"
    and n: "length ps \<le> unat cnt" "unat cnt \<le> length params"
  shows "\<exists>params' k. nfc_tnep_poller_svc_search (Some msg) (Some params) (Some cnt) = Inr (params', k) \<and>
     unat k = length ps \<and> list_all2 same_param ps (take (unat k) params')"
proof -
  note f = described_services [OF d(1,2)]
  have l: "length rs = length ps" using list_all2_lengthD [OF d(1)] by simp
  have pos: "0 < length ps" using d(3) by simp
  have c: "\<not> cnt < 1" "\<not> msg_record_count msg < 1"
    using n(1) pos msg_inv_count [OF m(2)] m(1) l by (simp_all add: word_less_nat_alt del: length_greater_0_conv)
  obtain params' k where s: "svc_search_loop (map Some rs) cnt params 0 = Inr (params', k)" "search_found rs 0 params params' k"
    using search_loop_finds [OF f(1), of 0 cnt params] n l by (auto simp: f(3))
  have k: "unat k = length ps" "list_all2 param_for (map param_body ps) (take (length ps) params')"
    using s(2) l by (simp_all add: search_found_def f)
  have "list_all2 same_param ps (take (length ps) params')"
    using k(2) d(2) param_body_same by (auto simp: list_all2_conv_all_nth list_all_length)
  then show ?thesis
    using s(1) c m(1) k(1) by (intro exI [of _ params'] exI [of _ k]) (simp add: nfc_tnep_poller_svc_search_def)
qed

text \<open>The guard of the search lets one entry too many pass: with the array full, the next parameter record is
  stored past its end.\<close>

lemma search_overruns:
  assumes "rec_ok r" "is_param_rec r" "7 \<le> length (payload_of r)" "unat cnt = length params"
  shows "svc_search_loop (Some r # rs) cnt params cnt = Inl UB"
proof -
  obtain desc where d: "rec_payload r = Payload_Bin desc" "bin_ok desc" "record_desc_ok r" "payload_of r = bin_body desc"
    using assms(1) by (auto simp: rec_ok_def payload_of_def)
  have "unat (bin_payload_length desc) = length (bin_body desc)"
    using d(2) by (simp add: bin_ok_def bin_body_def mem_simps)
  then have "\<not> bin_payload_length desc < 7" using assms(3) d(4) by (simp add: word_less_nat_alt)
  then show ?thesis using assms(2,4) d by (simp add: param_check)
qed

section \<open>Waiting for the answer\<close>

text \<open>A poller that waits for the tag's answer: a service is active, the buffer, the interface and the callback of
  the operation are set, and reading can be started.\<close>

fun waiting_cb :: "nfc_tnep_poller_cb \<Rightarrow> tnep_poller_state \<Rightarrow> bool" where
  "waiting_cb cb TNEP_POLLER_STATE_SELECTING = pcb_svc_selected cb"
| "waiting_cb cb TNEP_POLLER_STATE_READING = pcb_svc_received cb"
| "waiting_cb cb TNEP_POLLER_STATE_UPDATING = pcb_svc_sent cb"
| "waiting_cb cb _ = False"

fun answer_event :: "tnep_poller_state \<Rightarrow> nat option \<Rightarrow> nfc_tnep_poller_msg option \<Rightarrow> bool \<Rightarrow> poller_out" where
  "answer_event TNEP_POLLER_STATE_SELECTING a m t = Poll_Selected a m t"
| "answer_event TNEP_POLLER_STATE_READING a m t = Poll_Received a m t"
| "answer_event _ a m t = Poll_Sent a m t"

definition waiting :: "tnep_poller \<Rightarrow> nat \<Rightarrow> nat \<Rightarrow> u16 \<Rightarrow> bool" where
  "waiting s sv a n \<longleftrightarrow> tp_active_svc s = Some sv \<and> (\<exists>cb. tp_cb s = Some cb \<and> waiting_cb cb (tp_state s)) \<and>
     (\<exists>rx. tp_rx s = Some rx \<and> tbuf_data rx = Some a \<and> ucast (tbuf_size rx) = n) \<and>
     (\<exists>api f. tp_api s = Some api \<and> api_ndef_read api = Some f \<and> f a n = None)"

text \<open>One attempt: the delayed work starts a read and the tag has nothing to say.\<close>

definition empty_attempt :: "poller_env \<Rightarrow> tnep_poller \<Rightarrow> int \<times> int \<Rightarrow> tnep_poller res" where
  "empty_attempt env s = (\<lambda>(now, later). bindE (tnep_delay_handler s) (\<lambda>s.
     bindE (nfc_tnep_poller_on_ndef_read env now later s [] 0) (\<lambda>(s, _). Inr s)))"

definition read_delay :: "u32 \<Rightarrow> int \<times> int \<Rightarrow> int" where
  "read_delay wait = (\<lambda>(now, later). if later - now > uint wait then 0 else uint wait - (later - now))"

lemma delay_handler_reads:
  assumes "waiting s sv a n" shows "tnep_delay_handler s = Inr (poller_emit s (Ndef_Read a n))"
proof -
  have "tp_state s \<noteq> TNEP_POLLER_STATE_IDLE" "tp_state s \<noteq> TNEP_POLLER_STATE_DESELECTING"
    using assms by (auto simp: waiting_def)
  then show ?thesis
    using assms by (auto simp: waiting_def tnep_delay_handler_def split: tnep_poller_state.split)
qed

lemma read_cb_tells:
  assumes "tp_cb s = Some cb" "waiting_cb cb (tp_state s)"
  shows "on_ndef_read_cb s m t = Inr (poller_emit s (answer_event (tp_state s) (tp_active_svc s) m t), None)"
  using assms by (cases "tp_state s") (simp_all add: on_ndef_read_cb_def poller_notify_def)

lemma poller_emit_fields [simp]:
  "tp_active_svc (poller_emit s e) = tp_active_svc s" "tp_cb (poller_emit s e) = tp_cb s" "tp_state (poller_emit s e) = tp_state s"
  "tp_rx (poller_emit s e) = tp_rx s" "tp_api (poller_emit s e) = tp_api s" "tp_retry_cnt (poller_emit s e) = tp_retry_cnt s"
  "tp_params (poller_emit s e) = tp_params s" "tp_wait_time (poller_emit s e) = tp_wait_time s"
  "tp_log (poller_emit s e) = tp_log s @ [e]" "tp_mem (poller_emit s e) = tp_mem s" "tp_tx (poller_emit s e) = tp_tx s"
  "tp_type (poller_emit s e) = tp_type s" "tp_svc_to_select (poller_emit s e) = tp_svc_to_select s"
  "tp_last_time (poller_emit s e) = tp_last_time s"
  by (simp_all add: poller_emit_def)

lemma waiting_kept:
  "waiting s sv a n \<Longrightarrow> tp_active_svc s' = tp_active_svc s \<Longrightarrow> tp_cb s' = tp_cb s \<Longrightarrow> tp_state s' = tp_state s \<Longrightarrow>
     tp_rx s' = tp_rx s \<Longrightarrow> tp_api s' = tp_api s \<Longrightarrow> waiting s' sv a n"
  by (simp add: waiting_def)

lemma empty_attempt_retries:
  assumes w: "waiting s sv a n" and r: "tp_retry_cnt s < par_max_time_ext (tp_params s sv)" and sub: "pe_submit env = None"
  obtains s' where "empty_attempt env s t = Inr s'" "waiting s' sv a n" "tp_retry_cnt s' = tp_retry_cnt s + 1"
    "tp_params s' = tp_params s" "tp_wait_time s' = tp_wait_time s" "tp_state s' = tp_state s"
    "tp_log s' = tp_log s @ [Ndef_Read a n, Delayed_Read (read_delay (tp_wait_time s) t)]"
proof -
  obtain now later where t: "t = (now, later)" by (cases t)
  have sv: "tp_active_svc s = Some sv" using w by (simp add: waiting_def)
  let ?s = "poller_emit ((poller_emit s (Ndef_Read a n))\<lparr>tp_last_time := now, tp_retry_cnt := tp_retry_cnt s + 1, tp_last_time := later\<rparr>)
      (Delayed_Read (read_delay (tp_wait_time s) t))"
  show ?thesis
  proof (rule that [of ?s])
    show "empty_attempt env s t = Inr ?s"
      using delay_handler_reads [OF w] sv r sub
      by (simp add: empty_attempt_def t nfc_tnep_poller_on_ndef_read_def on_svc_delayed_operation_def read_delay_def Let_def)
    show "waiting ?s sv a n" by (rule waiting_kept [OF w]) simp_all
  qed simp_all
qed

lemma empty_attempt_gives_up:
  assumes w: "waiting s sv a n" and r: "\<not> tp_retry_cnt s < par_max_time_ext (tp_params s sv)"
  obtains s' where "empty_attempt env s t = Inr s'"
    "tp_log s' = tp_log s @ [Ndef_Read a n, answer_event (tp_state s) (Some sv) None True]"
proof -
  obtain now later where t: "t = (now, later)" by (cases t)
  obtain cb where c: "tp_active_svc s = Some sv" "tp_cb s = Some cb" "waiting_cb cb (tp_state s)" using w by (auto simp: waiting_def)
  let ?s = "(poller_emit s (Ndef_Read a n))\<lparr>tp_last_time := now\<rparr>"
  have "on_ndef_read_cb ?s None True = Inr (poller_emit ?s (answer_event (tp_state s) (Some sv) None True), None)"
    using read_cb_tells [of ?s cb None True] c by simp
  then have "empty_attempt env s t = Inr (poller_emit ?s (answer_event (tp_state s) (Some sv) None True))"
    using delay_handler_reads [OF w] c(1) r by (simp add: empty_attempt_def t nfc_tnep_poller_on_ndef_read_def)
  then show ?thesis using that by simp
qed

lemma empty_attempts:
  assumes "waiting s sv a n" "pe_submit env = None"
    and "unat (par_max_time_ext (tp_params s sv)) = unat (tp_retry_cnt s) + length ts"
  shows "\<exists>s'. foldE (empty_attempt env) s ts = Inr s' \<and> waiting s' sv a n \<and> tp_params s' = tp_params s \<and>
     tp_retry_cnt s' = par_max_time_ext (tp_params s sv) \<and> tp_state s' = tp_state s \<and>
     tp_log s' = tp_log s @ concat (map (\<lambda>t. [Ndef_Read a n, Delayed_Read (read_delay (tp_wait_time s) t)]) ts)"
  using assms(1,3)
proof (induction ts arbitrary: s)
  case Nil
  then show ?case by (simp add: word_unat_eq_iff)
next
  case (Cons t ts)
  have lt: "tp_retry_cnt s < par_max_time_ext (tp_params s sv)" using Cons.prems(2) by (simp add: word_less_nat_alt)
  obtain s1 where s1: "empty_attempt env s t = Inr s1" "waiting s1 sv a n" "tp_retry_cnt s1 = tp_retry_cnt s + 1"
    "tp_params s1 = tp_params s" "tp_wait_time s1 = tp_wait_time s" "tp_state s1 = tp_state s"
    "tp_log s1 = tp_log s @ [Ndef_Read a n, Delayed_Read (read_delay (tp_wait_time s) t)]"
    by (rule empty_attempt_retries [OF Cons.prems(1) lt assms(2)])
  have "unat (tp_retry_cnt s + 1) = unat (tp_retry_cnt s) + 1" 
    using lt unat_u8_lt [of "par_max_time_ext (tp_params s sv)"] by (simp add: word_less_nat_alt unat_word_ariths)
  with Cons.IH [OF s1(2)] Cons.prems(2) s1 show ?case by (auto simp del: foldE.simps simp add: foldE.simps(2))
qed

section \<open>Inputs the module does not check\<close>

text \<open>The waiting time of the first and of the last values of the announced byte, a record with a type of one byte,
  and an empty message without a selected service.\<close>

lemma min_wait_time_ub:
  "NFC_TNEP_MIN_WAIT_TIME 0 = Inl UB" "124 < t \<Longrightarrow> NFC_TNEP_MIN_WAIT_TIME t = Inl UB"
  "0 < t \<Longrightarrow> t \<le> 124 \<Longrightarrow> NFC_TNEP_MIN_WAIT_TIME t = Inr (2 ^ nat ((uint t + 3) div 4 - 1))"
  by (simp_all add: NFC_TNEP_MIN_WAIT_TIME_def Let_def word_less_def word_le_def push_bit_eq_mult) presburger+

lemma status_check_overreads:
  "status_record_check \<lparr>rec_tnf = TNF_WELL_KNOWN, rec_id_length = 0, rec_id = None, rec_type_length = 1, rec_type = Some [0x55],
     rec_payload = pl\<rparr> nfc_ndef_tnep_rec_type_status 2 = Inl UB"
  by (simp add: status_record_check_def mem_read_def)

lemma read_without_service_ub:
  "tp_active_svc s = None \<Longrightarrow> nfc_tnep_poller_on_ndef_read env now later s data 0 = Inl UB"
  by (simp add: nfc_tnep_poller_on_ndef_read_def)

text \<open>The retry counter survives the timeout.\<close>

lemma timeout_keeps_count:
  assumes "waiting s sv a n" "\<not> tp_retry_cnt s < par_max_time_ext (tp_params s sv)" "empty_attempt env s t = Inr s'"
  shows "tp_retry_cnt s' = tp_retry_cnt s"
proof -
  obtain cb where c: "tp_active_svc s = Some sv" "tp_cb s = Some cb" "waiting_cb cb (tp_state s)" using assms(1) by (auto simp: waiting_def)
  then show ?thesis
    using assms(2,3) delay_handler_reads [OF assms(1)] read_cb_tells [of "(poller_emit s (Ndef_Read a n))\<lparr>tp_last_time := fst t\<rparr>" cb None True]
    by (cases t) (auto simp: empty_attempt_def nfc_tnep_poller_on_ndef_read_def)
qed

section \<open>Properties\<close>

text \<open>C10: The poller finds what the tag announces: parsing a message of the Service Parameter records of some
  services (whatever follows it in memory) and searching it stores the parameters of all the services, in
  order and field by field, and returns their number, when the array has room for them.\<close>

theorem poller_finds_services:
  assumes "list_all param_ok ps" "ps \<noteq> []" "length (msg_bytes (map param_emitted ps)) < 2 ^ 32"
    and "abi_ok abi" "nfc_ndef_msg_parser_memo_resolve abi rlen = Inr (slots, msg0, used)" "length ps \<le> unat slots"
    and "length ps \<le> unat cnt" "unat cnt \<le> length params"
  shows "\<exists>msg params' k.
     nfc_ndef_msg_parse abi recs0 rlen (msg_bytes (map param_emitted ps) @ rest) (of_nat (length (msg_bytes (map param_emitted ps)))) =
       Inr (msg, used, of_nat (length (msg_bytes (map param_emitted ps)))) \<and>
     nfc_tnep_poller_svc_search (Some msg) (Some params) (Some cnt) = Inr (params', k) \<and>
     unat k = length ps \<and> list_all2 same_param ps (take (unat k) params')"
proof -
  have "list_all parseable (map param_emitted ps)" using assms(1) param_emitted_ok(2) by (simp add: list_all_iff)
  from msg_parse_bytes [OF assms(3) this _ assms(4,5), where ?recs0.0 = recs0 and rest = rest] assms(2,6) obtain msg rs where m:
    "nfc_ndef_msg_parse abi recs0 rlen (msg_bytes (map param_emitted ps) @ rest) (of_nat (length (msg_bytes (map param_emitted ps)))) =
       Inr (msg, used, of_nat (length (msg_bytes (map param_emitted ps))))"
    "msg_inv msg" "msg_records msg = map Some rs" "list_all2 describes rs (map param_emitted ps)"
    by (auto simp del: map_map)
  from search_described [OF m(4) assms(1,2) m(3,2) assms(7,8)] m(1) show ?thesis by blast
qed

definition demo_param :: nfc_ndef_tnep_rec_svc_param where
  "demo_param = \<lparr>par_version = 0x10, par_uri_length = 2, par_uri = Some [0x61, 0x62], par_communication_mode = 0,
     par_min_time = 8, par_max_time_ext = 2, par_max_size = 256\<rparr>"

lemma demo_param_ok [simp]: "param_ok demo_param" "length (msg_bytes [param_emitted demo_param]) = 17"
proof -
  show "param_ok demo_param" by (simp add: param_ok_def demo_param_def mem_simps)
  show "length (msg_bytes [param_emitted demo_param]) = 17"
    by (simp add: length_msg_bytes emitted_size_def param_emitted_def NFC_TNEP_SERIVCE_PARAM_RECORD_DESC_DEF_def
        tnep_record_id_type tnep_types) (simp add: demo_param_def param_body_def)
qed

theorem poller_finds_services_witness:
  "\<exists>msg params' k.
     nfc_ndef_msg_parse sample_abi (\<lambda>_. sample_record) 100 (msg_bytes [param_emitted demo_param] @ [7]) 17 = Inr (msg, 84, 17) \<and>
     nfc_tnep_poller_svc_search (Some msg) (Some [demo_param\<lparr>par_version := 0\<rparr>]) (Some 1) = Inr (params', k) \<and>
     unat k = 1 \<and> list_all2 same_param [demo_param] (take (unat k) params')"
proof -
  obtain msg0 where r: "nfc_ndef_msg_parser_memo_resolve sample_abi 100 = Inr (2, msg0, 84)"
    using sample_abi_ok(2) by blast
  show ?thesis
    using poller_finds_services [OF _ _ _ sample_abi_ok(1) r, where ps = "[demo_param]" and cnt = 1 and
        params = "[demo_param\<lparr>par_version := 0\<rparr>]" and ?recs0.0 = "\<lambda>_. sample_record" and rest = "[7]"] by simp
qed

text \<open>C15: Waiting for the tag ends: when the tag keeps answering with empty messages, the poller starts exactly
  as many further reads as the time extensions left, each after the waiting time of the service less the time
  already spent, and then tells the application about the timeout.\<close>

theorem poller_wait_ends:
  assumes "waiting s sv a n" "pe_submit env = None"
    and "unat (par_max_time_ext (tp_params s sv)) = unat (tp_retry_cnt s) + length ts"
  shows "\<exists>s'. foldE (empty_attempt env) s (ts @ [t]) = Inr s' \<and>
     tp_log s' = tp_log s @ concat (map (\<lambda>t. [Ndef_Read a n, Delayed_Read (read_delay (tp_wait_time s) t)]) ts) @
       [Ndef_Read a n, answer_event (tp_state s) (Some sv) None True]"
proof -
  from empty_attempts [OF assms] obtain s1 where s1: "foldE (empty_attempt env) s ts = Inr s1" "waiting s1 sv a n"
    "tp_params s1 = tp_params s" "tp_retry_cnt s1 = par_max_time_ext (tp_params s sv)" "tp_state s1 = tp_state s"
    "tp_log s1 = tp_log s @ concat (map (\<lambda>t. [Ndef_Read a n, Delayed_Read (read_delay (tp_wait_time s) t)]) ts)"
    by blast
  obtain s2 where "empty_attempt env s1 t = Inr s2" "tp_log s2 = tp_log s1 @ [Ndef_Read a n, answer_event (tp_state s1) (Some sv) None True]"
    by (rule empty_attempt_gives_up [OF s1(2)]) (use s1(3,4) in simp)
  then show ?thesis using s1 by (simp add: foldE_append)
qed

definition demo_poller :: tnep_poller where
  "demo_poller = \<lparr>tp_mem = (\<lambda>_. replicate 64 0), tp_params = (\<lambda>_. demo_param),
     tp_rx = Some \<lparr>tbuf_data = Some 1, tbuf_size = 64\<rparr>, tp_tx = Some \<lparr>tbuf_data = Some 0, tbuf_size = 64\<rparr>,
     tp_svc_to_select = None, tp_active_svc = Some 5,
     tp_cb = Some \<lparr>pcb_svc_selected = True, pcb_svc_deselected = True, pcb_svc_received = True, pcb_svc_sent = True, pcb_error = True\<rparr>,
     tp_api = Some \<lparr>api_ndef_read = Some (\<lambda>_ _. None), api_ndef_update = Some (\<lambda>_ _. None)\<rparr>, tp_last_time = 0,
     tp_state = TNEP_POLLER_STATE_SELECTING, tp_type = NFC_TNEP_TAG_TYPE_T4T, tp_wait_time = 2, tp_retry_cnt = 0, tp_log = []\<rparr>"

definition demo_poller_env :: poller_env where
  "demo_poller_env = \<lparr>pe_rx_max_record_cnt = 2, pe_abi = sample_abi, pe_recs0 = (\<lambda>_. sample_record), pe_residue = (\<lambda>_ xs. xs),
     pe_submit = None\<rparr>"

theorem poller_wait_ends_witness:
  "\<exists>s'. foldE (empty_attempt demo_poller_env) demo_poller ([(10, 11), (20, 30)] @ [(40, 40)]) = Inr s' \<and>
     tp_log s' = [Ndef_Read 1 64, Delayed_Read 1, Ndef_Read 1 64, Delayed_Read 0, Ndef_Read 1 64, Poll_Selected (Some 5) None True]"
proof -
  have "waiting demo_poller 5 1 64" "pe_submit demo_poller_env = None"
    by (simp_all add: waiting_def demo_poller_def demo_poller_env_def)
  from poller_wait_ends [OF this, where ts = "[(10, 11), (20, 30)]" and t = "(40, 40)"]
  show ?thesis by (simp add: demo_poller_def demo_param_def read_delay_def)
qed

end
