(* ===== verification/Tnep_Exchange.thy ===== *)
theory Tnep_Exchange
  imports Tnep_Tag_Run Tnep_Poller_Run
begin

text \<open>
  The two sides of the Tag NDEF Exchange Protocol together: what the poller writes to select a service
  makes the tag select that service, and the poller reads the answer that the tag's application gave.
\<close>

section \<open>What the poller writes\<close>

text \<open>The bytes that are written to the tag: the file of a Type 4 Tag, the bare message of a Type 2 Tag.\<close>

definition ndef_file :: "bool \<Rightarrow> u8 list \<Rightarrow> u8 list" where
  "ndef_file t4t bs = (if t4t then put_be16 (of_nat (length bs)) else []) @ bs"

definition ndef_of_file :: "bool \<Rightarrow> u8 list \<Rightarrow> u8 list" where
  "ndef_of_file t4t d = (if t4t then drop 2 d else d)"

lemma ndef_of_file [simp]: "ndef_of_file t4t (ndef_file t4t bs) = bs"
  by (simp add: ndef_of_file_def ndef_file_def)

lemma length_ndef_file [simp]: "length (ndef_file t4t bs) = (if t4t then length bs + 2 else length bs)"
  by (simp add: ndef_file_def)

lemma emitted_size_pos: "rs \<noteq> [] \<Longrightarrow> 6 \<le> emitted_size rs"
  by (cases rs) (auto simp: emitted_size_def)

lemma update_prepared:
  assumes tx: "tp_tx s = Some tx" "tbuf_data tx = Some a" "unat (tbuf_size tx) \<le> length (tp_mem s a)"
    and m: "msg_holds m rs" "rs \<noteq> []" and t: "t4t = (tp_type s = NFC_TNEP_TAG_TYPE_T4T)"
    and fits: "image_fits t4t (unat (tbuf_size tx)) (emitted_size rs)"
  shows "tnep_tag_update_prepare env s m =
     Inr (s\<lparr>tp_mem := (tp_mem s)(a := ndef_file t4t (msg_bytes rs) @ drop (length (ndef_file t4t (msg_bytes rs))) (tp_mem s a))\<rparr>,
          Inr (of_nat (length (ndef_file t4t (msg_bytes rs)))))"
proof -
  let ?bs = "msg_bytes rs" and ?n = "unat (tbuf_size tx)"
  have sz: "length ?bs = emitted_size rs" by (rule length_msg_bytes)
  have "emitted_size rs < 2 ^ 32"
    using fits unat_u32_lt [of "tbuf_size tx"] by (auto simp: image_fits_def split: if_splits)
  note w = msg_holds_writes(2) [OF m(1) this]
  show ?thesis
  proof (cases t4t)
    case False
    have "nfc_ndef_msg_encode (Some m) (Some (tp_mem s a, tbuf_size tx)) = Inr (?bs @ drop (length ?bs) (tp_mem s a), of_nat (length ?bs))"
      using fits False tx(3) sz by (intro writes_fits [OF w]) (simp_all add: image_fits_def)
    then show ?thesis using False t tx by (simp add: tnep_tag_update_prepare_def ndef_file_def Let_def)
  next
    case True
    have l2: "unat (tbuf_size tx - 2) = ?n - 2" "2 \<le> ?n"
      using fits True by (simp_all add: image_fits_def unat_sub_le word_le_nat_alt)
    have e: "nfc_ndef_msg_encode (Some m) (Some (drop 2 (tp_mem s a), tbuf_size tx - 2)) =
        Inr (?bs @ drop (length ?bs) (drop 2 (tp_mem s a)), of_nat (length ?bs))"
      using fits True tx(3) sz l2 by (intro writes_fits [OF w]) (auto simp: image_fits_def)
    have k: "\<not> (of_nat (length ?bs) :: u32) < 1" "\<not> (0xFFFF :: u32) < of_nat (length ?bs)"
        "ucast (of_nat (length ?bs) :: u32) = (of_nat (length ?bs) :: u16)"
      using fits True sz emitted_size_pos [OF m(2)]
      by (simp_all add: image_fits_def word_less_nat_alt unat_of_nat_u32 ucast_of_nat_u16)
    have "mem_write (take 2 (tp_mem s a) @ ?bs @ drop (length ?bs) (drop 2 (tp_mem s a))) 0 (put_be16 (of_nat (length ?bs))) =
        Inr (put_be16 (of_nat (length ?bs)) @ ?bs @ drop (length ?bs + 2) (tp_mem s a))"
      using tx(3) l2 by (simp add: mem_write_0 add.commute)
    then show ?thesis
      using True t tx e k by (simp add: tnep_tag_update_prepare_def ndef_file_def nfc_t4t_ndef_file_encode_def Let_def add.commute)
  qed
qed

lemma update_sent:
  assumes "tp_tx s = Some tx" "tbuf_data tx = Some a" "tp_mem s a = d @ rest" "length d < 65536"
    and "tp_api s = Some api" "api_ndef_update api = Some f"
  shows "poller_ndef_update s (of_nat (length d)) = Inr (poller_emit s (Ndef_Update d (of_nat (length d))), f d (of_nat (length d)))"
proof -
  have u: "ucast (of_nat (length d) :: u32) = (of_nat (length d) :: u16)" "unat (of_nat (length d) :: u16) = length d"
    using assms(4) by (simp_all add: ucast_of_nat_u16 unat_of_nat)
  then show ?thesis using assms by (simp add: poller_ndef_update_def Let_def)
qed

text \<open>The record that selects a service, by its URI.\<close>

definition select_emitted :: "nfc_ndef_tnep_rec_svc_param \<Rightarrow> emitted" where
  "select_emitted p = (NFC_TNEP_SERIVCE_SELECT_RECORD_DESC_DEF (par_uri_length p) (par_uri p),
     par_uri_length p # block (par_uri p) (unat (par_uri_length p)))"

lemma select_parseable: "parseable (select_emitted p)"
  by (simp add: select_emitted_def parseable_def NFC_TNEP_SERIVCE_SELECT_RECORD_DESC_DEF_def tnep_types)
    (simp add: tnep_record_desc_def record_tnf_ok_def)

lemma select_size:
  "length (block (par_uri p) (unat (par_uri_length p))) = unat (par_uri_length p) \<Longrightarrow>
   emitted_size [select_emitted p] = 9 + unat (par_uri_length p)"
  by (simp add: emitted_size_def select_emitted_def NFC_TNEP_SERIVCE_SELECT_RECORD_DESC_DEF_def tnep_record_id_type tnep_types)

text \<open>A poller that can select the service at the address \<open>sv\<close> of the application.\<close>

definition can_select :: "tnep_poller \<Rightarrow> nfc_tnep_buf \<Rightarrow> nat \<Rightarrow> u32 \<Rightarrow> bool" where
  "can_select s buf sv area \<longleftrightarrow> tbuf_data buf \<noteq> None \<and> 0 < tbuf_size buf \<and> tp_active_svc s \<noteq> Some sv \<and>
     par_communication_mode (tp_params s sv) = 0 \<and> ucast (par_max_size (tp_params s sv)) \<le> area \<and>
     par_uri_length (tp_params s sv) \<noteq> 0 \<and> readable (par_uri (tp_params s sv)) (unat (par_uri_length (tp_params s sv))) \<and>
     (\<exists>tx a. tp_tx s = Some tx \<and> tbuf_data tx = Some a \<and> unat (tbuf_size tx) \<le> length (tp_mem s a) \<and>
        image_fits (tp_type s = NFC_TNEP_TAG_TYPE_T4T) (unat (tbuf_size tx)) (9 + unat (par_uri_length (tp_params s sv))))"

lemma select_writes:
  assumes ok: "can_select s buf sv area" and api: "tp_api s = Some api" "api_ndef_update api = Some f"
    and d: "d = ndef_file (tp_type s = NFC_TNEP_TAG_TYPE_T4T) (msg_bytes [select_emitted (tp_params s sv)])"
  obtains s' where "nfc_tnep_poller_svc_select env now s (Some buf) (Some sv) area = Inr (s', f d (of_nat (length d)))"
    "tp_log s' = tp_log s @ [Ndef_Update d (of_nat (length d))]" "tp_state s' = TNEP_POLLER_STATE_SELECTING"
    "tp_svc_to_select s' = Some sv" "tp_rx s' = Some buf"
proof -
  let ?p = "tp_params s sv" and ?t4t = "tp_type s = NFC_TNEP_TAG_TYPE_T4T"
  let ?s0 = "s\<lparr>tp_state := TNEP_POLLER_STATE_SELECTING\<rparr>"
  obtain tx a where tx: "tp_tx s = Some tx" "tbuf_data tx = Some a" "unat (tbuf_size tx) \<le> length (tp_mem s a)"
      "image_fits ?t4t (unat (tbuf_size tx)) (9 + unat (par_uri_length ?p))"
    using ok by (auto simp: can_select_def)
  have u: "par_uri_length ?p \<noteq> 0" "readable (par_uri ?p) (unat (par_uri_length ?p))" using ok by (simp_all add: can_select_def)
  have e: "emits (select_emitted ?p)" "emitted_size [select_emitted ?p] = 9 + unat (par_uri_length ?p)"
    using select_record_emits u select_size [of ?p] by (simp_all add: select_emitted_def mem_simps)
  have m0: "msg_holds (nfc_ndef_msg_clear (NFC_NDEF_MSG_DEF [None])) []" by (rule msg_holds_clear [OF msg_holds_empty]) simp
  have mx: "unat (msg_max_record_count (nfc_ndef_msg_clear (NFC_NDEF_MSG_DEF [None]))) = 1"
    by (simp add: nfc_ndef_msg_clear_def NFC_NDEF_MSG_DEF_def)
  have "list_all emits [select_emitted ?p]" using e(1) by simp
  from msg_holds_add_all [OF m0 this] mx obtain m where
    m: "nfc_ndef_msg_record_add (nfc_ndef_msg_clear (NFC_NDEF_MSG_DEF [None])) (Some (fst (select_emitted ?p))) = Inr m"
      "msg_holds m [select_emitted ?p]"
    by (auto split: if_splits)
  let ?s1 = "?s0\<lparr>tp_mem := (tp_mem s)(a := d @ drop (length d) (tp_mem s a))\<rparr>"
  have prep: "tnep_tag_update_prepare env ?s0 m = Inr (?s1, Inr (of_nat (length d)))"
    using update_prepared [of ?s0 tx a m "[select_emitted ?p]" ?t4t env] tx m(2) e(2) d by simp
  let ?s2 = "?s1\<lparr>tp_svc_to_select := Some sv, tp_rx := Some buf\<rparr>"
  have "length d < 65536"
    using d e(2) length_msg_bytes [of "[select_emitted ?p]"] unat_u8_lt [of "par_uri_length ?p"] by simp
  with update_sent [of ?s2 tx a d "drop (length d) (tp_mem s a)" api f] tx api
  have sent: "poller_ndef_update ?s2 (of_nat (length d)) = Inr (poller_emit ?s2 (Ndef_Update d (of_nat (length d))), f d (of_nat (length d)))"
    by simp
  have g: "tbuf_data buf \<noteq> None" "\<not> tbuf_size buf < 1" "Some sv \<noteq> tp_active_svc s" "par_communication_mode ?p = 0"
      "\<not> area < ucast (par_max_size ?p)"
    using ok by (auto simp: can_select_def word_less_nat_alt word_le_nat_alt)
  have "nfc_tnep_poller_svc_select env now s (Some buf) (Some sv) area =
      Inr (poller_emit ?s2 (Ndef_Update d (of_nat (length d))), f d (of_nat (length d)))"
    using g m(1) prep sent by (auto simp: nfc_tnep_poller_svc_select_def Let_def select_emitted_def)
  then show ?thesis using that by simp
qed

section \<open>What the tag understands\<close>

lemma index_of_distinct:
  "distinct ys \<Longrightarrow> j < length ys \<Longrightarrow> index_of i (ys ! j) ys = Some (i + j)"
proof (induction ys arbitrary: i j)
  case (Cons y ys)
  then show ?case by (cases j) auto
qed simp

lemma select_requested:
  assumes env: "env_ok env" "0 < te_rx_max_record_cnt env" "unat (te_rx_max_record_cnt env) \<le> 8192"
    and svc: "distinct (map svc_uri (te_svcs env))" "i < length (te_svcs env)" "same_param (svc_parameters (te_svcs env ! i)) q"
  defines "bs \<equiv> msg_bytes [select_emitted q]"
  shows "rx_ok bs (of_nat (length bs)) \<and> tnep_request env bs (of_nat (length bs)) = Req_Select (of_nat (length bs)) i"
proof -
  let ?par = "svc_parameters (te_svcs env ! i)" and ?n = "te_rx_max_record_size env"
  have "svc_ok ?n (te_svcs env ! i)" using env(1) svc(2) by (simp add: env_ok_def list_all_length)
  then have ok: "par_uri_length ?par \<noteq> 0" "readable (par_uri ?par) (unat (par_uri_length ?par))" "unat (par_uri_length ?par) < ?n"
    by (auto simp: svc_ok_def param_ok_def)
  have q: "par_uri_length q = par_uri_length ?par"
      "block (par_uri q) (unat (par_uri_length q)) = block (par_uri ?par) (unat (par_uri_length ?par))"
    using svc(3) by (simp_all add: same_param_def)
  have body: "snd (select_emitted q) = par_uri_length ?par # svc_uri (te_svcs env ! i)"
    using q by (simp add: select_emitted_def svc_uri_def)
  have lu: "length (svc_uri (te_svcs env ! i)) = unat (par_uri_length ?par)" using ok(2) by (simp add: svc_uri_def mem_simps)
  have size: "emitted_size [select_emitted q] = 9 + unat (par_uri_length ?par)"
    using q ok(2) select_size [of q] by (simp add: mem_simps)
  then have len: "length bs = 9 + unat (par_uri_length ?par)" "length bs < 65536"
    using unat_u8_lt [of "par_uri_length ?par"] by (simp_all add: bs_def length_msg_bytes)
  have abi: "abi_ok (te_abi env)" using env(1) by (simp add: env_ok_def)
  obtain msg0 used where mr: "nfc_ndef_msg_parser_memo_resolve (te_abi env) (tnep_desc_buf_len env) = Inr (te_rx_max_record_cnt env, msg0, used)"
    using memo_resolve_sized [OF abi env(2,3)] by (auto simp: tnep_desc_buf_len_def)
  have "1 \<le> unat (te_rx_max_record_cnt env)" using env(2) by (simp add: word_less_nat_alt)
  then obtain msg rs where p: "nfc_ndef_msg_parse (te_abi env) (te_recs0 env) (tnep_desc_buf_len env) bs (of_nat (length bs)) =
        Inr (msg, used, of_nat (length bs))" "msg_records msg = map Some rs" "list_all2 describes rs [select_emitted q]"
    using msg_parse_bytes [of "[select_emitted q]", OF _ _ _ abi mr, where ?recs0.0 = "te_recs0 env" and rest = "[]"] select_parseable len(2)
    by (auto simp: bs_def)
  obtain r where r: "rs = [r]" "describes r (select_emitted q)" using p(3) by (auto simp: list_all2_Cons2)
  have "is_select r"
    using r(2) by (auto simp: describes_def select_emitted_def is_select_def NFC_TNEP_SERIVCE_SELECT_RECORD_DESC_DEF_def
        tnep_record_desc_def tnep_types)
  moreover have "payload_of r = par_uri_length ?par # svc_uri (te_svcs env ! i)"
    using describes_ok [of r "fst (select_emitted q)" "snd (select_emitted q)"] r(2) unfolding body [symmetric] by simp
  then have "select_uri ?n (payload_of r) = svc_uri (te_svcs env ! i)" using ok(3) lu by (simp add: select_uri_def)
  moreover have "index_of 0 (svc_uri (te_svcs env ! i)) (map svc_uri (te_svcs env)) = Some i"
    using index_of_distinct [OF svc(1), of i 0] svc(2) by simp
  ultimately have "requested env rs (of_nat (length bs)) = Req_Select (of_nat (length bs)) i"
    using r(1) by (simp add: requested_def)
  then have rq: "tnep_request env bs (of_nat (length bs)) = Req_Select (of_nat (length bs)) i"
    using p(1,2) by (simp add: tnep_request_def comp_def)
  have "unat (of_nat (length bs) :: u32) = length bs" using len(2) by (simp add: unat_of_nat_u32)
  then have "rx_ok bs (of_nat (length bs))"
    using lengths_ok_msg_bytes_from [of "[select_emitted q]" True] select_parseable size unat_u8_lt [of "par_uri_length ?par"]
    by (simp add: rx_ok_def bs_def msg_bytes_def)
  then show ?thesis using rq by simp
qed

text \<open>A run of the tag.\<close>

definition tnep_run :: "tnep_env \<Rightarrow> tnep_tag \<Rightarrow> tnep_call list \<Rightarrow> tnep_tag res" where
  "tnep_run env = foldE (\<lambda>s c. bindE (tnep_exec env s c) (\<lambda>(s, _). Inr s))"

lemma tag_receives:
  assumes env: "env_ok env" and t: "tnep_reach env t" "initial_fits env t" "tt_events t = Some evs" "\<not> evs ! 1" "\<not> sig_signaled (tt_msg_tx t)"
    and rx: "rx_ok data len" "0 < len"
  shows "\<exists>t'. tnep_run env t [Rx_Indicate (Some data) len, K_Poll, Process] = Inr t' \<and>
     simulates t (tnep_spec_rx data (tnep_abs t) (tnep_request env data len)) t'"
proof -
  have ds: "tt_data_set t" "2 \<le> length evs"
    using tnep_reach_inv [OF t(1) env] t(3) by (auto simp: tag_inv_def tag_base_def split: if_splits)
  then obtain a b es where evs: "evs = a # b # es" by (cases evs; cases "List.tl evs") auto
  define t1 where "t1 = nfc_tnep_tag_rx_msg_indicate t (Some data) len"
  define t2 where "t2 = tnep_k_poll t1"
  have t1: "t1 = t\<lparr>tt_rx_len := len, tt_rx_data := Some data, tt_msg_rx := \<lparr>sig_signaled = True, sig_result = TNEP_EVENT_MSG_RX_NEW\<rparr>\<rparr>"
    using rx(2) by (simp add: t1_def nfc_tnep_tag_rx_msg_indicate_def word_less_nat_alt)
  have t2: "t2 = t1\<lparr>tt_events := Some (True # False # es)\<rparr>"
    using t1 t(3-5) evs by (simp add: t2_def tnep_k_poll_def)
  have r1: "tnep_reach env t1"
    by (rule tnep_reach.call [OF t(1), of "Rx_Indicate (Some data) len" _ None]) (simp_all add: tnep_call_ok_def rx tnep_exec_def t1_def)
  have r2: "tnep_reach env t2"
    by (rule tnep_reach.call [OF r1, of K_Poll _ None]) (simp_all add: tnep_call_ok_def tnep_exec_def t2_def)
  have f: "initial_fits env t2" "tt_rx_data t2 = Some data" "tt_rx_len t2 = len" "tnep_abs t2 = tnep_abs t" "tnep_calls t2 = tnep_calls t"
    using t(2) by (simp_all add: t2 t1 tnep_abs_def tnep_calls_def)
  obtain t' where p: "nfc_tnep_tag_process env t2 = Inr t'"
      "simulates t2 (tnep_spec_rx data (tnep_abs t) (tnep_request env data len)) t'"
    using process_simulates [OF env r2 f(1), of "True # False # es"] f(2-4) by (auto simp: t2)
  have "tnep_run env t [Rx_Indicate (Some data) len, K_Poll, Process] = Inr t'"
    using p(1) by (simp add: tnep_run_def tnep_exec_def t1_def [symmetric] t2_def [symmetric])
  then show ?thesis using simulates_via [OF p(2) f(5)] by blast
qed

section \<open>What the poller reads\<close>

text \<open>A record that the poller does not take for the status record. The poller compares the first two bytes
  where the type is with \<open>Te\<close>, whatever the length of the type; behind a shorter type are the ID and the payload. So a record
  with a type of one byte, as a Text or a URI record, must have a payload (or an ID).\<close>

definition not_status :: "emitted \<Rightarrow> bool" where
  "not_status = (\<lambda>(r, body). rec_type_length r = 0 \<or>
     (let bs = block (rec_type r) (unat (rec_type_length r)) @ block (rec_id r) (unat (rec_id_length r)) @ body in
      2 \<le> length bs \<and> take 2 bs \<noteq> [0x54, 0x65]))"

lemma status_check_other:
  assumes "describes r (r0, body)" "not_status (r0, body)"
  shows "status_record_check r nfc_ndef_tnep_rec_type_status 2 = Inr False"
proof (cases "rec_type_length r0 = 0")
  case True
  then show ?thesis using assms(1) by (simp add: status_record_check_def describes_def)
next
  case False
  let ?bs = "block (rec_type r0) (unat (rec_type_length r0)) @ block (rec_id r0) (unat (rec_id_length r0)) @ body"
  have l: "2 \<le> length ?bs" "take 2 ?bs \<noteq> [0x54, 0x65]" using assms(2) False by (simp_all add: not_status_def Let_def)
  have "0 < rec_type_length r0" using False by (simp add: word_neq_0_conv)
  then obtain xs where xs: "rec_type r = Some (?bs @ xs)" "rec_type_length r = rec_type_length r0"
    using assms(1) by (auto simp: describes_def)
  have "mem_read (rec_type r) 2 = Inr (take 2 ?bs)"
    unfolding xs(1) using l(1) by (auto simp: mem_read_def simp del: append_assoc)
  then show ?thesis using False l(2) xs(2) by (simp add: status_record_check_def mem_read_def tnep_types)
qed

lemma analyze_finds_status:
  assumes "list_all2 describes rs' (rs @ [(NFC_TNEP_STATUS_RECORD_DESC_DEF st, [st])])" "list_all not_status rs"
  shows "tnep_data_analyze recs (map Some rs') = Inr \<lparr>pmsg_status = st, pmsg_records = recs\<rparr>"
  using assms
proof (induction rs arbitrary: rs')
  case Nil
  then obtain r where r: "rs' = [r]" "describes r (NFC_TNEP_STATUS_RECORD_DESC_DEF st, [st])" by (auto simp: list_all2_Cons2)
  then obtain bin where b: "rec_type_length r = 2" "record_desc_ok r" "block (rec_type r) 2 = nfc_ndef_tnep_rec_type_status"
      "rec_payload r = Payload_Bin bin" "bin_ok bin" "bin_body bin = [st]"
    by (auto simp: describes_def NFC_TNEP_STATUS_RECORD_DESC_DEF_def tnep_record_desc_def tnep_types)
  have "unat (bin_payload_length bin) = 1" using b(5,6) by (auto simp: bin_ok_def bin_body_def mem_simps dest: arg_cong [of _ _ length])
  then have l: "bin_payload_length bin = 1" by (simp add: word_unat_eq_iff)
  have "status_record_check r nfc_ndef_tnep_rec_type_status 2 = Inr True"
    using b(1-3) by (simp add: status_record_check_def record_desc_ok_def mem_simps tnep_types)
  moreover have "mem_read (bin_payload bin) 1 = Inr [st]"
    using b(5,6) l by (simp add: bin_ok_def bin_body_def mem_simps)
  ultimately show ?case using r(1) b(4) l by simp
next
  case (Cons e rs)
  then obtain r rs'' where r: "rs' = r # rs''" "describes r e" "list_all2 describes rs'' (rs @ [(NFC_TNEP_STATUS_RECORD_DESC_DEF st, [st])])"
    by (auto simp: list_all2_Cons2)
  obtain r0 body where e: "e = (r0, body)" by (cases e)
  have "status_record_check r nfc_ndef_tnep_rec_type_status 2 = Inr False"
    using status_check_other [of r r0 body] r(2) Cons.prems(2) e by simp
  then show ?case using Cons.IH [OF r(3)] Cons.prems(2) r(1) by simp
qed

lemma poller_gets_answer:
  assumes cb: "tp_cb p = Some cb" "waiting_cb cb (tp_state p)"
    and env: "abi_ok (pe_abi env)" "length rs < unat (pe_rx_max_record_cnt env)" "unat (pe_rx_max_record_cnt env) \<le> 8192"
    and m: "list_all parseable rs" "list_all not_status rs"
    and len: "length bs \<le> unat len" "unat len \<le> length (bs @ rest)"
    and bs: "bs = msg_bytes (rs @ [(NFC_TNEP_STATUS_RECORD_DESC_DEF st, [st])])"
  shows "\<exists>p' rs'. nfc_tnep_poller_on_ndef_read env now later p (bs @ rest) len = Inr (p', None) \<and>
     tp_log p' = tp_log p @ [answer_event (tp_state p) (tp_active_svc p) (Some \<lparr>pmsg_status = st, pmsg_records = map Some rs'\<rparr>) False] \<and>
     list_all2 describes rs' (rs @ [(NFC_TNEP_STATUS_RECORD_DESC_DEF st, [st])])"
proof -
  let ?es = "rs @ [(NFC_TNEP_STATUS_RECORD_DESC_DEF st, [st])]" and ?n = "pe_rx_max_record_cnt env"
  have "parseable (NFC_TNEP_STATUS_RECORD_DESC_DEF st, [st])"
    by (simp add: parseable_def NFC_TNEP_STATUS_RECORD_DESC_DEF_def tnep_types)
      (simp add: tnep_record_desc_def record_tnf_ok_def)
  then have par: "list_all parseable ?es" "?es \<noteq> []" using m(1) by simp_all
  have n: "0 < ?n" using env(2) by (simp add: word_less_nat_alt)
  obtain msg0 used where mr: "nfc_ndef_msg_parser_memo_resolve (pe_abi env) (poller_desc_buf_len env) = Inr (?n, msg0, used)"
    using memo_resolve_sized [OF env(1) n env(3)] by (auto simp: poller_desc_buf_len_def)
  have "length ?es \<le> unat ?n" using env(2) by simp
  from msg_parse_within [OF par len [unfolded bs] env(1) mr this] obtain msg rs' where p:
    "nfc_ndef_msg_parse (pe_abi env) (pe_recs0 env) (poller_desc_buf_len env) (bs @ rest) len = Inr (msg, used, of_nat (length bs))"
    "msg_records msg = map Some rs'" "list_all2 describes rs' ?es"
    unfolding bs by blast
  have pos: "len \<noteq> 0" using len(1) emitted_size_pos [OF par(2)] bs length_msg_bytes [of ?es] by auto
  let ?p = "p\<lparr>tp_last_time := now, tp_retry_cnt := 0\<rparr>"
  let ?ev = "answer_event (tp_state p) (tp_active_svc p) (Some \<lparr>pmsg_status = st, pmsg_records = map Some rs'\<rparr>) False"
  have "on_ndef_read_cb ?p (Some \<lparr>pmsg_status = st, pmsg_records = map Some rs'\<rparr>) False =
      Inr (poller_emit ?p ?ev, None)"
    using read_cb_tells [of ?p cb] cb by simp
  then have "nfc_tnep_poller_on_ndef_read env now later p (bs @ rest) len =
      Inr (poller_emit ?p ?ev, None)"
    using pos p analyze_finds_status [OF p(3) m(2)] by (simp add: nfc_tnep_poller_on_ndef_read_def)
  then show ?thesis using p(3) by (intro exI [of _ "poller_emit ?p ?ev"] exI [of _ rs']) simp
qed

text \<open>The message that a reader finds in the memory the tag serves: on a Type 4 Tag the first two bytes are its
  length, on a Type 2 Tag the whole memory is given.\<close>

definition served :: "bool \<Rightarrow> u8 list \<Rightarrow> u8 list \<times> u32" where
  "served t4t im = (if t4t then let n = be16 (im ! 0) (im ! 1) in (take (unat n) (drop 2 im), ucast n)
     else (im, of_nat (length im)))"

lemma served_image:
  assumes "image_fits t4t n (length bs)" "n < 2 ^ 32"
  shows "\<exists>rest k. served t4t (ndef_image t4t n bs) = (bs @ rest, k) \<and> length bs \<le> unat k \<and> unat k \<le> length (bs @ rest)"
proof (cases t4t)
  case True
  have u: "unat (of_nat (length bs) :: u16) = length bs" using assms True by (simp add: image_fits_def unat_of_nat)
  have "served True (ndef_image True n bs) = (bs, ucast (of_nat (length bs) :: u16))"
    using u by (simp add: served_def ndef_image_def put_be16_def Let_def)
  then show ?thesis using True u by (intro exI [of _ "[]"]) simp
next
  case False
  have l: "length (ndef_image False n bs) = n" "unat (of_nat n :: u32) = n"
    using assms False by (simp_all add: ndef_image_def image_fits_def unat_of_nat_u32)
  then show ?thesis
    using assms False
    by (intro exI [of _ "replicate (n - length bs) 0"] exI [of _ "of_nat n"]) (simp add: served_def ndef_image_def image_fits_def)
qed

section \<open>Properties\<close>

text \<open>C26: Selecting a service works across the two sides: when the poller selects a service whose parameters it
  got from the tag, the bytes it writes, received by a tag in the Service Ready state, polled and processed, put the
  tag in the Service Selected state with just that service, and its selection callback is the only callback
  that is called. The services of the tag have different URIs, and both sides use the same tag type; the poller is able to
  select the service (it is not the active one, its communication mode is supported, it fits the NDEF area, and the
  transmit buffer can hold the request); the tag can parse between 1 and 8192 records; its initial message, with the
  additional records if it has any, can be encoded and fits its buffers; and no selection of the tag by a reader is
  pending, which would bring the tag back to Service Ready.\<close>

theorem tnep_select_exchange:
  assumes "env_ok env" "0 < te_rx_max_record_cnt env" "unat (te_rx_max_record_cnt env) \<le> 8192"
    and "distinct (map svc_uri (te_svcs env))" "i < length (te_svcs env)"
    and "tnep_reach env t" "tt_state t = TNEP_STATE_SERVICE_READY" "initial_fits env t"
    and "tt_events t = Some evs" "\<not> evs ! 1" "\<not> sig_signaled (tt_msg_tx t)"
    and "can_select p buf sv area" "tp_api p = Some api" "api_ndef_update api = Some f"
    and "same_param (svc_parameters (te_svcs env ! i)) (tp_params p sv)" "te_t4t env = (tp_type p = NFC_TNEP_TAG_TYPE_T4T)"
  shows "\<exists>p' d t'. nfc_tnep_poller_svc_select penv now p (Some buf) (Some sv) area = Inr (p', f d (of_nat (length d))) \<and>
     tp_log p' = tp_log p @ [Ndef_Update d (of_nat (length d))] \<and> tp_svc_to_select p' = Some sv \<and>
     tnep_run env t [Rx_Indicate (Some (ndef_of_file (te_t4t env) d)) (of_nat (length (ndef_of_file (te_t4t env) d))), K_Poll, Process] = Inr t' \<and>
     tt_state t' = TNEP_STATE_SERVICE_SELECTED \<and> tt_svc_active t' = Some i \<and> tnep_calls t' = tnep_calls t @ [Svc_Selected i]"
proof -
  let ?bs = "msg_bytes [select_emitted (tp_params p sv)]"
  define d where "d = ndef_file (tp_type p = NFC_TNEP_TAG_TYPE_T4T) ?bs"
  obtain p' where p': "nfc_tnep_poller_svc_select penv now p (Some buf) (Some sv) area = Inr (p', f d (of_nat (length d)))"
    "tp_log p' = tp_log p @ [Ndef_Update d (of_nat (length d))]" "tp_svc_to_select p' = Some sv"
    by (rule select_writes [OF assms(12-14) d_def])
  have bsd: "ndef_of_file (te_t4t env) d = ?bs" by (simp add: d_def assms(16))
  have rq: "rx_ok ?bs (of_nat (length ?bs))" "tnep_request env ?bs (of_nat (length ?bs)) = Req_Select (of_nat (length ?bs)) i"
    using select_requested [OF assms(1-5,15)] by simp_all
  have l: "0 < length ?bs" "length ?bs < 2 ^ 32"
    using select_size [of "tp_params p sv"] assms(12) length_msg_bytes [of "[select_emitted (tp_params p sv)]"]
      unat_u8_lt [of "par_uri_length (tp_params p sv)"]
    by (simp_all add: can_select_def mem_simps)
  then have "unat (of_nat (length ?bs) :: u32) = length ?bs" by (simp add: unat_of_nat_u32)
  then have pos: "(0 :: u32) < of_nat (length ?bs)" using l(1) by (simp only: word_less_nat_alt unat_0)
  have st: "tnep_abs t = (TNEP_STATE_SERVICE_READY, tt_svc_active t)" using assms(7) by (simp add: tnep_abs_def)
  obtain t' where "tnep_run env t [Rx_Indicate (Some ?bs) (of_nat (length ?bs)), K_Poll, Process] = Inr t'"
      "simulates t ((TNEP_STATE_SERVICE_SELECTED, Some i), [Svc_Selected i]) t'"
    using tag_receives [OF assms(1,6,8-11) rq(1) pos] by (auto simp: st rq(2))
  then show ?thesis using p' unfolding bsd [symmetric]
    by (intro exI [of _ p'] exI [of _ d] exI [of _ t']) (simp add: simulates_def tnep_abs_def)
qed

text \<open>C32: The answer reaches the poller: when the tag's application answers in the Service Selected state with an
  answer outstanding, and the poller, waiting for it, reads the message that the tag then serves, the poller
  tells its application the status and the records (the application's records, or none with the status protocol
  error, and the status record, with their types, IDs and payloads, in order). The message descriptor must have a place for the
  status record, the message must fit the tag's buffer, and the poller must have room for its records (at most 8192);
  the records must be parseable, and none may look like a status record to the poller: unless a record has no type, the
  two bytes from its type on must be there and not be \<open>Te\<close>.\<close>

theorem tnep_answer_exchange:
  assumes "env_ok env" "tnep_reach env t" "tt_state t = TNEP_STATE_SERVICE_SELECTED" "tt_app_data_expected t"
    and "msg_holds m rs" "length (answer_records status rs) < unat (msg_max_record_count m)"
    and "image_fits (te_t4t env) (unat (tt_tx_len t)) (emitted_size (answer_records status rs) + 9)"
    and "list_all parseable (answer_records status rs)" "list_all not_status (answer_records status rs)"
    and "tp_cb p = Some cb" "waiting_cb cb (tp_state p)"
    and "abi_ok (pe_abi penv)" "length (answer_records status rs) < unat (pe_rx_max_record_cnt penv)" "unat (pe_rx_max_record_cnt penv) \<le> 8192"
  shows "\<exists>t' b p' rs'. nfc_tnep_tag_tx_msg_app_data env t (Some m) status = Inr (t', None) \<and>
     tt_log t' = tt_log t @ [Payload_Set b (tt_tx_len t)] \<and>
     (let (data, len) = served (te_t4t env) (take (unat (tt_tx_len t)) (tt_mem t' b)) in
        nfc_tnep_poller_on_ndef_read penv now later p data len = Inr (p', None)) \<and>
     tp_log p' = tp_log p @ [answer_event (tp_state p) (tp_active_svc p) (Some \<lparr>pmsg_status = status, pmsg_records = map Some rs'\<rparr>) False] \<and>
     list_all2 describes rs' (answer_records status rs @ [(NFC_TNEP_STATUS_RECORD_DESC_DEF status, [status])])"
proof -
  let ?rs = "answer_records status rs" and ?n = "unat (tt_tx_len t)"
  let ?bs = "msg_bytes (?rs @ [(NFC_TNEP_STATUS_RECORD_DESC_DEF status, [status])])"
  have inv: "tag_inv env t" by (rule tnep_reach_inv [OF assms(2,1)])
  then have "tag_base env t" "tt_data_set t" using ready_data_set [of env t] assms(3) by (simp_all add: tag_inv_def)
  then obtain b where b: "next_buff t = Some b" using next_buff_ex by blast
  let ?im = "ndef_image (te_t4t env) ?n ?bs"
  let ?t = "handed (t\<lparr>tt_app_data_expected := False, tt_status_record := status\<rparr>) b (?im @ drop ?n (tt_mem t b))"
  have sv: "nfc_tnep_tag_tx_msg_app_data env t (Some m) status = Inr (?t, None)"
    by (rule app_data_served [OF inv assms(3-7) b])
  have len: "length ?bs = emitted_size ?rs + 9" using status_emitted_size [of status] by (simp add: length_msg_bytes)
  have im: "length ?im = ?n" "take ?n (tt_mem ?t b) = ?im" "tt_log ?t = tt_log t @ [Payload_Set b (tt_tx_len t)]"
    using assms(7) len by (auto simp: ndef_image_def image_fits_def Let_def handed_def split: if_splits)
  have fit: "image_fits (te_t4t env) ?n (length ?bs)" "?n < 2 ^ 32" using assms(7) len unat_u32_lt [of "tt_tx_len t"] by simp_all
  obtain rest k where s: "served (te_t4t env) ?im = (?bs @ rest, k)" "length ?bs \<le> unat k" "unat k \<le> length (?bs @ rest)"
    using served_image [OF fit] by blast
  from poller_gets_answer [OF assms(10-14,8,9) s(2,3) refl] obtain p' rs' where
    "nfc_tnep_poller_on_ndef_read penv now later p (?bs @ rest) k = Inr (p', None)"
    "tp_log p' = tp_log p @ [answer_event (tp_state p) (tp_active_svc p) (Some \<lparr>pmsg_status = status, pmsg_records = map Some rs'\<rparr>) False]"
    "list_all2 describes rs' (?rs @ [(NFC_TNEP_STATUS_RECORD_DESC_DEF status, [status])])"
    by blast
  then show ?thesis using sv im(2,3) s(1) by (intro exI [of _ ?t] exI [of _ b] exI [of _ p'] exI [of _ rs']) simp
qed

end
