(* ===== verification/Tnep_Demo.thy ===== *)
theory Tnep_Demo
  imports Tnep_Exchange
begin

text \<open>
  A concrete tag with one service and an additional record in its initial message: the states of a run from the start
  of the module to a selected service, at which the properties of the tag and of the exchange are applied.
\<close>

section \<open>A tag with one service\<close>

definition demo_svc :: nfc_tnep_tag_service where
  "demo_svc = \<lparr>svc_parameters = demo_param, svc_ndef_record = Some (NFC_TNEP_SERIVCE_PARAM_RECORD_DESC_DEF demo_param),
     svc_callbacks = \<lparr>scb_selected = Some [], scb_deselected = Some [], scb_message_received = Some (\<lambda>_ _. []),
       scb_error_detected = Some (\<lambda>_. [])\<rparr>\<rparr>"

definition demo_env :: tnep_env where
  "demo_env = \<lparr>te_svcs = [demo_svc], te_t4t = True, te_rx_max_record_cnt = 2, te_rx_max_record_size = 64,
     te_abi = sample_abi, te_recs0 = (\<lambda>_. sample_record), te_residue = (\<lambda>_ xs. xs)\<rparr>"

lemma demo_emitted: "svc_emitted demo_svc = param_emitted demo_param"
  by (simp add: svc_emitted_def param_emitted_def demo_svc_def)

lemma demo_env_sel [simp]:
  "te_svcs demo_env = [demo_svc]" "te_t4t demo_env" "te_rx_max_record_cnt demo_env = 2" "te_rx_max_record_size demo_env = 64"
  by (simp_all add: demo_env_def)

lemma demo_size: "emitted_size [param_emitted demo_param] = 17"
  using demo_param_ok(2) length_msg_bytes [of "[param_emitted demo_param]"] by simp

lemma demo_env_ok: "env_ok demo_env"
proof -
  have "svc_ok 64 demo_svc"
    by (simp add: svc_ok_def svc_emitted_def demo_svc_def) (simp add: demo_param_def)
  moreover have "abi_ok (te_abi demo_env)" using sample_abi_ok(1) by (simp add: demo_env_def)
  ultimately show ?thesis by (simp add: env_ok_def demo_emitted demo_size)
qed

text \<open>Initialised, ready, with a pending message that selects the service, and with the service selected.\<close>

definition demo_idle :: tnep_tag where
  "demo_idle = (tnep_zero (\<lambda>_. replicate 64 0))\<lparr>tt_tx_data := Some 0, tt_tx_swap := Some 1, tt_tx_len := 64,
     tt_events := Some [False, False], tt_current_buff := Some 0, tt_data_set := True, tt_svc_cnt := 1\<rparr>"

definition demo_optional :: emitted where
  "demo_optional = (sample_record, [0xAA, 0xBB])"

text \<open>The application passes one additional record on, with room for two.\<close>

definition demo_cb :: initial_msg_encode_t where
  "demo_cb m = (Some m, Some [sample_record], 1)"

definition demo_created :: tnep_tag where
  "demo_created = demo_idle\<lparr>tt_max_records_cnt := 2, tt_initial_msg_encode := Some demo_cb\<rparr>"

definition demo_ready :: tnep_tag where
  "demo_ready = (handed demo_created 1 (ndef_image True 64 (msg_bytes [demo_optional, param_emitted demo_param])))
     \<lparr>tt_state := TNEP_STATE_SERVICE_READY\<rparr>"

definition demo_select :: "u8 list" where
  "demo_select = msg_bytes [select_emitted demo_param]"

definition demo_rx :: tnep_tag where
  "demo_rx = demo_ready\<lparr>tt_rx_len := 11, tt_rx_data := Some demo_select,
     tt_msg_rx := \<lparr>sig_signaled = True, sig_result = TNEP_EVENT_MSG_RX_NEW\<rparr>, tt_events := Some [True, False]\<rparr>"

definition demo_selected :: tnep_tag where
  "demo_selected = tnep_emit ((handed (demo_rx\<lparr>tt_msg_rx := \<lparr>sig_signaled = False, sig_result = TNEP_EVENT_MSG_RX_NEW\<rparr>,
       tt_events := Some [False, False]\<rparr>) 0 (put_be16 62 @ replicate 62 0))
     \<lparr>tt_svc_active := Some 0, tt_app_data_expected := True, tt_state := TNEP_STATE_SERVICE_SELECTED\<rparr>) (Svc_Selected 0)"

lemma demo_idle_reached: "tnep_reach demo_env demo_idle"
proof -
  let ?z = "tnep_zero (\<lambda>_. replicate 64 0)"
  let ?s = "?z\<lparr>tt_tx_data := Some 0, tt_tx_swap := Some 1, tt_tx_len := 64\<rparr>"
  have "tnep_reach demo_env ?s"
    by (rule tnep_reach.call [OF tnep_reach.zero, of demo_env "\<lambda>_. replicate 64 0" "Buffer_Register (Some 0) (Some 1) 64" _ None])
      (simp_all add: tnep_call_ok_def buf_arg_ok_def tnep_exec_def nfc_tnep_tag_tx_msg_buffer_register_def tnep_zero_def)
  then show ?thesis
    by (rule tnep_reach.call [where c = "Tag_Init (Some [True, True]) 2 True" and r = None])
      (simp_all add: tnep_call_ok_def tnep_exec_def nfc_tnep_tag_init_def demo_idle_def tnep_zero_def)
qed

lemma demo_optional_ok: "list_all emits [demo_optional]" "emitted_size [demo_optional, param_emitted demo_param] = 28"
proof -
  show "list_all emits [demo_optional]" using sample_msg_ok(2) by (simp add: sample_emitted_def demo_optional_def)
  have "emitted_size [demo_optional] = 11" by (simp add: emitted_size_def demo_optional_def sample_record_ok)
  moreover have "emitted_size (xs @ ys) = emitted_size xs + emitted_size ys" for xs ys by (simp add: emitted_size_def)
  from this [of "[demo_optional]" "[param_emitted demo_param]"]
  have "emitted_size [demo_optional, param_emitted demo_param] = emitted_size [demo_optional] + 17" by (simp add: demo_size)
  ultimately show "emitted_size [demo_optional, param_emitted demo_param] = 28" by simp
qed

lemma demo_cb_ok: "initial_cb_ok demo_cb"
proof -
  have s: "emitted_size [] + emitted_size [demo_optional] < 2 ^ 31"
    by (simp add: emitted_size_def demo_optional_def sample_record_ok)
  have "\<exists>rs es. msg_holds m rs \<and> map fst es = take (unat (1 :: u32)) [sample_record] \<and> list_all emits es \<and>
      emitted_size rs + emitted_size es < 2 ^ 31" if "msg_holds m []" for m
    using that demo_optional_ok(1) s by (intro exI [where x = "[]"] exI [where x = "[demo_optional]"] conjI) (simp_all add: demo_optional_def)
  then show ?thesis by (simp add: initial_cb_ok_def demo_cb_def)
qed

lemma demo_created_sel:
  "tt_max_records_cnt demo_created = 2" "tt_initial_msg_encode demo_created = Some demo_cb" "tt_svc_cnt demo_created = 1"
  "tt_tx_len demo_created = 64" "next_buff demo_created = Some 1" "tt_data_set demo_created" "tt_mem demo_created 1 = replicate 64 0"
  by (simp_all add: demo_created_def demo_idle_def tnep_zero_def next_buff_def)

lemma demo_records:
  "initial_records demo_env demo_created [demo_optional, param_emitted demo_param]"
  "image_fits (te_t4t demo_env) (unat (tt_tx_len demo_created)) (emitted_size [demo_optional, param_emitted demo_param])"
proof -
  have a: "msg_holds (initial_area demo_created) []" "unat (msg_max_record_count (initial_area demo_created)) = 3"
      "msg_record_count (initial_area demo_created) = 0"
    using initial_area_holds [of demo_created]
    by (simp_all add: demo_created_sel initial_area_def tnep_tx_msg_clear_def nfc_ndef_msg_clear_def)
  let ?m = "initial_area demo_created"
  have "\<exists>rs es. msg_holds ?m rs \<and> list_all emits es \<and> (1 \<le> (1 :: u32) \<and> unat (1 :: u32) \<le> length [sample_record] \<and>
        map fst es = take (unat (1 :: u32)) [sample_record]) \<and> 1 \<le> 2 - (msg_record_count ?m + 1) \<and>
      length rs + length es + length (te_svcs demo_env) \<le> unat (msg_max_record_count ?m) \<and>
      [demo_optional, param_emitted demo_param] = rs @ es @ map svc_emitted (te_svcs demo_env)"
    using a demo_optional_ok(1)
    by (intro exI [where x = "[]"] exI [where x = "[demo_optional]"] conjI) (simp_all add: demo_optional_def demo_emitted)
  then show "initial_records demo_env demo_created [demo_optional, param_emitted demo_param]"
    by (simp add: initial_records_def demo_created_sel demo_cb_def)
  show "image_fits (te_t4t demo_env) (unat (tt_tx_len demo_created)) (emitted_size [demo_optional, param_emitted demo_param])"
    by (simp add: image_fits_def demo_optional_ok(2) demo_created_sel)
qed

lemma demo_created_inv: "tag_base demo_env demo_created"
  using demo_cb_ok by (simp add: demo_created_def demo_idle_def tnep_zero_def tag_base_def bufs_ok_def rx_pending_def)

lemma demo_ready_reached: "tnep_reach demo_env demo_ready"
proof (rule tnep_reach.call [OF demo_idle_reached, where c = "Initial_Msg_Create 2 (Some demo_cb)" and r = None])
  have "tnep_tx_initial_msg_set demo_env demo_created =
      Inr (handed demo_created 1 (ndef_image True 64 (msg_bytes [demo_optional, param_emitted demo_param])), None)"
    using initial_msg_set_fits [OF demo_created_inv demo_created_sel(6) demo_env_ok _ demo_created_sel(5) demo_records]
    by (simp add: demo_created_sel(4) demo_created_sel(7) [simplified])
  moreover have "tt_svc_cnt demo_idle = 1" by (simp add: demo_idle_def)
  ultimately show "tnep_exec demo_env demo_idle (Initial_Msg_Create 2 (Some demo_cb)) = Inr (demo_ready, None)"
    by (simp add: tnep_exec_def nfc_tnep_tag_initial_msg_create_def demo_ready_def demo_created_def)
qed (simp add: tnep_call_ok_def demo_cb_ok)

text \<open>With room for one additional record the code refuses this record: it counts the services against the
  additional records.\<close>

lemma initial_limit_refuses:
  "nfc_tnep_tag_initial_msg_create demo_env demo_idle 1 (Some demo_cb) =
     Inr (demo_idle\<lparr>tt_max_records_cnt := 1, tt_initial_msg_encode := Some demo_cb\<rparr>, Some ENOMEM)"
  by (simp add: nfc_tnep_tag_initial_msg_create_def tnep_tx_initial_msg_set_def nfc_tnep_initial_msg_encode_def Let_def demo_cb_def
      demo_idle_def tnep_tx_msg_clear_def nfc_ndef_msg_clear_def)

lemma demo_requested:
  "rx_ok demo_select 11" "tnep_request demo_env demo_select 11 = Req_Select 11 0" "length demo_select = 11"
proof -
  have "emitted_size [select_emitted demo_param] = 11"
    by (subst select_size) (simp_all add: demo_param_def)
  then show l: "length demo_select = 11" by (simp add: demo_select_def length_msg_bytes)
  have "same_param (svc_parameters (te_svcs demo_env ! 0)) demo_param" by (simp add: same_param_def demo_svc_def)
  note p = this
  have c: "distinct (map svc_uri (te_svcs demo_env))" "0 < length (te_svcs demo_env)" "0 < te_rx_max_record_cnt demo_env"
      "unat (te_rx_max_record_cnt demo_env) \<le> 8192"
    by simp_all
  have "rx_ok demo_select (of_nat (length demo_select)) \<and>
      tnep_request demo_env demo_select (of_nat (length demo_select)) = Req_Select (of_nat (length demo_select)) 0"
    unfolding demo_select_def by (rule select_requested [OF demo_env_ok c(3,4,1,2) p])
  then show "rx_ok demo_select 11" "tnep_request demo_env demo_select 11 = Req_Select 11 0"
    unfolding l by simp_all
qed

lemma demo_rx_reached: "tnep_reach demo_env demo_rx"
proof -
  have r: "tnep_reach demo_env (nfc_tnep_tag_rx_msg_indicate demo_ready (Some demo_select) 11)"
    by (rule tnep_reach.call [OF demo_ready_reached, where c = "Rx_Indicate (Some demo_select) 11" and r = None])
      (simp_all add: tnep_call_ok_def tnep_exec_def demo_requested)
  have "tnep_k_poll (nfc_tnep_tag_rx_msg_indicate demo_ready (Some demo_select) 11) = demo_rx"
    by (simp add: nfc_tnep_tag_rx_msg_indicate_def tnep_k_poll_def demo_rx_def demo_ready_def handed_def tnep_emit_def
        demo_created_def demo_idle_def tnep_zero_def)
  then show ?thesis
    by (intro tnep_reach.call [OF r, of K_Poll _ None]) (simp_all add: tnep_call_ok_def tnep_exec_def)
qed

lemma demo_ready_sel:
  "tt_state demo_ready = TNEP_STATE_SERVICE_READY" "tt_svc_active demo_ready = None" "tt_data_set demo_ready" "tt_current_buff demo_ready = Some 1"
  "tt_tx_data demo_ready = Some 0" "tt_tx_swap demo_ready = Some 1" "tt_tx_len demo_ready = 64" "length (tt_mem demo_ready a) = 64"
  "tt_events demo_ready = Some [False, False]" "\<not> sig_signaled (tt_msg_tx demo_ready)" "initial_fits demo_env demo_ready" "tnep_calls demo_ready = []"
proof -
  have "length (ndef_image True 64 (msg_bytes [demo_optional, param_emitted demo_param])) = 64"
    by (simp add: ndef_image_def length_msg_bytes demo_optional_ok(2))
  then show "length (tt_mem demo_ready a) = 64" by (simp add: demo_ready_def handed_def tnep_emit_def demo_created_def demo_idle_def tnep_zero_def)
  have "initial_fits demo_env demo_created" using demo_records by (auto simp: initial_fits_def)
  moreover have "initial_fits demo_env demo_ready = initial_fits demo_env demo_created"
    by (rule initial_fits_cong) (simp_all add: demo_ready_def handed_def tnep_emit_def)
  ultimately show "initial_fits demo_env demo_ready" by simp
qed (simp_all add: demo_ready_def handed_def tnep_emit_def demo_created_def demo_idle_def tnep_zero_def tnep_calls_def)

lemma demo_selected_reached: "tnep_reach demo_env demo_selected"
proof (rule tnep_reach.call [OF demo_rx_reached, where c = Process and r = None])
  let ?s0 = "demo_rx\<lparr>tt_msg_rx := \<lparr>sig_signaled = False, sig_result = TNEP_EVENT_MSG_RX_NEW\<rparr>, tt_events := Some [False, False]\<rparr>"
  let ?s1 = "handed ?s0 0 (put_be16 62 @ replicate 62 0)"
  have z: "drop 64 (tt_mem demo_ready 0) = []" by (simp add: demo_ready_sel)
  have e: "tnep_tx_msg_encode demo_env ?s0 None = Inr (?s1, None)"
    by (simp add: tnep_tx_msg_encode_def tnep_area_encode_def demo_rx_def demo_ready_sel mem_write_0 z handed_def
        nfc_t4t_ndef_file_encode_def Let_def)
  have c: "tnep_svc_select_from_msg demo_env ?s1 = Inr (chosen ?s1 (Req_Select 11 0))"
    using select_from_msg_chosen [OF demo_env_ok, of ?s1 demo_select] demo_requested
    by (simp add: handed_def tnep_emit_def demo_rx_def)
  have cb: "scb_selected (svc_callbacks demo_svc) = Some []" by (simp add: demo_svc_def)
  have "tnep_process_event demo_env demo_rx 0 = Inr demo_selected"
    using e c cb by (simp add: tnep_process_event_def tnep_state_machine_def tnep_sm_service_ready_def demo_rx_def demo_ready_sel
        chosen_def service_ready_rx_status_process_def tnep_error_check_def tnep_callback_def demo_selected_def)
      (simp add: handed_def tnep_emit_def)
  then show "tnep_exec demo_env demo_rx Process = Inr (demo_selected, None)"
    by (simp add: tnep_exec_def nfc_tnep_tag_process_def tnep_process_event_def) (simp add: demo_selected_def handed_def tnep_emit_def)
qed (simp add: tnep_call_ok_def demo_rx_def)

text \<open>The answer of the application, with one record whose type has one byte, and room for the status record.\<close>

definition demo_answer :: nfc_ndef_msg_desc where
  "demo_answer = \<lparr>msg_record = Some [Some sample_record, None],
     msg_max_record_count = 2, msg_record_count = 1\<rparr>"

lemma demo_answer_holds: "msg_holds demo_answer [demo_optional]" "unat (msg_max_record_count demo_answer) = 2"
  using demo_optional_ok(1)
  by (simp_all add: msg_holds_def msg_inv_def msg_records_def demo_answer_def) (simp add: demo_optional_def)

lemma demo_selected_sel:
  "tt_state demo_selected = TNEP_STATE_SERVICE_SELECTED" "tt_app_data_expected demo_selected" "tt_current_buff demo_selected = Some 0"
  "tt_tx_data demo_selected = Some 0" "tt_tx_swap demo_selected = Some 1" "tt_tx_len demo_selected = 64"
  by (simp_all add: demo_selected_def handed_def tnep_emit_def demo_rx_def demo_ready_sel)

lemma demo_answer_facts:
  "length (answer_records 0 [demo_optional]) < unat (msg_max_record_count demo_answer)"
  "image_fits (te_t4t demo_env) (unat (tt_tx_len demo_selected)) (emitted_size (answer_records 0 [demo_optional]) + 9)"
  "list_all parseable (answer_records 0 [demo_optional])" "list_all not_status (answer_records 0 [demo_optional])"
proof -
  have "emitted_size [demo_optional] = 11" by (simp add: emitted_size_def demo_optional_def sample_record_ok)
  then show "image_fits (te_t4t demo_env) (unat (tt_tx_len demo_selected)) (emitted_size (answer_records 0 [demo_optional]) + 9)"
    by (simp add: image_fits_def demo_selected_sel answer_records_def)
  show "list_all not_status (answer_records 0 [demo_optional])"
    by (simp add: answer_records_def not_status_def demo_optional_def sample_record_def)
  show "list_all parseable (answer_records 0 [demo_optional])"
    using sample_record_ok(1) by (simp add: answer_records_def parseable_def demo_optional_def record_tnf_ok_def) (simp add: sample_record_def)
qed (simp add: answer_records_def demo_answer_holds)

section \<open>A record that is too long\<close>

text \<open>A message of six bytes with the header of a record that announces a type of 2 and a payload of \<open>2 ^ 32 - 6\<close> bytes:
  the lengths sum up to 2, so the parser accepts it, and its type begins where the message ends. A
  poller that sends it makes the tag read behind the message.\<close>

definition overlong_msg :: "u8 list" where
  "overlong_msg = [0xC1, 2, 0xFF, 0xFF, 0xFF, 0xFA]"

lemma overlong_parsed:
  obtains msg used k r where "nfc_ndef_msg_parse (te_abi demo_env) (te_recs0 demo_env) (tnep_desc_buf_len demo_env) overlong_msg 6 =
      Inr (msg, used, k)" "msg_records msg = [Some r]" "rec_type r = Some []" "rec_type_length r = 2"
proof -
  let ?r = "\<lparr>rec_tnf = 1, rec_id_length = 0, rec_id = None, rec_type_length = 2, rec_type = Some [],
     rec_payload = Payload_Bin \<lparr>bin_payload = Some [], bin_payload_length = 0xFFFFFFFA\<rparr>\<rparr>"
  have p: "nfc_ndef_record_parse old overlong_msg 6 =
      Inr (\<lparr>bin_payload = Some [], bin_payload_length = 0xFFFFFFFA\<rparr>, ?r, NDEF_LONE_RECORD, 2)" for old
    by (simp add: nfc_ndef_record_parse_def overlong_msg_def mem_byte_def get_be32_def be32_def Let_def)
  obtain msg0 used where mr: "nfc_ndef_msg_parser_memo_resolve (te_abi demo_env) (tnep_desc_buf_len demo_env) = Inr (2, msg0, used)"
    using memo_resolve_sized [of "te_abi demo_env" 2] demo_env_ok by (auto simp: tnep_desc_buf_len_def env_ok_def)
  have l: "unat (6 :: u32) \<le> length overlong_msg" by (simp add: overlong_msg_def)
  have n0: "0 < (2 :: u32)" by simp
  note inv = memo_resolve_parser_inv [OF mr n0 l]
  have c: "msg_inv msg0" "msg_record_count msg0 < msg_max_record_count msg0" using inv(1) by (simp_all add: parser_inv_def)
  obtain msg where a: "nfc_ndef_msg_record_add msg0 (Some ?r) = Inr msg" "msg_records msg = [Some ?r]"
    using msg_records_add [OF c, of "Some ?r"] inv(2) by auto
  have "msg_parser_loop (te_recs0 demo_env) 2 msg0 0 overlong_msg 6 = Inr (msg, 4)"
    using a(1) inv(3) by (subst msg_parser_loop.simps) (simp add: p)
  then show ?thesis using a(2) mr by (intro that [of msg used "6 - 4" ?r]) (simp_all add: nfc_ndef_msg_parse_def nfc_ndef_msg_parser_internal_def)
qed

lemma overlong_record_ub:
  "\<not> lengths_ok overlong_msg"
  "tnep_run demo_env demo_ready [Rx_Indicate (Some overlong_msg) 6, K_Poll, Process] = Inl UB"
proof -
  show "\<not> lengths_ok overlong_msg"
    by (subst lengths_ok.simps)
      (simp add: overlong_msg_def header_length_def short_record_def announced_payload_def be32_def)
  let ?rx = "tnep_k_poll (nfc_tnep_tag_rx_msg_indicate demo_ready (Some overlong_msg) 6)"
  let ?s0 = "?rx\<lparr>tt_msg_rx := \<lparr>sig_signaled = False, sig_result = TNEP_EVENT_MSG_RX_NEW\<rparr>, tt_events := Some [False, False]\<rparr>"
  have rx: "?rx = demo_ready\<lparr>tt_rx_len := 6, tt_rx_data := Some overlong_msg,
     tt_msg_rx := \<lparr>sig_signaled = True, sig_result = TNEP_EVENT_MSG_RX_NEW\<rparr>, tt_events := Some [True, False]\<rparr>"
    by (simp add: nfc_tnep_tag_rx_msg_indicate_def tnep_k_poll_def demo_ready_sel)
  have e: "tnep_tx_msg_encode demo_env ?s0 None = Inr (handed ?s0 0 (put_be16 62 @ replicate 62 0), None)"
    by (simp add: tnep_tx_msg_encode_def tnep_area_encode_def rx demo_ready_sel mem_write_0 handed_def
        nfc_t4t_ndef_file_encode_def Let_def)
  obtain msg used k r where "nfc_ndef_msg_parse (te_abi demo_env) (te_recs0 demo_env) (tnep_desc_buf_len demo_env) overlong_msg 6 =
      Inr (msg, used, k)" "msg_records msg = [Some r]" "rec_type r = Some []" "rec_type_length r = 2"
    by (rule overlong_parsed)
  then have u: "tnep_svc_select_from_msg demo_env (handed ?s0 0 d) = Inl UB" for d
    by (simp add: tnep_svc_select_from_msg_def handed_def tnep_emit_def rx ndef_check_rec_type_def mem_read_def)
  have "nfc_tnep_tag_process demo_env ?rx = Inl UB"
    using e u by (simp add: nfc_tnep_tag_process_def tnep_process_event_def tnep_state_machine_def tnep_sm_service_ready_def rx demo_ready_sel)
  then show "tnep_run demo_env demo_ready [Rx_Indicate (Some overlong_msg) 6, K_Poll, Process] = Inl UB"
    by (simp add: tnep_run_def tnep_exec_def)
qed

section \<open>The properties at this tag\<close>


theorem tnep_tag_refines_witness:
  "\<exists>s'. nfc_tnep_tag_process demo_env demo_rx = Inr s' \<and> tnep_abs s' = (TNEP_STATE_SERVICE_SELECTED, Some 0) \<and>
     tnep_calls s' = [Svc_Selected 0]"
proof -
  have f: "initial_fits demo_env demo_rx" "tt_events demo_rx = Some [True, False]" "tt_rx_data demo_rx = Some demo_select"
      "tt_rx_len demo_rx = 11" "tnep_abs demo_rx = (TNEP_STATE_SERVICE_READY, None)" "tnep_calls demo_rx = []"
    using demo_ready_sel by (simp_all add: demo_rx_def tnep_abs_def tnep_calls_def)
  from tnep_tag_refines [OF demo_env_ok demo_rx_reached f(1,2)] f demo_requested(2)
  show ?thesis by (auto simp: simulates_def)
qed

theorem tnep_app_data_answers_witness:
  "\<exists>s' b'. nfc_tnep_tag_tx_msg_app_data demo_env demo_selected (Some demo_answer) 0 = Inr (s', None) \<and>
    b' \<noteq> 0 \<and> take 64 (tt_mem s' b') = ndef_image True 64
      (msg_bytes [demo_optional, (NFC_TNEP_STATUS_RECORD_DESC_DEF 0, [0])]) \<and>
    nfc_tnep_tag_tx_msg_no_app_data demo_env s' = Inr (s', Some EACCES)"
  using tnep_app_data_answers [OF demo_env_ok demo_selected_reached demo_selected_sel(1,2) _ demo_selected_sel(3) demo_answer_holds(1)
      demo_answer_facts(1,2), of demo_answer 0]
  by (simp add: demo_selected_sel answer_records_def) blast

theorem tnep_select_exchange_witness:
  "\<exists>p' d t'. nfc_tnep_poller_svc_select demo_poller_env 0 demo_poller (Some \<lparr>tbuf_data = Some 1, tbuf_size = 64\<rparr>) (Some 7) 256 = Inr (p', None) \<and>
     tp_log p' = [Ndef_Update d (of_nat (length d))] \<and>
     tnep_run demo_env demo_ready [Rx_Indicate (Some (drop 2 d)) (of_nat (length d - 2)), K_Poll, Process] = Inr t' \<and>
     tt_svc_active t' = Some 0 \<and> tnep_calls t' = [Svc_Selected 0]"
proof -
  have c: "can_select demo_poller \<lparr>tbuf_data = Some 1, tbuf_size = 64\<rparr> 7 256"
    by (simp add: can_select_def demo_poller_def demo_param_def image_fits_def)
  have a: "tp_api demo_poller = Some \<lparr>api_ndef_read = Some (\<lambda>_ _. None), api_ndef_update = Some (\<lambda>_ _. None)\<rparr>"
      "same_param (svc_parameters (te_svcs demo_env ! 0)) (tp_params demo_poller 7)" "tp_type demo_poller = NFC_TNEP_TAG_TYPE_T4T"
      "tp_log demo_poller = []"
    by (simp_all add: demo_poller_def same_param_def demo_svc_def)
  from tnep_select_exchange [OF demo_env_ok _ _ _ _ demo_ready_reached demo_ready_sel(1,11,9) _ demo_ready_sel(10) c a(1) _ a(2),
      of "\<lambda>_ _. None" demo_poller_env 0]
  show ?thesis using a(3,4) demo_ready_sel(12) by (simp add: ndef_of_file_def) blast
qed

theorem tnep_answer_exchange_witness:
  "\<exists>t' b p' rs'. nfc_tnep_tag_tx_msg_app_data demo_env demo_selected (Some demo_answer) 0 = Inr (t', None) \<and>
     (let (data, len) = served True (take 64 (tt_mem t' b)) in
        nfc_tnep_poller_on_ndef_read demo_poller_env 0 0 demo_poller data len = Inr (p', None)) \<and>
     tp_log p' = [Poll_Selected (Some 5) (Some \<lparr>pmsg_status = 0, pmsg_records = map Some rs'\<rparr>) False] \<and>
     list_all2 describes rs' [demo_optional, (NFC_TNEP_STATUS_RECORD_DESC_DEF 0, [0])]"
proof -
  have p: "tp_cb demo_poller = Some \<lparr>pcb_svc_selected = True, pcb_svc_deselected = True, pcb_svc_received = True, pcb_svc_sent = True, pcb_error = True\<rparr>"
      "tp_state demo_poller = TNEP_POLLER_STATE_SELECTING" "tp_active_svc demo_poller = Some 5" "tp_log demo_poller = []"
      "abi_ok (pe_abi demo_poller_env)" "pe_rx_max_record_cnt demo_poller_env = 2"
    using sample_abi_ok(1) by (simp_all add: demo_poller_def demo_poller_env_def)
  from tnep_answer_exchange [OF demo_env_ok demo_selected_reached demo_selected_sel(1,2) demo_answer_holds(1) demo_answer_facts p(1) _ p(5),
      of 0 0]
  show ?thesis using p by (simp add: demo_selected_sel answer_records_def) (elim exE conjE, intro exI conjI, assumption+)
qed

end
