(* ===== verification/At_Params.thy ===== *)
theory At_Params
  imports Nfc_Prelude
begin

text \<open>
  The parameter lists of the AT command library (\<open>lib/at_cmd_parser/at_params.c\<close>, \<open>include/modem/at_params.h\<close>).

  A parameter is a tagged union; strings and arrays live in heap blocks that the list owns. The heap of the
  kernel is a parameter \<open>K\<close>: which address and which contents the next request gets, or none. What
  is live is the map \<open>hp_blocks\<close>, and freeing an address that is not live is undefined. An operation
  returns the heap and the list together with its return value (\<open>None\<close> for 0).
\<close>

section \<open>Heap\<close>

record at_heap =
  hp_blocks :: "nat \<Rightarrow> u8 list option"
  hp_time :: nat

type_synonym k_heap = "nat \<Rightarrow> at_heap \<Rightarrow> nat \<Rightarrow> (nat \<times> u8 list) option"

definition k_malloc :: "k_heap \<Rightarrow> at_heap \<Rightarrow> nat \<Rightarrow> at_heap \<times> nat option" where
  "k_malloc K h n = (let h' = h\<lparr>hp_time := Suc (hp_time h)\<rparr> in case K (hp_time h) h n of None \<Rightarrow> (h', None)
     | Some (a, bs) \<Rightarrow> (h'\<lparr>hp_blocks := (hp_blocks h)(a := Some bs)\<rparr>, Some a))"

definition k_free :: "at_heap \<Rightarrow> nat \<Rightarrow> at_heap res" where
  "k_free h a = (if hp_blocks h a = None then Inl UB else Inr (h\<lparr>hp_blocks := (hp_blocks h)(a := None)\<rparr>))"

text \<open>The documented behaviour of the kernel's allocator: a block of the size asked for that is not in use.\<close>

definition k_heap_ok :: "k_heap \<Rightarrow> bool" where
  "k_heap_ok K \<longleftrightarrow> (\<forall>t h n a bs. K t h n = Some (a, bs) \<longrightarrow> hp_blocks h a = None \<and> length bs = n)"

section \<open>Parameters\<close>

datatype at_param_type =
    AT_PARAM_TYPE_INVALID | AT_PARAM_TYPE_NUM_SHORT | AT_PARAM_TYPE_NUM_INT
  | AT_PARAM_TYPE_STRING | AT_PARAM_TYPE_ARRAY | AT_PARAM_TYPE_EMPTY

text \<open>The array of parameters is the block at \<open>al_addr\<close>; its elements are \<open>al_params\<close>, \<open>None\<close> for NULL. The union: an integer or a pointer to a heap block; the integer 0 is also the NULL pointer.\<close>

datatype at_param_value = Int_Val u32 | Ptr_Val nat

record at_param =
  ap_type :: at_param_type
  ap_size :: u32
  ap_value :: at_param_value

record at_param_list =
  al_count :: u32
  al_addr :: nat
  al_params :: "at_param list option"

type_synonym at_mem = "at_heap \<times> at_param_list option"
type_synonym at_outcome = "(at_mem \<times> err option) res"

definition at_param_init :: "at_param \<Rightarrow> at_param" where
  "at_param_init param = \<lparr>ap_type = AT_PARAM_TYPE_INVALID, ap_size = 0, ap_value = Int_Val 0\<rparr>"

definition is_heap_type :: "at_param_type \<Rightarrow> bool" where
  "is_heap_type t \<longleftrightarrow> t = AT_PARAM_TYPE_STRING \<or> t = AT_PARAM_TYPE_ARRAY"

definition at_param_clear :: "at_heap \<Rightarrow> at_param \<Rightarrow> (at_heap \<times> at_param) res" where
  "at_param_clear h param =
     bindE (if is_heap_type (ap_type param) then
              (case ap_value param of Ptr_Val a \<Rightarrow> k_free h a | Int_Val v \<Rightarrow> if v = 0 then Inr h else Inl UB)
            else Inr h)
       (\<lambda>h. Inr (h, param\<lparr>ap_value := Int_Val 0\<rparr>))"

text \<open>A pointer into the array of parameters is the index; an access outside the array is undefined.\<close>

definition at_params_get :: "at_param_list \<Rightarrow> u32 \<Rightarrow> nat option" where
  "at_params_get list index = (if index \<ge> al_count list then None else Some (unat index))"

definition at_param_at :: "at_param_list \<Rightarrow> nat \<Rightarrow> at_param res" where
  "at_param_at list i = (case al_params list of None \<Rightarrow> Inl UB
     | Some ps \<Rightarrow> if i < length ps then Inr (ps ! i) else Inl UB)"

definition at_param_set :: "at_param_list \<Rightarrow> nat \<Rightarrow> at_param \<Rightarrow> at_param_list" where
  "at_param_set list i p = list\<lparr>al_params := map_option (\<lambda>ps. ps[i := p]) (al_params list)\<rparr>"

definition at_param_size :: "at_param \<Rightarrow> u32" where
  "at_param_size param = (case ap_type param of
     AT_PARAM_TYPE_NUM_SHORT \<Rightarrow> 2 | AT_PARAM_TYPE_NUM_INT \<Rightarrow> 4
   | AT_PARAM_TYPE_STRING \<Rightarrow> ap_size param | AT_PARAM_TYPE_ARRAY \<Rightarrow> ap_size param | _ \<Rightarrow> 0)"

section \<open>Lists\<close>

abbreviation sizeof_at_param :: nat where "sizeof_at_param \<equiv> 12"

definition at_params_list_init :: "k_heap \<Rightarrow> at_mem \<Rightarrow> u32 \<Rightarrow> at_mem \<times> err option" where
  "at_params_list_init K = (\<lambda>(h, list) max_params_count. case list of None \<Rightarrow> ((h, None), Some EINVAL)
     | Some l \<Rightarrow> (case k_malloc K h (unat max_params_count * sizeof_at_param) of
         (h, None) \<Rightarrow> ((h, Some (l\<lparr>al_params := None\<rparr>)), Some ENOMEM)
       | (h, Some a) \<Rightarrow> ((h, Some (l\<lparr>al_addr := a, al_params := Some (replicate (unat max_params_count)
             \<lparr>ap_type = AT_PARAM_TYPE_INVALID, ap_size = 0, ap_value = Int_Val 0\<rparr>), al_count := max_params_count\<rparr>)), None)))"

fun at_clear_loop :: "at_heap \<Rightarrow> at_param list \<Rightarrow> nat \<Rightarrow> (at_heap \<times> at_param list) res" where
  "at_clear_loop h ps 0 = Inr (h, ps)"
| "at_clear_loop h [] (Suc n) = Inl UB"
| "at_clear_loop h (p # ps) (Suc n) =
     bindE (at_param_clear h p) (\<lambda>(h, p).
     bindE (at_clear_loop h ps n) (\<lambda>(h, ps). Inr (h, at_param_init p # ps)))"

definition at_params_list_clear :: "at_mem \<Rightarrow> at_mem res" where
  "at_params_list_clear = (\<lambda>(h, list). case list of None \<Rightarrow> Inr (h, None)
     | Some l \<Rightarrow> (case al_params l of None \<Rightarrow> Inr (h, Some l)
         | Some ps \<Rightarrow> bindE (at_clear_loop h ps (unat (al_count l)))
             (\<lambda>(h, ps). Inr (h, Some (l\<lparr>al_params := Some ps\<rparr>)))))"

definition at_params_list_free :: "at_mem \<Rightarrow> at_mem res" where
  "at_params_list_free = (\<lambda>(h, list). case list of None \<Rightarrow> Inr (h, None)
     | Some l \<Rightarrow> if al_params l = None then Inr (h, Some l)
         else bindE (at_params_list_clear (h, list)) (\<lambda>(h, list).
              bindE (k_free h (al_addr l)) (\<lambda>h.
              Inr (h, map_option (\<lambda>l. l\<lparr>al_count := 0, al_params := None\<rparr>) list))))"

section \<open>Storing parameters\<close>

text \<open>The checks all operations start with: the list, its array and the index.\<close>

definition at_slot :: "at_param_list option \<Rightarrow> u32 \<Rightarrow> (at_param_list \<times> nat) option" where
  "at_slot list index = (case list of None \<Rightarrow> None
     | Some l \<Rightarrow> if al_params l = None then None else map_option (Pair l) (at_params_get l index))"

text \<open>Clearing a parameter and writing its new fields.\<close>

definition at_store :: "at_heap \<Rightarrow> at_param_list \<Rightarrow> nat \<Rightarrow> (at_param \<Rightarrow> at_param) \<Rightarrow> at_outcome" where
  "at_store h l i f =
     bindE (at_param_at l i) (\<lambda>p.
     bindE (at_param_clear h p) (\<lambda>(h, p).
     Inr ((h, Some (at_param_set l i (f p))), None)))"

definition at_params_short_put :: "at_mem \<Rightarrow> u32 \<Rightarrow> u16 \<Rightarrow> at_outcome" where
  "at_params_short_put = (\<lambda>(h, list) index value. case at_slot list index of None \<Rightarrow> Inr ((h, list), Some EINVAL)
     | Some (l, i) \<Rightarrow> at_store h l i (\<lambda>p. p\<lparr>ap_type := AT_PARAM_TYPE_NUM_SHORT, ap_value := Int_Val (ucast value)\<rparr>))"

definition at_params_empty_put :: "at_mem \<Rightarrow> u32 \<Rightarrow> at_outcome" where
  "at_params_empty_put = (\<lambda>(h, list) index. case at_slot list index of None \<Rightarrow> Inr ((h, list), Some EINVAL)
     | Some (l, i) \<Rightarrow> at_store h l i (\<lambda>p. p\<lparr>ap_type := AT_PARAM_TYPE_EMPTY, ap_value := Int_Val 0\<rparr>))"

definition at_params_int_put :: "at_mem \<Rightarrow> u32 \<Rightarrow> u32 \<Rightarrow> at_outcome" where
  "at_params_int_put = (\<lambda>(h, list) index value. case at_slot list index of None \<Rightarrow> Inr ((h, list), Some EINVAL)
     | Some (l, i) \<Rightarrow> at_store h l i (\<lambda>p. p\<lparr>ap_type := AT_PARAM_TYPE_NUM_INT, ap_value := Int_Val value\<rparr>))"

text \<open>Copying \<open>n\<close> bytes into a fresh block of \<open>cap\<close> bytes and storing it with the type \<open>ty\<close>.\<close>

definition at_block_put :: "k_heap \<Rightarrow> at_heap \<Rightarrow> at_param_list \<Rightarrow> nat \<Rightarrow> u8 list \<Rightarrow> u32 \<Rightarrow> u32 \<Rightarrow> at_param_type \<Rightarrow> at_outcome" where
  "at_block_put K h l i src n cap ty = (case k_malloc K h (unat cap) of
     (h, None) \<Rightarrow> Inr ((h, Some l), Some ENOMEM)
   | (h, Some a) \<Rightarrow>
       bindE (mem_read (Some src) (unat n)) (\<lambda>bs.
       bindE (mem_write (the (hp_blocks h a)) 0 bs) (\<lambda>blk.
       at_store (h\<lparr>hp_blocks := (hp_blocks h)(a := Some blk)\<rparr>) l i
         (\<lambda>p. p\<lparr>ap_size := n, ap_type := ty, ap_value := Ptr_Val a\<rparr>))))"

definition at_params_string_put :: "k_heap \<Rightarrow> at_mem \<Rightarrow> u32 \<Rightarrow> ptr \<Rightarrow> u32 \<Rightarrow> at_outcome" where
  "at_params_string_put K = (\<lambda>(h, list) index str str_len. case (at_slot list index, str) of
     (Some (l, i), Some s) \<Rightarrow> at_block_put K h l i s str_len (str_len + 1) AT_PARAM_TYPE_STRING
   | _ \<Rightarrow> Inr ((h, list), Some EINVAL))"

definition at_params_array_put :: "k_heap \<Rightarrow> at_mem \<Rightarrow> u32 \<Rightarrow> ptr \<Rightarrow> u32 \<Rightarrow> at_outcome" where
  "at_params_array_put K = (\<lambda>(h, list) index array array_len. case (at_slot list index, array) of
     (Some (l, i), Some s) \<Rightarrow> at_block_put K h l i s array_len array_len AT_PARAM_TYPE_ARRAY
   | _ \<Rightarrow> Inr ((h, list), Some EINVAL))"

section \<open>Reading parameters\<close>

definition at_params_size_get :: "at_param_list option \<Rightarrow> u32 \<Rightarrow> u32 res" where
  "at_params_size_get list index = (case at_slot list index of None \<Rightarrow> Inl EINVAL
     | Some (l, i) \<Rightarrow> bindE (at_param_at l i) (\<lambda>p. Inr (at_param_size p)))"

definition at_int_val :: "at_param \<Rightarrow> u32 res" where
  "at_int_val p = (case ap_value p of Int_Val v \<Rightarrow> Inr v | Ptr_Val _ \<Rightarrow> Inl UB)"

definition at_params_short_get :: "at_param_list option \<Rightarrow> u32 \<Rightarrow> u16 res" where
  "at_params_short_get list index = (case at_slot list index of None \<Rightarrow> Inl EINVAL
     | Some (l, i) \<Rightarrow> bindE (at_param_at l i) (\<lambda>p.
         if ap_type p \<noteq> AT_PARAM_TYPE_NUM_SHORT then Inl EINVAL
         else bindE (at_int_val p) (\<lambda>v. Inr (ucast v))))"

definition at_params_int_get :: "at_param_list option \<Rightarrow> u32 \<Rightarrow> u32 res" where
  "at_params_int_get list index = (case at_slot list index of None \<Rightarrow> Inl EINVAL
     | Some (l, i) \<Rightarrow> bindE (at_param_at l i) (\<lambda>p.
         if ap_type p \<noteq> AT_PARAM_TYPE_NUM_INT \<and> ap_type p \<noteq> AT_PARAM_TYPE_NUM_SHORT then Inl EINVAL
         else at_int_val p))"

definition at_block_val :: "at_heap \<Rightarrow> at_param \<Rightarrow> u8 list res" where
  "at_block_val h p = (case ap_value p of Int_Val _ \<Rightarrow> Inl UB
     | Ptr_Val a \<Rightarrow> (case hp_blocks h a of None \<Rightarrow> Inl UB | Some b \<Rightarrow> Inr b))"

text \<open>Copying a block into the memory of the caller, whose size is \<open>*len\<close>.\<close>

definition at_block_get ::
    "at_param_type \<Rightarrow> at_mem \<Rightarrow> u32 \<Rightarrow> u8 list option \<Rightarrow> u32 option \<Rightarrow> (u8 list \<times> u32) res" where
  "at_block_get ty = (\<lambda>(h, list) index value plen. case (at_slot list index, value, plen) of
     (Some (l, i), Some mem, Some len) \<Rightarrow> bindE (at_param_at l i) (\<lambda>p.
        if ap_type p \<noteq> ty then Inl EINVAL
        else if len < at_param_size p then Inl ENOMEM
        else bindE (at_block_val h p) (\<lambda>b.
             bindE (mem_read (Some b) (unat (at_param_size p))) (\<lambda>bs.
             bindE (mem_write mem 0 bs) (\<lambda>mem. Inr (mem, at_param_size p)))))
   | _ \<Rightarrow> Inl EINVAL)"

definition at_params_string_get :: "at_mem \<Rightarrow> u32 \<Rightarrow> u8 list option \<Rightarrow> u32 option \<Rightarrow> (u8 list \<times> u32) res" where
  "at_params_string_get = at_block_get AT_PARAM_TYPE_STRING"

definition at_params_array_get :: "at_mem \<Rightarrow> u32 \<Rightarrow> u8 list option \<Rightarrow> u32 option \<Rightarrow> (u8 list \<times> u32) res" where
  "at_params_array_get = at_block_get AT_PARAM_TYPE_ARRAY"

fun at_valid_loop :: "at_param list \<Rightarrow> nat \<Rightarrow> u32 \<Rightarrow> u32 res" where
  "at_valid_loop ps 0 i = Inr i"
| "at_valid_loop [] (Suc n) i = Inl UB"
| "at_valid_loop (p # ps) (Suc n) i = (if ap_type p = AT_PARAM_TYPE_INVALID then Inr i else at_valid_loop ps n (i + 1))"

text \<open>The error is returned as an unsigned number, \<open>-EINVAL\<close>.\<close>

definition at_params_valid_count_get :: "at_param_list option \<Rightarrow> u32 res" where
  "at_params_valid_count_get list = (case list of None \<Rightarrow> Inr (- 22)
     | Some l \<Rightarrow> (case al_params l of None \<Rightarrow> Inr (- 22) | Some ps \<Rightarrow> at_valid_loop ps (unat (al_count l)) 0))"

definition at_params_type_get :: "at_param_list option \<Rightarrow> u32 \<Rightarrow> at_param_type res" where
  "at_params_type_get list index = (case at_slot list index of None \<Rightarrow> Inr AT_PARAM_TYPE_INVALID
     | Some (l, i) \<Rightarrow> bindE (at_param_at l i) (\<lambda>p. Inr (ap_type p)))"

section \<open>Ownership\<close>

text \<open>A parameter agrees with its tag: strings and arrays point to a live block that is large enough, numbers and
  empty parameters have no block.\<close>

fun at_ptr :: "at_param_value \<Rightarrow> nat list" where
  "at_ptr (Ptr_Val a) = [a]"
| "at_ptr (Int_Val v) = []"

definition owned :: "at_param list \<Rightarrow> nat list" where
  "owned ps = concat (map (\<lambda>p. at_ptr (ap_value p)) ps)"

definition at_typed :: "at_heap \<Rightarrow> at_param \<Rightarrow> bool" where
  "at_typed h p \<longleftrightarrow> (if is_heap_type (ap_type p)
     then \<exists>a b. ap_value p = Ptr_Val a \<and> hp_blocks h a = Some b \<and> unat (ap_size p) \<le> length b
     else \<exists>v. ap_value p = Int_Val v \<and> (ap_type p = AT_PARAM_TYPE_NUM_SHORT \<longrightarrow> v \<le> 0xFFFF))"

text \<open>The list owns its array and the blocks of its parameters, each once; \<open>F\<close> are the other live blocks.\<close>

definition at_inv :: "nat set \<Rightarrow> at_mem \<Rightarrow> bool" where
  "at_inv F = (\<lambda>(h, list). case list of None \<Rightarrow> dom (hp_blocks h) = F
     | Some l \<Rightarrow> (case al_params l of None \<Rightarrow> dom (hp_blocks h) = F
         | Some ps \<Rightarrow> length ps = unat (al_count l) \<and> list_all (at_typed h) ps \<and>
             distinct (al_addr l # owned ps) \<and> F \<inter> set (al_addr l # owned ps) = {} \<and>
             dom (hp_blocks h) = F \<union> set (al_addr l # owned ps)))"

lemma owned_simps [simp]:
  "owned [] = []" "owned (p # ps) = at_ptr (ap_value p) @ owned ps" "owned (ps @ qs) = owned ps @ owned qs"
  by (simp_all add: owned_def)

lemma at_typed_ptr: "at_typed h p \<Longrightarrow> at_ptr (ap_value p) = (if is_heap_type (ap_type p) then [case ap_value p of Ptr_Val a \<Rightarrow> a] else [])"
  by (auto simp: at_typed_def split: if_splits)

lemma at_typed_cong:
  assumes "at_typed h p" "\<And>a. a \<in> set (at_ptr (ap_value p)) \<Longrightarrow> hp_blocks h' a = hp_blocks h a"
  shows "at_typed h' p"
  using assms by (auto simp: at_typed_def split: if_splits)

text \<open>Clearing a parameter frees its block.\<close>

lemma clear_typed:
  assumes "at_typed h p"
  shows "at_param_clear h p = Inr (h\<lparr>hp_blocks := (\<lambda>a. if a \<in> set (at_ptr (ap_value p)) then None else hp_blocks h a)\<rparr>,
    p\<lparr>ap_value := Int_Val 0\<rparr>)"
  using assms by (auto simp: at_typed_def at_param_clear_def k_free_def fun_upd_def split: if_splits)

definition drop_blocks :: "nat set \<Rightarrow> at_heap \<Rightarrow> at_heap" where
  "drop_blocks A h = h\<lparr>hp_blocks := (\<lambda>a. if a \<in> A then None else hp_blocks h a)\<rparr>"

lemma drop_blocks_simps [simp]:
  "hp_blocks (drop_blocks A h) a = (if a \<in> A then None else hp_blocks h a)"
  "hp_time (drop_blocks A h) = hp_time h" "drop_blocks {} h = h"
  "drop_blocks A (drop_blocks B h) = drop_blocks (A \<union> B) h"
  by (auto simp: drop_blocks_def fun_eq_iff)

lemma dom_drop_blocks [simp]: "dom (hp_blocks (drop_blocks A h)) = dom (hp_blocks h) - A"
  by (auto simp: dom_def)

lemma clear_eq:
  "at_typed h p \<Longrightarrow> at_param_clear h p = Inr (drop_blocks (set (at_ptr (ap_value p))) h, p\<lparr>ap_value := Int_Val 0\<rparr>)"
  using clear_typed [of h p] by (simp add: drop_blocks_def)

lemma typed_others:
  assumes "list_all (at_typed h) ps" "set (owned ps) \<inter> A = {}"
  shows "list_all (at_typed (drop_blocks A h)) ps"
  unfolding list_all_iff
proof
  fix p assume p: "p \<in> set ps"
  then have "set (at_ptr (ap_value p)) \<subseteq> set (owned ps)" by (auto simp: owned_def)
  then have "a \<notin> A" if "a \<in> set (at_ptr (ap_value p))" for a using that assms(2) by blast
  moreover have "at_typed h p" using p assms(1) by (simp add: list_all_iff)
  ultimately show "at_typed (drop_blocks A h) p" using at_typed_cong [of h p "drop_blocks A h"] by simp
qed

lemma clear_loop_eq:
  assumes "list_all (at_typed h) ps" "distinct (owned ps)"
  shows "at_clear_loop h ps (length ps) = Inr (drop_blocks (set (owned ps)) h, map at_param_init ps)"
  using assms
proof (induction ps arbitrary: h)
  case (Cons p ps)
  let ?h = "drop_blocks (set (at_ptr (ap_value p))) h"
  have "list_all (at_typed ?h) ps" using Cons.prems by (intro typed_others) auto
  from Cons.IH [OF this] Cons.prems show ?case
    by (simp add: clear_eq at_param_init_def Un_commute)
qed simp

definition at_blank :: at_param where
  "at_blank = \<lparr>ap_type = AT_PARAM_TYPE_INVALID, ap_size = 0, ap_value = Int_Val 0\<rparr>"

lemma at_blank_simps [simp]:
  "at_param_init p = at_blank" "at_typed h at_blank" "at_ptr (ap_value at_blank) = []" "ap_type at_blank = AT_PARAM_TYPE_INVALID"
  by (simp_all add: at_param_init_def at_blank_def at_typed_def is_heap_type_def)

lemma owned_blank [simp]: "owned (replicate n at_blank) = []"
  by (induction n) simp_all

lemma map_init [simp]: "map at_param_init ps = replicate (length ps) at_blank"
  by (induction ps) simp_all

lemma list_clear_eq:
  assumes "at_inv F (h, Some l)" "al_params l = Some ps"
  shows "at_params_list_clear (h, Some l) =
    Inr (drop_blocks (set (owned ps)) h, Some (l\<lparr>al_params := Some (replicate (length ps) at_blank)\<rparr>))"
  using assms clear_loop_eq [of h ps]
  by (simp add: at_inv_def at_params_list_clear_def)

lemma list_clear_inv:
  assumes "at_inv F (h, Some l)" "al_params l = Some ps"
  shows "at_inv F (drop_blocks (set (owned ps)) h, Some (l\<lparr>al_params := Some (replicate (length ps) at_blank)\<rparr>))"
  using assms by (auto simp: at_inv_def list_all_length)

lemma list_free_eq:
  assumes "at_inv F (h, Some l)" "al_params l = Some ps"
  shows "at_params_list_free (h, Some l) =
    Inr (drop_blocks (set (al_addr l # owned ps)) h, Some (l\<lparr>al_count := 0, al_params := None\<rparr>))"
proof -
  have "al_addr l \<in> dom (hp_blocks h)" "al_addr l \<notin> set (owned ps)" using assms by (auto simp: at_inv_def)
  then have "k_free (drop_blocks (set (owned ps)) h) (al_addr l) = Inr (drop_blocks (set (al_addr l # owned ps)) h)"
    by (auto simp: k_free_def drop_blocks_def fun_eq_iff)
  then show ?thesis using list_clear_eq [OF assms] assms(2) by (simp add: at_params_list_free_def)
qed

text \<open>Storing a parameter: \<open>N\<close> is the block that the new value brings along.\<close>

definition at_ready :: "nat set \<Rightarrow> nat list \<Rightarrow> at_heap \<Rightarrow> at_param_list \<Rightarrow> at_param list \<Rightarrow> bool" where
  "at_ready F N h l ps \<longleftrightarrow> al_params l = Some ps \<and> length ps = unat (al_count l) \<and> list_all (at_typed h) ps \<and>
     distinct (N @ al_addr l # owned ps) \<and> F \<inter> set (N @ al_addr l # owned ps) = {} \<and>
     dom (hp_blocks h) = F \<union> set (N @ al_addr l # owned ps)"

lemma at_ready_inv: "al_params l = Some ps \<Longrightarrow> at_inv F (h, Some l) = at_ready F [] h l ps"
  by (simp add: at_inv_def at_ready_def)

lemma owned_split: "i < length ps \<Longrightarrow> owned ps = owned (take i ps) @ at_ptr (ap_value (ps ! i)) @ owned (drop (Suc i) ps)"
  by (subst id_take_nth_drop [of i ps]) simp_all

lemma owned_update: "i < length ps \<Longrightarrow> owned (ps[i := p]) = owned (take i ps) @ at_ptr (ap_value p) @ owned (drop (Suc i) ps)"
  by (simp add: upd_conv_take_nth_drop)

lemma list_all_split: "list_all P xs \<Longrightarrow> list_all P (take i xs)" "list_all P xs \<Longrightarrow> list_all P (drop i xs)"
  by (auto simp: list_all_iff dest: in_set_takeD in_set_dropD)

lemma store_ready:
  assumes r: "at_ready F N h l ps" and i: "i < length ps"
    and f: "at_ptr (ap_value (f ((ps ! i)\<lparr>ap_value := Int_Val 0\<rparr>))) = N" "at_typed h (f ((ps ! i)\<lparr>ap_value := Int_Val 0\<rparr>))"
  defines "h' \<equiv> drop_blocks (set (at_ptr (ap_value (ps ! i)))) h"
    and "ps' \<equiv> ps[i := f ((ps ! i)\<lparr>ap_value := Int_Val 0\<rparr>)]"
  shows "at_store h l i f = Inr ((h', Some (l\<lparr>al_params := Some ps'\<rparr>)), None) \<and>
     at_ready F [] h' (l\<lparr>al_params := Some ps'\<rparr>) ps'"
proof -
  let ?A = "set (at_ptr (ap_value (ps ! i)))" and ?p = "f ((ps ! i)\<lparr>ap_value := Int_Val 0\<rparr>)"
  have ps: "al_params l = Some ps" "list_all (at_typed h) ps" using r by (simp_all add: at_ready_def)
  have "at_typed h (ps ! i)" using ps(2) i by (simp add: list_all_length)
  then have e: "at_store h l i f = Inr ((h', Some (l\<lparr>al_params := Some ps'\<rparr>)), None)"
    using ps(1) i by (simp add: at_store_def at_param_at_def at_param_set_def clear_eq h'_def ps'_def)
  have d: "distinct (N @ al_addr l # owned (take i ps) @ at_ptr (ap_value (ps ! i)) @ owned (drop (Suc i) ps))"
    using r i by (simp add: at_ready_def owned_split [OF i, symmetric])
  have "list_all (at_typed h') (take i ps)" "list_all (at_typed h') (drop (Suc i) ps)" "at_typed h' ?p"
  proof -
    show "list_all (at_typed h') (take i ps)" "list_all (at_typed h') (drop (Suc i) ps)"
      unfolding h'_def using list_all_split [OF ps(2)] d by (auto intro!: typed_others)
    show "at_typed h' ?p" by (rule at_typed_cong [OF f(2)]) (use d f(1) in \<open>auto simp: h'_def\<close>)
  qed
  then have t: "list_all (at_typed h') ps'" using i by (simp add: ps'_def upd_conv_take_nth_drop)
  have o: "owned ps' = owned (take i ps) @ N @ owned (drop (Suc i) ps)" using f(1) i by (simp add: ps'_def owned_update)
  have len: "length ps' = length ps" by (simp add: ps'_def)
  have dom: "dom (hp_blocks h') = F \<union> set (N @ al_addr l # owned ps) - ?A" using r by (simp add: h'_def at_ready_def)
  have "F \<inter> set (N @ al_addr l # owned ps) = {}" using r by (simp add: at_ready_def)
  then have "at_ready F [] h' (l\<lparr>al_params := Some ps'\<rparr>) ps'"
    using t d r dom len by (auto simp: at_ready_def o owned_split [OF i])
  with e show ?thesis by simp
qed

section \<open>Every operation keeps the ownership\<close>

lemma at_slot_SomeD:
  assumes "at_inv F (h, list)" "at_slot list index = Some (l, i)"
  obtains ps where "list = Some l" "at_ready F [] h l ps" "i < length ps" "i = unat index"
proof -
  have "list = Some l" "al_params l \<noteq> None" "index < al_count l" "i = unat index"
    using assms(2) by (auto simp: at_slot_def at_params_get_def not_le split: option.splits if_splits)
  moreover obtain ps where "al_params l = Some ps" using calculation(2) by blast
  ultimately show ?thesis
    using that [of ps] assms(1) at_ready_inv [of l ps F h] by (simp add: at_ready_def word_less_nat_alt)
qed

definition keeps :: "nat set \<Rightarrow> at_outcome \<Rightarrow> bool" where
  "keeps F r \<longleftrightarrow> (\<exists>m e. r = Inr (m, e) \<and> at_inv F m)"

lemma store_value_keeps:
  assumes "at_inv F (h, list)" "at_slot list index = Some (l, i)"
    and "\<And>p. at_typed h (f (p\<lparr>ap_value := Int_Val 0\<rparr>))" "\<And>p. at_ptr (ap_value (f (p\<lparr>ap_value := Int_Val 0\<rparr>))) = []"
  shows "keeps F (at_store h l i f)"
proof -
  obtain ps where ps: "at_ready F [] h l ps" "i < length ps" using at_slot_SomeD [OF assms(1,2)] by metis
  from store_ready [OF this, of f] assms(3,4) show ?thesis
    by (auto simp: keeps_def at_ready_inv)
qed

lemma value_puts_keep:
  assumes "at_inv F m"
  shows "keeps F (at_params_short_put m index v)" "keeps F (at_params_empty_put m index)" "keeps F (at_params_int_put m index w)"
proof -
  obtain h list where m: "m = (h, list)" by (cases m)
  have s: "ucast v \<le> (0xFFFF :: u32)" using unat_u16_lt [of v] by (simp add: word_le_nat_alt)
  note k = store_value_keeps [OF assms [unfolded m], of index]
  show "keeps F (at_params_short_put m index v)"
    using k [where f = "\<lambda>p. p\<lparr>ap_type := AT_PARAM_TYPE_NUM_SHORT, ap_value := Int_Val (ucast v)\<rparr>"] s assms m
    by (auto simp: at_params_short_put_def at_typed_def is_heap_type_def keeps_def split: option.splits)
  show "keeps F (at_params_empty_put m index)"
    using k [where f = "\<lambda>p. p\<lparr>ap_type := AT_PARAM_TYPE_EMPTY, ap_value := Int_Val 0\<rparr>"] assms m
    by (auto simp: at_params_empty_put_def at_typed_def is_heap_type_def keeps_def split: option.splits)
  show "keeps F (at_params_int_put m index w)"
    using k [where f = "\<lambda>p. p\<lparr>ap_type := AT_PARAM_TYPE_NUM_INT, ap_value := Int_Val w\<rparr>"] assms m
    by (auto simp: at_params_int_put_def at_typed_def is_heap_type_def keeps_def split: option.splits)
qed

lemma malloc_ready:
  assumes K: "k_heap_ok K" and r: "at_ready F [] h l ps" and m: "k_malloc K h n = (h', Some a)"
  obtains bs where "hp_blocks h' a = Some bs" "length bs = n"
    "\<And>blk. at_ready F [a] (h'\<lparr>hp_blocks := (hp_blocks h')(a := Some blk)\<rparr>) l ps"
proof -
  obtain bs where bs: "K (hp_time h) h n = Some (a, bs)" "hp_blocks h' = (hp_blocks h)(a := Some bs)"
    using m by (auto simp: k_malloc_def Let_def split: option.splits)
  have fresh: "a \<notin> dom (hp_blocks h)" "length bs = n" using K bs(1) by (auto simp: k_heap_ok_def)
  have "at_ready F [a] (h'\<lparr>hp_blocks := (hp_blocks h')(a := Some blk)\<rparr>) l ps" for blk
  proof -
    have "at_typed (h'\<lparr>hp_blocks := (hp_blocks h')(a := Some blk)\<rparr>) p" if "p \<in> set ps" for p
    proof (rule at_typed_cong)
      show "at_typed h p" using r that by (simp add: at_ready_def list_all_iff)
      show "hp_blocks (h'\<lparr>hp_blocks := (hp_blocks h')(a := Some blk)\<rparr>) b = hp_blocks h b" if b: "b \<in> set (at_ptr (ap_value p))" for b
      proof -
        have "b \<in> dom (hp_blocks h)" using r b \<open>p \<in> set ps\<close> by (auto simp: at_ready_def owned_def)
        then show ?thesis using fresh(1) bs(2) by auto
      qed
    qed
    then show ?thesis using r fresh(1) bs(2) by (auto simp: at_ready_def list_all_iff)
  qed
  then show ?thesis using that fresh(2) bs(2) by simp
qed

lemma block_put_ready:
  assumes K: "k_heap_ok K" and r: "at_ready F [] h l ps" "i < length ps" and ty: "is_heap_type ty"
    and n: "unat n \<le> length src" "unat n \<le> unat cap"
  shows "(\<exists>h'. K (hp_time h) h (unat cap) = None \<and> at_block_put K h l i src n cap ty = Inr ((h', Some l), Some ENOMEM) \<and>
        at_ready F [] h' l ps \<and> hp_blocks h' = hp_blocks h \<and> hp_time h' = Suc (hp_time h)) \<or>
    (\<exists>h' ps' a blk. at_block_put K h l i src n cap ty = Inr ((h', Some (l\<lparr>al_params := Some ps'\<rparr>)), None) \<and>
        at_ready F [] h' (l\<lparr>al_params := Some ps'\<rparr>) ps' \<and> ps' = ps[i := (ps ! i)\<lparr>ap_size := n, ap_type := ty, ap_value := Ptr_Val a\<rparr>] \<and>
        hp_blocks h' a = Some blk \<and> take (unat n) blk = take (unat n) src \<and> length blk = unat cap \<and>
        (\<forall>b. b \<noteq> a \<longrightarrow> b \<notin> set (at_ptr (ap_value (ps ! i))) \<longrightarrow> hp_blocks h' b = hp_blocks h b) \<and> a \<notin> dom (hp_blocks h))"
proof (cases "k_malloc K h (unat cap)")
  case (Pair h1 oa)
  show ?thesis
  proof (cases oa)
    case None
    then have "K (hp_time h) h (unat cap) = None" "h1 = h\<lparr>hp_time := Suc (hp_time h)\<rparr>"
      using Pair by (auto simp: k_malloc_def Let_def split: option.splits)
    then show ?thesis using r(1) Pair None by (auto simp: at_block_put_def at_ready_def list_all_iff at_typed_def)
  next
    case (Some a)
    obtain bs where bs: "hp_blocks h1 a = Some bs" "length bs = unat cap"
      "\<And>blk. at_ready F [a] (h1\<lparr>hp_blocks := (hp_blocks h1)(a := Some blk)\<rparr>) l ps"
      by (rule malloc_ready [OF K r(1)]) (use Pair Some in auto)
    let ?blk = "take (unat n) src @ drop (unat n) bs"
    let ?h2 = "h1\<lparr>hp_blocks := (hp_blocks h1)(a := Some ?blk)\<rparr>"
    let ?f = "\<lambda>p. p\<lparr>ap_size := n, ap_type := ty, ap_value := Ptr_Val a\<rparr>"
    have rd: "mem_read (Some src) (unat n) = Inr (take (unat n) src)" using n(1) by (simp add: mem_simps)
    have wr: "mem_write bs 0 (take (unat n) src) = Inr ?blk" using n bs(2) by (simp add: mem_write_0)
    have "at_typed ?h2 (?f ((ps ! i)\<lparr>ap_value := Int_Val 0\<rparr>))"
      using ty n bs(2) by (simp add: at_typed_def)
    from store_ready [OF bs(3) r(2), where f = ?f, OF _ this] have st:
      "at_store ?h2 l i ?f = Inr ((drop_blocks (set (at_ptr (ap_value (ps ! i)))) ?h2,
          Some (l\<lparr>al_params := Some (ps[i := ?f ((ps ! i)\<lparr>ap_value := Int_Val 0\<rparr>)])\<rparr>)), None)"
      "at_ready F [] (drop_blocks (set (at_ptr (ap_value (ps ! i)))) ?h2)
          (l\<lparr>al_params := Some (ps[i := ?f ((ps ! i)\<lparr>ap_value := Int_Val 0\<rparr>)])\<rparr>) (ps[i := ?f ((ps ! i)\<lparr>ap_value := Int_Val 0\<rparr>)])"
      by simp_all
    have h1: "a \<notin> dom (hp_blocks h)" "\<And>b. b \<noteq> a \<Longrightarrow> hp_blocks h1 b = hp_blocks h b"
      using K Pair Some by (auto simp: k_malloc_def k_heap_ok_def Let_def split: option.splits)
    have na: "a \<notin> set (at_ptr (ap_value (ps ! i)))"
      using bs(3) [of "[]"] owned_split [OF r(2)] by (auto simp: at_ready_def)
    show ?thesis
      using Pair Some rd wr bs(1,2) st h1 na n
      by (intro disjI2 exI [of _ "drop_blocks (set (at_ptr (ap_value (ps ! i)))) ?h2"]
          exI [of _ "ps[i := ?f (ps ! i)]"] exI [of _ a] exI [of _ ?blk]) (simp add: at_block_put_def)
  qed
qed

lemma block_puts_keep:
  assumes K: "k_heap_ok K" and inv: "at_inv F m" and src: "case src of None \<Rightarrow> True | Some s \<Rightarrow> unat n \<le> length s"
  shows "n \<noteq> 0xFFFFFFFF \<Longrightarrow> keeps F (at_params_string_put K m index src n)" "keeps F (at_params_array_put K m index src n)"
proof -
  obtain h list where m: "m = (h, list)" by (cases m)
  have k: "keeps F (at_block_put K h l i s n cap ty)"
    if c: "at_slot list index = Some (l, i)" "src = Some s" "is_heap_type ty" "unat n \<le> unat cap" for l i s ty cap
  proof -
    obtain ps where ps: "list = Some l" "at_ready F [] h l ps" "i < length ps"
      using at_slot_SomeD [OF inv [unfolded m] c(1)] by metis
    have "at_inv F (h', Some l')" if "at_ready F [] h' l' ps'" for h' l' ps'
      using that at_ready_inv [of l' ps' F h'] by (simp add: at_ready_def)
    moreover have "unat n \<le> length s" using src c(2) by simp
    ultimately show ?thesis using block_put_ready [OF K ps(2,3) c(3) _ c(4)] unfolding keeps_def by blast
  qed
  have e: "keeps F (Inr (m, Some EINVAL))" using inv by (simp add: keeps_def)
  show "keeps F (at_params_array_put K m index src n)"
    using k e m by (auto simp: at_params_array_put_def is_heap_type_def split: option.splits)
  assume "n \<noteq> 0xFFFFFFFF"
  then have "unat n \<noteq> 0xFFFFFFFF" by (simp add: word_unat_eq_iff)
  then have "unat n \<le> unat (n + 1)" using unat_u32_lt [of n] by (subst unat_add_no_wrap_u32) simp_all
  then show "keeps F (at_params_string_put K m index src n)"
    using k e m by (auto simp: at_params_string_put_def is_heap_type_def split: option.splits)
qed

lemma list_ops_keep:
  assumes "at_inv F m"
  shows "\<exists>m'. at_params_list_clear m = Inr m' \<and> at_inv F m'"
    "\<exists>h l. at_params_list_free m = Inr (h, l) \<and> at_inv F (h, l) \<and> dom (hp_blocks h) = F"
proof -
  obtain h list where m: "m = (h, list)" by (cases m)
  show "\<exists>m'. at_params_list_clear m = Inr m' \<and> at_inv F m'"
  proof (cases "\<exists>l ps. list = Some l \<and> al_params l = Some ps")
    case True
    then show ?thesis using assms m list_clear_eq [of F h] list_clear_inv [of F h] by blast
  qed (use assms m in \<open>auto simp: at_params_list_clear_def split: option.splits\<close>)
  show "\<exists>h l. at_params_list_free m = Inr (h, l) \<and> at_inv F (h, l) \<and> dom (hp_blocks h) = F"
  proof (cases "\<exists>l ps. list = Some l \<and> al_params l = Some ps")
    case True
    then obtain l ps where l: "list = Some l" "al_params l = Some ps" by blast
    have "dom (hp_blocks (drop_blocks (set (al_addr l # owned ps)) h)) = F"
      using assms m l by (auto simp: at_inv_def)
    then show ?thesis using assms m l list_free_eq [of F h l ps] by (simp add: at_inv_def)
  qed (use assms m in \<open>auto simp: at_params_list_free_def at_inv_def split: option.splits\<close>)
qed

section \<open>Calls\<close>

datatype at_call =
    List_Init u32 | List_Clear | List_Free | Short_Put u32 u16 | Int_Put u32 u32 | Empty_Put u32
  | String_Put u32 ptr u32 | Array_Put u32 ptr u32

definition at_exec :: "k_heap \<Rightarrow> at_mem \<Rightarrow> at_call \<Rightarrow> at_outcome" where
  "at_exec K m c = (case c of
     List_Init n \<Rightarrow> Inr (at_params_list_init K m n)
   | List_Clear \<Rightarrow> bindE (at_params_list_clear m) (\<lambda>m. Inr (m, None))
   | List_Free \<Rightarrow> bindE (at_params_list_free m) (\<lambda>m. Inr (m, None))
   | Short_Put i v \<Rightarrow> at_params_short_put m i v
   | Int_Put i v \<Rightarrow> at_params_int_put m i v
   | Empty_Put i \<Rightarrow> at_params_empty_put m i
   | String_Put i s n \<Rightarrow> at_params_string_put K m i s n
   | Array_Put i s n \<Rightarrow> at_params_array_put K m i s n)"

text \<open>What callers have to respect: a list is initialised when it has no array, and the bytes to copy are there.\<close>

definition at_call_ok :: "at_mem \<Rightarrow> at_call \<Rightarrow> bool" where
  "at_call_ok m c = (case c of
     List_Init n \<Rightarrow> (case snd m of None \<Rightarrow> True | Some l \<Rightarrow> al_params l = None)
   | String_Put i s n \<Rightarrow> n \<noteq> 0xFFFFFFFF \<and> (case s of None \<Rightarrow> True | Some src \<Rightarrow> unat n \<le> length src)
   | Array_Put i s n \<Rightarrow> (case s of None \<Rightarrow> True | Some src \<Rightarrow> unat n \<le> length src)
   | _ \<Rightarrow> True)"

inductive at_reach :: "k_heap \<Rightarrow> nat set \<Rightarrow> at_mem \<Rightarrow> bool" for K where
  start: "al_params l = None \<Longrightarrow> at_reach K (dom (hp_blocks h)) (h, Some l)"
| call: "at_reach K F m \<Longrightarrow> at_call_ok m c \<Longrightarrow> at_exec K m c = Inr (m', e) \<Longrightarrow> at_reach K F m'"

lemma list_init_keeps:
  assumes K: "k_heap_ok K" and inv: "at_inv F m" "case snd m of None \<Rightarrow> True | Some l \<Rightarrow> al_params l = None"
  shows "at_inv F (fst (at_params_list_init K m n))"
proof (cases m)
  case (Pair h list)
  show ?thesis
  proof (cases list)
    case None
    then show ?thesis using inv(1) Pair by (simp add: at_params_list_init_def at_inv_def)
  next
    case (Some l)
    have d: "dom (hp_blocks h) = F" using inv Pair Some by (simp add: at_inv_def)
    show ?thesis
    proof (cases "K (hp_time h) h (unat n * sizeof_at_param)")
      case None
      then show ?thesis using d Pair Some by (simp add: at_params_list_init_def k_malloc_def at_inv_def)
    next
      case (Some x)
      obtain a bs where x: "x = (a, bs)" by (cases x)
      have "a \<notin> F" using K Some x d by (auto simp: k_heap_ok_def)
      then show ?thesis using d Pair \<open>list = Some l\<close> Some x
        by (simp add: at_params_list_init_def k_malloc_def at_inv_def Let_def at_blank_def [symmetric] list_all_length)
    qed
  qed
qed

lemma at_exec_keeps:
  assumes K: "k_heap_ok K" and inv: "at_inv F m" and ok: "at_call_ok m c"
  shows "keeps F (at_exec K m c)"
proof (cases c)
  case (List_Init n)
  then show ?thesis using list_init_keeps [OF K inv, of n] ok
    by (cases "at_params_list_init K m n") (simp add: at_exec_def at_call_ok_def keeps_def)
next
  case List_Clear
  then show ?thesis using list_ops_keep(1) [OF inv] by (auto simp: at_exec_def keeps_def)
next
  case List_Free
  then show ?thesis using list_ops_keep(2) [OF inv] by (auto simp: at_exec_def keeps_def)
qed (use value_puts_keep [OF inv] block_puts_keep [OF K inv] ok in \<open>simp_all add: at_exec_def at_call_ok_def\<close>)

lemma at_reach_inv: "at_reach K F m \<Longrightarrow> k_heap_ok K \<Longrightarrow> at_inv F m"
proof (induction rule: at_reach.induct)
  case (start l h)
  then show ?case by (simp add: at_inv_def)
next
  case (call F m c m' e)
  then show ?case using at_exec_keeps [of K F m c] by (auto simp: keeps_def)
qed

section \<open>Properties\<close>

text \<open>C6: Parameter lists are well typed and own their memory: from every list that legal calls reach, every
  legal call (initialising, clearing, freeing, storing a value of any type at any index, with any outcome of
  the allocations) returns without undefined behaviour and leaves each parameter with the value its tag announces and a
  live block of its own that is large enough; freeing the list then leaves just the blocks that were live
  before the list was set up, so nothing is leaked or freed twice.\<close>

theorem at_params_owned:
  assumes "k_heap_ok K" "at_reach K F m" "at_call_ok m c"
  shows "\<exists>m' e h l. at_exec K m c = Inr (m', e) \<and> at_inv F m' \<and> at_params_list_free m' = Inr (h, l) \<and> dom (hp_blocks h) = F"
proof -
  obtain m' e where m: "at_exec K m c = Inr (m', e)" "at_inv F m'"
    using at_exec_keeps [OF assms(1) at_reach_inv [OF assms(2,1)] assms(3)] by (auto simp: keeps_def)
  from list_ops_keep(2) [OF m(2)] m show ?thesis by blast
qed

text \<open>A heap that satisfies the laws, and a list with two parameters in it.\<close>

definition bump_heap :: k_heap where
  "bump_heap t h n = (if hp_blocks h t = None then Some (t, replicate n 0) else None)"

lemma bump_heap_ok: "k_heap_ok bump_heap"
  by (auto simp: k_heap_ok_def bump_heap_def split: if_splits)

definition demo_list :: at_mem where
  "demo_list = (\<lparr>hp_blocks = [0 \<mapsto> replicate 24 0], hp_time = 1\<rparr>,
     Some \<lparr>al_count = 2, al_addr = 0, al_params = Some [at_blank, at_blank]\<rparr>)"

lemma demo_list_reached: "at_reach bump_heap {} demo_list"
proof -
  have two: "replicate 2 x = [x, x]" for x :: at_param by (simp add: numeral_2_eq_2)
  have "at_reach bump_heap (dom Map.empty) (\<lparr>hp_blocks = Map.empty, hp_time = 0\<rparr>, Some \<lparr>al_count = 0, al_addr = 0, al_params = None\<rparr>)"
    using at_reach.start [of "\<lparr>al_count = 0, al_addr = 0, al_params = None\<rparr>" bump_heap "\<lparr>hp_blocks = Map.empty, hp_time = 0\<rparr>"] by simp
  then show ?thesis
    unfolding dom_empty
    by (rule at_reach.call [where c = "List_Init 2" and e = None])
      (simp_all add: at_call_ok_def at_exec_def at_params_list_init_def k_malloc_def bump_heap_def demo_list_def two at_blank_def)
qed

theorem at_params_owned_witness:
  "\<exists>m' e h l. at_exec bump_heap demo_list (String_Put 1 (Some [0x4F, 0x4B, 0]) 2) = Inr (m', e) \<and> at_inv {} m' \<and>
     at_params_list_free m' = Inr (h, l) \<and> dom (hp_blocks h) = {}"
  by (rule at_params_owned [OF bump_heap_ok demo_list_reached]) (simp add: at_call_ok_def)

end
