(* ===== verification/At_Parser.thy ===== *)
theory At_Parser
  imports At_Params
begin

text \<open>
  The AT command parser (\<open>lib/at_cmd_parser/at_cmd_parser.c\<close>, \<open>at_utils.h\<close>).

  A string pointer is the list of the bytes from the pointer to the end of the object, and reading an
  empty list is undefined. The characters are those of the C locale. The static variable \<open>state\<close> and the
  list are passed through the functions. The results of storing parameters are ignored, as in the code.
\<close>

section \<open>Characters and strings\<close>

text \<open>\<open>ctype.h\<close>, \<open>strlen\<close> and \<open>strtoul\<close> (base 10, 32 bits) of the C library.\<close>

definition isdigit :: "u8 \<Rightarrow> bool" where "isdigit c \<longleftrightarrow> 0x30 \<le> c \<and> c \<le> 0x39"
definition isspace :: "u8 \<Rightarrow> bool" where "isspace c \<longleftrightarrow> c = 0x20 \<or> 9 \<le> c \<and> c \<le> 13"
definition isxdigit :: "u8 \<Rightarrow> bool" where
  "isxdigit c \<longleftrightarrow> isdigit c \<or> 0x41 \<le> c \<and> c \<le> 0x46 \<or> 0x61 \<le> c \<and> c \<le> 0x66"
definition toupper :: "u8 \<Rightarrow> u8" where "toupper c = (if 0x61 \<le> c \<and> c \<le> 0x7A then c - 0x20 else c)"

definition deref :: "u8 list \<Rightarrow> u8 res" where
  "deref s = (case s of [] \<Rightarrow> Inl UB | c # _ \<Rightarrow> Inr c)"

fun strlen :: "u8 list \<Rightarrow> nat res" where
  "strlen [] = Inl UB"
| "strlen (c # s) = (if c = 0 then Inr 0 else bindE (strlen s) (\<lambda>n. Inr (Suc n)))"

text \<open>\<open>while (P(*str)) str++\<close>\<close>

fun skip_while :: "(u8 \<Rightarrow> bool) \<Rightarrow> u8 list \<Rightarrow> u8 list res" where
  "skip_while P [] = Inl UB"
| "skip_while P (c # s) = (if P c then skip_while P s else Inr (c # s))"

fun strtoul_digits :: "nat \<Rightarrow> u8 list \<Rightarrow> (nat \<times> u8 list) res" where
  "strtoul_digits acc [] = Inl UB"
| "strtoul_digits acc (c # s) = (if isdigit c then strtoul_digits (acc * 10 + unat (c - 0x30)) s else Inr (acc, c # s))"

definition strtoul :: "u8 list \<Rightarrow> (u32 \<times> u8 list) res" where
  "strtoul str =
     bindE (skip_while isspace str) (\<lambda>s.
     bindE (deref s) (\<lambda>c.
     let neg = (c = 0x2D); s = (if c = 0x2D \<or> c = 0x2B then tl s else s) in
     bindE (strtoul_digits 0 s) (\<lambda>(n, rest).
     if length rest = length s then Inr (0, str)
     else Inr (if n > 0xFFFFFFFF then 0xFFFFFFFF else if neg then - of_nat n else of_nat n, rest))))"

section \<open>Character classes of \<open>at_utils.h\<close>\<close>

abbreviation (input) AT_PARAM_SEPARATOR :: u8 where "AT_PARAM_SEPARATOR \<equiv> 0x2C"
abbreviation (input) AT_RSP_SEPARATOR :: u8 where "AT_RSP_SEPARATOR \<equiv> 0x3A"
abbreviation (input) AT_CMD_SEPARATOR :: u8 where "AT_CMD_SEPARATOR \<equiv> 0x3D"
abbreviation (input) AT_CMD_READ_TEST_IDENTIFIER :: u8 where "AT_CMD_READ_TEST_IDENTIFIER \<equiv> 0x3F"
abbreviation (input) AT_STANDARD_NOTIFICATION_PREFIX :: u8 where "AT_STANDARD_NOTIFICATION_PREFIX \<equiv> 0x2B"
abbreviation (input) AT_PROP_NOTIFICATION_PREFX :: u8 where "AT_PROP_NOTIFICATION_PREFX \<equiv> 0x25"
abbreviation (input) AT_CUSTOM_COMMAND_PREFX :: u8 where "AT_CUSTOM_COMMAND_PREFX \<equiv> 0x23"

definition is_notification :: "u8 \<Rightarrow> bool" where
  "is_notification chr \<longleftrightarrow> chr = AT_STANDARD_NOTIFICATION_PREFIX \<or> chr = AT_PROP_NOTIFICATION_PREFX"

definition is_valid_notification_char :: "u8 \<Rightarrow> bool" where
  "is_valid_notification_char chr \<longleftrightarrow> (let chr = toupper chr in 0x41 \<le> chr \<and> chr \<le> 0x5A)"

definition is_terminated :: "u8 \<Rightarrow> bool" where "is_terminated chr \<longleftrightarrow> chr = 0"

definition is_separator :: "u8 \<Rightarrow> bool" where
  "is_separator chr \<longleftrightarrow> chr = AT_PARAM_SEPARATOR \<or> chr = AT_RSP_SEPARATOR \<or> chr = AT_CMD_SEPARATOR"

definition is_lfcr :: "u8 \<Rightarrow> bool" where "is_lfcr chr \<longleftrightarrow> chr = 0x0D \<or> chr = 0x0A"
definition is_dblquote :: "u8 \<Rightarrow> bool" where "is_dblquote chr \<longleftrightarrow> chr = 0x22"
definition is_array_start :: "u8 \<Rightarrow> bool" where "is_array_start chr \<longleftrightarrow> chr = 0x28"
definition is_array_stop :: "u8 \<Rightarrow> bool" where "is_array_stop chr \<longleftrightarrow> chr = 0x29"
definition is_number :: "u8 \<Rightarrow> bool" where "is_number chr \<longleftrightarrow> isdigit chr \<or> chr = 0x2D \<or> chr = 0x2B"

definition is_command :: "u8 list \<Rightarrow> bool res" where
  "is_command str =
     bindE (strlen str) (\<lambda>n.
     if n < 2 then Inr False
     else bindE (mem_byte str 0) (\<lambda>a. bindE (mem_byte str 1) (\<lambda>b.
       if toupper a \<noteq> 0x41 \<or> toupper b \<noteq> 0x54 then Inr False
       else bindE (mem_byte str 2) (\<lambda>c.
         Inr (c = AT_STANDARD_NOTIFICATION_PREFIX \<or> c = AT_PROP_NOTIFICATION_PREFX \<or> c = AT_CUSTOM_COMMAND_PREFX \<or>
              is_lfcr c \<or> is_terminated c)))))"

section \<open>Elements\<close>

datatype at_parser_state =
    IDLE | ARRAY | STRING | QUOTED_STRING | NUMBER | SMS_PDU | NOTIFICATION | COMMAND | OPTIONAL

definition skip_command_prefix :: "u8 list \<Rightarrow> u8 list res" where
  "skip_command_prefix cmd =
     (if length cmd < 2 then Inl UB else
      let cmd = drop 2 cmd in
      bindE (deref cmd) (\<lambda>c. Inr (if is_lfcr c \<or> is_terminated c then cmd else tl cmd)))"

text \<open>The new state and position and whether a type was detected (\<open>-1\<close> otherwise).\<close>

definition at_parse_detect_type :: "at_parser_state \<Rightarrow> u8 list \<Rightarrow> nat \<Rightarrow> (at_parser_state \<times> u8 list \<times> bool) res" where
  "at_parse_detect_type state str index =
     bindE (deref str) (\<lambda>c.
     bindE (if index = 0 \<and> \<not> is_notification c then is_command str else Inr False) (\<lambda>cmd.
     if index = 0 \<and> is_notification c then Inr (NOTIFICATION, str, True)
     else if index = 0 \<and> cmd then Inr (COMMAND, str, True)
     else if index = 0 then Inr (STRING, str, True)
     else if is_notification c then Inr (state, str, False)
     else if is_number c then Inr (NUMBER, str, True)
     else if is_dblquote c then Inr (QUOTED_STRING, tl str, True)
     else if is_array_start c then Inr (ARRAY, tl str, True)
     else if is_lfcr c \<and> state = NUMBER then bindE (skip_while is_lfcr str) (\<lambda>str. Inr (SMS_PDU, str, True))
     else if is_lfcr c \<and> state = OPTIONAL then Inr (OPTIONAL, str, True)
     else if is_separator c then Inr (OPTIONAL, str, True)
     else Inr (state, str, False)))"

abbreviation (input) AT_CMD_MAX_ARRAY_SIZE :: nat where "AT_CMD_MAX_ARRAY_SIZE \<equiv> 32"

definition array_push :: "u32 list \<Rightarrow> u32 \<Rightarrow> u32 list res" where
  "array_push arr v = (if length arr < AT_CMD_MAX_ARRAY_SIZE then Inr (arr @ [v]) else Inl UB)"

lemma strtoul_digits_length: "strtoul_digits acc s = Inr (n, rest) \<Longrightarrow> length rest \<le> length s"
  by (induction acc s rule: strtoul_digits.induct) (auto split: if_splits)

lemma skip_while_length: "skip_while P s = Inr rest \<Longrightarrow> length rest \<le> length s"
  by (induction P s rule: skip_while.induct) (auto split: if_splits)

lemma strtoul_length: "strtoul s = Inr (v, rest) \<Longrightarrow> length rest \<le> length s"
  by (auto simp: strtoul_def Let_def bindE_eq_Inr dest!: skip_while_length strtoul_digits_length split: if_splits)

text \<open>The loop over the elements of an array: the position and the elements.\<close>

function array_loop :: "u8 list \<Rightarrow> u32 list \<Rightarrow> (u8 list \<times> u32 list) res" where
  "array_loop str arr =
     bindE (deref str) (\<lambda>c.
     if is_array_stop c \<or> is_terminated c then Inr (str, arr)
     else if is_separator c then
       bindE (strtoul (tl str)) (\<lambda>(v, next).
       bindE (array_push arr v) (\<lambda>arr.
       bindE (strlen (tl str)) (\<lambda>m. bindE (strlen next) (\<lambda>n.
       if m = n then Inr (tl str, arr)
       else if length arr = AT_CMD_MAX_ARRAY_SIZE then Inr (next, arr)
       else array_loop next arr))))
     else if length arr = AT_CMD_MAX_ARRAY_SIZE then Inr (tl str, arr)
     else array_loop (tl str) arr)"
  by pat_completeness auto
termination
  by (relation "measure (\<lambda>(str, arr). length str)")
    (auto simp: deref_def dest!: strtoul_length split: list.splits)

fun put_le32s :: "u32 list \<Rightarrow> u8 list" where
  "put_le32s [] = []"
| "put_le32s (v # vs) = rev (put_be32 v) @ put_le32s vs"

text \<open>Storing the bytes between two positions of the string.\<close>

definition put_span :: "k_heap \<Rightarrow> at_mem \<Rightarrow> nat \<Rightarrow> u8 list \<Rightarrow> u8 list \<Rightarrow> at_mem res" where
  "put_span K m index start_ptr tmpstr =
     bindE (at_params_string_put K m (of_nat index) (Some start_ptr) (of_nat (length start_ptr - length tmpstr))) (\<lambda>(m, _). Inr m)"

definition at_parse_process_element ::
    "k_heap \<Rightarrow> at_mem \<Rightarrow> at_parser_state \<Rightarrow> u8 list \<Rightarrow> nat \<Rightarrow> (at_mem \<times> u8 list \<times> bool) res" where
  "at_parse_process_element K m state str index =
     bindE (deref str) (\<lambda>c.
     if is_terminated c then Inr (m, str, False)
     else (case state of
       NOTIFICATION \<Rightarrow>
         bindE (skip_while is_valid_notification_char (tl str)) (\<lambda>tmpstr.
         bindE (put_span K m index str tmpstr) (\<lambda>m. Inr (m, tmpstr, True)))
     | COMMAND \<Rightarrow>
         bindE (skip_command_prefix str) (\<lambda>tmpstr.
         bindE (skip_while is_valid_notification_char tmpstr) (\<lambda>tmpstr.
         bindE (put_span K m index str tmpstr) (\<lambda>m.
         bindE (deref tmpstr) (\<lambda>c.
         bindE (if c = AT_CMD_SEPARATOR then bindE (deref (tl tmpstr)) (\<lambda>d. Inr (d = AT_CMD_READ_TEST_IDENTIFIER)) else Inr False) (\<lambda>test.
         Inr (m, if test then drop 2 tmpstr else if c = AT_CMD_READ_TEST_IDENTIFIER then tl tmpstr else tmpstr, True))))))
     | OPTIONAL \<Rightarrow> bindE (at_params_empty_put m (of_nat index)) (\<lambda>(m, _). Inr (m, str, True))
     | STRING \<Rightarrow>
         bindE (skip_while (\<lambda>c. \<not> is_lfcr c \<and> \<not> is_terminated c) str) (\<lambda>tmpstr.
         bindE (put_span K m index str tmpstr) (\<lambda>m. Inr (m, tl tmpstr, True)))
     | QUOTED_STRING \<Rightarrow>
         bindE (skip_while (\<lambda>c. \<not> is_dblquote c \<and> \<not> is_terminated c) str) (\<lambda>tmpstr.
         bindE (put_span K m index str tmpstr) (\<lambda>m. Inr (m, tl tmpstr, True)))
     | ARRAY \<Rightarrow>
         bindE (strtoul str) (\<lambda>(v, next).
         bindE (array_loop next [v]) (\<lambda>(tmpstr, arr).
         bindE (at_params_array_put K m (of_nat index) (Some (put_le32s arr)) (of_nat (length arr * 4))) (\<lambda>(m, _).
         if tmpstr = [] then Inl UB else Inr (m, tl tmpstr, True))))
     | NUMBER \<Rightarrow>
         bindE (strtoul str) (\<lambda>(value, next).
         bindE (if sint value \<le> 0xFFFF then at_params_short_put m (of_nat index) (ucast value)
                else at_params_int_put m (of_nat index) value) (\<lambda>(m, _).
         Inr (m, next, True)))
     | SMS_PDU \<Rightarrow>
         bindE (skip_while isxdigit str) (\<lambda>tmpstr.
         bindE (put_span K m index str tmpstr) (\<lambda>m. Inr (m, tmpstr, True)))
     | IDLE \<Rightarrow> Inr (m, str, True)))"

section \<open>The parser\<close>

text \<open>One round of the loop either leaves it or goes on at the next index.\<close>

datatype at_round =
    Round_Break at_mem "u8 list" bool
  | Round_Next at_mem at_parser_state "u8 list" nat

text \<open>The end of a round: the look-ahead and the increment of the index, an \<open>int\<close>.\<close>

definition at_round_end :: "at_mem \<Rightarrow> at_parser_state \<Rightarrow> u8 list \<Rightarrow> nat \<Rightarrow> at_round res" where
  "at_round_end m state str index =
     bindE (deref str) (\<lambda>c.
     bindE (if is_lfcr c then
              bindE (skip_while is_lfcr (tl str)) (\<lambda>s. bindE (deref s) (\<lambda>d.
              Inr (if is_terminated d \<or> is_notification d then Some s else None)))
            else Inr None) (\<lambda>stop.
     case stop of Some s \<Rightarrow> Inr (Round_Break m s False)
     | None \<Rightarrow> if Suc index < 2 ^ 31 then Inr (Round_Next m state str (Suc index)) else Inl UB))"

definition at_parse_round :: "k_heap \<Rightarrow> nat \<Rightarrow> at_mem \<Rightarrow> at_parser_state \<Rightarrow> u8 list \<Rightarrow> nat \<Rightarrow> at_round res" where
  "at_parse_round K max_params m state str index =
     bindE (deref str) (\<lambda>c.
     let str = (if isspace c then tl str else str) in
     bindE (at_parse_detect_type state str index) (\<lambda>(state, str, ok).
     if \<not> ok then Inr (Round_Break m str False) else
     bindE (at_parse_process_element K m state str index) (\<lambda>(m, str, ok).
     if \<not> ok then Inr (Round_Break m str False) else
     bindE (deref str) (\<lambda>c.
     if is_separator c then
       bindE (deref (tl str)) (\<lambda>d.
       if is_lfcr d then
         if Suc index = max_params then Inr (Round_Break m str True) else
         bindE (at_parse_detect_type state str (Suc index)) (\<lambda>(state, str, ok).
         if \<not> ok then Inr (Round_Break m str False) else
         bindE (at_parse_process_element K m state str (Suc index)) (\<lambda>(m, str, ok).
         if \<not> ok then Inr (Round_Break m str False) else
         at_round_end m state (tl str) (Suc index)))
       else at_round_end m state (tl str) index)
     else at_round_end m state str index))))"

lemma round_end_index: "at_round_end m state str index = Inr (Round_Next m' st' str' index') \<Longrightarrow> index < index'"
  by (auto simp: at_round_end_def bindE_eq_Inr split: option.splits if_splits)

lemma round_index:
  assumes "at_parse_round K mx m state str index = Inr (Round_Next m' st' str' index')" shows "index < index'"
  using assms by (auto simp: at_parse_round_def bindE_eq_Inr Let_def split: if_splits dest!: round_end_index)

text \<open>The result: the list, the position and whether there were too many parameters.\<close>

function at_parse_loop :: "k_heap \<Rightarrow> nat \<Rightarrow> at_mem \<Rightarrow> at_parser_state \<Rightarrow> u8 list \<Rightarrow> nat \<Rightarrow> bool \<Rightarrow> (at_mem \<times> u8 list \<times> bool) res" where
  "at_parse_loop K max_params m state str index oversized =
     bindE (deref str) (\<lambda>c.
     if \<not> is_terminated c \<and> index < max_params then
       bindE (at_parse_round K max_params m state str index) (\<lambda>r. case r of
         Round_Break m str over \<Rightarrow> Inr (m, str, over)
       | Round_Next m state str index' \<Rightarrow> at_parse_loop K max_params m state str index' (index' = max_params))
     else Inr (m, str, oversized))"
  by pat_completeness auto
termination
  by (relation "measure (\<lambda>(K, max_params, m, state, str, index, oversized). max_params - index)")
    (auto dest: round_index)

definition at_parse_param :: "k_heap \<Rightarrow> at_mem \<Rightarrow> u8 list \<Rightarrow> nat \<Rightarrow> (at_mem \<times> u8 list \<times> err option) res" where
  "at_parse_param K m at_params_str max_params =
     bindE (at_parse_loop K max_params m IDLE at_params_str 0 False) (\<lambda>(m, str, oversized).
     if oversized then Inr (m, str, Some E2BIG)
     else bindE (deref str) (\<lambda>c. Inr (m, str, if is_terminated c then None else Some EAGAIN)))"

definition at_parser_max_params_from_str ::
    "k_heap \<Rightarrow> at_mem \<Rightarrow> ptr \<Rightarrow> u32 \<Rightarrow> (at_mem \<times> ptr \<times> err option) res" where
  "at_parser_max_params_from_str K = (\<lambda>(h, list) at_params_str max_params_count. case (at_params_str, list) of
     (Some str, Some l) \<Rightarrow>
       if al_params l = None then Inr ((h, list), at_params_str, Some EINVAL)
       else bindE (at_params_list_clear (h, list)) (\<lambda>m.
            bindE (at_parse_param K m str (unat (min max_params_count (al_count l)))) (\<lambda>(m, str, err).
            Inr (m, Some str, err)))
   | _ \<Rightarrow> Inr ((h, list), at_params_str, Some EINVAL))"

definition at_parser_params_from_str :: "k_heap \<Rightarrow> at_mem \<Rightarrow> ptr \<Rightarrow> (at_mem \<times> ptr \<times> err option) res" where
  "at_parser_params_from_str K = (\<lambda>(h, list) at_params_str. case list of None \<Rightarrow> Inl UB
     | Some l \<Rightarrow> at_parser_max_params_from_str K (h, list) at_params_str (al_count l))"

datatype at_cmd_type =
    AT_CMD_TYPE_UNKNOWN | AT_CMD_TYPE_SET_COMMAND | AT_CMD_TYPE_READ_COMMAND | AT_CMD_TYPE_TEST_COMMAND

definition at_parser_cmd_type_get :: "u8 list \<Rightarrow> at_cmd_type res" where
  "at_parser_cmd_type_get at_cmd =
     bindE (is_command at_cmd) (\<lambda>cmd.
     if \<not> cmd then Inr AT_CMD_TYPE_UNKNOWN else
     bindE (skip_command_prefix at_cmd) (\<lambda>s.
     bindE (skip_while is_valid_notification_char s) (\<lambda>s.
     bindE (deref s) (\<lambda>c.
     bindE (if c = AT_CMD_SEPARATOR then bindE (deref (tl s)) (\<lambda>d. Inr (d = AT_CMD_READ_TEST_IDENTIFIER)) else Inr False) (\<lambda>test.
     Inr (if test then AT_CMD_TYPE_TEST_COMMAND
          else if c = AT_CMD_READ_TEST_IDENTIFIER then AT_CMD_TYPE_READ_COMMAND
          else if c = AT_CMD_SEPARATOR \<or> is_lfcr c \<or> is_terminated c then AT_CMD_TYPE_SET_COMMAND
          else AT_CMD_TYPE_UNKNOWN))))))"

end
