(* ===== verification/At_Safe.thy ===== *)
theory At_Safe
  imports At_Parser
begin

text \<open>
  Safety of the AT command parser: on a string that is followed by a second terminator it never reads past
  the terminators, whatever the string and whatever the allocations do, and it keeps the ownership of the list.
\<close>

section \<open>Positions in a terminated string\<close>

text \<open>A position before the terminator, behind which is \<open>x\<close>.\<close>

definition at_pos :: "u8 list \<Rightarrow> u8 list \<Rightarrow> bool" where
  "at_pos x s \<longleftrightarrow> (\<exists>b. s = b @ 0 # x \<and> 0 \<notin> set b \<and> length b < 2 ^ 31)"

lemma at_pos_Cons: "at_pos x (c # s) \<longleftrightarrow> (c = 0 \<and> s = x) \<or> (c \<noteq> 0 \<and> at_pos x s \<and> length s < 2 ^ 31 + length x)"
proof
  assume "at_pos x (c # s)"
  then obtain b where b: "c # s = b @ 0 # x" "0 \<notin> set b" "length b < 2 ^ 31" by (auto simp: at_pos_def)
  then show "(c = 0 \<and> s = x) \<or> (c \<noteq> 0 \<and> at_pos x s \<and> length s < 2 ^ 31 + length x)"
    by (cases b) (auto simp: at_pos_def)
next
  assume "(c = 0 \<and> s = x) \<or> (c \<noteq> 0 \<and> at_pos x s \<and> length s < 2 ^ 31 + length x)"
  then show "at_pos x (c # s)"
  proof
    assume "c \<noteq> 0 \<and> at_pos x s \<and> length s < 2 ^ 31 + length x"
    then obtain b where "s = b @ 0 # x" "0 \<notin> set b" "c \<noteq> 0" "length s < 2 ^ 31 + length x" by (auto simp: at_pos_def)
    then show ?thesis unfolding at_pos_def by (intro exI [of _ "c # b"]) auto
  qed (simp add: at_pos_def)
qed

lemma at_pos_not_Nil [simp]: "\<not> at_pos x []"
  by (simp add: at_pos_def)

lemma at_pos_deref:
  assumes "at_pos x s" obtains c t where "s = c # t" "deref s = Inr c" "c \<noteq> 0 \<longrightarrow> at_pos x t" "c = 0 \<longrightarrow> t = x"
  using assms by (cases s) (auto simp: deref_def at_pos_Cons)

lemma deref_Cons [simp]: "deref (c # s) = Inr c"
  by (simp add: deref_def)

lemma skip_while_pos:
  assumes "at_pos x s" "\<not> P 0"
  obtains c t where "skip_while P s = Inr (c # t)" "at_pos x (c # t)" "\<not> P c" "length (c # t) \<le> length s"
proof -
  have "\<exists>c t. skip_while P s = Inr (c # t) \<and> at_pos x (c # t) \<and> \<not> P c \<and> length (c # t) \<le> length s"
    using assms(1)
  proof (induction s)
    case (Cons d s)
    show ?case
    proof (cases "P d")
      case True
      then have "d \<noteq> 0" using assms(2) by metis
      then show ?thesis using True Cons by (auto simp: at_pos_Cons [of x d])
    next
      case False
      then show ?thesis using Cons.prems by auto
    qed
  qed simp
  then show ?thesis using that by blast
qed

lemma strtoul_digits_pos:
  "at_pos x s \<Longrightarrow> \<exists>n t. strtoul_digits acc s = Inr (n, t) \<and> at_pos x t \<and> length t \<le> length s"
proof (induction s arbitrary: acc)
  case (Cons d s)
  show ?case
  proof (cases "isdigit d")
    case True
    then have "d \<noteq> 0" by (auto simp: isdigit_def)
    then have "at_pos x s" using Cons.prems by (simp add: at_pos_Cons)
    from Cons.IH [OF this, of "acc * 10 + unat (d - 0x30)"] True show ?thesis by auto
  next
    case False
    then show ?thesis using Cons.prems by simp
  qed
qed simp

lemma strtoul_pos:
  assumes "at_pos x s"
  obtains v t where "strtoul s = Inr (v, t)" "at_pos x t" "length t \<le> length s"
proof -
  obtain c t where w: "skip_while isspace s = Inr (c # t)" "at_pos x (c # t)" "length (c # t) \<le> length s"
    by (rule skip_while_pos [OF assms, of isspace]) (auto simp: isspace_def)
  let ?s = "if c = 0x2D \<or> c = 0x2B then t else c # t"
  have p: "at_pos x ?s" "length ?s \<le> length s" using w(2,3) by (auto simp: at_pos_Cons [of x c])
  obtain n r where d: "strtoul_digits 0 ?s = Inr (n, r)" "at_pos x r" "length r \<le> length ?s"
    using strtoul_digits_pos [OF p(1), of 0] by blast
  show ?thesis
  proof (cases "length r = length ?s")
    case True
    then show ?thesis using that [of 0 s] assms w(1) d(1) by (simp add: strtoul_def Let_def cong: if_cong)
  next
    case False
    then show ?thesis
      using that [OF _ d(2)] w(1) d(1,3) p(2) by (simp add: strtoul_def Let_def cong: if_cong)
  qed
qed

lemma strlen_pos: "at_pos x s \<Longrightarrow> strlen s = Inr (length s - Suc (length x))"
proof (induction s)
  case (Cons d s)
  show ?case
  proof (cases "d = 0")
    case False
    then have p: "at_pos x s" using Cons.prems by (simp add: at_pos_Cons)
    then have "Suc (length x) \<le> length s" by (auto simp: at_pos_def)
    then show ?thesis using False Cons.IH [OF p] by simp
  qed (use Cons.prems in \<open>simp add: at_pos_Cons\<close>)
qed simp

lemma array_loop_pos:
  assumes "at_pos x s" "0 < length arr" "length arr < 32"
  shows "\<exists>t arr'. array_loop s arr = Inr (t, arr') \<and> at_pos x t \<and> length arr' \<le> 32"
  using assms
proof (induction s arr rule: array_loop.induct)
  case (1 s arr)
  obtain c t where s: "s = c # t" "c \<noteq> 0 \<longrightarrow> at_pos x t" using at_pos_deref [OF "1.prems"(1)] by metis
  show ?case
  proof (cases "is_array_stop c \<or> is_terminated c")
    case True
    then show ?thesis using "1.prems" s(1) by simp
  next
    case False
    then have p: "at_pos x t" using s(2) by (simp add: is_terminated_def)
    show ?thesis
    proof (cases "is_separator c")
      case True
      obtain v r where v: "strtoul t = Inr (v, r)" "at_pos x r" by (rule strtoul_pos [OF p])
      have push: "array_push arr v = Inr (arr @ [v])" using "1.prems"(3) by (simp add: array_push_def)
      note sl = strlen_pos [OF p] strlen_pos [OF v(2)]
      show ?thesis
      proof (cases "length t - Suc (length x) = length r - Suc (length x) \<or> length (arr @ [v]) = 32")
        case True
        then show ?thesis using s(1) False \<open>is_separator c\<close> v push sl p "1.prems"(3)
          by (subst array_loop.simps) auto
      next
        case more: False
        have "\<exists>t' arr'. array_loop r (arr @ [v]) = Inr (t', arr') \<and> at_pos x t' \<and> length arr' \<le> 32"
          using "1.IH"(1) [of c "(v, r)" v r "arr @ [v]" "length t - Suc (length x)" "length r - Suc (length x)"]
            s(1) False True v push sl more "1.prems"(3) by simp
        then show ?thesis using s(1) False True v push sl more by (subst array_loop.simps) auto
      qed
    next
      case nosep: False
      show ?thesis
        using "1.IH"(2) [of c] s(1) False nosep p "1.prems" by (subst array_loop.simps) auto
    qed
  qed
qed

lemma put_le32s_length [simp]: "length (put_le32s vs) = 4 * length vs"
  by (induction vs) simp_all

lemma is_command_pos: "at_pos x s \<Longrightarrow> \<exists>b. is_command s = Inr b"
proof -
  assume p: "at_pos x s"
  have l: "strlen s = Inr (length s - Suc (length x))" by (rule strlen_pos [OF p])
  show "\<exists>b. is_command s = Inr b"
  proof (cases "length s - Suc (length x) < 2")
    case False
    then have "2 < length s" by simp
    then show ?thesis using l False by (auto simp: is_command_def mem_byte_def)
  next
    case True
    then show ?thesis using l by (intro exI [of _ False]) (simp add: is_command_def)
  qed
qed

lemma detect_pos:
  assumes "at_pos x s"
  shows "\<exists>st' t ok. at_parse_detect_type st s i = Inr (st', t, ok) \<and> at_pos x t \<and>
    (ok \<longrightarrow> st' = COMMAND \<longrightarrow> is_command t = Inr True)"
proof -
  obtain c r where s: "s = c # r" "c \<noteq> 0 \<longrightarrow> at_pos x r" using at_pos_deref [OF assms] by metis
  obtain cmd where cmd: "is_command s = Inr cmd" using is_command_pos [OF assms] by blast
  obtain d t where w: "skip_while is_lfcr s = Inr (d # t)" "at_pos x (d # t)"
    by (rule skip_while_pos [OF assms, of is_lfcr]) (auto simp: is_lfcr_def)
  have r: "at_pos x r" if "is_dblquote c \<or> is_array_start c" using that s(2) by (auto simp: is_dblquote_def is_array_start_def)
  show ?thesis
    using assms cmd w r s(1) by (auto simp: at_parse_detect_type_def simp del: skip_while.simps)
qed

lemma put_span_keeps:
  assumes "k_heap_ok K" "at_inv F m" "at_pos x s" "at_pos x t" "length t \<le> length s"
  obtains m' where "put_span K m i s t = Inr m'" "at_inv F m'"
proof -
  let ?n = "of_nat (length s - length t) :: u32"
  obtain b c where "s = b @ 0 # x" "length b < 2 ^ 31" "t = c @ 0 # x" using assms(3,4) by (auto simp: at_pos_def)
  then have u: "unat ?n = length s - length t" "unat ?n < 2 ^ 31" by (auto simp: unat_of_nat_u32)
  then have "?n \<noteq> 0xFFFFFFFF" by auto
  from block_puts_keep(1) [OF assms(1,2) _ this, of "Some s" "of_nat i"] u show ?thesis
    using that by (auto simp: put_span_def keeps_def)
qed

lemma toupper_0 [simp]: "toupper 0 = 0"
  by (simp add: toupper_def)

lemma skip_prefix_pos:
  assumes p: "at_pos x s" and cmd: "is_command s = Inr True"
  shows "\<exists>t. skip_command_prefix s = Inr t \<and> at_pos x t \<and> length t \<le> length s"
proof -
  have "2 \<le> length s - Suc (length x)" and ab: "toupper (s ! 0) = 0x41" "toupper (s ! 1) = 0x54"
    using cmd strlen_pos [OF p] by (auto simp: is_command_def mem_byte_def bindE_eq_Inr split: if_splits)
  then obtain a b c r where s: "s = a # b # c # r" by (cases s rule: list.exhaust; cases "List.tl s"; cases "List.tl (List.tl s)") auto
  have "a \<noteq> 0" "b \<noteq> 0" using ab s by auto
  then have q: "at_pos x (c # r)" using p s by (simp add: at_pos_Cons [of x a] at_pos_Cons [of x b])
  let ?t = "if is_lfcr c \<or> is_terminated c then c # r else r"
  have "at_pos x ?t" using q by (auto simp: at_pos_Cons [of x c] is_terminated_def)
  then show ?thesis using s by (intro exI [of _ ?t]) (simp add: skip_command_prefix_def Let_def numeral_2_eq_2)
qed

text \<open>After an element the parser stands before the terminator or on the byte behind it.\<close>

definition at_after :: "u8 list \<Rightarrow> u8 list \<Rightarrow> bool" where
  "at_after x s \<longleftrightarrow> at_pos x s \<or> s = x"

lemma at_pos_tl: "at_pos x (c # t) \<Longrightarrow> at_after x t"
  by (auto simp: at_pos_Cons at_after_def)

lemma ex_true [simp]: "\<exists>b. b"
  by blast

lemma keepsE: "keeps F r \<Longrightarrow> (\<And>m e. r = Inr (m, e) \<Longrightarrow> at_inv F m \<Longrightarrow> thesis) \<Longrightarrow> thesis"
  by (auto simp: keeps_def)

lemma process_pos:
  assumes K: "k_heap_ok K" and inv: "at_inv F m" and p: "at_pos x s"
    and cmd: "st = COMMAND \<longrightarrow> is_command s = Inr True"
  shows "\<exists>m' t ok. at_parse_process_element K m st s i = Inr (m', t, ok) \<and> at_inv F m' \<and> at_after x t"
proof -
  obtain c r where s: "s = c # r" "c \<noteq> 0 \<longrightarrow> at_pos x r" using at_pos_deref [OF p] by metis
  have span: "\<exists>m'. put_span K m i s t = Inr m' \<and> at_inv F m'" if "at_pos x t" "length t \<le> length s" for t
    using put_span_keeps [OF K inv p that] by metis
  show ?thesis
  proof (cases "is_terminated c")
    case True
    then show ?thesis using s inv p
      by (intro exI [of _ m] exI [of _ s] exI [of _ False]) (simp add: at_parse_process_element_def at_after_def)
  next
    case False
    then have r: "at_pos x r" using s(2) by (simp add: is_terminated_def)
    show ?thesis
    proof (cases st)
      case NOTIFICATION
      obtain d t where w: "skip_while is_valid_notification_char r = Inr (d # t)" "at_pos x (d # t)" "length (d # t) \<le> length r"
        by (rule skip_while_pos [OF r, of is_valid_notification_char]) (auto simp: is_valid_notification_char_def toupper_def)
      obtain m' where "put_span K m i s (d # t) = Inr m'" "at_inv F m'" using span [OF w(2)] w(3) s(1) by auto
      then show ?thesis using NOTIFICATION False s(1) w by (simp add: at_parse_process_element_def at_after_def)
    next
      case STRING
      obtain d t where w: "skip_while (\<lambda>c. \<not> is_lfcr c \<and> \<not> is_terminated c) s = Inr (d # t)" "at_pos x (d # t)" "length (d # t) \<le> length s"
        by (rule skip_while_pos [OF p, of "\<lambda>c. \<not> is_lfcr c \<and> \<not> is_terminated c"]) (auto simp: is_terminated_def)
      obtain m' where "put_span K m i s (d # t) = Inr m'" "at_inv F m'" using span [OF w(2,3)] by auto
      then show ?thesis using STRING False s(1) w at_pos_tl [OF w(2)] by (simp add: at_parse_process_element_def del: skip_while.simps)
    next
      case QUOTED_STRING
      obtain d t where w: "skip_while (\<lambda>c. \<not> is_dblquote c \<and> \<not> is_terminated c) s = Inr (d # t)" "at_pos x (d # t)" "length (d # t) \<le> length s"
        by (rule skip_while_pos [OF p, of "\<lambda>c. \<not> is_dblquote c \<and> \<not> is_terminated c"]) (auto simp: is_terminated_def)
      obtain m' where "put_span K m i s (d # t) = Inr m'" "at_inv F m'" using span [OF w(2,3)] by auto
      then show ?thesis using QUOTED_STRING False s(1) w at_pos_tl [OF w(2)] by (simp add: at_parse_process_element_def del: skip_while.simps)
    next
      case SMS_PDU
      obtain d t where w: "skip_while isxdigit s = Inr (d # t)" "at_pos x (d # t)" "length (d # t) \<le> length s"
        by (rule skip_while_pos [OF p, of isxdigit]) (auto simp: isxdigit_def isdigit_def)
      obtain m' where "put_span K m i s (d # t) = Inr m'" "at_inv F m'" using span [OF w(2,3)] by auto
      then show ?thesis using SMS_PDU False s(1) w by (simp add: at_parse_process_element_def at_after_def del: skip_while.simps)
    next
      case NUMBER
      obtain v t where v: "strtoul s = Inr (v, t)" "at_pos x t" by (rule strtoul_pos [OF p])
      have "keeps F (if sint v \<le> 0xFFFF then at_params_short_put m (of_nat i) (ucast v) else at_params_int_put m (of_nat i) v)"
        using value_puts_keep [OF inv] by simp
      then show ?thesis using NUMBER False s(1) v by (elim keepsE) (simp add: at_parse_process_element_def at_after_def)
    next
      case OPTIONAL
      have "keeps F (at_params_empty_put m (of_nat i))" by (rule value_puts_keep [OF inv])
      then show ?thesis using OPTIONAL False s(1) p by (elim keepsE) (simp add: at_parse_process_element_def at_after_def)
    next
      case ARRAY
      obtain v t where v: "strtoul s = Inr (v, t)" "at_pos x t" by (rule strtoul_pos [OF p])
      obtain t' arr where a: "array_loop t [v] = Inr (t', arr)" "at_pos x t'" "length arr \<le> 32"
        using array_loop_pos [OF v(2), of "[v]"] by auto
      obtain d t'' where t': "t' = d # t''" using a(2) by (cases t') auto
      have "keeps F (at_params_array_put K m (of_nat i) (Some (put_le32s arr)) (of_nat (length arr * 4)))"
        using a(3) by (intro block_puts_keep(2) [OF K inv]) (simp add: unat_of_nat_u32 del: of_nat_mult)
      then show ?thesis using ARRAY False s(1) v a t' at_pos_tl [of x d t'']
        by (elim keepsE) (simp add: at_parse_process_element_def del: array_loop.simps)
    next
      case IDLE
      then show ?thesis using False s(1) inv p by (simp add: at_parse_process_element_def at_after_def)
    next
      case COMMAND
      obtain t where t: "skip_command_prefix s = Inr t" "at_pos x t" "length t \<le> length s"
        using skip_prefix_pos [OF p] cmd COMMAND by auto
      obtain d u where w: "skip_while is_valid_notification_char t = Inr (d # u)" "at_pos x (d # u)" "length (d # u) \<le> length t"
        by (rule skip_while_pos [OF t(2), of is_valid_notification_char]) (auto simp: is_valid_notification_char_def toupper_def)
      obtain m' where m': "put_span K m i s (d # u) = Inr m'" "at_inv F m'" using span [OF w(2)] w(3) t(3) by auto
      have u: "at_pos x u" if "d \<noteq> 0" using w(2) that by (simp add: at_pos_Cons)
      show ?thesis
      proof (cases "d = AT_CMD_SEPARATOR")
        case True
        have "at_pos x u" using u True by simp
        then obtain e v where u': "u = e # v" "e \<noteq> 0 \<longrightarrow> at_pos x v" using at_pos_deref [of x u] by metis
        let ?t = "if e = AT_CMD_READ_TEST_IDENTIFIER then v else d # u"
        have "at_after x ?t" using u'(2) w(2) by (simp add: at_after_def)
        then show ?thesis using COMMAND False True s(1) t(1) w(1) m' u'(1)
          by (intro exI [of _ m'] exI [of _ ?t] exI [of _ True]) (simp add: at_parse_process_element_def del: skip_while.simps cong: if_cong)
      next
        case no: False
        let ?t = "if d = AT_CMD_READ_TEST_IDENTIFIER then u else d # u"
        have "at_after x ?t" using u w(2) by (simp add: at_after_def)
        then show ?thesis using COMMAND False no s(1) t(1) w(1) m'
          by (intro exI [of _ m'] exI [of _ ?t] exI [of _ True]) (simp add: at_parse_process_element_def del: skip_while.simps cong: if_cong)
      qed
    qed
  qed
qed

section \<open>The loop\<close>

lemma detect_separator:
  "is_separator c \<Longrightarrow> at_parse_detect_type st (c # s) (Suc i) = Inr (OPTIONAL, c # s, True)"
  by (auto simp: at_parse_detect_type_def is_separator_def is_notification_def is_number_def isdigit_def is_dblquote_def
      is_array_start_def is_lfcr_def)

lemma process_optional:
  assumes "is_separator c" "at_inv F m"
  shows "\<exists>m'. at_parse_process_element K m OPTIONAL (c # s) i = Inr (m', c # s, True) \<and> at_inv F m'"
proof -
  have "keeps F (at_params_empty_put m (of_nat i))" by (rule value_puts_keep [OF assms(2)])
  moreover have "\<not> is_terminated c" using assms(1) by (auto simp: is_separator_def is_terminated_def)
  ultimately show ?thesis by (elim keepsE) (simp add: at_parse_process_element_def)
qed

definition round_ok :: "nat set \<Rightarrow> u8 list \<Rightarrow> nat \<Rightarrow> at_round \<Rightarrow> bool" where
  "round_ok F x i r = (case r of Round_Break m s over \<Rightarrow> at_inv F m \<and> at_after x s
     | Round_Next m st s i' \<Rightarrow> at_inv F m \<and> at_after x s \<and> i' \<le> i + 2)"

lemma after_0: "at_after (0 # y) s \<Longrightarrow> \<exists>c t. s = c # t \<and> (c \<noteq> 0 \<longrightarrow> at_pos (0 # y) t)"
  unfolding at_after_def by (metis at_pos_deref)

lemma round_end_ok:
  assumes "at_inv F m" "at_after (0 # y) s" "Suc i < 2 ^ 31"
  shows "\<exists>r. at_round_end m st s i = Inr r \<and> (case r of Round_Break m' t over \<Rightarrow> at_inv F m' \<and> at_after (0 # y) t
     | Round_Next m' st' t i' \<Rightarrow> m' = m \<and> t = s \<and> i' = Suc i)"
proof -
  obtain c t where s: "s = c # t" "c \<noteq> 0 \<longrightarrow> at_pos (0 # y) t" using after_0 [OF assms(2)] by blast
  show ?thesis
  proof (cases "is_lfcr c")
    case True
    then have "at_pos (0 # y) t" using s(2) by (auto simp: is_lfcr_def)
    then obtain d u where "skip_while is_lfcr t = Inr (d # u)" "at_pos (0 # y) (d # u)"
      by (rule skip_while_pos [of "0 # y" t is_lfcr]) (auto simp: is_lfcr_def)
    then show ?thesis using True s(1) assms by (auto simp: at_round_end_def at_after_def)
  qed (use s(1) assms(3) in \<open>simp add: at_round_end_def\<close>)
qed

lemma round_safe:
  assumes K: "k_heap_ok K" and inv: "at_inv F m" and p: "at_pos (0 # y) s" "hd s \<noteq> 0" and i: "i + 2 < 2 ^ 31"
  shows "\<exists>r. at_parse_round K mx m st s i = Inr r \<and> round_ok F (0 # y) i r"
proof -
  let ?x = "0 # y"
  obtain c t where s: "s = c # t" "at_pos ?x t" using at_pos_deref [OF p(1)] p(2) by (metis list.sel(1))
  let ?s = "if isspace c then t else s"
  have "at_pos ?x ?s" using s p(1) by simp
  from detect_pos [OF this, of st i] obtain st1 s1 ok1 where
    d: "at_parse_detect_type st ?s i = Inr (st1, s1, ok1)" "at_pos ?x s1" "ok1 \<longrightarrow> st1 = COMMAND \<longrightarrow> is_command s1 = Inr True"
    by blast
  have start: "at_parse_round K mx m st s i = bindE (at_parse_detect_type st ?s i) (\<lambda>(state, str, ok).
     if \<not> ok then Inr (Round_Break m str False) else
     bindE (at_parse_process_element K m state str i) (\<lambda>(m, str, ok).
     if \<not> ok then Inr (Round_Break m str False) else
     bindE (deref str) (\<lambda>c.
     if is_separator c then
       bindE (deref (tl str)) (\<lambda>d.
       if is_lfcr d then
         if Suc i = mx then Inr (Round_Break m str True) else
         bindE (at_parse_detect_type state str (Suc i)) (\<lambda>(state, str, ok).
         if \<not> ok then Inr (Round_Break m str False) else
         bindE (at_parse_process_element K m state str (Suc i)) (\<lambda>(m, str, ok).
         if \<not> ok then Inr (Round_Break m str False) else
         at_round_end m state (tl str) (Suc i)))
       else at_round_end m state (tl str) i)
     else at_round_end m state str i)))"
    using s(1) by (simp add: at_parse_round_def Let_def cong: if_cong)
  show ?thesis
  proof (cases ok1)
    case False
    then show ?thesis using start d inv by (simp add: round_ok_def at_after_def)
  next
    case True
    obtain m2 s2 ok2 where e: "at_parse_process_element K m st1 s1 i = Inr (m2, s2, ok2)" "at_inv F m2" "at_after ?x s2"
      using process_pos [OF K inv d(2)] d(3) True by blast
    show ?thesis
    proof (cases ok2)
      case False
      then show ?thesis using start d(1) True e by (simp add: round_ok_def)
    next
      case ok2: True
      obtain c2 t2 where s2: "s2 = c2 # t2" "c2 \<noteq> 0 \<longrightarrow> at_pos ?x t2" using after_0 [OF e(3)] by blast
      have fin: "\<exists>r. at_round_end m' st' u j = Inr r \<and> round_ok F ?x i r"
        if j: "at_inv F m'" "at_after ?x u" "j \<le> Suc i" for m' st' u j
      proof -
        obtain r where "at_round_end m' st' u j = Inr r" "case r of Round_Break m'' t over \<Rightarrow> at_inv F m'' \<and> at_after ?x t
            | Round_Next m'' st'' t i' \<Rightarrow> m'' = m' \<and> t = u \<and> i' = Suc j"
          using round_end_ok [OF j(1,2), of j st'] j(3) i by auto
        then show ?thesis using j by (intro exI [of _ r]) (cases r; simp add: round_ok_def)
      qed
      show ?thesis
      proof (cases "is_separator c2")
        case False
        then show ?thesis using start d(1) True e ok2 s2(1) fin [OF e(2,3)] by simp
      next
        case sep: True
        then have p2: "at_pos ?x t2" using s2(2) by (auto simp: is_separator_def)
        then obtain c3 t3 where t2: "t2 = c3 # t3" using at_pos_deref by metis
        have a2: "at_after ?x t2" using p2 by (simp add: at_after_def)
        obtain m3 where m3: "at_parse_process_element K m2 OPTIONAL (c2 # t2) (Suc i) = Inr (m3, c2 # t2, True)" "at_inv F m3"
          using process_optional [OF sep e(2)] by blast
        show ?thesis
          using start d(1) True e ok2 s2(1) sep t2 a2 m3 detect_separator [OF sep] fin [OF m3(2) a2, of "Suc i"] fin [OF e(2) a2, of i]
          by (simp add: round_ok_def)
      qed
    qed
  qed
qed

lemma loop_safe:
  assumes "k_heap_ok K" "at_inv F m" "at_after (0 # y) s" "mx + 2 < 2 ^ 31"
  shows "\<exists>m' t over. at_parse_loop K mx m st s i ov = Inr (m', t, over) \<and> at_inv F m' \<and> at_after (0 # y) t"
  using assms
proof (induction K mx m st s i ov rule: at_parse_loop.induct)
  case (1 K mx m st s i ov)
  obtain c t where s: "s = c # t" "c \<noteq> 0 \<longrightarrow> at_pos (0 # y) t" using after_0 [OF "1.prems"(3)] by blast
  show ?case
  proof (cases "\<not> is_terminated c \<and> i < mx")
    case False
    then show ?thesis using s(1) "1.prems"(2,3)
      by (intro exI [of _ m] exI [of _ s] exI [of _ ov]) (subst at_parse_loop.simps, auto)
  next
    case True
    have p: "at_pos (0 # y) s" "hd s \<noteq> 0" using "1.prems"(3) s True by (auto simp: at_after_def is_terminated_def)
    obtain r where r: "at_parse_round K mx m st s i = Inr r" "round_ok F (0 # y) i r"
      using round_safe [OF "1.prems"(1,2) p, of i mx st] True "1.prems"(4) by auto
    show ?thesis
    proof (cases r)
      case (Round_Break m' u over)
      then show ?thesis using r s(1) True
        by (intro exI [of _ m'] exI [of _ u] exI [of _ over]) (subst at_parse_loop.simps, simp add: round_ok_def)
    next
      case (Round_Next m' st' u i')
      then have "at_inv F m'" "at_after (0 # y) u" using r(2) by (simp_all add: round_ok_def)
      then have "\<exists>m'' t over. at_parse_loop K mx m' st' u i' (i' = mx) = Inr (m'', t, over) \<and> at_inv F m'' \<and> at_after (0 # y) t"
        using "1.IH" [of c r m' st' u i'] r(1) s(1) True Round_Next "1.prems"(1,4) by simp
      moreover have "at_parse_loop K mx m st s i ov = at_parse_loop K mx m' st' u i' (i' = mx)"
        using r(1) s(1) True Round_Next by (subst at_parse_loop.simps) (simp del: at_parse_loop.simps)
      ultimately show ?thesis by (simp del: at_parse_loop.simps)
    qed
  qed
qed

lemma parse_param_safe:
  assumes "k_heap_ok K" "at_inv F m" "at_pos (0 # y) s" "mx + 2 < 2 ^ 31"
  shows "\<exists>m' p e. at_parse_param K m s mx = Inr (m', p, e) \<and> at_inv F m' \<and> e \<in> {None, Some EAGAIN, Some E2BIG}"
proof -
  have "at_after (0 # y) s" using assms(3) by (simp add: at_after_def)
  from loop_safe [OF assms(1,2) this assms(4), of IDLE 0 False] obtain m' t over where
    l: "at_parse_loop K mx m IDLE s 0 False = Inr (m', t, over)" "at_inv F m'" "at_after (0 # y) t" by blast
  obtain c u where "t = c # u" using after_0 [OF l(3)] by blast
  then show ?thesis using l(1,2)
    by (intro exI [of _ m'] exI [of _ t] exI [of _ "if over then Some E2BIG else if is_terminated c then None else Some EAGAIN"])
      (simp add: at_parse_param_def del: at_parse_loop.simps)
qed

lemma list_clear_list:
  assumes "at_inv F (h, Some l)" "al_params l = Some ps"
  obtains h' where "at_params_list_clear (h, Some l) = Inr (h', Some (l\<lparr>al_params := Some (replicate (length ps) at_blank)\<rparr>))"
    "at_inv F (h', Some (l\<lparr>al_params := Some (replicate (length ps) at_blank)\<rparr>))"
  using list_clear_eq [OF assms] list_clear_inv [OF assms] by metis

section \<open>Properties\<close>

text \<open>C12: The parser is safe on every string that is followed by a second NUL: for every string of less than
  two gigabytes, every list that owns its memory and every outcome of the allocations it returns, having read no byte
  behind the second NUL and written none outside the blocks, with 0, \<open>-EAGAIN\<close> or \<open>-E2BIG\<close>, and the list owns its memory
  again.\<close>

theorem at_parse_safe:
  assumes "k_heap_ok K" "at_inv F (h, Some l)" "al_params l \<noteq> None" "unat (al_count l) + 2 < 2 ^ 31"
    and "0 \<notin> set str" "length str < 2 ^ 31"
  shows "\<exists>m' p e. at_parser_max_params_from_str K (h, Some l) (Some (str @ [0, 0] @ behind)) n = Inr (m', Some p, e) \<and>
    at_inv F m' \<and> e \<in> {None, Some EAGAIN, Some E2BIG}"
proof -
  obtain ps where ps: "al_params l = Some ps" using assms(3) by blast
  obtain h' where c: "at_params_list_clear (h, Some l) = Inr (h', Some (l\<lparr>al_params := Some (replicate (length ps) at_blank)\<rparr>))"
    "at_inv F (h', Some (l\<lparr>al_params := Some (replicate (length ps) at_blank)\<rparr>))"
    by (rule list_clear_list [OF assms(2) ps])
  have "at_pos (0 # behind) (str @ [0, 0] @ behind)" using assms(5,6) by (auto simp: at_pos_def)
  moreover have "unat (min n (al_count l)) + 2 < 2 ^ 31" using assms(4) by (simp add: min_def word_le_nat_alt)
  ultimately show ?thesis using parse_param_safe [OF assms(1) c(2), of behind] c(1) ps
    by (fastforce simp: at_parser_max_params_from_str_def)
qed

lemma demo_list_inv: "at_inv {} demo_list"
  by (rule at_reach_inv [OF demo_list_reached bump_heap_ok])

theorem at_parse_safe_witness:
  "\<exists>m' p e. at_parser_max_params_from_str bump_heap demo_list (Some ([0x2B, 0x41, 0x3A, 0x22] @ [0, 0] @ [7])) 2 = Inr (m', Some p, e) \<and>
    at_inv {} m' \<and> e \<in> {None, Some EAGAIN, Some E2BIG}"
  using at_parse_safe [OF bump_heap_ok demo_list_inv [unfolded demo_list_def], of "[0x2B, 0x41, 0x3A, 0x22]" "[7]" 2]
  by (simp add: demo_list_def)

section \<open>Inputs on which the parser surprises\<close>

text \<open>What a caller sees of a result: the parameters, the position and the error.\<close>

definition at_view :: "(at_mem \<times> ptr \<times> err option) res \<Rightarrow> (at_param list \<times> ptr \<times> err option) res" where
  "at_view r = bindE r (\<lambda>((h, list), p, e). case list of None \<Rightarrow> Inl UB
     | Some l \<Rightarrow> (case al_params l of None \<Rightarrow> Inl UB | Some ps \<Rightarrow> Inr (ps, p, e)))"

lemmas at_eval = at_view_def at_parse_param_def at_parse_round_def at_round_end_def
  at_parse_detect_type_def at_parse_process_element_def put_span_def at_params_string_put_def at_params_short_put_def
  at_block_put_def at_store_def at_slot_def at_params_get_def at_param_at_def at_param_set_def at_param_clear_def
  at_params_list_clear_def is_heap_type_def k_malloc_def bump_heap_def demo_list_def at_blank_def mem_read_def mem_write_def
  is_command_def strtoul_def is_notification_def is_valid_notification_char_def toupper_def is_terminated_def is_separator_def
  is_lfcr_def is_dblquote_def is_array_start_def is_number_def isdigit_def isspace_def deref_def mem_byte_def Let_def

lemma demo_list_clear: "at_params_list_clear demo_list = Inr demo_list"
proof -
  have "at_params_list_clear demo_list = at_params_list_clear (fst demo_list, Some (the (snd demo_list)))"
    by (simp add: demo_list_def)
  also have "\<dots> = Inr demo_list"
    by (subst list_clear_eq [of "{}" _ _ "[at_blank, at_blank]"])
      (use demo_list_inv in \<open>simp_all add: demo_list_def numeral_2_eq_2\<close>)
  finally show ?thesis .
qed

lemma demo_parse:
  "at_parser_max_params_from_str bump_heap demo_list (Some str) 2 =
     bindE (at_parse_param bump_heap demo_list str 2) (\<lambda>(m, str, err). Inr (m, Some str, err))"
  using demo_list_clear by (simp add: at_parser_max_params_from_str_def demo_list_def)

lemma at_eval_words [simp]: "\<not> (2 :: u32) \<le> 1" "ucast (ucast (- 1 :: u32) :: u16) = (0xFFFF :: u32)"
  by (simp_all add: word_le_nat_alt) code_simp

text \<open>With a single NUL the parser is not safe: a string with no notification prefix is one element, behind which the
  parser steps and reads, also where the element was ended by the NUL. An open quotation has the same effect.\<close>

lemma at_parse_ok_overreads: "at_view (at_parser_max_params_from_str bump_heap demo_list (Some [0x4F, 0x4B, 0]) 2) = Inl UB"
  by (subst demo_parse, simp add: at_eval)

lemma at_parse_open_quote_overreads:
  "at_view (at_parser_max_params_from_str bump_heap demo_list (Some [0x2B, 0x41, 0x3A, 0x22, 0x42, 0]) 2) = Inl UB"
  by (subst demo_parse, simp add: at_eval)

text \<open>A response without a line ending that just fits the list is reported as too long: \<open>+A: 1\<close> has two parameters,
  which a list of two holds, but the result is \<open>-E2BIG\<close>.\<close>

lemma at_parse_exact_fit_e2big:
  "\<exists>p0. at_view (at_parser_max_params_from_str bump_heap demo_list (Some [0x2B, 0x41, 0x3A, 0x20, 0x31, 0]) 2) =
    Inr ([p0, \<lparr>ap_type = AT_PARAM_TYPE_NUM_SHORT, ap_size = 0, ap_value = Int_Val 1\<rparr>], Some [0], Some E2BIG)"
  by (rule exI [of _ "\<lparr>ap_type = AT_PARAM_TYPE_STRING, ap_size = 2, ap_value = Ptr_Val 1\<rparr>"]) (subst demo_parse, simp add: at_eval)

text \<open>Numbers from \<open>2^31\<close> on are negative as an \<open>int\<close>, which is below \<open>USHRT_MAX\<close>, so they are cut to sixteen bits:
  \<open>+A: 4294967295\<close> is stored as the short 65535 and 2147483648 as 0. So is \<open>-1\<close>.\<close>

lemma at_parse_large_number_cut:
  "\<exists>p0. at_view (at_parser_max_params_from_str bump_heap demo_list
      (Some ([0x2B, 0x41, 0x3A, 0x20] @ [0x32, 0x31, 0x34, 0x37, 0x34, 0x38, 0x33, 0x36, 0x34, 0x38] @ [0x0D, 0x0A, 0])) 2) =
    Inr ([p0, \<lparr>ap_type = AT_PARAM_TYPE_NUM_SHORT, ap_size = 0, ap_value = Int_Val 0\<rparr>], Some [0], None)"
  by (rule exI [of _ "\<lparr>ap_type = AT_PARAM_TYPE_STRING, ap_size = 2, ap_value = Ptr_Val 1\<rparr>"]) (subst demo_parse, simp add: at_eval)

lemma at_parse_minus_one_cut:
  "\<exists>p0. at_view (at_parser_max_params_from_str bump_heap demo_list
      (Some [0x2B, 0x41, 0x3A, 0x20, 0x2D, 0x31, 0x0D, 0x0A, 0]) 2) =
    Inr ([p0, \<lparr>ap_type = AT_PARAM_TYPE_NUM_SHORT, ap_size = 0, ap_value = Int_Val 0xFFFF\<rparr>], Some [0], None)"
  by (rule exI [of _ "\<lparr>ap_type = AT_PARAM_TYPE_STRING, ap_size = 2, ap_value = Ptr_Val 1\<rparr>"]) (subst demo_parse, simp add: at_eval)

end
