(* ===== verification/At_Response.thy ===== *)
theory At_Response
  imports At_Safe
begin

text \<open>
  What the AT command parser makes of a well-formed response: printing a notification with numbers, quoted
  strings, arrays and empty parameters and parsing the text gives these parameters back.
\<close>

section \<open>Responses\<close>

datatype at_val = Num_Val u32 | Str_Val "u8 list" | Arr_Val "u32 list" | Empty_Val

fun dec_digits :: "nat \<Rightarrow> u8 list" where
  "dec_digits n = (if n < 10 then [0x30 + of_nat n] else dec_digits (n div 10) @ [0x30 + of_nat (n mod 10)])"

declare dec_digits.simps [simp del]

fun commas :: "u8 list list \<Rightarrow> u8 list" where
  "commas [] = []"
| "commas [x] = x"
| "commas (x # y # xs) = x @ AT_PARAM_SEPARATOR # commas (y # xs)"

fun print_val :: "at_val \<Rightarrow> u8 list" where
  "print_val (Num_Val n) = dec_digits (unat n)"
| "print_val (Str_Val bs) = 0x22 # bs @ [0x22]"
| "print_val (Arr_Val vs) = 0x28 # commas (map (\<lambda>v. dec_digits (unat v)) vs) @ [0x29]"
| "print_val Empty_Val = []"

definition print_response :: "u8 list \<Rightarrow> at_val list \<Rightarrow> u8 list" where
  "print_response name vs = 0x2B # name @ [AT_RSP_SEPARATOR, 0x20] @ commas (map print_val vs) @ [0x0D, 0x0A]"

fun val_ok :: "at_val \<Rightarrow> bool" where
  "val_ok (Num_Val n) \<longleftrightarrow> unat n < 2 ^ 31"
| "val_ok (Str_Val bs) \<longleftrightarrow> 0 \<notin> set bs \<and> 0x22 \<notin> set bs \<and> length bs < 2 ^ 31"
| "val_ok (Arr_Val vs) \<longleftrightarrow> vs \<noteq> [] \<and> length vs \<le> AT_CMD_MAX_ARRAY_SIZE"
| "val_ok Empty_Val \<longleftrightarrow> True"

section \<open>Numbers\<close>

lemma digit_char [simp]:
  assumes "n < 10" shows "isdigit (0x30 + of_nat n)" "unat ((0x30 + of_nat n) - (0x30 :: u8)) = n"
proof -
  have n: "n \<in> {0, 1, 2, 3, 4, 5, 6, 7, 8, 9}" using assms by auto
  then show "isdigit (0x30 + of_nat n)" by (auto simp: isdigit_def)
  show "unat ((0x30 + of_nat n) - (0x30 :: u8)) = n" using assms by (simp add: unat_of_nat_u8)
qed

lemma dec_digits_digits: "list_all isdigit (dec_digits n)"
  by (induction n rule: dec_digits.induct) (subst dec_digits.simps, simp)

lemma dec_digits_not_Nil [simp]: "dec_digits n \<noteq> []"
  by (subst dec_digits.simps) simp

lemma dec_digits_value: "foldl (\<lambda>a d. a * 10 + unat (d - (0x30 :: u8))) 0 (dec_digits n) = n"
proof (induction n rule: dec_digits.induct)
  case (1 n)
  show ?case
  proof (cases "n < 10")
    case True
    then show ?thesis by (subst dec_digits.simps) (simp add: unat_of_nat_u8)
  next
    case False
    then show ?thesis using 1 by (subst dec_digits.simps) (simp add: unat_of_nat_u8)
  qed
qed

lemma strtoul_digits_append:
  "list_all isdigit ds \<Longrightarrow> \<not> isdigit c \<Longrightarrow>
    strtoul_digits acc (ds @ c # s) = Inr (foldl (\<lambda>a d. a * 10 + unat (d - 0x30)) acc ds, c # s)"
  by (induction ds arbitrary: acc) auto

lemma isdigit_other: "isdigit d \<Longrightarrow> \<not> isspace d \<and> d \<noteq> 0x2D \<and> d \<noteq> 0x2B \<and> d \<noteq> 0 \<and> \<not> is_lfcr d \<and> \<not> is_separator d \<and> \<not> is_notification d"
  by (auto simp: isdigit_def isspace_def is_lfcr_def is_separator_def is_notification_def word_le_nat_alt)

lemma dec_digits_Cons: obtains d ds where "dec_digits n = d # ds" "isdigit d"
  using dec_digits_digits [of n] dec_digits_not_Nil [of n] by (cases "dec_digits n") auto

lemma strtoul_dec:
  assumes "\<not> isdigit c"
  shows "strtoul (dec_digits (unat v) @ c # s) = Inr (v, c # s)"
proof -
  obtain d ds where d: "dec_digits (unat v) = d # ds" "isdigit d" by (rule dec_digits_Cons)
  have "strtoul_digits 0 (dec_digits (unat v) @ c # s) = Inr (unat v, c # s)"
    using strtoul_digits_append [OF dec_digits_digits assms] by (simp add: dec_digits_value)
  then have "strtoul_digits 0 (d # ds @ c # s) = Inr (unat v, c # s)" using d(1) by simp
  then show ?thesis using d isdigit_other [OF d(2)] unat_u32_lt [of v] by (simp add: strtoul_def Let_def del: strtoul_digits.simps)
qed


section \<open>Arrays\<close>

lemma strlen_append: "0 \<notin> set a \<Longrightarrow> strlen (a @ b) = bindE (strlen b) (\<lambda>n. Inr (length a + n))"
  by (induction a) (auto simp: bindE_def split: sum.splits)

lemma strlen_nul: "0 \<in> set s \<Longrightarrow> \<exists>n. strlen s = Inr n"
  by (induction s) auto

lemma dec_digits_no_0 [simp]: "0 \<notin> set (dec_digits n)"
  using dec_digits_digits [of n] by (auto simp: list_all_iff isdigit_def)

lemma array_loop_dec:
  assumes "0 < length arr" "length arr + length vs \<le> 32" "0 \<in> set s"
  shows "array_loop (concat (map (\<lambda>v. AT_PARAM_SEPARATOR # dec_digits (unat v)) vs) @ 0x29 # s) arr = Inr (0x29 # s, arr @ vs)"
  using assms
proof (induction vs arbitrary: arr)
  case Nil
  then show ?case by (simp add: is_array_stop_def)
next
  case (Cons v vs)
  let ?t = "concat (map (\<lambda>v. AT_PARAM_SEPARATOR # dec_digits (unat v)) vs) @ 0x29 # s"
  obtain c t where t: "?t = c # t" "\<not> isdigit c" by (cases vs) (auto simp: isdigit_def)
  have v: "strtoul (dec_digits (unat v) @ ?t) = Inr (v, ?t)" using strtoul_dec [OF t(2), of v t] by (simp only: t(1))
  have "0 \<in> set ?t" using Cons.prems(3) by simp
  then obtain n where n: "strlen ?t = Inr n" using strlen_nul by blast
  have l: "strlen (dec_digits (unat v) @ ?t) = Inr (length (dec_digits (unat v)) + n)" using n by (subst strlen_append) simp_all
  have push: "array_push arr v = Inr (arr @ [v])" using Cons.prems(2) by (simp add: array_push_def)
  have step: "array_loop (AT_PARAM_SEPARATOR # dec_digits (unat v) @ ?t) arr =
    (if length (arr @ [v]) = 32 then Inr (?t, arr @ [v]) else array_loop ?t (arr @ [v]))"
    by (subst array_loop.simps) (simp add: is_array_stop_def is_terminated_def is_separator_def v push n l del: array_loop.simps)
  show ?case
  proof (cases "length arr = 31")
    case True
    then show ?thesis using step Cons.prems(2) by (simp del: array_loop.simps)
  next
    case False
    then show ?thesis using step Cons.IH [of "arr @ [v]"] Cons.prems by (simp del: array_loop.simps)
  qed
qed

lemma commas_concat: "commas (x # xs) = x @ concat (map (\<lambda>y. AT_PARAM_SEPARATOR # y) xs)"
  by (induction xs arbitrary: x) simp_all

section \<open>Stored parameters\<close>

text \<open>What a parameter has to be for a value, and what a list returns for it.\<close>

fun at_holds :: "at_heap \<Rightarrow> at_param \<Rightarrow> at_val \<Rightarrow> bool" where
  "at_holds h p (Num_Val n) \<longleftrightarrow> ap_value p = Int_Val n \<and>
     ap_type p = (if unat n \<le> 0xFFFF then AT_PARAM_TYPE_NUM_SHORT else AT_PARAM_TYPE_NUM_INT)"
| "at_holds h p (Str_Val bs) \<longleftrightarrow> ap_type p = AT_PARAM_TYPE_STRING \<and> ap_size p = of_nat (length bs) \<and>
     (\<exists>a b. ap_value p = Ptr_Val a \<and> hp_blocks h a = Some b \<and> length bs \<le> length b \<and> take (length bs) b = bs)"
| "at_holds h p (Arr_Val vs) \<longleftrightarrow> ap_type p = AT_PARAM_TYPE_ARRAY \<and> ap_size p = of_nat (4 * length vs) \<and>
     (\<exists>a. ap_value p = Ptr_Val a \<and> hp_blocks h a = Some (put_le32s vs))"
| "at_holds h p Empty_Val \<longleftrightarrow> ap_type p = AT_PARAM_TYPE_EMPTY"

lemma at_holds_cong: "at_holds h p v \<Longrightarrow> (\<And>a. a \<in> dom (hp_blocks h) \<Longrightarrow> hp_blocks h' a = hp_blocks h a) \<Longrightarrow> at_holds h' p v"
  by (cases v) (auto simp: dom_def)

definition at_filled :: "nat set \<Rightarrow> nat \<Rightarrow> at_val list \<Rightarrow> at_mem \<Rightarrow> bool" where
  "at_filled F n vs m \<longleftrightarrow> (\<exists>h l ps. m = (h, Some l) \<and> at_ready F [] h l ps \<and> length ps = n \<and> length vs \<le> n \<and>
     (\<forall>j < length vs. at_holds h (ps ! j) (vs ! j)) \<and> drop (length vs) ps = replicate (n - length vs) at_blank)"

lemma at_filled_step:
  assumes f: "at_ready F [] h l ps" "\<forall>j < length vs. at_holds h (ps ! j) (vs ! j)"
      "drop (length vs) ps = replicate (length ps - length vs) at_blank" "length vs < length ps"
    and h': "at_ready F [] h' l' (ps[length vs := p])" "at_holds h' p v"
      "\<And>a. a \<in> dom (hp_blocks h) \<Longrightarrow> hp_blocks h' a = hp_blocks h a"
  shows "at_filled F (length ps) (vs @ [v]) (h', Some l')"
proof -
  have "at_holds h' (ps[length vs := p] ! j) ((vs @ [v]) ! j)" if "j < Suc (length vs)" for j
  proof (cases "j = length vs")
    case True
    then show ?thesis using f(4) h'(2) by simp
  next
    case False
    then have "at_holds h (ps ! j) (vs ! j)" using f(2) that by simp
    then show ?thesis using False that at_holds_cong [OF _ h'(3)] by (simp add: nth_append)
  qed
  moreover have "drop (Suc (length vs)) ps = replicate (length ps - Suc (length vs)) at_blank"
    using arg_cong [OF f(3), of "drop 1"] by simp
  ultimately show ?thesis using f(4) h'(1)
    by (auto simp: at_filled_def intro!: exI [of _ "ps[length vs := p]"])
qed

lemma at_filledE:
  assumes "at_filled F n vs m" "length vs < n"
  obtains h l ps where "m = (h, Some l)" "at_ready F [] h l ps" "n = length ps" "length ps = unat (al_count l)"
    "\<forall>j < length vs. at_holds h (ps ! j) (vs ! j)" "drop (length vs) ps = replicate (length ps - length vs) at_blank"
    "ps ! length vs = at_blank" "at_slot (Some l) (of_nat (length vs)) = Some (l, length vs)"
proof -
  obtain h l ps where f: "m = (h, Some l)" "at_ready F [] h l ps" "length ps = n"
    "\<forall>j < length vs. at_holds h (ps ! j) (vs ! j)" "drop (length vs) ps = replicate (length ps - length vs) at_blank"
    using assms(1) by (auto simp: at_filled_def)
  have u: "unat (of_nat (length vs) :: u32) = length vs" "length ps = unat (al_count l)"
    using f(2,3) assms(2) unat_u32_lt [of "al_count l"] by (simp_all add: at_ready_def unat_of_nat_u32)
  have "ps ! length vs = drop (length vs) ps ! 0" using f(3) assms(2) by simp
  then have "ps ! length vs = at_blank" using f(3,5) assms(2) by simp
  moreover have "at_slot (Some l) (of_nat (length vs)) = Some (l, length vs)"
    using f(2,3) u assms(2) by (simp add: at_slot_def at_params_get_def at_ready_def word_le_nat_alt)
  ultimately show ?thesis using that f u(2) by blast
qed

text \<open>Storing a value behind the last one.\<close>

definition at_adds :: "nat set \<Rightarrow> nat \<Rightarrow> at_val list \<Rightarrow> at_outcome \<Rightarrow> bool" where
  "at_adds F n vs r \<longleftrightarrow> (\<exists>m. r = Inr (m, None) \<and> at_filled F n vs m)"

lemma at_store_adds:
  assumes f: "at_filled F n vs m" "length vs < n"
    and v: "\<And>h p. at_ptr (ap_value (f p)) = []" "\<And>h p. at_typed h (f p)" "\<And>h p. at_holds h (f p) v"
    and put: "\<And>h l. m = (h, Some l) \<Longrightarrow> at_slot (Some l) (of_nat (length vs)) = Some (l, length vs) \<Longrightarrow> r = at_store h l (length vs) f"
  shows "at_adds F n (vs @ [v]) r"
proof -
  obtain h l ps where e: "m = (h, Some l)" "at_ready F [] h l ps" "n = length ps"
    "\<forall>j < length vs. at_holds h (ps ! j) (vs ! j)" "drop (length vs) ps = replicate (length ps - length vs) at_blank"
    "ps ! length vs = at_blank" "at_slot (Some l) (of_nat (length vs)) = Some (l, length vs)"
    by (rule at_filledE [OF f]) blast
  have "at_store h l (length vs) f = Inr ((h, Some (l\<lparr>al_params := Some (ps[length vs := f (at_blank\<lparr>ap_value := Int_Val 0\<rparr>)])\<rparr>)), None)"
    "at_ready F [] h (l\<lparr>al_params := Some (ps[length vs := f (at_blank\<lparr>ap_value := Int_Val 0\<rparr>)])\<rparr>) (ps[length vs := f (at_blank\<lparr>ap_value := Int_Val 0\<rparr>)])"
    using store_ready [OF e(2), of "length vs" f] f(2) e(3,6) v(1,2) by simp_all
  then show ?thesis using put [OF e(1,7)] at_filled_step [OF e(2,4,5), of h] f(2) e(3) v(3) by (auto simp: at_adds_def)
qed

text \<open>A heap that has room as long as finitely many blocks are in use.\<close>

definition k_heap_room :: "k_heap \<Rightarrow> bool" where
  "k_heap_room K \<longleftrightarrow> (\<forall>t h n. finite (dom (hp_blocks h)) \<longrightarrow> K t h n \<noteq> None)"

definition at_env :: "k_heap \<Rightarrow> nat set \<Rightarrow> bool" where
  "at_env K F \<longleftrightarrow> k_heap_ok K \<and> k_heap_room K \<and> finite F"

lemma at_block_adds:
  assumes K: "at_env K F" and f: "at_filled F n vs m" "length vs < n"
    and len: "is_heap_type ty" "unat len \<le> length src" "unat len \<le> unat cap"
    and v: "\<And>h p a b. hp_blocks h a = Some b \<Longrightarrow> take (unat len) b = take (unat len) src \<Longrightarrow> length b = unat cap \<Longrightarrow>
      at_holds h (p\<lparr>ap_size := len, ap_type := ty, ap_value := Ptr_Val a\<rparr>) v"
    and put: "\<And>h l. m = (h, Some l) \<Longrightarrow> at_slot (Some l) (of_nat (length vs)) = Some (l, length vs) \<Longrightarrow>
      r = at_block_put K h l (length vs) src len cap ty"
  shows "at_adds F n (vs @ [v]) r"
proof -
  obtain h l ps where e: "m = (h, Some l)" "at_ready F [] h l ps" "n = length ps"
    "\<forall>j < length vs. at_holds h (ps ! j) (vs ! j)" "drop (length vs) ps = replicate (length ps - length vs) at_blank"
    "ps ! length vs = at_blank" "at_slot (Some l) (of_nat (length vs)) = Some (l, length vs)"
    by (rule at_filledE [OF f]) blast
  have "finite (dom (hp_blocks h))" using K e(2) by (simp add: at_env_def at_ready_def)
  then have room: "K (hp_time h) h (unat cap) \<noteq> None" using K by (simp add: at_env_def k_heap_room_def)
  have ok: "k_heap_ok K" "length vs < length ps" using K f(2) e(3) by (simp_all add: at_env_def)
  obtain h' ps' a blk where b: "at_block_put K h l (length vs) src len cap ty = Inr ((h', Some (l\<lparr>al_params := Some ps'\<rparr>)), None)"
    "at_ready F [] h' (l\<lparr>al_params := Some ps'\<rparr>) ps'"
    "ps' = ps[length vs := (ps ! length vs)\<lparr>ap_size := len, ap_type := ty, ap_value := Ptr_Val a\<rparr>]"
    "hp_blocks h' a = Some blk" "take (unat len) blk = take (unat len) src" "length blk = unat cap"
    "\<forall>b. b \<noteq> a \<longrightarrow> b \<notin> set (at_ptr (ap_value (ps ! length vs))) \<longrightarrow> hp_blocks h' b = hp_blocks h b" "a \<notin> dom (hp_blocks h)"
    using block_put_ready [OF ok(1) e(2) ok(2) len] room by blast
  have same: "hp_blocks h' c = hp_blocks h c" if "c \<in> dom (hp_blocks h)" for c
    using b(7,8) e(6) that by auto
  show ?thesis
    using put [OF e(1,7)] b(1) at_filled_step [OF e(2,4,5) ok(2) _ v [OF b(4,5,6), of "ps ! length vs"] same, of "l\<lparr>al_params := Some ps'\<rparr>"]
      b(2,3) e(3) by (simp add: at_adds_def)
qed

text \<open>The operations the parser stores with.\<close>

lemma empty_adds: "at_filled F n vs m \<Longrightarrow> length vs < n \<Longrightarrow> at_adds F n (vs @ [Empty_Val]) (at_params_empty_put m (of_nat (length vs)))"
  by (rule at_store_adds [where f = "\<lambda>p. p\<lparr>ap_type := AT_PARAM_TYPE_EMPTY, ap_value := Int_Val 0\<rparr>"])
    (auto simp: at_params_empty_put_def at_typed_def is_heap_type_def)

lemma number_adds:
  assumes "at_filled F n vs m" "length vs < n" "unat v < 2 ^ 31"
  shows "at_adds F n (vs @ [Num_Val v]) (if sint v \<le> 0xFFFF then at_params_short_put m (of_nat (length vs)) (ucast v)
    else at_params_int_put m (of_nat (length vs)) v)"
proof -
  have s: "sint v \<le> 0xFFFF \<longleftrightarrow> unat v \<le> 0xFFFF" unfolding sint_unat_small [OF assms(3)] by presburger
  show ?thesis
  proof (cases "unat v \<le> 0xFFFF")
    case True
    then have c: "ucast (ucast v :: u16) = v" by (simp add: word_unat_eq_iff unsigned_ucast_eq unsigned_take_bit_eq take_bit_nat_eq_self)
    have "at_adds F n (vs @ [Num_Val v]) (at_params_short_put m (of_nat (length vs)) (ucast v))"
      by (rule at_store_adds [OF assms(1,2), where f = "\<lambda>p. p\<lparr>ap_type := AT_PARAM_TYPE_NUM_SHORT, ap_value := Int_Val v\<rparr>"])
        (use True c in \<open>auto simp: at_params_short_put_def at_typed_def is_heap_type_def word_le_nat_alt\<close>)
    then show ?thesis using s True by simp
  next
    case False
    have "at_adds F n (vs @ [Num_Val v]) (at_params_int_put m (of_nat (length vs)) v)"
      by (rule at_store_adds [OF assms(1,2), where f = "\<lambda>p. p\<lparr>ap_type := AT_PARAM_TYPE_NUM_INT, ap_value := Int_Val v\<rparr>"])
        (use False in \<open>auto simp: at_params_int_put_def at_typed_def is_heap_type_def\<close>)
    then show ?thesis using s False by simp
  qed
qed

lemma span_adds:
  assumes "at_env K F" "at_filled F n vs m" "length vs < n" "length bs < 2 ^ 31"
  shows "\<exists>m'. put_span K m (length vs) (bs @ s) s = Inr m' \<and> at_filled F n (vs @ [Str_Val bs]) m'"
proof -
  let ?n = "of_nat (length bs) :: u32"
  have u: "unat ?n = length bs" using assms(4) by (simp add: unat_of_nat_u32)
  then have u1: "unat (?n + 1) = length bs + 1" using assms(4) by (subst unat_add_no_wrap_u32) simp_all
  have "at_adds F n (vs @ [Str_Val bs]) (at_params_string_put K m (of_nat (length vs)) (Some (bs @ s)) ?n)"
    by (rule at_block_adds [OF assms(1-3), where ty = AT_PARAM_TYPE_STRING and src = "bs @ s" and len = ?n and cap = "?n + 1"])
      (use u u1 in \<open>auto simp: is_heap_type_def at_params_string_put_def\<close>)
  then show ?thesis by (auto simp: at_adds_def put_span_def)
qed

lemma array_adds:
  assumes "at_env K F" "at_filled F n vs m" "length vs < n" "length ws \<le> 32"
  shows "at_adds F n (vs @ [Arr_Val ws]) (at_params_array_put K m (of_nat (length vs)) (Some (put_le32s ws)) (of_nat (length ws * 4)))"
proof -
  let ?n = "of_nat (length ws * 4) :: u32"
  have u: "unat ?n = length ws * 4" using assms(4) by (simp add: unat_of_nat_u32 del: of_nat_mult)
  show ?thesis
    by (rule at_block_adds [OF assms(1-3), where ty = AT_PARAM_TYPE_ARRAY and src = "put_le32s ws" and len = ?n and cap = ?n])
      (use u in \<open>auto simp: is_heap_type_def at_params_array_put_def mult.commute simp del: of_nat_mult\<close>)
qed

section \<open>Elements\<close>

text \<open>What ends an element: a comma or the line ending; an empty parameter is seen at the comma behind it.\<close>

definition ends_val :: "at_val \<Rightarrow> u8 \<Rightarrow> bool" where
  "ends_val v c \<longleftrightarrow> c = AT_PARAM_SEPARATOR \<or> c = 0x0D \<and> v \<noteq> Empty_Val"

lemma ends_not_digit: "ends_val v c \<Longrightarrow> \<not> isdigit c"
  by (auto simp: ends_val_def isdigit_def)

lemma print_val_head:
  assumes "ends_val v c"
  obtains d t where "print_val v @ c # s = d # t" "\<not> isspace d" "d \<noteq> 0" "\<not> is_lfcr d" "\<not> is_notification d"
proof (cases v)
  case (Num_Val n)
  obtain d ds where d: "dec_digits (unat n) = d # ds" "isdigit d" by (rule dec_digits_Cons)
  then show ?thesis using that [of d "ds @ c # s"] Num_Val isdigit_other [OF d(2)] by simp
qed (use that assms in \<open>auto simp: ends_val_def isspace_def is_lfcr_def is_notification_def\<close>)

lemma skip_while_append: "list_all P bs \<Longrightarrow> \<not> P c \<Longrightarrow> skip_while P (bs @ c # s) = Inr (c # s)"
  by (induction bs) simp_all

text \<open>Detecting and processing the element at the position, which leaves the parser at the byte behind it.\<close>

definition at_elem :: "k_heap \<Rightarrow> at_mem \<Rightarrow> at_parser_state \<Rightarrow> u8 list \<Rightarrow> nat \<Rightarrow> (at_parser_state \<times> at_mem \<times> u8 list) res" where
  "at_elem K m st s i = bindE (at_parse_detect_type st s i) (\<lambda>(st, s, ok). if \<not> ok then Inl UB else
     bindE (at_parse_process_element K m st s i) (\<lambda>(m, s, ok). if \<not> ok then Inl UB else Inr (st, m, s)))"

lemma number_elem:
  assumes "at_filled F n vs m" "length vs < n" "0 < length vs" "unat v < 2 ^ 31" "\<not> isdigit c"
  shows "\<exists>st' m'. at_elem K m st (dec_digits (unat v) @ c # s) (length vs) = Inr (st', m', c # s) \<and> at_filled F n (vs @ [Num_Val v]) m'"
proof -
  obtain d ds where d: "dec_digits (unat v) = d # ds" "isdigit d" by (rule dec_digits_Cons)
  note o = isdigit_other [OF d(2)]
  obtain m' where m': "(if sint v \<le> 0xFFFF then at_params_short_put m (of_nat (length vs)) (ucast v)
    else at_params_int_put m (of_nat (length vs)) v) = Inr (m', None)" "at_filled F n (vs @ [Num_Val v]) m'"
    using number_adds [OF assms(1,2,4)] by (auto simp: at_adds_def)
  have t: "strtoul (d # ds @ c # s) = Inr (v, c # s)" using strtoul_dec [OF assms(5), of v s] d(1) by simp
  have "at_parse_detect_type st (d # ds @ c # s) (length vs) = Inr (NUMBER, d # ds @ c # s, True)"
    using assms(3) o d(2) by (simp add: at_parse_detect_type_def is_number_def)
  moreover have "at_parse_process_element K m NUMBER (d # ds @ c # s) (length vs) = Inr (m', c # s, True)"
    using t m'(1) o by (simp add: at_parse_process_element_def is_terminated_def)
  ultimately show ?thesis using m'(2) d(1) by (simp add: at_elem_def)
qed

lemma string_elem:
  assumes "at_env K F" "at_filled F n vs m" "length vs < n" "0 < length vs" "val_ok (Str_Val bs)"
  shows "\<exists>st' m'. at_elem K m st (0x22 # bs @ 0x22 # s) (length vs) = Inr (st', m', s) \<and> at_filled F n (vs @ [Str_Val bs]) m'"
proof -
  obtain m' where m': "put_span K m (length vs) (bs @ 0x22 # s) (0x22 # s) = Inr m'" "at_filled F n (vs @ [Str_Val bs]) m'"
    using span_adds [OF assms(1-3), of bs "0x22 # s"] assms(5) by auto
  have sk: "skip_while (\<lambda>c. \<not> is_dblquote c \<and> \<not> is_terminated c) (bs @ 0x22 # s) = Inr (0x22 # s)"
    using assms(5) by (intro skip_while_append) (auto simp: is_dblquote_def is_terminated_def list_all_iff)
  obtain d t where d: "bs @ 0x22 # s = d # t" "d \<noteq> 0" using assms(5) by (cases bs) auto
  have "at_parse_process_element K m QUOTED_STRING (bs @ 0x22 # s) (length vs) = Inr (m', s, True)"
    using sk m'(1) d(2) unfolding at_parse_process_element_def d(1)
    by (simp add: is_terminated_def del: skip_while.simps)
  then show ?thesis using m'(2) assms(4)
    by (simp add: at_elem_def at_parse_detect_type_def is_notification_def is_number_def isdigit_def is_dblquote_def)
qed

lemma array_elem:
  assumes "at_env K F" "at_filled F n vs m" "length vs < n" "0 < length vs" "val_ok (Arr_Val ws)" "0 \<in> set s"
  shows "\<exists>st' m'. at_elem K m st (print_val (Arr_Val ws) @ s) (length vs) = Inr (st', m', s) \<and> at_filled F n (vs @ [Arr_Val ws]) m'"
proof -
  obtain w ws' where w: "ws = w # ws'" using assms(5) by (cases ws) auto
  let ?r = "concat (map (\<lambda>v. AT_PARAM_SEPARATOR # dec_digits (unat v)) ws') @ 0x29 # s"
  have p: "print_val (Arr_Val ws) @ s = 0x28 # dec_digits (unat w) @ ?r" using w by (simp add: commas_concat comp_def)
  obtain c r where r: "?r = c # r" "\<not> isdigit c" by (cases ws') (auto simp: isdigit_def)
  have t: "strtoul (dec_digits (unat w) @ ?r) = Inr (w, ?r)" using strtoul_dec [OF r(2), of w r] by (simp only: r(1))
  have a: "array_loop ?r [w] = Inr (0x29 # s, ws)" using array_loop_dec [of "[w]" ws' s] assms(5,6) w by simp
  obtain m' where m': "at_params_array_put K m (of_nat (length vs)) (Some (put_le32s ws)) (of_nat (length ws * 4)) = Inr (m', None)"
    "at_filled F n (vs @ [Arr_Val ws]) m'"
    using array_adds [OF assms(1-3), of ws] assms(5) by (auto simp: at_adds_def)
  obtain d ds where d: "dec_digits (unat w) = d # ds" "isdigit d" by (rule dec_digits_Cons)
  have "at_parse_process_element K m ARRAY (dec_digits (unat w) @ ?r) (length vs) = Inr (m', s, True)"
    using t a m'(1) isdigit_other [OF d(2)] unfolding at_parse_process_element_def d(1)
    by (simp add: is_terminated_def del: array_loop.simps of_nat_mult)
  then show ?thesis using m'(2) assms(4) unfolding p
    by (simp add: at_elem_def at_parse_detect_type_def is_notification_def is_number_def isdigit_def is_dblquote_def is_array_start_def)
qed

lemma empty_elem:
  assumes "at_filled F n vs m" "length vs < n" "0 < length vs"
  shows "\<exists>m'. at_elem K m st (AT_PARAM_SEPARATOR # s) (length vs) = Inr (OPTIONAL, m', AT_PARAM_SEPARATOR # s) \<and>
    at_filled F n (vs @ [Empty_Val]) m'"
proof -
  obtain k where k: "length vs = Suc k" using assms(3) by (cases vs) auto
  obtain m' where m': "at_params_empty_put m (of_nat (length vs)) = Inr (m', None)" "at_filled F n (vs @ [Empty_Val]) m'"
    using empty_adds [OF assms(1,2)] by (auto simp: at_adds_def)
  then show ?thesis using detect_separator [of AT_PARAM_SEPARATOR st s k] k
    by (simp add: at_elem_def at_parse_process_element_def is_separator_def is_terminated_def del: of_nat_Suc)
qed

lemma val_elem:
  assumes "at_env K F" "at_filled F n vs m" "length vs < n" "0 < length vs" "val_ok v" "ends_val v c" "0 \<in> set s"
  shows "\<exists>st' m'. at_elem K m st (print_val v @ c # s) (length vs) = Inr (st', m', c # s) \<and> at_filled F n (vs @ [v]) m'"
proof (cases v)
  case (Num_Val w)
  then show ?thesis using number_elem [OF assms(2-4) _ ends_not_digit [OF assms(6)]] assms(5) by simp
next
  case (Str_Val bs)
  then show ?thesis using string_elem [OF assms(1-4)] assms(5) by simp
next
  case (Arr_Val ws)
  then show ?thesis using array_elem [OF assms(1-4), of ws "c # s"] assms(5,7) by simp
next
  case Empty_Val
  then show ?thesis using empty_elem [OF assms(2-4)] assms(6) by (simp add: ends_val_def) blast
qed

section \<open>Rounds\<close>

lemma at_elemD:
  assumes "at_elem K m st s i = Inr (st', m', s')"
  obtains s1 where "at_parse_detect_type st s i = Inr (st', s1, True)" "at_parse_process_element K m st' s1 i = Inr (m', s', True)"
  using assms by (auto simp: at_elem_def bindE_eq_Inr split: if_splits)

definition at_lead :: "u8 list \<Rightarrow> bool" where
  "at_lead pre \<longleftrightarrow> pre = [] \<or> pre = [0x20]"

lemma round_elem:
  assumes "at_elem K m st s i = Inr (st', m', s')" "s = d # t" "\<not> isspace d" "at_lead pre"
  shows "at_parse_round K mx m st (pre @ s) i = bindE (deref s') (\<lambda>c.
     if is_separator c then
       bindE (deref (tl s')) (\<lambda>d.
       if is_lfcr d then
         if Suc i = mx then Inr (Round_Break m' s' True) else
         bindE (at_parse_detect_type st' s' (Suc i)) (\<lambda>(state, str, ok).
         if \<not> ok then Inr (Round_Break m' str False) else
         bindE (at_parse_process_element K m' state str (Suc i)) (\<lambda>(m, str, ok).
         if \<not> ok then Inr (Round_Break m str False) else
         at_round_end m state (tl str) (Suc i)))
       else at_round_end m' st' (tl s') i)
     else at_round_end m' st' s' i)"
proof -
  obtain s1 where e: "at_parse_detect_type st s i = Inr (st', s1, True)" "at_parse_process_element K m st' s1 i = Inr (m', s', True)"
    by (rule at_elemD [OF assms(1)])
  have "(if isspace (hd (pre @ s)) then tl (pre @ s) else pre @ s) = s"
    using assms(2-4) by (auto simp: at_lead_def isspace_def)
  then show ?thesis using e assms(2,4) by (auto simp: at_parse_round_def at_lead_def Let_def isspace_def)
qed

definition at_rest :: "u8 list \<Rightarrow> bool" where
  "at_rest r \<longleftrightarrow> (case r of [] \<Rightarrow> False | c # _ \<Rightarrow> (c = 0 \<or> is_notification c) \<and> 0 \<in> set r)"

lemma round_end_line: "at_rest r \<Longrightarrow> at_round_end m st (0x0D # 0x0A # r) i = Inr (Round_Break m r False)"
  by (cases r) (auto simp: at_rest_def at_round_end_def is_lfcr_def is_terminated_def is_notification_def)

lemma round_more:
  assumes "at_env K F" "at_filled F n vs m" "length vs < n" "0 < length vs" "val_ok v" "0 \<in> set (d # s)"
    and "\<not> is_lfcr d" "Suc (length vs) < 2 ^ 31" "at_lead pre"
  shows "\<exists>st' m'. at_parse_round K mx m st (pre @ print_val v @ AT_PARAM_SEPARATOR # d # s) (length vs) =
    Inr (Round_Next m' st' (d # s) (Suc (length vs))) \<and> at_filled F n (vs @ [v]) m'"
proof -
  have v: "ends_val v AT_PARAM_SEPARATOR" by (simp add: ends_val_def)
  obtain st' m' where e: "at_elem K m st (print_val v @ AT_PARAM_SEPARATOR # d # s) (length vs) = Inr (st', m', AT_PARAM_SEPARATOR # d # s)"
    "at_filled F n (vs @ [v]) m'" using val_elem [OF assms(1-5) v assms(6)] by blast
  obtain a t where t: "print_val v @ AT_PARAM_SEPARATOR # d # s = a # t" "\<not> isspace a" by (rule print_val_head [OF v])
  show ?thesis using round_elem [OF e(1) t assms(9), of mx] e(2) assms(7,8)
    by (simp add: is_separator_def at_round_end_def)
qed

lemma round_final:
  assumes "at_env K F" "at_filled F n vs m" "length vs < n" "0 < length vs" "val_ok v" "v \<noteq> Empty_Val" "at_rest r" "at_lead pre"
  shows "\<exists>m'. at_parse_round K mx m st (pre @ print_val v @ 0x0D # 0x0A # r) (length vs) = Inr (Round_Break m' r False) \<and>
    at_filled F n (vs @ [v]) m'"
proof -
  have v: "ends_val v 0x0D" using assms(6) by (simp add: ends_val_def)
  have "0 \<in> set (0x0A # r)" using assms(7) by (auto simp: at_rest_def split: list.splits)
  then obtain st' m' where e: "at_elem K m st (print_val v @ 0x0D # 0x0A # r) (length vs) = Inr (st', m', 0x0D # 0x0A # r)"
    "at_filled F n (vs @ [v]) m'" using val_elem [OF assms(1-5) v] by blast
  obtain a t where t: "print_val v @ 0x0D # 0x0A # r = a # t" "\<not> isspace a" by (rule print_val_head [OF v])
  show ?thesis using round_elem [OF e(1) t assms(8), of mx] e(2) round_end_line [OF assms(7)]
    by (simp add: is_separator_def)
qed

lemma round_final_empty:
  assumes "at_env K F" "at_filled F n vs m" "Suc (length vs) < n" "0 < length vs" "val_ok v" "at_rest r" "at_lead pre"
    and "Suc (length vs) \<noteq> mx"
  shows "\<exists>m'. at_parse_round K mx m st (pre @ print_val v @ AT_PARAM_SEPARATOR # 0x0D # 0x0A # r) (length vs) =
    Inr (Round_Break m' r False) \<and> at_filled F n (vs @ [v, Empty_Val]) m'"
proof -
  let ?s = "AT_PARAM_SEPARATOR # 0x0D # 0x0A # r"
  have v: "ends_val v AT_PARAM_SEPARATOR" by (simp add: ends_val_def)
  have "0 \<in> set (0x0D # 0x0A # r)" using assms(6) by (auto simp: at_rest_def split: list.splits)
  then obtain st' m' where e: "at_elem K m st (print_val v @ ?s) (length vs) = Inr (st', m', ?s)" "at_filled F n (vs @ [v]) m'"
    using val_elem [OF assms(1,2) _ assms(4,5) v] assms(3) by (meson Suc_lessD)
  obtain m'' where e2: "at_elem K m' st' ?s (Suc (length vs)) = Inr (OPTIONAL, m'', ?s)" "at_filled F n (vs @ [v, Empty_Val]) m''"
    using empty_elem [OF e(2), of K st' "0x0D # 0x0A # r"] assms(3) by auto
  obtain s1 where d: "at_parse_detect_type st' ?s (Suc (length vs)) = Inr (OPTIONAL, s1, True)"
    "at_parse_process_element K m' OPTIONAL s1 (Suc (length vs)) = Inr (m'', ?s, True)" by (rule at_elemD [OF e2(1)])
  obtain a t where t: "print_val v @ ?s = a # t" "\<not> isspace a" by (rule print_val_head [OF v])
  show ?thesis using round_elem [OF e(1) t assms(7), of mx] e2(2) d round_end_line [OF assms(6)] assms(8)
    by (simp add: is_separator_def is_lfcr_def)
qed

section \<open>The whole response\<close>

lemma at_loop_step:
  assumes "at_parse_round K mx m st (c # s) i = Inr r" "c \<noteq> 0" "i < mx"
  shows "at_parse_loop K mx m st (c # s) i ov = (case r of Round_Break m str over \<Rightarrow> Inr (m, str, over)
     | Round_Next m state str i' \<Rightarrow> at_parse_loop K mx m state str i' (i' = mx))"
  using assms by (subst at_parse_loop.simps) (simp add: is_terminated_def del: at_parse_loop.simps)

lemma lead_head:
  assumes "at_lead pre" "ends_val v c" obtains d t where "pre @ print_val v @ c # s = d # t" "d \<noteq> 0"
proof -
  obtain d t where "print_val v @ c # s = d # t" "d \<noteq> 0" by (rule print_val_head [OF assms(2)])
  then show ?thesis using that assms(1) by (auto simp: at_lead_def)
qed

lemma values_head:
  assumes "ws \<noteq> [Empty_Val]" "ws \<noteq> []"
  obtains d s where "commas (map print_val ws) @ 0x0D # r = d # s" "\<not> is_lfcr d"
proof -
  obtain w ws' where w: "ws = w # ws'" using assms(2) by (cases ws) auto
  show ?thesis
  proof (cases ws')
    case Nil
    then have "ends_val w 0x0D" using assms(1) w by (simp add: ends_val_def)
    then obtain d s where "print_val w @ 0x0D # r = d # s" "\<not> is_lfcr d" by (rule print_val_head)
    then show ?thesis using that w Nil by simp
  next
    case (Cons x xs)
    have "ends_val w AT_PARAM_SEPARATOR" by (simp add: ends_val_def)
    then obtain d s where "print_val w @ AT_PARAM_SEPARATOR # commas (map print_val (x # xs)) @ 0x0D # r = d # s" "\<not> is_lfcr d"
      by (rule print_val_head)
    then show ?thesis using that w Cons by simp
  qed
qed

lemma at_rest_nul: "at_rest r \<Longrightarrow> 0 \<in> set r"
  by (auto simp: at_rest_def split: list.splits)

lemma loop_values:
  assumes "at_env K F" "mx \<le> n" "n < 2 ^ 31" "at_rest r"
    and "at_filled F n vs m" "0 < length vs" "list_all val_ok ws" "ws \<noteq> []" "ws \<noteq> [Empty_Val]" "length vs + length ws \<le> mx" "at_lead pre"
  shows "\<exists>m'. at_parse_loop K mx m st (pre @ commas (map print_val ws) @ 0x0D # 0x0A # r) (length vs) ov = Inr (m', r, False) \<and>
    at_filled F n (vs @ ws) m'"
  using assms(5-)
proof (induction ws arbitrary: vs m st pre ov)
  case (Cons v ws)
  have le: "length vs < n" "length vs < mx" and ok: "val_ok v" using Cons.prems(3,6) assms(2) by auto
  show ?case
  proof (cases ws)
    case Nil
    then have "ends_val v 0x0D" "v \<noteq> Empty_Val" using Cons.prems(5) by (auto simp: ends_val_def)
    moreover obtain d t where t: "pre @ print_val v @ 0x0D # 0x0A # r = d # t" "d \<noteq> 0"
      by (rule lead_head [OF Cons.prems(7) calculation(1)])
    moreover obtain m' where "at_parse_round K mx m st (pre @ print_val v @ 0x0D # 0x0A # r) (length vs) = Inr (Round_Break m' r False)"
      "at_filled F n (vs @ [v]) m'"
      using round_final [OF assms(1) Cons.prems(1) le(1) Cons.prems(2) ok calculation(2) assms(4) Cons.prems(7)] by blast
    ultimately show ?thesis using Nil at_loop_step [of K mx m st d t "length vs" _ ov] le(2) by (simp del: at_parse_loop.simps)
  next
    case (Cons w ws')
    have sep: "ends_val v AT_PARAM_SEPARATOR" by (simp add: ends_val_def)
    let ?s = "commas (map print_val ws) @ 0x0D # 0x0A # r"
    obtain d t where t: "pre @ print_val v @ AT_PARAM_SEPARATOR # ?s = d # t" "d \<noteq> 0" by (rule lead_head [OF Cons.prems(7) sep])
    have str: "pre @ commas (map print_val (v # ws)) @ 0x0D # 0x0A # r = d # t" using Cons t(1) by simp
    show ?thesis
    proof (cases "ws = [Empty_Val]")
      case True
      have "Suc (length vs) < n" "Suc (length vs) \<noteq> mx" using Cons.prems(6) True assms(2) by auto
      from round_final_empty [OF assms(1) Cons.prems(1) this(1) Cons.prems(2) ok assms(4) Cons.prems(7) this(2)]
      obtain m' where "at_parse_round K mx m st (d # t) (length vs) = Inr (Round_Break m' r False)" "at_filled F n (vs @ [v, Empty_Val]) m'"
        using t(1) True by fastforce
      then show ?thesis unfolding str using True at_loop_step [OF _ t(2) le(2), of K m st t _ ov] by (simp del: at_parse_loop.simps)
    next
      case False
      obtain e u where e: "?s = e # u" "\<not> is_lfcr e" using values_head [OF False] Cons by blast
      have "0 \<in> set ?s" using at_rest_nul [OF assms(4)] by simp
      then have n0: "0 \<in> set (e # u)" by (simp only: e(1))
      have lt: "Suc (length vs) < 2 ^ 31" using le(1) assms(3) by simp
      obtain st' m' where m': "at_parse_round K mx m st (pre @ print_val v @ AT_PARAM_SEPARATOR # e # u) (length vs) =
          Inr (Round_Next m' st' (e # u) (Suc (length vs)))" "at_filled F n (vs @ [v]) m'"
        using round_more [OF assms(1) Cons.prems(1) le(1) Cons.prems(2) ok n0 e(2) lt Cons.prems(7)] by blast
      then have "at_parse_loop K mx m st (d # t) (length vs) ov = at_parse_loop K mx m' st' ?s (Suc (length vs)) (Suc (length vs) = mx)"
        using at_loop_step [OF _ t(2) le(2), of K m st t _ ov] t(1) e(1) by (simp del: at_parse_loop.simps)
      moreover obtain m'' where "at_parse_loop K mx m' st' ?s (Suc (length vs)) (Suc (length vs) = mx) = Inr (m'', r, False)"
        "at_filled F n ((vs @ [v]) @ ws) m''"
        using Cons.IH [of "vs @ [v]" m' "[]" st' "Suc (length vs) = mx"] m'(2) Cons.prems Cons False by (auto simp: at_lead_def simp del: at_parse_loop.simps)
      ultimately show ?thesis unfolding str by (simp del: at_parse_loop.simps)
    qed
  qed
qed simp

lemma round_name:
  assumes "at_env K F" "at_filled F n [] m" "0 < n" "list_all is_valid_notification_char name" "length name < 2 ^ 31 - 1"
  shows "\<exists>st' m'. at_parse_round K mx m st (0x2B # name @ AT_RSP_SEPARATOR # 0x20 # s) 0 = Inr (Round_Next m' st' (0x20 # s) 1) \<and>
    at_filled F n [Str_Val (0x2B # name)] m'"
proof -
  let ?s = "AT_RSP_SEPARATOR # 0x20 # s"
  obtain m' where m': "put_span K m 0 (0x2B # name @ ?s) ?s = Inr m'" "at_filled F n [Str_Val (0x2B # name)] m'"
    using span_adds [OF assms(1-2), of "0x2B # name" ?s] assms(3,5) by auto
  have sk: "skip_while is_valid_notification_char (name @ ?s) = Inr ?s"
    using assms(4) by (intro skip_while_append) (simp_all add: is_valid_notification_char_def toupper_def)
  have "at_elem K m st (0x2B # name @ ?s) 0 = Inr (NOTIFICATION, m', ?s)"
    using sk m'(1) by (simp add: at_elem_def at_parse_detect_type_def at_parse_process_element_def is_notification_def is_terminated_def
        del: skip_while.simps)
  from round_elem [OF this refl, of "[]" mx] m'(2) show ?thesis
    by (simp add: isspace_def at_lead_def is_separator_def is_lfcr_def at_round_end_def)
qed

section \<open>Reading the parameters back\<close>

text \<open>The value an application gets at an index, with a buffer that is just large enough.\<close>

definition at_reads :: "at_mem \<Rightarrow> nat \<Rightarrow> at_val \<Rightarrow> bool" where
  "at_reads m i v = (case v of
     Num_Val w \<Rightarrow> at_params_int_get (snd m) (of_nat i) = Inr w
   | Str_Val bs \<Rightarrow> at_params_string_get m (of_nat i) (Some (replicate (length bs) 0)) (Some (of_nat (length bs))) = Inr (bs, of_nat (length bs))
   | Arr_Val ws \<Rightarrow> at_params_array_get m (of_nat i) (Some (replicate (4 * length ws) 0)) (Some (of_nat (4 * length ws))) =
       Inr (put_le32s ws, of_nat (4 * length ws))
   | Empty_Val \<Rightarrow> at_params_type_get (snd m) (of_nat i) = Inr AT_PARAM_TYPE_EMPTY)"

lemma filled_reads:
  assumes "at_filled F n vs m" "j < length vs" "val_ok (vs ! j)"
  shows "at_reads m j (vs ! j)"
proof -
  obtain h l ps where f: "m = (h, Some l)" "at_ready F [] h l ps" "length ps = n" "length vs \<le> n" "at_holds h (ps ! j) (vs ! j)"
    using assms(1,2) by (auto simp: at_filled_def)
  have u: "unat (of_nat j :: u32) = j" "length ps = unat (al_count l)"
    using f(2,3,4) assms(2) unat_u32_lt [of "al_count l"] by (simp_all add: at_ready_def unat_of_nat_u32)
  have slot: "at_slot (Some l) (of_nat j) = Some (l, j)" "at_param_at l j = Inr (ps ! j)"
    using f(2,3,4) u assms(2) by (simp_all add: at_slot_def at_params_get_def at_ready_def word_le_nat_alt at_param_at_def)
  show ?thesis
  proof (cases "vs ! j")
    case (Num_Val w)
    then show ?thesis using f(1,5) slot by (auto simp: at_reads_def at_params_int_get_def at_int_val_def)
  next
    case (Str_Val bs)
    then have "unat (of_nat (length bs) :: u32) = length bs" using assms(3) by (simp add: unat_of_nat_u32)
    moreover obtain a b where "ps ! j = \<lparr>ap_type = AT_PARAM_TYPE_STRING, ap_size = of_nat (length bs), ap_value = Ptr_Val a\<rparr>"
      "hp_blocks h a = Some b" "length bs \<le> length b" "take (length bs) b = bs"
      using f(5) Str_Val by (cases "ps ! j") auto
    ultimately show ?thesis using f(1) slot Str_Val
      by (simp add: at_reads_def at_params_string_get_def at_block_get_def at_param_size_def at_block_val_def mem_read_def mem_write_0)
  next
    case (Arr_Val ws)
    then have "unat (of_nat (4 * length ws) :: u32) = 4 * length ws"
      using assms(3) by (simp add: unat_of_nat_u32 del: of_nat_mult)
    moreover obtain a where "ps ! j = \<lparr>ap_type = AT_PARAM_TYPE_ARRAY, ap_size = of_nat (4 * length ws), ap_value = Ptr_Val a\<rparr>"
      "hp_blocks h a = Some (put_le32s ws)"
      using f(5) Arr_Val by (cases "ps ! j") auto
    ultimately show ?thesis using f(1) slot Arr_Val
      by (simp add: at_reads_def at_params_array_get_def at_block_get_def at_param_size_def at_block_val_def mem_read_def mem_write_0
          del: of_nat_mult)
  next
    case Empty_Val
    then show ?thesis using f(1,5) slot by (simp add: at_reads_def at_params_type_get_def)
  qed
qed

lemma at_holds_valid: "at_holds h p v \<Longrightarrow> ap_type p \<noteq> AT_PARAM_TYPE_INVALID"
  by (cases v) auto

lemma valid_loop_count:
  "(\<forall>j < k. ap_type (ps ! j) \<noteq> AT_PARAM_TYPE_INVALID) \<Longrightarrow> k \<le> length ps \<Longrightarrow> drop k ps = replicate (length ps - k) at_blank \<Longrightarrow>
    at_valid_loop ps (length ps) i = Inr (i + of_nat k)"
proof (induction k arbitrary: ps i)
  case 0
  then show ?case by (cases ps) auto
next
  case (Suc k)
  then obtain p qs where ps: "ps = p # qs" by (cases ps) auto
  have "\<forall>j < k. ap_type (qs ! j) \<noteq> AT_PARAM_TYPE_INVALID" using Suc.prems(1) ps by (metis Suc_less_eq nth_Cons_Suc)
  then show ?case using Suc.IH [of qs "i + 1"] Suc.prems ps by (force simp: algebra_simps)
qed

lemma filled_count:
  assumes "at_filled F n vs m" shows "at_params_valid_count_get (snd m) = Inr (of_nat (length vs))"
proof -
  obtain h l ps where f: "m = (h, Some l)" "at_ready F [] h l ps" "length ps = n" "length vs \<le> n"
    "\<forall>j < length vs. at_holds h (ps ! j) (vs ! j)" "drop (length vs) ps = replicate (n - length vs) at_blank"
    using assms by (auto simp: at_filled_def)
  have "\<forall>j < length vs. ap_type (ps ! j) \<noteq> AT_PARAM_TYPE_INVALID" using f(5) at_holds_valid by blast
  from valid_loop_count [OF this, of 0] f show ?thesis by (simp add: at_params_valid_count_get_def at_ready_def)
qed

lemma name_val_ok:
  assumes "list_all is_valid_notification_char name" "length name < 2 ^ 31 - 1" shows "val_ok (Str_Val (0x2B # name))"
proof -
  have "\<not> is_valid_notification_char 0" "\<not> is_valid_notification_char 0x22"
    by (simp_all add: is_valid_notification_char_def toupper_def)
  then show ?thesis using assms by (auto simp: list_all_iff)
qed

lemma parse_param_response:
  assumes "at_env K F" "at_filled F n [] m" "mx \<le> n" "n < 2 ^ 31" "list_all is_valid_notification_char name" "length name < 2 ^ 31 - 1"
    and "list_all val_ok vs" "vs \<noteq> []" "vs \<noteq> [Empty_Val]" "length vs < mx" "at_rest r"
  shows "\<exists>m'. at_parse_param K m (print_response name vs @ r) mx = Inr (m', r, if hd r = 0 then None else Some EAGAIN) \<and>
    at_filled F n (Str_Val (0x2B # name) # vs) m'"
proof -
  let ?s = "commas (map print_val vs) @ 0x0D # 0x0A # r"
  have "0 < n" using assms(3,10) by simp
  then obtain st m1 where m1: "at_parse_round K mx m IDLE (0x2B # name @ AT_RSP_SEPARATOR # 0x20 # ?s) 0 = Inr (Round_Next m1 st (0x20 # ?s) 1)"
    "at_filled F n [Str_Val (0x2B # name)] m1"
    using round_name [OF assms(1,2) _ assms(5,6)] by blast
  obtain m2 where m2: "at_parse_loop K mx m1 st (0x20 # ?s) 1 (1 = mx) = Inr (m2, r, False)" "at_filled F n (Str_Val (0x2B # name) # vs) m2"
    using loop_values [OF assms(1,3,4,11) m1(2) _ assms(7,8,9), of "[0x20]" st "1 = mx"] assms(10)
    by (auto simp: at_lead_def simp del: at_parse_loop.simps)
  have str: "print_response name vs @ r = 0x2B # name @ AT_RSP_SEPARATOR # 0x20 # ?s" by (simp add: print_response_def)
  have "at_parse_loop K mx m IDLE (print_response name vs @ r) 0 False = Inr (m2, r, False)"
    unfolding str using at_loop_step [OF m1(1), of False] m2(1) assms(10) by (simp del: at_parse_loop.simps)
  moreover obtain c t where "r = c # t" using assms(11) by (cases r) (auto simp: at_rest_def)
  ultimately show ?thesis using m2(2) by (simp add: at_parse_param_def is_terminated_def del: at_parse_loop.simps)
qed

lemma cleared_filled:
  assumes "at_inv F (h, Some l)" "al_params l = Some (replicate k at_blank)" shows "at_filled F k [] (h, Some l)"
  using assms by (simp add: at_filled_def at_ready_inv)

lemma filled_inv: "at_filled F n vs m \<Longrightarrow> at_inv F m"
  by (auto simp: at_filled_def at_ready_def at_inv_def)

section \<open>Types of commands\<close>

text \<open>A command with a name of letters is a test, read or set command by what follows the name.\<close>

lemma cmd_type_of:
  assumes p: "p \<in> {AT_STANDARD_NOTIFICATION_PREFIX, AT_PROP_NOTIFICATION_PREFX, AT_CUSTOM_COMMAND_PREFX}"
    and name: "list_all is_valid_notification_char name" and d: "\<not> is_valid_notification_char d" "0 \<in> set (d # t)"
  shows "at_parser_cmd_type_get ([0x41, 0x54, p] @ name @ d # t) = Inr (
     if d = AT_CMD_SEPARATOR \<and> hd t = AT_CMD_READ_TEST_IDENTIFIER then AT_CMD_TYPE_TEST_COMMAND
     else if d = AT_CMD_READ_TEST_IDENTIFIER then AT_CMD_TYPE_READ_COMMAND
     else if d = AT_CMD_SEPARATOR \<or> is_lfcr d \<or> is_terminated d then AT_CMD_TYPE_SET_COMMAND
     else AT_CMD_TYPE_UNKNOWN)"
proof -
  obtain n where n: "strlen (d # t) = Inr n" using strlen_nul [OF d(2)] by blast
  have "0 \<notin> set name" using name by (auto simp: list_all_iff is_valid_notification_char_def toupper_def)
  moreover have "p \<noteq> 0" using p by auto
  ultimately have "strlen ([0x41, 0x54, p] @ name @ d # t) = Inr (3 + length name + n)"
    using n strlen_append [of "[0x41, 0x54, p] @ name" "d # t"] by simp
  then have cmd: "is_command ([0x41, 0x54, p] @ name @ d # t) = Inr True"
    using p by (auto simp: is_command_def mem_byte_def toupper_def simp del: strlen.simps)
  have pre: "skip_command_prefix ([0x41, 0x54, p] @ name @ d # t) = Inr (name @ d # t)"
    using p by (auto simp: skip_command_prefix_def is_lfcr_def is_terminated_def)
  have sk: "skip_while is_valid_notification_char (name @ d # t) = Inr (d # t)" by (rule skip_while_append [OF name d(1)])
  show ?thesis
  proof (cases "d = AT_CMD_SEPARATOR")
    case True
    then obtain e u where "t = e # u" using d(2) by (cases t) auto
    then show ?thesis using cmd pre sk True by (simp add: at_parser_cmd_type_get_def del: skip_while.simps)
  next
    case False
    then show ?thesis using cmd pre sk by (simp add: at_parser_cmd_type_get_def del: skip_while.simps)
  qed
qed

section \<open>Properties\<close>

text \<open>C16: Parsing what a modem prints gives the parameters back: for a notification name of letters followed by
  numbers below \<open>2^31\<close>, quoted strings, arrays of up to 32 numbers and empty parameters (not a single
  empty one), a list with room for them and a heap with room, the parser stops at the end of the line, reports 0 at
  the end of the string and \<open>-EAGAIN\<close> at a further notification, and the list returns the name
  and every value at its index and has no other parameters.\<close>

theorem at_parse_response:
  assumes "k_heap_ok K" "k_heap_room K" "finite F" "at_inv F (h, Some l)" "al_params l \<noteq> None" "unat (al_count l) < 2 ^ 31"
    and "list_all is_valid_notification_char name" "length name < 2 ^ 31 - 1"
    and "list_all val_ok vs" "vs \<noteq> []" "vs \<noteq> [Empty_Val]" "length vs < unat (min n (al_count l))" "at_rest r"
  shows "\<exists>m. at_parser_max_params_from_str K (h, Some l) (Some (print_response name vs @ r)) n =
      Inr (m, Some r, if hd r = 0 then None else Some EAGAIN) \<and> at_inv F m \<and>
    at_reads m 0 (Str_Val (0x2B # name)) \<and> (\<forall>j < length vs. at_reads m (Suc j) (vs ! j)) \<and>
    at_params_valid_count_get (snd m) = Inr (of_nat (Suc (length vs)))"
proof -
  obtain ps where ps: "al_params l = Some ps" using assms(5) by blast
  obtain h' where c: "at_params_list_clear (h, Some l) = Inr (h', Some (l\<lparr>al_params := Some (replicate (length ps) at_blank)\<rparr>))"
    "at_inv F (h', Some (l\<lparr>al_params := Some (replicate (length ps) at_blank)\<rparr>))"
    by (rule list_clear_list [OF assms(4) ps])
  let ?m = "(h', Some (l\<lparr>al_params := Some (replicate (length ps) at_blank)\<rparr>))"
  have len: "length ps = unat (al_count l)" "unat (min n (al_count l)) \<le> length ps"
    using assms(4) ps by (simp_all add: at_inv_def min_def word_le_nat_alt)
  have env: "at_env K F" "at_filled F (length ps) [] ?m" "length ps < 2 ^ 31"
    using assms(1-3,6) cleared_filled [OF c(2)] len(1) by (simp_all add: at_env_def)
  obtain m where m: "at_parse_param K ?m (print_response name vs @ r) (unat (min n (al_count l))) =
      Inr (m, r, if hd r = 0 then None else Some EAGAIN)" "at_filled F (length ps) (Str_Val (0x2B # name) # vs) m"
    using parse_param_response [OF env(1,2) len(2) env(3) assms(7-13)] by blast
  have "at_reads m 0 (Str_Val (0x2B # name))" using filled_reads [OF m(2), of 0] name_val_ok [OF assms(7,8)] by simp
  moreover have "at_reads m (Suc j) (vs ! j)" if "j < length vs" for j
    using filled_reads [OF m(2), of "Suc j"] that assms(9) by (simp add: list_all_length)
  ultimately show ?thesis using m(1) c(1) ps filled_count [OF m(2)] filled_inv [OF m(2)]
    by (auto simp: at_parser_max_params_from_str_def)
qed

text \<open>A heap with room: the next address that is larger than all in use.\<close>

definition next_heap :: k_heap where
  "next_heap t h n = (if finite (dom (hp_blocks h)) then Some (Suc (Max (insert 0 (dom (hp_blocks h)))), replicate n 0) else None)"

lemma next_heap_ok: "k_heap_ok next_heap" "k_heap_room next_heap"
proof -
  have "hp_blocks h (Suc (Max (insert 0 (dom (hp_blocks h))))) = None" if "finite (dom (hp_blocks h))" for h
  proof (rule ccontr)
    assume "hp_blocks h (Suc (Max (insert 0 (dom (hp_blocks h))))) \<noteq> None"
    then have "Suc (Max (insert 0 (dom (hp_blocks h)))) \<le> Max (insert 0 (dom (hp_blocks h)))" using that by (intro Max_ge) auto
    then show False by simp
  qed
  then show "k_heap_ok next_heap" "k_heap_room next_heap"
    by (auto simp: k_heap_ok_def k_heap_room_def next_heap_def split: if_splits)
qed

theorem at_parse_response_witness:
  "\<exists>m. at_parser_max_params_from_str next_heap demo_list (Some (print_response [0x41] [Num_Val 70000] @ [0x25, 0])) 2 =
      Inr (m, Some [0x25, 0], Some EAGAIN) \<and> at_inv {} m \<and>
    at_reads m 0 (Str_Val [0x2B, 0x41]) \<and> at_reads m 1 (Num_Val 70000) \<and> at_params_valid_count_get (snd m) = Inr 2"
  using at_parse_response [OF next_heap_ok finite.emptyI demo_list_inv [unfolded demo_list_def],
      of "[0x41]" "[Num_Val 70000]" 2 "[0x25, 0]"]
  by (simp add: demo_list_def at_rest_def is_notification_def is_valid_notification_char_def toupper_def)

end
