(* ===== verification/Bl_Storage.thy ===== *)
theory Bl_Storage
  imports Nfc_Prelude
begin

text \<open>
  The storage of the secure bootloader (\<open>subsys/bootloader/bl_storage/bl_storage.c\<close>): the addresses of the
  image slots, the hashes of the public keys with their invalidation tokens, and the monotonic counter.

  Memory is a function from addresses to bytes; every address can be read. Flash is written by the driver function
  \<open>nrfx_nvmc_word_write\<close>, a parameter with the law that a write to an aligned word can only clear
  bits and changes nothing else. The layout constants that the build generates are parameters as well.
\<close>

section \<open>Memory\<close>

type_synonym flash = "u32 \<Rightarrow> u8"

definition read8 :: "flash \<Rightarrow> u32 \<Rightarrow> nat \<Rightarrow> u8 list" where
  "read8 m a n = map (\<lambda>i. m (a + of_nat i)) [0..<n]"

definition read16 :: "flash \<Rightarrow> u32 \<Rightarrow> u16" where
  "read16 m a = be16 (m (a + 1)) (m a)"

definition read32 :: "flash \<Rightarrow> u32 \<Rightarrow> u32" where
  "read32 m a = be32 (m (a + 3)) (m (a + 2)) (m (a + 1)) (m a)"

text \<open>What the bootloader takes from the build and from code outside of it: the addresses and sizes of the
  partitions, the configuration, the magic values, the addresses of the images, the flash protection (whether it succeeds), the flash driver and the
  cryptographic primitives (the signature check says whether the signature is good).\<close>

record bl_env =
  PM_PROVISION_ADDRESS :: u32
  PM_PROVISION_SIZE :: u32
  PM_S0_SIZE :: u32
  PM_B0_IMAGE_ADDRESS :: u32
  PM_B0_IMAGE_SIZE :: u32
  SB_VALIDATE_FW_SIGNATURE :: bool
  SB_PUBLIC_KEY_HASH_LEN :: nat
  FW_INFO_VALID_VAL :: u32
  FIRMWARE_INFO_MAGIC :: "u8 list"
  VALIDATION_INFO_MAGIC :: "u8 list"
  fw_info_images :: "u32 list"
  fprotect_area :: "u32 \<Rightarrow> u32 \<Rightarrow> bool"
  nrfx_nvmc_word_write :: "flash \<Rightarrow> u32 \<Rightarrow> u32 \<Rightarrow> flash"
  ocrypto_sha256 :: "u8 list \<Rightarrow> u8 list"
  ocrypto_ecdsa_p256_verify_hash :: "u8 list \<Rightarrow> u8 list \<Rightarrow> u8 list \<Rightarrow> bool"

definition nvmc_ok :: "bl_env \<Rightarrow> bool" where
  "nvmc_ok E \<longleftrightarrow> (\<forall>m a v b. a AND 3 = 0 \<longrightarrow> nrfx_nvmc_word_write E m a v b =
     (if b - a < 4 then m b AND ucast (drop_bit (8 * unat (b - a)) v) else m b))"

section \<open>Slots and keys\<close>

definition s0_address_read :: "bl_env \<Rightarrow> flash \<Rightarrow> u32" where
  "s0_address_read E m = read32 m (PM_PROVISION_ADDRESS E)"

definition s1_address_read :: "bl_env \<Rightarrow> flash \<Rightarrow> u32" where
  "s1_address_read E m = read32 m (PM_PROVISION_ADDRESS E + 4)"

definition num_public_keys_read :: "bl_env \<Rightarrow> flash \<Rightarrow> u32" where
  "num_public_keys_read E m = read32 m (PM_PROVISION_ADDRESS E + 8)"

text \<open>The address of \<open>key_data[idx]\<close>: a word \<open>valid\<close> and the hash.\<close>

definition key_data :: "bl_env \<Rightarrow> u32 \<Rightarrow> u32" where
  "key_data E idx = PM_PROVISION_ADDRESS E + 12 + idx * of_nat (4 + SB_PUBLIC_KEY_HASH_LEN E)"

abbreviation (input) INVALID_VAL :: u32 where "INVALID_VAL \<equiv> 0xFFFF0000"

definition key_is_valid :: "bl_env \<Rightarrow> flash \<Rightarrow> u32 \<Rightarrow> bool" where
  "key_is_valid E m key_idx \<longleftrightarrow> read32 m (key_data E key_idx) \<noteq> INVALID_VAL"

text \<open>Only aligned words can be accessed: the half-word is cut out of the word around it.\<close>

definition read_halfword :: "flash \<Rightarrow> u32 \<Rightarrow> u16" where
  "read_halfword m ptr =
     (let top_half = (ptr mod 4 \<noteq> 0); target_addr = ptr AND NOT 3; val32 = read32 m target_addr in
      ucast ((if top_half then drop_bit 16 val32 else val32) AND 0x0000FFFF))"

definition write_halfword :: "bl_env \<Rightarrow> flash \<Rightarrow> u32 \<Rightarrow> u16 \<Rightarrow> flash" where
  "write_halfword E m ptr val =
     (let top_half = (ptr mod 4 \<noteq> 0); target_addr = ptr AND NOT 3;
          val32 = ucast val OR 0xFFFF0000; val32_shifted = push_bit 16 (ucast val) OR 0x0000FFFF in
      nrfx_nvmc_word_write E m target_addr (if top_half then val32_shifted else val32))"

definition verify_public_keys :: "bl_env \<Rightarrow> flash \<Rightarrow> err option" where
  "verify_public_keys E m =
     (if list_ex (\<lambda>n. key_is_valid E m (of_nat n) \<and>
           list_ex (\<lambda>i. read_halfword m (key_data E (of_nat n) + 4 + 2 * of_nat i) = 0xFFFF) [0..<SB_PUBLIC_KEY_HASH_LEN E div 2])
         [0..<unat (num_public_keys_read E m)]
      then Some EHASHFF else None)"

definition public_key_data_read :: "bl_env \<Rightarrow> flash \<Rightarrow> u32 \<Rightarrow> u32 \<Rightarrow> u8 list res" where
  "public_key_data_read E m key_idx buf_size =
     (if \<not> key_is_valid E m key_idx then Inl EINVAL
      else if unat buf_size < SB_PUBLIC_KEY_HASH_LEN E then Inl ENOMEM
      else if key_idx \<ge> num_public_keys_read E m then Inl EFAULT
      else Inr (read8 m (key_data E key_idx + 4) (SB_PUBLIC_KEY_HASH_LEN E)))"

definition invalidate_public_key :: "bl_env \<Rightarrow> flash \<Rightarrow> u32 \<Rightarrow> flash" where
  "invalidate_public_key E m key_idx =
     (if read32 m (key_data E key_idx) \<noteq> INVALID_VAL then nrfx_nvmc_word_write E m (key_data E key_idx) INVALID_VAL else m)"

section \<open>Counters\<close>

abbreviation (input) TYPE_COUNTERS :: u16 where "TYPE_COUNTERS \<equiv> 1"
abbreviation (input) COUNTER_DESC_VERSION :: u16 where "COUNTER_DESC_VERSION \<equiv> 1"

text \<open>A counter collection is a type, the number of counters and the counters; a counter is a description, the
  number of slots and the slots, all of them half-words.\<close>

definition get_counter_collection :: "bl_env \<Rightarrow> flash \<Rightarrow> u32 option" where
  "get_counter_collection E m =
     (let collection = key_data E (num_public_keys_read E m) in
      if read_halfword m collection = TYPE_COUNTERS then Some collection else None)"

fun counter_find :: "flash \<Rightarrow> u16 \<Rightarrow> nat \<Rightarrow> u32 \<Rightarrow> u32 option" where
  "counter_find m description 0 current = None"
| "counter_find m description (Suc n) current =
     (let num_slots = read_halfword m (current + 2) in
      if read_halfword m current = description then Some current
      else counter_find m description n (current + 4 + 2 * ucast num_slots))"

definition get_counter_struct :: "bl_env \<Rightarrow> flash \<Rightarrow> u16 \<Rightarrow> u32 option" where
  "get_counter_struct E m description = (case get_counter_collection E m of None \<Rightarrow> None
     | Some counters \<Rightarrow> counter_find m description (unat (read_halfword m (counters + 2))) (counters + 4))"

definition num_monotonic_counter_slots :: "bl_env \<Rightarrow> flash \<Rightarrow> u16" where
  "num_monotonic_counter_slots E m =
     (let num_slots = (case get_counter_struct E m COUNTER_DESC_VERSION of None \<Rightarrow> 0 | Some c \<Rightarrow> read_halfword m (c + 2)) in
      if num_slots \<noteq> 0xFFFF then num_slots else 0)"

fun counter_loop :: "flash \<Rightarrow> u32 list \<Rightarrow> u16 \<Rightarrow> u16 \<times> u32 option" where
  "counter_loop m [] highest = (highest, None)"
| "counter_loop m (a # slots) highest =
     (let counter = NOT (read_halfword m a) in
      if counter = 0 then (highest, Some a)
      else counter_loop m slots (if highest < counter then counter else highest))"

text \<open>Without a counter the slots are at an offset from NULL, but there are none.\<close>

definition get_counter :: "bl_env \<Rightarrow> flash \<Rightarrow> u16 \<times> u32 option" where
  "get_counter E m =
     (let slots = (case get_counter_struct E m COUNTER_DESC_VERSION of None \<Rightarrow> 4 | Some c \<Rightarrow> c + 4);
          num_slots = num_monotonic_counter_slots E m in
      counter_loop m (map (\<lambda>i. slots + 2 * of_nat i) [0..<unat num_slots]) 0)"

definition get_monotonic_counter :: "bl_env \<Rightarrow> flash \<Rightarrow> u16" where
  "get_monotonic_counter E m = fst (get_counter E m)"

definition set_monotonic_counter :: "bl_env \<Rightarrow> flash \<Rightarrow> u16 \<Rightarrow> flash \<times> err option" where
  "set_monotonic_counter E m new_counter = (case get_counter E m of (counter, next_counter_addr) \<Rightarrow>
     if new_counter \<le> counter then (m, Some EINVAL)
     else case next_counter_addr of None \<Rightarrow> (m, Some ENOMEM)
     | Some a \<Rightarrow> (write_halfword E m a (NOT new_counter), None))"

section \<open>Half-words\<close>

lemma u32_less_4: "(x :: u32) < 4 \<longleftrightarrow> x = 0 \<or> x = 1 \<or> x = 2 \<or> x = 3"
proof -
  have "x < 4 \<longleftrightarrow> unat x \<in> {0, 1, 2, 3}" by (auto simp: word_less_nat_alt)
  then show ?thesis by (simp add: word_unat_eq_iff)
qed

lemma u32_masks: "(3 :: u32) = mask 2" "(0xFFFF :: u32) = mask 16"
  by (simp_all add: mask_eq_exp_minus_1)

lemma mod_4_eq: "(p :: u32) mod 4 = p AND 3"
  using take_bit_eq_mod [of 2 p] by (simp add: u32_masks take_bit_eq_mask)

lemma align_split: "(p :: u32) = (p AND NOT 3) + p mod 4"
proof -
  have "(p AND NOT 3) + (p AND 3) = (p AND NOT 3) OR (p AND 3)"
    by (rule disjunctive_add_eq_or) (auto simp: bit_eq_iff bit_simps u32_masks)
  also have "\<dots> = p" by (auto simp: bit_eq_iff bit_simps u32_masks)
  finally show ?thesis by (simp only: mod_4_eq)
qed

lemma mod_4_cases:
  fixes p :: u32 assumes "even p" shows "p mod 4 = 0 \<or> p mod 4 = 2"
proof -
  have "p mod 4 < 4" by (simp add: word_less_nat_alt unat_mod)
  then have "p mod 4 = 0 \<or> p mod 4 = 1 \<or> p mod 4 = 2 \<or> p mod 4 = 3" by (simp only: u32_less_4)
  moreover have "even (p mod 4)" using assms by (simp add: mod_4_eq even_and_iff)
  ultimately show ?thesis by auto
qed

lemma halfword_cases:
  fixes p :: u32 assumes "even p"
  obtains (low) "p mod 4 = 0" "p AND NOT 3 = p" | (high) t where "p mod 4 = 2" "p AND NOT 3 = t" "p = t + 2" "t mod 4 = 0"
proof -
  consider "p mod 4 = 0" | "p mod 4 = 2" using mod_4_cases [OF assms] by blast
  then show ?thesis
  proof cases
    case 1
    then show ?thesis using low align_split [of p] by simp
  next
    case 2
    have "(p AND NOT 3) mod 4 = 0" by (auto simp only: mod_4_eq) (auto simp: bit_eq_iff bit_simps u32_masks)
    then show ?thesis using high [of "p AND NOT 3"] align_split [of p] 2 by simp
  qed
qed

lemma half_of_be32:
  "ucast (be32 d c b a AND 0xFFFF) = be16 b a" "ucast (drop_bit 16 (be32 d c b a) AND 0xFFFF) = be16 d c"
   unfolding u32_masks take_bit_eq_mask [symmetric]
  by (rule bit_word_eqI; auto simp: be32_def be16_def bit_simps)+

lemma read_halfword_eq:
  assumes "even p" shows "read_halfword m p = read16 m p"
  using assms
proof (cases rule: halfword_cases)
  case low
  then show ?thesis by (simp add: read_halfword_def read16_def read32_def half_of_be32)
next
  case (high t)
  then show ?thesis by (simp add: read_halfword_def read16_def read32_def half_of_be32 add.commute)
qed

lemma nvmc_write:
  assumes "nvmc_ok E" "a mod 4 = 0"
  shows "nrfx_nvmc_word_write E m a v b =
    (if b = a then m b AND ucast v else if b = a + 1 then m b AND ucast (drop_bit 8 v)
     else if b = a + 2 then m b AND ucast (drop_bit 16 v) else if b = a + 3 then m b AND ucast (drop_bit 24 v) else m b)"
proof -
  have "nrfx_nvmc_word_write E m a v b = (if b - a < 4 then m b AND ucast (drop_bit (8 * unat (b - a)) v) else m b)"
    using assms by (simp add: nvmc_ok_def mod_4_eq)
  moreover have "b - a = k \<longleftrightarrow> b = a + k" for k by (metis add.commute add_diff_cancel_right' diff_add_cancel)
  ultimately show ?thesis unfolding u32_less_4 by auto
qed

lemma half_bytes:
  fixes v :: u16
  shows "ucast (ucast v OR (0xFFFF0000 :: u32)) = (ucast v :: u8)" "ucast (drop_bit 8 (ucast v OR (0xFFFF0000 :: u32))) = (ucast (drop_bit 8 v) :: u8)"
    "ucast (drop_bit 16 (ucast v OR (0xFFFF0000 :: u32))) = (- 1 :: u8)" "ucast (drop_bit 24 (ucast v OR (0xFFFF0000 :: u32))) = (- 1 :: u8)"
    "ucast (push_bit 16 (ucast v) OR (0xFFFF :: u32)) = (- 1 :: u8)" "ucast (drop_bit 8 (push_bit 16 (ucast v) OR (0xFFFF :: u32))) = (- 1 :: u8)"
    "ucast (drop_bit 16 (push_bit 16 (ucast v) OR (0xFFFF :: u32))) = (ucast v :: u8)"
    "ucast (drop_bit 24 (push_bit 16 (ucast v) OR (0xFFFF :: u32))) = (ucast (drop_bit 8 v) :: u8)"
proof -
  have h: "(0xFFFF0000 :: u32) = push_bit 16 (mask 16)" by (simp add: mask_eq_exp_minus_1 push_bit_eq_mult)
  show "ucast (ucast v OR (0xFFFF0000 :: u32)) = (ucast v :: u8)" "ucast (drop_bit 8 (ucast v OR (0xFFFF0000 :: u32))) = (ucast (drop_bit 8 v) :: u8)"
    "ucast (drop_bit 16 (ucast v OR (0xFFFF0000 :: u32))) = (- 1 :: u8)" "ucast (drop_bit 24 (ucast v OR (0xFFFF0000 :: u32))) = (- 1 :: u8)"
    "ucast (push_bit 16 (ucast v) OR (0xFFFF :: u32)) = (- 1 :: u8)" "ucast (drop_bit 8 (push_bit 16 (ucast v) OR (0xFFFF :: u32))) = (- 1 :: u8)"
    "ucast (drop_bit 16 (push_bit 16 (ucast v) OR (0xFFFF :: u32))) = (ucast v :: u8)"
    "ucast (drop_bit 24 (push_bit 16 (ucast v) OR (0xFFFF :: u32))) = (ucast (drop_bit 8 v) :: u8)"
    unfolding h u32_masks by (rule bit_word_eqI; auto simp: bit_simps)+
qed

lemma write_halfword_eq:
  assumes "nvmc_ok E" "even p"
  shows "write_halfword E m p v b = (if b = p then m b AND ucast v else if b = p + 1 then m b AND ucast (drop_bit 8 v) else m b)"
  using assms(2)
proof (cases rule: halfword_cases)
  case low
  define V :: u32 where "V = ucast v OR 0xFFFF0000"
  have "write_halfword E m p v = nrfx_nvmc_word_write E m p V" using low by (simp add: write_halfword_def V_def)
  then show ?thesis using nvmc_write [OF assms(1) low(1), of m V b] half_bytes(1-4) [of v, folded V_def] by simp
next
  case (high t)
  define V :: u32 where "V = push_bit 16 (ucast v) OR 0xFFFF"
  have "write_halfword E m p v = nrfx_nvmc_word_write E m t V" using high by (simp add: write_halfword_def V_def)
  moreover have "p + 1 = t + 3" using high(3) by simp
  ultimately show ?thesis using nvmc_write [OF assms(1) high(4), of m V b] half_bytes(5-8) [of v, folded V_def]
    unfolding high(3) [symmetric] by (auto simp: high(3))
qed

section \<open>Layout\<close>

lemma unat_plus_nat: "unat (a :: u32) + n < 2 ^ 32 \<Longrightarrow> unat (a + of_nat n) = unat a + n"
  by (subst unat_add_no_wrap_u32) (simp_all add: unat_of_nat_u32)

lemma unat_plus_num: "unat (a :: u32) + numeral k < 2 ^ 32 \<Longrightarrow> unat (a + numeral k) = unat a + numeral k"
  using unat_plus_nat [of a "numeral k"] by simp

lemma unat_plus_1: "unat (a :: u32) + 1 < 2 ^ 32 \<Longrightarrow> unat (a + 1) = unat a + 1"
  using unat_plus_nat [of a 1] by simp

lemmas unat_plus = unat_plus_nat unat_plus_num unat_plus_1

text \<open>The counters up to the one looked for lie in the address space.\<close>

fun chain_fits :: "flash \<Rightarrow> u16 \<Rightarrow> nat \<Rightarrow> u32 \<Rightarrow> bool" where
  "chain_fits m d 0 cur = True"
| "chain_fits m d (Suc n) cur = (unat cur + 4 + 2 * unat (read16 m (cur + 2)) < 2 ^ 32 \<and>
     (read16 m cur = d \<or> chain_fits m d n (cur + 4 + 2 * ucast (read16 m (cur + 2)))))"

definition counters_at :: "bl_env \<Rightarrow> flash \<Rightarrow> nat" where
  "counters_at E m = unat (PM_PROVISION_ADDRESS E) + 12 + unat (num_public_keys_read E m) * (4 + SB_PUBLIC_KEY_HASH_LEN E)"

text \<open>Provisioned storage: aligned, within the address space, with intact invalidation tokens.\<close>

definition storage_ok :: "bl_env \<Rightarrow> flash \<Rightarrow> bool" where
  "storage_ok E m \<longleftrightarrow> PM_PROVISION_ADDRESS E mod 4 = 0 \<and> SB_PUBLIC_KEY_HASH_LEN E mod 4 = 0 \<and> counters_at E m + 4 < 2 ^ 32 \<and>
     list_all (\<lambda>k. read32 m (key_data E (of_nat k)) AND INVALID_VAL = INVALID_VAL) [0..<unat (num_public_keys_read E m)] \<and>
     (read16 m (of_nat (counters_at E m)) = TYPE_COUNTERS \<longrightarrow>
        chain_fits m COUNTER_DESC_VERSION (unat (read16 m (of_nat (counters_at E m) + 2))) (of_nat (counters_at E m) + 4))"

lemma key_data_nat: "key_data E (of_nat k) = of_nat (unat (PM_PROVISION_ADDRESS E) + 12 + k * (4 + SB_PUBLIC_KEY_HASH_LEN E))"
  by (simp add: key_data_def algebra_simps)

lemma key_data_num: "key_data E (num_public_keys_read E m) = of_nat (counters_at E m)"
  using key_data_nat [of E "unat (num_public_keys_read E m)"] by (simp add: counters_at_def)

lemma mod_4_unat: "(p :: u32) mod 4 = 0 \<longleftrightarrow> unat p mod 4 = 0"
  by (simp add: word_unat_eq_iff unat_mod)

lemma counters_even: "storage_ok E m \<Longrightarrow> counters_at E m mod 4 = 0"
  by (auto simp: storage_ok_def counters_at_def mod_4_unat mod_add_eq mod_mult_right_eq)

text \<open>Where the counters are found.\<close>

lemma unat_next_counter:
  fixes cur :: u32 assumes "unat cur + 4 + 2 * unat (k :: u16) < 2 ^ 32" shows "unat (cur + 4 + 2 * ucast k) = unat cur + 4 + 2 * unat k"
proof -
  have "cur + 4 + 2 * ucast k = cur + of_nat (4 + 2 * unat k)" by (simp add: add.assoc)
  moreover have "unat (cur + of_nat (4 + 2 * unat k)) = unat cur + (4 + 2 * unat k)" using assms by (intro unat_plus_nat) simp
  ultimately show ?thesis by (simp add: add.assoc)
qed

lemma counter_find_Some:
  assumes "counter_find m d n cur = Some c" "chain_fits m d n cur" "even cur"
  shows "even c \<and> unat cur \<le> unat c \<and> unat c + 4 + 2 * unat (read16 m (c + 2)) < 2 ^ 32"
  using assms
proof (induction n arbitrary: cur)
  case (Suc n)
  have h: "read_halfword m cur = read16 m cur" "read_halfword m (cur + 2) = read16 m (cur + 2)"
    using Suc.prems(3) by (simp_all add: read_halfword_eq)
  show ?case
  proof (cases "read16 m cur = d")
    case True
    then show ?thesis using Suc.prems h by (simp add: Let_def)
  next
    case False
    have "unat (cur + 4 + 2 * ucast (read16 m (cur + 2))) = unat cur + 4 + 2 * unat (read16 m (cur + 2))"
      using Suc.prems(2) by (intro unat_next_counter) simp
    then show ?thesis using Suc.IH [of "cur + 4 + 2 * ucast (read16 m (cur + 2))"] Suc.prems False h
      by (simp add: Let_def)
  qed
qed simp

text \<open>Finding a counter reads nothing behind its header.\<close>

lemma read16_cong: "m' a = m a \<Longrightarrow> m' (a + 1) = m (a + 1) \<Longrightarrow> read16 m' a = read16 m a"
  by (simp add: read16_def)

lemma counter_find_frame:
  assumes "chain_fits m d n cur" "even cur"
    and "\<And>b. unat cur \<le> unat b \<Longrightarrow> (case counter_find m d n cur of None \<Rightarrow> True | Some c \<Rightarrow> unat b < unat c + 4) \<Longrightarrow> m' b = m b"
  shows "counter_find m' d n cur = counter_find m d n cur \<and> chain_fits m' d n cur"
  using assms
proof (induction n arbitrary: cur)
  case (Suc n)
  let ?next = "cur + 4 + 2 * ucast (read16 m (cur + 2))"
  have h: "read_halfword x cur = read16 x cur" "read_halfword x (cur + 2) = read16 x (cur + 2)" for x
    using Suc.prems(2) by (simp_all add: read_halfword_eq)
  have next_at: "unat ?next = unat cur + 4 + 2 * unat (read16 m (cur + 2))" using Suc.prems(1) by (intro unat_next_counter) simp
  have lim: "case counter_find m d (Suc n) cur of None \<Rightarrow> True | Some c \<Rightarrow> unat cur + 4 \<le> unat c + 4"
    using counter_find_Some [OF _ Suc.prems(1,2)] by (auto split: option.split)
  have low: "m' b = m b" if "unat cur \<le> unat b" "unat b < unat cur + 4" for b
    by (rule Suc.prems(3) [OF that(1)]) (use that(2) lim in \<open>auto split: option.splits\<close>)
  have fit: "unat cur + 4 < 2 ^ 32" using Suc.prems(1) by simp
  have same: "read16 m' cur = read16 m cur" "read16 m' (cur + 2) = read16 m (cur + 2)"
    using fit by (auto intro!: read16_cong low simp: unat_plus add.assoc)
  show ?case
  proof (cases "read16 m cur = d")
    case True
    then show ?thesis using same h Suc.prems(1) by (simp add: Let_def)
  next
    case False
    have "counter_find m' d n ?next = counter_find m d n ?next \<and> chain_fits m' d n ?next"
    proof (rule Suc.IH)
      show "chain_fits m d n ?next" "even ?next" using Suc.prems(1,2) False by simp_all
      show "m' b = m b" if "unat ?next \<le> unat b" "case counter_find m d n ?next of None \<Rightarrow> True | Some c \<Rightarrow> unat b < unat c + 4" for b
        by (rule Suc.prems(3)) (use that next_at False h in \<open>simp_all add: Let_def\<close>)
    qed
    then show ?thesis using False same h Suc.prems(1) by (simp add: Let_def)
  qed
qed simp

text \<open>The counter as the storage holds it.\<close>

definition counter_slots :: "bl_env \<Rightarrow> flash \<Rightarrow> u16 list" where
  "counter_slots E m = (case get_counter_struct E m COUNTER_DESC_VERSION of None \<Rightarrow> []
     | Some c \<Rightarrow> map (\<lambda>i. read16 m (c + 4 + 2 * of_nat i)) [0..<unat (num_monotonic_counter_slots E m)])"

definition used_slots :: "u16 list \<Rightarrow> u16 list" where
  "used_slots ws = takeWhile (\<lambda>w. w \<noteq> 0xFFFF) ws"

definition slots_value :: "u16 list \<Rightarrow> u16" where
  "slots_value ws = foldl max 0 (map (\<lambda>w. NOT w) (used_slots ws))"

lemma struct_layout:
  assumes "storage_ok E m" "get_counter_struct E m COUNTER_DESC_VERSION = Some c"
  shows "even c" "counters_at E m + 4 \<le> unat c" "unat c + 4 + 2 * unat (num_monotonic_counter_slots E m) < 2 ^ 32"
    "num_monotonic_counter_slots E m = (if read16 m (c + 2) = 0xFFFF then 0 else read16 m (c + 2))"
proof -
  let ?a = "of_nat (counters_at E m) :: u32"
  have e: "counters_at E m mod 4 = 0" by (rule counters_even [OF assms(1)])
  then have ev: "even (counters_at E m)" by presburger
  have lim: "counters_at E m + 4 < 2 ^ 32" using assms(1) by (simp add: storage_ok_def)
  have r: "read_halfword m ?a = read16 m ?a" "read_halfword m (?a + 2) = read16 m (?a + 2)"
    using ev by (simp_all add: read_halfword_eq)
  have f: "read16 m ?a = TYPE_COUNTERS" "counter_find m COUNTER_DESC_VERSION (unat (read16 m (?a + 2))) (?a + 4) = Some c"
    using assms(2) r by (auto simp: get_counter_struct_def get_counter_collection_def key_data_num Let_def split: if_splits)
  have ch: "chain_fits m COUNTER_DESC_VERSION (unat (read16 m (?a + 2))) (?a + 4)"
    using assms(1) f(1) by (simp add: storage_ok_def)
  have c: "even c" "unat (?a + 4) \<le> unat c" "unat c + 4 + 2 * unat (read16 m (c + 2)) < 2 ^ 32"
    using counter_find_Some [OF f(2) ch] ev by simp_all
  show "even c" by (rule c(1))
  show "counters_at E m + 4 \<le> unat c" using c(2) lim by (simp add: unat_plus unat_of_nat_u32)
  show n: "num_monotonic_counter_slots E m = (if read16 m (c + 2) = 0xFFFF then 0 else read16 m (c + 2))"
    using assms(2) c(1) by (simp add: num_monotonic_counter_slots_def read_halfword_eq)
  show "unat c + 4 + 2 * unat (num_monotonic_counter_slots E m) < 2 ^ 32" using c(3) n by simp
qed

lemma not_eq_0_u16: "NOT (w :: u16) = 0 \<longleftrightarrow> w = 0xFFFF"
proof -
  have "NOT w = 0 \<longleftrightarrow> w = NOT 0" by (metis bit.double_compl)
  moreover have "NOT 0 = (0xFFFF :: u16)" by code_simp
  ultimately show ?thesis by metis
qed

lemma counter_loop_eq:
  "\<forall>a \<in> set slots. even a \<Longrightarrow> counter_loop m slots h =
    (foldl max h (map (\<lambda>w. NOT w) (used_slots (map (read16 m) slots))),
     let k = length (used_slots (map (read16 m) slots)) in if k < length slots then Some (slots ! k) else None)"
proof (induction slots arbitrary: h)
  case (Cons a slots)
  have r: "read_halfword m a = read16 m a" using Cons.prems by (simp add: read_halfword_eq)
  show ?case
  proof (cases "read16 m a = 0xFFFF")
    case True
    then show ?thesis using r not_eq_0_u16 [of "read16 m a"] by (simp add: used_slots_def)
  next
    case False
    have "(if h < NOT (read16 m a) then NOT (read16 m a) else h) = max h (NOT (read16 m a))" by (auto simp: max_def)
    then show ?thesis using r not_eq_0_u16 [of "read16 m a"] False Cons.IH [of "max h (NOT (read16 m a))"] Cons.prems
      by (simp add: used_slots_def Let_def)
  qed
qed (simp add: used_slots_def)

lemma get_counter_eq:
  assumes "storage_ok E m"
  shows "fst (get_counter E m) = slots_value (counter_slots E m)"
    "snd (get_counter E m) = (case get_counter_struct E m COUNTER_DESC_VERSION of None \<Rightarrow> None
       | Some c \<Rightarrow> let k = length (used_slots (counter_slots E m)) in
           if k < length (counter_slots E m) then Some (c + 4 + 2 * of_nat k) else None)"
proof -
  have "fst (get_counter E m) = slots_value (counter_slots E m) \<and>
    snd (get_counter E m) = (case get_counter_struct E m COUNTER_DESC_VERSION of None \<Rightarrow> None
       | Some c \<Rightarrow> let k = length (used_slots (counter_slots E m)) in
           if k < length (counter_slots E m) then Some (c + 4 + 2 * of_nat k) else None)"
  proof (cases "get_counter_struct E m COUNTER_DESC_VERSION")
    case None
    then show ?thesis
      by (simp add: get_counter_def counter_slots_def num_monotonic_counter_slots_def slots_value_def used_slots_def)
  next
    case (Some c)
    let ?as = "map (\<lambda>i. c + 4 + 2 * of_nat i) [0..<unat (num_monotonic_counter_slots E m)]"
    have "\<forall>a \<in> set ?as. even a" using struct_layout(1) [OF assms Some] by auto
    from counter_loop_eq [OF this, of m 0] show ?thesis using Some
      by (simp add: get_counter_def counter_slots_def slots_value_def Let_def comp_def)
  qed
  then show "fst (get_counter E m) = slots_value (counter_slots E m)"
    "snd (get_counter E m) = (case get_counter_struct E m COUNTER_DESC_VERSION of None \<Rightarrow> None
       | Some c \<Rightarrow> let k = length (used_slots (counter_slots E m)) in
           if k < length (counter_slots E m) then Some (c + 4 + 2 * of_nat k) else None)" by blast+
qed

section \<open>Writes\<close>

text \<open>Memory that agrees on the header, and on the counters up to the slots, holds the same counter.\<close>

lemma storage_frame:
  assumes ok: "storage_ok E m"
    and head: "\<And>b. unat (PM_PROVISION_ADDRESS E) \<le> unat b \<Longrightarrow> unat b < unat (PM_PROVISION_ADDRESS E) + 12 \<Longrightarrow> m' b = m b"
    and count: "\<And>b. counters_at E m \<le> unat b \<Longrightarrow>
      (case get_counter_struct E m COUNTER_DESC_VERSION of None \<Rightarrow> True | Some c \<Rightarrow> unat b < unat c + 4) \<Longrightarrow> m' b = m b"
    and tokens: "\<And>k. k < unat (num_public_keys_read E m) \<Longrightarrow> read32 m' (key_data E (of_nat k)) AND INVALID_VAL = INVALID_VAL"
  shows "num_public_keys_read E m' = num_public_keys_read E m" "get_counter_struct E m' COUNTER_DESC_VERSION = get_counter_struct E m COUNTER_DESC_VERSION"
    "num_monotonic_counter_slots E m' = num_monotonic_counter_slots E m" "storage_ok E m'"
proof -
  let ?p = "PM_PROVISION_ADDRESS E" and ?a = "of_nat (counters_at E m) :: u32"
  have lim: "counters_at E m + 4 < 2 ^ 32" using ok by (simp add: storage_ok_def)
  have plim: "unat ?p + 12 \<le> counters_at E m" by (simp add: counters_at_def)
  show num: "num_public_keys_read E m' = num_public_keys_read E m"
    using plim lim by (simp add: num_public_keys_read_def read32_def head unat_plus add.assoc)
  have at: "counters_at E m' = counters_at E m" by (simp add: counters_at_def num)
  have ev: "even ?a" using counters_even [OF ok] by (simp add: mod_0_imp_dvd) presburger
  have ua: "unat ?a = counters_at E m" using lim by (simp add: unat_of_nat_u32)
  have r: "read_halfword x ?a = read16 x ?a" "read_halfword x (?a + 2) = read16 x (?a + 2)" for x
    using ev by (simp_all add: read_halfword_eq)
  have b4: "m' b = m b" if "counters_at E m \<le> unat b" "unat b < counters_at E m + 4" for b
    by (rule count [OF that(1)]) (use that(2) struct_layout(2) [OF ok] in \<open>force split: option.splits\<close>)
  have hd: "read16 m' ?a = read16 m ?a" "read16 m' (?a + 2) = read16 m (?a + 2)"
    using lim ua by (auto intro!: read16_cong b4 simp: unat_plus add.assoc)
  have find: "counter_find m' COUNTER_DESC_VERSION (unat (read16 m (?a + 2))) (?a + 4) =
      counter_find m COUNTER_DESC_VERSION (unat (read16 m (?a + 2))) (?a + 4) \<and>
    chain_fits m' COUNTER_DESC_VERSION (unat (read16 m (?a + 2))) (?a + 4)" if t: "read16 m ?a = TYPE_COUNTERS"
  proof (rule counter_find_frame)
    show "chain_fits m COUNTER_DESC_VERSION (unat (read16 m (?a + 2))) (?a + 4)" using ok t by (simp add: storage_ok_def)
    show "even (?a + 4)" using ev by simp
    show "m' b = m b" if "unat (?a + 4) \<le> unat b"
      "case counter_find m COUNTER_DESC_VERSION (unat (read16 m (?a + 2))) (?a + 4) of None \<Rightarrow> True | Some c \<Rightarrow> unat b < unat c + 4" for b
      by (rule count) (use that ua lim t r in \<open>simp_all add: unat_plus get_counter_struct_def get_counter_collection_def key_data_num\<close>)
  qed
  show st: "get_counter_struct E m' COUNTER_DESC_VERSION = get_counter_struct E m COUNTER_DESC_VERSION"
    using find hd r at by (auto simp: get_counter_struct_def get_counter_collection_def key_data_num Let_def split: option.splits)
  show "storage_ok E m'" using ok tokens find hd by (auto simp: storage_ok_def num at list_all_iff)
  show "num_monotonic_counter_slots E m' = num_monotonic_counter_slots E m"
  proof (cases "get_counter_struct E m COUNTER_DESC_VERSION")
    case (Some c)
    have c: "even c" "counters_at E m + 4 \<le> unat c" "unat c + 4 < 2 ^ 32" using struct_layout [OF ok Some] by simp_all
    have "read16 m' (c + 2) = read16 m (c + 2)"
      using c Some by (auto intro!: read16_cong count simp: unat_plus add.assoc)
    then show ?thesis using st Some c(1) by (simp add: num_monotonic_counter_slots_def read_halfword_eq)
  qed (use st in \<open>simp add: num_monotonic_counter_slots_def\<close>)
qed

lemma and_minus_1_u16: "0xFFFF AND (w :: u16) = w"
proof -
  have "(0xFFFF :: u16) = - 1" by code_simp
  then show ?thesis by (metis and.left_neutral)
qed

lemma be16_and: "be16 (a AND c) (b AND d) = be16 a b AND be16 c d"
  by (rule bit_word_eqI) (auto simp: be16_def bit_simps dest: bit_imp_le_length)

lemma read16_write:
  assumes "nvmc_ok E" "even p" "even q"
  shows "read16 (write_halfword E m p v) q = (if q = p then read16 m p AND v else read16 m q)"
proof -
  have "q \<noteq> p + 1" "q + 1 \<noteq> p" using assms(2,3) by auto
  then show ?thesis
    using be16_and [of "m (p + 1)" "ucast (drop_bit 8 v)" "m p" "ucast v"]
    by (auto simp: read16_def write_halfword_eq [OF assms(1,2)])
qed

text \<open>Writing a slot that is free.\<close>

lemma slot_address:
  assumes "storage_ok E m" "get_counter_struct E m COUNTER_DESC_VERSION = Some c" "k < unat (num_monotonic_counter_slots E m)"
  shows "unat (c + 4 + 2 * of_nat k) = unat c + 4 + 2 * k" "even (c + 4 + 2 * of_nat k)" "unat c + 4 + 2 * k + 1 < 2 ^ 32"
proof -
  show l: "unat c + 4 + 2 * k + 1 < 2 ^ 32" using struct_layout(3) [OF assms(1,2)] assms(3) by simp
  have "unat (c + of_nat (4 + 2 * k)) = unat c + (4 + 2 * k)" using l by (intro unat_plus_nat) simp
  then show "unat (c + 4 + 2 * of_nat k) = unat c + 4 + 2 * k" by (simp add: add.assoc)
  show "even (c + 4 + 2 * of_nat k)" using struct_layout(1) [OF assms(1,2)] by simp
qed

lemma length_counter_slots:
  "get_counter_struct E m COUNTER_DESC_VERSION = Some c \<Longrightarrow> length (counter_slots E m) = unat (num_monotonic_counter_slots E m)"
  by (simp add: counter_slots_def)

lemma key_address:
  assumes "storage_ok E m" "j < unat (num_public_keys_read E m)"
  shows "unat (key_data E (of_nat j)) = unat (PM_PROVISION_ADDRESS E) + 12 + j * (4 + SB_PUBLIC_KEY_HASH_LEN E)"
    "unat (key_data E (of_nat j)) + 4 + SB_PUBLIC_KEY_HASH_LEN E \<le> counters_at E m" "key_data E (of_nat j) mod 4 = 0"
proof -
  let ?h = "4 + SB_PUBLIC_KEY_HASH_LEN E" and ?p = "unat (PM_PROVISION_ADDRESS E)"
  have "Suc j * ?h \<le> unat (num_public_keys_read E m) * ?h" using assms(2) by (intro mult_right_mono) simp_all
  then have le: "?p + 12 + j * ?h + ?h \<le> counters_at E m" by (simp add: counters_at_def)
  have lim: "counters_at E m + 4 < 2 ^ 32" and al: "?p mod 4 = 0" "SB_PUBLIC_KEY_HASH_LEN E mod 4 = 0"
    using assms(1) by (simp_all add: storage_ok_def mod_4_unat)
  show u: "unat (key_data E (of_nat j)) = ?p + 12 + j * ?h"
    unfolding key_data_nat using le lim by (intro unat_of_nat_u32) simp
  show "unat (key_data E (of_nat j)) + 4 + SB_PUBLIC_KEY_HASH_LEN E \<le> counters_at E m" using le u by simp
  show "key_data E (of_nat j) mod 4 = 0" unfolding mod_4_unat u using al by (simp add: mod_add_eq mod_mult_right_eq mod_0_imp_dvd dvd_imp_mod_0)
qed

lemma key_bytes:
  assumes "storage_ok E m" "j < unat (num_public_keys_read E m)" "i < 4 + SB_PUBLIC_KEY_HASH_LEN E"
  shows "unat (key_data E (of_nat j) + of_nat i) = unat (key_data E (of_nat j)) + i" "unat (key_data E (of_nat j) + of_nat i) < counters_at E m"
proof -
  have lim: "counters_at E m + 4 < 2 ^ 32" using assms(1) by (simp add: storage_ok_def)
  show u: "unat (key_data E (of_nat j) + of_nat i) = unat (key_data E (of_nat j)) + i"
    using key_address(2) [OF assms(1,2)] assms(3) lim by (intro unat_plus_nat) simp
  show "unat (key_data E (of_nat j) + of_nat i) < counters_at E m" using u key_address(2) [OF assms(1,2)] assms(3) by simp
qed

lemma key_token_cong:
  assumes "storage_ok E m" "j < unat (num_public_keys_read E m)" "\<And>i. i < 4 \<Longrightarrow> m' (key_data E (of_nat j) + of_nat i) = m (key_data E (of_nat j) + of_nat i)"
  shows "read32 m' (key_data E (of_nat j)) = read32 m (key_data E (of_nat j))"
  using assms(3) [of 0] assms(3) [of 1] assms(3) [of 2] assms(3) [of 3] by (simp add: read32_def)

lemma slot_write:
  fixes w :: u16
  assumes ok: "storage_ok E m" "nvmc_ok E" and c: "get_counter_struct E m COUNTER_DESC_VERSION = Some c"
    and k: "k < length (counter_slots E m)" "counter_slots E m ! k = 0xFFFF"
  defines "m' \<equiv> write_halfword E m (c + 4 + 2 * of_nat k) w"
  shows "storage_ok E m'" "counter_slots E m' = (counter_slots E m)[k := w]" "\<And>b. unat b < counters_at E m + 4 \<Longrightarrow> m' b = m b"
    "num_public_keys_read E m' = num_public_keys_read E m"
proof -
  have n: "length (counter_slots E m) = unat (num_monotonic_counter_slots E m)" by (rule length_counter_slots [OF c])
  note a = slot_address [OF ok(1) c, of k, unfolded n [symmetric], OF k(1)]
  have cl: "counters_at E m + 4 \<le> unat c" by (rule struct_layout(2) [OF ok(1) c])
  have a1: "unat (c + 4 + 2 * of_nat k + 1) = unat c + 4 + 2 * k + 1"
    using a(1,3) unat_plus_1 [of "c + 4 + 2 * of_nat k"] by linarith
  have low: "m' b = m b" if "unat b < unat c + 4" for b
  proof -
    have "b \<noteq> c + 4 + 2 * of_nat k" "b \<noteq> c + 4 + 2 * of_nat k + 1" using that a(1) a1 by auto
    then show ?thesis by (simp add: m'_def write_halfword_eq [OF ok(2) a(2)])
  qed
  show keep: "m' b = m b" if "unat b < counters_at E m + 4" for b using low that cl by simp
  have plim: "unat (PM_PROVISION_ADDRESS E) + 12 \<le> counters_at E m" by (simp add: counters_at_def)
  have tok: "read32 m' (key_data E (of_nat j)) = read32 m (key_data E (of_nat j))" if "j < unat (num_public_keys_read E m)" for j
  proof (rule key_token_cong [OF ok(1) that])
    show "m' (key_data E (of_nat j) + of_nat i) = m (key_data E (of_nat j) + of_nat i)" if "i < 4" for i
      using key_bytes(2) [OF ok(1) \<open>j < unat (num_public_keys_read E m)\<close>, of i] that by (intro keep) simp
  qed
  have fr: "num_public_keys_read E m' = num_public_keys_read E m" "get_counter_struct E m' COUNTER_DESC_VERSION = Some c"
    "num_monotonic_counter_slots E m' = num_monotonic_counter_slots E m" "storage_ok E m'"
    using storage_frame [OF ok(1), of m'] keep low plim c tok ok(1) by (auto simp: storage_ok_def list_all_iff)
  show "storage_ok E m'" "num_public_keys_read E m' = num_public_keys_read E m" by (fact fr)+
  show "counter_slots E m' = (counter_slots E m)[k := w]"
  proof (rule nth_equalityI)
    show "length (counter_slots E m') = length ((counter_slots E m)[k := w])" using fr c by (simp add: length_counter_slots)
    fix i assume "i < length (counter_slots E m')"
    then have i: "i < unat (num_monotonic_counter_slots E m)" using fr by (simp add: length_counter_slots)
    have e: "even (c + 4 + 2 * of_nat i)" by (rule slot_address(2) [OF ok(1) c i])
    have eq: "c + 4 + 2 * of_nat i = c + 4 + 2 * of_nat k \<longleftrightarrow> i = k"
      using slot_address(1) [OF ok(1) c i] a(1) by (metis add_left_cancel mult_left_cancel zero_neq_numeral)
    have "counter_slots E m' ! i = read16 m' (c + 4 + 2 * of_nat i)" using i fr by (simp add: counter_slots_def)
    also have "\<dots> = (if i = k then 0xFFFF AND w else counter_slots E m ! i)"
      unfolding m'_def read16_write [OF ok(2) a(2) e] eq using i c k(2) n k(1) by (simp add: counter_slots_def)
    finally show "counter_slots E m' ! i = (counter_slots E m)[k := w] ! i" using i n k(1) and_minus_1_u16 by simp
  qed
qed

end
