(* ===== verification/Bl_Storage_Inv.thy ===== *)
theory Bl_Storage_Inv
  imports Bl_Storage
begin

text \<open>
  What the operations of the bootloader storage do to provisioned storage: the counter only grows, an invalidated
  key stays invalid, and nothing else changes.
\<close>

section \<open>Values of slots\<close>

lemma used_slots_free: "length (used_slots ws) < length ws \<Longrightarrow> ws ! length (used_slots ws) = 0xFFFF"
  using nth_length_takeWhile [of "\<lambda>w. w \<noteq> 0xFFFF" ws] by (simp add: used_slots_def)

lemma used_slots_update:
  assumes "length (used_slots ws) < length ws" "w \<noteq> 0xFFFF"
  shows "used_slots (ws[length (used_slots ws) := w]) = used_slots ws @ w # used_slots (drop (Suc (length (used_slots ws))) ws)"
  using assms
proof (induction ws)
  case (Cons a ws)
  then show ?case by (cases "a = 0xFFFF") (simp_all add: used_slots_def)
qed simp

lemma foldl_max_ge: "(h :: u16) \<le> foldl max h xs"
  by (induction xs arbitrary: h) (auto intro: order.trans [OF max.cobounded1])

lemma slots_value_update:
  assumes "length (used_slots ws) < length ws" "w \<noteq> 0xFFFF"
  shows "max (slots_value ws) (NOT w) \<le> slots_value (ws[length (used_slots ws) := w])"
  using foldl_max_ge by (simp add: slots_value_def used_slots_update [OF assms])

text \<open>Slots are used in order.\<close>

definition slots_packed :: "u16 list \<Rightarrow> bool" where
  "slots_packed ws \<longleftrightarrow> list_all (\<lambda>w. w = 0xFFFF) (drop (length (used_slots ws)) ws)"

lemma slots_packed_update:
  assumes "slots_packed ws" "length (used_slots ws) < length ws" "w \<noteq> 0xFFFF"
  shows "slots_packed (ws[length (used_slots ws) := w])" "slots_value (ws[length (used_slots ws) := w]) = max (slots_value ws) (NOT w)"
    "length (used_slots (ws[length (used_slots ws) := w])) = Suc (length (used_slots ws))"
proof -
  let ?k = "length (used_slots ws)"
  have "drop ?k ws = ws ! ?k # drop (Suc ?k) ws" using assms(2) by (rule Cons_nth_drop_Suc [symmetric])
  then have later: "list_all (\<lambda>w. w = 0xFFFF) (drop (Suc ?k) ws)" using assms(1) by (simp add: slots_packed_def)
  then have e: "used_slots (drop (Suc ?k) ws) = []" by (cases "drop (Suc ?k) ws") (auto simp: used_slots_def)
  have u: "used_slots (ws[?k := w]) = used_slots ws @ [w]" using used_slots_update [OF assms(2,3)] e by simp
  show "slots_packed (ws[?k := w])" using later by (simp add: slots_packed_def u)
  show "slots_value (ws[?k := w]) = max (slots_value ws) (NOT w)" by (simp add: slots_value_def u)
  show "length (used_slots (ws[?k := w])) = Suc ?k" by (simp add: u)
qed

section \<open>Setting the counter\<close>

lemma not_new_not_free:
  assumes "slots_value ws < (v :: u16)" shows "NOT v \<noteq> 0xFFFF"
proof
  assume "NOT v = 0xFFFF"
  then have "v = 0" using not_eq_0_u16 [of "NOT v"] by (metis bit.double_compl)
  then show False using assms by simp
qed

lemma set_counter_cases:
  assumes ok: "storage_ok E m" "nvmc_ok E"
  defines "ws \<equiv> counter_slots E m"
  obtains (low) "v \<le> slots_value ws" "set_monotonic_counter E m v = (m, Some EINVAL)"
    | (full) "slots_value ws < v" "length (used_slots ws) = length ws" "set_monotonic_counter E m v = (m, Some ENOMEM)"
    | (set) m' where "slots_value ws < v" "length (used_slots ws) < length ws" "set_monotonic_counter E m v = (m', None)"
        "storage_ok E m'" "counter_slots E m' = ws[length (used_slots ws) := NOT v]"
        "\<And>b. unat b < counters_at E m + 4 \<Longrightarrow> m' b = m b" "num_public_keys_read E m' = num_public_keys_read E m"
proof -
  let ?k = "length (used_slots ws)"
  have g: "get_counter E m = (slots_value ws, case get_counter_struct E m 1 of None \<Rightarrow> None
     | Some c \<Rightarrow> if ?k < length ws then Some (c + 4 + 2 * of_nat ?k) else None)"
    unfolding ws_def by (rule prod_eqI) (simp_all only: fst_conv snd_conv get_counter_eq [OF ok(1)] Let_def)
  have le: "?k \<le> length ws" by (simp add: used_slots_def length_takeWhile_le)
  consider "v \<le> slots_value ws" | "slots_value ws < v" "?k = length ws" | "slots_value ws < v" "?k < length ws" using le by fastforce
  then show ?thesis
  proof cases
    case 1
    then show ?thesis using low g by (simp add: set_monotonic_counter_def)
  next
    case 2
    then show ?thesis using full g by (simp add: set_monotonic_counter_def not_le split: option.split)
  next
    case 3
    then obtain c where c: "get_counter_struct E m 1 = Some c" by (cases "get_counter_struct E m 1") (auto simp: ws_def counter_slots_def)
    have free: "counter_slots E m ! ?k = 0xFFFF" using used_slots_free [of ws] 3(2) by (simp add: ws_def)
    show ?thesis
      using set [of "write_halfword E m (c + 4 + 2 * of_nat ?k) (NOT v)"] 3 g c slot_write [OF ok c, where k = ?k and w = "NOT v"] free
      by (simp add: set_monotonic_counter_def ws_def)
  qed
qed

section \<open>Invalidating a key\<close>

lemma be32_and: "be32 (a AND e) (b AND f) (c AND g) (d AND h) = be32 a b c d AND be32 e f g h"
proof (rule bit_word_eqI)
  fix n assume "n < LENGTH(32)"
  then consider "n < 8" | "8 \<le> n" "n < 16" | "16 \<le> n" "n < 24" | "24 \<le> n" "n < 32" by fastforce
  then show "bit (be32 (a AND e) (b AND f) (c AND g) (d AND h)) n = bit (be32 a b c d AND be32 e f g h) n"
    by cases (auto simp: be32_def bit_simps dest: bit_imp_le_length)
qed

lemma u32_distinct_4: "(a :: u32) \<noteq> a + 1" "a \<noteq> a + 2" "a \<noteq> a + 3" "a + 1 \<noteq> a + 2" "a + 1 \<noteq> a + 3" "a + 2 \<noteq> a + 3"
  by simp_all

lemma read32_write:
  assumes "nvmc_ok E" "a mod 4 = 0" shows "read32 (nrfx_nvmc_word_write E m a v) a = read32 m a AND v"
proof -
  have w: "be32 (ucast (drop_bit 24 v)) (ucast (drop_bit 16 v)) (ucast (drop_bit 8 v)) (ucast v) = v" by simp
  show ?thesis
    using be32_and [of "m (a + 3)" "ucast (drop_bit 24 v)" "m (a + 2)" "ucast (drop_bit 16 v)" "m (a + 1)" "ucast (drop_bit 8 v)" "m a" "ucast v"]
    unfolding w by (simp add: read32_def nvmc_write [OF assms])
qed

lemma nvmc_write_other:
  assumes "nvmc_ok E" "a mod 4 = 0" "unat a + 4 < 2 ^ 32" "unat b < unat a \<or> unat a + 4 \<le> unat b"
  shows "nrfx_nvmc_word_write E m a v b = m b"
proof -
  have "b \<noteq> a" "b \<noteq> a + 1" "b \<noteq> a + 2" "b \<noteq> a + 3" using assms(3,4) by (auto simp: unat_plus)
  then show ?thesis by (simp add: nvmc_write [OF assms(1,2)])
qed

lemma counter_slots_frame:
  assumes "get_counter_struct E m' 1 = get_counter_struct E m 1" "num_monotonic_counter_slots E m' = num_monotonic_counter_slots E m"
    and "storage_ok E m"
    and "\<And>b c. get_counter_struct E m 1 = Some c \<Longrightarrow> unat c + 4 \<le> unat b \<Longrightarrow>
      unat b < unat c + 4 + 2 * unat (num_monotonic_counter_slots E m) \<Longrightarrow> m' b = m b"
  shows "counter_slots E m' = counter_slots E m"
proof (cases "get_counter_struct E m 1")
  case (Some c)
  have "read16 m' (c + 4 + 2 * of_nat i) = read16 m (c + 4 + 2 * of_nat i)" if i: "i < unat (num_monotonic_counter_slots E m)" for i
  proof -
    note a = slot_address [OF assms(3) Some i]
    have "unat (c + 4 + 2 * of_nat i + 1) = unat c + 4 + 2 * i + 1" using a(1,3) unat_plus_1 [of "c + 4 + 2 * of_nat i"] by linarith
    then show ?thesis using a i by (intro read16_cong assms(4) [OF Some]) simp_all
  qed
  then show ?thesis using assms(1,2) Some by (simp add: counter_slots_def)
qed (use assms(1) in \<open>simp add: counter_slots_def\<close>)

lemma key_disjoint:
  assumes "storage_ok E m" "i < unat (num_public_keys_read E m)" "j < unat (num_public_keys_read E m)" "i \<noteq> j"
  shows "unat (key_data E (of_nat i)) + 4 + SB_PUBLIC_KEY_HASH_LEN E \<le> unat (key_data E (of_nat j)) \<or>
    unat (key_data E (of_nat j)) + 4 + SB_PUBLIC_KEY_HASH_LEN E \<le> unat (key_data E (of_nat i))"
proof -
  have s: "Suc i * h \<le> j * h" if "i < j" for i j h :: nat using that by (intro mult_right_mono) simp_all
  note k = key_address(1) [OF assms(1,2)] key_address(1) [OF assms(1,3)]
  show ?thesis using s [of i j "4 + SB_PUBLIC_KEY_HASH_LEN E"] s [of j i "4 + SB_PUBLIC_KEY_HASH_LEN E"] k assms(4) by fastforce
qed

lemma invalidate_effect:
  assumes ok: "storage_ok E m" "nvmc_ok E" and j: "j < unat (num_public_keys_read E m)"
  defines "m' \<equiv> invalidate_public_key E m (of_nat j)"
  shows "storage_ok E m'" "num_public_keys_read E m' = num_public_keys_read E m" "counter_slots E m' = counter_slots E m"
    "\<not> key_is_valid E m' (of_nat j)"
    "\<And>b. unat b < unat (key_data E (of_nat j)) \<or> unat (key_data E (of_nat j)) + 4 \<le> unat b \<Longrightarrow> m' b = m b"
proof -
  let ?a = "key_data E (of_nat j)"
  have lim: "counters_at E m + 4 < 2 ^ 32" using ok(1) by (simp add: storage_ok_def)
  note ka = key_address [OF ok(1) j]
  have ak: "unat ?a + 4 < 2 ^ 32" "unat (PM_PROVISION_ADDRESS E) + 12 \<le> unat ?a" "unat ?a + 4 \<le> counters_at E m" using ka lim by simp_all
  show other: "m' b = m b" if "unat b < unat ?a \<or> unat ?a + 4 \<le> unat b" for b
    using that nvmc_write_other [OF ok(2) ka(3) ak(1)] by (simp add: m'_def invalidate_public_key_def)
  have tok: "read32 m ?a AND INVALID_VAL = INVALID_VAL" using ok(1) j by (simp add: storage_ok_def list_all_iff)
  have now: "read32 m' ?a = INVALID_VAL" using tok read32_write [OF ok(2) ka(3)] by (simp add: m'_def invalidate_public_key_def)
  then show "\<not> key_is_valid E m' (of_nat j)" by (simp add: key_is_valid_def)
  have toks: "read32 m' (key_data E (of_nat i)) AND INVALID_VAL = INVALID_VAL" if i: "i < unat (num_public_keys_read E m)" for i
  proof (cases "i = j")
    case False
    have "unat (key_data E (of_nat i)) + 4 \<le> unat ?a \<or> unat ?a + 4 \<le> unat (key_data E (of_nat i))"
      using key_disjoint [OF ok(1) i j False] by auto
    then have "read32 m' (key_data E (of_nat i)) = read32 m (key_data E (of_nat i))"
      using key_bytes(1) [OF ok(1) i] by (intro key_token_cong [OF ok(1) i] other) auto
    then show ?thesis using ok(1) i by (simp add: storage_ok_def list_all_iff)
  qed (use now in simp)
  have fr: "num_public_keys_read E m' = num_public_keys_read E m" "get_counter_struct E m' 1 = get_counter_struct E m 1"
    "num_monotonic_counter_slots E m' = num_monotonic_counter_slots E m" "storage_ok E m'"
    by (rule storage_frame [OF ok(1)]; use ak in \<open>auto intro!: other toks\<close>)+
  show "storage_ok E m'" "num_public_keys_read E m' = num_public_keys_read E m" by (fact fr)+
  show "counter_slots E m' = counter_slots E m"
    using struct_layout(2) [OF ok(1)] ak(3) by (intro counter_slots_frame [OF fr(2,3) ok(1)] other) force
qed

section \<open>Steps\<close>

text \<open>The storage ends behind the last slot of the counter; without a counter nothing is known to be free.\<close>

definition storage_end :: "bl_env \<Rightarrow> flash \<Rightarrow> nat" where
  "storage_end E m = (case get_counter_struct E m COUNTER_DESC_VERSION of None \<Rightarrow> 2 ^ 32
     | Some c \<Rightarrow> unat c + 4 + 2 * unat (num_monotonic_counter_slots E m))"

text \<open>What can happen to the memory: the counter is set, a key is invalidated, or anything at all is written
  outside of the storage.\<close>

inductive bl_step :: "bl_env \<Rightarrow> flash \<Rightarrow> flash \<Rightarrow> bool" for E where
  set_counter: "set_monotonic_counter E m v = (m', e) \<Longrightarrow> bl_step E m m'"
| invalidate: "k < num_public_keys_read E m \<Longrightarrow> bl_step E m (invalidate_public_key E m k)"
| elsewhere: "\<forall>b. unat (PM_PROVISION_ADDRESS E) \<le> unat b \<longrightarrow> unat b < storage_end E m \<longrightarrow> m' b = m b \<Longrightarrow> bl_step E m m'"

definition storage_le :: "bl_env \<Rightarrow> flash \<Rightarrow> flash \<Rightarrow> bool" where
  "storage_le E m m' \<longleftrightarrow> storage_ok E m' \<and> num_public_keys_read E m' = num_public_keys_read E m \<and>
     slots_value (counter_slots E m) \<le> slots_value (counter_slots E m') \<and>
     (\<forall>k < unat (num_public_keys_read E m). (\<not> key_is_valid E m (of_nat k) \<longrightarrow> \<not> key_is_valid E m' (of_nat k)) \<and>
        read8 m' (key_data E (of_nat k) + 4) (SB_PUBLIC_KEY_HASH_LEN E) = read8 m (key_data E (of_nat k) + 4) (SB_PUBLIC_KEY_HASH_LEN E))"

lemma storage_le_refl: "storage_ok E m \<Longrightarrow> storage_le E m m"
  by (simp add: storage_le_def)

lemma storage_le_trans: "storage_le E m m' \<Longrightarrow> storage_le E m' m'' \<Longrightarrow> storage_le E m m''"
  unfolding storage_le_def by (auto intro: order.trans)

text \<open>Memory in which the bytes of the keys are the same holds the same keys.\<close>

lemma key_same:
  assumes ok: "storage_ok E m" "k < unat (num_public_keys_read E m)" and same: "\<And>b. unat (PM_PROVISION_ADDRESS E) \<le> unat b \<Longrightarrow> unat b < counters_at E m \<Longrightarrow> m' b = m b"
  shows "key_is_valid E m' (of_nat k) = key_is_valid E m (of_nat k)"
    "read8 m' (key_data E (of_nat k) + 4) (SB_PUBLIC_KEY_HASH_LEN E) = read8 m (key_data E (of_nat k) + 4) (SB_PUBLIC_KEY_HASH_LEN E)"
proof -
  have b: "m' (key_data E (of_nat k) + of_nat i) = m (key_data E (of_nat k) + of_nat i)" if "i < 4 + SB_PUBLIC_KEY_HASH_LEN E" for i
    using key_bytes [OF ok that] key_address(1) [OF ok] by (intro same) simp_all
  show "key_is_valid E m' (of_nat k) = key_is_valid E m (of_nat k)"
    unfolding key_is_valid_def by (subst key_token_cong [OF ok]) (use b in simp_all)
  have "m' (key_data E (of_nat k) + 4 + of_nat i) = m (key_data E (of_nat k) + 4 + of_nat i)" if "i < SB_PUBLIC_KEY_HASH_LEN E" for i
    using b [of "4 + i"] that by (simp add: add.assoc)
  then show "read8 m' (key_data E (of_nat k) + 4) (SB_PUBLIC_KEY_HASH_LEN E) = read8 m (key_data E (of_nat k) + 4) (SB_PUBLIC_KEY_HASH_LEN E)"
    by (simp add: read8_def)
qed

lemma step_set:
  assumes ok: "storage_ok E m" "nvmc_ok E" and s: "set_monotonic_counter E m v = (m', e)" shows "storage_le E m m'"
  using ok
proof (cases rule: set_counter_cases [where v = v])
  case (set n)
  let ?ws = "counter_slots E m"
  have "NOT v \<noteq> 0xFFFF" by (rule not_new_not_free [OF set(1)])
  from slots_value_update [OF set(2) this] have "slots_value ?ws \<le> slots_value (counter_slots E n)" using set(5) by simp
  then show ?thesis using s set(3,4,7) key_same [OF ok(1) _ set(6)] by (simp add: storage_le_def)
qed (use s storage_le_refl [OF ok(1)] in simp_all)

lemma step_invalidate:
  assumes ok: "storage_ok E m" "nvmc_ok E" and j: "j < unat (num_public_keys_read E m)"
  shows "storage_le E m (invalidate_public_key E m (of_nat j))"
proof -
  let ?m = "invalidate_public_key E m (of_nat j)"
  note i = invalidate_effect [OF ok j]
  have ka: "unat (key_data E (of_nat j)) = unat (PM_PROVISION_ADDRESS E) + 12 + j * (4 + SB_PUBLIC_KEY_HASH_LEN E)" by (rule key_address(1) [OF ok(1) j])
  have "(\<not> key_is_valid E m (of_nat k) \<longrightarrow> \<not> key_is_valid E ?m (of_nat k)) \<and>
      read8 ?m (key_data E (of_nat k) + 4) (SB_PUBLIC_KEY_HASH_LEN E) = read8 m (key_data E (of_nat k) + 4) (SB_PUBLIC_KEY_HASH_LEN E)"
    if k: "k < unat (num_public_keys_read E m)" for k
  proof -
    have out: "?m (key_data E (of_nat k) + of_nat n) = m (key_data E (of_nat k) + of_nat n)"
      if "n < 4 + SB_PUBLIC_KEY_HASH_LEN E" "k = j \<longrightarrow> 4 \<le> n" for n
      using key_bytes(1) [OF ok(1) k that(1)] key_disjoint [OF ok(1) k j] that by (intro i(5)) (cases "k = j"; auto)
    have "?m (key_data E (of_nat k) + 4 + of_nat n) = m (key_data E (of_nat k) + 4 + of_nat n)" if "n < SB_PUBLIC_KEY_HASH_LEN E" for n
      using out [of "4 + n"] that by (simp add: add.assoc)
    then have "read8 ?m (key_data E (of_nat k) + 4) (SB_PUBLIC_KEY_HASH_LEN E) = read8 m (key_data E (of_nat k) + 4) (SB_PUBLIC_KEY_HASH_LEN E)"
      by (simp add: read8_def)
    moreover have "key_is_valid E ?m (of_nat k) = key_is_valid E m (of_nat k)" if "k \<noteq> j"
      unfolding key_is_valid_def by (subst key_token_cong [OF ok(1) k]) (use out that in simp_all)
    ultimately show ?thesis using i(4) by (cases "k = j") auto
  qed
  then show ?thesis using i(1-3) by (simp add: storage_le_def)
qed

lemma step_elsewhere:
  assumes ok: "storage_ok E m" and s: "\<forall>b. unat (PM_PROVISION_ADDRESS E) \<le> unat b \<longrightarrow> unat b < storage_end E m \<longrightarrow> m' b = m b"
  shows "storage_le E m m'"
proof -
  have lim: "counters_at E m + 4 < 2 ^ 32" using ok by (simp add: storage_ok_def)
  have le: "counters_at E m \<le> storage_end E m" "unat (PM_PROVISION_ADDRESS E) + 12 \<le> counters_at E m"
    using struct_layout(2) [OF ok] lim by (auto simp: storage_end_def counters_at_def split: option.split dest: add_leD1)
  have low: "m' b = m b" if "unat (PM_PROVISION_ADDRESS E) \<le> unat b" "unat b < counters_at E m" for b using s that le(1) by simp
  have high: "m' b = m b" if "counters_at E m \<le> unat b" "unat b < storage_end E m" for b using s that le(2) by simp
  have tok: "read32 m' (key_data E (of_nat k)) AND INVALID_VAL = INVALID_VAL" if k: "k < unat (num_public_keys_read E m)" for k
  proof -
    have "read32 m' (key_data E (of_nat k)) = read32 m (key_data E (of_nat k))"
      using key_bytes [OF ok k] key_address(1) [OF ok k] by (intro key_token_cong [OF ok k] low) simp_all
    then show ?thesis using ok k by (simp add: storage_ok_def list_all_iff)
  qed
  have end': "unat b < storage_end E m" if "case get_counter_struct E m 1 of None \<Rightarrow> True | Some c \<Rightarrow> unat b < unat c + 4" for b :: u32
    using that unat_u32_lt [of b] by (auto simp: storage_end_def split: option.splits)
  have head: "m' b = m b" if "unat (PM_PROVISION_ADDRESS E) \<le> unat b" "unat b < unat (PM_PROVISION_ADDRESS E) + 12" for b
    using low that le(2) by simp
  have count: "m' b = m b" if "counters_at E m \<le> unat b" "case get_counter_struct E m 1 of None \<Rightarrow> True | Some c \<Rightarrow> unat b < unat c + 4" for b
    by (rule high [OF that(1) end' [OF that(2)]])
  note fr = storage_frame [OF ok head count tok]
  have sl: "counter_slots E m' = counter_slots E m"
  proof (rule counter_slots_frame [OF fr(2,3) ok])
    fix b c :: u32 assume c: "get_counter_struct E m 1 = Some c" "unat c + 4 \<le> unat b"
      "unat b < unat c + 4 + 2 * unat (num_monotonic_counter_slots E m)"
    show "m' b = m b" using struct_layout(2) [OF ok c(1)] c by (intro high) (simp_all add: storage_end_def)
  qed
  have kv: "(\<not> key_is_valid E m (of_nat k) \<longrightarrow> \<not> key_is_valid E m' (of_nat k)) \<and>
      read8 m' (key_data E (of_nat k) + 4) (SB_PUBLIC_KEY_HASH_LEN E) = read8 m (key_data E (of_nat k) + 4) (SB_PUBLIC_KEY_HASH_LEN E)"
    if "k < unat (num_public_keys_read E m)" for k
    using key_same [OF ok that low] by blast
  have "slots_value (counter_slots E m) \<le> slots_value (counter_slots E m')" by (simp only: sl order.refl)
  then show ?thesis unfolding storage_le_def by (intro conjI allI impI fr(4) fr(1); (use kv in blast)?)
qed

lemma bl_step_le:
  assumes "bl_step E m m'" "storage_ok E m" "nvmc_ok E" shows "storage_le E m m'"
  using assms(1)
proof cases
  case (set_counter v e)
  then show ?thesis using step_set [OF assms(2,3)] by simp
next
  case (invalidate k)
  then show ?thesis using step_invalidate [OF assms(2,3), of "unat k"] by (simp add: word_less_nat_alt)
next
  case elsewhere
  then show ?thesis by (rule step_elsewhere [OF assms(2)])
qed

lemma bl_steps_le:
  assumes "(bl_step E)\<^sup>*\<^sup>* m m'" "storage_ok E m" "nvmc_ok E" shows "storage_le E m m'"
  using assms(1)
proof (induction rule: rtranclp_induct)
  case base
  then show ?case by (rule storage_le_refl [OF assms(2)])
next
  case (step x y)
  then have "storage_ok E x" by (simp add: storage_le_def)
  from storage_le_trans [OF step.IH bl_step_le [OF step.hyps(2) this assms(3)]] show ?case .
qed

section \<open>Properties\<close>

lemma set_counter_packed:
  assumes "storage_ok E m" "nvmc_ok E" "slots_packed (counter_slots E m)"
  shows "case set_monotonic_counter E m v of (m', e) \<Rightarrow>
    storage_ok E m' \<and> slots_packed (counter_slots E m') \<and>
    (if v \<le> get_monotonic_counter E m then e = Some EINVAL \<and> m' = m
     else if length (used_slots (counter_slots E m)) = length (counter_slots E m) then e = Some ENOMEM \<and> m' = m
     else e = None \<and> get_monotonic_counter E m' = v \<and>
       length (used_slots (counter_slots E m')) = Suc (length (used_slots (counter_slots E m))))"
  using assms(1,2)
proof (cases rule: set_counter_cases [where v = v])
  case (set n)
  have v: "NOT v \<noteq> 0xFFFF" by (rule not_new_not_free [OF set(1)])
  note p = slots_packed_update [OF assms(3) set(2) v]
  have "slots_value (counter_slots E n) = v" using p(2) set(1,5) by (simp add: max_absorb2)
  then show ?thesis
    using set p(1,3) get_counter_eq(1) [OF assms(1)] get_counter_eq(1) [OF set(4)] by (simp add: get_monotonic_counter_def not_le)
qed (use assms get_counter_eq(1) [OF assms(1)] in \<open>simp_all add: get_monotonic_counter_def\<close>)

text \<open>C18: The monotonic counter of provisioned storage whose slots are used in order, with flash in which writing a word can
  only clear bits: setting it to a value other than \<open>0xFFFF\<close>, which the interface does not allow, that is
  not larger is refused with \<open>-EINVAL\<close>, setting it with no free slot with \<open>-ENOMEM\<close>, both without a write;
  otherwise reading it gives the new value, one more slot is used, and the storage is well-formed with its slots
  used in order again.\<close>

theorem bl_counter_set:
  assumes "storage_ok E m" "nvmc_ok E" "slots_packed (counter_slots E m)" "v \<noteq> 0xFFFF"
  shows "case set_monotonic_counter E m v of (m', e) \<Rightarrow>
    storage_ok E m' \<and> slots_packed (counter_slots E m') \<and>
    (if v \<le> get_monotonic_counter E m then e = Some EINVAL \<and> m' = m
     else if length (used_slots (counter_slots E m)) = length (counter_slots E m) then e = Some ENOMEM \<and> m' = m
     else e = None \<and> get_monotonic_counter E m' = v \<and>
       length (used_slots (counter_slots E m')) = Suc (length (used_slots (counter_slots E m))))"
  by (rule set_counter_packed [OF assms(1-3)])

text \<open>The value \<open>0xFFFF\<close>, which \<open>bl_storage.h\<close> says is refused with \<open>-EINVAL\<close>, is stored like any other.\<close>

lemma bl_counter_accepts_ffff:
  assumes "storage_ok E m" "nvmc_ok E" "slots_packed (counter_slots E m)" "get_monotonic_counter E m < 0xFFFF"
    and "length (used_slots (counter_slots E m)) < length (counter_slots E m)"
  shows "\<exists>m'. set_monotonic_counter E m 0xFFFF = (m', None) \<and> get_monotonic_counter E m' = 0xFFFF"
  using set_counter_packed [OF assms(1-3), of "0xFFFF"] assms(4,5) by (auto simp: not_le split: prod.splits)

text \<open>C31: The storage protects against rollback: whatever sequence of counter updates, key invalidations and writes
  outside of the storage happens, the counter never decreases, an invalidated key never becomes valid, the key
  hashes and their number stay the same, and the storage stays well-formed.\<close>

theorem bl_storage_monotone:
  assumes "storage_ok E m" "nvmc_ok E" "(bl_step E)\<^sup>*\<^sup>* m m'"
  shows "storage_ok E m' \<and> get_monotonic_counter E m \<le> get_monotonic_counter E m' \<and>
    num_public_keys_read E m' = num_public_keys_read E m \<and>
    list_all (\<lambda>k. (key_is_valid E m' (of_nat k) \<longrightarrow> key_is_valid E m (of_nat k)) \<and>
        read8 m' (key_data E (of_nat k) + 4) (SB_PUBLIC_KEY_HASH_LEN E) = read8 m (key_data E (of_nat k) + 4) (SB_PUBLIC_KEY_HASH_LEN E))
      [0..<unat (num_public_keys_read E m)]"
proof -
  have le: "storage_le E m m'" by (rule bl_steps_le [OF assms(3,1,2)])
  then have "storage_ok E m'" by (simp add: storage_le_def)
  then show ?thesis using le get_counter_eq(1) [OF assms(1)] get_counter_eq(1) [of E m']
    by (auto simp: storage_le_def get_monotonic_counter_def list_all_iff)
qed

end
