(* ===== verification/Bl_Validation.thy ===== *)
theory Bl_Validation
  imports Bl_Storage_Inv
begin

text \<open>
  Firmware validation and boot (\<open>fw_info.h\<close>, \<open>subsys/fw_info/fw_info.c\<close>, \<open>bl_crypto.c\<close> with the Oberon
  back-end, \<open>bl_validation.c\<close>, \<open>bl_validation_internal.h\<close>, \<open>bl_boot.c\<close>, \<open>samples/bootloader/src/main.c\<close>).

  A pointer to a structure in memory is its address, 0 for NULL; reading a field through NULL is undefined. The
  assertions, which are disabled by default, and the output are left out. The number of requests of an image is read
  once: the image is in flash, which the stores of \<open>fw_info_ext_api_provide\<close> do not change.
\<close>

section \<open>Firmware information\<close>

text \<open>The fields of \<open>struct fw_info\<close>, \<open>fw_info_ext_api\<close> and \<open>fw_info_ext_api_request\<close> by their offsets.\<close>

abbreviation (input) fw_total_size :: u32 where "fw_total_size \<equiv> 12"
abbreviation (input) fw_size :: u32 where "fw_size \<equiv> 16"
abbreviation (input) fw_version :: u32 where "fw_version \<equiv> 20"
abbreviation (input) fw_address :: u32 where "fw_address \<equiv> 24"
abbreviation (input) fw_boot_address :: u32 where "fw_boot_address \<equiv> 28"
abbreviation (input) fw_valid :: u32 where "fw_valid \<equiv> 32"
abbreviation (input) fw_ext_api_num :: u32 where "fw_ext_api_num \<equiv> 52"
abbreviation (input) fw_ext_api_request_num :: u32 where "fw_ext_api_request_num \<equiv> 56"
abbreviation (input) fw_ext_apis :: u32 where "fw_ext_apis \<equiv> 60"

definition fw_field :: "flash \<Rightarrow> u32 \<Rightarrow> u32 \<Rightarrow> u32 res" where
  "fw_field m p off = (if p = 0 then Inl UB else Inr (read32 m (p + off)))"

definition fw_info_check :: "bl_env \<Rightarrow> flash \<Rightarrow> u32 \<Rightarrow> u32" where
  "fw_info_check E m fw_info_addr = (if read8 m fw_info_addr 12 = FIRMWARE_INFO_MAGIC E then fw_info_addr else 0)"

definition fw_info_allowed_offsets :: "u32 list" where
  "fw_info_allowed_offsets = [0x0, 0x200, 0x400, 0x800, 0x1000]"

fun fw_info_search :: "bl_env \<Rightarrow> flash \<Rightarrow> u32 \<Rightarrow> u32 list \<Rightarrow> u32" where
  "fw_info_search E m a [] = 0"
| "fw_info_search E m a (off # offs) =
     (let finfo = fw_info_check E m (a + off) in if finfo \<noteq> 0 then finfo else fw_info_search E m a offs)"

definition fw_info_find :: "bl_env \<Rightarrow> flash \<Rightarrow> u32 \<Rightarrow> u32" where
  "fw_info_find E m firmware_address = fw_info_search E m firmware_address fw_info_allowed_offsets"

definition fw_info_invalidate :: "bl_env \<Rightarrow> flash \<Rightarrow> u32 \<Rightarrow> flash res" where
  "fw_info_invalidate E m fw_info =
     bindE (fw_field m fw_info fw_valid) (\<lambda>valid.
     Inr (if valid = FW_INFO_VALID_VAL E then nrfx_nvmc_word_write E m (fw_info + fw_valid) INVALID_VAL else m))"

section \<open>External interfaces\<close>

abbreviation (input) ext_api_len :: u32 where "ext_api_len \<equiv> 12"
abbreviation (input) ext_api_id :: u32 where "ext_api_id \<equiv> 16"
abbreviation (input) ext_api_flags :: u32 where "ext_api_flags \<equiv> 20"
abbreviation (input) ext_api_version :: u32 where "ext_api_version \<equiv> 24"
abbreviation (input) req_max_version :: u32 where "req_max_version \<equiv> 28"
abbreviation (input) req_required :: u32 where "req_required \<equiv> 32"
abbreviation (input) req_ext_api :: u32 where "req_ext_api \<equiv> 36"

definition ext_api_satisfies_req :: "flash \<Rightarrow> u32 \<Rightarrow> u32 \<Rightarrow> bool" where
  "ext_api_satisfies_req m ext_api req \<longleftrightarrow>
     read32 m (ext_api + ext_api_id) = read32 m (req + ext_api_id) \<and>
     read32 m (ext_api + ext_api_version) \<ge> read32 m (req + ext_api_version) \<and>
     read32 m (ext_api + ext_api_version) < read32 m (req + req_max_version) \<and>
     read32 m (ext_api + ext_api_flags) AND read32 m (req + ext_api_flags) = read32 m (req + ext_api_flags)"

definition NEXT_EXT_ABI :: "flash \<Rightarrow> u32 \<Rightarrow> u32" where
  "NEXT_EXT_ABI m ext_api = ext_api + read32 m (ext_api + ext_api_len)"

definition skip_ext_apis :: "flash \<Rightarrow> u32 \<Rightarrow> u32" where
  "skip_ext_apis m fw_info = (NEXT_EXT_ABI m ^^ unat (read32 m (fw_info + fw_ext_api_num))) (fw_info + fw_ext_apis)"

fun ext_api_search :: "flash \<Rightarrow> u32 \<Rightarrow> nat \<Rightarrow> u32 \<Rightarrow> u32 option" where
  "ext_api_search m req 0 ext_api = None"
| "ext_api_search m req (Suc n) ext_api =
     (if ext_api_satisfies_req m ext_api req then Some ext_api else ext_api_search m req n (NEXT_EXT_ABI m ext_api))"

fun find_ext_api :: "bl_env \<Rightarrow> flash \<Rightarrow> u32 \<Rightarrow> u32 \<Rightarrow> u32 list \<Rightarrow> u32" where
  "find_ext_api E m req skip_fw_info [] = 0"
| "find_ext_api E m req skip_fw_info (img # imgs) =
     (let fw_info = fw_info_find E m img in
      if fw_info = 0 \<or> read32 m (fw_info + fw_valid) \<noteq> FW_INFO_VALID_VAL E \<or> fw_info = skip_fw_info
      then find_ext_api E m req skip_fw_info imgs
      else case ext_api_search m req (unat (read32 m (fw_info + fw_ext_api_num))) (fw_info + fw_ext_apis) of
        Some ext_api \<Rightarrow> ext_api | None \<Rightarrow> find_ext_api E m req skip_fw_info imgs)"

definition write32 :: "flash \<Rightarrow> u32 \<Rightarrow> u32 \<Rightarrow> flash" where
  "write32 m a v = (\<lambda>b. if b - a < 4 then ucast (drop_bit (8 * unat (b - a)) v) else m b)"

fun provide_loop :: "bl_env \<Rightarrow> flash \<Rightarrow> u32 \<Rightarrow> bool \<Rightarrow> nat \<Rightarrow> u32 \<Rightarrow> flash \<times> bool" where
  "provide_loop E m fw_info provide 0 req = (m, True)"
| "provide_loop E m fw_info provide (Suc n) req =
     (let new_ext_api = find_ext_api E m req fw_info (fw_info_images E);
          m = (if provide then write32 m (read32 m (req + req_ext_api)) new_ext_api else m) in
      if new_ext_api = 0 \<and> read32 m (req + req_required) \<noteq> 0 then (m, False)
      else provide_loop E m fw_info provide n (NEXT_EXT_ABI m req))"

definition fw_info_ext_api_provide :: "bl_env \<Rightarrow> flash \<Rightarrow> u32 \<Rightarrow> bool \<Rightarrow> flash \<times> bool" where
  "fw_info_ext_api_provide E m fw_info provide =
     (if fw_info = 0 then (m, False)
      else provide_loop E m fw_info provide (unat (read32 m (fw_info + fw_ext_api_request_num))) (skip_ext_apis m fw_info))"

section \<open>Cryptography\<close>

abbreviation (input) SB_HASH_LEN :: nat where "SB_HASH_LEN \<equiv> 32"
abbreviation (input) SB_PUBLIC_KEY_LEN :: nat where "SB_PUBLIC_KEY_LEN \<equiv> 64"
abbreviation (input) SB_SIGNATURE_LEN :: nat where "SB_SIGNATURE_LEN \<equiv> 64"

text \<open>The result of a check is \<open>None\<close> for 0. The Oberon back-end needs no initialisation, its hash function cannot fail,
  and it makes no difference between calls of the bootloader and external ones.\<close>

definition crypto_init_signing :: "err option" where "crypto_init_signing = None"

definition crypto_init_hash :: "err option" where "crypto_init_hash = None"

definition bl_crypto_init :: "err option" where
  "bl_crypto_init = (case crypto_init_signing of Some e \<Rightarrow> Some e | None \<Rightarrow> crypto_init_hash)"

definition get_hash :: "bl_env \<Rightarrow> u8 list \<Rightarrow> u8 list res" where "get_hash E data = Inr (ocrypto_sha256 E data)"

definition bl_secp256r1_validate :: "bl_env \<Rightarrow> u8 list option \<Rightarrow> nat \<Rightarrow> u8 list option \<Rightarrow> u8 list option \<Rightarrow> err option" where
  "bl_secp256r1_validate E hash hash_len public_key signature =
     (case (hash, public_key, signature) of
        (Some hash, Some public_key, Some signature) \<Rightarrow>
          if hash_len \<noteq> SB_HASH_LEN then Some EINVAL
          else if ocrypto_ecdsa_p256_verify_hash E signature hash public_key then None else Some ESIGINV
      | _ \<Rightarrow> Some EINVAL)"

definition verify_truncated_hash :: "bl_env \<Rightarrow> u8 list \<Rightarrow> u8 list \<Rightarrow> nat \<Rightarrow> err option" where
  "verify_truncated_hash E data expected hash_len = (case get_hash E data of Inl e \<Rightarrow> Some e
     | Inr hash \<Rightarrow> if take hash_len expected \<noteq> take hash_len hash then Some EHASHINV else None)"

definition verify_signature :: "bl_env \<Rightarrow> u8 list \<Rightarrow> u8 list \<Rightarrow> u8 list \<Rightarrow> err option" where
  "verify_signature E data signature public_key = (case get_hash E data of Inl e \<Rightarrow> Some e
     | Inr hash1 \<Rightarrow> (case get_hash E hash1 of Inl e \<Rightarrow> Some e
     | Inr hash2 \<Rightarrow> bl_secp256r1_validate E (Some hash2) SB_HASH_LEN (Some public_key) (Some signature)))"

definition root_of_trust_verify :: "bl_env \<Rightarrow> u8 list \<Rightarrow> u8 list \<Rightarrow> u8 list \<Rightarrow> u8 list \<Rightarrow> err option" where
  "root_of_trust_verify E public_key public_key_hash signature firmware =
     (case verify_truncated_hash E public_key public_key_hash (SB_PUBLIC_KEY_HASH_LEN E) of Some e \<Rightarrow> Some e
      | None \<Rightarrow> verify_signature E firmware signature public_key)"

definition bl_sha256_verify :: "bl_env \<Rightarrow> u8 list \<Rightarrow> u8 list \<Rightarrow> err option" where
  "bl_sha256_verify E data expected = verify_truncated_hash E data expected SB_HASH_LEN"

section \<open>Validation\<close>

definition set_monotonic_version :: "bl_env \<Rightarrow> flash \<Rightarrow> u16 \<Rightarrow> u16 \<Rightarrow> flash \<times> err option" where
  "set_monotonic_version E m version slot =
     set_monotonic_counter E m (push_bit 1 version OR (if slot = 0 then 1 else 0))"

definition get_monotonic_version :: "bl_env \<Rightarrow> flash \<Rightarrow> u16 \<times> u16" where
  "get_monotonic_version E m =
     (let monotonic_version = get_monotonic_counter E m in
      (drop_bit 1 monotonic_version, if monotonic_version AND 1 = 0 then 1 else 0))"

definition within :: "u32 \<Rightarrow> u32 \<Rightarrow> u32 \<Rightarrow> bool" where
  "within addr start end' = (if start > end' then False else if addr < start then False else if addr \<ge> end' then False else True)"

definition region_within :: "u32 \<Rightarrow> u32 \<Rightarrow> u32 \<Rightarrow> u32 \<Rightarrow> bool" where
  "region_within inner_start inner_end start end' =
     (if inner_start > inner_end then False
      else if \<not> within inner_start start end' then False
      else if \<not> within (inner_end - 1) start end' then False else True)"

text \<open>\<open>struct fw_validation_info\<close>: the magic, the address, the hash, the public key and the signature.\<close>

abbreviation (input) val_address :: u32 where "val_address \<equiv> 12"
abbreviation (input) val_hash :: u32 where "val_hash \<equiv> 16"
abbreviation (input) val_public_key :: u32 where "val_public_key \<equiv> 48"
abbreviation (input) val_signature :: u32 where "val_signature \<equiv> 112"

definition validation_info_check :: "bl_env \<Rightarrow> flash \<Rightarrow> u32 \<Rightarrow> bool" where
  "validation_info_check E m vinfo \<longleftrightarrow> read8 m vinfo 12 = VALIDATION_INFO_MAGIC E \<and> vinfo \<noteq> 0"

fun validation_info_search :: "bl_env \<Rightarrow> flash \<Rightarrow> u32 \<Rightarrow> nat \<Rightarrow> u32" where
  "validation_info_search E m vinfo 0 = 0"
| "validation_info_search E m vinfo (Suc n) =
     (if validation_info_check E m vinfo then vinfo else validation_info_search E m (vinfo + 1) n)"

definition validation_info_find :: "bl_env \<Rightarrow> flash \<Rightarrow> u32 \<Rightarrow> nat \<Rightarrow> u32" where
  "validation_info_find E m start_address search_distance = validation_info_search E m start_address (Suc search_distance)"

fun signature_loop :: "bl_env \<Rightarrow> flash \<Rightarrow> u8 list \<Rightarrow> u32 \<Rightarrow> nat list \<Rightarrow> flash \<times> bool" where
  "signature_loop E m firmware fw_val_info [] = (m, False)"
| "signature_loop E m firmware fw_val_info (k # ks) =
     (case public_key_data_read E m (of_nat k) (of_nat (SB_PUBLIC_KEY_HASH_LEN E)) of
        Inl e \<Rightarrow> if e = EINVAL then signature_loop E m firmware fw_val_info ks else (m, False)
      | Inr key \<Rightarrow>
          (case root_of_trust_verify E (read8 m (fw_val_info + val_public_key) SB_PUBLIC_KEY_LEN) key
                  (read8 m (fw_val_info + val_signature) SB_SIGNATURE_LEN) firmware of
             None \<Rightarrow> (foldl (\<lambda>m i. invalidate_public_key E m (of_nat i)) m [0..<k], True)
           | Some e \<Rightarrow> if e = EHASHINV then signature_loop E m firmware fw_val_info ks else (m, False)))"

definition validate_signature :: "bl_env \<Rightarrow> flash \<Rightarrow> u32 \<Rightarrow> u32 \<Rightarrow> u32 \<Rightarrow> flash \<times> bool" where
  "validate_signature E m fw_src_address fw_len fw_val_info =
     (case bl_crypto_init of Some e \<Rightarrow> (m, False) | None \<Rightarrow>
     (case verify_public_keys E m of Some e \<Rightarrow> (m, False) | None \<Rightarrow>
      signature_loop E m (read8 m fw_src_address (unat fw_len)) fw_val_info [0..<unat (num_public_keys_read E m)]))"

definition validate_hash :: "bl_env \<Rightarrow> flash \<Rightarrow> u32 \<Rightarrow> u32 \<Rightarrow> u32 \<Rightarrow> flash \<times> bool" where
  "validate_hash E m fw_src_address fw_len fw_val_info =
     (case bl_crypto_init of Some e \<Rightarrow> (m, False) | None \<Rightarrow>
      (m, bl_sha256_verify E (read8 m fw_src_address (unat fw_len)) (read8 m (fw_val_info + val_hash) SB_HASH_LEN) = None))"

definition validate_firmware :: "bl_env \<Rightarrow> flash \<Rightarrow> u32 \<Rightarrow> u32 \<Rightarrow> u32 \<Rightarrow> bool \<Rightarrow> (flash \<times> bool) res" where
  "validate_firmware E m fw_dst_address fw_src_address fwinfo external =
     bindE (fw_field m fwinfo fw_total_size) (\<lambda>total_size.
     bindE (fw_field m fwinfo fw_size) (\<lambda>size'.
     bindE (fw_field m fwinfo fw_boot_address) (\<lambda>boot_address.
     let fwinfo_end = fwinfo + total_size; fw_dst_end = fw_dst_address + size'; fw_src_end = fw_src_address + size';
         reset_vector = read32 m (boot_address + 4) in
     if fw_info_check E m fwinfo = 0 then Inr (m, False) else
     bindE (fw_field m fwinfo fw_address) (\<lambda>address.
     if fw_dst_address \<noteq> address then Inr (m, False)
     else if \<not> external \<and> fw_src_address \<noteq> fw_dst_address then Inr (m, False)
     else if fw_info_find E m fw_src_address \<noteq> fwinfo then Inr (m, False) else
     bindE (fw_field m fwinfo fw_valid) (\<lambda>valid.
     if valid \<noteq> FW_INFO_VALID_VAL E then Inr (m, False) else
     bindE (fw_field m fwinfo fw_version) (\<lambda>version.
     if version < ucast (fst (get_monotonic_version E m)) then Inr (m, False)
     else if size' > PM_S0_SIZE E \<or> total_size > size' then Inr (m, False)
     else if \<not> region_within fwinfo fwinfo_end fw_src_address fw_src_end then Inr (m, False)
     else if \<not> within boot_address fw_dst_address fw_dst_end then Inr (m, False)
     else if \<not> within reset_vector fw_dst_address fw_dst_end then Inr (m, False) else
     let fw_val_info = validation_info_find E m (fw_src_address + size') 4 in
     if fw_val_info = 0 then Inr (m, False)
     else if read32 m (fw_val_info + val_address) \<noteq> address then Inr (m, False)
     else Inr (if SB_VALIDATE_FW_SIGNATURE E then validate_signature E m fw_src_address size' fw_val_info
               else validate_hash E m fw_src_address size' fw_val_info)))))))"

definition bl_validate_firmware :: "bl_env \<Rightarrow> flash \<Rightarrow> u32 \<Rightarrow> u32 \<Rightarrow> (flash \<times> bool) res" where
  "bl_validate_firmware E m fw_dst_address fw_src_address =
     validate_firmware E m fw_dst_address fw_src_address (fw_info_find E m fw_src_address) True"

definition bl_validate_firmware_local :: "bl_env \<Rightarrow> flash \<Rightarrow> u32 \<Rightarrow> u32 \<Rightarrow> (flash \<times> bool) res" where
  "bl_validate_firmware_local E m fw_address' fwinfo = validate_firmware E m fw_address' fw_address' fwinfo False"

section \<open>Boot\<close>

text \<open>The jump into the image (its initial stack pointer and reset handler), or \<open>None\<close> when the function returns. The
  preparation of the processor is left out.\<close>

datatype bl_jump = Jump u32 u32

definition bl_boot :: "bl_env \<Rightarrow> flash \<Rightarrow> u32 \<Rightarrow> (flash \<times> bl_jump option) res" where
  "bl_boot E m fw_info =
     (if \<not> fprotect_area E (PM_PROVISION_ADDRESS E) (PM_PROVISION_SIZE E) then Inr (m, None) else
      bindE (fw_field m fw_info fw_address) (\<lambda>vector_table.
      case fw_info_ext_api_provide E m fw_info True of (m, ok) \<Rightarrow>
        Inr (m, if ok then Some (Jump (read32 m vector_table) (read32 m (vector_table + 4))) else None)))"

definition validate_and_boot :: "bl_env \<Rightarrow> flash \<Rightarrow> u32 \<Rightarrow> u16 \<Rightarrow> (flash \<times> bl_jump option) res" where
  "validate_and_boot E m fw_info slot =
     (if fw_info = 0 then Inr (m, None) else
      bindE (fw_field m fw_info fw_address) (\<lambda>address.
      bindE (bl_validate_firmware_local E m address fw_info) (\<lambda>(m, ok).
      if \<not> ok then bindE (fw_info_invalidate E m fw_info) (\<lambda>m. Inr (m, None)) else
      bindE (fw_field m fw_info fw_version) (\<lambda>version.
      let m = (if version > ucast (fst (get_monotonic_version E m)) then fst (set_monotonic_version E m (ucast version) slot) else m) in
      bl_boot E m fw_info))))"

definition bl_main :: "bl_env \<Rightarrow> flash \<Rightarrow> (flash \<times> bl_jump option) res" where
  "bl_main E m =
     (if \<not> fprotect_area E (PM_B0_IMAGE_ADDRESS E) (PM_B0_IMAGE_SIZE E) then Inr (m, None) else
      let s0_info = fw_info_find E m (s0_address_read E m); s1_info = fw_info_find E m (s1_address_read E m) in
      bindE (if s1_info = 0 then Inr True else
             bindE (fw_field m s0_info fw_version) (\<lambda>v0. bindE (fw_field m s1_info fw_version) (\<lambda>v1. Inr (v0 \<ge> v1)))) (\<lambda>s0_first.
      let (fst_info, fst_slot, snd_info, snd_slot) = (if s0_first then (s0_info, 0, s1_info, 1) else (s1_info, 1, s0_info, 0)) in
      bindE (validate_and_boot E m fst_info fst_slot) (\<lambda>(m, jump).
      if jump \<noteq> None then Inr (m, jump) else validate_and_boot E m snd_info snd_slot)))"

end
