(* ===== verification/Bl_Trust.thy ===== *)
theory Bl_Trust
  imports Bl_Validation
begin

text \<open>
  The specification of the secure bootloader: what is stored in the provisioned memory and what makes an image
  trustworthy, described from the layout of the data alone, and that the functions of the code which read this data
  agree with it. Nothing in the definitions of this theory refers to a function of the code.
\<close>

section \<open>Provisioned data\<close>

text \<open>Behind the addresses of the two slots come the number of keys and the keys, each a token and the beginning of the
  hash of the public key; a token of \<open>0xFFFF0000\<close> revokes the key.\<close>

definition prov_keys :: "bl_env \<Rightarrow> flash \<Rightarrow> nat" where
  "prov_keys E m = unat (read32 m (PM_PROVISION_ADDRESS E + 8))"

definition prov_key :: "bl_env \<Rightarrow> nat \<Rightarrow> u32" where
  "prov_key E k = PM_PROVISION_ADDRESS E + of_nat (12 + k * (4 + SB_PUBLIC_KEY_HASH_LEN E))"

definition key_revoked :: "bl_env \<Rightarrow> flash \<Rightarrow> nat \<Rightarrow> bool" where
  "key_revoked E m k \<longleftrightarrow> read32 m (prov_key E k) = 0xFFFF0000"

definition key_hash :: "bl_env \<Rightarrow> flash \<Rightarrow> nat \<Rightarrow> u8 list" where
  "key_hash E m k = read8 m (prov_key E k + 4) (SB_PUBLIC_KEY_HASH_LEN E)"

text \<open>A hash with an unwritten half-word.\<close>

definition key_blank :: "bl_env \<Rightarrow> flash \<Rightarrow> nat \<Rightarrow> bool" where
  "key_blank E m k \<longleftrightarrow> list_ex (\<lambda>i. read16 m (prov_key E k + of_nat (4 + 2 * i)) = 0xFFFF) [0..<SB_PUBLIC_KEY_HASH_LEN E div 2]"

text \<open>Memory in which the first \<open>k\<close> keys are revoked: the bytes of their tokens are those of \<open>0xFFFF0000\<close>, lowest byte
  first, and every other byte is as before.\<close>

definition revoked :: "bl_env \<Rightarrow> flash \<Rightarrow> nat \<Rightarrow> flash" where
  "revoked E m k = (\<lambda>b. if list_ex (\<lambda>j. b - prov_key E j < 2) [0..<k] then 0
     else if list_ex (\<lambda>j. b - prov_key E j < 4) [0..<k] then 0xFF else m b)"

text \<open>Behind the keys come the counters, in a collection of type 1: a counter is a description, the number of its
  slots and the slots. The counter with description 1 holds the version, shifted left by one bit to
  make room for the number of the slot; each slot that is written holds the complement of a value, and the largest counts.
  A counter with \<open>0xFFFF\<close> slots is unwritten.\<close>

fun prov_counters :: "flash \<Rightarrow> nat \<Rightarrow> u32 \<Rightarrow> (u16 \<times> u16 list) list" where
  "prov_counters m 0 a = []"
| "prov_counters m (Suc n) a = (let slots = unat (read16 m (a + 2)) in
     (read16 m a, map (\<lambda>i. read16 m (a + of_nat (4 + 2 * i))) [0..<slots]) # prov_counters m n (a + of_nat (4 + 2 * slots)))"

definition prov_slots :: "bl_env \<Rightarrow> flash \<Rightarrow> u16 list" where
  "prov_slots E m = (let a = prov_key E (prov_keys E m) in
     if read16 m a = 1 then
       (case map_of (prov_counters m (unat (read16 m (a + 2))) (a + 4)) 1 of None \<Rightarrow> []
        | Some slots \<Rightarrow> if length slots = 0xFFFF then [] else slots)
     else [])"

definition prov_version :: "bl_env \<Rightarrow> flash \<Rightarrow> nat" where
  "prov_version E m = foldr max (map (\<lambda>w. 0xFFFF - unat w) (takeWhile (\<lambda>w. w \<noteq> 0xFFFF) (prov_slots E m))) 0 div 2"

section \<open>Trusted images\<close>

text \<open>The information structure of an image begins with a magic value at one of five offsets into the image; the validation
  information begins with another one at most four bytes behind the image. The first place counts; NULL is no place.\<close>

definition first_with_magic :: "flash \<Rightarrow> u8 list \<Rightarrow> u32 list \<Rightarrow> u32 option" where
  "first_with_magic m magic places = List.find (\<lambda>a. a \<noteq> 0 \<and> read8 m a 12 = magic) places"

definition info_of :: "bl_env \<Rightarrow> flash \<Rightarrow> u32 \<Rightarrow> u32 option" where
  "info_of E m src = first_with_magic m (FIRMWARE_INFO_MAGIC E) [src, src + 0x200, src + 0x400, src + 0x800, src + 0x1000]"

definition validation_of :: "bl_env \<Rightarrow> flash \<Rightarrow> u32 \<Rightarrow> u32 option" where
  "validation_of E m e = first_with_magic m (VALIDATION_INFO_MAGIC E) [e, e + 1, e + 2, e + 3, e + 4]"

text \<open>The image names its information structure as valid and itself as belonging at \<open>dst\<close>, fits its slot, contains its
  information structure, boots into itself, and is not older than the stored version.\<close>

definition image_sound :: "bl_env \<Rightarrow> flash \<Rightarrow> u32 \<Rightarrow> u32 \<Rightarrow> u32 \<Rightarrow> bool" where
  "image_sound E m dst src info \<longleftrightarrow>
     (let size' = unat (read32 m (info + 16)); total = unat (read32 m (info + 12)); boot = read32 m (info + 28) in
      info_of E m src = Some info \<and> read32 m (info + 32) = FW_INFO_VALID_VAL E \<and> read32 m (info + 24) = dst \<and>
      prov_version E m \<le> unat (read32 m (info + 20)) \<and>
      size' \<le> unat (PM_S0_SIZE E) \<and> unat src + size' < 2 ^ 32 \<and> unat dst + size' < 2 ^ 32 \<and>
      unat src \<le> unat info \<and> unat info < unat src + size' \<and> unat info + total \<le> unat src + size' \<and> (total = 0 \<longrightarrow> unat src < unat info) \<and>
      unat dst \<le> unat boot \<and> unat boot < unat dst + size' \<and>
      unat dst \<le> unat (read32 m (boot + 4)) \<and> unat (read32 m (boot + 4)) < unat dst + size')"

text \<open>The \<open>k\<close>-th key is the first one that is not revoked and belongs to the public key in the validation information
  \<open>v\<close>; no usable key is blank; and the signature of the double hash of the image is good.\<close>

definition key_of :: "bl_env \<Rightarrow> flash \<Rightarrow> u32 \<Rightarrow> nat \<Rightarrow> bool" where
  "key_of E m v k \<longleftrightarrow> k < prov_keys E m \<and> \<not> key_revoked E m k \<and>
     key_hash E m k = take (SB_PUBLIC_KEY_HASH_LEN E) (ocrypto_sha256 E (read8 m (v + 48) 64))"

definition signature_good :: "bl_env \<Rightarrow> flash \<Rightarrow> u8 list \<Rightarrow> u32 \<Rightarrow> bool" where
  "signature_good E m firmware v \<longleftrightarrow> ocrypto_ecdsa_p256_verify_hash E (read8 m (v + 112) 64)
     (ocrypto_sha256 E (ocrypto_sha256 E firmware)) (read8 m (v + 48) 64)"

definition image_signed :: "bl_env \<Rightarrow> flash \<Rightarrow> u8 list \<Rightarrow> u32 \<Rightarrow> nat \<Rightarrow> bool" where
  "image_signed E m firmware v k \<longleftrightarrow>
     list_all (\<lambda>j. key_revoked E m j \<or> \<not> key_blank E m j) [0..<prov_keys E m] \<and>
     key_of E m v k \<and> list_all (\<lambda>j. \<not> key_of E m v j) [0..<k] \<and> signature_good E m firmware v"

definition image_hashed :: "bl_env \<Rightarrow> flash \<Rightarrow> u8 list \<Rightarrow> u32 \<Rightarrow> bool" where
  "image_hashed E m firmware v \<longleftrightarrow> read8 m (v + 16) 32 = take 32 (ocrypto_sha256 E firmware)"

text \<open>A trusted image, signed with key \<open>k\<close>; when the bootloader is configured to check hashes instead of signatures no key
  is used and \<open>k\<close> is 0.\<close>

definition image_trusted :: "bl_env \<Rightarrow> flash \<Rightarrow> u32 \<Rightarrow> u32 \<Rightarrow> u32 \<Rightarrow> nat \<Rightarrow> bool" where
  "image_trusted E m dst src info k \<longleftrightarrow> image_sound E m dst src info \<and>
     (let firmware = read8 m src (unat (read32 m (info + 16))) in
      case validation_of E m (src + read32 m (info + 16)) of None \<Rightarrow> False
      | Some v \<Rightarrow> read32 m (v + 12) = dst \<and>
          (if SB_VALIDATE_FW_SIGNATURE E then image_signed E m firmware v k else k = 0 \<and> image_hashed E m firmware v))"

section \<open>The functions of the code read this data\<close>

lemma prov_keys_eq: "unat (num_public_keys_read E m) = prov_keys E m"
  by (simp add: num_public_keys_read_def prov_keys_def)

lemma prov_key_eq: "key_data E (of_nat k) = prov_key E k"
  by (simp add: key_data_def prov_key_def algebra_simps)

lemma key_revoked_eq: "key_is_valid E m (of_nat k) \<longleftrightarrow> \<not> key_revoked E m k"
  by (simp add: key_is_valid_def key_revoked_def prov_key_eq)

lemmas prov_eqs = prov_keys_eq prov_key_eq key_revoked_eq

lemma counters_eq:
  "even a \<Longrightarrow> map_of (prov_counters m n a) d =
     map_option (\<lambda>c. map (\<lambda>i. read16 m (c + 4 + 2 * of_nat i)) [0..<unat (read16 m (c + 2))]) (counter_find m d n a)"
proof (induction n arbitrary: a)
  case (Suc n)
  have h: "read_halfword m a = read16 m a" "read_halfword m (a + 2) = read16 m (a + 2)" using Suc.prems by (simp_all add: read_halfword_eq)
  have s: "a + of_nat (4 + 2 * unat (read16 m (a + 2))) = a + 4 + 2 * ucast (read16 m (a + 2))" by (simp add: add.assoc)
  have "map_of (prov_counters m n (a + 4 + 2 * ucast (read16 m (a + 2)))) d =
     map_option (\<lambda>c. map (\<lambda>i. read16 m (c + 4 + 2 * of_nat i)) [0..<unat (read16 m (c + 2))]) (counter_find m d n (a + 4 + 2 * ucast (read16 m (a + 2))))"
    by (rule Suc.IH) (use Suc.prems in simp)
  then show ?case by (simp add: h Let_def s del: of_nat_add) (simp add: add.assoc)
qed simp

lemma prov_slots_eq:
  assumes "storage_ok E m" shows "counter_slots E m = prov_slots E m"
proof -
  let ?a = "prov_key E (prov_keys E m)"
  have a: "?a = of_nat (counters_at E m)"
    using key_data_num [of E m] prov_key_eq [of E "unat (num_public_keys_read E m)"] unfolding prov_keys_eq [symmetric] by simp
  have ev: "even ?a" using counters_even [OF assms] unfolding a by (simp add: mod_0_imp_dvd) presburger
  have k: "key_data E (num_public_keys_read E m) = ?a" by (simp add: key_data_num a)
  have r: "read_halfword m ?a = read16 m ?a" "read_halfword m (?a + 2) = read16 m (?a + 2)" using ev by (simp_all add: read_halfword_eq)
  have ev4: "even (?a + 4)" using ev by simp
  note c = counters_eq [OF ev4, of m "unat (read16 m (?a + 2))" 1]
  show ?thesis
  proof (cases "get_counter_struct E m 1")
    case None
    then show ?thesis using c r
      by (auto simp: counter_slots_def prov_slots_def get_counter_struct_def get_counter_collection_def k Let_def split: if_splits)
  next
    case (Some s)
    have "read16 m ?a = 1" "counter_find m 1 (unat (read16 m (?a + 2))) (?a + 4) = Some s"
      using Some r by (auto simp: get_counter_struct_def get_counter_collection_def k Let_def split: if_splits)
    moreover have "unat (read16 m (s + 2)) = 0xFFFF \<longleftrightarrow> read16 m (s + 2) = 0xFFFF" by (auto simp: word_unat_eq_iff)
    ultimately show ?thesis using c Some struct_layout(4) [OF assms Some]
      by (simp add: counter_slots_def prov_slots_def Let_def)
  qed
qed

lemma slots_value_nat: "unat (slots_value ws) = foldr max (map (\<lambda>w. 0xFFFF - unat w) (takeWhile (\<lambda>w. w \<noteq> 0xFFFF) ws)) 0"
proof -
  have n: "unat (NOT w) = 0xFFFF - unat w" for w :: u16
  proof -
    have "NOT w = 0xFFFF - w" by (simp add: not_eq_complement)
    moreover have "w \<le> 0xFFFF" using unat_u16_lt [of w] by (simp add: word_le_nat_alt)
    ultimately show ?thesis using unat_sub [of w "0xFFFF"] by simp
  qed
  have "unat (foldl max h (map (\<lambda>w. NOT w) us)) = foldr max (map (\<lambda>w. 0xFFFF - unat w) us) (unat h)" for h :: u16 and us
  proof (induction us arbitrary: h)
    case (Cons u us)
    have "unat (max h (NOT u)) = max (unat h) (0xFFFF - unat u)" using n [of u] by (simp add: max_def word_le_nat_alt)
    moreover have "foldr max xs (max b a) = max a (foldr max xs b)" for xs and a b :: nat
      by (induction xs) (simp_all add: max.commute max.left_commute)
    ultimately show ?case using Cons.IH [of "max h (NOT u)"] by simp
  qed simp
  then show ?thesis by (simp add: slots_value_def used_slots_def)
qed

lemma prov_version_eq:
  assumes "storage_ok E m" shows "unat (fst (get_monotonic_version E m)) = prov_version E m"
    "unat (slots_value (counter_slots E m)) div 2 = prov_version E m"
proof -
  show v: "unat (slots_value (counter_slots E m)) div 2 = prov_version E m"
    by (simp add: prov_version_def slots_value_nat prov_slots_eq [OF assms])
  show "unat (fst (get_monotonic_version E m)) = prov_version E m"
    using v get_counter_eq(1) [OF assms]
    by (simp add: get_monotonic_version_def get_monotonic_counter_def Let_def unat_drop_bit_eq drop_bit_Suc unat_div)
qed

lemma info_search_eq:
  "fw_info_search E m a offs = (case first_with_magic m (FIRMWARE_INFO_MAGIC E) (map ((+) a) offs) of None \<Rightarrow> 0 | Some b \<Rightarrow> b)"
  by (induction offs) (auto simp: first_with_magic_def fw_info_check_def Let_def)

lemma info_find_eq: "fw_info_find E m src = (case info_of E m src of None \<Rightarrow> 0 | Some a \<Rightarrow> a)"
  by (simp add: fw_info_find_def info_search_eq fw_info_allowed_offsets_def info_of_def)

lemma validation_search_eq:
  "validation_info_search E m v n = (case first_with_magic m (VALIDATION_INFO_MAGIC E) (map (\<lambda>i. v + of_nat i) [0..<n]) of None \<Rightarrow> 0 | Some b \<Rightarrow> b)"
proof (induction n arbitrary: v)
  case (Suc n)
  have "map (\<lambda>i. v + of_nat i) [0..<Suc n] = v # map (\<lambda>i. (v + 1) + of_nat i) [0..<n]"
    by (simp only: upt_conv_Cons map_Suc_upt [symmetric] zero_less_Suc list.map map_map) (simp add: comp_def add.assoc)
  then show ?case using Suc by (simp add: first_with_magic_def validation_info_check_def del: upt_Suc)
qed (simp add: first_with_magic_def)

lemma validation_find_eq: "validation_info_find E m e 4 = (case validation_of E m e of None \<Rightarrow> 0 | Some a \<Rightarrow> a)"
  by (simp add: validation_info_find_def validation_search_eq validation_of_def upt_rec del: upt_Suc)

lemma first_with_magic_Some: "first_with_magic m magic ps = Some a \<Longrightarrow> a \<noteq> 0 \<and> read8 m a 12 = magic"
  by (auto simp: first_with_magic_def find_Some_iff)

lemma verify_keys_eq:
  assumes "storage_ok E m"
  shows "verify_public_keys E m = None \<longleftrightarrow> list_all (\<lambda>j. key_revoked E m j \<or> \<not> key_blank E m j) [0..<prov_keys E m]"
proof -
  have "read_halfword m (prov_key E j + 4 + 2 * of_nat i) = read16 m (prov_key E j + of_nat (4 + 2 * i))" if "j < prov_keys E m" for i j
  proof -
    have "prov_key E j mod 4 = 0" using key_address(3) [OF assms] that by (simp add: prov_eqs)
    then have "even (prov_key E j)" by (metis dvd_trans even_numeral mod_0_imp_dvd mod_eq_0_iff_dvd numeral_Bit0_eq_double dvd_triv_left)
    then show ?thesis by (simp add: read_halfword_eq add.assoc)
  qed
  then show ?thesis by (auto simp: verify_public_keys_def key_blank_def prov_eqs list_ex_iff list_all_iff)
qed

section \<open>Revocation\<close>

lemma read32_bytes:
  assumes "read32 m a = 0xFFFF0000" shows "m a = 0" "m (a + 1) = 0" "m (a + 2) = 0xFF" "m (a + 3) = 0xFF"
proof -
  have "[m (a + 3), m (a + 2), m (a + 1), m a] = put_be32 0xFFFF0000" using assms put_be32_be32 [of "m (a + 3)"] by (metis read32_def)
  moreover have "put_be32 0xFFFF0000 = [0xFF, 0xFF, 0, 0]" by code_simp
  ultimately show "m a = 0" "m (a + 1) = 0" "m (a + 2) = 0xFF" "m (a + 3) = 0xFF" by simp_all
qed

text \<open>Where a byte lies with respect to a token.\<close>

lemma token_offset:
  assumes "unat (a :: u32) + 4 < 2 ^ 32"
  shows "b - a < 4 \<longleftrightarrow> unat a \<le> unat b \<and> unat b < unat a + 4" "b - a < 2 \<longleftrightarrow> b = a \<or> b = a + 1"
    "b - a < 4 \<longleftrightarrow> b = a \<or> b = a + 1 \<or> b = a + 2 \<or> b = a + 3"
proof -
  have e: "b - a = k \<longleftrightarrow> b = a + k" for k by (metis add.commute add_diff_cancel_right' diff_add_cancel)
  show four: "b - a < 4 \<longleftrightarrow> b = a \<or> b = a + 1 \<or> b = a + 2 \<or> b = a + 3" unfolding u32_less_4 e by simp
  have "b - a < 2 \<longleftrightarrow> b - a = 0 \<or> b - a = 1" by (auto simp: word_less_nat_alt word_unat_eq_iff)
  then show "b - a < 2 \<longleftrightarrow> b = a \<or> b = a + 1" unfolding e by simp
  have "unat (a + 1) = unat a + 1" "unat (a + 2) = unat a + 2" "unat (a + 3) = unat a + 3" using assms by (simp_all add: unat_plus)
  then show "b - a < 4 \<longleftrightarrow> unat a \<le> unat b \<and> unat b < unat a + 4" unfolding four by (auto simp: word_unat_eq_iff)
qed

lemma revoked_0 [simp]: "revoked E m 0 = m"
  by (simp add: revoked_def)

lemma revoked_Suc:
  assumes ok: "storage_ok E m" "storage_ok E (revoked E m k)" "nvmc_ok E" and k: "k < prov_keys E m" "k < prov_keys E (revoked E m k)"
  shows "invalidate_public_key E (revoked E m k) (of_nat k) = revoked E m (Suc k)"
proof (rule ext)
  fix b
  let ?n = "revoked E m k" and ?a = "prov_key E k"
  let ?n' = "invalidate_public_key E ?n (of_nat k)"
  have k': "k < unat (num_public_keys_read E ?n)" using k(2) by (simp add: prov_keys_eq)
  have km: "k < unat (num_public_keys_read E m)" using k(1) by (simp add: prov_keys_eq)
  note i = invalidate_effect [OF ok(2,3) k', unfolded prov_eqs]
  have lim: "unat (prov_key E j) + 4 < 2 ^ 32" if "j \<le> k" for j
    using key_address(2) [OF ok(1), of j] that km ok(1) by (simp add: storage_ok_def prov_eqs)
  have r: "read32 ?n' ?a = 0xFFFF0000" using i(4) by (simp add: key_revoked_def)
  have far: "\<not> b - prov_key E j < 4" if "b - ?a < 4" "j < k" for j
  proof -
    have "unat (prov_key E j) + 4 \<le> unat ?a \<or> unat ?a + 4 \<le> unat (prov_key E j)"
      using key_disjoint [OF ok(1), of j k] that(2) km by (auto simp: prov_eqs)
    then show ?thesis using that token_offset(1) [OF lim [of j]] token_offset(1) [OF lim [of k]] by auto
  qed
  have two: "b - x < 4" if "b - x < 2" for x using that by (auto intro: order.strict_trans)
  show "?n' b = revoked E m (Suc k) b"
  proof (cases "b - ?a < 4")
    case True
    then have "\<not> list_ex (\<lambda>j. b - prov_key E j < 4) [0..<k]" "\<not> list_ex (\<lambda>j. b - prov_key E j < 2) [0..<k]"
      unfolding list_ex_iff set_upt using far [OF True] two by (metis atLeastLessThan_iff)+
    then have "revoked E m (Suc k) b = (if b = ?a \<or> b = ?a + 1 then 0 else 0xFF)"
      using True token_offset(2) [OF lim [of k], of b] by (simp add: revoked_def)
    then show ?thesis using True read32_bytes [OF r] token_offset(3) [OF lim [of k], of b] by auto
  next
    case False
    then have "revoked E m (Suc k) b = ?n b" using two [of ?a] by (auto simp: revoked_def)
    moreover have "?n' b = ?n b" using False token_offset(1) [OF lim [of k], of b] by (intro i(5)) auto
    ultimately show ?thesis by simp
  qed
qed

end
