(* ===== verification/Bl_Boot.thy ===== *)
theory Bl_Boot
  imports Bl_Trust
begin

text \<open>
  What validation and boot guarantee: only firmware that is signed with a key that is not revoked, that fits its
  slot and that is not older than the monotonic counter says is accepted, and booting moves the counter.
\<close>

section \<open>Signatures\<close>

lemma length_read8 [simp]: "length (read8 m a n) = n"
  by (simp add: read8_def)

lemma key_read:
  assumes "storage_ok E m" "k < prov_keys E m"
  shows "public_key_data_read E m (of_nat k) (of_nat (SB_PUBLIC_KEY_HASH_LEN E)) =
    (if key_revoked E m k then Inl EINVAL else Inr (key_hash E m k))"
proof -
  have k: "k < unat (num_public_keys_read E m)" using assms(2) by (simp add: prov_keys_eq)
  have u: "unat (of_nat k :: u32) = k" using k unat_u32_lt [of "num_public_keys_read E m"] by (simp add: unat_of_nat_u32)
  have "SB_PUBLIC_KEY_HASH_LEN E < 2 ^ 32" using key_address(2) [OF assms(1) k] assms(1) by (simp add: storage_ok_def)
  then have h: "unat (of_nat (SB_PUBLIC_KEY_HASH_LEN E) :: u32) = SB_PUBLIC_KEY_HASH_LEN E" by (simp add: unat_of_nat_u32)
  have "\<not> of_nat k \<ge> num_public_keys_read E m" using u k by (simp add: word_le_nat_alt)
  then show ?thesis using h by (simp add: public_key_data_read_def key_hash_def prov_eqs)
qed

lemma rot_verify_cases:
  assumes "length key = SB_PUBLIC_KEY_HASH_LEN E"
  shows "root_of_trust_verify E pk key sig fw =
    (if key = take (SB_PUBLIC_KEY_HASH_LEN E) (ocrypto_sha256 E pk)
     then if ocrypto_ecdsa_p256_verify_hash E sig (ocrypto_sha256 E (ocrypto_sha256 E fw)) pk then None else Some ESIGINV
     else Some EHASHINV)"
  using assms by (simp add: root_of_trust_verify_def verify_truncated_hash_def verify_signature_def bl_secp256r1_validate_def get_hash_def)

text \<open>The loop that invalidates the keys before the one that matches.\<close>

definition revoke :: "bl_env \<Rightarrow> flash \<Rightarrow> nat \<Rightarrow> flash" where
  "revoke E m k = foldl (\<lambda>m i. invalidate_public_key E m (of_nat i)) m [0..<k]"

text \<open>The first key that matches decides.\<close>

lemma signature_loop_eq:
  assumes "storage_ok E m" "\<forall>k \<in> set ks. k < prov_keys E m"
  shows "signature_loop E m fw v ks = (case List.find (key_of E m v) ks of None \<Rightarrow> (m, False)
     | Some k \<Rightarrow> if signature_good E m fw v then (revoke E m k, True) else (m, False))"
  using assms(2)
proof (induction ks)
  case (Cons k ks)
  have k: "k < prov_keys E m" using Cons.prems by simp
  note rd = key_read [OF assms(1) k] and rot = rot_verify_cases [of "key_hash E m k" E]
  show ?case
  proof (cases "key_revoked E m k")
    case True
    then show ?thesis using rd Cons by (simp add: key_of_def)
  next
    case False
    then show ?thesis using rd k Cons rot
      by (simp add: key_of_def signature_good_def revoke_def key_hash_def)
  qed
qed simp

lemma validate_signature_eq:
  assumes "storage_ok E m"
  shows "validate_signature E m src n v =
    (if verify_public_keys E m = None \<and> signature_good E m (read8 m src (unat n)) v then
       (case List.find (key_of E m v) [0..<prov_keys E m] of None \<Rightarrow> (m, False) | Some k \<Rightarrow> (revoke E m k, True))
     else (m, False))"
  using signature_loop_eq [OF assms, of "[0..<prov_keys E m]" "read8 m src (unat n)" v]
  by (simp add: validate_signature_def bl_crypto_init_def crypto_init_signing_def crypto_init_hash_def prov_keys_eq split: option.split)

section \<open>Revocation\<close>

lemma revoke_Suc: "revoke E m (Suc k) = invalidate_public_key E (revoke E m k) (of_nat k)"
  by (simp add: revoke_def)

lemma revoke_effect:
  assumes "storage_ok E m" "nvmc_ok E" "k \<le> unat (num_public_keys_read E m)"
  shows "storage_le E m (revoke E m k) \<and> counter_slots E (revoke E m k) = counter_slots E m \<and> (bl_step E)\<^sup>*\<^sup>* m (revoke E m k) \<and>
    (\<forall>j < k. \<not> key_is_valid E (revoke E m k) (of_nat j)) \<and>
    (\<forall>b. unat b < unat (PM_PROVISION_ADDRESS E) \<or> counters_at E m \<le> unat b \<longrightarrow> revoke E m k b = m b)"
  using assms(3)
proof (induction k)
  case 0
  then show ?case using storage_le_refl [OF assms(1)] by (simp add: revoke_def)
next
  case (Suc k)
  let ?n = "revoke E m k"
  have IH: "storage_le E m ?n" "counter_slots E ?n = counter_slots E m" "(bl_step E)\<^sup>*\<^sup>* m ?n" "\<forall>j < k. \<not> key_is_valid E ?n (of_nat j)"
    "\<And>b. unat b < unat (PM_PROVISION_ADDRESS E) \<or> counters_at E m \<le> unat b \<Longrightarrow> ?n b = m b" using Suc by auto
  have ok: "storage_ok E ?n" "num_public_keys_read E ?n = num_public_keys_read E m" "k < unat (num_public_keys_read E ?n)"
    using IH(1) Suc.prems by (simp_all add: storage_le_def)
  note i = invalidate_effect [OF ok(1) assms(2) ok(3)]
  note le = step_invalidate [OF ok(1) assms(2) ok(3)]
  have u: "unat (of_nat k :: u32) = k" using ok(3) unat_u32_lt [of "num_public_keys_read E ?n"] by (simp add: unat_of_nat_u32)
  have "bl_step E ?n (revoke E m (Suc k))"
    unfolding revoke_Suc using ok(3) u by (intro bl_step.invalidate) (simp add: word_less_nat_alt)
  then have "(bl_step E)\<^sup>*\<^sup>* m (revoke E m (Suc k))" using IH(3) by (rule rtranclp.rtrancl_into_rtrancl [rotated])
  moreover have "\<not> key_is_valid E (revoke E m (Suc k)) (of_nat j)" if "j < Suc k" for j
  proof (cases "j = k")
    case False
    then show ?thesis using le IH(4) that ok(3) unfolding revoke_Suc storage_le_def by auto
  qed (use i(4) in \<open>simp add: revoke_Suc\<close>)
  moreover have "revoke E m (Suc k) b = m b" if b: "unat b < unat (PM_PROVISION_ADDRESS E) \<or> counters_at E m \<le> unat b" for b
  proof -
    have "counters_at E ?n = counters_at E m" by (simp add: counters_at_def ok(2))
    then have "unat b < unat (key_data E (of_nat k)) \<or> unat (key_data E (of_nat k)) + 4 \<le> unat b"
      using b key_address(1,2) [OF ok(1,3)] by auto
    then show ?thesis unfolding revoke_Suc using i(5) IH(5) [OF b] by simp
  qed
  moreover have "storage_le E m (revoke E m (Suc k))" unfolding revoke_Suc by (rule storage_le_trans [OF IH(1) le])
  ultimately show ?case using i(3) IH(2) by (simp add: revoke_Suc)
qed

text \<open>The loop writes the tokens of the keys and nothing else.\<close>

lemma revoke_eq:
  assumes "storage_ok E m" "nvmc_ok E" "k \<le> prov_keys E m" shows "revoke E m k = revoked E m k"
  using assms(3)
proof (induction k)
  case (Suc k)
  have e: "revoke E m k = revoked E m k" and k: "k \<le> unat (num_public_keys_read E m)" using Suc by (simp_all add: prov_keys_eq)
  have "storage_ok E (revoked E m k)" "num_public_keys_read E (revoked E m k) = num_public_keys_read E m"
    using revoke_effect [OF assms(1,2) k] by (simp_all add: e storage_le_def)
  then show ?case using revoked_Suc [OF assms(1) _ assms(2), of k] Suc.prems by (simp add: revoke_Suc e prov_keys_eq [symmetric])
qed (simp add: revoke_def)

section \<open>Validation\<close>

lemma within_nat:
  "within a s (s + n) \<longleftrightarrow> unat s + unat n < 2 ^ 32 \<and> unat s \<le> unat a \<and> unat a < unat s + unat n"
proof
  assume "within a s (s + n)"
  then have w: "s \<le> s + n" "s \<le> a" "a < s + n" by (auto simp: within_def not_less split: if_splits)
  have n: "unat s + unat n < 2 ^ 32" using w(1) no_olen_add_nat [of s n] by simp
  have "unat (s + n) = unat s + unat n" using n by (simp add: unat_add_no_wrap_u32)
  then show "unat s + unat n < 2 ^ 32 \<and> unat s \<le> unat a \<and> unat a < unat s + unat n"
    using n w(2,3) by (simp add: word_le_nat_alt word_less_nat_alt)
next
  assume n: "unat s + unat n < 2 ^ 32 \<and> unat s \<le> unat a \<and> unat a < unat s + unat n"
  then have "unat (s + n) = unat s + unat n" by (simp add: unat_add_no_wrap_u32)
  then show "within a s (s + n)" using n by (simp add: within_def word_le_nat_alt word_less_nat_alt)
qed

lemma region_within_nat:
  assumes "a \<noteq> 0"
  shows "region_within a (a + t) s (s + n) \<longleftrightarrow> unat s + unat n < 2 ^ 32 \<and> unat s \<le> unat a \<and> unat a < unat s + unat n \<and>
    unat a + unat t \<le> unat s + unat n \<and> (t = 0 \<longrightarrow> unat s < unat a)"
proof -
  have a0: "0 < unat a" using assms by (simp add: unat_gt_0)
  have pred: "unat (a + t - 1) = unat a + unat t - 1" if "unat a + unat t < 2 ^ 32"
  proof -
    have at: "unat (a + t) = unat a + unat t" using that by (simp add: unat_add_no_wrap_u32)
    then have "1 \<le> a + t" using a0 by (simp add: word_le_nat_alt)
    then show ?thesis using unat_sub_le [of 1 "a + t"] at by simp
  qed
  show ?thesis
  proof (cases "unat a + unat t < 2 ^ 32")
    case True
    then have "a \<le> a + t" using no_olen_add_nat [of a t] by simp
    then have "region_within a (a + t) s (s + n) \<longleftrightarrow> within a s (s + n) \<and> within (a + t - 1) s (s + n)"
      by (simp add: region_within_def not_less)
    then show ?thesis using pred [OF True] a0 by (auto simp: within_nat unat_eq_0 [symmetric])
  next
    case False
    then have "\<not> a \<le> a + t" using no_olen_add_nat [of a t] by simp
    then have "\<not> region_within a (a + t) s (s + n)" by (simp add: region_within_def not_le)
    then show ?thesis using False by auto
  qed
qed

lemma find_first:
  "List.find P [0..<n] = Some k \<longleftrightarrow> k < n \<and> P k \<and> (\<forall>j < k. \<not> P j)"
  by (auto simp: find_Some_iff)

lemma validate_signature_iff:
  assumes "storage_ok E m" "nvmc_ok E"
  shows "validate_signature E m src n v = (m', True) \<longleftrightarrow>
    (\<exists>k. image_signed E m (read8 m src (unat n)) v k \<and> m' = revoked E m k)"
proof -
  have f: "List.find (key_of E m v) [0..<prov_keys E m] = Some k \<longleftrightarrow> key_of E m v k \<and> list_all (\<lambda>j. \<not> key_of E m v j) [0..<k]" for k
    by (auto simp: find_first key_of_def list_all_iff)
  have r: "revoke E m k = revoked E m k" if "key_of E m v k" for k
    using revoke_eq [OF assms, of k] that by (simp add: key_of_def)
  show ?thesis
  proof (cases "List.find (key_of E m v) [0..<prov_keys E m]")
    case None
    then have "\<not> (key_of E m v k \<and> list_all (\<lambda>j. \<not> key_of E m v j) [0..<k])" for k using f [of k] by simp
    then show ?thesis using None by (auto simp: validate_signature_eq [OF assms(1)] image_signed_def)
  next
    case (Some k)
    then have "key_of E m v i \<and> list_all (\<lambda>j. \<not> key_of E m v j) [0..<i] \<longleftrightarrow> i = k" for i using f [of i] by auto
    then have "(\<exists>k. image_signed E m (read8 m src (unat n)) v k \<and> m' = revoked E m k) \<longleftrightarrow>
        verify_public_keys E m = None \<and> signature_good E m (read8 m src (unat n)) v \<and> m' = revoked E m k"
      unfolding image_signed_def verify_keys_eq [OF assms(1)] by metis
    then show ?thesis using Some r [of k] f [of k] by (auto simp: validate_signature_eq [OF assms(1)])
  qed
qed

lemma validate_hash_iff:
  "validate_hash E m src n v = (m', True) \<longleftrightarrow> image_hashed E m (read8 m src (unat n)) v \<and> m' = m"
  by (auto simp: validate_hash_def bl_crypto_init_def crypto_init_signing_def crypto_init_hash_def bl_sha256_verify_def
      verify_truncated_hash_def get_hash_def image_hashed_def)

text \<open>The checks in the order of the code, as one condition.\<close>

lemma validate_firmware_iff:
  assumes "storage_ok E m" "nvmc_ok E"
  shows "validate_firmware E m dst src info external = Inr (m', True) \<longleftrightarrow>
    (external \<or> src = dst) \<and> (\<exists>k. image_trusted E m dst src info k \<and> m' = revoked E m k)"
proof (cases "info = 0")
  case True
  have "info_of E m src \<noteq> Some 0" unfolding info_of_def using first_with_magic_Some [of m _ _ 0] by blast
  then show ?thesis using True by (simp add: validate_firmware_def fw_field_def image_trusted_def image_sound_def Let_def)
next
  case False
  let ?size = "read32 m (info + fw_size)" and ?total = "read32 m (info + fw_total_size)" and ?boot = "read32 m (info + fw_boot_address)"
  let ?v = "validation_info_find E m (src + ?size) 4"
  have i: "read8 m info 12 = FIRMWARE_INFO_MAGIC E \<and> fw_info_find E m src = info \<longleftrightarrow> info_of E m src = Some info"
    using False first_with_magic_Some [of m "FIRMWARE_INFO_MAGIC E" _ info] by (auto simp: info_find_eq info_of_def split: option.splits)
  define P where "P v \<longleftrightarrow> read32 m (v + val_address) = dst \<and>
      (if SB_VALIDATE_FW_SIGNATURE E then validate_signature E m src ?size v else validate_hash E m src ?size v) = (m', True)" for v
  have v: "?v \<noteq> 0 \<and> P ?v \<longleftrightarrow> (case validation_of E m (src + ?size) of None \<Rightarrow> False | Some v \<Rightarrow> P v)"
    using first_with_magic_Some [of m "VALIDATION_INFO_MAGIC E"] unfolding validation_find_eq validation_of_def by (auto split: option.split)
  have "validate_firmware E m dst src info external = Inr (m', True) \<longleftrightarrow>
    (read8 m info 12 = FIRMWARE_INFO_MAGIC E \<and> fw_info_find E m src = info) \<and> read32 m (info + fw_address) = dst \<and> (external \<or> src = dst) \<and>
    read32 m (info + fw_valid) = FW_INFO_VALID_VAL E \<and>
    ucast (fst (get_monotonic_version E m)) \<le> read32 m (info + fw_version) \<and> ?size \<le> PM_S0_SIZE E \<and> ?total \<le> ?size \<and>
    region_within info (info + ?total) src (src + ?size) \<and> within ?boot dst (dst + ?size) \<and> within (read32 m (?boot + 4)) dst (dst + ?size) \<and>
    (?v \<noteq> 0 \<and> P ?v)"
    using False by (auto simp: P_def validate_firmware_def fw_field_def fw_info_check_def Let_def not_less not_le)
  also have "\<dots> \<longleftrightarrow> (external \<or> src = dst) \<and> image_sound E m dst src info \<and>
    (case validation_of E m (src + ?size) of None \<Rightarrow> False | Some v \<Rightarrow> P v)"
    unfolding i v
    unfolding region_within_nat [OF False] within_nat image_sound_def Let_def word_le_nat_alt
      unat_eq_zero [symmetric] unat_ucast_u16_u32 prov_version_eq(1) [OF assms(1)] by auto
  also have "\<dots> \<longleftrightarrow> (external \<or> src = dst) \<and> (\<exists>k. image_trusted E m dst src info k \<and> m' = revoked E m k)"
    by (auto simp: P_def image_trusted_def Let_def validate_signature_iff [OF assms] validate_hash_iff split: option.splits)
  finally show ?thesis .
qed

section \<open>Boot\<close>

lemma version_slot_nat:
  fixes v :: u16 assumes "unat v \<le> 0x7FFF"
  shows "unat (push_bit 1 v OR (if slot = (0 :: u16) then 1 else 0)) div 2 = unat v"
proof -
  have d: "unat (2 * v) = 2 * unat v" "unat (2 * v + 1) = 2 * unat v + 1" using assms by (simp_all add: unat_word_ariths)
  have "2 * v AND 1 = 0" by (simp add: and_one_eq even_iff_mod_2_eq_zero [symmetric])
  then have "2 * v OR 1 = 2 * v + 1" by (simp add: disjunctive_add_eq_or)
  then show ?thesis using d by (simp add: push_bit_eq_mult mult.commute [of v 2])
qed

lemma free_slot_iff: "length (used_slots ws) < length ws \<longleftrightarrow> 0xFFFF \<in> set ws"
  by (induction ws) (auto simp: used_slots_def)

lemma version_set:
  assumes "storage_ok E m" "nvmc_ok E" "prov_version E m < unat v" "unat v \<le> 0x7FFF" "0xFFFF \<in> set (prov_slots E m)"
    and "set_monotonic_version E m v slot = (m', e)"
  shows "unat v \<le> prov_version E m'"
proof -
  define new where "new = (push_bit 1 v OR (if slot = 0 then 1 else 0))"
  have half: "unat new div 2 = unat v" unfolding new_def by (rule version_slot_nat [OF assms(4)])
  have s: "set_monotonic_counter E m new = (m', e)" using assms(6) by (simp add: set_monotonic_version_def new_def)
  have "unat (slots_value (counter_slots E m)) < unat new"
    using assms(3) half prov_version_eq(2) [OF assms(1)] by (metis div_le_mono linorder_not_less)
  then have gt: "slots_value (counter_slots E m) < new" by (simp add: word_less_nat_alt)
  have free: "length (used_slots (counter_slots E m)) < length (counter_slots E m)"
    using assms(5) by (simp add: free_slot_iff prov_slots_eq [OF assms(1)])
  show ?thesis
    using assms(1,2)
  proof (cases rule: set_counter_cases [where v = new])
    case (set n)
    have "new \<le> slots_value (counter_slots E n)"
      using slots_value_update [OF set(2) not_new_not_free [OF set(1)]] set(5) by simp
    then have "unat v \<le> unat (slots_value (counter_slots E n)) div 2" using half by (metis div_le_mono word_le_nat_alt)
    then show ?thesis using set(3) s prov_version_eq(2) [OF set(4)] by simp
  qed (use gt free in simp_all)
qed

text \<open>The information structure of an image lies outside of the storage.\<close>

definition info_outside :: "bl_env \<Rightarrow> flash \<Rightarrow> u32 \<Rightarrow> bool" where
  "info_outside E m info \<longleftrightarrow> unat info + 64 < 2 ^ 32 \<and>
     (unat info + 64 \<le> unat (PM_PROVISION_ADDRESS E) \<or>
      unat (PM_PROVISION_ADDRESS E) + 12 + prov_keys E m * (4 + SB_PUBLIC_KEY_HASH_LEN E) \<le> unat info)"

lemma revoke_version:
  assumes "storage_ok E m" "nvmc_ok E" "k \<le> prov_keys E m" "info_outside E m info"
  shows "read32 (revoked E m k) (info + 20) = read32 m (info + 20)"
proof -
  have k: "k \<le> unat (num_public_keys_read E m)" using assms(3) by (simp add: prov_keys_eq)
  have "revoked E m k (info + 20 + of_nat i) = m (info + 20 + of_nat i)" if "i < 4" for i
  proof -
    have "unat (info + of_nat (20 + i)) = unat info + (20 + i)" using assms(4) that by (intro unat_plus_nat) (simp add: info_outside_def)
    then have "unat (info + 20 + of_nat i) = unat info + 20 + i" by (simp add: add.assoc)
    then show ?thesis using revoke_effect [OF assms(1,2) k, unfolded revoke_eq [OF assms(1-3)]] assms(4) that
      by (auto simp: info_outside_def counters_at_def prov_keys_eq)
  qed
  from this [of 0] this [of 1] this [of 2] this [of 3] show ?thesis by (simp add: read32_def)
qed

lemma old_firmware_refused:
  assumes "storage_ok E m" "nvmc_ok E" "unat (read32 m (info + 20)) < prov_version E m"
  shows "validate_firmware E m dst src info external \<noteq> Inr (m', True)"
  using assms(3) by (auto simp: validate_firmware_iff [OF assms(1,2)] image_trusted_def image_sound_def Let_def)

text \<open>What boot relies on of the storage: the version only grows, from one well-formed state to the next.\<close>

locale monotone_store =
  fixes ok :: "'m \<Rightarrow> bool" and step :: "'m \<Rightarrow> 'm \<Rightarrow> bool" and version :: "'m \<Rightarrow> nat"
  assumes step_ok: "ok m \<Longrightarrow> step m m' \<Longrightarrow> ok m'"
    and step_version: "ok m \<Longrightarrow> step m m' \<Longrightarrow> version m \<le> version m'"
begin

lemma steps_grow:
  assumes "step\<^sup>*\<^sup>* m m'" "ok m" shows "ok m' \<and> version m \<le> version m'"
  using assms
proof (induction rule: rtranclp_induct)
  case (step x y)
  then show ?case using step_ok [of x y] step_version [of x y] by auto
qed simp

lemma old_stays_old:
  assumes "step\<^sup>*\<^sup>* m m'" "ok m" "v < version m" shows "v < version m'"
  using steps_grow [OF assms(1,2)] assms(3) by simp

end

interpretation bl_store: monotone_store "\<lambda>m. storage_ok E m \<and> nvmc_ok E" "bl_step E" "prov_version E" for E
proof
  fix m m' assume a: "storage_ok E m \<and> nvmc_ok E" "bl_step E m m'"
  then have le: "storage_le E m m'" by (intro bl_step_le) simp_all
  then have ok: "storage_ok E m'" by (simp add: storage_le_def)
  then show "storage_ok E m' \<and> nvmc_ok E" using a(1) by simp
  show "prov_version E m \<le> prov_version E m'"
    using le a(1) prov_version_eq(2) [OF ok] prov_version_eq(2) [of E m]
    by (metis storage_le_def word_le_nat_alt div_le_mono)
qed

text \<open>Booting an image moves the counter to its version.\<close>

definition store_version :: "bl_env \<Rightarrow> flash \<Rightarrow> u32 \<Rightarrow> u16 \<Rightarrow> flash" where
  "store_version E m v slot = (if v > ucast (fst (get_monotonic_version E m)) then fst (set_monotonic_version E m (ucast v) slot) else m)"

lemma store_version_step:
  assumes "storage_ok E m" shows "(bl_step E)\<^sup>*\<^sup>* m (store_version E m v slot)"
proof -
  have "bl_step E m (fst (set_monotonic_version E m (ucast v) slot))"
    unfolding set_monotonic_version_def by (rule bl_step.set_counter, rule prod.collapse [symmetric])
  then show ?thesis by (simp add: store_version_def r_into_rtranclp)
qed

lemma stored_version:
  assumes ok: "storage_ok E m" "nvmc_ok E" and v: "unat v \<le> prov_version E m \<or> unat v \<le> 0x7FFF \<and> 0xFFFF \<in> set (prov_slots E m)"
  shows "unat v \<le> prov_version E (store_version E m v slot)"
proof (cases "v > ucast (fst (get_monotonic_version E m))")
  case True
  then have lt: "prov_version E m < unat v" using prov_version_eq(1) [OF ok(1)] by (simp add: word_less_nat_alt)
  then have f: "unat v \<le> 0x7FFF" "0xFFFF \<in> set (prov_slots E m)" using v by auto
  have c: "unat (ucast v :: u16) = unat v" using f(1) by (simp add: unsigned_ucast_eq take_bit_nat_eq_self)
  obtain m' e where s: "set_monotonic_version E m (ucast v) slot = (m', e)" by fastforce
  show ?thesis using version_set [OF ok _ _ f(2) s] lt f(1) c True s by (simp add: store_version_def)
next
  case False
  then show ?thesis using prov_version_eq(1) [OF ok(1)] by (simp add: store_version_def word_less_nat_alt not_less)
qed

text \<open>What revocation leaves.\<close>

lemma trusted_key: "image_trusted E m dst src info k \<Longrightarrow> k \<le> prov_keys E m"
  by (auto simp: image_trusted_def image_signed_def key_of_def Let_def split: option.splits if_splits)

lemma revoked_effect:
  assumes "storage_ok E m" "nvmc_ok E" "k \<le> prov_keys E m"
  shows "storage_le E m (revoked E m k)" "(bl_step E)\<^sup>*\<^sup>* m (revoked E m k)" "\<forall>j < k. key_revoked E (revoked E m k) j"
    "prov_slots E (revoked E m k) = prov_slots E m" "prov_version E (revoked E m k) = prov_version E m"
    "prov_keys E (revoked E m k) = prov_keys E m"
proof -
  have k: "k \<le> unat (num_public_keys_read E m)" using assms(3) by (simp add: prov_keys_eq)
  note r = revoke_effect [OF assms(1,2) k, unfolded revoke_eq [OF assms] prov_eqs not_not]
  show "storage_le E m (revoked E m k)" "(bl_step E)\<^sup>*\<^sup>* m (revoked E m k)" "\<forall>j < k. key_revoked E (revoked E m k) j"
    using r by blast+
  have ok: "storage_ok E (revoked E m k)" "num_public_keys_read E (revoked E m k) = num_public_keys_read E m"
    using r by (simp_all add: storage_le_def)
  show "prov_keys E (revoked E m k) = prov_keys E m" by (simp add: prov_keys_eq [symmetric] ok(2))
  from ok(1) show "prov_slots E (revoked E m k) = prov_slots E m" using r prov_slots_eq [of E] assms(1) by metis
  then show "prov_version E (revoked E m k) = prov_version E m" by (simp add: prov_version_def)
qed

section \<open>Properties\<close>

text \<open>C9: Validation accepts exactly the trusted images, for provisioned storage (aligned, within the address space, with intact
  tokens) and flash in which writing a word can only clear bits: it returns true if and only if the image is trusted (and, for
  calls of the bootloader itself, lies where it belongs); then the tokens of the keys before the one that signed it hold the
  value that revokes a key, and no other byte of the memory has changed. Where the information structure and the validation
  information are looked for, what the stored version and the keys are and what a good image is are described
  independently of the code, for both configurations: in the one that checks a hash instead of a signature no key is
  needed and nothing is written.\<close>

theorem bl_validate_iff:
  assumes "storage_ok E m" "nvmc_ok E"
  shows "validate_firmware E m dst src info external = Inr (m', True) \<longleftrightarrow>
    (external \<or> src = dst) \<and> (\<exists>k. image_trusted E m dst src info k \<and> m' = revoked E m k)"
  by (rule validate_firmware_iff [OF assms])

text \<open>C25: Booting prevents rollback, for provisioned storage and flash in which writing a word can only clear bits: when the
  bootloader jumps into an image, the image was trusted, the keys before the one that signed it are revoked
  and stay revoked, the stored version is not smaller than before, and no image older than the stored version is
  accepted any more, whatever happens to the counter, the keys and the memory outside of the storage. The stored version is
  at least the one of the booted image if it was so before, or if the version has 15 bits and a slot of the counter
  is free, as long as the information structure of the image does not lie in the storage. Both configurations, with
  signatures and with hashes, are covered.\<close>

theorem bl_boot_no_rollback:
  assumes "storage_ok E m" "nvmc_ok E" and boot: "validate_and_boot E m info slot = Inr (m1, Some jump)"
  shows "\<exists>m0 k dst. image_trusted E m dst dst info k \<and> (bl_step E)\<^sup>*\<^sup>* m m0 \<and> bl_boot E m0 info = Inr (m1, Some jump) \<and>
    prov_version E m \<le> prov_version E m0 \<and>
    (info_outside E m info \<and> (unat (read32 m (info + 20)) \<le> prov_version E m \<or>
        unat (read32 m (info + 20)) \<le> 0x7FFF \<and> 0xFFFF \<in> set (prov_slots E m)) \<longrightarrow>
      unat (read32 m (info + 20)) \<le> prov_version E m0) \<and>
    (\<forall>m2. (bl_step E)\<^sup>*\<^sup>* m0 m2 \<longrightarrow> (\<forall>j < k. key_revoked E m2 j) \<and>
      (\<forall>dst' src info' external m3. unat (read32 m2 (info' + 20)) < prov_version E m0 \<longrightarrow>
         validate_firmware E m2 dst' src info' external \<noteq> Inr (m3, True)))"
proof -
  define dst where "dst = read32 m (info + fw_address)"
  obtain ma where va: "validate_firmware E m dst dst info False = Inr (ma, True)"
    and b: "bl_boot E (store_version E ma (read32 ma (info + fw_version)) slot) info = Inr (m1, Some jump)"
    using boot by (auto simp: validate_and_boot_def fw_field_def bl_validate_firmware_local_def bindE_eq_Inr dst_def store_version_def Let_def
        split: if_splits)
  obtain k where k: "image_trusted E m dst dst info k" "ma = revoked E m k" using va validate_firmware_iff [OF assms(1,2)] by blast
  have kn: "k \<le> prov_keys E m" by (rule trusted_key [OF k(1)])
  define m0 where "m0 = store_version E ma (read32 ma (info + fw_version)) slot"
  note r = revoked_effect [OF assms(1,2) kn, folded k(2)]
  have oka: "storage_ok E ma" using r(1) by (simp add: storage_le_def)
  have s0: "(bl_step E)\<^sup>*\<^sup>* ma m0" unfolding m0_def by (rule store_version_step [OF oka])
  then have s: "(bl_step E)\<^sup>*\<^sup>* m m0" using r(2) by (rule rtranclp_trans [rotated])
  have ok0: "storage_ok E m0 \<and> nvmc_ok E" "prov_version E m \<le> prov_version E m0" using bl_store.steps_grow [OF s] assms by blast+
  have "unat (read32 m (info + 20)) \<le> prov_version E m0"
    if "info_outside E m info \<and> (unat (read32 m (info + 20)) \<le> prov_version E m \<or>
        unat (read32 m (info + 20)) \<le> 0x7FFF \<and> 0xFFFF \<in> set (prov_slots E m))"
    using that stored_version [OF oka assms(2)] revoke_version [OF assms(1,2) kn] r(4,5) by (simp add: m0_def k(2))
  moreover have "key_revoked E m2 j" if "(bl_step E)\<^sup>*\<^sup>* m0 m2" "j < k" for m2 j
    using bl_steps_le [OF rtranclp_trans [OF s0 that(1)] oka assms(2)] r(3,6) that(2) kn by (simp add: storage_le_def prov_eqs)
  moreover have "validate_firmware E m2 dst' src info' external \<noteq> Inr (m3, True)"
    if "(bl_step E)\<^sup>*\<^sup>* m0 m2" "unat (read32 m2 (info' + 20)) < prov_version E m0" for m2 dst' src info' external m3
    using bl_store.steps_grow [OF that(1) ok0(1)] bl_store.old_stays_old [OF that(1) ok0(1) that(2)]
    by (intro old_firmware_refused) auto
  ultimately show ?thesis using k(1) b s ok0(2) unfolding m0_def [symmetric] by blast
qed

section \<open>The order of the slots, and defects\<close>

text \<open>The newer image is tried first; slot 0 wins a tie.\<close>

lemma bl_main_newest:
  assumes "fprotect_area E (PM_B0_IMAGE_ADDRESS E) (PM_B0_IMAGE_SIZE E)"
    and "s0 = fw_info_find E m (s0_address_read E m)" "s1 = fw_info_find E m (s1_address_read E m)" "s0 \<noteq> 0" "s1 \<noteq> 0"
    and "(info, slot) = (if read32 m (s0 + fw_version) \<ge> read32 m (s1 + fw_version) then (s0, 0) else (s1, 1))"
    and "validate_and_boot E m info slot = Inr (m', Some jump)"
  shows "bl_main E m = Inr (m', Some jump)"
  using assms by (auto simp: bl_main_def fw_field_def Let_def split: if_splits)

text \<open>Without an image in slot 0 the version of slot 0 is read through NULL.\<close>

lemma bl_main_no_s0_ub:
  assumes "fprotect_area E (PM_B0_IMAGE_ADDRESS E) (PM_B0_IMAGE_SIZE E)"
    and "fw_info_find E m (s0_address_read E m) = 0" "fw_info_find E m (s1_address_read E m) \<noteq> 0"
  shows "bl_main E m = Inl UB"
  using assms by (simp add: bl_main_def fw_field_def Let_def)

text \<open>Validation of an address without firmware information reads its sizes through NULL before the check.\<close>

lemma bl_validate_no_info_ub: "fw_info_find E m src = 0 \<Longrightarrow> bl_validate_firmware E m dst src = Inl UB"
  by (simp add: bl_validate_firmware_def validate_firmware_def fw_field_def)

text \<open>When the counter has no free slot the version of a newer image is not stored, and the image is booted all the same.\<close>

lemma bl_full_counter_kept:
  assumes "storage_ok E m" "nvmc_ok E" "0xFFFF \<notin> set (prov_slots E m)" shows "store_version E m v slot = m"
proof -
  define new where "new = (push_bit 1 (ucast v :: u16) OR (if slot = 0 then 1 else 0))"
  have "set_monotonic_counter E m new \<in> {(m, Some EINVAL), (m, Some ENOMEM)}"
    using assms(1,2)
  proof (cases rule: set_counter_cases [where v = new])
    case (set n)
    then show ?thesis using assms(3) by (simp add: free_slot_iff prov_slots_eq [OF assms(1)])
  qed simp_all
  then show ?thesis by (auto simp: store_version_def set_monotonic_version_def new_def)
qed

text \<open>A version of 16 bits loses its highest bit in the counter: version \<open>0x8000\<close> is stored as version 0.\<close>

lemma bl_version_overflow: "set_monotonic_version E m 0x8000 slot = set_monotonic_counter E m (if slot = 0 then 1 else 0)"
proof -
  have "push_bit 1 (0x8000 :: u16) OR 1 = 1" "push_bit 1 (0x8000 :: u16) OR 0 = 0" by code_simp+
  then show ?thesis unfolding set_monotonic_version_def by (cases "slot = 0") (simp_all only: refl if_True if_False)
qed

end
