(* ===== verification/Bl_Demo.thy ===== *)
theory Bl_Demo
  imports Bl_Boot
begin

text \<open>A provisioned device with one key, two counter slots and a signed image, at which the properties are applied.\<close>

definition demo_nvmc :: "flash \<Rightarrow> u32 \<Rightarrow> u32 \<Rightarrow> flash" where
  "demo_nvmc m a v = (\<lambda>b. if b - a < 4 then m b AND ucast (drop_bit (8 * unat (b - a)) v) else m b)"

definition demo_bl :: bl_env where
  "demo_bl = \<lparr>PM_PROVISION_ADDRESS = 0x1000, PM_PROVISION_SIZE = 0x1000, PM_S0_SIZE = 0x1000, PM_B0_IMAGE_ADDRESS = 0, PM_B0_IMAGE_SIZE = 0x1000,
     SB_VALIDATE_FW_SIGNATURE = True, SB_PUBLIC_KEY_HASH_LEN = 4, FW_INFO_VALID_VAL = 0x9102FFFF,
     FIRMWARE_INFO_MAGIC = replicate 12 0xAA, VALIDATION_INFO_MAGIC = replicate 12 0xBB, fw_info_images = [],
     fprotect_area = (\<lambda>a n. True), nrfx_nvmc_word_write = demo_nvmc, ocrypto_sha256 = (\<lambda>bs. replicate 32 5),
     ocrypto_ecdsa_p256_verify_hash = (\<lambda>sig h pk. True)\<rparr>"

definition demo_words :: "(u32 \<times> u32) list" where
  "demo_words =
     [(0x1000, 0x10000), (0x1004, 0x20000), (0x1008, 1), (0x100C, 0xFFFFFFFF), (0x1010, 0x05050505), (0x1014, 0x00010001),
      (0x1018, 0x00020001), (0x101C, 0xFFFFFFFF),
      (0x10000, 0xAAAAAAAA), (0x10004, 0xAAAAAAAA), (0x10008, 0xAAAAAAAA), (0x1000C, 0x40), (0x10010, 0x50), (0x10014, 3),
      (0x10018, 0x10000), (0x1001C, 0x10040), (0x10020, 0x9102FFFF), (0x10044, 0x10048),
      (0x10050, 0xBBBBBBBB), (0x10054, 0xBBBBBBBB), (0x10058, 0xBBBBBBBB), (0x1005C, 0x10000)]"

definition demo_mem :: flash where
  "demo_mem b = (case map_of demo_words (b AND 0xFFFFFFFC) of None \<Rightarrow> 0 | Some w \<Rightarrow> ucast (drop_bit (8 * unat (b AND 3)) w))"

lemma demo_storage_words:
  "read32 demo_mem 0x1008 = 1" "read32 demo_mem 0x100C = 0xFFFFFFFF" "read16 demo_mem 0x1014 = 1" "read16 demo_mem 0x1016 = 1"
  "read16 demo_mem 0x1018 = 1" "read16 demo_mem 0x101A = 2"
  by code_simp+

lemma demo_nvmc_ok: "nvmc_ok demo_bl"
  by (simp add: nvmc_ok_def demo_bl_def demo_nvmc_def)

lemma demo_counters: "num_public_keys_read demo_bl demo_mem = 1" "counters_at demo_bl demo_mem = 0x1014"
  by (simp_all add: num_public_keys_read_def counters_at_def demo_bl_def demo_storage_words)

lemma demo_storage_ok: "storage_ok demo_bl demo_mem"
  by (simp add: storage_ok_def demo_counters demo_storage_words) (simp add: key_data_def demo_bl_def demo_storage_words)

text \<open>The counter of the device.\<close>

lemma demo_halfwords:
  "read_halfword demo_mem 0x1014 = 1" "read_halfword demo_mem 0x1016 = 1" "read_halfword demo_mem 0x1018 = 1" "read_halfword demo_mem 0x101A = 2"
  by code_simp+

lemma demo_struct: "get_counter_struct demo_bl demo_mem 1 = Some 0x1018"
proof -
  have "key_data demo_bl (num_public_keys_read demo_bl demo_mem) = 0x1014" unfolding key_data_num demo_counters(2) by simp
  then show ?thesis by (simp add: get_counter_struct_def get_counter_collection_def demo_halfwords Let_def)
qed

lemma demo_slots: "num_monotonic_counter_slots demo_bl demo_mem = 2" "counter_slots demo_bl demo_mem = [0xFFFF, 0xFFFF]"
proof -
  show n: "num_monotonic_counter_slots demo_bl demo_mem = 2"
    by (simp add: num_monotonic_counter_slots_def demo_struct demo_halfwords)
  have "read16 demo_mem 0x101C = 0xFFFF" "read16 demo_mem 0x101E = 0xFFFF" by code_simp+
  then show "counter_slots demo_bl demo_mem = [0xFFFF, 0xFFFF]"
    by (simp add: counter_slots_def demo_struct n upt_rec)
qed

lemma demo_used: "used_slots (counter_slots demo_bl demo_mem) = []" "slots_packed (counter_slots demo_bl demo_mem)"
  by (simp_all add: demo_slots used_slots_def slots_packed_def)

lemma demo_counter: "get_monotonic_counter demo_bl demo_mem = 0"
  using get_counter_eq(1) [OF demo_storage_ok] by (simp add: get_monotonic_counter_def slots_value_def demo_used)

lemma demo_version: "fst (get_monotonic_version demo_bl demo_mem) = 0"
  by (simp add: get_monotonic_version_def demo_counter)

theorem bl_counter_set_witness:
  "case set_monotonic_counter demo_bl demo_mem 7 of (m', e) \<Rightarrow> e = None \<and> get_monotonic_counter demo_bl m' = 7"
proof -
  have "\<not> (7 :: u16) \<le> 0" by simp
  then show ?thesis using bl_counter_set [OF demo_storage_ok demo_nvmc_ok demo_used(2), of 7]
    by (simp add: demo_counter demo_used(1) demo_slots(2) used_slots_def split: prod.splits)
qed

theorem bl_storage_monotone_witness:
  "storage_ok demo_bl (fst (set_monotonic_counter demo_bl demo_mem 7)) \<and>
   get_monotonic_counter demo_bl demo_mem \<le> get_monotonic_counter demo_bl (fst (set_monotonic_counter demo_bl demo_mem 7))"
proof -
  have "(bl_step demo_bl)\<^sup>*\<^sup>* demo_mem (fst (set_monotonic_counter demo_bl demo_mem 7))"
    by (rule r_into_rtranclp, rule bl_step.set_counter, rule prod.collapse [symmetric])
  from bl_storage_monotone [OF demo_storage_ok demo_nvmc_ok this] show ?thesis by simp
qed

text \<open>The image of the device.\<close>

lemma demo_fields:
  "read32 demo_mem 0x1000C = 0x40" "read32 demo_mem 0x10010 = 0x50" "read32 demo_mem 0x10014 = 3" "read32 demo_mem 0x10018 = 0x10000"
  "read32 demo_mem 0x1001C = 0x10040" "read32 demo_mem 0x10020 = 0x9102FFFF" "read32 demo_mem 0x10044 = 0x10048"
  "read32 demo_mem 0x1005C = 0x10000" "read32 demo_mem 0x10038 = 0" "read32 demo_mem 0x10034 = 0"
  by code_simp+

lemma demo_found: "info_of demo_bl demo_mem 0x10000 = Some 0x10000" "validation_of demo_bl demo_mem 0x10050 = Some 0x10050"
  by code_simp+

lemma demo_prov: "prov_slots demo_bl demo_mem = [0xFFFF, 0xFFFF]" "prov_version demo_bl demo_mem = 0" "prov_keys demo_bl demo_mem = 1"
proof -
  show s: "prov_slots demo_bl demo_mem = [0xFFFF, 0xFFFF]" using prov_slots_eq [OF demo_storage_ok] demo_slots(2) by simp
  then show "prov_version demo_bl demo_mem = 0" by (simp add: prov_version_def)
  show "prov_keys demo_bl demo_mem = 1" using prov_keys_eq [of demo_bl demo_mem] by (simp add: demo_counters)
qed

lemma demo_key: "prov_key demo_bl 0 = 0x100C" "\<not> key_revoked demo_bl demo_mem 0" "key_of demo_bl demo_mem 0x10050 0" "\<not> key_blank demo_bl demo_mem 0"
proof -
  have f: "PM_PROVISION_ADDRESS demo_bl = 0x1000" "SB_PUBLIC_KEY_HASH_LEN demo_bl = 4" "ocrypto_sha256 demo_bl = (\<lambda>bs. replicate 32 5)"
    by (simp_all add: demo_bl_def)
  show a: "prov_key demo_bl 0 = 0x100C" by (simp add: prov_key_def f)
  then show r: "\<not> key_revoked demo_bl demo_mem 0" by (simp add: key_revoked_def demo_storage_words)
  have "read8 demo_mem 0x1010 4 = replicate 4 5" by code_simp
  then show "key_of demo_bl demo_mem 0x10050 0" using a r by (simp add: key_of_def key_hash_def demo_prov f)
  have "read16 demo_mem 0x1010 = 0x505" "read16 demo_mem 0x1012 = 0x505" by code_simp+
  then show "\<not> key_blank demo_bl demo_mem 0" using a by (simp add: key_blank_def f upt_rec)
qed

lemma demo_signed: "image_signed demo_bl demo_mem bs 0x10050 0"
  by (simp add: image_signed_def demo_prov demo_key) (simp add: signature_good_def demo_bl_def)

lemma demo_trusted: "image_trusted demo_bl demo_mem 0x10000 0x10000 0x10000 0"
  by (simp add: image_trusted_def image_sound_def Let_def demo_found demo_fields demo_prov demo_signed) (simp add: demo_bl_def)

theorem bl_validate_iff_witness: "validate_firmware demo_bl demo_mem 0x10000 0x10000 0x10000 False = Inr (demo_mem, True)"
  using bl_validate_iff [OF demo_storage_ok demo_nvmc_ok, of "0x10000" "0x10000" "0x10000" False demo_mem] demo_trusted
  by (metis revoked_0)

text \<open>Booting the image stores its version.\<close>

definition demo_booted :: flash where
  "demo_booted = write_halfword demo_bl demo_mem 0x101C (NOT 7)"

lemma demo_set: "set_monotonic_version demo_bl demo_mem 3 0 = (demo_booted, None)"
proof -
  have "fst (get_counter demo_bl demo_mem) = 0" using demo_counter by (simp add: get_monotonic_counter_def)
  moreover have "snd (get_counter demo_bl demo_mem) = Some 0x101C"
    using get_counter_eq(2) [OF demo_storage_ok] by (simp add: demo_struct demo_used demo_slots used_slots_def)
  ultimately have "get_counter demo_bl demo_mem = (0, Some 0x101C)" by (simp add: prod_eq_iff)
  moreover have "push_bit 1 (3 :: u16) OR 1 = 7" by code_simp
  ultimately show ?thesis by (simp add: set_monotonic_version_def set_monotonic_counter_def demo_booted_def)
qed

lemma demo_booted_fields: "read32 demo_booted 0x10018 = 0x10000" "read32 demo_booted 0x10038 = 0"
  by code_simp+

lemma demo_boot: "validate_and_boot demo_bl demo_mem 0x10000 0 =
  Inr (demo_booted, Some (Jump (read32 demo_booted 0x10000) (read32 demo_booted 0x10004)))"
proof -
  have f: "fprotect_area demo_bl a n" for a n by (simp add: demo_bl_def)
  have v: "validate_firmware demo_bl demo_mem 0x10000 0x10000 0x10000 False = Inr (demo_mem, True)"
    using validate_firmware_iff [OF demo_storage_ok demo_nvmc_ok, of "0x10000" "0x10000" "0x10000" False demo_mem] demo_trusted
    by (metis revoked_0)
  have "bl_boot demo_bl demo_booted 0x10000 = Inr (demo_booted, Some (Jump (read32 demo_booted 0x10000) (read32 demo_booted 0x10004)))"
    by (simp add: bl_boot_def f fw_field_def demo_booted_fields fw_info_ext_api_provide_def)
  then show ?thesis by (simp add: validate_and_boot_def fw_field_def demo_fields bl_validate_firmware_local_def v demo_version demo_set)
qed

theorem bl_boot_no_rollback_witness:
  "\<exists>m0 k dst. image_trusted demo_bl demo_mem dst dst 0x10000 k \<and>
     bl_boot demo_bl m0 0x10000 = Inr (demo_booted, Some (Jump (read32 demo_booted 0x10000) (read32 demo_booted 0x10004))) \<and>
     3 \<le> prov_version demo_bl m0"
proof -
  have "PM_PROVISION_ADDRESS demo_bl = 0x1000" "SB_PUBLIC_KEY_HASH_LEN demo_bl = 4" by (simp_all add: demo_bl_def)
  then have i: "info_outside demo_bl demo_mem 0x10000" by (simp add: info_outside_def demo_prov)
  obtain m0 k dst where "image_trusted demo_bl demo_mem dst dst 0x10000 k"
    "bl_boot demo_bl m0 0x10000 = Inr (demo_booted, Some (Jump (read32 demo_booted 0x10000) (read32 demo_booted 0x10004)))"
    "unat (read32 demo_mem (0x10000 + 20)) \<le> prov_version demo_bl m0"
    using bl_boot_no_rollback [OF demo_storage_ok demo_nvmc_ok demo_boot] by (auto simp: i demo_fields demo_prov)
  then show ?thesis by (auto simp: demo_fields)
qed

end
