(* ===== verification/Mesh_Util.thy ===== *)
theory Mesh_Util
  imports Nfc_Prelude
begin

text \<open>
  Utilities of the Bluetooth mesh models: calendar conversion (\<open>subsys/bluetooth/mesh/time_util.c\<close>) and the encoding of
  transition times, delays and transactions (\<open>model_utils.c\<close>).

  A signed integer of C is an \<open>int\<close>, with the overflows written out; \<open>int16_t\<close> fields are words that are read with \<open>sint\<close>.
  Counters of years and days that cannot wrap around are natural numbers.
\<close>

section \<open>Calendar\<close>

type_synonym u40 = "40 word"
type_synonym u64 = "64 word"

record bt_mesh_time_tai =
  tai_sec :: u40
  tai_subsec :: u8

text \<open>\<open>struct tm\<close> of \<open>time.h\<close>.\<close>

record tm =
  tm_sec :: int
  tm_min :: int
  tm_hour :: int
  tm_mday :: int
  tm_mon :: int
  tm_year :: int
  tm_wday :: int
  tm_yday :: int
  tm_isdst :: int

definition month_cfg :: "nat list" where
  "month_cfg = [31, 28, 31, 30, 31, 30, 31, 31, 30, 31, 30, 31]"

definition month_leap_cfg :: "nat list" where
  "month_leap_cfg = [31, 29, 31, 30, 31, 30, 31, 31, 30, 31, 30, 31]"

definition is_leap_year :: "nat \<Rightarrow> bool" where
  "is_leap_year year \<longleftrightarrow> year mod 4 = 0 \<and> (year mod 100 \<noteq> 0 \<or> year mod 400 = 0)"

definition year_len :: "nat \<Rightarrow> nat" where
  "year_len year = (if is_leap_year year then 366 else 365)"

definition months_of :: "nat \<Rightarrow> nat list" where
  "months_of year = (if is_leap_year year then month_leap_cfg else month_cfg)"

function year_loop :: "nat \<Rightarrow> nat \<Rightarrow> u32 \<Rightarrow> u32" where
  "year_loop year current_year days =
     (if year < current_year then year_loop (Suc year) current_year (days + of_nat (year_len year)) else days)"
  by auto
termination by (relation "measure (\<lambda>(y, c, d). c - y)") auto

function month_loop :: "nat list \<Rightarrow> nat \<Rightarrow> int \<Rightarrow> u32 \<Rightarrow> u32 res" where
  "month_loop months i tm_mon' days =
     (if int i < tm_mon' then
        if i < length months then month_loop months (Suc i) tm_mon' (days + of_nat (months ! i)) else Inl UB
      else Inr days)"
  by auto
termination by (relation "measure (\<lambda>(m, i, n, d). length m - i)") auto

text \<open>Years from \<open>2 ^ 31\<close> on overflow the counter of the loop over the years.\<close>

definition ts_to_tai :: "tm \<Rightarrow> bt_mesh_time_tai res" where
  "ts_to_tai timeptr =
     (if tm_year timeptr + 1900 \<ge> 2 ^ 31 then Inl UB else
      let current_year = nat ((tm_year timeptr + 1900) mod 2 ^ 32) in
      if current_year < 2000 then Inl EAGAIN
      else if current_year \<ge> 2 ^ 31 then Inl UB else
      bindE (month_loop (months_of current_year) 0 (tm_mon timeptr) (year_loop 2000 current_year 0)) (\<lambda>days.
      if tm_mday timeptr - 1 < - (2 ^ 31) then Inl UB else
      let days = days + of_int (tm_mday timeptr - 1);
          sec = ucast (ucast days * 86400 :: u64) :: u40;
          sec = ucast (ucast sec + of_int (tm_hour timeptr) * 3600 :: u64) :: u40;
          sec = ucast (ucast sec + of_int (tm_min timeptr) * 60 :: u64) :: u40;
          sec = ucast (ucast sec + of_int (tm_sec timeptr) :: u64) :: u40 in
      Inr \<lparr>tai_sec = sec, tai_subsec = 0\<rparr>))"

function find_year :: "nat \<Rightarrow> nat \<Rightarrow> nat \<times> nat" where
  "find_year year day_cnt =
     (if year_len year > day_cnt then (year, day_cnt) else find_year (Suc year) (day_cnt - year_len year))"
  by auto
termination by (relation "measure snd") (auto simp: year_len_def)

function find_month :: "nat list \<Rightarrow> nat \<Rightarrow> nat \<Rightarrow> (nat \<times> nat) res" where
  "find_month months mon day_cnt =
     (if mon < length months then
        if months ! mon < day_cnt then find_month months (Suc mon) (day_cnt - months ! mon) else Inr (mon, day_cnt)
      else Inl UB)"
  by auto
termination by (relation "measure (\<lambda>(m, i, d). length m - i)") auto

declare year_loop.simps [simp del] month_loop.simps [simp del] find_year.simps [simp del] find_month.simps [simp del]

definition tai_to_ts :: "bt_mesh_time_tai \<Rightarrow> tm res" where
  "tai_to_ts tai =
     (let sec = unat (tai_sec tai); day_cnt = sec div 86400; (year, yday) = find_year 2000 day_cnt in
      bindE (find_month (months_of year) 0 yday) (\<lambda>(mon, day).
      Inr \<lparr>tm_sec = int (sec mod 60), tm_min = int (sec mod 3600 div 60), tm_hour = int (sec mod 86400 div 3600),
           tm_mday = int day + 1, tm_mon = int mon, tm_year = int year - 1900, tm_wday = int ((6 + day_cnt) mod 7),
           tm_yday = int yday, tm_isdst = -1\<rparr>))"

section \<open>Transitions and transactions\<close>

abbreviation (input) SYS_FOREVER_MS :: int where "SYS_FOREVER_MS \<equiv> -1"
abbreviation (input) TRANSITION_TIME_UNKNOWN :: u8 where "TRANSITION_TIME_UNKNOWN \<equiv> 0x3F"

definition model_transition_res :: "u32 list" where
  "model_transition_res = [100, 1000, 10000, 600000]"

definition model_transition_decode :: "u8 \<Rightarrow> int" where
  "model_transition_decode encoded_transition =
     (let steps = encoded_transition AND 0x3F; res = drop_bit 6 encoded_transition in
      if steps = TRANSITION_TIME_UNKNOWN then SYS_FOREVER_MS
      else sint (model_transition_res ! unat res * ucast steps))"

fun transition_loop :: "int \<Rightarrow> u8 \<Rightarrow> (u32 \<times> int) list \<Rightarrow> u8" where
  "transition_loop transition_time i [] = TRANSITION_TIME_UNKNOWN"
| "transition_loop transition_time i ((res, limit) # rs) =
     (if transition_time > limit then transition_loop transition_time (i + 1) rs
      else let steps = ucast ((of_int transition_time + res div 2) div res); steps = max 1 steps; steps = min 0x3E steps in
        push_bit 6 i OR steps)"

definition model_transition_encode :: "int \<Rightarrow> u8" where
  "model_transition_encode transition_time =
     (if transition_time = 0 then 0
      else if transition_time = SYS_FOREVER_MS then TRANSITION_TIME_UNKNOWN
      else transition_loop transition_time 0 (zip model_transition_res [6600, 66000, 910000, 37200000]))"

definition model_delay_encode :: "u32 \<Rightarrow> u8" where
  "model_delay_encode delay = ucast (delay div 5)"

definition model_delay_decode :: "u8 \<Rightarrow> int" where
  "model_delay_decode encoded_delay = uint encoded_delay * 5"

record bt_mesh_tid_ctx =
  tid_src :: u16
  tid_dst :: u16
  tid_timestamp :: int
  tid_tid :: u8

text \<open>The clock \<open>now\<close> is read by \<open>k_uptime_delta\<close>, which also stores it.\<close>

definition tid_check_and_update :: "bt_mesh_tid_ctx \<Rightarrow> u8 \<Rightarrow> u16 \<Rightarrow> u16 \<Rightarrow> int \<Rightarrow> bt_mesh_tid_ctx \<times> err option" where
  "tid_check_and_update prev tid addr recv_dst now =
     (let uptime_delta = now - tid_timestamp prev; prev = prev\<lparr>tid_timestamp := now\<rparr> in
      if tid_src prev = addr \<and> tid_dst prev = recv_dst \<and> tid_tid prev = tid \<and> uptime_delta < 6000 then (prev, Some EALREADY)
      else (prev\<lparr>tid_src := addr, tid_dst := recv_dst, tid_tid := tid\<rparr>, None))"

section \<open>Days\<close>

text \<open>The days before a year and before a month.\<close>

definition days_before :: "nat \<Rightarrow> nat" where
  "days_before year = (\<Sum>y = 2000..<year. year_len y)"

lemma days_before_simps: "days_before 2000 = 0" "2000 \<le> y \<Longrightarrow> days_before (Suc y) = days_before y + year_len y"
  by (simp_all add: days_before_def)

lemma days_before_ge: "2000 \<le> y \<Longrightarrow> 365 * (y - 2000) \<le> days_before y"
  by (induction y rule: dec_induct) (auto simp: days_before_simps year_len_def)

lemma year_loop_eq:
  assumes "2000 \<le> y" "y \<le> c" shows "year_loop y c (of_nat (days_before y)) = of_nat (days_before c)"
  using assms
proof (induction y c "of_nat (days_before y) :: u32" arbitrary: rule: year_loop.induct)
  case (1 y c)
  then show ?case by (subst year_loop.simps) (auto simp: days_before_simps)
qed

lemma find_year_eq:
  assumes "2000 \<le> y" "find_year y d = (y', r)"
  shows "y \<le> y' \<and> days_before y' + r = days_before y + d \<and> r < year_len y'"
  using assms
proof (induction y d rule: find_year.induct)
  case (1 y d)
  show ?case
  proof (cases "year_len y > d")
    case True
    then show ?thesis using 1(3) by (subst (asm) find_year.simps) simp
  next
    case False
    then have "find_year (Suc y) (d - year_len y) = (y', r)" using 1(3) by (subst (asm) find_year.simps) simp
    from 1(1) [OF False _ this] show ?thesis using 1(2) False by (auto simp: days_before_simps)
  qed
qed

lemma sum_list_take_Suc: "i < length ms \<Longrightarrow> sum_list (take (Suc i) ms) = sum_list (take i ms) + (ms ! i :: nat)"
  by (simp add: take_Suc_conv_app_nth)

lemma month_loop_eq:
  assumes "i \<le> n" "n \<le> length ms"
  shows "month_loop ms i (int n) d = Inr (d + of_nat (sum_list (take n ms)) - of_nat (sum_list (take i ms)))"
  using assms
proof (induction ms i "int n" d rule: month_loop.induct)
  case (1 ms i d)
  then show ?case by (subst month_loop.simps) (auto simp: sum_list_take_Suc algebra_simps)
qed

lemma find_month_eq:
  assumes "d < sum_list (drop i ms)" "i \<le> length ms"
  shows "\<exists>mon r. find_month ms i d = Inr (mon, r) \<and> i \<le> mon \<and> mon < length ms \<and> r \<le> ms ! mon \<and>
    sum_list (take mon ms) + r = sum_list (take i ms) + d"
  using assms
proof (induction ms i d rule: find_month.induct)
  case (1 ms i d)
  have i: "i < length ms" using 1(2,3) by (cases "i = length ms") auto
  have dr: "sum_list (drop i ms) = ms ! i + sum_list (drop (Suc i) ms)" using Cons_nth_drop_Suc [OF i] by (metis sum_list.Cons)
  show ?case
  proof (cases "ms ! i < d")
    case True
    have "d - ms ! i < sum_list (drop (Suc i) ms)" using True 1(2) dr by simp
    from 1(1) [OF i True this] i show ?thesis using True by (subst find_month.simps) (auto simp: sum_list_take_Suc intro: Suc_leD)
  next
    case False
    then show ?thesis using i by (subst find_month.simps) simp
  qed
qed

lemma months_of_sum: "length (months_of y) = 12" "sum_list (months_of y) = year_len y"
  by (simp_all add: months_of_def month_leap_cfg_def month_cfg_def year_len_def)

section \<open>Conversion\<close>

lemma u40_casts:
  "ucast (of_nat n :: u64) = (of_nat n :: u40)" "n < 2 ^ 32 \<Longrightarrow> ucast (of_nat n :: u32) = (of_nat n :: u64)"
  by (rule bit_word_eqI, simp add: bit_simps) (simp add: unsigned_of_nat take_bit_nat_eq_self)

lemma u40_add: "ucast (ucast (of_nat a :: u40) + of_nat b :: u64) = (of_nat (a + b) :: u40)"
proof -
  have "ucast (of_nat a :: u40) = (of_nat (a mod 2 ^ 40) :: u64)" by (simp add: unsigned_of_nat take_bit_eq_mod)
  then have "ucast (ucast (of_nat a :: u40) + of_nat b :: u64) = (ucast (of_nat (a mod 2 ^ 40 + b) :: u64) :: u40)" by (simp only: of_nat_add)
  also have "\<dots> = of_nat (a mod 2 ^ 40) + of_nat b" using u40_casts(1) [of "a mod 2 ^ 40 + b"] by (simp only: of_nat_add)
  also have "(of_nat (a mod 2 ^ 40) :: u40) = of_nat a" by (simp add: word_unat_eq_iff unsigned_of_nat take_bit_eq_mod)
  finally show ?thesis by simp
qed

text \<open>A date in the range of the calendar.\<close>

lemma ts_to_tai_eq:
  assumes "2000 \<le> y" "y < 2 ^ 31" "mon \<le> 12" "days_before y + sum_list (take mon (months_of y)) + d < 2 ^ 32"
    and "tm_year t = int y - 1900" "tm_mon t = int mon" "tm_mday t = int d + 1" "tm_hour t = int h" "tm_min t = int mi" "tm_sec t = int s"
  shows "ts_to_tai t = Inr \<lparr>tai_sec = of_nat ((days_before y + sum_list (take mon (months_of y)) + d) * 86400 + h * 3600 + mi * 60 + s), tai_subsec = 0\<rparr>"
proof -
  let ?D = "days_before y + sum_list (take mon (months_of y)) + d"
  have y: "nat ((tm_year t + 1900) mod 2 ^ 32) = y" using assms(2,5) by simp
  have yl: "year_loop 2000 y 0 = of_nat (days_before y)" using year_loop_eq [of 2000 y] assms(1) by (simp add: days_before_simps)
  have ml: "month_loop (months_of y) 0 (int mon) (of_nat (days_before y)) = Inr (of_nat (days_before y + sum_list (take mon (months_of y))))"
    using month_loop_eq [of 0 mon "months_of y"] assms(3) by (simp add: months_of_sum)
  have c: "ucast (ucast (of_nat ?D :: u32) * 86400 :: u64) = (of_nat (?D * 86400) :: u40)"
    using u40_casts(2) [OF assms(4)] u40_casts(1) [of "?D * 86400"] by simp
  have hms: "ucast (ucast (of_nat a :: u40) + of_int (int h) * 3600 :: u64) = (of_nat (a + h * 3600) :: u40)"
    "ucast (ucast (of_nat a :: u40) + of_int (int mi) * 60 :: u64) = (of_nat (a + mi * 60) :: u40)"
    "ucast (ucast (of_nat a :: u40) + of_int (int s) :: u64) = (of_nat (a + s) :: u40)" for a
    using u40_add [of a "h * 3600"] u40_add [of a "mi * 60"] u40_add [of a s] by simp_all
  have d: "of_nat (days_before y + sum_list (take mon (months_of y))) + of_int (tm_mday t - 1) = (of_nat ?D :: u32)" using assms(7) by simp
  show ?thesis unfolding ts_to_tai_def y assms(6) yl ml Let_def bindE_simps d c assms(8-10) hms using assms(1,2,5,7) by simp
qed

lemma tai_to_ts_eq:
  obtains y mon d where "tai_to_ts tai = Inr \<lparr>tm_sec = int (unat (tai_sec tai) mod 60), tm_min = int (unat (tai_sec tai) mod 3600 div 60),
      tm_hour = int (unat (tai_sec tai) mod 86400 div 3600), tm_mday = int d + 1, tm_mon = int mon, tm_year = int y - 1900,
      tm_wday = int ((6 + unat (tai_sec tai) div 86400) mod 7), tm_yday = int (sum_list (take mon (months_of y)) + d), tm_isdst = -1\<rparr>"
    "2000 \<le> y" "mon < 12" "d \<le> months_of y ! mon" "sum_list (take mon (months_of y)) + d < year_len y"
    "days_before y + sum_list (take mon (months_of y)) + d = unat (tai_sec tai) div 86400"
proof -
  obtain y r where fy: "find_year 2000 (unat (tai_sec tai) div 86400) = (y, r)" by fastforce
  note f = find_year_eq [OF order.refl fy]
  have "r < sum_list (drop 0 (months_of y))" using f by (simp add: months_of_sum)
  from find_month_eq [OF this] obtain mon d where m: "find_month (months_of y) 0 r = Inr (mon, d)" "mon < 12" "d \<le> months_of y ! mon"
    "sum_list (take mon (months_of y)) + d = r" by (auto simp: months_of_sum)
  show thesis
    by (rule that [of d mon y]) (use f m fy in \<open>simp_all add: tai_to_ts_def Let_def days_before_simps\<close>)
qed

lemma hms_split: "n div 86400 * 86400 + n mod 86400 div 3600 * 3600 + n mod 3600 div 60 * 60 + n mod 60 = (n :: nat)"
proof -
  have "n mod 86400 mod 3600 = n mod 3600" "n mod 3600 mod 60 = n mod 60" by (simp_all add: mod_mod_cancel)
  then show ?thesis using div_mult_mod_eq [of n 86400] div_mult_mod_eq [of "n mod 86400" 3600] div_mult_mod_eq [of "n mod 3600" 60] by linarith
qed

text \<open>C22: Converting a TAI time to a calendar date and back gives the same second, for every time that the 40 bits of the
  field can hold; the conversion never leaves the month tables, and the date has its fields in range except that
  the day of the month can be one too large.\<close>

theorem tai_roundtrip:
  "\<exists>t. tai_to_ts tai = Inr t \<and> ts_to_tai t = Inr (tai\<lparr>tai_subsec := 0\<rparr>) \<and>
     0 \<le> tm_sec t \<and> tm_sec t < 60 \<and> 0 \<le> tm_min t \<and> tm_min t < 60 \<and> 0 \<le> tm_hour t \<and> tm_hour t < 24 \<and>
     0 \<le> tm_mon t \<and> tm_mon t < 12 \<and> 1 \<le> tm_mday t \<and> tm_mday t \<le> int (months_of (nat (tm_year t + 1900)) ! nat (tm_mon t)) + 1 \<and>
     0 \<le> tm_yday t \<and> tm_yday t < int (year_len (nat (tm_year t + 1900))) \<and> 100 \<le> tm_year t \<and> 0 \<le> tm_wday t \<and> tm_wday t < 7"
proof -
  let ?s = "unat (tai_sec tai)"
  obtain y mon d where t: "tai_to_ts tai = Inr \<lparr>tm_sec = int (?s mod 60), tm_min = int (?s mod 3600 div 60),
      tm_hour = int (?s mod 86400 div 3600), tm_mday = int d + 1, tm_mon = int mon, tm_year = int y - 1900,
      tm_wday = int ((6 + ?s div 86400) mod 7), tm_yday = int (sum_list (take mon (months_of y)) + d), tm_isdst = -1\<rparr>"
    and r: "2000 \<le> y" "mon < 12" "d \<le> months_of y ! mon" "sum_list (take mon (months_of y)) + d < year_len y"
    and days: "days_before y + sum_list (take mon (months_of y)) + d = ?s div 86400"
    by (rule tai_to_ts_eq)
  have lt: "?s < 2 ^ 40" using unsigned_less [of "tai_sec tai"] by simp
  have sm: "?s div 86400 < 2 ^ 24" using lt by (simp add: less_mult_imp_div_less)
  then have y: "y < 2 ^ 31" using days_before_ge [OF r(1)] days by simp
  have hms: "?s div 86400 * 86400 + ?s mod 86400 div 3600 * 3600 + ?s mod 3600 div 60 * 60 + ?s mod 60 = ?s" by (rule hms_split)
  have again: "ts_to_tai \<lparr>tm_sec = int (?s mod 60), tm_min = int (?s mod 3600 div 60),
      tm_hour = int (?s mod 86400 div 3600), tm_mday = int d + 1, tm_mon = int mon, tm_year = int y - 1900,
      tm_wday = int ((6 + ?s div 86400) mod 7), tm_yday = int (sum_list (take mon (months_of y)) + d), tm_isdst = -1\<rparr> = Inr (tai\<lparr>tai_subsec := 0\<rparr>)"
    by (subst ts_to_tai_eq [where y = y and mon = mon and d = d and h = "?s mod 86400 div 3600" and mi = "?s mod 3600 div 60" and s = "?s mod 60"])
      (use r y sm in \<open>simp_all add: days hms\<close>)
  show ?thesis
    by (intro exI conjI, rule t, rule again) (use r in \<open>simp_all add: nat_add_distrib less_mult_imp_div_less\<close>)
qed

text \<open>The comparison in the month search takes the last day of a month too much: the first of February is the 32nd of January.\<close>

lemma tai_first_of_february:
  "case tai_to_ts \<lparr>tai_sec = 31 * 86400, tai_subsec = 0\<rparr> of Inr t \<Rightarrow> tm_mon t = 0 \<and> tm_mday t = 32 | Inl e \<Rightarrow> False"
  by (simp add: tai_to_ts_def find_year.simps find_month.simps year_len_def months_of_def is_leap_year_def month_leap_cfg_def)

text \<open>The number of days in closed form: a leap day for every fourth year, but not for every hundredth, but for every four hundredth.\<close>

lemma days_before_closed:
  "2000 \<le> y \<Longrightarrow> days_before y + 730485 + (y + 99) div 100 = 365 * y + (y + 3) div 4 + (y + 399) div 400"
proof (induction y rule: dec_induct)
  case (step n)
  have d: "(Suc n + 3) div 4 = (if n mod 4 = 0 then Suc ((n + 3) div 4) else (n + 3) div 4)"
    "(Suc n + 99) div 100 = (if n mod 100 = 0 then Suc ((n + 99) div 100) else (n + 99) div 100)"
    "(Suc n + 399) div 400 = (if n mod 400 = 0 then Suc ((n + 399) div 400) else (n + 399) div 400)"
    using div_Suc [of "n + 3" 4] div_Suc [of "n + 99" 100] div_Suc [of "n + 399" 400] by simp_all
  have l: "n mod 100 = 0 \<Longrightarrow> n mod 4 = 0" "n mod 400 = 0 \<Longrightarrow> n mod 100 = 0" 
    using mod_mod_cancel [of 4 100 n] mod_mod_cancel [of 100 400 n] by simp_all
  show ?case unfolding d days_before_simps(2) [OF step.hyps(1)] year_len_def is_leap_year_def using step.IH l by (simp split: if_splits)
qed (simp add: days_before_simps)

section \<open>Transition times\<close>

text \<open>What a byte stands for: a number of steps of one of four resolutions.\<close>

definition transition_value :: "nat \<Rightarrow> nat \<Rightarrow> int" where
  "transition_value j k = int ([100, 1000, 10000, 600000] ! j * k)"

lemma nat_less_4: "(j :: nat) < 4 \<longleftrightarrow> j = 0 \<or> j = 1 \<or> j = 2 \<or> j = 3"
  by auto

lemma res_steps:
  assumes "j < 4" "k \<le> 62" shows "sint (model_transition_res ! j * of_nat k) = transition_value j k"
proof -
  have k: "unat (of_nat k :: u32) = k" using assms(2) by (intro unat_of_nat_u32) simp
  have rs: "unat (model_transition_res ! j) = [100, 1000, 10000, 600000] ! j" "[100, 1000, 10000, 600000] ! j \<le> (600000 :: nat)"
    using assms(1) by (auto simp: nat_less_4 model_transition_res_def)
  have lt: "[100, 1000, 10000, 600000] ! j * k < (2 :: nat) ^ 31" using mult_le_mono [OF rs(2) assms(2)] by (rule order.strict_trans1) simp
  then have "unat (model_transition_res ! j * of_nat k) = [100, 1000, 10000, 600000] ! j * k"
    using unat_mult_lem [of "model_transition_res ! j" "of_nat k", unfolded k rs(1)] by simp
  then show ?thesis using lt sint_unat_small [of "model_transition_res ! j * of_nat k"] by (simp only: transition_value_def)
qed

lemma steps_bound: "unat ((b :: u8) AND 0x3F) < 64" "unat (drop_bit 6 (b :: u8)) < 4"
proof -
  have "b AND 0x3F = take_bit 6 b" by (simp add: take_bit_eq_mask mask_eq_exp_minus_1)
  then show "unat (b AND 0x3F) < 64" using take_bit_nat_less_exp [of 6 "unat b"] by (simp add: unsigned_take_bit_eq)
  show "unat (drop_bit 6 b) < 4" using unat_u8_lt [of b] by (simp add: unat_drop_bit_eq drop_bit_eq_div unat_div less_mult_imp_div_less)
qed

lemma transition_decode_value:
  assumes "b AND 0x3F \<noteq> 0x3F"
  shows "model_transition_decode b = transition_value (unat (drop_bit 6 b)) (unat (b AND 0x3F))" "unat (b AND 0x3F) \<le> 62"
proof -
  have "unat (b AND 0x3F) \<noteq> 63" using assms by (auto simp: word_unat_eq_iff)
  then show le: "unat (b AND 0x3F) \<le> 62" using steps_bound(1) [of b] by simp
  have "ucast (b AND 0x3F) = (of_nat (unat (b AND 0x3F)) :: u32)" by simp
  then show "model_transition_decode b = transition_value (unat (drop_bit 6 b)) (unat (b AND 0x3F))"
    using res_steps [OF steps_bound(2) le, of b] assms by (simp add: model_transition_decode_def Let_def)
qed

lemma transition_byte:
  assumes "i < 4" "k < 63"
  shows "(push_bit 6 (of_nat i) OR of_nat k :: u8) AND 0x3F = of_nat k" "drop_bit 6 (push_bit 6 (of_nat i) OR of_nat k :: u8) = of_nat i"
proof -
  have k: "take_bit 6 (of_nat k :: u8) = of_nat k" "drop_bit 6 (of_nat k :: u8) = 0"
    using assms(2) by (simp_all add: word_unat_eq_iff unsigned_take_bit_eq unat_drop_bit_eq unsigned_of_nat take_bit_eq_mod drop_bit_eq_div unat_mod unat_div)
  have i: "take_bit 2 (of_nat i :: u8) = of_nat i" using assms(1) by (simp add: word_unat_eq_iff unsigned_take_bit_eq unsigned_of_nat take_bit_eq_mod unat_mod)
  have "(push_bit 6 (of_nat i) OR of_nat k :: u8) AND 0x3F = take_bit 6 (push_bit 6 (of_nat i) OR of_nat k)"
    by (simp add: take_bit_eq_mask mask_eq_exp_minus_1)
  then show "(push_bit 6 (of_nat i) OR of_nat k :: u8) AND 0x3F = of_nat k" by (simp add: take_bit_or k(1) take_bit_push_bit)
  have "drop_bit 6 (push_bit 6 (take_bit 2 (of_nat i)) :: u8) = take_bit 2 (of_nat i)" by (rule bit_word_eqI) (auto simp: bit_simps)
  then show "drop_bit 6 (push_bit 6 (of_nat i) OR of_nat k :: u8) = of_nat i" by (simp add: drop_bit_or k(2) i)
qed

lemma transition_decode_byte:
  assumes "i < 4" "k \<le> 62" shows "model_transition_decode (push_bit 6 (of_nat i) OR of_nat k) = transition_value i k"
proof -
  let ?b = "push_bit 6 (of_nat i) OR of_nat k :: u8"
  have u: "unat (of_nat k :: u8) = k" "unat (of_nat i :: u8) = i" using assms by (simp_all add: unsigned_of_nat take_bit_eq_mod)
  have b: "?b AND 0x3F = of_nat k" "drop_bit 6 ?b = of_nat i" using transition_byte [of i k] assms by simp_all
  have "unat (?b AND 0x3F) \<noteq> unat (0x3F :: u8)" unfolding b(1) u(1) using assms(2) by simp
  then have "?b AND 0x3F \<noteq> 0x3F" by metis
  from transition_decode_value(1) [OF this] show ?thesis unfolding b u .
qed

text \<open>The nearest multiple, and the nearest value of all resolutions.\<close>

lemma nearest_multiple:
  fixes m q p t :: int
  assumes "2 * (m * q) \<le> 2 * t + m" "2 * t + m < 2 * (m * q) + 2 * m" shows "\<bar>m * q - t\<bar> \<le> \<bar>m * p - t\<bar>"
proof -
  have m: "0 < m" using assms by simp
  consider "p \<le> q - 1" | "p = q" | "q + 1 \<le> p" by linarith
  then show ?thesis
  proof cases
    case 1
    then have "m * p \<le> m * (q - 1)" using m by simp
    then show ?thesis using assms by (simp add: algebra_simps)
  next
    case 3
    then have "m * (q + 1) \<le> m * p" using m by simp
    then show ?thesis using assms by (simp add: algebra_simps)
  qed simp
qed

lemma transition_near:
  fixes m t q L r :: int
  assumes "2 * (m * q) \<le> 2 * t + m" "2 * t + m < 2 * (m * q) + 2 * m" "2 * t \<le> 62 * m + L"
    and "(\<exists>p. r = m * p \<and> (p \<le> 62 \<or> L \<le> r)) \<or> (\<exists>c P. r \<le> P \<and> P + m * c < 2 * t \<and> P < m * c \<and> c \<le> 62)"
  shows "\<bar>m * min 62 q - t\<bar> \<le> \<bar>r - t\<bar>"
proof -
  have m: "0 < m" using assms(1,2) by simp
  show ?thesis
  proof (cases "q \<le> 62")
    case True
    then have s: "min 62 q = q" by simp
    show ?thesis using assms(4)
    proof (elim disjE exE)
      fix p assume "r = m * p \<and> (p \<le> 62 \<or> L \<le> r)"
      then show ?thesis using nearest_multiple [OF assms(1,2), of p] s by simp
    next
      fix c P assume c: "r \<le> P \<and> P + m * c < 2 * t \<and> P < m * c \<and> c \<le> 62"
      then show ?thesis using nearest_multiple [OF assms(1,2), of c] unfolding s by linarith
    qed
  next
    case False
    then have "m * 63 \<le> m * q" using m by simp
    then have t: "m * 62 \<le> t" using assms(1) m by linarith
    have s: "min 62 q = 62" using False by simp
    have mono: "m * c \<le> m * 62" if "c \<le> 62" for c using that m by simp
    show ?thesis using assms(4)
    proof (elim disjE exE)
      fix p assume p: "r = m * p \<and> (p \<le> 62 \<or> L \<le> r)"
      then consider "r \<le> m * 62" | "L \<le> r" using mono [of p] by blast
      then show ?thesis using t assms(3) unfolding s by cases linarith+
    next
      fix c P assume "r \<le> P \<and> P + m * c < 2 * t \<and> P < m * c \<and> c \<le> 62"
      then show ?thesis using t mono [of c] unfolding s by linarith
    qed
  qed
qed

text \<open>The number of steps, computed with words.\<close>

lemma transition_steps:
  fixes r :: u32
  assumes "0 \<le> t" "t < 2 ^ 31" "0 < unat r" "unat r < 2 ^ 31" "(nat t + unat r div 2) div unat r < 256"
  shows "min 0x3E (max 1 (ucast ((of_int t + r div 2) div r))) = (of_nat (min 62 (max 1 ((nat t + unat r div 2) div unat r))) :: u8)"
proof -
  let ?q = "(nat t + unat r div 2) div unat r"
  have t: "of_int t = (of_nat (nat t) :: u32)" using assms(1) by simp
  have "unat ((of_nat (nat t) :: u32) + r div 2) = nat t + unat r div 2"
    using assms(2,4) by (subst unat_add_no_wrap_u32) (simp_all add: unat_of_nat_u32 unat_div)
  then have q: "unat ((of_int t + r div 2) div r) = ?q" unfolding t by (simp add: unat_div)
  have "unat (ucast ((of_int t + r div 2) div r) :: u8) = ?q" using q assms(5) by (simp add: unsigned_ucast_eq take_bit_nat_eq_self)
  then have c: "ucast ((of_int t + r div 2) div r) = (of_nat ?q :: u8)" by (metis word_of_nat_unat_id)
  have mono: "max 1 (of_nat n :: u8) = of_nat (max 1 n)" "min 0x3E (of_nat n :: u8) = of_nat (min 62 n)" if "n < 256" for n
    using that by (auto simp: max_def min_def word_le_nat_alt unat_of_nat_u8)
  show ?thesis unfolding c using mono(1) [OF assms(5)] mono(2) [of "max 1 ?q"] assms(5) by simp
qed

text \<open>For every resolution: the times it is used for, and why no other value is nearer.\<close>

definition transition_limit :: "nat \<Rightarrow> int" where
  "transition_limit i = [0, 6600, 66000, 910000, 37200000] ! i"

lemma transition_cases:
  assumes "0 < t" "t \<le> 37200000"
  obtains i where "i < 4" "transition_limit i < t" "t \<le> transition_limit (Suc i)"
proof -
  consider "t \<le> 6600" | "6600 < t" "t \<le> 66000" | "66000 < t" "t \<le> 910000" | "910000 < t" by linarith
  then show thesis
    by cases (use assms that [of 0] that [of 1] that [of 2] that [of 3] in \<open>simp_all add: transition_limit_def\<close>)
qed

lemma transition_encode_loop:
  assumes "i < 4" "transition_limit i < t" "t \<le> transition_limit (Suc i)"
  shows "model_transition_encode t = push_bit 6 (of_nat i) OR
    min 0x3E (max 1 (ucast ((of_int t + model_transition_res ! i div 2) div model_transition_res ! i)))"
  using assms by (auto simp: nat_less_4 transition_limit_def model_transition_encode_def model_transition_res_def)

lemma transition_encode_value:
  assumes "i < 4" "transition_limit i < t" "t \<le> transition_limit (Suc i)" "50 \<le> t"
  defines "m \<equiv> int ([100, 1000, 10000, 600000] ! i)"
  obtains q where "model_transition_decode (model_transition_encode t) = m * min 62 q"
    "2 * (m * q) \<le> 2 * t + m" "2 * t + m < 2 * (m * q) + 2 * m"
proof -
  let ?r = "[100, 1000, 10000, 600000] ! i :: nat"
  define q where "q = (nat t + ?r div 2) div ?r"
  have u: "unat (model_transition_res ! i) = ?r" "0 < ?r" "?r < 2 ^ 31" "even ?r" and t: "0 \<le> t" "t < 2 ^ 31"
    using assms(1-4) by (auto simp: nat_less_4 model_transition_res_def transition_limit_def)
  have q: "1 \<le> q" "q < 256" using assms(1-4) by (auto simp: nat_less_4 transition_limit_def q_def)
  have e: "model_transition_encode t = push_bit 6 (of_nat i) OR of_nat (min 62 q)"
    using transition_encode_loop [OF assms(1-3)] transition_steps [OF t, of "model_transition_res ! i"] u q by (simp add: q_def max_absorb2)
  have d: "model_transition_decode (model_transition_encode t) = m * min 62 (int q)"
    unfolding e using transition_decode_byte [OF assms(1), of "min 62 q"] by (simp add: transition_value_def m_def of_nat_min)
  have "?r * q + (nat t + ?r div 2) mod ?r = nat t + ?r div 2" unfolding q_def by simp
  moreover have "(nat t + ?r div 2) mod ?r < ?r" using u(2) by simp
  ultimately have "2 * (?r * q) \<le> 2 * nat t + ?r" "2 * nat t + ?r < 2 * (?r * q) + 2 * ?r" using u(4) by auto
  then have "int (2 * (?r * q)) \<le> int (2 * nat t + ?r)" "int (2 * nat t + ?r) < int (2 * (?r * q) + 2 * ?r)" by (simp_all only: of_nat_le_iff of_nat_less_iff)
  moreover have "int (nat t) = t" using t(1) by simp
  ultimately have "2 * (m * int q) \<le> 2 * t + m" "2 * t + m < 2 * (m * int q) + 2 * m"
    unfolding m_def by (simp_all only: of_nat_add of_nat_mult of_nat_numeral)
  with d show thesis by (rule that)
qed

lemma transition_others:
  assumes "i < 4"
  defines "m \<equiv> int ([100, 1000, 10000, 600000] ! i)" and "L \<equiv> [7000, 70000, 1200000, 37200000] ! i :: int"
  shows "t \<le> transition_limit (Suc i) \<Longrightarrow> 2 * t \<le> 62 * m + L"
    "transition_limit i < t \<Longrightarrow> j < 4 \<Longrightarrow> k \<le> 62 \<Longrightarrow>
      (\<exists>p. transition_value j k = m * p \<and> (p \<le> 62 \<or> L \<le> transition_value j k)) \<or>
      (\<exists>c P. transition_value j k \<le> P \<and> P + m * c < 2 * t \<and> P < m * c \<and> c \<le> 62)"
proof -
  show "2 * t \<le> 62 * m + L" if "t \<le> transition_limit (Suc i)"
    using assms(1) that by (auto simp: nat_less_4 transition_limit_def m_def L_def)
  assume t: "transition_limit i < t" and j: "j < 4" and k: "k \<le> 62"
  show "(\<exists>p. transition_value j k = m * p \<and> (p \<le> 62 \<or> L \<le> transition_value j k)) \<or>
      (\<exists>c P. transition_value j k \<le> P \<and> P + m * c < 2 * t \<and> P < m * c \<and> c \<le> 62)"
  proof (cases "i \<le> j")
    case True
    define c :: int where "c = [1, 10, 100, 6000, 1, 1, 10, 600, 1, 1, 1, 60, 1, 1, 1, 1] ! (4 * i + j)"
    have "transition_value j k = m * (c * int k) \<and> (c * int k \<le> 62 \<or> L \<le> transition_value j k)"
      using assms(1) j k True by (auto simp: nat_less_4 transition_value_def m_def L_def c_def)
    then show ?thesis by blast
  next
    case False
    have "transition_value j k \<le> [0, 6200, 62000, 620000] ! i \<and> [0, 6200, 62000, 620000] ! i + m * [1, 7, 7, 2] ! i < 2 * t \<and>
      [0, 6200, 62000, 620000] ! i < m * [1, 7, 7, 2] ! i \<and> [1, 7, 7, 2] ! i \<le> (62 :: int)"
      using assms(1) j k t False by (auto simp: nat_less_4 transition_value_def m_def transition_limit_def)
    then show ?thesis by blast
  qed
qed

text \<open>C23: The encoding of a transition time is the nearest one: for every time from 50 ms to the largest one, no byte
  decodes to a value that is closer to it than the encoded one.\<close>

theorem transition_encode_nearest:
  assumes "50 \<le> t" "t \<le> 37200000" "b AND 0x3F \<noteq> 0x3F"
  shows "\<bar>model_transition_decode (model_transition_encode t) - t\<bar> \<le> \<bar>model_transition_decode b - t\<bar>"
proof -
  define j k where "j = unat (drop_bit 6 b)" "k = unat (b AND 0x3F)"
  have b: "model_transition_decode b = transition_value j k" "k \<le> 62" "j < 4"
    using transition_decode_value [OF assms(3)] steps_bound(2) [of b] by (simp_all add: j_k_def)
  obtain i where i: "i < 4" "transition_limit i < t" "t \<le> transition_limit (Suc i)" using transition_cases [of t] assms(1,2) by auto
  obtain q where q: "model_transition_decode (model_transition_encode t) = int ([100, 1000, 10000, 600000] ! i) * min 62 q"
    "2 * (int ([100, 1000, 10000, 600000] ! i) * q) \<le> 2 * t + int ([100, 1000, 10000, 600000] ! i)"
    "2 * t + int ([100, 1000, 10000, 600000] ! i) < 2 * (int ([100, 1000, 10000, 600000] ! i) * q) + 2 * int ([100, 1000, 10000, 600000] ! i)"
    by (rule transition_encode_value [OF i assms(1)])
  show ?thesis unfolding q(1) b(1)
    by (rule transition_near [OF q(2,3) transition_others(1) [OF i(1,3)] transition_others(2) [OF i(1,2) b(3,2)]])
qed

theorem transition_encode_nearest_witness:
  "model_transition_encode 6500 = 62 \<and> \<bar>model_transition_decode (model_transition_encode 6500) - 6500\<bar> \<le> \<bar>model_transition_decode 0x47 - 6500\<bar>"
proof -
  have "(0x47 :: u8) AND 0x3F \<noteq> 0x3F" "model_transition_encode 6500 = 62" by code_simp+
  then show ?thesis using transition_encode_nearest [of 6500 "0x47"] by simp
qed

section \<open>Transactions\<close>

text \<open>However a message gets through, its repetitions are refused as long as they follow each other within six seconds, and
  a message that differs is accepted.\<close>

lemma tid_repetition:
  assumes "tid_check_and_update prev tid addr dst now = (ctx, e)" "now' - now < 6000"
  shows "\<exists>ctx'. tid_check_and_update ctx tid addr dst now' = (ctx', Some EALREADY) \<and> ctx' = ctx\<lparr>tid_timestamp := now'\<rparr>"
  using assms by (auto simp: tid_check_and_update_def Let_def split: if_splits)

lemma tid_other:
  assumes "(tid, addr, dst) \<noteq> (tid_tid prev, tid_src prev, tid_dst prev)"
  shows "snd (tid_check_and_update prev tid addr dst now) = None"
  using assms by (auto simp: tid_check_and_update_def Let_def)

end
