(* ===== verification/Mesh_Time.thy ===== *)
theory Mesh_Time
  imports Mesh_Util "HOL-Library.Signed_Division"
begin

text \<open>
  The mesh Time Server: the format of time messages (\<open>subsys/bluetooth/mesh/time.c\<close>, \<open>time_internal.h\<close>) and the server
  (\<open>time_srv.c\<close>).

  A message buffer is its bytes; adding appends to it (the buffers of the server are as large as its messages) and pulling takes from its
  front. The uptime is an \<open>int64_t\<close>. What the server does to its surroundings (messages, storage, callback) is a list of events; the
  readings of the clock, in the order of the calls, and the configuration are parameters. The callback is assumed not to call the server.
\<close>

section \<open>Messages\<close>

definition net_buf_simple_pull_u8 :: "u8 list \<Rightarrow> (u8 \<times> u8 list) res" where
  "net_buf_simple_pull_u8 buf = (case buf of b # buf \<Rightarrow> Inr (b, buf) | _ \<Rightarrow> Inl UB)"

definition net_buf_simple_pull_le16 :: "u8 list \<Rightarrow> (u16 \<times> u8 list) res" where
  "net_buf_simple_pull_le16 buf = (case buf of a # b # buf \<Rightarrow> Inr (be16 b a, buf) | _ \<Rightarrow> Inl UB)"

definition net_buf_simple_pull_le32 :: "u8 list \<Rightarrow> (u32 \<times> u8 list) res" where
  "net_buf_simple_pull_le32 buf = (case buf of a # b # c # d # buf \<Rightarrow> Inr (be32 d c b a, buf) | _ \<Rightarrow> Inl UB)"

definition bt_mesh_time_buf_pull_tai_sec :: "u8 list \<Rightarrow> (u64 \<times> u8 list) res" where
  "bt_mesh_time_buf_pull_tai_sec buf =
     bindE (net_buf_simple_pull_le32 buf) (\<lambda>(low, buf).
     bindE (net_buf_simple_pull_u8 buf) (\<lambda>(high, buf).
     Inr (ucast low OR push_bit 32 (ucast high), buf)))"

definition bt_mesh_time_buf_put_tai_sec :: "u8 list \<Rightarrow> u64 \<Rightarrow> u8 list" where
  "bt_mesh_time_buf_put_tai_sec buf sec = buf @ map (\<lambda>i. ucast (drop_bit (i * 8) sec)) [0..<5]"

text \<open>The fields of type \<open>int16_t\<close> are words; their values are the signed ones.\<close>

record bt_mesh_time_status =
  st_tai :: bt_mesh_time_tai
  st_uncertainty :: u64
  st_tai_utc_delta :: u16
  st_time_zone_offset :: u16
  st_is_authority :: bool

abbreviation (input) ZONE_CHANGE_ZERO_POINT :: u16 where "ZONE_CHANGE_ZERO_POINT \<equiv> 0x40"
abbreviation (input) UTC_CHANGE_ZERO_POINT :: u16 where "UTC_CHANGE_ZERO_POINT \<equiv> 0x00FF"

definition bt_mesh_time_decode_time_params :: "u8 list \<Rightarrow> (bt_mesh_time_status \<times> u8 list) res" where
  "bt_mesh_time_decode_time_params buf =
     bindE (bt_mesh_time_buf_pull_tai_sec buf) (\<lambda>(sec, buf).
     bindE (net_buf_simple_pull_u8 buf) (\<lambda>(subsec, buf).
     bindE (net_buf_simple_pull_u8 buf) (\<lambda>(raw_uncertainty, buf).
     bindE (net_buf_simple_pull_le16 buf) (\<lambda>(temp, buf).
     bindE (net_buf_simple_pull_u8 buf) (\<lambda>(zone, buf).
     Inr (\<lparr>st_tai = \<lparr>tai_sec = ucast sec, tai_subsec = subsec\<rparr>, st_uncertainty = ucast raw_uncertainty * 10,
           st_tai_utc_delta = drop_bit 1 temp - UTC_CHANGE_ZERO_POINT, st_time_zone_offset = ucast zone - ZONE_CHANGE_ZERO_POINT,
           st_is_authority = (temp AND 1 \<noteq> 0)\<rparr>, buf))))))"

definition bt_mesh_time_encode_time_params :: "u8 list \<Rightarrow> bt_mesh_time_status \<Rightarrow> u8 list" where
  "bt_mesh_time_encode_time_params buf status =
     (let raw_uncertainty = (if st_uncertainty status < 2550 then ucast (st_uncertainty status div 10) else 0xFF) :: u8;
          buf = bt_mesh_time_buf_put_tai_sec buf (ucast (tai_sec (st_tai status)));
          buf = buf @ [tai_subsec (st_tai status)];
          buf = buf @ [raw_uncertainty];
          buf = buf @ put_le16 ((if st_is_authority status then 1 else 0) OR push_bit 1 (st_tai_utc_delta status + UTC_CHANGE_ZERO_POINT)) in
      buf @ [ucast (st_time_zone_offset status + ZONE_CHANGE_ZERO_POINT)])"

section \<open>Server\<close>

record bt_mesh_time_zone_change =
  zc_new_offset :: u16
  zc_timestamp :: u64

record bt_mesh_time_tai_utc_change =
  uc_delta_new :: u16
  uc_timestamp :: u64

datatype bt_mesh_time_role = BT_MESH_TIME_NONE | BT_MESH_TIME_AUTHORITY | BT_MESH_TIME_RELAY | BT_MESH_TIME_CLIENT

definition role_byte :: "bt_mesh_time_role \<Rightarrow> u8" where
  "role_byte role = (case role of BT_MESH_TIME_NONE \<Rightarrow> 0 | BT_MESH_TIME_AUTHORITY \<Rightarrow> 1 | BT_MESH_TIME_RELAY \<Rightarrow> 2 | BT_MESH_TIME_CLIENT \<Rightarrow> 3)"

definition byte_role :: "u8 \<Rightarrow> bt_mesh_time_role option" where
  "byte_role b = (if b = 0 then Some BT_MESH_TIME_NONE else if b = 1 then Some BT_MESH_TIME_AUTHORITY
     else if b = 2 then Some BT_MESH_TIME_RELAY else if b = 3 then Some BT_MESH_TIME_CLIENT else None)"

record bt_mesh_time_srv_data =
  sync_uptime :: int
  sync_status :: bt_mesh_time_status
  time_zone_change :: bt_mesh_time_zone_change
  tai_utc_change :: bt_mesh_time_tai_utc_change
  srv_role :: bt_mesh_time_role

text \<open>The server: its state, the time to live of its publications and whether it has an update callback.\<close>

record bt_mesh_time_srv =
  srv_data :: bt_mesh_time_srv_data
  srv_pub_ttl :: u8
  srv_time_update_cb :: bool

record time_cfg =
  TIME_SRV_CLOCK_ACCURACY :: int
  TIME_MESH_HOP_UNCERTAINTY :: u64
  BT_SETTINGS :: bool

datatype bt_mesh_time_update_types =
    BT_MESH_TIME_SRV_STATUS_UPDATE | BT_MESH_TIME_SRV_SET_UPDATE | BT_MESH_TIME_SRV_ZONE_UPDATE | BT_MESH_TIME_SRV_UTC_UPDATE

datatype time_op = TIME_STATUS | TIME_ROLE_STATUS | TIME_ZONE_STATUS | TAI_UTC_DELTA_STATUS

record bt_mesh_time_srv_settings_data =
  sd_role :: bt_mesh_time_role
  sd_time_zone_offset_new :: u16
  sd_tai_utc_delta_new :: u16
  sd_tai_of_zone_change :: u64
  sd_tai_of_delta_change :: u64

text \<open>A message is an answer to the sender or a publication.\<close>

datatype time_event = Answer time_op "u8 list" | Publish time_op "u8 list" | Stored bt_mesh_time_srv_settings_data | Updated bt_mesh_time_update_types

definition i64 :: "int \<Rightarrow> int res" where
  "i64 x = (if - (2 ^ 63) \<le> x \<and> x < 2 ^ 63 then Inr x else Inl UB)"

text \<open>The product with the unsigned 60 is unsigned, of 32 bits.\<close>

definition zone_offset_to_sec :: "u16 \<Rightarrow> int" where
  "zone_offset_to_sec raw_zone = uint (of_int (sint raw_zone * 15) * 60 :: u32)"

definition tai_is_unknown :: "bt_mesh_time_tai \<Rightarrow> bool" where
  "tai_is_unknown tai \<longleftrightarrow> tai_sec tai = 0 \<and> tai_subsec tai = 0"

definition tai_at :: "bt_mesh_time_srv \<Rightarrow> int \<Rightarrow> bt_mesh_time_tai res" where
  "tai_at srv uptime =
     (let sync = st_tai (sync_status (srv_data srv)) in
      bindE (i64 (uptime - sync_uptime (srv_data srv))) (\<lambda>elapsed.
      bindE (i64 (256 * elapsed)) (\<lambda>p.
      let steps = p sdiv 1000 in
      Inr (if tai_is_unknown sync then sync
           else \<lparr>tai_sec = tai_sec sync + of_int (steps sdiv 256), tai_subsec = tai_subsec sync + of_int steps\<rparr>))))"

definition store_state :: "time_cfg \<Rightarrow> bt_mesh_time_srv \<Rightarrow> time_event list" where
  "store_state cfg srv =
     (if \<not> BT_SETTINGS cfg then []
      else [Stored \<lparr>sd_role = srv_role (srv_data srv), sd_time_zone_offset_new = zc_new_offset (time_zone_change (srv_data srv)),
        sd_tai_utc_delta_new = uc_delta_new (tai_utc_change (srv_data srv)),
        sd_tai_of_zone_change = zc_timestamp (time_zone_change (srv_data srv)),
        sd_tai_of_delta_change = uc_timestamp (tai_utc_change (srv_data srv))\<rparr>])"

definition get_uncertainty_ms :: "time_cfg \<Rightarrow> bt_mesh_time_srv \<Rightarrow> int \<Rightarrow> u64 res" where
  "get_uncertainty_ms cfg srv uptime =
     bindE (i64 (uptime - sync_uptime (srv_data srv))) (\<lambda>elapsed.
     bindE (i64 (elapsed * TIME_SRV_CLOCK_ACCURACY cfg)) (\<lambda>p.
     Inr (st_uncertainty (sync_status (srv_data srv)) + of_int (p sdiv 1000000))))"

definition get_zone_offset :: "bt_mesh_time_srv \<Rightarrow> int \<Rightarrow> u16 res" where
  "get_zone_offset srv uptime =
     bindE (tai_at srv uptime) (\<lambda>tai.
     let change = time_zone_change (srv_data srv) in
     Inr (if zc_timestamp change \<noteq> 0 \<and> ucast (tai_sec tai) \<ge> zc_timestamp change then zc_new_offset change
          else st_time_zone_offset (sync_status (srv_data srv))))"

definition get_utc_delta :: "bt_mesh_time_srv \<Rightarrow> int \<Rightarrow> u16 res" where
  "get_utc_delta srv uptime =
     bindE (tai_at srv uptime) (\<lambda>tai.
     let change = tai_utc_change (srv_data srv) in
     Inr (if uc_timestamp change \<noteq> 0 \<and> ucast (tai_sec tai) \<ge> uc_timestamp change then uc_delta_new change
          else st_tai_utc_delta (sync_status (srv_data srv))))"

definition bt_mesh_time_srv_status :: "time_cfg \<Rightarrow> bt_mesh_time_srv \<Rightarrow> u64 \<Rightarrow> bt_mesh_time_status res" where
  "bt_mesh_time_srv_status cfg srv uptime =
     (if of_int (sync_uptime (srv_data srv)) > uptime \<or> tai_is_unknown (st_tai (sync_status (srv_data srv))) then Inl EAGAIN else
      bindE (tai_at srv (sint uptime)) (\<lambda>tai.
      bindE (get_uncertainty_ms cfg srv (sint uptime)) (\<lambda>uncertainty.
      bindE (get_utc_delta srv (sint uptime)) (\<lambda>delta.
      bindE (get_zone_offset srv (sint uptime)) (\<lambda>zone.
      Inr \<lparr>st_tai = tai, st_uncertainty = uncertainty, st_tai_utc_delta = delta, st_time_zone_offset = zone,
           st_is_authority = st_is_authority (sync_status (srv_data srv))\<rparr>)))))"

section \<open>Sending\<close>

definition send_zone_status :: "bt_mesh_time_srv \<Rightarrow> int \<Rightarrow> time_event list res" where
  "send_zone_status srv now =
     bindE (get_zone_offset srv now) (\<lambda>current_offset.
     let change = time_zone_change (srv_data srv) in
     Inr [Answer TIME_ZONE_STATUS (bt_mesh_time_buf_put_tai_sec
       [ucast (current_offset + ZONE_CHANGE_ZERO_POINT), ucast (zc_new_offset change + ZONE_CHANGE_ZERO_POINT)] (zc_timestamp change))])"

definition send_tai_utc_delta_status :: "bt_mesh_time_srv \<Rightarrow> int \<Rightarrow> time_event list res" where
  "send_tai_utc_delta_status srv now =
     bindE (get_utc_delta srv now) (\<lambda>delta_current.
     let change = tai_utc_change (srv_data srv) in
     Inr [Answer TAI_UTC_DELTA_STATUS (bt_mesh_time_buf_put_tai_sec
       (put_le16 (delta_current + UTC_CHANGE_ZERO_POINT) @ put_le16 (uc_delta_new change + UTC_CHANGE_ZERO_POINT)) (uc_timestamp change))])"

definition send_role_status :: "bt_mesh_time_srv \<Rightarrow> time_event list" where
  "send_role_status srv = [Answer TIME_ROLE_STATUS [role_byte (srv_role (srv_data srv))]]"

text \<open>Any error gives the message without a time; \<open>send\<close> says whether there is a context (an answer) or not (a publication).\<close>

definition send_time_status :: "time_cfg \<Rightarrow> bt_mesh_time_srv \<Rightarrow> (time_op \<Rightarrow> u8 list \<Rightarrow> time_event) \<Rightarrow> int \<Rightarrow> time_event list res" where
  "send_time_status cfg srv send uptime =
     on_err (bt_mesh_time_srv_status cfg srv (of_int uptime))
       (\<lambda>err. Inr [send TIME_STATUS (bt_mesh_time_buf_put_tai_sec [] 0)])
       (\<lambda>status. Inr [send TIME_STATUS (bt_mesh_time_encode_time_params []
          (status\<lparr>st_uncertainty := st_uncertainty status + TIME_MESH_HOP_UNCERTAINTY cfg\<rparr>))])"

definition bt_mesh_time_srv_time_status_send :: "time_cfg \<Rightarrow> bt_mesh_time_srv \<Rightarrow> (time_op \<Rightarrow> u8 list \<Rightarrow> time_event) \<Rightarrow> int \<Rightarrow> (bt_mesh_time_srv \<times> time_event list) res" where
  "bt_mesh_time_srv_time_status_send cfg srv send now =
     (let srv = srv\<lparr>srv_pub_ttl := 0\<rparr> in bindE (send_time_status cfg srv send now) (\<lambda>evs. Inr (srv, evs)))"

section \<open>Handlers\<close>

definition time_updated :: "bt_mesh_time_srv \<Rightarrow> bt_mesh_time_update_types \<Rightarrow> time_event list" where
  "time_updated srv type = (if srv_time_update_cb srv then [Updated type] else [])"

definition handle_time_status :: "time_cfg \<Rightarrow> bt_mesh_time_srv \<Rightarrow> u8 list \<Rightarrow> int \<Rightarrow> int \<Rightarrow> (bt_mesh_time_srv \<times> time_event list) res" where
  "handle_time_status cfg srv buf now now' =
     (let data = srv_data srv in
      if srv_role data \<noteq> BT_MESH_TIME_CLIENT \<and> srv_role data \<noteq> BT_MESH_TIME_RELAY then Inr (srv, []) else
      bindE (bt_mesh_time_decode_time_params buf) (\<lambda>(status, buf).
      let sync = (sync_status data)\<lparr>st_tai := st_tai status, st_uncertainty := st_uncertainty status,
            st_time_zone_offset := st_time_zone_offset status, st_tai_utc_delta := st_tai_utc_delta status\<rparr>;
          srv = srv\<lparr>srv_data := data\<lparr>sync_uptime := now, sync_status := sync\<rparr>\<rparr>;
          evs = time_updated srv BT_MESH_TIME_SRV_STATUS_UPDATE in
      if srv_role data = BT_MESH_TIME_RELAY then
        bindE (bt_mesh_time_srv_time_status_send cfg srv Publish now') (\<lambda>(srv, evs'). Inr (srv, evs @ evs'))
      else Inr (srv, evs)))"

definition handle_time_get :: "time_cfg \<Rightarrow> bt_mesh_time_srv \<Rightarrow> int \<Rightarrow> (bt_mesh_time_srv \<times> time_event list) res" where
  "handle_time_get cfg srv now = bindE (send_time_status cfg srv Answer now) (\<lambda>evs. Inr (srv, evs))"

definition handle_time_set :: "time_cfg \<Rightarrow> bt_mesh_time_srv \<Rightarrow> u8 list \<Rightarrow> int \<Rightarrow> (bt_mesh_time_srv \<times> time_event list) res" where
  "handle_time_set cfg srv buf now =
     bindE (bt_mesh_time_decode_time_params buf) (\<lambda>(status, buf).
     let srv = srv\<lparr>srv_data := (srv_data srv)\<lparr>sync_status := status, sync_uptime := now\<rparr>\<rparr> in
     bindE (send_time_status cfg srv Answer now) (\<lambda>evs. Inr (srv, time_updated srv BT_MESH_TIME_SRV_SET_UPDATE @ evs)))"

definition handle_zone_get :: "bt_mesh_time_srv \<Rightarrow> int \<Rightarrow> (bt_mesh_time_srv \<times> time_event list) res" where
  "handle_zone_get srv now = bindE (send_zone_status srv now) (\<lambda>evs. Inr (srv, evs))"

definition handle_zone_set :: "time_cfg \<Rightarrow> bt_mesh_time_srv \<Rightarrow> u8 list \<Rightarrow> int \<Rightarrow> (bt_mesh_time_srv \<times> time_event list) res" where
  "handle_zone_set cfg srv buf now =
     bindE (net_buf_simple_pull_u8 buf) (\<lambda>(offset, buf).
     bindE (bt_mesh_time_buf_pull_tai_sec buf) (\<lambda>(timestamp, buf).
     let srv = srv\<lparr>srv_data := (srv_data srv)\<lparr>time_zone_change :=
            \<lparr>zc_new_offset = ucast offset - ZONE_CHANGE_ZERO_POINT, zc_timestamp = timestamp\<rparr>\<rparr>\<rparr> in
     bindE (send_zone_status srv now) (\<lambda>evs.
     Inr (srv, store_state cfg srv @ time_updated srv BT_MESH_TIME_SRV_ZONE_UPDATE @ evs))))"

definition handle_tai_utc_delta_get :: "bt_mesh_time_srv \<Rightarrow> int \<Rightarrow> (bt_mesh_time_srv \<times> time_event list) res" where
  "handle_tai_utc_delta_get srv now = bindE (send_tai_utc_delta_status srv now) (\<lambda>evs. Inr (srv, evs))"

definition handle_tai_utc_delta_set :: "time_cfg \<Rightarrow> bt_mesh_time_srv \<Rightarrow> u8 list \<Rightarrow> int \<Rightarrow> (bt_mesh_time_srv \<times> time_event list) res" where
  "handle_tai_utc_delta_set cfg srv buf now =
     bindE (net_buf_simple_pull_le16 buf) (\<lambda>(delta, buf).
     bindE (bt_mesh_time_buf_pull_tai_sec buf) (\<lambda>(timestamp, buf).
     let srv = srv\<lparr>srv_data := (srv_data srv)\<lparr>tai_utc_change :=
            \<lparr>uc_delta_new = delta - UTC_CHANGE_ZERO_POINT, uc_timestamp = timestamp\<rparr>\<rparr>\<rparr> in
     bindE (send_tai_utc_delta_status srv now) (\<lambda>evs.
     Inr (srv, store_state cfg srv @ time_updated srv BT_MESH_TIME_SRV_UTC_UPDATE @ evs))))"

definition handle_role_get :: "bt_mesh_time_srv \<Rightarrow> bt_mesh_time_srv \<times> time_event list" where
  "handle_role_get srv = (srv, send_role_status srv)"

definition handle_role_set :: "time_cfg \<Rightarrow> bt_mesh_time_srv \<Rightarrow> u8 list \<Rightarrow> (bt_mesh_time_srv \<times> time_event list) res" where
  "handle_role_set cfg srv buf =
     bindE (net_buf_simple_pull_u8 buf) (\<lambda>(b, buf).
     case byte_role b of None \<Rightarrow> Inr (srv, [])
     | Some role \<Rightarrow> let srv = srv\<lparr>srv_data := (srv_data srv)\<lparr>srv_role := role\<rparr>\<rparr> in
         Inr (srv, store_state cfg srv @ send_role_status srv))"

section \<open>Interface\<close>

definition bt_mesh_time_srv_settings_set :: "bt_mesh_time_srv \<Rightarrow> bt_mesh_time_srv_settings_data option \<Rightarrow> bt_mesh_time_srv res" where
  "bt_mesh_time_srv_settings_set srv read = (case read of None \<Rightarrow> Inl EINVAL
     | Some data \<Rightarrow> Inr (srv\<lparr>srv_data := (srv_data srv)\<lparr>srv_role := sd_role data,
         time_zone_change := \<lparr>zc_new_offset = sd_time_zone_offset_new data, zc_timestamp = sd_tai_of_zone_change data\<rparr>,
         tai_utc_change := \<lparr>uc_delta_new = sd_tai_utc_delta_new data, uc_timestamp = sd_tai_of_delta_change data\<rparr>\<rparr>\<rparr>))"

text \<open>The message that is published next, if any.\<close>

definition bt_mesh_time_srv_update_handler :: "time_cfg \<Rightarrow> bt_mesh_time_srv \<Rightarrow> int \<Rightarrow> (time_op \<times> u8 list) res" where
  "bt_mesh_time_srv_update_handler cfg srv now =
     (if srv_role (srv_data srv) \<noteq> BT_MESH_TIME_AUTHORITY \<and> srv_role (srv_data srv) \<noteq> BT_MESH_TIME_RELAY then Inl EPERM else
      bindE (bt_mesh_time_srv_status cfg srv (of_int now)) (\<lambda>status.
      Inr (TIME_STATUS, bt_mesh_time_encode_time_params []
        (status\<lparr>st_uncertainty := st_uncertainty status + TIME_MESH_HOP_UNCERTAINTY cfg\<rparr>))))"

definition bt_mesh_time_srv_localtime_r :: "bt_mesh_time_srv \<Rightarrow> int \<Rightarrow> tm option res" where
  "bt_mesh_time_srv_localtime_r srv uptime =
     (if tai_is_unknown (st_tai (sync_status (srv_data srv))) \<or> sync_uptime (srv_data srv) > uptime then Inr None else
      bindE (tai_at srv uptime) (\<lambda>tai.
      bindE (get_zone_offset srv uptime) (\<lambda>zone.
      bindE (get_utc_delta srv uptime) (\<lambda>delta.
      let tai = tai\<lparr>tai_sec := tai_sec tai + of_int (zone_offset_to_sec zone)\<rparr>; tai = tai\<lparr>tai_sec := tai_sec tai + of_int (sint delta)\<rparr> in
      bindE (tai_to_ts tai) (\<lambda>t. Inr (Some t))))))"

definition bt_mesh_time_srv_uncertainty_get :: "time_cfg \<Rightarrow> bt_mesh_time_srv \<Rightarrow> int \<Rightarrow> u64 res" where
  "bt_mesh_time_srv_uncertainty_get cfg srv uptime =
     bindE (i64 (uptime - sync_uptime (srv_data srv))) (\<lambda>elapsed.
     if elapsed < 0 then Inl EAGAIN else get_uncertainty_ms cfg srv uptime)"

definition bt_mesh_time_srv_time_set :: "bt_mesh_time_srv \<Rightarrow> int \<Rightarrow> bt_mesh_time_status \<Rightarrow> bt_mesh_time_srv" where
  "bt_mesh_time_srv_time_set srv uptime status = srv\<lparr>srv_data := (srv_data srv)\<lparr>sync_uptime := uptime, sync_status := status\<rparr>\<rparr>"

definition bt_mesh_time_srv_time_zone_change_set :: "time_cfg \<Rightarrow> bt_mesh_time_srv \<Rightarrow> bt_mesh_time_zone_change \<Rightarrow> bt_mesh_time_srv \<times> time_event list" where
  "bt_mesh_time_srv_time_zone_change_set cfg srv data =
     (let srv = srv\<lparr>srv_data := (srv_data srv)\<lparr>time_zone_change := data\<rparr>\<rparr> in (srv, store_state cfg srv))"

definition bt_mesh_time_srv_tai_utc_change_set :: "time_cfg \<Rightarrow> bt_mesh_time_srv \<Rightarrow> bt_mesh_time_tai_utc_change \<Rightarrow> bt_mesh_time_srv \<times> time_event list" where
  "bt_mesh_time_srv_tai_utc_change_set cfg srv data =
     (let srv = srv\<lparr>srv_data := (srv_data srv)\<lparr>tai_utc_change := data\<rparr>\<rparr> in (srv, store_state cfg srv))"

definition bt_mesh_time_srv_role_set :: "time_cfg \<Rightarrow> bt_mesh_time_srv \<Rightarrow> bt_mesh_time_role \<Rightarrow> bt_mesh_time_srv \<times> time_event list" where
  "bt_mesh_time_srv_role_set cfg srv role =
     (let srv = srv\<lparr>srv_data := (srv_data srv)\<lparr>srv_role := role\<rparr>\<rparr> in (srv, store_state cfg srv))"

section \<open>Format\<close>

lemma tai_sec_bytes:
  fixes w :: u64
  shows "be32 (ucast (drop_bit 24 w)) (ucast (drop_bit 16 w)) (ucast (drop_bit 8 w)) (ucast w) = ucast w"
proof -
  have "ucast (drop_bit n w) = (ucast (drop_bit n (ucast w :: u32)) :: u8)" if "n \<le> 24" for n
    using that by (intro bit_word_eqI) (auto simp: bit_simps)
  from this [of 24] this [of 16] this [of 8] this [of 0] show ?thesis using be32_put [of "ucast w"] by simp
qed

lemma pull_put_tai_sec:
  "bt_mesh_time_buf_pull_tai_sec (bt_mesh_time_buf_put_tai_sec [] (ucast (sec :: u40)) @ rest) = Inr (ucast sec, rest)"
proof -
  let ?w = "ucast sec :: u64"
  have "ucast (ucast ?w :: u32) OR push_bit 32 (ucast (ucast (drop_bit 32 ?w) :: u8)) = ?w"
    by (rule bit_word_eqI) (auto simp: bit_simps dest: bit_imp_le_length)
  then show ?thesis
    by (simp add: bt_mesh_time_buf_pull_tai_sec_def bt_mesh_time_buf_put_tai_sec_def net_buf_simple_pull_le32_def net_buf_simple_pull_u8_def
        upt_rec tai_sec_bytes)
qed

text \<open>The uncertainty is sent in steps of ten milliseconds, up to the largest byte.\<close>

definition uncertainty_sent :: "u64 \<Rightarrow> u64" where
  "uncertainty_sent u = (if u < 2550 then u div 10 * 10 else 2550)"

definition status_sendable :: "bt_mesh_time_status \<Rightarrow> bool" where
  "status_sendable st \<longleftrightarrow> unat (st_tai_utc_delta st + 0xFF) < 2 ^ 15 \<and> unat (st_time_zone_offset st + 0x40) < 2 ^ 8"

lemma ucast_byte: "unat (w :: u64) < 256 \<Longrightarrow> ucast (ucast w :: u8) = w" "unat (v :: u16) < 256 \<Longrightarrow> ucast (ucast v :: u8) = v"
  by (simp_all add: word_unat_eq_iff unsigned_ucast_eq unsigned_take_bit_eq take_bit_nat_eq_self)

lemma uncertainty_byte:
  "ucast (if u < 2550 then ucast (u div 10) else 0xFF :: u8) * 10 = uncertainty_sent u"
proof (cases "u < (2550 :: u64)")
  case True
  then have "unat u < 2550" by (simp add: word_less_nat_alt)
  then have "unat (u div 10) < 256" by (simp add: unat_div less_mult_imp_div_less)
  then have "ucast (ucast (u div 10) :: u8) = u div 10" by (rule ucast_byte)
  then show ?thesis using True by (simp add: uncertainty_sent_def)
qed (simp add: uncertainty_sent_def)

lemma delta_word:
  fixes d :: u16 assumes "unat d < 2 ^ 15"
  shows "drop_bit 1 ((if a then 1 else 0) OR push_bit 1 d) = d" "((if a then 1 else 0) OR push_bit 1 d) AND 1 = (if a then 1 else 0)"
proof -
  have "unat (push_bit 1 d) = 2 * unat d" using assms by (simp add: push_bit_eq_mult unat_word_ariths)
  then have "drop_bit 1 (push_bit 1 d) = d" unfolding word_unat_eq_iff unat_drop_bit_eq by (simp add: drop_bit_Suc)
  moreover have "drop_bit 1 (if a then 1 else 0 :: u16) = 0" by simp
  ultimately show "drop_bit 1 ((if a then 1 else 0) OR push_bit 1 d) = d" unfolding drop_bit_or by simp
  have "push_bit 1 d AND 1 = 0" by (simp add: and_one_eq even_iff_mod_2_eq_zero [symmetric])
  then show "((if a then 1 else 0) OR push_bit 1 d) AND 1 = (if a then 1 else 0)" unfolding bit.conj_disj_distrib2 by simp
qed

lemma time_params_roundtrip:
  assumes "status_sendable st"
  shows "bt_mesh_time_decode_time_params (bt_mesh_time_encode_time_params [] st @ rest) =
    Inr (st\<lparr>st_uncertainty := uncertainty_sent (st_uncertainty st)\<rparr>, rest)"
proof -
  let ?d = "st_tai_utc_delta st + 0xFF" and ?z = "st_time_zone_offset st + 0x40"
  define raw :: u8 where "raw = (if st_uncertainty st < 2550 then ucast (st_uncertainty st div 10) else 0xFF)"
  define temp :: u16 where "temp = ((if st_is_authority st then 1 else 0) OR push_bit 1 ?d)"
  have t: "drop_bit 1 temp = ?d" "temp AND 1 \<noteq> 0 \<longleftrightarrow> st_is_authority st"
    using delta_word [of ?d "st_is_authority st"] assms by (simp_all add: temp_def status_sendable_def)
  have z: "ucast (ucast ?z :: u8) = ?z" using assms by (intro ucast_byte) (simp add: status_sendable_def)
  have u: "ucast raw * 10 = uncertainty_sent (st_uncertainty st)" unfolding raw_def by (rule uncertainty_byte)
  have e: "bt_mesh_time_encode_time_params [] st @ rest = bt_mesh_time_buf_put_tai_sec [] (ucast (tai_sec (st_tai st))) @
      (tai_subsec (st_tai st) # raw # ucast temp # ucast (drop_bit 8 temp) # ucast ?z # rest)"
    by (simp add: bt_mesh_time_encode_time_params_def Let_def raw_def temp_def put_le16_def)
  have s: "ucast (ucast (tai_sec (st_tai st)) :: u64) = tai_sec (st_tai st)" by (rule bit_word_eqI) (simp add: bit_simps)
  have r: "\<lparr>tai_sec = tai_sec x, tai_subsec = tai_subsec x\<rparr> = x" "\<lparr>st_tai = st_tai st, st_uncertainty = v, st_tai_utc_delta = st_tai_utc_delta st,
      st_time_zone_offset = st_time_zone_offset st, st_is_authority = st_is_authority st\<rparr> = st\<lparr>st_uncertainty := v\<rparr>" for x v
    by simp_all
  show ?thesis unfolding e bt_mesh_time_decode_time_params_def pull_put_tai_sec
    by (simp add: net_buf_simple_pull_u8_def net_buf_simple_pull_le16_def t(1) [unfolded One_nat_def] t(2) z u s r)
qed

section \<open>Exchange\<close>

lemma i64_0 [simp]: "i64 0 = Inr 0"
  by (simp add: i64_def)

lemma tai_at_sync: "tai_at srv (sync_uptime (srv_data srv)) = Inr (st_tai (sync_status (srv_data srv)))"
  by (simp add: tai_at_def Let_def signed_divide_int_def)

text \<open>At the moment of the synchronisation the server has the time it was given.\<close>

lemma status_at_sync:
  assumes "0 \<le> n" "n < 2 ^ 63" "sync_uptime (srv_data srv) = n" "\<not> tai_is_unknown (st_tai (sync_status (srv_data srv)))"
    and "zc_timestamp (time_zone_change (srv_data srv)) = 0" "uc_timestamp (tai_utc_change (srv_data srv)) = 0"
  shows "bt_mesh_time_srv_status cfg srv (of_int n) = Inr (sync_status (srv_data srv))"
proof -
  have n: "sint (of_int n :: u64) = n" using assms(1,2) by (simp add: signed_of_int signed_take_bit_int_eq_self)
  have t: "tai_at srv n = Inr (st_tai (sync_status (srv_data srv)))" using tai_at_sync [of srv] assms(3) by simp
  show ?thesis unfolding bt_mesh_time_srv_status_def n using assms t
    by (simp add: get_uncertainty_ms_def get_utc_delta_def get_zone_offset_def signed_divide_int_def)
qed

text \<open>C24: Time is passed on over the mesh: when a server that knows the time answers or publishes it, and another server in
  the role of a client or a relay, without a pending change of its zone or leap seconds, handles that message, then its status at that moment has
  the time, the leap seconds and the zone of the first one, with the uncertainty increased by that of a hop and rounded down to steps of ten
  milliseconds (2550 at most). The leap seconds and the zone of the first server must be representable on the wire (the leap
  seconds plus 255 in 15 bits, the zone plus 64 in 8 bits): the code cuts other values off.\<close>

theorem time_status_exchange:
  assumes "bt_mesh_time_srv_status cfg s (of_int u) = Inr st" "status_sendable st" "\<not> tai_is_unknown (st_tai st)"
    and "srv_role (srv_data c) = BT_MESH_TIME_CLIENT \<or> srv_role (srv_data c) = BT_MESH_TIME_RELAY" "0 \<le> n" "n < 2 ^ 63"
    and "zc_timestamp (time_zone_change (srv_data c)) = 0" "uc_timestamp (tai_utc_change (srv_data c)) = 0"
  shows "\<exists>bytes c' evs. send_time_status cfg s send u = Inr [send TIME_STATUS bytes] \<and> length bytes = 10 \<and>
    handle_time_status cfg c bytes n n = Inr (c', evs) \<and>
    bt_mesh_time_srv_status cfg c' (of_int n) =
      Inr (st\<lparr>st_uncertainty := uncertainty_sent (st_uncertainty st + TIME_MESH_HOP_UNCERTAINTY cfg),
        st_is_authority := st_is_authority (sync_status (srv_data c))\<rparr>)"
proof -
  let ?st = "st\<lparr>st_uncertainty := st_uncertainty st + TIME_MESH_HOP_UNCERTAINTY cfg\<rparr>"
  let ?new = "st\<lparr>st_uncertainty := uncertainty_sent (st_uncertainty st + TIME_MESH_HOP_UNCERTAINTY cfg),
        st_is_authority := st_is_authority (sync_status (srv_data c))\<rparr>"
  let ?bytes = "bt_mesh_time_encode_time_params [] ?st"
  define c0 where "c0 = c\<lparr>srv_data := (srv_data c)\<lparr>sync_uptime := n, sync_status := ?new\<rparr>\<rparr>"
  have "send_time_status cfg s send u = Inr [send TIME_STATUS ?bytes]" using assms(1) by (simp add: send_time_status_def)
  moreover have "length ?bytes = 10" by (simp add: bt_mesh_time_encode_time_params_def bt_mesh_time_buf_put_tai_sec_def Let_def)
  moreover obtain c' evs where "handle_time_status cfg c ?bytes n n = Inr (c', evs)" "srv_data c' = srv_data c0"
  proof -
    have d: "bt_mesh_time_decode_time_params ?bytes = Inr (?st\<lparr>st_uncertainty := uncertainty_sent (st_uncertainty st + TIME_MESH_HOP_UNCERTAINTY cfg)\<rparr>, [])"
      using time_params_roundtrip [of ?st "[]"] assms(2) by (simp add: status_sendable_def)
    have new: "(sync_status (srv_data c))\<lparr>st_tai := st_tai st, st_uncertainty := uncertainty_sent (st_uncertainty st + TIME_MESH_HOP_UNCERTAINTY cfg),
        st_time_zone_offset := st_time_zone_offset st, st_tai_utc_delta := st_tai_utc_delta st\<rparr> = ?new" by simp
    have st0: "bt_mesh_time_srv_status cfg (c0\<lparr>srv_pub_ttl := 0\<rparr>) (of_int n) = Inr ?new"
      using status_at_sync [of n "c0\<lparr>srv_pub_ttl := 0\<rparr>" cfg] assms(3,5-8) by (simp add: c0_def)
    show thesis
    proof (cases "srv_role (srv_data c) = BT_MESH_TIME_RELAY")
      case True
      then show ?thesis
        using that [of "c0\<lparr>srv_pub_ttl := 0\<rparr>"] d new st0 unfolding handle_time_status_def bt_mesh_time_srv_time_status_send_def send_time_status_def
        by (simp add: Let_def c0_def)
    next
      case False
      then show ?thesis using that [of c0] assms(4) d new by (simp add: handle_time_status_def Let_def c0_def)
    qed
  qed
  moreover from this(2) have "bt_mesh_time_srv_status cfg c' (of_int n) = Inr ?new"
    using status_at_sync [of n c' cfg] assms(3,5-8) by (simp add: c0_def)
  ultimately show ?thesis by blast
qed

text \<open>What is stored is what is restored.\<close>

lemma time_settings_roundtrip:
  assumes "store_state cfg srv = [Stored data]"
  shows "\<exists>srv'. bt_mesh_time_srv_settings_set new (Some data) = Inr srv' \<and> srv_role (srv_data srv') = srv_role (srv_data srv) \<and>
    time_zone_change (srv_data srv') = time_zone_change (srv_data srv) \<and> tai_utc_change (srv_data srv') = tai_utc_change (srv_data srv)"
  using assms by (auto simp: store_state_def bt_mesh_time_srv_settings_set_def split: if_splits)

section \<open>Defects\<close>

text \<open>A zone west of Greenwich gives a large positive number of seconds: an hour west is 136 years east.\<close>

lemma zone_west_wraps: "zone_offset_to_sec (- 4) = 2 ^ 32 - 3600"
  by (simp add: zone_offset_to_sec_def)

text \<open>The fraction of a second has no carry into the seconds: four milliseconds after \<open>10 + 255/256\<close> it is 10.\<close>

lemma tai_at_loses_carry:
  assumes "sync_uptime (srv_data srv) = 0" "st_tai (sync_status (srv_data srv)) = \<lparr>tai_sec = 10, tai_subsec = 255\<rparr>"
  shows "tai_at srv 4 = Inr \<lparr>tai_sec = 10, tai_subsec = 0\<rparr>"
  using assms by (simp add: tai_at_def i64_def tai_is_unknown_def signed_divide_int_def Let_def)

section \<open>An example\<close>

definition demo_time_srv :: "bt_mesh_time_role \<Rightarrow> bt_mesh_time_tai \<Rightarrow> bt_mesh_time_srv" where
  "demo_time_srv role tai = \<lparr>srv_data = \<lparr>sync_uptime = 0, sync_status = \<lparr>st_tai = tai, st_uncertainty = 25, st_tai_utc_delta = 37,
       st_time_zone_offset = 4, st_is_authority = False\<rparr>,
     time_zone_change = \<lparr>zc_new_offset = 0, zc_timestamp = 0\<rparr>, tai_utc_change = \<lparr>uc_delta_new = 0, uc_timestamp = 0\<rparr>,
     srv_role = role\<rparr>, srv_pub_ttl = 5, srv_time_update_cb = True\<rparr>"

theorem time_status_exchange_witness:
  "\<exists>bytes c' evs. send_time_status \<lparr>TIME_SRV_CLOCK_ACCURACY = 0, TIME_MESH_HOP_UNCERTAINTY = 10, BT_SETTINGS = True\<rparr>
       (demo_time_srv BT_MESH_TIME_AUTHORITY \<lparr>tai_sec = 100, tai_subsec = 7\<rparr>) Publish 0 = Inr [Publish TIME_STATUS bytes] \<and>
     handle_time_status \<lparr>TIME_SRV_CLOCK_ACCURACY = 0, TIME_MESH_HOP_UNCERTAINTY = 10, BT_SETTINGS = True\<rparr>
       (demo_time_srv BT_MESH_TIME_CLIENT \<lparr>tai_sec = 0, tai_subsec = 0\<rparr>) bytes 5000 5000 = Inr (c', evs) \<and>
     bt_mesh_time_srv_status \<lparr>TIME_SRV_CLOCK_ACCURACY = 0, TIME_MESH_HOP_UNCERTAINTY = 10, BT_SETTINGS = True\<rparr> c' 5000 =
       Inr \<lparr>st_tai = \<lparr>tai_sec = 100, tai_subsec = 7\<rparr>, st_uncertainty = 30, st_tai_utc_delta = 37, st_time_zone_offset = 4, st_is_authority = False\<rparr>"
proof -
  let ?cfg = "\<lparr>TIME_SRV_CLOCK_ACCURACY = 0, TIME_MESH_HOP_UNCERTAINTY = 10, BT_SETTINGS = True\<rparr>"
  let ?s = "demo_time_srv BT_MESH_TIME_AUTHORITY \<lparr>tai_sec = 100, tai_subsec = 7\<rparr>"
  let ?st = "sync_status (srv_data ?s)"
  have st: "bt_mesh_time_srv_status ?cfg ?s (of_int 0) = Inr ?st"
    by (rule status_at_sync) (simp_all add: demo_time_srv_def tai_is_unknown_def)
  have "status_sendable ?st" "\<not> tai_is_unknown (st_tai ?st)" "uncertainty_sent 35 = 30"
    by (simp_all add: demo_time_srv_def status_sendable_def tai_is_unknown_def uncertainty_sent_def)
  then show ?thesis
    using time_status_exchange [OF st, of "demo_time_srv BT_MESH_TIME_CLIENT \<lparr>tai_sec = 0, tai_subsec = 0\<rparr>" 5000 Publish]
    by (auto simp: demo_time_srv_def)
qed

end
