(* ===== verification/Spec2Isabelle.thy ===== *)
theory Spec2Isabelle
  imports Ndef_Payloads Ndef_Ch_Parser Ndef_Le_Oob_Parser T4t_Hl T2t_Parser Tnep_Demo At_Response Bl_Demo Mesh_Time
begin

text \<open>
  A verification of the NFC protocol stack of the nRF Connect SDK (\<open>src/subsys/nfc\<close>,
  \<open>src/include/nfc\<close>), of its AT command parser (\<open>src/lib/at_cmd_parser\<close>, \<open>src/include/modem\<close>), of its
  secure bootloader (\<open>src/subsys/bootloader\<close>, \<open>src/subsys/fw_info\<close>, \<open>src/samples/bootloader\<close>) and of the time server and
  the utilities of its Bluetooth mesh models (\<open>src/subsys/bluetooth/mesh\<close>).

  \<^bold>\<open>The program.\<close> The stack lets a device read, write and build NFC tags. At the bottom are the tag
  types: a Type 2 Tag is a memory image that is parsed as a whole; a Type 4 Tag is a file system that is
  accessed with command and response APDUs, which travel in blocks over the ISO-DEP protocol. In the files
  are NDEF messages, lists of records with a type, an identifier and a payload. Payloads can be URIs,
  texts, Bluetooth out-of-band data or Connection Handover records, which contain NDEF messages again. On top
  of NDEF messages is the Tag NDEF Exchange Protocol (TNEP): a tag announces services, a poller selects one by
  writing a message and reads the answers. Independent of NFC is the AT command parser, through which the modem
  libraries read the responses of the modem: it cuts a string into parameters, which it stores in a list
  of tagged values that owns heap blocks for strings and arrays. The secure bootloader chooses between two image slots,
  checks the image against the keys and the version counter of the provisioned storage, which can only be
  extended and not rewritten, and jumps into it. The mesh time server keeps the time it was given with the uptime of that
  moment, answers from them, and passes the time on.

  \<^bold>\<open>Theories and sources.\<close>
  \<^item> \<open>Nfc_Prelude\<close>: machine words, error values, byte pointers and memory accesses, byte order,
    sequencing of fallible operations; the locale \<open>bounded_list\<close> is the contract of all descriptors that
    collect items in an array of the caller. It is interpreted for messages (\<open>Ndef_Msg\<close>), handover
    records (\<open>Ndef_Ch\<close>), CC files (\<open>T4t_Cc\<close>) and Type 2 Tag descriptors (\<open>T2t_Parser\<close>).
  \<^item> \<open>Ndef_Record\<close> (\<open>ndef/record.c\<close>), \<open>Ndef_Msg\<close> (\<open>ndef/msg.c\<close>): descriptors as records, payload
    constructors as functions from an output buffer to the bytes stored and the length; the encoders
    equal a declarative description of the bytes, in both their size and their writing mode; the begin and end flags of
    the records are described by \<open>message_mark\<close>, from the record's place in the list alone.
  \<^item> \<open>Ndef_Parser\<close> (\<open>ndef/record_parser.c\<close>, \<open>ndef/msg_parser.c\<close>, \<open>ndef/msg_parser_local.c\<close>): parsing
    inverts encoding, never leaves the data and places its results inside the result buffer. \<open>Ndef_Lengths\<close>: the lengths
    that the bytes of a message announce, when their sum cannot wrap around in the parser, and that the descriptors of
    such a message are safe to use.
  \<^item> \<open>Ndef_Payloads\<close> (\<open>ndef/uri_rec.c\<close>, \<open>uri_msg.c\<close>, \<open>text_rec.c\<close>, \<open>tnep_rec.c\<close>): payload constructors that
    the message theorems apply to.
  \<^item> \<open>Ndef_Ch\<close> (\<open>ndef/ch.c\<close>, \<open>ch_msg.c\<close>), \<open>Ndef_Ch_Parser\<close> (\<open>ndef/ch_rec_parser.c\<close>): Connection Handover.
  \<^item> \<open>Ndef_Alloc\<close>, \<open>Ndef_Le_Oob\<close> (\<open>ndef/le_oob_rec.c\<close>), \<open>Ndef_Le_Oob_Parser\<close> (\<open>ndef/le_oob_rec_parser.c\<close>):
    Bluetooth out-of-band records; the AD type constants and the buffer allocator are parameters.
  \<^item> \<open>T4t_Tlv\<close> (\<open>t4t/tlv_block.c\<close>, \<open>ndef_file.c\<close>), \<open>T4t_Cc\<close> (\<open>t4t/cc_file.c\<close>), \<open>T4t_Apdu\<close> (\<open>t4t/apdu.c\<close>): the
    data formats of a Type 4 Tag, each compared with a declarative description.
  \<^item> \<open>T4t_Isodep\<close> (\<open>t4t/isodep.c\<close>): the static structure as a record, one definition per function, callbacks
    as events; the invariant, preserved by every operation, and reachability over arbitrary calls.
    \<open>T4t_Isodep_Exchange\<close>: what sequences of calls achieve (chaining, reassembly, giving up) and which frames
    the code does not check.
  \<^item> \<open>T4t_Hl\<close> (\<open>t4t/hl_procedure.c\<close>): the select, read and update procedures on top of ISO-DEP and the APDUs, run
    against a tag that stores a file.
  \<^item> \<open>T2t_Parser\<close> (\<open>t2t/parser.c\<close>): the memory image parser.
  \<^item> \<open>Tnep_Tag\<close> (\<open>tnep/tag.c\<close>): the static structures as one record, the buffers as objects of a store, one
    definition per function, the calls that callbacks make as lists of calls. \<open>Tnep_Tag_Inv\<close>: the invariant and
    the safety of encoding and of the callbacks; \<open>Tnep_Tag_Spec\<close>: the abstract protocol (what a received message
    asks for, the next state and the callbacks) and that the handlers simulate it, for an initial message with or without
    additional records (\<open>initial_records\<close>); \<open>Tnep_Tag_Run\<close>: reachability over arbitrary legal calls and the properties of the
    tag.
  \<^item> \<open>Tnep_Poller\<close> (\<open>tnep/poller.c\<close>): the poller, one definition per function, with the NDEF interface and the
    clock as parameters. \<open>Tnep_Poller_Run\<close>: the search for services and waiting for answers.
  \<^item> \<open>Tnep_Exchange\<close>: both sides together; \<open>Tnep_Demo\<close>: a concrete tag with an additional record in its initial message, at
    which the properties are applied, and the messages on which it is not safe.
  \<^item> \<open>At_Params\<close> (\<open>at_params.c\<close>): parameter lists with an explicit heap; the heap of the kernel is a parameter
    with the law \<open>k_heap_ok\<close> (a request fails or returns an unused block of the size asked for).
    \<open>At_Parser\<close> (\<open>at_cmd_parser.c\<close>, \<open>at_utils.h\<close>): the parser, with the functions of \<open>ctype.h\<close>, \<open>strlen\<close> and
    \<open>strtoul\<close> written out; \<open>At_Safe\<close>: its safety and the inputs on which it is not safe;
    \<open>At_Response\<close>: what it makes of well-formed responses and commands.
  \<^item> \<open>Bl_Storage\<close> (\<open>bl_storage.c\<close>): the provisioned storage in a flat memory; the flash driver is a parameter with the
    law \<open>nvmc_ok\<close> (a write to an aligned word clears bits and changes nothing else), and the layout, the configuration and
    the cryptographic primitives are fields of the record \<open>bl_env\<close>. \<open>Bl_Storage_Inv\<close>: what its operations do to
    provisioned storage, as a step relation. \<open>Bl_Validation\<close> (\<open>fw_info.h\<close>, \<open>fw_info.c\<close>, \<open>bl_crypto.c\<close> with the Oberon
    back-end, \<open>bl_validation.c\<close>, \<open>bl_boot.c\<close>, \<open>main.c\<close>): firmware information, validation and boot; \<open>Bl_Trust\<close>: when
    an image is trusted, stated over the memory and the cryptographic primitives alone, for both the signature and the hash
    configuration; \<open>Bl_Boot\<close>: that just these images are accepted, what validation does to the keys, and that booting prevents rollback, over the locale \<open>monotone_store\<close>, the contract boot relies on, interpreted
    for the storage; \<open>Bl_Demo\<close>: a provisioned device at which the properties are applied.
  \<^item> \<open>Mesh_Util\<close> (\<open>time_util.c\<close>, \<open>model_utils.c\<close>): calendar conversion and the encoding of transition times, delays and
    transactions. \<open>Mesh_Time\<close> (\<open>time.c\<close>, \<open>time_internal.h\<close>, \<open>time_srv.c\<close>): the message format and the server; messages,
    storage and callbacks are events, the clock and the configuration are parameters.

  \<^bold>\<open>Conventions.\<close> An \<open>errno\<close> is an error value; undefined behaviour (an access outside an object or through
  NULL) is the value \<open>UB\<close>, so memory safety is a theorem. Functions that return an error in the left
  summand do not show what they had stored in their outputs by then; the ISO-DEP, high level, Type 2 Tag,
  TNEP and AT models return the state together with the error instead. Sizes are words and wrap around where those of the
  code do. \<open>size_t\<close> has 32 bits. The loops of the code are recursive functions with termination proofs; only the
  loop of the LE OOB parser, which need not advance, takes fuel, and C14 shows how much is enough. The number of rounds in the theorems about procedures and retries is part of their
  statements.

  \<^bold>\<open>What is shown.\<close> The properties carry the numbers C1 to C40 in their theories: encoders produce the
  specified bytes (C1--C3, C11), parsers accept exactly or invert them (C5, C13, C17, C19--C21,
  C37), stay in bounds and terminate (C7, C8, C14, C36), descriptors keep their invariants (C4),
  the ISO-DEP state machine keeps its invariant without undefined behaviour (C27), refines block exchange
  (C28, C29) and gives up in time (C30), the file procedures read and write the tag's file (C33, C35). The TNEP
  tag is safe from every state that legal calls reach, as long as no received record announces a payload of nearly \<open>2 ^ 32\<close>
  bytes (C38), refines the abstract protocol (C39) and serves the
  answers (C40); the poller finds the announced services (C10) and stops waiting (C15); a selection by the
  poller selects the service on the tag (C26) and the answer reaches the poller (C32). AT parameter lists are well
  typed and neither leak nor free a block twice (C6); the AT parser is safe on every string that is followed by a second
  NUL (C12) and gives back the parameters of every well-formed response (C16).
  The bootloader's counter takes every larger value below \<open>0xFFFF\<close> while slots are free (C18), neither the counter nor the revocation of keys
  can be taken back (C31), validation accepts exactly the trusted images (C9), and only trusted images are booted, after which no
  older image is accepted if the counter could take the version (C25). Calendar conversion is inverted for every time (C22), transition times are encoded by the nearest value (C23), and
  the time a mesh server sends is the time its client has (C24).
  Defects of the code are theorems as well (C34) and lemmas (\<open>ac_parse_only_without_aux\<close>, \<open>isodep_error_stays_busy\<close>,
  \<open>record_parse_length_wraps\<close>, \<open>le_oob_empty_name_rejected\<close>, \<open>initial_limit_refuses\<close>, \<open>overlong_record_ub\<close>,
  \<open>bl_counter_accepts_ffff\<close>, \<open>bl_full_counter_kept\<close>,
  \<open>le_oob_zero_length_ad_overreads\<close>, \<open>apdu_size_wraps\<close>, \<open>isodep_unchecked_frames\<close>, \<open>search_overruns\<close>,
  \<open>min_wait_time_ub\<close>, \<open>status_check_overreads\<close>, \<open>timeout_keeps_count\<close>, \<open>read_without_service_ub\<close>,
  \<open>empty_answer_nonempty\<close>, \<open>at_parse_ok_overreads\<close>, \<open>at_parse_large_number_cut\<close>,
  \<open>at_parse_exact_fit_e2big\<close>, \<open>bl_main_no_s0_ub\<close>, \<open>bl_validate_no_info_ub\<close>, \<open>bl_version_overflow\<close>,
  \<open>tai_first_of_february\<close>, \<open>zone_west_wraps\<close>, \<open>tai_at_loses_carry\<close>).

  \<^bold>\<open>Not modelled.\<close> Logging and the printout functions; the platform layer of the NFC library and the reader chip
  driver, which access hardware; concurrency: every handler runs to completion, as it does under the
  single work queue the samples use. Of the bootloader: the accelerator back-end of its cryptography, the preparation
  of the processor before the jump, and the calls through external interfaces; every address of its memory can be read.
  Of the mesh models: \<open>bt_mesh_time_srv_mktime\<close>, whose arithmetic on wide bit-fields depends on the compiler, and the calls
  into the mesh stack. The rest of the SDK (other Bluetooth parts, modem control, cloud, drivers, applications)
  is independent of these parts and left out.
\<close>

end
